(* ===== verification/Prelude.thy ===== *)
theory Prelude
  imports Main "HOL-Library.Word" "HOL-Library.Signed_Division"
begin

text \<open>
  Shared vocabulary of the development: the machine types of the Go sources, the results of
  fallible code, the byte encodings of the standard library that the sources call
  (\<^verbatim>\<open>encoding/binary\<close>, \<^verbatim>\<open>bytes.Reader\<close>, \<^verbatim>\<open>math/big\<close>), and the generic lemmas the
  component theories use.

  \<^item> A \<^verbatim>\<open>byte\<close> is an 8-bit word, \<^verbatim>\<open>Hash32\<close> (a 32-byte array) the 256-bit word its bytes
    spell in big-endian order and a public key hash the 160-bit word: these are bijections
    between the arrays and the words, equality is equality, and \<^verbatim>\<open>bytes.Compare\<close> is the
    order of the words.
  \<^item> \<^verbatim>\<open>uint32\<close> and \<^verbatim>\<open>uint64\<close> fields are words; \<^verbatim>\<open>int64\<close> values are integers, with
    \<open>wrap64\<close> written out wherever the code's arithmetic could leave the range.
  \<^item> A Go string of an address is the list of its code points (what \<^verbatim>\<open>range\<close> yields); byte
    order of UTF-8 strings is the lexicographic order of their code points.
  \<^item> A returned error is a value of \<open>error\<close>; a nil dereference, an index out of range and a
    division by zero are the value \<open>Panic\<close>; a loop that does not end is \<open>Diverges\<close>.
\<close>

section \<open>Types\<close>

type_synonym byte = "8 word"
type_synonym Hash32 = "256 word"
type_synonym PKH = "160 word"
type_synonym uint32 = "32 word"
type_synonym uint64 = "64 word"
type_synonym rune = nat

datatype error =
    Err string
  | ErrMoneyRange string
  | Wrapped string error
  | EOF
  | UnexpectedEOF
  | Panic string
  | Diverges

type_synonym 'a res = "error + 'a"

text \<open>Lemma collections: \<open>codec\<close> for the byte encodings, \<open>money\<close> for checked sums,
  \<open>steps\<close> for inverting a successful run of sequential code.\<close>

named_theorems codec
named_theorems money
named_theorems steps

section \<open>Sequencing of fallible code\<close>

definition bindE :: "'a res \<Rightarrow> ('a \<Rightarrow> 'b res) \<Rightarrow> 'b res" where
  "bindE m f = (case m of Inl e \<Rightarrow> Inl e | Inr x \<Rightarrow> f x)"

text \<open>\<open>if cond { return err }\<close> followed by the rest of the function body.\<close>

definition failIf :: "bool \<Rightarrow> error \<Rightarrow> 'a res \<Rightarrow> 'a res" where
  "failIf c e k = (if c then Inl e else k)"

text \<open>Dereferencing a pointer that may be nil.\<close>

definition deref :: "'a option \<Rightarrow> 'a res" where
  "deref p = (case p of None \<Rightarrow> Inl (Panic ''nil dereference'') | Some x \<Rightarrow> Inr x)"

fun foldE :: "('s \<Rightarrow> 'a \<Rightarrow> 's res) \<Rightarrow> 's \<Rightarrow> 'a list \<Rightarrow> 's res" where
  "foldE f s [] = Inr s"
| "foldE f s (x # xs) = bindE (f s x) (\<lambda>s'. foldE f s' xs)"

fun mapE :: "('a \<Rightarrow> 'b res) \<Rightarrow> 'a list \<Rightarrow> 'b list res" where
  "mapE f [] = Inr []"
| "mapE f (x # xs) = bindE (f x) (\<lambda>y. bindE (mapE f xs) (\<lambda>ys. Inr (y # ys)))"

lemma bindE_simps [simp]: "bindE (Inl e) f = Inl e" "bindE (Inr x) f = f x"
  by (simp_all add: bindE_def)

lemma bindE_Inr_iff [steps]: "bindE m f = Inr y \<longleftrightarrow> (\<exists>x. m = Inr x \<and> f x = Inr y)"
  by (cases m) auto

lemma bindE_Inl_iff: "bindE m f = Inl e \<longleftrightarrow> m = Inl e \<or> (\<exists>x. m = Inr x \<and> f x = Inl e)"
  by (cases m) auto

lemma failIf_Inr_iff [steps]: "failIf c e k = Inr y \<longleftrightarrow> \<not> c \<and> k = Inr y"
  by (simp add: failIf_def)

lemma failIf_simps [simp]: "failIf True e k = Inl e" "failIf False e k = k"
  by (simp_all add: failIf_def)

lemma deref_simps [simp]: "deref None = Inl (Panic ''nil dereference'')" "deref (Some x) = Inr x"
  by (simp_all add: deref_def)

lemma deref_Inr_iff [steps]: "deref p = Inr x \<longleftrightarrow> p = Some x"
  by (cases p) auto

lemma foldE_append: "foldE f s (xs @ ys) = bindE (foldE f s xs) (\<lambda>s'. foldE f s' ys)"
proof (induction xs arbitrary: s)
  case Nil
  show ?case by simp
next
  case (Cons x xs)
  show ?case by (cases "f s x") (simp_all add: Cons)
qed

text \<open>An invariant of the loop body holds after the whole loop.\<close>

lemma foldE_invariant:
  assumes "foldE f s xs = Inr s'"
    and "P s"
    and "\<And>s x s'. P s \<Longrightarrow> x \<in> set xs \<Longrightarrow> f s x = Inr s' \<Longrightarrow> P s'"
  shows "P s'"
  using assms
proof (induction xs arbitrary: s)
  case Nil
  then show ?case by simp
next
  case (Cons x xs)
  from Cons.prems(1) obtain t where t: "f s x = Inr t" and rest: "foldE f t xs = Inr s'"
    by (auto simp: bindE_Inr_iff)
  have "P t" using Cons.prems(3) [OF Cons.prems(2) _ t] by simp
  moreover have "\<And>s x s'. P s \<Longrightarrow> x \<in> set xs \<Longrightarrow> f s x = Inr s' \<Longrightarrow> P s'"
    using Cons.prems(3) by (meson list.set_intros(2))
  ultimately show ?case using rest Cons.IH by blast
qed

lemma mapE_map: "(\<And>x. x \<in> set xs \<Longrightarrow> f x = Inr (g x)) \<Longrightarrow> mapE f xs = Inr (map g xs)"
  by (induction xs) simp_all

lemma mapE_comp: "mapE f (map g xs) = mapE (f \<circ> g) xs"
  by (induction xs) simp_all

lemma mapE_deref_Inr_iff [steps]: "mapE deref ps = Inr xs \<longleftrightarrow> ps = map Some xs"
  by (induction ps arbitrary: xs) (auto simp: bindE_Inr_iff deref_Inr_iff)

lemma mapE_deref_map_Some [simp]: "mapE deref (map Some xs) = Inr xs"
  by (simp add: mapE_deref_Inr_iff)

section \<open>64-bit signed arithmetic\<close>

definition wrap64 :: "int \<Rightarrow> int" where
  "wrap64 x = (x + 2 ^ 63) mod 2 ^ 64 - 2 ^ 63"

definition is_int64 :: "int \<Rightarrow> bool" where
  "is_int64 x \<longleftrightarrow> - (2 ^ 63) \<le> x \<and> x < 2 ^ 63"

lemma is_int64_wrap64 [simp]: "is_int64 (wrap64 x)"
proof -
  have "0 \<le> (x + 2 ^ 63) mod 2 ^ 64" "(x + 2 ^ 63) mod 2 ^ 64 < 2 ^ 64" by simp_all
  then show ?thesis by (simp add: is_int64_def wrap64_def)
qed

lemma wrap64_id: "is_int64 x \<Longrightarrow> wrap64 x = x"
  by (simp add: is_int64_def wrap64_def)

text \<open>The conversions \<open>uint64(v)\<close> of an \<^verbatim>\<open>int64\<close> and \<open>int64(v)\<close> of a \<^verbatim>\<open>uint64\<close>.\<close>

definition u64_of :: "int \<Rightarrow> nat" where
  "u64_of v = nat (v mod 2 ^ 64)"

definition sint64 :: "nat \<Rightarrow> int" where
  "sint64 v = wrap64 (int v)"

lemma sint64_u64_of [simp]: "is_int64 v \<Longrightarrow> sint64 (u64_of v) = v"
proof -
  assume v: "is_int64 v"
  have "sint64 (u64_of v) = wrap64 (v mod 2 ^ 64)" by (simp add: sint64_def u64_of_def)
  also have "\<dots> = wrap64 v" by (simp add: wrap64_def mod_add_left_eq)
  also have "\<dots> = v" using v by (rule wrap64_id)
  finally show ?thesis .
qed

lemma is_int64_sint64 [simp]: "is_int64 (sint64 v)"
  by (simp add: sint64_def)

lemma u64_of_bound: "u64_of v < 2 ^ 64"
proof -
  have "v mod 2 ^ 64 < 2 ^ 64" by simp
  then show ?thesis by (simp add: u64_of_def nat_less_iff)
qed

lemma u64_of_small: "0 \<le> v \<Longrightarrow> v < 2 ^ 64 \<Longrightarrow> u64_of v = nat v"
  by (simp add: u64_of_def)

section \<open>Fixed-width integers as bytes\<close>

fun le_bytes :: "nat \<Rightarrow> nat \<Rightarrow> byte list" where
  "le_bytes 0 v = []"
| "le_bytes (Suc n) v = of_nat (v mod 256) # le_bytes n (v div 256)"

fun le_nat :: "byte list \<Rightarrow> nat" where
  "le_nat [] = 0"
| "le_nat (b # bs) = unat b + 256 * le_nat bs"

definition be_bytes :: "nat \<Rightarrow> nat \<Rightarrow> byte list" where
  "be_bytes n v = rev (le_bytes n v)"

definition be_nat :: "byte list \<Rightarrow> nat" where
  "be_nat bs = le_nat (rev bs)"

lemma length_le_bytes [simp]: "length (le_bytes n v) = n"
  by (induction n arbitrary: v) auto

lemma length_be_bytes [simp]: "length (be_bytes n v) = n"
  by (simp add: be_bytes_def)

lemma unat_byte_of_nat: "unat (of_nat n :: byte) = n mod 256"
  by (simp add: unat_of_nat)

lemma le_nat_le_bytes: "le_nat (le_bytes n v) = v mod 256 ^ n"
proof (induction n arbitrary: v)
  case 0
  show ?case by simp
next
  case (Suc n)
  have "v mod 256 + 256 * ((v div 256) mod 256 ^ n) = v mod 256 ^ Suc n"
    by (simp add: mod_mult2_eq add.commute)
  then show ?case by (simp add: Suc unat_byte_of_nat)
qed

lemma le_nat_bound: "le_nat bs < 256 ^ length bs"
proof (induction bs)
  case Nil
  show ?case by simp
next
  case (Cons b bs)
  have "unat b < 256" using unsigned_less [of b, where ?'a = nat] by simp
  then show ?case using Cons by simp
qed

lemma le_bytes_le_nat: "length bs = n \<Longrightarrow> le_bytes n (le_nat bs) = bs"
proof (induction bs arbitrary: n)
  case Nil
  then show ?case by simp
next
  case (Cons b bs)
  have b: "unat b < 256" using unsigned_less [of b, where ?'a = nat] by simp
  have "of_nat ((unat b + 256 * le_nat bs) mod 256) = b"
    using b by simp
  moreover have "(unat b + 256 * le_nat bs) div 256 = le_nat bs" using b by simp
  ultimately show ?case using Cons by auto
qed

lemma be_nat_be_bytes: "be_nat (be_bytes n v) = v mod 256 ^ n"
  by (simp add: be_nat_def be_bytes_def le_nat_le_bytes)

lemma be_nat_bound: "be_nat bs < 256 ^ length bs"
  using le_nat_bound [of "rev bs"] by (simp add: be_nat_def)

lemma be_bytes_be_nat: "length bs = n \<Longrightarrow> be_bytes n (be_nat bs) = bs"
  by (simp add: be_nat_def be_bytes_def le_bytes_le_nat)

lemma le_nat_append: "le_nat (xs @ ys) = le_nat xs + 256 ^ length xs * le_nat ys"
  by (induction xs) (simp_all add: algebra_simps)

subsection \<open>The arrays \<^verbatim>\<open>[32]byte\<close> and \<^verbatim>\<open>[20]byte\<close>\<close>

definition hash_bytes :: "Hash32 \<Rightarrow> byte list" where
  "hash_bytes h = be_bytes 32 (unat h)"

text \<open>\<open>copy(out[:], b)\<close> into a zeroed array: missing bytes stay zero, extra bytes are dropped.\<close>

definition copy_array :: "nat \<Rightarrow> byte list \<Rightarrow> byte list" where
  "copy_array n b = take n b @ replicate (n - length b) 0"

definition hash_of :: "byte list \<Rightarrow> Hash32" where
  "hash_of b = of_nat (be_nat (copy_array 32 b))"

definition pkh_bytes :: "PKH \<Rightarrow> byte list" where
  "pkh_bytes h = be_bytes 20 (unat h)"

definition pkh_of :: "byte list \<Rightarrow> PKH" where
  "pkh_of b = of_nat (be_nat (copy_array 20 b))"

lemma length_hash_bytes [simp]: "length (hash_bytes h) = 32"
  by (simp add: hash_bytes_def)

lemma length_pkh_bytes [simp]: "length (pkh_bytes h) = 20"
  by (simp add: pkh_bytes_def)

lemma length_copy_array [simp]: "length (copy_array n b) = n"
  by (simp add: copy_array_def)

lemma copy_array_id [simp]: "length b = n \<Longrightarrow> copy_array n b = b"
  by (simp add: copy_array_def)

lemma hash_of_bytes [simp, codec]: "hash_of (hash_bytes h) = h"
proof -
  have "unat h < 256 ^ 32" using unsigned_less [of h, where ?'a = nat] by simp
  then show ?thesis by (simp add: hash_of_def hash_bytes_def be_nat_be_bytes)
qed

lemma pkh_of_bytes [simp, codec]: "pkh_of (pkh_bytes h) = h"
proof -
  have "unat h < 256 ^ 20" using unsigned_less [of h, where ?'a = nat] by simp
  then show ?thesis by (simp add: pkh_of_def pkh_bytes_def be_nat_be_bytes)
qed

lemma hash_bytes_hash_of: "length b = 32 \<Longrightarrow> hash_bytes (hash_of b) = b"
  using be_nat_bound [of b] by (simp add: hash_of_def hash_bytes_def unat_of_nat be_bytes_be_nat)

lemma hash_bytes_inj: "hash_bytes a = hash_bytes b \<Longrightarrow> a = b"
  by (metis hash_of_bytes)

section \<open>Reachable states\<close>

inductive reach :: "('s \<Rightarrow> bool) \<Rightarrow> ('s \<Rightarrow> 's \<Rightarrow> bool) \<Rightarrow> 's \<Rightarrow> bool" for init step where
  reach_init: "init s \<Longrightarrow> reach init step s"
| reach_step: "reach init step s \<Longrightarrow> step s s' \<Longrightarrow> reach init step s'"

text \<open>A state machine with an invariant: it holds in every reachable state.\<close>

locale state_machine =
  fixes init :: "'s \<Rightarrow> bool"
    and step :: "'s \<Rightarrow> 's \<Rightarrow> bool"
    and inv :: "'s \<Rightarrow> bool"
  assumes init_inv: "init s \<Longrightarrow> inv s"
    and step_inv: "inv s \<Longrightarrow> step s s' \<Longrightarrow> inv s'"
begin

lemma reach_inv: "reach init step s \<Longrightarrow> inv s"
  by (induction rule: reach.induct) (auto intro: init_inv step_inv)

text \<open>A reflexive and transitive relation that holds for each step from an invariant state
  relates every state to the states reached from it.\<close>

lemma steps_related:
  assumes "step\<^sup>*\<^sup>* s t" and "inv s"
    and "\<And>a. R a a" and "\<And>a b c. R a b \<Longrightarrow> R b c \<Longrightarrow> R a c" and "\<And>a b. inv a \<Longrightarrow> step a b \<Longrightarrow> R a b"
  shows "R s t"
proof -
  have "R s t \<and> inv t"
    using assms(1)
  proof (induction rule: rtranclp_induct)
    case base
    show ?case using assms(2,3) by simp
  next
    case (step y z)
    then show ?case using assms(4,5) step_inv by blast
  qed
  then show ?thesis ..
qed

end

end
