(* ===== verification/Codec.thy ===== *)
theory Codec
  imports Prelude
begin

text \<open>
  The readers and writers of Go's standard library that the wire formats are built from:
  \<^verbatim>\<open>binary.PutUvarint\<close> / \<^verbatim>\<open>binary.ReadUvarint\<close>, \<^verbatim>\<open>binary.Read\<close> of fixed-width integers and
  \<^verbatim>\<open>bytes.Reader.Read\<close>. A reader maps the unread bytes to a value and the bytes left.
  The locale \<open>byte_codec\<close> states the law a matching writer and reader satisfy; a counted
  sequence of elements is read back whenever one element is, proved once in the locale.
\<close>

type_synonym 'a reader = "byte list \<Rightarrow> ('a \<times> byte list) res"

section \<open>Operations\<close>

text \<open>\<^verbatim>\<open>binary.PutUvarint\<close>: seven bits per byte, low bits first; \<open>byte(x) | 0x80\<close> keeps the
  low seven bits and sets the top bit.\<close>

fun put_uvarint :: "nat \<Rightarrow> byte list" where
  "put_uvarint v =
     (if v < 128 then [of_nat v] else of_nat (v mod 128 + 128) # put_uvarint (v div 128))"

declare put_uvarint.simps [simp del]

text \<open>\<^verbatim>\<open>binary.ReadUvarint\<close>: at most ten bytes, the tenth at most 1; the bits of the bytes are
  disjoint, so \<open>x | b << s\<close> is a sum.\<close>

fun read_uvarint_loop :: "nat \<Rightarrow> nat \<Rightarrow> nat reader" where
  "read_uvarint_loop i x [] =
     (if i \<ge> 10 then Inl (Err ''binary: varint overflows a 64-bit integer'')
      else Inl (if i > 0 then UnexpectedEOF else EOF))"
| "read_uvarint_loop i x (b # r) =
     (if i \<ge> 10 then Inl (Err ''binary: varint overflows a 64-bit integer'')
      else if unat b < 128 then
        (if i = 9 \<and> unat b > 1 then Inl (Err ''binary: varint overflows a 64-bit integer'')
         else Inr (x + unat b * 2 ^ (7 * i), r))
      else read_uvarint_loop (Suc i) (x + (unat b mod 128) * 2 ^ (7 * i)) r)"

definition read_uvarint :: "nat reader" where
  "read_uvarint bs = read_uvarint_loop 0 0 bs"

text \<open>\<^verbatim>\<open>binary.Read(r, binary.LittleEndian, &v)\<close> of an n-byte integer: \<^verbatim>\<open>io.ReadFull\<close>.\<close>

definition read_le :: "nat \<Rightarrow> nat reader" where
  "read_le n bs =
     (if bs = [] then Inl EOF
      else if length bs < n then Inl UnexpectedEOF
      else Inr (le_nat (take n bs), drop n bs))"

text \<open>\<^verbatim>\<open>(*bytes.Reader).Read\<close> into a fresh n-byte slice: fails only at the end of the input;
  a short read is not an error and leaves the rest of the slice zero.\<close>

definition reader_read :: "nat \<Rightarrow> byte list reader" where
  "reader_read n bs = (if bs = [] then Inl EOF else Inr (copy_array n bs, drop n bs))"

text \<open>A loop that reads \<open>n\<close> elements one after the other.\<close>

fun read_many :: "'a reader \<Rightarrow> nat \<Rightarrow> 'a list reader" where
  "read_many rd 0 bs = Inr ([], bs)"
| "read_many rd (Suc n) bs =
     bindE (rd bs) (\<lambda>(x, r). bindE (read_many rd n r) (\<lambda>(xs, r'). Inr (x # xs, r')))"

section \<open>Matching writers and readers\<close>

locale byte_codec =
  fixes enc :: "'a \<Rightarrow> byte list"
    and dec :: "'a reader"
    and ok :: "'a \<Rightarrow> bool"
  assumes dec_enc: "ok x \<Longrightarrow> dec (enc x @ rest) = Inr (x, rest)"
begin

lemma read_many_enc:
  "\<forall>x \<in> set xs. ok x \<Longrightarrow> read_many dec (length xs) (concat (map enc xs) @ rest) = Inr (xs, rest)"
  by (induction xs) (simp_all add: dec_enc)

lemma dec_enc_Nil: "ok x \<Longrightarrow> dec (enc x) = Inr (x, [])"
  using dec_enc [of x "[]"] by simp

lemma enc_prefix_free:
  assumes "ok x" and "ok y" and eq: "enc x @ r = enc y @ s"
  shows "x = y \<and> r = s"
proof -
  have "Inr (x, r) = dec (enc y @ s)" using dec_enc [OF assms(1), of r] unfolding eq by (rule sym)
  also have "\<dots> = Inr (y, s)" by (rule dec_enc [OF assms(2)])
  finally show ?thesis by simp
qed

end

lemma put_uvarint_nonempty [simp]: "put_uvarint v \<noteq> []"
  by (subst put_uvarint.simps) simp

lemma put_uvarint_small: "v < 128 \<Longrightarrow> put_uvarint v = [of_nat v]"
  by (subst put_uvarint.simps) simp

lemma uvarint_shift: "(v::nat) mod 128 * 2 ^ (7 * i) + v div 128 * 2 ^ (7 * Suc i) = v * 2 ^ (7 * i)"
proof -
  have "(2::nat) ^ (7 * Suc i) = 128 * 2 ^ (7 * i)" by (simp add: power_add)
  then have "v mod 128 * 2 ^ (7 * i) + v div 128 * 2 ^ (7 * Suc i)
      = (v mod 128 + 128 * (v div 128)) * 2 ^ (7 * i)"
    by (simp only: algebra_simps)
  then show ?thesis by simp
qed

lemma read_uvarint_loop_put:
  assumes "v * 2 ^ (7 * i) < 2 ^ 64" and "i < 10"
  shows "read_uvarint_loop i x (put_uvarint v @ rest) = Inr (x + v * 2 ^ (7 * i), rest)"
  using assms
proof (induction v arbitrary: i x rule: put_uvarint.induct)
  case (1 v)
  show ?case
  proof (cases "v < 128")
    case True
    have "\<not> (i = 9 \<and> v > 1)"
    proof
      assume "i = 9 \<and> v > 1"
      then have "2 * 2 ^ 63 \<le> v * 2 ^ (7 * i)" by simp
      then show False using "1.prems"(1) by simp
    qed
    then show ?thesis
      using True "1.prems"(2) by (auto simp: put_uvarint_small unat_byte_of_nat)
  next
    case False
    have le: "v div 128 * 2 ^ (7 * Suc i) \<le> v * 2 ^ (7 * i)"
      using uvarint_shift [of v i] by linarith
    have i: "Suc i < 10"
    proof (rule ccontr)
      assume "\<not> Suc i < 10"
      then have "i = 9" using "1.prems"(2) by simp
      then have "128 * 2 ^ 63 \<le> v * 2 ^ (7 * i)" using False by simp
      then show False using "1.prems"(1) by simp
    qed
    have "read_uvarint_loop (Suc i) (x + v mod 128 * 2 ^ (7 * i)) (put_uvarint (v div 128) @ rest)
        = Inr (x + v mod 128 * 2 ^ (7 * i) + v div 128 * 2 ^ (7 * Suc i), rest)"
      using "1.IH" [OF False _ i] le "1.prems"(1) by simp
    moreover have "x + v mod 128 * 2 ^ (7 * i) + v div 128 * 2 ^ (7 * Suc i) = x + v * 2 ^ (7 * i)"
      using uvarint_shift [of v i] by (simp only: add.assoc)
    moreover have "unat (of_nat (v mod 128 + 128) :: byte) = v mod 128 + 128"
      unfolding unat_byte_of_nat by (rule mod_less) (simp add: mod_less_divisor [of 128 v, simplified])
    ultimately show ?thesis
      using False "1.prems"(2) by (subst put_uvarint.simps) simp
  qed
qed

lemma read_uvarint_put: "v < 2 ^ 64 \<Longrightarrow> read_uvarint (put_uvarint v @ rest) = Inr (v, rest)"
  using read_uvarint_loop_put [of v 0 0 rest] by (simp add: read_uvarint_def)

interpretation uvarint: byte_codec put_uvarint read_uvarint "\<lambda>v. v < 2 ^ 64"
  by unfold_locales (rule read_uvarint_put)

lemma read_le_bytes [simp]: "0 < n \<Longrightarrow> v < 256 ^ n \<Longrightarrow> read_le n (le_bytes n v @ rest) = Inr (v, rest)"
proof -
  assume a: "0 < n" "v < 256 ^ n"
  have "length (le_bytes n v) = n" by simp
  then have "le_bytes n v \<noteq> []" using a(1) by (metis list.size(3) less_irrefl)
  then show ?thesis using a by (simp add: read_le_def le_nat_le_bytes)
qed

lemma reader_read_full: "length b = n \<Longrightarrow> 0 < n \<Longrightarrow> reader_read n (b @ rest) = Inr (b, rest)"
  by (auto simp: reader_read_def copy_array_def)

lemma read_le4_word [simp]: "read_le 4 (le_bytes 4 (unat (w :: uint32)) @ rest) = Inr (unat w, rest)"
  using unsigned_less [of w, where ?'a = nat] by simp

lemma read_le8_word [simp]: "read_le 8 (le_bytes 8 (unat (w :: uint64)) @ rest) = Inr (unat w, rest)"
  using unsigned_less [of w, where ?'a = nat] by simp

lemma read_le8_u64_of [simp]: "read_le 8 (le_bytes 8 (u64_of v) @ rest) = Inr (u64_of v, rest)"
  using u64_of_bound [of v] by simp

interpretation le4: byte_codec "le_bytes 4" "read_le 4" "\<lambda>v. v < 256 ^ 4"
  by unfold_locales simp

interpretation le8: byte_codec "le_bytes 8" "read_le 8" "\<lambda>v. v < 256 ^ 8"
  by unfold_locales simp

end
