(* ===== verification/Params.thy ===== *)
theory Params
  imports Prelude
begin

text \<open>
  \<^verbatim>\<open>core/params.go\<close>: the consensus constants, the network parameter sets, the checked
  addition of monetary amounts and the block subsidy. The lemmas give the money supply bound
  that the ledger theory rests on.
\<close>

section \<open>Constants and money\<close>

definition UnitsPerCoin :: int where
  "UnitsPerCoin = 100000000"

definition MaxMoneyUnits :: int where
  "MaxMoneyUnits = 21000000 * UnitsPerCoin"

definition InitialRewardUnits :: int where
  "InitialRewardUnits = 50 * UnitsPerCoin"

definition HalvingInterval :: int where
  "HalvingInterval = 210000"

definition MaxHalvings :: int where
  "MaxHalvings = 64"

definition MaxBlockBytes :: nat where
  "MaxBlockBytes = 1000000"

definition MoneyRange :: "int \<Rightarrow> bool" where
  "MoneyRange v \<longleftrightarrow> 0 \<le> v \<and> v \<le> MaxMoneyUnits"

definition checkedAddMoney :: "int \<Rightarrow> int \<Rightarrow> int \<times> bool" where
  "checkedAddMoney left right =
     (if \<not> MoneyRange left \<or> \<not> MoneyRange right \<or> left > wrap64 (MaxMoneyUnits - right)
      then (0, False) else (wrap64 (left + right), True))"

definition moneyRangeError :: "string \<Rightarrow> error" where
  "moneyRangeError detail = ErrMoneyRange detail"

text \<open>The idiom \<open>x, ok = checkedAddMoney(x, v); if !ok { return moneyRangeError(d) }\<close>.\<close>

definition addMoney :: "string \<Rightarrow> int \<Rightarrow> int \<Rightarrow> int res" where
  "addMoney d x v = (case checkedAddMoney x v of (s, ok) \<Rightarrow> if ok then Inr s else Inl (moneyRangeError d))"

definition SubsidyAt :: "int \<Rightarrow> int" where
  "SubsidyAt height =
     (let halvings = height sdiv HalvingInterval in
      if halvings \<ge> MaxHalvings then 0
      else if halvings < 0 then 0
      else InitialRewardUnits div 2 ^ nat halvings)"

section \<open>Network parameters\<close>

record Params =
  p_Name :: string
  NetMagic :: uint32
  TargetBlockTime :: int
  RetargetInterval :: int
  CoinbaseMaturity :: int
  MaxTargetBits :: uint32
  ArgonMemKiB :: uint32
  ArgonTime :: uint32
  ASERTActivationHeight :: int
  ASERTHalfLife :: int
  ASERTFutureDrift :: int
  ASERTMedianTimeBlocks :: int
  GenesisTime :: int
  GenesisNonce :: uint64
  GenesisHeadline :: string
  FutureDrift :: int

definition canonicalMainNetParams :: Params where
  "canonicalMainNetParams =
     \<lparr>p_Name = ''mainnet'', NetMagic = 0xB7C09001, TargetBlockTime = 600, RetargetInterval = 2016,
      CoinbaseMaturity = 100, MaxTargetBits = 0x1f00ffff, ArgonMemKiB = 64 * 1024, ArgonTime = 1,
      ASERTActivationHeight = 12096, ASERTHalfLife = 2 * 3600, ASERTFutureDrift = 30 * 60,
      ASERTMedianTimeBlocks = 11, GenesisTime = 1783274400, GenesisNonce = 20214,
      GenesisHeadline = ''the coin that you can mine like it's 2009'', FutureDrift = 2 * 3600\<rparr>"

definition canonicalRegTestParams :: Params where
  "canonicalRegTestParams =
     \<lparr>p_Name = ''regtest'', NetMagic = 0xB7C09BAD, TargetBlockTime = 1, RetargetInterval = 8,
      CoinbaseMaturity = 2, MaxTargetBits = 0x207fffff, ArgonMemKiB = 1024, ArgonTime = 1,
      ASERTActivationHeight = 0, ASERTHalfLife = 0, ASERTFutureDrift = 0,
      ASERTMedianTimeBlocks = 0, GenesisTime = 1751738400, GenesisNonce = 0,
      GenesisHeadline = ''regtest genesis'', FutureDrift = 2 * 3600\<rparr>"

definition validateConsensusParams :: "Params \<Rightarrow> unit res" where
  "validateConsensusParams p =
     (if ASERTActivationHeight p = 0 then
        failIf (ASERTHalfLife p \<noteq> 0 \<or> ASERTFutureDrift p \<noteq> 0 \<or> ASERTMedianTimeBlocks p \<noteq> 0)
          (Err ''ASERT parameters set without an activation height'') (Inr ())
      else
        failIf (ASERTActivationHeight p < 2)
          (Err ''ASERT activation height must leave an anchor parent'')
        (failIf (ASERTHalfLife p \<le> 0) (Err ''ASERT half-life must be positive'')
        (failIf (ASERTFutureDrift p \<le> 0) (Err ''ASERT future drift must be positive'')
        (failIf (ASERTMedianTimeBlocks p < 3 \<or> ASERTMedianTimeBlocks p smod 2 = 0)
          (Err ''ASERT median-time window must be an odd number of at least three blocks'')
        (Inr ())))))"

definition MainNetMachineID :: string where
  "MainNetMachineID = ''btc09-mainnet''"

definition RegTestMachineID :: string where
  "RegTestMachineID = ''btc09-regtest''"

definition CanonicalNetworkID :: "Params option \<Rightarrow> string res" where
  "CanonicalNetworkID p =
     (case p of None \<Rightarrow> Inl (Err ''nil network params'')
      | Some q \<Rightarrow>
          if q = canonicalMainNetParams then Inr MainNetMachineID
          else if q = canonicalRegTestParams then Inr RegTestMachineID
          else Inl (Err ''noncanonical network params''))"

section \<open>Checked sums\<close>

lemma MoneyRange_simps [money]:
  "MoneyRange v \<longleftrightarrow> 0 \<le> v \<and> v \<le> 2100000000000000"
  by (simp add: MoneyRange_def MaxMoneyUnits_def UnitsPerCoin_def)

lemma MaxMoneyUnits_eq [money]: "MaxMoneyUnits = 2100000000000000"
  by (simp add: MaxMoneyUnits_def UnitsPerCoin_def)

lemma MoneyRange_int64: "MoneyRange v \<Longrightarrow> is_int64 v"
  by (simp add: MoneyRange_simps is_int64_def)

lemma MoneyRange_0 [simp]: "MoneyRange 0"
  by (simp add: MoneyRange_simps)

text \<open>Checked addition computes the exact sum and accepts exactly the sums in range.\<close>

lemma checkedAddMoney_eq [money]:
  "checkedAddMoney a b =
     (if MoneyRange a \<and> MoneyRange b \<and> MoneyRange (a + b) then (a + b, True) else (0, False))"
proof (cases "MoneyRange a \<and> MoneyRange b")
  case True
  then have "wrap64 (MaxMoneyUnits - b) = MaxMoneyUnits - b"
    by (intro wrap64_id) (simp add: is_int64_def money)
  moreover have "wrap64 (a + b) = a + b"
    using True by (intro wrap64_id) (simp add: is_int64_def money)
  ultimately show ?thesis
    using True by (auto simp: checkedAddMoney_def MoneyRange_simps MaxMoneyUnits_eq)
next
  case False
  then show ?thesis by (auto simp: checkedAddMoney_def)
qed

lemma addMoney_Inr_iff [steps]:
  "addMoney d x v = Inr s \<longleftrightarrow> MoneyRange x \<and> MoneyRange v \<and> MoneyRange s \<and> s = x + v"
  by (auto simp: addMoney_def checkedAddMoney_eq)

lemma addMoney_ok: "MoneyRange x \<Longrightarrow> MoneyRange v \<Longrightarrow> MoneyRange (x + v) \<Longrightarrow> addMoney d x v = Inr (x + v)"
  by (simp add: addMoney_Inr_iff)

section \<open>The subsidy schedule\<close>

definition epoch_subsidy :: "nat \<Rightarrow> int" where
  "epoch_subsidy k = (if k < 64 then 5000000000 div 2 ^ k else 0)"

lemma SubsidyAt_epoch: "SubsidyAt (int h) = epoch_subsidy (h div 210000)"
proof -
  have "int h sdiv 210000 = int (h div 210000)"
    by (cases "h = 0") (simp_all add: signed_divide_int_def zdiv_int)
  then show ?thesis
    by (simp add: SubsidyAt_def epoch_subsidy_def HalvingInterval_def MaxHalvings_def
        InitialRewardUnits_def UnitsPerCoin_def Let_def)
qed

lemma epoch_subsidy_nonneg: "0 \<le> epoch_subsidy k"
  by (simp add: epoch_subsidy_def pos_imp_zdiv_nonneg_iff)

lemma epoch_subsidy_le: "epoch_subsidy k \<le> 5000000000"
proof -
  have "(5000000000::int) div 2 ^ k \<le> 5000000000 div 1"
    by (rule zdiv_mono2) simp_all
  then show ?thesis by (simp add: epoch_subsidy_def)
qed

lemma epoch_subsidy_halves: "2 * epoch_subsidy (Suc k) \<le> epoch_subsidy k"
proof -
  have "2 * ((5000000000::int) div 2 ^ k div 2) \<le> 5000000000 div 2 ^ k" by simp
  moreover have "(5000000000::int) div 2 ^ Suc k = 5000000000 div 2 ^ k div 2"
    unfolding power_Suc2 by (rule zdiv_zmult2_eq) simp
  moreover have "0 \<le> (5000000000::int) div 2 ^ k" by (simp add: pos_imp_zdiv_nonneg_iff)
  ultimately show ?thesis by (auto simp: epoch_subsidy_def simp del: power_Suc)
qed

lemma epoch_sum: "(\<Sum>j<k. epoch_subsidy j) + 2 * epoch_subsidy k \<le> 10000000000"
proof (induction k)
  case 0
  show ?case using epoch_subsidy_le [of 0] by simp
next
  case (Suc k)
  then show ?case using epoch_subsidy_halves [of k] by simp
qed

lemma SubsidyAt_nonneg [simp]: "0 \<le> SubsidyAt (int h)"
  by (simp add: SubsidyAt_epoch epoch_subsidy_nonneg)

lemma SubsidyAt_range: "MoneyRange (SubsidyAt (int h))"
  using epoch_subsidy_le [of "h div 210000"] by (simp add: MoneyRange_simps SubsidyAt_epoch epoch_subsidy_nonneg)

lemma SubsidyAt_group:
  "(\<Sum>h \<in> {j * 210000..<j * 210000 + 210000}. SubsidyAt (int h)) = 210000 * epoch_subsidy j"
proof -
  have "(\<Sum>h \<in> {j * 210000..<j * 210000 + 210000}. SubsidyAt (int h))
      = (\<Sum>h \<in> {j * 210000..<j * 210000 + 210000}. epoch_subsidy j)"
  proof (rule sum.cong)
    fix h :: nat
    assume "h \<in> {j * 210000..<j * 210000 + 210000}"
    then have "h div 210000 = j" by (intro div_nat_eqI) auto
    then show "SubsidyAt (int h) = epoch_subsidy j" by (simp add: SubsidyAt_epoch)
  qed simp
  then show ?thesis by simp
qed

text \<open>The whole emission of any number of blocks stays within the 21 million coin cap.\<close>

lemma subsidy_sum_le: "(\<Sum>h<n. SubsidyAt (int h)) \<le> MaxMoneyUnits"
proof -
  let ?k = "n div 210000 + 1"
  have "n \<le> ?k * 210000" by (simp add: dividend_less_div_times less_imp_le)
  then have "(\<Sum>h<n. SubsidyAt (int h)) \<le> (\<Sum>h<?k * 210000. SubsidyAt (int h))"
    by (intro sum_mono2) auto
  also have "\<dots> = (\<Sum>j<?k. \<Sum>h \<in> {j * 210000..<j * 210000 + 210000}. SubsidyAt (int h))"
    by (rule sum.nat_group [symmetric])
  also have "\<dots> = 210000 * (\<Sum>j<?k. epoch_subsidy j)"
    by (simp only: SubsidyAt_group sum_distrib_left)
  also have "\<dots> \<le> 210000 * 10000000000"
    using epoch_sum [of ?k] epoch_subsidy_nonneg [of ?k] by (intro mult_left_mono) linarith+
  also have "\<dots> = MaxMoneyUnits" by (simp add: MaxMoneyUnits_eq)
  finally show ?thesis .
qed

lemma canonical_params_valid:
  "validateConsensusParams canonicalMainNetParams = Inr ()"
  "validateConsensusParams canonicalRegTestParams = Inr ()"
  by (simp_all add: validateConsensusParams_def canonicalMainNetParams_def canonicalRegTestParams_def
      signed_modulo_int_def)

lemma canonical_params_distinct: "canonicalMainNetParams \<noteq> canonicalRegTestParams"
  by (simp add: canonicalMainNetParams_def canonicalRegTestParams_def)

section \<open>Properties\<close>

text \<open>Checked addition of two amounts returns their exact mathematical sum precisely when both
  amounts and the sum lie in the money range, and reports failure with the value 0 in every other
  case; 64-bit wrap-around never shows.\<close>

theorem checkedAddMoney_exact:
  "checkedAddMoney a b =
     (if MoneyRange a \<and> MoneyRange b \<and> MoneyRange (a + b) then (a + b, True) else (0, False))"
  by (rule checkedAddMoney_eq)

text \<open>The subsidies of any number of blocks from genesis on sum to at most 21 million coins, and
  each single subsidy is an amount of at most 50 coins.\<close>

theorem emission_capped:
  "(\<Sum>h<n. SubsidyAt (int h)) \<le> MaxMoneyUnits \<and> 0 \<le> SubsidyAt (int h) \<and> SubsidyAt (int h) \<le> InitialRewardUnits"
  using subsidy_sum_le [of n] SubsidyAt_nonneg [of h] epoch_subsidy_le [of "h div 210000"]
  by (simp add: SubsidyAt_epoch InitialRewardUnits_def UnitsPerCoin_def)

end
