(* ===== verification/Tx.thy ===== *)
theory Tx
  imports Codec Params
begin

text \<open>
  \<^verbatim>\<open>core/tx.go\<close> and the identifier hashes of \<^verbatim>\<open>core/pow.go\<close>: transactions, their wire
  encoding, the signing digest, and \<^verbatim>\<open>DecodeTx\<close>. The hash functions and the signature scheme
  are parameters, collected in the record \<open>crypto\<close> that the definitions take as their first
  argument. The lemmas show that decoding inverts encoding on the transactions the decoder's
  limits admit.
\<close>

section \<open>Cryptographic primitives\<close>

text \<open>
  \<^verbatim>\<open>crypto/sha256\<close>, \<^verbatim>\<open>golang.org/x/crypto/argon2\<close> and \<^verbatim>\<open>crypto/ed25519\<close>: the digest of a
  byte string; \<open>IDKey(password, salt, time, memory, threads, keyLen)\<close>; verification of a
  signature by public key, message and signature; the public key of a private key; signing.
\<close>

record crypto =
  sha256 :: "byte list \<Rightarrow> Hash32"
  argon2id :: "byte list \<Rightarrow> byte list \<Rightarrow> uint32 \<Rightarrow> uint32 \<Rightarrow> nat \<Rightarrow> nat \<Rightarrow> byte list"
  ed_verify :: "byte list \<Rightarrow> byte list \<Rightarrow> byte list \<Rightarrow> bool"
  ed_public :: "byte list \<Rightarrow> byte list"
  ed_sign :: "byte list \<Rightarrow> byte list \<Rightarrow> byte list"

definition SHA256d :: "crypto \<Rightarrow> byte list \<Rightarrow> Hash32" where
  "SHA256d K b = sha256 K (hash_bytes (sha256 K b))"

definition PubKeyHash20 :: "crypto \<Rightarrow> byte list \<Rightarrow> PKH" where
  "PubKeyHash20 K pub = pkh_of (take 20 (hash_bytes (SHA256d K pub)))"

section \<open>Transactions\<close>

datatype OutPoint = OutPoint (op_TxID: Hash32) (op_Idx: uint32)

text \<open>The order of \<^verbatim>\<open>cleanupOutpointLess\<close> and of the snapshot sorts: raw transaction id, then
  numeric output index.\<close>

instantiation OutPoint :: linorder
begin

definition less_eq_OutPoint :: "OutPoint \<Rightarrow> OutPoint \<Rightarrow> bool" where
  "less_eq_OutPoint a b \<longleftrightarrow>
     op_TxID a < op_TxID b \<or> op_TxID a = op_TxID b \<and> op_Idx a \<le> op_Idx b"

definition less_OutPoint :: "OutPoint \<Rightarrow> OutPoint \<Rightarrow> bool" where
  "less_OutPoint a b \<longleftrightarrow>
     op_TxID a < op_TxID b \<or> op_TxID a = op_TxID b \<and> op_Idx a < op_Idx b"

instance
  by standard (auto simp: less_eq_OutPoint_def less_OutPoint_def OutPoint.expand)

end

record TxIn =
  in_Prev :: OutPoint
  in_PubKey :: "byte list"
  in_Sig :: "byte list"

record TxOut =
  out_Value :: int
  out_PubKeyHash :: PKH

record Tx =
  tx_Version :: uint32
  tx_Ins :: "TxIn list"
  tx_Outs :: "TxOut list"
  tx_LockTag :: "byte list"

definition IsCoinbase :: "Tx \<Rightarrow> bool" where
  "IsCoinbase t \<longleftrightarrow>
     (case tx_Ins t of [i] \<Rightarrow> op_TxID (in_Prev i) = 0 \<and> op_Idx (in_Prev i) = 0xffffffff | _ \<Rightarrow> False)"

section \<open>Encoding\<close>

definition writeBytes :: "byte list \<Rightarrow> byte list" where
  "writeBytes b = put_uvarint (length b) @ b"

definition readBytes :: "nat \<Rightarrow> byte list reader" where
  "readBytes maxLen r =
     bindE (read_uvarint r) (\<lambda>(n, r1).
       failIf (n > maxLen) (Err ''field too long'')
       (case reader_read n r1 of
          Inl e \<Rightarrow> if n > 0 then Inl e else Inr ([], r1)
        | Inr (b, r2) \<Rightarrow> Inr (b, r2)))"

definition enc_TxIn :: "bool \<Rightarrow> TxIn \<Rightarrow> byte list" where
  "enc_TxIn forSigning i =
     hash_bytes (op_TxID (in_Prev i)) @ le_bytes 4 (unat (op_Idx (in_Prev i))) @
     writeBytes (in_PubKey i) @ writeBytes (if forSigning then [] else in_Sig i)"

definition enc_TxOut :: "TxOut \<Rightarrow> byte list" where
  "enc_TxOut o' = le_bytes 8 (u64_of (out_Value o')) @ pkh_bytes (out_PubKeyHash o')"

definition serialize :: "Tx \<Rightarrow> bool \<Rightarrow> byte list" where
  "serialize t forSigning =
     le_bytes 4 (unat (tx_Version t)) @
     put_uvarint (length (tx_Ins t)) @ concat (map (enc_TxIn forSigning) (tx_Ins t)) @
     put_uvarint (length (tx_Outs t)) @ concat (map enc_TxOut (tx_Outs t)) @
     writeBytes (tx_LockTag t)"

definition tx_Bytes :: "Tx \<Rightarrow> byte list" where
  "tx_Bytes t = serialize t False"

definition tx_ID :: "crypto \<Rightarrow> Tx \<Rightarrow> Hash32" where
  "tx_ID K t = SHA256d K (tx_Bytes t)"

definition SigDigest :: "crypto \<Rightarrow> Tx \<Rightarrow> Hash32" where
  "SigDigest K t = SHA256d K (serialize t True)"

text \<open>\<^verbatim>\<open>Sign\<close>: first every public key, then every signature over the digest that now commits
  to those keys.\<close>

definition set_pubkeys :: "crypto \<Rightarrow> byte list list \<Rightarrow> Tx \<Rightarrow> Tx" where
  "set_pubkeys K keys t = t\<lparr>tx_Ins := map2 (\<lambda>i k. i\<lparr>in_PubKey := ed_public K k\<rparr>) (tx_Ins t) keys\<rparr>"

definition Sign :: "crypto \<Rightarrow> byte list list \<Rightarrow> Tx \<Rightarrow> Tx res" where
  "Sign K keys t =
     failIf (length keys \<noteq> length (tx_Ins t)) (Err ''key count mismatch'')
     (let t1 = set_pubkeys K keys t; digest = SigDigest K t1 in
      Inr (t1\<lparr>tx_Ins := map2 (\<lambda>i k. i\<lparr>in_Sig := ed_sign K k (hash_bytes digest)\<rparr>) (tx_Ins t1) keys\<rparr>))"

section \<open>Decoding\<close>

definition read_TxIn :: "TxIn reader" where
  "read_TxIn r =
     bindE (reader_read 32 r) (\<lambda>(txid, r).
     bindE (read_le 4 r) (\<lambda>(idx, r).
     bindE (readBytes 128 r) (\<lambda>(pub, r).
     bindE (readBytes 128 r) (\<lambda>(sig, r).
     Inr (\<lparr>in_Prev = OutPoint (hash_of txid) (of_nat idx), in_PubKey = pub, in_Sig = sig\<rparr>, r)))))"

definition read_TxOut :: "TxOut reader" where
  "read_TxOut r =
     bindE (read_le 8 r) (\<lambda>(v, r).
     bindE (reader_read 20 r) (\<lambda>(pkh, r).
     Inr (\<lparr>out_Value = sint64 v, out_PubKeyHash = pkh_of pkh\<rparr>, r)))"

definition read_count :: "string \<Rightarrow> nat reader" where
  "read_count msg r =
     (case read_uvarint r of
        Inl e \<Rightarrow> Inl (Wrapped msg e)
      | Inr (n, r1) \<Rightarrow> if n > 10000 then Inl (Err msg) else Inr (n, r1))"

definition DecodeTx :: "byte list \<Rightarrow> Tx res" where
  "DecodeTx b =
     bindE (read_le 4 b) (\<lambda>(version, r).
     bindE (read_count ''bad input count'' r) (\<lambda>(nIn, r).
     bindE (read_many read_TxIn nIn r) (\<lambda>(ins, r).
     bindE (read_count ''bad output count'' r) (\<lambda>(nOut, r).
     bindE (read_many read_TxOut nOut r) (\<lambda>(outs, r).
     bindE (readBytes 256 r) (\<lambda>(tag, r).
     failIf (r \<noteq> []) (Err ''trailing bytes in tx'')
     (Inr \<lparr>tx_Version = of_nat version, tx_Ins = ins, tx_Outs = outs, tx_LockTag = tag\<rparr>)))))))"

definition string_bytes :: "string \<Rightarrow> byte list" where
  "string_bytes s = map (\<lambda>c. of_nat (of_char c)) s"

definition NewCoinbase :: "int \<Rightarrow> int \<Rightarrow> PKH \<Rightarrow> string \<Rightarrow> Tx" where
  "NewCoinbase height v to tag =
     \<lparr>tx_Version = 1,
      tx_Ins = [\<lparr>in_Prev = OutPoint 0 0xffffffff,
                 in_PubKey = put_uvarint (u64_of height), in_Sig = []\<rparr>],
      tx_Outs = [\<lparr>out_Value = v, out_PubKeyHash = to\<rparr>],
      tx_LockTag = string_bytes tag\<rparr>"

section \<open>Well-formed transactions\<close>

definition wf_TxIn :: "TxIn \<Rightarrow> bool" where
  "wf_TxIn i \<longleftrightarrow> length (in_PubKey i) \<le> 128 \<and> length (in_Sig i) \<le> 128"

definition wf_TxOut :: "TxOut \<Rightarrow> bool" where
  "wf_TxOut o' \<longleftrightarrow> is_int64 (out_Value o')"

definition wf_Tx :: "Tx \<Rightarrow> bool" where
  "wf_Tx t \<longleftrightarrow>
     length (tx_Ins t) \<le> 10000 \<and> list_all wf_TxIn (tx_Ins t) \<and>
     length (tx_Outs t) \<le> 10000 \<and> list_all wf_TxOut (tx_Outs t) \<and> length (tx_LockTag t) \<le> 256"

section \<open>Decoding inverts encoding\<close>

lemma readBytes_writeBytes:
  assumes "length b \<le> m" and "m < 2 ^ 64"
  shows "readBytes m (writeBytes b @ rest) = Inr (b, rest)"
proof (cases "b = []")
  case True
  then show ?thesis
    by (simp add: readBytes_def writeBytes_def read_uvarint_put reader_read_def copy_array_def)
next
  case False
  then have "reader_read (length b) (b @ rest) = Inr (b, rest)" by (intro reader_read_full) simp_all
  then show ?thesis
    using assms by (simp add: readBytes_def writeBytes_def read_uvarint_put)
qed

interpretation var_field: byte_codec writeBytes "readBytes 128" "\<lambda>b. length b \<le> 128"
  by unfold_locales (simp add: readBytes_writeBytes)

interpretation txin: byte_codec "enc_TxIn False" read_TxIn wf_TxIn
proof
  fix i rest
  assume "wf_TxIn i"
  then show "read_TxIn (enc_TxIn False i @ rest) = Inr (i, rest)"
    by (simp add: wf_TxIn_def read_TxIn_def enc_TxIn_def reader_read_full var_field.dec_enc)
qed

interpretation txout: byte_codec enc_TxOut read_TxOut wf_TxOut
proof
  fix x rest
  assume "wf_TxOut x"
  then show "read_TxOut (enc_TxOut x @ rest) = Inr (x, rest)"
    by (simp add: wf_TxOut_def read_TxOut_def enc_TxOut_def reader_read_full)
qed

lemma read_count_put: "n \<le> 10000 \<Longrightarrow> read_count msg (put_uvarint n @ rest) = Inr (n, rest)"
  by (simp add: read_count_def read_uvarint_put)

lemma DecodeTx_tx_Bytes: "wf_Tx t \<Longrightarrow> DecodeTx (tx_Bytes t) = Inr t"
proof -
  assume wf: "wf_Tx t"
  have tag: "readBytes 256 (writeBytes (tx_LockTag t)) = Inr (tx_LockTag t, [])"
    using readBytes_writeBytes [of "tx_LockTag t" 256 "[]"] wf by (simp add: wf_Tx_def)
  from wf show ?thesis
    by (simp add: DecodeTx_def tx_Bytes_def serialize_def wf_Tx_def read_count_put
        txin.read_many_enc txout.read_many_enc list_all_iff tag)
qed

lemma tx_Bytes_inj: "wf_Tx a \<Longrightarrow> wf_Tx b \<Longrightarrow> tx_Bytes a = tx_Bytes b \<Longrightarrow> a = b"
  by (metis DecodeTx_tx_Bytes Inr_inject)

section \<open>What decoding accepts is well formed\<close>

lemma reader_read_length: "reader_read n r = Inr (b, r') \<Longrightarrow> length b = n"
  by (auto simp: reader_read_def split: if_splits)

lemma readBytes_length: "readBytes m r = Inr (b, r') \<Longrightarrow> length b \<le> m"
  by (cases "read_uvarint r")
    (auto simp: readBytes_def steps dest!: reader_read_length split: sum.split_asm if_splits)

lemma read_TxIn_wf: "read_TxIn r = Inr (i, r') \<Longrightarrow> wf_TxIn i"
  by (auto simp: read_TxIn_def wf_TxIn_def steps dest: readBytes_length)

lemma read_TxOut_wf: "read_TxOut r = Inr (x, r') \<Longrightarrow> wf_TxOut x"
  by (auto simp: read_TxOut_def wf_TxOut_def steps)

lemma read_many_wf:
  assumes "\<And>r x r'. rd r = Inr (x, r') \<Longrightarrow> P x"
  shows "read_many rd n r = Inr (xs, r') \<Longrightarrow> length xs = n \<and> list_all P xs"
  by (induction n arbitrary: r xs) (auto simp: steps dest: assms)

lemma read_count_bound: "read_count msg r = Inr (n, r') \<Longrightarrow> n \<le> 10000"
  by (auto simp: read_count_def split: sum.splits if_splits)

lemma read_TxIns_wf: "read_many read_TxIn n r = Inr (xs, r') \<Longrightarrow> length xs = n \<and> list_all wf_TxIn xs"
  by (rule read_many_wf [of read_TxIn wf_TxIn]) (simp_all add: read_TxIn_wf)

lemma read_TxOuts_wf: "read_many read_TxOut n r = Inr (xs, r') \<Longrightarrow> length xs = n \<and> list_all wf_TxOut xs"
  by (rule read_many_wf [of read_TxOut wf_TxOut]) (simp_all add: read_TxOut_wf)

lemma DecodeTx_wf: "DecodeTx b = Inr t \<Longrightarrow> wf_Tx t"
  by (auto simp: DecodeTx_def wf_Tx_def steps
      dest!: read_TxIns_wf read_TxOuts_wf read_count_bound readBytes_length)

section \<open>Signing\<close>

lemma length_set_pubkeys [simp]: "length keys = length (tx_Ins t) \<Longrightarrow> length (tx_Ins (set_pubkeys K keys t)) = length (tx_Ins t)"
  by (simp add: set_pubkeys_def)

text \<open>The digest does not depend on the signatures.\<close>

lemma enc_TxIn_unsigned: "map (enc_TxIn True) (map2 (\<lambda>i k. i\<lparr>in_Sig := f k\<rparr>) ins keys) = map (enc_TxIn True) (map fst (zip ins keys))"
  by (induction ins keys rule: list_induct2') (simp_all add: enc_TxIn_def)

lemma SigDigest_signatures:
  assumes "length keys = length (tx_Ins t)"
  shows "SigDigest K (t\<lparr>tx_Ins := map2 (\<lambda>i k. i\<lparr>in_Sig := f k\<rparr>) (tx_Ins t) keys\<rparr>) = SigDigest K t"
  using assms enc_TxIn_unsigned [of f "tx_Ins t" keys] by (simp add: SigDigest_def serialize_def map_fst_zip)

lemma Sign_inputs:
  assumes "Sign K keys t = Inr t'" and "n < length keys"
  shows "length (tx_Ins t') = length keys \<and> length (tx_Ins t) = length keys \<and>
    tx_Ins t' ! n = \<lparr>in_Prev = in_Prev (tx_Ins t ! n), in_PubKey = ed_public K (keys ! n),
      in_Sig = ed_sign K (keys ! n) (hash_bytes (SigDigest K t'))\<rparr>"
proof -
  have len: "length keys = length (tx_Ins t)" and
    t': "t' = (set_pubkeys K keys t)\<lparr>tx_Ins := map2 (\<lambda>i k. i\<lparr>in_Sig :=
      ed_sign K k (hash_bytes (SigDigest K (set_pubkeys K keys t)))\<rparr>) (tx_Ins (set_pubkeys K keys t)) keys\<rparr>"
    using assms(1) by (auto simp: Sign_def Let_def steps)
  have digest: "SigDigest K t' = SigDigest K (set_pubkeys K keys t)"
    unfolding t' using len by (intro SigDigest_signatures) simp
  have "length (tx_Ins t') = length keys" using len by (simp add: t')
  moreover have "tx_Ins t' ! n = (tx_Ins (set_pubkeys K keys t) ! n)\<lparr>in_Sig := ed_sign K (keys ! n) (hash_bytes (SigDigest K t'))\<rparr>"
    unfolding digest using len assms(2) by (simp add: t')
  moreover have "tx_Ins (set_pubkeys K keys t) ! n = (tx_Ins t ! n)\<lparr>in_PubKey := ed_public K (keys ! n)\<rparr>"
    using len assms(2) by (simp add: set_pubkeys_def)
  ultimately show ?thesis using len by simp
qed

section \<open>Properties\<close>

text \<open>Concrete primitives for evaluating the definitions: a hash that names a block header by the low
  byte of its nonce and anything else by its length, a zero memory-hard hash and a transparent
  signature scheme.\<close>

definition sample_crypto :: crypto where
  "sample_crypto =
     \<lparr>sha256 = (\<lambda>b. if length b = 32 then hash_of b else if length b = 88 then of_nat (unat (b ! 80))
                     else of_nat (length b)),
      argon2id = (\<lambda>_ _ _ _ _ n. replicate n 0), ed_verify = (\<lambda>pub m sig. sig = pub @ m),
      ed_public = (\<lambda>k. k), ed_sign = (\<lambda>k m. k @ m)\<rparr>"

definition sample_tx :: Tx where
  "sample_tx =
     \<lparr>tx_Version = 1, tx_Ins = [\<lparr>in_Prev = OutPoint 7 1, in_PubKey = replicate 32 3, in_Sig = [1, 2]\<rparr>],
      tx_Outs = [\<lparr>out_Value = 5000, out_PubKeyHash = 9\<rparr>], tx_LockTag = [42]\<rparr>"

text \<open>Decoding the encoding of a transaction within the decoder's field limits returns that
  transaction, so two such transactions with the same bytes are the same transaction.\<close>

theorem tx_roundtrip:
  assumes "wf_Tx t"
  shows "DecodeTx (tx_Bytes t) = Inr t \<and> (\<forall>t'. wf_Tx t' \<and> tx_Bytes t' = tx_Bytes t \<longrightarrow> t' = t)"
  using assms DecodeTx_tx_Bytes tx_Bytes_inj by blast+

theorem tx_roundtrip_witness: "wf_Tx sample_tx \<and> DecodeTx (tx_Bytes sample_tx) = Inr sample_tx"
proof -
  have "wf_Tx sample_tx"
    by (simp add: wf_Tx_def sample_tx_def wf_TxIn_def wf_TxOut_def is_int64_def)
  then show ?thesis using tx_roundtrip [of sample_tx] by simp
qed

text \<open>Signing keeps every outpoint, sets each input's public key to the one of its key, and leaves
  signatures that verify against the digest of the finished transaction, provided the signature
  scheme accepts what it signs.\<close>

theorem Sign_verifies:
  assumes "\<And>k m. ed_verify K (ed_public K k) m (ed_sign K k m)"
    and "Sign K keys t = Inr t'"
  shows "map in_Prev (tx_Ins t') = map in_Prev (tx_Ins t) \<and> map in_PubKey (tx_Ins t') = map (ed_public K) keys \<and>
    list_all (\<lambda>i. ed_verify K (in_PubKey i) (hash_bytes (SigDigest K t')) (in_Sig i)) (tx_Ins t')"
proof (cases "keys = []")
  case True
  then show ?thesis using assms(2) by (auto simp: Sign_def set_pubkeys_def Let_def steps)
next
  case False
  then have "length (tx_Ins t') = length keys" "length (tx_Ins t) = length keys"
    using Sign_inputs [OF assms(2), of 0] by auto
  then show ?thesis
    using Sign_inputs [OF assms(2)] assms(1)
    by (auto simp: list_all_length intro!: nth_equalityI)
qed

theorem Sign_verifies_witness:
  "\<exists>t'. Sign sample_crypto [[5]] sample_tx = Inr t' \<and> map in_PubKey (tx_Ins t') = [[5]]"
proof -
  obtain t' where "Sign sample_crypto [[5]] sample_tx = Inr t'" by (simp add: Sign_def sample_tx_def Let_def)
  then show ?thesis
    using Sign_verifies [of sample_crypto "[[5]]" sample_tx t'] by (auto simp: sample_crypto_def)
qed

end
