(* ===== verification/Pow.thy ===== *)
theory Pow
  imports Tx
begin

unbundle bit_operations_syntax

text \<open>
  \<^verbatim>\<open>core/pow.go\<close>: the mining hash, the compact encoding of difficulty targets, the work of a
  target, the ASERT target calculation and the difficulty rule \<^verbatim>\<open>NextBits\<close>. A \<^verbatim>\<open>*big.Int\<close> is an
  integer; the callers never pass a nil one. Block heights are unbounded integers. The
  ancestor accessors of \<^verbatim>\<open>NextBits\<close> are functions that may panic.
\<close>

section \<open>Hashes and targets\<close>

definition powSalt :: "byte list" where
  "powSalt = string_bytes ''BTC09/pow/v1''"

definition PowHash :: "crypto \<Rightarrow> byte list \<Rightarrow> Params \<Rightarrow> Hash32" where
  "PowHash K header p = hash_of (argon2id K header powSalt (ArgonTime p) (ArgonMemKiB p) 1 32)"

definition HashToBig :: "Hash32 \<Rightarrow> int" where
  "HashToBig h = int (be_nat (hash_bytes h))"

definition CompactToTarget :: "uint32 \<Rightarrow> int" where
  "CompactToTarget bits =
     (let size = unat (drop_bit 24 bits); mant = int (unat (bits AND 0x007fffff)) in
      if size \<le> 3 then mant div 2 ^ (8 * (3 - size)) else mant * 2 ^ (8 * (size - 3)))"

text \<open>The lengths of \<^verbatim>\<open>big.Int.Bytes()\<close> and \<^verbatim>\<open>big.Int.BitLen()\<close> of a non-negative number.\<close>

fun byte_len :: "nat \<Rightarrow> nat" where
  "byte_len n = (if n = 0 then 0 else Suc (byte_len (n div 256)))"

fun bit_len :: "nat \<Rightarrow> nat" where
  "bit_len n = (if n = 0 then 0 else Suc (bit_len (n div 2)))"

declare byte_len.simps [simp del] bit_len.simps [simp del]

definition TargetToCompact :: "int \<Rightarrow> uint32" where
  "TargetToCompact t =
     (if t \<le> 0 then 0
      else
        let size = byte_len (nat t);
            mant = (if size \<le> 3 then push_bit (8 * (3 - size)) (of_int t)
                    else of_int (t div 2 ^ (8 * (size - 3)))) :: uint32;
            (mant', size') = (if mant AND 0x00800000 \<noteq> 0 then (drop_bit 8 mant, size + 1) else (mant, size))
        in push_bit 24 (of_nat size') OR (mant' AND 0x007fffff))"

definition WorkFromTarget :: "int \<Rightarrow> int" where
  "WorkFromTarget target = 2 ^ 256 div (target + 1)"

definition MaxTarget :: "Params \<Rightarrow> int" where
  "MaxTarget p = CompactToTarget (MaxTargetBits p)"

section \<open>ASERT\<close>

definition asert_factor :: "int \<Rightarrow> int" where
  "asert_factor frac =
     (195766423245049 * frac + 971821376 * (frac * frac) + 5127 * (frac * frac * frac) + 2 ^ 47) div 2 ^ 48
     + 65536"

definition calculateASERTTarget :: "int \<Rightarrow> int \<Rightarrow> int \<Rightarrow> int \<Rightarrow> int \<Rightarrow> int \<Rightarrow> int" where
  "calculateASERTTarget refTarget targetSpacing timeDiff heightDiff halfLife maxTarget =
     (if refTarget \<le> 0 then 1
      else if maxTarget \<le> 0 then 1
      else if halfLife \<le> 0 \<or> targetSpacing \<le> 0 \<or> heightDiff < 0 then
        (if refTarget > maxTarget then maxTarget else refTarget)
      else
        let scheduled = (heightDiff + 1) * targetSpacing;
            exponentBig = ((timeDiff - scheduled) * 65536) sdiv halfLife
        in if \<not> is_int64 exponentBig then (if exponentBig < 0 then 1 else maxTarget)
           else
             let exponent = exponentBig;
                 shifts0 = exponent sdiv 65536;
                 frac0 = exponent smod 65536;
                 (shifts, frac) = (if frac0 < 0 then (shifts0 - 1, frac0 + 65536) else (shifts0, frac0));
                 factor = asert_factor frac;
                 nextTarget = refTarget * factor;
                 shifts' = shifts - 16
             in if shifts' > 0 \<and> shifts' > int (bit_len (nat maxTarget)) + 17 then maxTarget
                else
                  let next' = (if shifts' \<le> 0 then
                                 (if - shifts' \<ge> int (bit_len (nat nextTarget)) then 0
                                  else nextTarget div 2 ^ nat (- shifts'))
                               else nextTarget * 2 ^ nat shifts')
                  in if next' = 0 then 1 else if next' > maxTarget then maxTarget else next')"

definition asertActive :: "Params \<Rightarrow> int \<Rightarrow> bool" where
  "asertActive p height \<longleftrightarrow> ASERTActivationHeight p > 0 \<and> height \<ge> ASERTActivationHeight p"

section \<open>The difficulty rule\<close>

definition NextBits :: "Params \<Rightarrow> int \<Rightarrow> (int \<Rightarrow> uint32 res) \<Rightarrow> (int \<Rightarrow> int res) \<Rightarrow> uint32 res" where
  "NextBits p height bitsAt timeAt =
     (if height = 0 then Inr (MaxTargetBits p)
      else if asertActive p height then
        let anchorHeight = ASERTActivationHeight p - 1; parentHeight = height - 1 in
        bindE (bitsAt anchorHeight) (\<lambda>anchorBits.
        bindE (timeAt parentHeight) (\<lambda>parentTime.
        bindE (timeAt (anchorHeight - 1)) (\<lambda>anchorTime.
        Inr (TargetToCompact
          (calculateASERTTarget (CompactToTarget anchorBits) (TargetBlockTime p)
             (wrap64 (parentTime - anchorTime)) (parentHeight - anchorHeight) (ASERTHalfLife p)
             (MaxTarget p))))))
      else if RetargetInterval p = 0 then Inl (Panic ''integer divide by zero'')
      else
        let prev = height - 1 in
        if height smod RetargetInterval p \<noteq> 0 then bitsAt prev
        else
          let first = height - RetargetInterval p in
          bindE (timeAt prev) (\<lambda>tPrev.
          bindE (timeAt first) (\<lambda>tFirst.
          bindE (bitsAt prev) (\<lambda>prevBits.
            let actual0 = wrap64 (tPrev - tFirst);
                expected0 = wrap64 (TargetBlockTime p * wrap64 (RetargetInterval p - 1));
                expected = (if expected0 \<le> 0 then 1 else expected0);
                actual1 = (if actual0 < expected sdiv 4 then expected sdiv 4 else actual0);
                actual = (if actual1 > wrap64 (expected * 4) then wrap64 (expected * 4) else actual1);
                newT = (CompactToTarget prevBits * actual) div expected;
                newT' = (if newT > MaxTarget p then MaxTarget p else newT)
            in Inr (TargetToCompact newT')))))"

end
