(* ===== verification/Difficulty.thy ===== *)
theory Difficulty
  imports Pow
begin

unbundle bit_operations_syntax

text \<open>
  Facts about \<^verbatim>\<open>core/pow.go\<close>: the compact encoding of targets keeps the leading bytes and is
  stable under re-encoding; the fixed-point ASERT calculation equals its unbounded
  specification \<open>asert_spec\<close>, is monotone in elapsed time and stays within the limits; the
  required difficulty of a block is always a usable target.
\<close>

section \<open>Lengths of numbers\<close>

lemma byte_len_0 [simp]: "byte_len 0 = 0"
  by (simp add: byte_len.simps)

lemma byte_len_pos: "0 < n \<Longrightarrow> byte_len n = Suc (byte_len (n div 256))"
  by (subst byte_len.simps) simp

lemma byte_len_upper: "n < 256 ^ byte_len n"
proof (induction n rule: byte_len.induct)
  case (1 n)
  show ?case
  proof (cases "n = 0")
    case False
    then have "n div 256 < 256 ^ byte_len (n div 256)" using 1 by simp
    then have "n < 256 ^ byte_len (n div 256) * 256"
      by (simp add: div_less_iff_less_mult)
    then show ?thesis using False by (simp add: byte_len_pos mult.commute)
  qed simp
qed

lemma byte_len_lower: "0 < n \<Longrightarrow> 256 ^ (byte_len n - 1) \<le> n"
proof (induction n rule: byte_len.induct)
  case (1 n)
  show ?case
  proof (cases "n < 256")
    case True
    then show ?thesis using 1 by (simp add: byte_len_pos)
  next
    case False
    then have "0 < n div 256" by (simp add: div_greater_zero_iff)
    moreover from this have "256 ^ (byte_len (n div 256) - 1) \<le> n div 256" using 1 by simp
    ultimately have "256 ^ (byte_len (n div 256) - 1) * 256 \<le> n"
      by (simp add: less_eq_div_iff_mult_less_eq)
    moreover have "byte_len (n div 256) = Suc (byte_len (n div 256) - 1)"
      using \<open>0 < n div 256\<close> by (simp add: byte_len_pos)
    ultimately have "256 ^ byte_len (n div 256) \<le> n" by (metis mult.commute power_Suc)
    then show ?thesis using 1 by (simp add: byte_len_pos)
  qed
qed

lemma byte_len_eqI: "256 ^ k \<le> n \<Longrightarrow> n < 256 ^ Suc k \<Longrightarrow> byte_len n = Suc k"
proof -
  assume a: "256 ^ k \<le> n" "n < 256 ^ Suc k"
  then have n: "0 < n" by (metis gr0I not_less power_eq_0_iff zero_less_power zero_less_numeral)
  have "256 ^ (byte_len n - 1) < (256::nat) ^ Suc k" using byte_len_lower [OF n] a by linarith
  then have "byte_len n - 1 < Suc k" by (rule power_less_imp_less_exp [rotated]) simp
  moreover have "(256::nat) ^ k < 256 ^ byte_len n" using byte_len_upper [of n] a by linarith
  then have "k < byte_len n" by (rule power_less_imp_less_exp [rotated]) simp
  ultimately show ?thesis by simp
qed

lemma byte_len_le: "n < 256 ^ k \<Longrightarrow> byte_len n \<le> k"
proof (cases "n = 0")
  case False
  assume "n < 256 ^ k"
  with byte_len_lower [of n] False have "(256::nat) ^ (byte_len n - 1) < 256 ^ k" by linarith
  then have "byte_len n - 1 < k" by (rule power_less_imp_less_exp [rotated]) simp
  then show ?thesis using False byte_len_pos by force
qed simp

lemma bit_len_0 [simp]: "bit_len 0 = 0"
  by (simp add: bit_len.simps)

lemma bit_len_upper: "n < 2 ^ bit_len n"
proof (induction n rule: bit_len.induct)
  case (1 n)
  show ?case
  proof (cases "n = 0")
    case False
    then have "n div 2 < 2 ^ bit_len (n div 2)" using 1 by simp
    then have "n < 2 ^ bit_len (n div 2) * 2" by (simp add: div_less_iff_less_mult)
    then show ?thesis using False by (subst bit_len.simps) (simp add: mult.commute)
  qed simp
qed

lemma bit_len_le: "n < 2 ^ k \<Longrightarrow> bit_len n \<le> k"
proof (induction k arbitrary: n)
  case 0
  then show ?case by simp
next
  case (Suc k)
  then have "bit_len (n div 2) \<le> k" by (simp add: div_less_iff_less_mult mult.commute)
  then show ?case by (subst bit_len.simps) simp
qed

section \<open>The compact encoding\<close>

lemma unat_mant: "unat (bits AND 0x007fffff :: uint32) = unat bits mod 2 ^ 23"
proof -
  have "(0x007fffff :: uint32) = mask 23" by (simp add: mask_numeral)
  then have "unat (bits AND 0x007fffff) = unat (take_bit 23 bits)" by (simp only: take_bit_eq_mask)
  also have "\<dots> = take_bit 23 (unat bits)" by (rule unsigned_take_bit_eq)
  finally show ?thesis by (simp only: take_bit_eq_mod)
qed

lemma unat_drop_bit32: "unat (drop_bit k (w :: uint32)) = unat w div 2 ^ k"
proof -
  have "unat w < 2 ^ 32" using unsigned_less [of w, where ?'a = nat] by simp
  then have "take_bit 32 (unat w) = unat w" by (simp only: take_bit_eq_mod mod_less)
  moreover have "unat (drop_bit k w) = drop_bit k (take_bit LENGTH(32) (unat w))"
    by (rule unsigned_drop_bit_eq)
  ultimately have "unat (drop_bit k w) = drop_bit k (unat w)" by simp
  then show ?thesis by (simp only: drop_bit_eq_div)
qed

lemma CompactToTarget_nonneg [simp]: "0 \<le> CompactToTarget bits"
  by (simp add: CompactToTarget_def Let_def pos_imp_zdiv_nonneg_iff)

lemma pow256: "(2::'a::comm_semiring_1) ^ (8 * k) = 256 ^ k"
  by (simp add: power_mult)

lemma CompactToTarget_parts:
  assumes "unat bits = sz * 2 ^ 24 + mant" and "mant < 2 ^ 23"
  shows "CompactToTarget bits =
    (if sz \<le> 3 then int mant div 256 ^ (3 - sz) else int mant * 256 ^ (sz - 3))"
proof -
  have "unat bits div 2 ^ 24 = sz" using assms by simp
  moreover have "unat bits mod 2 ^ 23 = mant"
  proof -
    have "unat bits = 2 ^ 23 * (sz * 2) + mant" using assms(1) by simp
    then show ?thesis using assms(2) by (simp only: mod_mult_self4 mod_less)
  qed
  ultimately show ?thesis
    by (simp add: CompactToTarget_def unat_drop_bit32 unat_mant pow256 Let_def)
qed

text \<open>The three leading bytes of a target, and the mantissa and size after the sign bit is cleared.\<close>

definition compact_lead :: "nat \<Rightarrow> nat" where
  "compact_lead n = (if byte_len n \<le> 3 then n * 256 ^ (3 - byte_len n) else n div 256 ^ (byte_len n - 3))"

definition compact_parts :: "nat \<Rightarrow> nat \<times> nat" where
  "compact_parts n =
     (if compact_lead n \<ge> 2 ^ 23 then (compact_lead n div 256, byte_len n + 1)
      else (compact_lead n, byte_len n))"

lemma compact_lead_bounds: "0 < n \<Longrightarrow> 2 ^ 16 \<le> compact_lead n \<and> compact_lead n < 2 ^ 24"
proof -
  assume n: "0 < n"
  let ?s = "byte_len n"
  have s: "0 < ?s" using n by (simp add: byte_len_pos)
  note lo = byte_len_lower [OF n] and hi = byte_len_upper [of n]
  show ?thesis
  proof (cases "?s \<le> 3")
    case True
    have "n * 256 ^ (3 - ?s) < 256 ^ ?s * 256 ^ (3 - ?s)" using hi by simp
    also have "\<dots> = 256 ^ 3" using True by (simp flip: power_add)
    finally have "n * 256 ^ (3 - ?s) < 2 ^ 24" by simp
    moreover have "(256::nat) ^ 2 = 256 ^ (?s - 1) * 256 ^ (3 - ?s)"
      using True s by (simp flip: power_add)
    then have "2 ^ 16 \<le> n * 256 ^ (3 - ?s)" using mult_le_mono1 [OF lo, of "256 ^ (3 - ?s)"] by simp
    ultimately show ?thesis using True by (simp add: compact_lead_def)
  next
    case False
    then have e: "?s = 3 + (?s - 3)" "?s - 1 = 2 + (?s - 3)" by simp_all
    have "n < 256 ^ 3 * 256 ^ (?s - 3)" using hi e(1) by (metis power_add)
    then have "n div 256 ^ (?s - 3) < 256 ^ 3" by (simp add: div_less_iff_less_mult)
    moreover have "256 ^ 2 * 256 ^ (?s - 3) \<le> n" using lo e(2) by (metis power_add)
    then have "256 ^ 2 \<le> n div 256 ^ (?s - 3)" by (simp add: less_eq_div_iff_mult_less_eq)
    ultimately show ?thesis using False by (simp add: compact_lead_def)
  qed
qed

lemma compact_parts_bounds:
  "0 < n \<Longrightarrow> compact_parts n = (m, s) \<Longrightarrow> 2 ^ 15 \<le> m \<and> m < 2 ^ 23 \<and> 0 < s \<and> s \<le> Suc (byte_len n)"
  using compact_lead_bounds [of n] by (auto simp: compact_parts_def byte_len_pos split: if_splits)

lemma bit_23_iff: "M < 2 ^ 24 \<Longrightarrow> ((of_nat M :: uint32) AND 0x00800000 \<noteq> 0) = (M \<ge> 2 ^ 23)"
proof -
  assume M: "M < 2 ^ 24"
  have "(0x00800000 :: uint32) = 2 ^ 23" by simp
  then have "((of_nat M :: uint32) AND 0x00800000 \<noteq> 0) = bit (of_nat M :: uint32) 23"
    by (simp only: and_exp_eq_0_iff_not_bit) simp
  also have "\<dots> = bit (unat (of_nat M :: uint32)) 23" by (simp only: bit_unsigned_iff) simp
  also have "\<dots> = odd (M div 2 ^ 23)" using M by (simp add: unat_of_nat bit_iff_odd)
  also have "\<dots> = (M \<ge> 2 ^ 23)"
  proof (cases "M \<ge> 2 ^ 23")
    case True
    then have "M div 2 ^ 23 = 1" using M by (intro div_nat_eqI) simp_all
    then show ?thesis using True by simp
  qed simp
  finally show ?thesis .
qed

lemma lead_word:
  assumes "0 < t"
  shows "(if byte_len (nat t) \<le> 3 then push_bit (8 * (3 - byte_len (nat t))) (of_int t)
     else of_int (t div 2 ^ (8 * (byte_len (nat t) - 3)))) = (of_nat (compact_lead (nat t)) :: uint32)"
proof (cases "byte_len (nat t) \<le> 3")
  case True
  then show ?thesis using assms
    by (simp add: compact_lead_def push_bit_eq_mult pow256)
next
  case False
  have "t div 2 ^ (8 * (byte_len (nat t) - 3)) = int (nat t div 256 ^ (byte_len (nat t) - 3))"
    using assms by (simp add: pow256 zdiv_int)
  then show ?thesis using False by (simp add: compact_lead_def)
qed

lemma unat_compact_word:
  assumes "s < 256"
  shows "unat (push_bit 24 (of_nat s) OR ((w :: uint32) AND 0x007fffff)) = s * 2 ^ 24 + unat w mod 2 ^ 23"
proof -
  let ?a = "push_bit 24 (of_nat s) :: uint32"
  let ?b = "w AND 0x007fffff"
  have a: "unat ?a = s * 2 ^ 24"
    using assms by (simp add: push_bit_eq_mult unat_word_ariths unat_of_nat)
  have b: "?b = take_bit 23 w" by (simp add: take_bit_eq_mask mask_numeral)
  have "?a AND ?b = 0"
    unfolding b by (rule bit_eqI) (auto simp: bit_simps)
  then have "?a OR ?b = ?a + ?b" by (rule disjunctive_add_eq_or [symmetric])
  moreover have "unat (?a + ?b) = unat ?a + unat ?b"
    using a assms unat_mant [of w] by (simp add: unat_word_ariths)
  ultimately show ?thesis by (simp only: a unat_mant)
qed

lemma unat_TargetToCompact:
  assumes "0 < t" and "byte_len (nat t) < 255" and "compact_parts (nat t) = (m, s)"
  shows "unat (TargetToCompact t) = s * 2 ^ 24 + m"
proof -
  let ?M = "compact_lead (nat t)"
  have M: "?M < 2 ^ 24" using compact_lead_bounds [of "nat t"] assms(1) by simp
  have uM: "unat (of_nat ?M :: uint32) = ?M" using M by (simp add: unat_of_nat)
  have bnd: "m < 2 ^ 23" "s < 256"
    using compact_parts_bounds [OF _ assms(3)] assms by auto
  define w where "w = (if ?M \<ge> 2 ^ 23 then drop_bit 8 (of_nat ?M) else of_nat ?M :: uint32)"
  have w: "unat w = m" and "TargetToCompact t = push_bit 24 (of_nat s) OR (w AND 0x007fffff)"
    using assms(1,3) M uM unfolding w_def TargetToCompact_def Let_def lead_word [OF assms(1)] bit_23_iff [OF M]
    by (auto simp: compact_parts_def unat_drop_bit32)
  then show ?thesis using unat_compact_word [OF bnd(2), of w] bnd by simp
qed


lemma div_power_Suc: "n div d ^ Suc k = n div d ^ k div (d::nat)"
  by (simp only: power_Suc2 div_mult2_eq)

lemma compact_parts_mant:
  assumes "compact_parts n = (m, s)"
  shows "m = (if s \<le> 3 then n * 256 ^ (3 - s) else n div 256 ^ (s - 3))"
proof (cases "compact_lead n \<ge> 2 ^ 23")
  case False
  then show ?thesis using assms by (auto simp: compact_parts_def compact_lead_def)
next
  case True
  then have ms: "m = compact_lead n div 256" "s = Suc (byte_len n)"
    using assms by (auto simp: compact_parts_def)
  consider "byte_len n \<le> 2" | "byte_len n = 3" | "3 < byte_len n" by linarith
  then show ?thesis
  proof cases
    case 1
    then have "3 - byte_len n = Suc (3 - s)" using ms by simp
    then show ?thesis using 1 ms by (simp add: compact_lead_def)
  next
    case 2
    then show ?thesis using ms by (simp add: compact_lead_def)
  next
    case 3
    then have "s - 3 = Suc (byte_len n - 3)" using ms by simp
    then have "n div 256 ^ (s - 3) = n div 256 ^ (byte_len n - 3) div 256"
      by (simp only: div_power_Suc)
    then show ?thesis using 3 ms by (simp add: compact_lead_def)
  qed
qed

lemma byte_len_256bit: "t < 2 ^ 256 \<Longrightarrow> byte_len (nat t) < 255"
proof -
  assume "t < 2 ^ 256"
  then have "nat t < 256 ^ 32" by (simp add: nat_less_iff)
  then have "byte_len (nat t) \<le> 32" by (rule byte_len_le)
  then show ?thesis by simp
qed

text \<open>Compressing and expanding a target keeps its leading bytes and clears the rest.\<close>

lemma Compact_of_Target:
  assumes "0 < t" and "t < 2 ^ 256" and "compact_parts (nat t) = (m, s)"
  shows "CompactToTarget (TargetToCompact t) = int (nat t div 256 ^ (s - 3) * 256 ^ (s - 3))"
proof -
  have "unat (TargetToCompact t) = s * 2 ^ 24 + m"
    using unat_TargetToCompact [OF assms(1) byte_len_256bit [OF assms(2)] assms(3)] .
  moreover have "m < 2 ^ 23" using compact_parts_bounds [OF _ assms(3)] assms(1) by simp
  ultimately have c: "CompactToTarget (TargetToCompact t) =
      (if s \<le> 3 then int m div 256 ^ (3 - s) else int m * 256 ^ (s - 3))"
    by (rule CompactToTarget_parts)
  show ?thesis
  proof (cases "s \<le> 3")
    case True
    then show ?thesis using c compact_parts_mant [OF assms(3)] assms(1) by simp
  next
    case False
    then show ?thesis using c compact_parts_mant [OF assms(3)] by simp
  qed
qed

lemma mult_div_keeps: "d dvd a \<Longrightarrow> a \<le> n \<Longrightarrow> a \<le> n div d * (d::nat)"
  by (metis div_le_mono dvd_div_mult_self mult_le_mono1)

lemma compact_parts_rounded:
  assumes "0 < n" and "compact_parts n = (m, s)"
  shows "compact_parts (n div 256 ^ (s - 3) * 256 ^ (s - 3)) = (m, s)"
proof (cases "s \<le> 3")
  case True
  then show ?thesis using assms by simp
next
  case False
  let ?n = "n div 256 ^ (s - 3) * 256 ^ (s - 3)"
  let ?L = "byte_len n"
  have L: "s = ?L \<and> compact_lead n < 2 ^ 23 \<or> s = Suc ?L \<and> 2 ^ 23 \<le> compact_lead n"
    using assms(2) by (auto simp: compact_parts_def split: if_splits)
  have L3: "3 \<le> ?L" using L False by auto
  have "256 ^ (s - 3) dvd (256::nat) ^ (?L - 1)" using L by (intro le_imp_power_dvd) auto
  then have lo: "256 ^ (?L - 1) \<le> ?n" using byte_len_lower [OF assms(1)] by (rule mult_div_keeps)
  have "?n \<le> n" by simp
  then have hi: "?n < 256 ^ ?L" using byte_len_upper [of n] by linarith
  have bl: "byte_len ?n = ?L" using byte_len_eqI [of "?L - 1" ?n] lo hi L3 by simp
  have lead: "compact_lead n = n div 256 ^ (?L - 3)" "compact_lead ?n = ?n div 256 ^ (?L - 3)"
    using L3 by (cases "?L = 3"; simp add: compact_lead_def bl)+
  show ?thesis
  proof (cases "s = ?L")
    case True
    then have "compact_lead ?n = compact_lead n" unfolding lead by simp
    then show ?thesis using assms(2) by (auto simp: compact_parts_def bl split: if_splits)
  next
    case False
    then have s: "s - 3 = Suc (?L - 3)" "s = Suc ?L" "2 ^ 23 \<le> compact_lead n" using L L3 by auto
    have "?n = n div 256 ^ (?L - 3) div 256 * 256 * 256 ^ (?L - 3)"
      unfolding s(1) div_power_Suc by (simp add: mult.commute)
    then have l: "compact_lead ?n = compact_lead n div 256 * 256" unfolding lead by simp
    then have "2 ^ 23 \<le> compact_lead ?n" using mult_div_keeps [of 256 "2 ^ 23" "compact_lead n"] s(3) by simp
    then have "compact_parts ?n = (compact_lead ?n div 256, byte_len ?n + 1)"
      unfolding compact_parts_def by (rule if_P)
    moreover have "compact_parts n = (compact_lead n div 256, byte_len n + 1)"
      using s(3) unfolding compact_parts_def by (rule if_P)
    ultimately show ?thesis using assms(2) unfolding l bl by simp
  qed
qed

lemma compact_parts_pos: "0 < n \<Longrightarrow> compact_parts n = (m, s) \<Longrightarrow> 0 < n div 256 ^ (s - 3) * 256 ^ (s - 3)"
  using compact_parts_bounds [of n m s] compact_parts_mant [of n m s] by (cases "s \<le> 3") auto

lemma TargetToCompact_idem:
  assumes "0 < t" and "t < 2 ^ 256"
  shows "TargetToCompact (CompactToTarget (TargetToCompact t)) = TargetToCompact t"
proof -
  obtain m s where p: "compact_parts (nat t) = (m, s)" by (cases "compact_parts (nat t)")
  define n where "n = nat t div 256 ^ (s - 3) * 256 ^ (s - 3)"
  have pos: "0 < n" using compact_parts_pos [OF _ p] assms(1) by (simp add: n_def)
  have "n \<le> nat t" unfolding n_def by (rule div_times_less_eq_dividend)
  then have "int n < 2 ^ 256" using assms by simp
  moreover have "compact_parts n = (m, s)"
    using compact_parts_rounded [OF _ p] assms(1) by (simp add: n_def)
  ultimately have "unat (TargetToCompact (int n)) = s * 2 ^ 24 + m"
    using pos by (intro unat_TargetToCompact byte_len_256bit) simp_all
  moreover have "unat (TargetToCompact t) = s * 2 ^ 24 + m"
    using unat_TargetToCompact [OF assms(1) byte_len_256bit [OF assms(2)] p] .
  ultimately show ?thesis
    by (simp add: Compact_of_Target [OF assms p] n_def word_unat_eq_iff)
qed

lemma Compact_of_Target_bounds:
  assumes "0 < t" and "t < 2 ^ 256"
  shows "0 < CompactToTarget (TargetToCompact t)" and "CompactToTarget (TargetToCompact t) \<le> t"
    and "t * 2 ^ 15 < CompactToTarget (TargetToCompact t) * (2 ^ 15 + 1)"
proof -
  obtain m s where p: "compact_parts (nat t) = (m, s)" by (cases "compact_parts (nat t)")
  let ?d = "(256::nat) ^ (s - 3)"
  let ?n = "nat t div ?d * ?d"
  note c = Compact_of_Target [OF assms p]
  show pos: "0 < CompactToTarget (TargetToCompact t)"
    unfolding c using compact_parts_pos [OF _ p] assms(1) by simp
  have "int ?n \<le> int (nat t)" by (simp only: of_nat_le_iff div_times_less_eq_dividend)
  then show "CompactToTarget (TargetToCompact t) \<le> t" unfolding c using assms(1) by simp
  have m: "2 ^ 15 \<le> m" using compact_parts_bounds [OF _ p] assms(1) by simp
  have "nat t * 2 ^ 15 < ?n * (2 ^ 15 + 1)"
  proof (cases "s \<le> 3")
    case True
    then show ?thesis using assms(1) by simp
  next
    case False
    then have mq: "m = nat t div ?d" using compact_parts_mant [OF p] by simp
    have "nat t < (m + 1) * ?d" unfolding mq by (simp add: dividend_less_div_times)
    then have "nat t * 2 ^ 15 < (m + 1) * ?d * 2 ^ 15" by simp
    also have "\<dots> = (m * 2 ^ 15 + 2 ^ 15) * ?d" by (simp add: algebra_simps)
    also have "\<dots> \<le> (m * 2 ^ 15 + m) * ?d" using m by (intro mult_le_mono1) simp
    also have "\<dots> = ?n * (2 ^ 15 + 1)" unfolding mq by (simp add: algebra_simps)
    finally show ?thesis .
  qed
  then have "int (nat t * 2 ^ 15) < int (?n * (2 ^ 15 + 1))" by (simp only: of_nat_less_iff)
  then show "t * 2 ^ 15 < CompactToTarget (TargetToCompact t) * (2 ^ 15 + 1)"
    unfolding c using assms(1) by simp
qed

section \<open>ASERT against its specification\<close>

text \<open>\<open>x * 2^k\<close> rounded down.\<close>

definition shift :: "int \<Rightarrow> int \<Rightarrow> int" where
  "shift k x = (if k \<ge> 0 then x * 2 ^ nat k else x div 2 ^ nat (- k))"

definition asert_scaled :: "int \<Rightarrow> int \<Rightarrow> int" where
  "asert_scaled ref e = shift (e div 65536 - 16) (ref * asert_factor (e mod 65536))"

definition asert_exponent :: "int \<Rightarrow> int \<Rightarrow> int \<Rightarrow> int \<Rightarrow> int" where
  "asert_exponent spacing timeDiff heightDiff halfLife =
     ((timeDiff - (heightDiff + 1) * spacing) * 65536) sdiv halfLife"

definition asert_spec :: "int \<Rightarrow> int \<Rightarrow> int \<Rightarrow> int \<Rightarrow> int \<Rightarrow> int \<Rightarrow> int" where
  "asert_spec ref spacing timeDiff heightDiff halfLife maxT =
     max 1 (min maxT (asert_scaled ref (asert_exponent spacing timeDiff heightDiff halfLife)))"

lemma shift_mono: "x \<le> y \<Longrightarrow> shift k x \<le> shift k y"
  by (auto simp: shift_def zdiv_mono1)

lemma shift_Suc: "shift (k + 1) x = shift k (2 * x)"
proof -
  consider "k \<ge> 0" | "k = -1" | "k < -1" by linarith
  then show ?thesis
  proof cases
    case 1
    then have "nat (k + 1) = Suc (nat k)" by simp
    then show ?thesis using 1 by (simp add: shift_def)
  next
    case 2
    then show ?thesis by (simp add: shift_def)
  next
    case 3
    then have "nat (- k) = Suc (nat (- (k + 1)))" by simp
    then show ?thesis using 3 by (simp add: shift_def)
  qed
qed

lemma shift_mono_exp:
  assumes "0 \<le> x" and "k \<le> l"
  shows "shift k x \<le> shift l x"
proof -
  have "shift k x \<le> shift (k + int n) x" for n
  proof (induction n)
    case (Suc n)
    have "shift (k + int n) x \<le> shift (k + int n) (2 * x)" using assms(1) by (intro shift_mono) simp
    also have "\<dots> = shift (k + int (Suc n)) x" using shift_Suc [of "k + int n" x] by (simp add: add.commute add.left_commute)
    finally show ?case using Suc by linarith
  qed simp
  from this [of "nat (l - k)"] show ?thesis using assms(2) by simp
qed

lemma shift_nonneg: "0 \<le> x \<Longrightarrow> 0 \<le> shift k x"
  by (simp add: shift_def pos_imp_zdiv_nonneg_iff)

lemma asert_factor_mono: "0 \<le> a \<Longrightarrow> a \<le> b \<Longrightarrow> asert_factor a \<le> asert_factor b"
proof -
  assume a: "0 \<le> a" "a \<le> b"
  then have "a * a \<le> b * b" by (intro mult_mono) simp_all
  moreover from this a have "a * a * a \<le> b * b * b" by (intro mult_mono) simp_all
  ultimately show ?thesis
    using a unfolding asert_factor_def by (intro add_right_mono zdiv_mono1 add_mono mult_left_mono) simp_all
qed

lemma asert_factor_bounds:
  assumes "0 \<le> f" and "f < 65536"
  shows "65536 \<le> asert_factor f" and "asert_factor f \<le> 131072"
proof -
  have "asert_factor 0 = 65536" by (simp add: asert_factor_def)
  then show "65536 \<le> asert_factor f" using asert_factor_mono [of 0 f] assms by simp
  have "asert_factor 65535 = 131071" by (simp add: asert_factor_def)
  then show "asert_factor f \<le> 131072" using asert_factor_mono [of f 65535] assms by simp
qed

lemmas frac_factor = asert_factor_bounds [of "e mod 65536" for e, simplified]

lemma asert_scaled_mono:
  assumes "0 \<le> ref" and "d \<le> e"
  shows "asert_scaled ref d \<le> asert_scaled ref e"
proof (cases "d div 65536 = e div 65536")
  case True
  have "65536 * (d div 65536) + d mod 65536 = d" "65536 * (e div 65536) + e mod 65536 = e" by simp_all
  then have "d mod 65536 \<le> e mod 65536" using True assms(2) by linarith
  then show ?thesis
    unfolding asert_scaled_def True using assms(1)
    by (intro shift_mono mult_left_mono asert_factor_mono) simp_all
next
  case False
  let ?k = "d div 65536 - 16"
  have le: "?k + 1 \<le> e div 65536 - 16" using False zdiv_mono1 [OF assms(2), of 65536] by simp
  have "asert_scaled ref d \<le> shift ?k (2 * (ref * 65536))"
    unfolding asert_scaled_def using mult_left_mono [OF frac_factor(2) [of d] assms(1)]
    by (intro shift_mono) (simp add: mult.commute)
  also have "\<dots> = shift (?k + 1) (ref * 65536)" by (rule shift_Suc [symmetric])
  also have "\<dots> \<le> shift (e div 65536 - 16) (ref * 65536)"
    using le assms(1) by (intro shift_mono_exp) simp_all
  also have "\<dots> \<le> asert_scaled ref e"
    unfolding asert_scaled_def using frac_factor(1) [of e] assms(1)
    by (intro shift_mono mult_left_mono) simp_all
  finally show ?thesis .
qed

lemma floor_split:
  "(if e smod 65536 < 0 then (e sdiv 65536 - 1, e smod 65536 + 65536) else (e sdiv 65536, e smod 65536))
   = (e div 65536, e mod (65536::int))"
proof (cases "e \<ge> 0")
  case True
  then have "e sdiv 65536 = e div 65536"
    by (cases "e = 0") (simp_all add: signed_divide_int_def)
  moreover have "e smod 65536 = e mod 65536"
    using True by (cases "e = 0") (simp_all add: signed_modulo_int_def)
  ultimately show ?thesis by simp
next
  case False
  then have q: "e sdiv 65536 = - ((- e) div 65536)" by (simp add: signed_divide_int_def)
  have r: "e smod 65536 = - ((- e) mod 65536)" using False by (simp add: signed_modulo_int_def)
  show ?thesis
  proof (cases "(- e) mod 65536 = 0")
    case True
    then have "e mod 65536 = 0" "e div 65536 = - ((- e) div 65536)"
      using zdiv_zminus1_eq_if [of 65536 "- e"] zmod_zminus1_eq_if [of "- e" 65536] by simp_all
    then show ?thesis using q r True by simp
  next
    case False
    have "e div 65536 = - ((- e) div 65536) - 1" "e mod 65536 = 65536 - (- e) mod 65536"
      using False zdiv_zminus1_eq_if [of 65536 "- e"] zmod_zminus1_eq_if [of "- e" 65536] by simp_all
    moreover have "0 < (- e) mod 65536" using False pos_mod_sign [of 65536 "- e"] by linarith
    ultimately show ?thesis using q r by simp
  qed
qed


lemma shift_large: "int (bit_len (nat m)) < k \<Longrightarrow> 0 < x \<Longrightarrow> m < shift k x"
proof -
  assume a: "int (bit_len (nat m)) < k" "0 < x"
  have "nat m < 2 ^ bit_len (nat m)" by (rule bit_len_upper)
  also have "\<dots> \<le> 2 ^ nat k" using a(1) by (intro power_increasing) simp_all
  finally have "int (nat m) < int (2 ^ nat k)" by (simp only: of_nat_less_iff)
  moreover have "m \<le> int (nat m)" by simp
  ultimately have "m < int (2 ^ nat k)" by linarith
  then have "m < 2 ^ nat k" by simp
  also have "\<dots> \<le> x * 2 ^ nat k" using a(2) by simp
  finally show ?thesis using a(1) by (simp add: shift_def)
qed

lemma shift_small: "int (bit_len (nat x)) \<le> - k \<Longrightarrow> 0 \<le> x \<Longrightarrow> shift k x = 0"
proof -
  assume a: "int (bit_len (nat x)) \<le> - k" "0 \<le> x"
  show ?thesis
  proof (cases "x = 0")
    case False
    have "nat x < 2 ^ bit_len (nat x)" by (rule bit_len_upper)
    also have "\<dots> \<le> 2 ^ nat (- k)" using a(1) by (intro power_increasing) simp_all
    finally have "x < 2 ^ nat (- k)" using a(2) by (simp add: nat_less_iff)
    moreover have "k < 0" using a False by (cases "k = 0") (auto simp: bit_len.simps)
    ultimately show ?thesis using a(2) by (simp add: shift_def)
  qed (simp add: shift_def)
qed

lemma bit_len_256: "x < 2 ^ n \<Longrightarrow> bit_len (nat x) \<le> n"
proof -
  assume "x < 2 ^ n"
  then have "nat x < 2 ^ n" by (simp add: nat_less_iff)
  then show ?thesis by (rule bit_len_le)
qed

lemma asert_scaled_extreme:
  assumes "0 < ref" and "ref < 2 ^ 256" and "maxT < 2 ^ 256"
  shows "2 ^ 63 \<le> e \<Longrightarrow> maxT < asert_scaled ref e" and "e < - (2 ^ 63) \<Longrightarrow> asert_scaled ref e = 0"
proof -
  let ?x = "ref * asert_factor (e mod 65536)"
  have x: "0 < ?x" using assms(1) frac_factor(1) [of e] by simp
  have "?x \<le> ref * 131072" using frac_factor(2) [of e] assms(1) by (intro mult_left_mono) simp_all
  then have "?x < 2 ^ 273" using assms(2) by simp
  then have bx: "bit_len (nat ?x) \<le> 273" by (rule bit_len_256)
  have bm: "bit_len (nat maxT) \<le> 256" using assms(3) by (rule bit_len_256)
  show "maxT < asert_scaled ref e" if "2 ^ 63 \<le> e"
    unfolding asert_scaled_def using that bm x by (intro shift_large) simp_all
  show "asert_scaled ref e = 0" if "e < - (2 ^ 63)"
    unfolding asert_scaled_def using that bx x by (intro shift_small) simp_all
qed

text \<open>The main path of the calculation, with the floored exponent split named.\<close>

lemma calculateASERTTarget_main:
  assumes "0 < ref" and "0 < maxT" and "0 < spacing" and "0 \<le> dh" and "0 < halfLife"
    and "e = asert_exponent spacing td dh halfLife" and "k = e div 65536 - 16"
    and "x = ref * asert_factor (e mod 65536)"
  shows "calculateASERTTarget ref spacing td dh halfLife maxT =
      (if \<not> is_int64 e then (if e < 0 then 1 else maxT)
       else if k > 0 \<and> k > int (bit_len (nat maxT)) + 17 then maxT
       else let next' = (if k \<le> 0 then (if - k \<ge> int (bit_len (nat x)) then 0 else x div 2 ^ nat (- k))
                         else x * 2 ^ nat k)
            in if next' = 0 then 1 else if next' > maxT then maxT else next')"
proof -
  have "(ref \<le> 0) = False" "(maxT \<le> 0) = False" "(halfLife \<le> 0 \<or> spacing \<le> 0 \<or> dh < 0) = False"
    using assms(1-5) by auto
  then show ?thesis
    unfolding calculateASERTTarget_def assms(6-8) asert_exponent_def
    by (simp only: if_False Let_def floor_split prod.case)
qed

lemma calculateASERTTarget_spec:
  assumes "0 < ref" and "ref < 2 ^ 256" and "0 < maxT" and "maxT < 2 ^ 256"
    and "0 < spacing" and "0 \<le> dh" and "0 < halfLife"
  shows "calculateASERTTarget ref spacing td dh halfLife maxT = asert_spec ref spacing td dh halfLife maxT"
proof -
  define e where "e = asert_exponent spacing td dh halfLife"
  define x where "x = ref * asert_factor (e mod 65536)"
  define k where "k = e div 65536 - 16"
  have x: "0 < x" using assms(1) frac_factor(1) [of e] by (simp add: x_def)
  have sc: "asert_scaled ref e = shift k x" by (simp add: asert_scaled_def x_def k_def)
  have spec: "asert_spec ref spacing td dh halfLife maxT = max 1 (min maxT (shift k x))"
    by (simp add: asert_spec_def e_def [symmetric] sc)
  note calc = calculateASERTTarget_main [OF assms(1,3,5,6,7) e_def k_def x_def]
  show ?thesis
  proof (cases "is_int64 e")
    case False
    then have "2 ^ 63 \<le> e \<or> e < - (2 ^ 63)" by (auto simp: is_int64_def)
    then show ?thesis
      using False calc spec sc asert_scaled_extreme [OF assms(1,2,4), of e] assms(3) by auto
  next
    case True
    have "0 < bit_len (nat x)" using x by (subst bit_len.simps) simp
    then have next': "(if k \<le> 0 then (if - k \<ge> int (bit_len (nat x)) then 0 else x div 2 ^ nat (- k))
        else x * 2 ^ nat k) = shift k x"
      using shift_small [of x k] x by (auto simp: shift_def)
    have "0 \<le> shift k x" using x by (simp add: shift_nonneg)
    moreover have "maxT < shift k x" if "k > int (bit_len (nat maxT)) + 17"
      using that x by (intro shift_large) simp_all
    ultimately show ?thesis using True assms(3) unfolding calc spec next' Let_def by auto
  qed
qed

lemma sdiv_mono: "0 < (c::int) \<Longrightarrow> a \<le> b \<Longrightarrow> a sdiv c \<le> b sdiv c"
proof -
  assume a: "0 < c" "a \<le> b"
  have nn: "x sdiv c = x div c" if "0 \<le> x" for x
    using that a(1) by (cases "x = 0") (simp_all add: signed_divide_int_def)
  have neg: "x sdiv c = - ((- x) div c)" if "x < 0" for x
    using that a(1) by (simp add: signed_divide_int_def)
  consider "0 \<le> a" | "a < 0" "0 \<le> b" | "b < 0" using a by linarith
  then show ?thesis
  proof cases
    case 1
    then show ?thesis using a by (simp add: nn zdiv_mono1)
  next
    case 2
    then have "0 \<le> (- a) div c" "0 \<le> b div c" using a by (simp_all add: pos_imp_zdiv_nonneg_iff)
    then show ?thesis using 2 by (simp add: nn neg)
  next
    case 3
    then show ?thesis using a by (simp add: neg zdiv_mono1)
  qed
qed

lemma asert_spec_mono:
  assumes "0 < ref" and "0 < halfLife" and "t1 \<le> t2"
  shows "asert_spec ref spacing t1 dh halfLife maxT \<le> asert_spec ref spacing t2 dh halfLife maxT"
proof -
  have "asert_exponent spacing t1 dh halfLife \<le> asert_exponent spacing t2 dh halfLife"
    unfolding asert_exponent_def using assms by (intro sdiv_mono) simp_all
  then have "asert_scaled ref (asert_exponent spacing t1 dh halfLife)
      \<le> asert_scaled ref (asert_exponent spacing t2 dh halfLife)"
    using assms(1) by (intro asert_scaled_mono) simp_all
  then show ?thesis unfolding asert_spec_def by (intro max.mono min.mono) simp_all
qed

section \<open>Work\<close>

lemma WorkFromTarget_antimono: "0 \<le> a \<Longrightarrow> a \<le> b \<Longrightarrow> WorkFromTarget b \<le> WorkFromTarget a"
  unfolding WorkFromTarget_def by (intro zdiv_mono2) simp_all

lemma WorkFromTarget_nonneg: "0 \<le> t \<Longrightarrow> 0 \<le> WorkFromTarget t"
  by (simp add: WorkFromTarget_def pos_imp_zdiv_nonneg_iff)

lemma WorkFromTarget_pos: "0 \<le> t \<Longrightarrow> t < 2 ^ 256 \<Longrightarrow> 0 < WorkFromTarget t"
  by (simp add: WorkFromTarget_def pos_imp_zdiv_pos_iff)

section \<open>Required difficulty\<close>

lemma calculateASERTTarget_range:
  assumes "0 < maxT"
  shows "1 \<le> calculateASERTTarget ref spacing td dh halfLife maxT"
    and "calculateASERTTarget ref spacing td dh halfLife maxT \<le> maxT"
proof -
  have scaled: "1 \<le> (if x = 0 then 1 else if x > maxT then maxT else x)
      \<and> (if x = 0 then 1 else if x > maxT then maxT else x) \<le> maxT" if "0 \<le> x" for x :: int
    using that assms by simp
  have "1 \<le> calculateASERTTarget ref spacing td dh halfLife maxT
      \<and> calculateASERTTarget ref spacing td dh halfLife maxT \<le> maxT"
  proof (cases "0 < ref \<and> 0 < halfLife \<and> 0 < spacing \<and> 0 \<le> dh")
    case False
    then show ?thesis using assms by (auto simp: calculateASERTTarget_def)
  next
    case True
    define e where "e = asert_exponent spacing td dh halfLife"
    define k where "k = e div 65536 - 16"
    define x where "x = ref * asert_factor (e mod 65536)"
    have x: "0 \<le> x" using True frac_factor(1) [of e] by (simp add: x_def)
    have next': "0 \<le> (if k \<le> 0 then (if - k \<ge> int (bit_len (nat x)) then 0 else x div 2 ^ nat (- k))
                         else x * 2 ^ nat k)"
      using x by (simp add: pos_imp_zdiv_nonneg_iff)
    have pos: "0 < ref" "0 < spacing" "0 \<le> dh" "0 < halfLife" using True by simp_all
    show ?thesis
      unfolding calculateASERTTarget_main [OF pos(1) assms pos(2-4) e_def k_def x_def] Let_def
      using scaled [OF next'] assms by auto
  qed
  then show "1 \<le> calculateASERTTarget ref spacing td dh halfLife maxT"
    "calculateASERTTarget ref spacing td dh halfLife maxT \<le> maxT" by simp_all
qed

lemma MaxTarget_mainnet: "MaxTarget canonicalMainNetParams = 0xffff * 2 ^ 224"
  by (simp add: MaxTarget_def CompactToTarget_def canonicalMainNetParams_def)

lemma NextBits_asert:
  assumes "asertActive p height" and "height \<noteq> 0"
    and "bitsAt (ASERTActivationHeight p - 1) = Inr b"
    and "timeAt (height - 1) = Inr t1" and "timeAt (ASERTActivationHeight p - 2) = Inr t0"
  shows "NextBits p height bitsAt timeAt =
    Inr (TargetToCompact (calculateASERTTarget (CompactToTarget b) (TargetBlockTime p)
      (wrap64 (t1 - t0)) (height - ASERTActivationHeight p) (ASERTHalfLife p) (MaxTarget p)))"
  using assms by (simp add: NextBits_def Let_def algebra_simps)

lemma retarget_clamp:
  assumes "0 < (expected::int)" and "expected < 2 ^ 61"
    and "a1 = (if a0 < expected sdiv 4 then expected sdiv 4 else a0)"
    and "a = (if a1 > wrap64 (expected * 4) then wrap64 (expected * 4) else a1)"
  shows "expected div 4 \<le> a" and "a \<le> expected * 4"
proof -
  have "wrap64 (expected * 4) = expected * 4" using assms(1,2) by (intro wrap64_id) (simp add: is_int64_def)
  moreover have "expected sdiv 4 = expected div 4" using assms(1) by (simp add: signed_divide_int_def)
  moreover have "expected div 4 \<le> expected * 4" using assms(1) by simp
  ultimately show "expected div 4 \<le> a" "a \<le> expected * 4" using assms(3,4) by auto
qed

text \<open>A retarget step of the rule before ASERT: the new target is within a factor of four.\<close>

lemma NextBits_retarget:
  assumes "\<not> asertActive p height" and "height \<noteq> 0" and "RetargetInterval p \<noteq> 0"
    and "height smod RetargetInterval p = 0"
    and "bitsAt (height - 1) = Inr b" and "timeAt (height - 1) = Inr t1"
    and "timeAt (height - RetargetInterval p) = Inr t0"
    and "expected = wrap64 (TargetBlockTime p * wrap64 (RetargetInterval p - 1))"
    and "0 < expected" and "expected < 2 ^ 61"
  obtains a where "expected div 4 \<le> a" and "a \<le> expected * 4"
    and "NextBits p height bitsAt timeAt =
      Inr (TargetToCompact (min (MaxTarget p) (CompactToTarget b * a div expected)))"
proof -
  define a0 where "a0 = wrap64 (t1 - t0)"
  define a1 where "a1 = (if a0 < expected sdiv 4 then expected sdiv 4 else a0)"
  define a where "a = (if a1 > wrap64 (expected * 4) then wrap64 (expected * 4) else a1)"
  note cl = retarget_clamp [OF assms(9,10) a1_def a_def]
  have "NextBits p height bitsAt timeAt =
      Inr (TargetToCompact (min (MaxTarget p) (CompactToTarget b * a div expected)))"
    using assms(1-7,9) unfolding NextBits_def a_def a1_def a0_def
    by (simp add: Let_def assms(8) [symmetric] min_def not_le)
  with cl that show ?thesis by blast
qed

lemma quarter_le: "4 dvd (e::int) \<Longrightarrow> 0 < e \<Longrightarrow> e div 4 \<le> a \<Longrightarrow> 0 \<le> t \<Longrightarrow> t div 4 \<le> t * a div e"
proof -
  assume a: "4 dvd e" "0 < e" "e div 4 \<le> a" "0 \<le> t"
  obtain d where d: "e = 4 * d" using a(1) by (rule dvdE)
  then have "0 < d" using a(2) by simp
  have "t div 4 = t * d div (4 * d)" using \<open>0 < d\<close> by simp
  also have "\<dots> \<le> t * a div (4 * d)" using a d \<open>0 < d\<close> by (intro zdiv_mono1 mult_left_mono) simp_all
  finally show ?thesis using d by simp
qed

lemma mainnet_expected: "wrap64 (TargetBlockTime canonicalMainNetParams *
    wrap64 (RetargetInterval canonicalMainNetParams - 1)) = 1209000"
  by (simp add: canonicalMainNetParams_def wrap64_def)

lemma mainnet_retarget_range:
  assumes "4 \<le> CompactToTarget b" and "302250 \<le> a"
  shows "1 \<le> min (MaxTarget canonicalMainNetParams) (CompactToTarget b * a div 1209000)"
proof -
  have "CompactToTarget b div 4 \<le> CompactToTarget b * a div 1209000"
    using quarter_le [of 1209000 a "CompactToTarget b"] assms(2) by simp
  moreover have "1 \<le> CompactToTarget b div 4" using assms(1) by simp
  ultimately show ?thesis by (simp add: MaxTarget_mainnet)
qed

section \<open>Properties\<close>

text \<open>Encoding a positive 256-bit target in compact form rounds it down, keeps it positive and loses
  less than one part in 2^15; encoding the decoded value again gives the same bits.\<close>

theorem compact_target_precise:
  assumes "0 < t" and "t < 2 ^ 256"
  shows "TargetToCompact (CompactToTarget (TargetToCompact t)) = TargetToCompact t \<and>
    0 < CompactToTarget (TargetToCompact t) \<and> CompactToTarget (TargetToCompact t) \<le> t \<and>
    t * 2 ^ 15 < CompactToTarget (TargetToCompact t) * (2 ^ 15 + 1)"
  using TargetToCompact_idem [OF assms] Compact_of_Target_bounds [OF assms] by simp

theorem compact_target_precise_witness:
  "TargetToCompact (CompactToTarget (TargetToCompact 123456789)) = TargetToCompact 123456789"
  using compact_target_precise [of 123456789] by simp

text \<open>The staged integer computation of the ASERT target (64-bit exponent guard, floor split of the
  exponent, cubic factor, guarded shifts, clamping) is the reference formula: the anchor target
  times the fixed-point power of two of the schedule error, floored and clamped to
  the range from 1 to the maximum target.\<close>

theorem asert_correct:
  assumes "0 < ref" and "ref < 2 ^ 256" and "0 < maxT" and "maxT < 2 ^ 256"
    and "0 < spacing" and "0 \<le> dh" and "0 < halfLife"
  shows "calculateASERTTarget ref spacing td dh halfLife maxT = asert_spec ref spacing td dh halfLife maxT"
  using assms by (rule calculateASERTTarget_spec)

theorem asert_correct_witness:
  "calculateASERTTarget 1000000 600 (600 * 11 + 7200) 10 7200 (2 ^ 240) = asert_spec 1000000 600 (600 * 11 + 7200) 10 7200 (2 ^ 240)"
  by (rule asert_correct) simp_all

text \<open>The ASERT target never decreases when more time has passed: later blocks only make mining
  easier.\<close>

theorem asert_monotone:
  assumes "0 < ref" and "ref < 2 ^ 256" and "0 < maxT" and "maxT < 2 ^ 256"
    and "0 < spacing" and "0 \<le> dh" and "0 < halfLife" and "t1 \<le> t2"
  shows "calculateASERTTarget ref spacing t1 dh halfLife maxT \<le> calculateASERTTarget ref spacing t2 dh halfLife maxT"
  using asert_spec_mono [OF assms(1,7,8), of spacing dh maxT] assms by (simp add: calculateASERTTarget_spec)

theorem asert_monotone_witness:
  "calculateASERTTarget 1000000 600 0 10 7200 (2 ^ 240) \<le> calculateASERTTarget 1000000 600 9000 10 7200 (2 ^ 240)"
  by (rule asert_monotone) simp_all

text \<open>From the ASERT activation height on, the difficulty rule of the main network always yields
  bits whose target is positive and within the network's maximum, whatever the timestamps.\<close>

theorem mainnet_asert_bits_valid:
  assumes "ASERTActivationHeight canonicalMainNetParams \<le> height"
    and "bitsAt (ASERTActivationHeight canonicalMainNetParams - 1) = Inr b"
    and "timeAt (height - 1) = Inr t1" and "timeAt (ASERTActivationHeight canonicalMainNetParams - 2) = Inr t0"
  shows "\<exists>bits. NextBits canonicalMainNetParams height bitsAt timeAt = Inr bits \<and>
    0 < CompactToTarget bits \<and> CompactToTarget bits \<le> MaxTarget canonicalMainNetParams"
proof -
  have act: "asertActive canonicalMainNetParams height" "height \<noteq> 0"
    using assms(1) by (simp_all add: asertActive_def canonicalMainNetParams_def)
  define t where "t = calculateASERTTarget (CompactToTarget b) (TargetBlockTime canonicalMainNetParams)
      (wrap64 (t1 - t0)) (height - ASERTActivationHeight canonicalMainNetParams)
      (ASERTHalfLife canonicalMainNetParams) (MaxTarget canonicalMainNetParams)"
  have "1 \<le> t" "t \<le> MaxTarget canonicalMainNetParams"
    unfolding t_def by (rule calculateASERTTarget_range; simp add: MaxTarget_mainnet)+
  moreover have "MaxTarget canonicalMainNetParams < 2 ^ 256" by (simp add: MaxTarget_mainnet)
  ultimately have "0 < CompactToTarget (TargetToCompact t)" "CompactToTarget (TargetToCompact t) \<le> MaxTarget canonicalMainNetParams"
    using Compact_of_Target_bounds [of t] by linarith+
  then show ?thesis
    using NextBits_asert [OF act, where bitsAt = bitsAt and timeAt = timeAt, OF assms(2-4)]
    unfolding t_def [symmetric] by blast
qed

theorem mainnet_asert_bits_valid_witness:
  "\<exists>bits. NextBits canonicalMainNetParams 20000 (\<lambda>_. Inr 0x1f00ffff) (\<lambda>h. Inr (1783274400 + 600 * h)) = Inr bits \<and>
    0 < CompactToTarget bits \<and> CompactToTarget bits \<le> MaxTarget canonicalMainNetParams"
  by (rule mainnet_asert_bits_valid) (simp_all add: canonicalMainNetParams_def)

text \<open>Below the activation height a retarget of the main network multiplies the previous target by a
  time ratio clamped to the range from one quarter to four, capped at the maximum target: manipulated
  timestamps cannot move the difficulty further in one interval.\<close>

theorem mainnet_retarget_clamped:
  assumes "0 < height" and "height < ASERTActivationHeight canonicalMainNetParams" and "height smod 2016 = 0"
    and "bitsAt (height - 1) = Inr b" and "timeAt (height - 1) = Inr t1" and "timeAt (height - 2016) = Inr t0"
  shows "\<exists>a. 1209000 div 4 \<le> a \<and> a \<le> 1209000 * 4 \<and>
    NextBits canonicalMainNetParams height bitsAt timeAt =
      Inr (TargetToCompact (min (MaxTarget canonicalMainNetParams) (CompactToTarget b * a div 1209000)))"
proof -
  have legacy: "\<not> asertActive canonicalMainNetParams height" using assms(2) by (simp add: asertActive_def)
  have r: "RetargetInterval canonicalMainNetParams = 2016" by (simp add: canonicalMainNetParams_def)
  show ?thesis
    by (rule NextBits_retarget [OF legacy, where bitsAt = bitsAt and timeAt = timeAt and b = b
          and ?t1.0 = t1 and ?t0.0 = t0 and expected = 1209000])
      (use assms mainnet_expected in \<open>auto simp: r\<close>)
qed

theorem mainnet_retarget_clamped_witness:
  "\<exists>a. 1209000 div 4 \<le> a \<and> a \<le> 1209000 * 4 \<and>
    NextBits canonicalMainNetParams 4032 (\<lambda>_. Inr 0x1f00ffff) (\<lambda>h. Inr (9 * h)) =
      Inr (TargetToCompact (min (MaxTarget canonicalMainNetParams) (CompactToTarget 0x1f00ffff * a div 1209000)))"
  by (rule mainnet_retarget_clamped) (simp_all add: canonicalMainNetParams_def signed_modulo_int_def)

end
