(* ===== verification/Keys.thy ===== *)
theory Keys
  imports Difficulty
begin

text \<open>
  \<^verbatim>\<open>core/keys.go\<close>: base58 and the checksummed address format. A string is the list of its
  code points, as \<^verbatim>\<open>range\<close> yields them; the decoder looks up the low byte of each. Decoding
  inverts encoding, and on strings of single-byte code points encoding inverts decoding.
\<close>

section \<open>Operations\<close>

definition addrVersion :: byte where
  "addrVersion = 0x09"

definition b58alphabet :: "rune list" where
  "b58alphabet = map of_char ''123456789ABCDEFGHJKLMNPQRSTUVWXYZabcdefghijkmnopqrstuvwxyz''"

text \<open>\<open>for x.Sign() > 0 { x.DivMod(x, radix, mod); ... }\<close>: digits, least significant first.\<close>

fun b58_digits :: "nat \<Rightarrow> nat list" where
  "b58_digits x = (if x = 0 then [] else x mod 58 # b58_digits (x div 58))"

declare b58_digits.simps [simp del]

definition base58Encode :: "byte list \<Rightarrow> rune list" where
  "base58Encode b =
     rev (map (\<lambda>d. b58alphabet ! d) (b58_digits (be_nat b)) @
          map (\<lambda>_. 49) (takeWhile (\<lambda>c. c = 0) b))"

text \<open>\<^verbatim>\<open>bytes.IndexByte\<close>\<close>

fun index_of :: "'a \<Rightarrow> 'a list \<Rightarrow> nat option" where
  "index_of x [] = None"
| "index_of x (y # ys) = (if x = y then Some 0 else map_option Suc (index_of x ys))"

definition b58_step :: "nat \<Rightarrow> rune \<Rightarrow> nat res" where
  "b58_step x c =
     (case index_of (c mod 256) b58alphabet of
        None \<Rightarrow> Inl (Err ''invalid base58 character'')
      | Some i \<Rightarrow> Inr (x * 58 + i))"

definition base58Decode :: "rune list \<Rightarrow> byte list res" where
  "base58Decode s =
     bindE (foldE b58_step 0 s) (\<lambda>x.
       Inr (map (\<lambda>_. 0) (takeWhile (\<lambda>c. c = 49) s) @ be_bytes (byte_len x) x))"

definition EncodeAddress :: "crypto \<Rightarrow> PKH \<Rightarrow> rune list" where
  "EncodeAddress K pkh =
     (let payload = addrVersion # pkh_bytes pkh; chk = SHA256d K payload in
      base58Encode (payload @ take 4 (hash_bytes chk)))"

definition DecodeAddress :: "crypto \<Rightarrow> rune list \<Rightarrow> PKH res" where
  "DecodeAddress K s =
     bindE (base58Decode s) (\<lambda>raw.
       failIf (length raw \<noteq> 25 \<or> raw ! 0 \<noteq> addrVersion) (Err ''bad address length or version'')
       (let payload = take 21 raw; chk = drop 21 raw; want = SHA256d K payload in
        failIf (chk \<noteq> take 4 (hash_bytes want)) (Err ''bad address checksum'')
        (Inr (pkh_of (drop 1 payload)))))"

section \<open>The alphabet\<close>

lemma b58alphabet_eq: "b58alphabet =
  [49, 50, 51, 52, 53, 54, 55, 56, 57, 65, 66, 67, 68, 69, 70, 71, 72, 74, 75, 76, 77, 78, 80, 81, 82,
   83, 84, 85, 86, 87, 88, 89, 90, 97, 98, 99, 100, 101, 102, 103, 104, 105, 106, 107, 109, 110, 111,
   112, 113, 114, 115, 116, 117, 118, 119, 120, 121, 122]"
  by (simp add: b58alphabet_def)

lemma length_b58alphabet [simp]: "length b58alphabet = 58"
  by (simp add: b58alphabet_eq)

lemma distinct_b58alphabet: "distinct b58alphabet"
  by (simp add: b58alphabet_eq)

lemma b58alphabet_small: "d < 58 \<Longrightarrow> b58alphabet ! d < 256"
proof -
  assume "d < 58"
  then have "b58alphabet ! d \<in> set b58alphabet" by simp
  then show ?thesis by (auto simp: b58alphabet_eq)
qed

lemma b58alphabet_one: "d < 58 \<Longrightarrow> b58alphabet ! d = 49 \<longleftrightarrow> d = 0"
  using nth_eq_iff_index_eq [OF distinct_b58alphabet, of d 0] by (simp add: b58alphabet_eq)

lemma index_of_nth: "distinct xs \<Longrightarrow> i < length xs \<Longrightarrow> index_of (xs ! i) xs = Some i"
proof (induction xs arbitrary: i)
  case (Cons x xs)
  then show ?case by (cases i) auto
qed simp

lemma index_of_Some: "index_of x xs = Some i \<Longrightarrow> i < length xs \<and> xs ! i = x"
  by (induction xs arbitrary: i) (auto split: if_splits)

lemma b58_step_alphabet: "d < 58 \<Longrightarrow> b58_step x (b58alphabet ! d) = Inr (x * 58 + d)"
  by (simp add: b58_step_def b58alphabet_small index_of_nth distinct_b58alphabet)

section \<open>Digits\<close>

fun b58_value :: "nat \<Rightarrow> nat list \<Rightarrow> nat" where
  "b58_value x [] = x"
| "b58_value x (d # ds) = b58_value (x * 58 + d) ds"

lemma b58_value_append: "b58_value x (ds @ es) = b58_value (b58_value x ds) es"
  by (induction ds arbitrary: x) simp_all

lemma b58_digits_0 [simp]: "b58_digits 0 = []"
  by (simp add: b58_digits.simps)

lemma b58_digits_bound: "d \<in> set (b58_digits x) \<Longrightarrow> d < 58"
proof (induction x rule: b58_digits.induct)
  case (1 x)
  then show ?case by (subst (asm) (2) b58_digits.simps) (auto split: if_splits)
qed

lemma b58_value_digits: "b58_value 0 (rev (b58_digits x)) = x"
proof (induction x rule: b58_digits.induct)
  case (1 x)
  then show ?case
    by (cases "x = 0") (simp_all add: b58_digits.simps [of x] b58_value_append)
qed

lemma b58_digits_last: "x \<noteq> 0 \<Longrightarrow> b58_digits x \<noteq> [] \<and> last (b58_digits x) \<noteq> 0"
proof (induction x rule: b58_digits.induct)
  case (1 x)
  show ?case
  proof (cases "x div 58 = 0")
    case True
    then show ?thesis using 1 by (simp add: b58_digits.simps [of x])
  next
    case False
    then show ?thesis using 1 by (simp add: b58_digits.simps [of x])
  qed
qed

lemma b58_decode_fold:
  "\<forall>d \<in> set ds. d < 58 \<Longrightarrow> foldE b58_step x (map (\<lambda>d. b58alphabet ! d) ds) = Inr (b58_value x ds)"
  by (induction ds arbitrary: x) (simp_all add: b58_step_alphabet)

text \<open>Digits are unique: a digit list without a leading zero is the digits of its value.\<close>

lemma b58_digits_snoc: "0 < x \<Longrightarrow> d < 58 \<Longrightarrow> b58_digits (x * 58 + d) = d # b58_digits x"
  by (subst b58_digits.simps) simp

lemma b58_value_pos: "ds \<noteq> [] \<Longrightarrow> hd ds \<noteq> 0 \<Longrightarrow> 0 < b58_value 0 ds"
proof -
  have "0 < x \<Longrightarrow> 0 < b58_value x ds" for x ds
    by (induction ds arbitrary: x) simp_all
  then show "ds \<noteq> [] \<Longrightarrow> hd ds \<noteq> 0 \<Longrightarrow> 0 < b58_value 0 ds" by (cases ds) simp_all
qed

lemma b58_digits_value:
  "\<forall>d \<in> set ds. d < 58 \<Longrightarrow> ds \<noteq> [] \<longrightarrow> hd ds \<noteq> 0 \<Longrightarrow> b58_digits (b58_value 0 ds) = rev ds"
proof (induction ds rule: rev_induct)
  case Nil
  show ?case by (simp add: b58_digits.simps)
next
  case (snoc d ds)
  show ?case
  proof (cases "ds = []")
    case True
    then show ?thesis using snoc.prems by (simp add: b58_digits.simps)
  next
    case False
    then have "0 < b58_value 0 ds" using snoc.prems by (intro b58_value_pos) simp_all
    moreover have "b58_digits (b58_value 0 ds) = rev ds" using snoc False by simp
    ultimately show ?thesis using snoc.prems by (simp add: b58_value_append b58_digits_snoc)
  qed
qed

section \<open>Bytes of a number\<close>

lemma be_nat_leading_zeros: "be_nat (replicate n 0 @ b) = be_nat b"
  by (simp add: be_nat_def le_nat_append) (induction n, simp_all)

lemma be_nat_Cons: "be_nat (c # b) = unat c * 256 ^ length b + be_nat b"
  by (simp add: be_nat_def le_nat_append)

lemma byte_len_be_nat: "b = [] \<or> hd b \<noteq> 0 \<Longrightarrow> byte_len (be_nat b) = length b"
proof (cases b)
  case Nil
  then show ?thesis by (simp add: be_nat_def)
next
  case (Cons c r)
  assume "b = [] \<or> hd b \<noteq> 0"
  then have "0 < unat c" using Cons by (simp add: unat_gt_0)
  then have "256 ^ length r \<le> be_nat b" using Cons by (simp add: be_nat_Cons trans_le_add1)
  then show ?thesis using be_nat_bound [of b] Cons byte_len_eqI [of "length r" "be_nat b"] by simp
qed

lemma be_bytes_minimal: "b = [] \<or> hd b \<noteq> 0 \<Longrightarrow> be_bytes (byte_len (be_nat b)) (be_nat b) = b"
  by (simp add: byte_len_be_nat be_bytes_be_nat)

lemma takeWhile_const: "map (\<lambda>_. c) (takeWhile (\<lambda>x. x = a) xs) = replicate (length (takeWhile (\<lambda>x. x = a) xs)) c"
  by (simp add: map_replicate_const)

lemma split_leading: "xs = replicate (length (takeWhile (\<lambda>x. x = a) xs)) a @ dropWhile (\<lambda>x. x = a) xs"
proof -
  have "takeWhile (\<lambda>x. x = a) xs = replicate (length (takeWhile (\<lambda>x. x = a) xs)) a"
    by (rule replicate_eqI) (auto dest: set_takeWhileD)
  then show ?thesis by (metis takeWhile_dropWhile_id)
qed

lemma hd_dropWhile_neq: "dropWhile (\<lambda>x. x = a) xs = [] \<or> hd (dropWhile (\<lambda>x. x = a) xs) \<noteq> a"
  using hd_dropWhile [of "\<lambda>x. x = a" xs] by blast

lemma takeWhile_replicate_append:
  "ys = [] \<or> hd ys \<noteq> a \<Longrightarrow> takeWhile (\<lambda>x. x = a) (replicate n a @ ys) = replicate n a"
  by (induction n) (cases ys, auto)+

section \<open>Round trips\<close>

lemma base58Decode_base58Encode: "base58Decode (base58Encode b) = Inr b"
proof -
  define z where "z = length (takeWhile (\<lambda>c. c = 0) b)"
  define r where "r = dropWhile (\<lambda>c. c = 0) b"
  define ds where "ds = rev (b58_digits (be_nat r))"
  have b: "b = replicate z 0 @ r" unfolding z_def r_def by (rule split_leading)
  have r: "r = [] \<or> hd r \<noteq> 0" unfolding r_def by (rule hd_dropWhile_neq)
  have ds: "\<forall>d \<in> set ds. d < 58" by (simp add: ds_def b58_digits_bound)
  have v: "be_nat b = be_nat r" by (simp add: b be_nat_leading_zeros)
  have "takeWhile (\<lambda>c. c = 0) b = replicate z 0" unfolding b by (rule takeWhile_replicate_append [OF r])
  then have enc: "base58Encode b = replicate z 49 @ map (\<lambda>d. b58alphabet ! d) ds"
    by (simp add: base58Encode_def v ds_def rev_map map_replicate_const)
  have lead: "map (\<lambda>d. b58alphabet ! d) ds = [] \<or> hd (map (\<lambda>d. b58alphabet ! d) ds) \<noteq> 49"
  proof (cases "be_nat r = 0")
    case False
    from b58_digits_last [OF False] have "ds \<noteq> []" "hd ds \<noteq> 0" by (simp_all add: ds_def hd_rev)
    then show ?thesis using ds by (auto simp: hd_map b58alphabet_one)
  qed (simp add: ds_def)
  have one: "b58_step 0 49 = Inr 0" using b58_step_alphabet [of 0 0] by (simp add: b58alphabet_eq)
  have "foldE b58_step 0 (replicate z 49) = Inr 0" by (induction z) (simp_all add: one)
  then have "foldE b58_step 0 (base58Encode b) = Inr (be_nat r)"
    by (simp add: enc foldE_append b58_decode_fold [OF ds]) (simp add: ds_def b58_value_digits)
  moreover have "takeWhile (\<lambda>c. c = 49) (base58Encode b) = replicate z 49"
    unfolding enc by (rule takeWhile_replicate_append [OF lead])
  ultimately have "base58Decode (base58Encode b) = Inr (replicate z 0 @ r)"
    unfolding base58Decode_def by (simp add: map_replicate_const be_bytes_minimal [OF r])
  then show ?thesis by (simp add: b)
qed

lemma DecodeAddress_EncodeAddress: "DecodeAddress K (EncodeAddress K pkh) = Inr pkh"
  by (simp add: DecodeAddress_def EncodeAddress_def Let_def base58Decode_base58Encode)

text \<open>Single-byte strings have one spelling only.\<close>

lemma b58_fold_digits:
  "foldE b58_step x s = Inr y \<Longrightarrow> \<forall>c \<in> set s. c < 256 \<Longrightarrow>
   \<exists>ds. s = map (\<lambda>d. b58alphabet ! d) ds \<and> (\<forall>d \<in> set ds. d < 58) \<and> y = b58_value x ds"
proof (induction s arbitrary: x)
  case Nil
  then show ?case by simp
next
  case (Cons c s)
  from Cons.prems obtain x' where x': "b58_step x c = Inr x'" and rest: "foldE b58_step x' s = Inr y"
    by (auto simp: steps)
  from x' Cons.prems(2) obtain i where i: "index_of c b58alphabet = Some i" and "x' = x * 58 + i"
    by (auto simp: b58_step_def split: option.splits)
  moreover from Cons.IH [OF rest] Cons.prems(2) obtain ds
    where "s = map (\<lambda>d. b58alphabet ! d) ds" "\<forall>d \<in> set ds. d < 58" "y = b58_value x' ds" by auto
  ultimately show ?case using index_of_Some [OF i] by (intro exI [of _ "i # ds"]) auto
qed

lemma b58_value_zeros: "b58_value 0 (replicate z 0 @ ds) = b58_value 0 ds"
  by (induction z) simp_all

lemma base58Encode_base58Decode:
  assumes "base58Decode s = Inr b" and "\<forall>c \<in> set s. c < 256"
  shows "base58Encode b = s"
proof -
  from assms(1) obtain x where x: "foldE b58_step 0 s = Inr x"
    and b: "b = map (\<lambda>_. 0) (takeWhile (\<lambda>c. c = 49) s) @ be_bytes (byte_len x) x"
    by (auto simp: base58Decode_def steps)
  from b58_fold_digits [OF x assms(2)] obtain ds where s: "s = map (\<lambda>d. b58alphabet ! d) ds"
    and ds: "\<forall>d \<in> set ds. d < 58" and v: "x = b58_value 0 ds" by blast
  define z where "z = length (takeWhile (\<lambda>d. d = 0) ds)"
  define es where "es = dropWhile (\<lambda>d. d = 0) ds"
  have dz: "ds = replicate z 0 @ es" unfolding z_def es_def by (rule split_leading)
  have es: "es = [] \<or> hd es \<noteq> 0" unfolding es_def by (rule hd_dropWhile_neq)
  have es58: "\<forall>d \<in> set es. d < 58" using ds dz by auto
  have s': "s = replicate z 49 @ map (\<lambda>d. b58alphabet ! d) es"
    by (simp add: s dz map_replicate_const b58alphabet_eq)
  have "map (\<lambda>d. b58alphabet ! d) es = [] \<or> hd (map (\<lambda>d. b58alphabet ! d) es) \<noteq> 49"
    using es es58 by (cases es) (auto simp: b58alphabet_one)
  then have lead: "takeWhile (\<lambda>c. c = 49) s = replicate z 49"
    unfolding s' by (rule takeWhile_replicate_append)
  have xs: "x = b58_value 0 es" by (simp add: v dz b58_value_zeros)
  have digits: "b58_digits x = rev es" unfolding xs by (rule b58_digits_value [OF es58]) (use es in auto)
  have bz: "b = replicate z 0 @ be_bytes (byte_len x) x" by (simp add: b lead map_replicate_const)
  have val: "be_nat b = x"
    by (simp add: bz be_nat_leading_zeros be_nat_be_bytes byte_len_upper)
  have "be_bytes (byte_len x) x = [] \<or> hd (be_bytes (byte_len x) x) \<noteq> 0"
  proof (cases "be_bytes (byte_len x) x")
    case (Cons c r)
    have "x = be_nat (c # r)" using Cons by (metis be_nat_be_bytes byte_len_upper mod_less)
    moreover have "length (c # r) = byte_len x" using Cons by (metis length_be_bytes)
    moreover from this have "0 < x" by (cases "x = 0") simp_all
    ultimately have "256 ^ length r \<le> unat c * 256 ^ length r + be_nat r"
      using byte_len_lower [of x] by (metis be_nat_Cons diff_Suc_1 length_Cons)
    then show ?thesis using Cons be_nat_bound [of r] by auto
  qed simp
  then have "takeWhile (\<lambda>c. c = 0) b = replicate z 0"
    unfolding bz by (rule takeWhile_replicate_append)
  then show ?thesis
    by (simp add: base58Encode_def val digits s' rev_map map_replicate_const)
qed

lemma EncodeAddress_DecodeAddress:
  assumes "DecodeAddress K s = Inr pkh" and "\<forall>c \<in> set s. c < 256"
  shows "EncodeAddress K pkh = s"
proof -
  from assms(1) obtain raw where raw: "base58Decode s = Inr raw" and len: "length raw = 25"
    and v: "raw ! 0 = addrVersion" and chk: "drop 21 raw = take 4 (hash_bytes (SHA256d K (take 21 raw)))"
    and pkh: "pkh = pkh_of (drop 1 (take 21 raw))"
    by (auto simp: DecodeAddress_def Let_def steps)
  have "length (drop 1 (take 21 raw)) = 20" using len by simp
  then have "pkh_bytes pkh = drop 1 (take 21 raw)"
    using be_nat_bound [of "drop 1 (take 21 raw)"]
    by (simp add: pkh pkh_bytes_def pkh_of_def unat_of_nat be_bytes_be_nat)
  then have "addrVersion # pkh_bytes pkh = take 21 raw"
    using v len by (cases raw) auto
  then have "EncodeAddress K pkh = base58Encode (take 21 raw @ drop 21 raw)"
    using chk by (simp only: EncodeAddress_def Let_def)
  then show ?thesis using base58Encode_base58Decode [OF raw assms(2)] by simp
qed

section \<open>Spellings outside ASCII\<close>

text \<open>The decoder reads the low byte of a code point, so shifting every character of an address by
  256 gives another string it accepts.\<close>

lemma b58_fold_shift: "foldE b58_step x (map (\<lambda>c. c + 256) s) = foldE b58_step x s"
  by (induction s arbitrary: x) (simp_all add: b58_step_def bindE_def split: option.splits sum.splits)

lemma base58Decode_shift:
  assumes "base58Decode s = Inr (b # bs)" and "b \<noteq> 0" and "\<forall>c\<in>set s. c < 256"
  shows "base58Decode (map (\<lambda>c. c + 256) s) = Inr (b # bs)"
proof -
  obtain x where x: "foldE b58_step 0 s = Inr x"
    and raw: "b # bs = map (\<lambda>_. 0) (takeWhile (\<lambda>c. c = 49) s) @ be_bytes (byte_len x) x"
    using assms(1) by (auto simp: base58Decode_def steps)
  have "takeWhile (\<lambda>c. c = 49) s = []"
    using raw assms(2) by (cases "takeWhile (\<lambda>c. c = 49) s") auto
  moreover have "takeWhile (\<lambda>c. c = 49) (map (\<lambda>c. c + 256) s) = []"
    by (cases s) auto
  ultimately show ?thesis using x raw by (simp add: base58Decode_def b58_fold_shift)
qed

lemma b58_digits_less: "d \<in> set (b58_digits x) \<Longrightarrow> d < 58"
proof (induction x rule: b58_digits.induct)
  case (1 x)
  then show ?case by (cases "x = 0") (auto simp: b58_digits.simps [of x])
qed

lemma base58Encode_small: "\<forall>c\<in>set (base58Encode b). c < 256"
  by (auto simp: base58Encode_def b58alphabet_small dest: b58_digits_less)

lemma DecodeAddress_alias: "DecodeAddress K (map (\<lambda>c. c + 256) (EncodeAddress K pkh)) = Inr pkh"
proof -
  let ?raw = "(addrVersion # pkh_bytes pkh) @ take 4 (hash_bytes (SHA256d K (addrVersion # pkh_bytes pkh)))"
  have enc: "EncodeAddress K pkh = base58Encode ?raw" by (simp only: EncodeAddress_def Let_def)
  have "base58Decode (base58Encode ?raw) = Inr ?raw" by (rule base58Decode_base58Encode)
  then have "base58Decode (map (\<lambda>c. c + 256) (base58Encode ?raw)) = base58Decode (base58Encode ?raw)"
    using base58Decode_shift [of "base58Encode ?raw" addrVersion "tl ?raw"] base58Encode_small
    by (simp add: addrVersion_def)
  then show ?thesis
    using DecodeAddress_EncodeAddress [of K pkh] unfolding enc by (simp add: DecodeAddress_def)
qed

section \<open>Properties\<close>

text \<open>Decoding the address of a public key hash returns the hash.\<close>

theorem address_roundtrip: "DecodeAddress K (EncodeAddress K pkh) = Inr pkh"
  by (rule DecodeAddress_EncodeAddress)

text \<open>Among strings of single-byte characters an accepted address is the canonical spelling of
  the hash it decodes to: no two of them decode to the same hash.\<close>

theorem address_canonical:
  assumes "DecodeAddress K s = Inr pkh" and "\<forall>c \<in> set s. c < 256"
  shows "EncodeAddress K pkh = s"
  using assms by (rule EncodeAddress_DecodeAddress)


theorem address_canonical_witness:
  "\<exists>s. DecodeAddress sample_crypto s = Inr 77 \<and> (\<forall>c\<in>set s. c < 256) \<and> EncodeAddress sample_crypto 77 = s"
proof -
  let ?s = "EncodeAddress sample_crypto 77"
  have "DecodeAddress sample_crypto ?s = Inr 77" by (rule DecodeAddress_EncodeAddress)
  moreover have "\<forall>c\<in>set ?s. c < 256" unfolding EncodeAddress_def Let_def by (rule base58Encode_small)
  ultimately show ?thesis using address_canonical by blast
qed

text \<open>C40: Strings with characters beyond one byte can spell an address too: the low byte of every code
  point is what counts, so every hash has a second accepted string.\<close>

theorem address_alias:
  "DecodeAddress K (map (\<lambda>c. c + 256) (EncodeAddress K pkh)) = Inr pkh \<and>
     map (\<lambda>c. c + 256) (EncodeAddress K pkh) \<noteq> EncodeAddress K pkh"
proof
  show "DecodeAddress K (map (\<lambda>c. c + 256) (EncodeAddress K pkh)) = Inr pkh" by (rule DecodeAddress_alias)
  have "EncodeAddress K pkh \<noteq> []"
    using DecodeAddress_EncodeAddress [of K pkh] by (auto simp: DecodeAddress_def base58Decode_def be_bytes_def steps)
  then show "map (\<lambda>c. c + 256) (EncodeAddress K pkh) \<noteq> EncodeAddress K pkh"
    by (cases "EncodeAddress K pkh") auto
qed

end
