(* ===== verification/Merkle.thy ===== *)
theory Merkle
  imports Prelude
begin

text \<open>
  The tree computations of \<^verbatim>\<open>core/block.go\<close>, over any function \<open>pair\<close> that combines two
  nodes: the root loop of \<^verbatim>\<open>MerkleRoot\<close>, the sibling loop of \<^verbatim>\<open>MerkleBranch\<close> and the path loop
  of \<^verbatim>\<open>MerkleRootFromBranch\<close>. The lemmas show that a branch reconstructs the root, and that two
  different leaves with the same root, index and branch length exhibit two different nodes
  that \<open>pair\<close> maps to the same value.
\<close>

section \<open>Operations\<close>

text \<open>\<open>if len(layer)%2 == 1 { layer = append(layer, layer[len(layer)-1]) }\<close>\<close>

definition pad_layer :: "'h list \<Rightarrow> 'h list" where
  "pad_layer layer = (if length layer mod 2 = 1 then layer @ [layer ! (length layer - 1)] else layer)"

fun pair_layer :: "('h \<Rightarrow> 'h \<Rightarrow> 'h) \<Rightarrow> 'h list \<Rightarrow> 'h list" where
  "pair_layer pair (a # b # rest) = pair a b # pair_layer pair rest"
| "pair_layer pair rest = []"

lemma length_pair_layer: "length (pair_layer pair l) = length l div 2"
  by (induction pair l rule: pair_layer.induct) auto

lemma length_pad_layer: "length (pad_layer l) = 2 * ((length l + 1) div 2)"
  unfolding pad_layer_def by (cases "length l mod 2 = 1") (simp, presburger)+

lemma length_next_layer: "length (pair_layer pair (pad_layer l)) = (length l + 1) div 2"
  by (simp add: length_pair_layer length_pad_layer)

text \<open>\<open>for len(layer) > 1\<close> of \<^verbatim>\<open>MerkleRoot\<close>; it is entered with a non-empty layer only.\<close>

function merkle_loop :: "('h \<Rightarrow> 'h \<Rightarrow> 'h) \<Rightarrow> 'h list \<Rightarrow> 'h" where
  "merkle_loop pair layer =
     (if length layer > 1 then merkle_loop pair (pair_layer pair (pad_layer layer)) else layer ! 0)"
  by pat_completeness auto
termination
  by (relation "measure (\<lambda>(_, l). length l)") (auto simp: length_next_layer)

function branch_loop :: "('h \<Rightarrow> 'h \<Rightarrow> 'h) \<Rightarrow> 'h list \<Rightarrow> nat \<Rightarrow> 'h list" where
  "branch_loop pair layer position =
     (if length layer > 1 then
        let padded = pad_layer layer in
        padded ! (if even position then position + 1 else position - 1) #
        branch_loop pair (pair_layer pair padded) (position div 2)
      else [])"
  by pat_completeness auto
termination
  by (relation "measure (\<lambda>(_, l, _). length l)") (auto simp: length_next_layer)

declare merkle_loop.simps [simp del] branch_loop.simps [simp del]

text \<open>The loop of \<^verbatim>\<open>MerkleRootFromBranch\<close>: the running root and position.\<close>

fun path_loop :: "('h \<Rightarrow> 'h \<Rightarrow> 'h) \<Rightarrow> 'h \<Rightarrow> nat \<Rightarrow> 'h list \<Rightarrow> 'h \<times> nat" where
  "path_loop pair root position [] = (root, position)"
| "path_loop pair root position (sibling # rest) =
     path_loop pair (if even position then pair root sibling else pair sibling root) (position div 2) rest"

section \<open>A branch reconstructs the root\<close>

lemma pair_layer_nth:
  "2 * i + 1 < length l \<Longrightarrow> pair_layer pair l ! i = pair (l ! (2 * i)) (l ! (2 * i + 1))"
proof (induction pair l arbitrary: i rule: pair_layer.induct)
  case (1 pair a b rest)
  then show ?case by (cases i) auto
qed auto

lemma pad_layer_nth: "p < length l \<Longrightarrow> pad_layer l ! p = l ! p"
  by (simp add: pad_layer_def nth_append)

lemma next_layer_nth:
  assumes "p < length l"
  shows "pair_layer pair (pad_layer l) ! (p div 2) =
    (if even p then pair (l ! p) (pad_layer l ! (p + 1)) else pair (pad_layer l ! (p - 1)) (l ! p))"
proof -
  have lt: "2 * (p div 2) + 1 < length (pad_layer l)"
    using assms unfolding length_pad_layer by presburger
  show ?thesis
  proof (cases "even p")
    case True
    then have "2 * (p div 2) = p" by simp
    then show ?thesis using pair_layer_nth [OF lt, of pair] True assms by (simp add: pad_layer_nth)
  next
    case False
    then have "2 * (p div 2) + 1 = p" "2 * (p div 2) = p - 1" by presburger+
    then show ?thesis using pair_layer_nth [OF lt, of pair] False assms by (simp add: pad_layer_nth)
  qed
qed

lemma path_loop_branch_loop:
  "p < length l \<Longrightarrow> path_loop pair (l ! p) p (branch_loop pair l p) = (merkle_loop pair l, 0)"
proof (induction pair l p rule: branch_loop.induct)
  case (1 pair l p)
  show ?case
  proof (cases "length l > 1")
    case True
    let ?n = "pair_layer pair (pad_layer l)"
    have "p div 2 < length ?n" using "1.prems" unfolding length_next_layer by presburger
    then have "path_loop pair (?n ! (p div 2)) (p div 2) (branch_loop pair ?n (p div 2)) = (merkle_loop pair ?n, 0)"
      using "1.IH" [OF True refl] by simp
    then show ?thesis
      using True next_layer_nth [OF "1.prems", of pair]
      by (cases "even p") (simp_all add: branch_loop.simps [of pair l p] merkle_loop.simps [of pair l] Let_def)
  next
    case False
    then have "p = 0" using "1.prems" by simp
    then show ?thesis using False by (simp add: branch_loop.simps [of pair l] merkle_loop.simps [of pair l])
  qed
qed

section \<open>A branch binds its leaf\<close>

text \<open>The pairs of nodes the path loop combines.\<close>

fun path_nodes :: "('h \<Rightarrow> 'h \<Rightarrow> 'h) \<Rightarrow> 'h \<Rightarrow> nat \<Rightarrow> 'h list \<Rightarrow> ('h \<times> 'h) list" where
  "path_nodes pair root position [] = []"
| "path_nodes pair root position (s # rest) =
     (let n = (if even position then (root, s) else (s, root)) in
      n # path_nodes pair (pair (fst n) (snd n)) (position div 2) rest)"

lemma path_loop_position: "snd (path_loop pair r p b) = p div 2 ^ length b"
  by (induction pair r p b rule: path_loop.induct) (simp_all add: div_mult2_eq)

lemma path_collision:
  assumes "fst (path_loop pair a p bs) = fst (path_loop pair b p cs)"
    and "length bs = length cs" and "a \<noteq> b"
  shows "\<exists>i < length bs. path_nodes pair a p bs ! i \<noteq> path_nodes pair b p cs ! i \<and>
    (\<lambda>(x, y). pair x y) (path_nodes pair a p bs ! i) = (\<lambda>(x, y). pair x y) (path_nodes pair b p cs ! i)"
  using assms
proof (induction bs arbitrary: a b p cs)
  case Nil
  then show ?case by simp
next
  case (Cons s ss)
  then obtain c cs' where cs: "cs = c # cs'" and len: "length ss = length cs'" by (cases cs) auto
  let ?a = "if even p then pair a s else pair s a"
  let ?b = "if even p then pair b c else pair c b"
  show ?case
  proof (cases "?a = ?b")
    case True
    then show ?thesis using Cons.prems(3) cs by (intro exI [of _ 0]) (auto simp: Let_def split: if_splits)
  next
    case False
    have "fst (path_loop pair ?a (p div 2) ss) = fst (path_loop pair ?b (p div 2) cs')"
      using Cons.prems(1) cs by simp
    from Cons.IH [OF this len False] obtain i where "i < length ss"
      and "path_nodes pair ?a (p div 2) ss ! i \<noteq> path_nodes pair ?b (p div 2) cs' ! i"
      and "(\<lambda>(x, y). pair x y) (path_nodes pair ?a (p div 2) ss ! i)
        = (\<lambda>(x, y). pair x y) (path_nodes pair ?b (p div 2) cs' ! i)" by blast
    then show ?thesis using cs by (intro exI [of _ "Suc i"]) (auto simp: Let_def split: if_splits)
  qed
qed

end
