(* ===== verification/Block.thy ===== *)
theory Block
  imports Pow Merkle
begin

text \<open>
  \<^verbatim>\<open>core/block.go\<close> and \<^verbatim>\<open>core/genesis.go\<close>: headers, blocks, their encodings, Merkle roots over
  transactions, and the genesis block. A block's transactions are pointers and may be nil, so
  they are options: code that dereferences one panics, code that tests for nil has its branch.
\<close>

section \<open>Headers and blocks\<close>

record Header =
  hdr_Version :: uint32
  hdr_PrevBlock :: Hash32
  hdr_MerkleRoot :: Hash32
  hdr_Time :: int
  hdr_Bits :: uint32
  hdr_Nonce :: uint64

record Block =
  blk_Header :: Header
  blk_Txs :: "Tx option list"

definition hdr_Bytes :: "Header \<Rightarrow> byte list" where
  "hdr_Bytes h =
     le_bytes 4 (unat (hdr_Version h)) @ hash_bytes (hdr_PrevBlock h) @ hash_bytes (hdr_MerkleRoot h) @
     le_bytes 8 (u64_of (hdr_Time h)) @ le_bytes 4 (unat (hdr_Bits h)) @ le_bytes 8 (unat (hdr_Nonce h))"

definition hdr_ID :: "crypto \<Rightarrow> Header \<Rightarrow> Hash32" where
  "hdr_ID K h = SHA256d K (hdr_Bytes h)"

definition merklePair :: "crypto \<Rightarrow> Hash32 \<Rightarrow> Hash32 \<Rightarrow> Hash32" where
  "merklePair K left right = SHA256d K (hash_bytes left @ hash_bytes right)"

definition MerkleRoot :: "crypto \<Rightarrow> Tx option list \<Rightarrow> Hash32 res" where
  "MerkleRoot K txs =
     (if txs = [] then Inr 0
      else bindE (mapE deref txs) (\<lambda>ts. Inr (merkle_loop (merklePair K) (map (tx_ID K) ts))))"

definition MerkleBranch :: "crypto \<Rightarrow> Tx option list \<Rightarrow> int \<Rightarrow> Hash32 list res" where
  "MerkleBranch K txs index =
     failIf (txs = [] \<or> index < 0 \<or> index \<ge> int (length txs)) (Err ''invalid merkle branch index'')
     (bindE (mapE (\<lambda>p. case p of None \<Rightarrow> Inl (Err ''nil transaction in merkle tree'')
                        | Some t \<Rightarrow> Inr (tx_ID K t)) txs)
       (\<lambda>layer. Inr (branch_loop (merklePair K) layer (nat index))))"

definition MerkleRootFromBranch :: "crypto \<Rightarrow> Hash32 \<Rightarrow> int \<Rightarrow> Hash32 list \<Rightarrow> Hash32 res" where
  "MerkleRootFromBranch K leaf index branch =
     failIf (index < 0) (Err ''invalid merkle branch index'')
     (case path_loop (merklePair K) leaf (nat index) branch of
        (root, position) \<Rightarrow>
          failIf (position \<noteq> 0) (Err ''merkle branch is too short for index'') (Inr root))"

definition blk_Bytes :: "Block \<Rightarrow> byte list res" where
  "blk_Bytes b =
     bindE (mapE deref (blk_Txs b)) (\<lambda>ts.
       Inr (hdr_Bytes (blk_Header b) @ put_uvarint (length (blk_Txs b)) @
            concat (map (\<lambda>t. writeBytes (tx_Bytes t)) ts)))"

section \<open>Decoding\<close>

text \<open>\<open>raw[lo:hi]\<close>\<close>

definition slice :: "nat \<Rightarrow> nat \<Rightarrow> byte list \<Rightarrow> byte list" where
  "slice lo hi b = take (hi - lo) (drop lo b)"

definition header_of_bytes :: "byte list \<Rightarrow> Header" where
  "header_of_bytes raw =
     \<lparr>hdr_Version = of_nat (le_nat (slice 0 4 raw)),
      hdr_PrevBlock = hash_of (slice 4 36 raw),
      hdr_MerkleRoot = hash_of (slice 36 68 raw),
      hdr_Time = sint64 (le_nat (slice 68 76 raw)),
      hdr_Bits = of_nat (le_nat (slice 76 80 raw)),
      hdr_Nonce = of_nat (le_nat (slice 80 88 raw))\<rparr>"

definition read_block_tx :: "Tx option reader" where
  "read_block_tx r =
     bindE (readBytes MaxBlockBytes r) (\<lambda>(txb, r1).
     bindE (DecodeTx txb) (\<lambda>tx. Inr (Some tx, r1)))"

definition DecodeBlock :: "byte list \<Rightarrow> Block res" where
  "DecodeBlock raw =
     failIf (length raw < 88) (Err ''short block'')
     (failIf (length raw > MaxBlockBytes + 16) (Err ''oversize block'')
     (case read_uvarint (drop 88 raw) of
        Inl e \<Rightarrow> Inl (Wrapped ''bad tx count'' e)
      | Inr (n, r) \<Rightarrow>
          failIf (n = 0 \<or> n > 100000) (Err ''bad tx count'')
          (bindE (read_many read_block_tx n r) (\<lambda>(txs, r1).
           failIf (r1 \<noteq> []) (Err ''trailing bytes in block'')
           (Inr \<lparr>blk_Header = header_of_bytes raw, blk_Txs = txs\<rparr>)))))"

section \<open>Proof of work, timestamp, genesis\<close>

definition CheckPow :: "crypto \<Rightarrow> Params \<Rightarrow> Header \<Rightarrow> bool" where
  "CheckPow K p h =
     (let target = CompactToTarget (hdr_Bits h) in
      if target \<le> 0 \<or> target > MaxTarget p then False
      else HashToBig (PowHash K (hdr_Bytes h) p) \<le> target)"

definition CheckTimestamp :: "Params \<Rightarrow> int \<Rightarrow> Header \<Rightarrow> unit res" where
  "CheckTimestamp p now h =
     failIf (hdr_Time h > wrap64 (now + FutureDrift p)) (Err ''block timestamp too far in the future'')
     (Inr ())"

definition GenesisBlock :: "crypto \<Rightarrow> Params \<Rightarrow> Block" where
  "GenesisBlock K p =
     (let cb = NewCoinbase 0 (SubsidyAt 0) 0 (GenesisHeadline p);
          h = \<lparr>hdr_Version = 1, hdr_PrevBlock = 0, hdr_MerkleRoot = 0, hdr_Time = GenesisTime p,
               hdr_Bits = MaxTargetBits p, hdr_Nonce = GenesisNonce p\<rparr>
      in \<lparr>blk_Header = h\<lparr>hdr_MerkleRoot := merkle_loop (merklePair K) [tx_ID K cb]\<rparr>,
          blk_Txs = [Some cb]\<rparr>)"

text \<open>The genesis header's root is the value \<^verbatim>\<open>MerkleRoot\<close> computes on its transactions.\<close>

lemma GenesisBlock_MerkleRoot:
  "MerkleRoot K (blk_Txs (GenesisBlock K p)) = Inr (hdr_MerkleRoot (blk_Header (GenesisBlock K p)))"
  by (simp add: GenesisBlock_def MerkleRoot_def Let_def)

section \<open>Encodings\<close>

definition wf_Block :: "Block \<Rightarrow> bool" where
  "wf_Block b \<longleftrightarrow>
     is_int64 (hdr_Time (blk_Header b)) \<and> 0 < length (blk_Txs b) \<and> length (blk_Txs b) \<le> 100000 \<and>
     list_all (\<lambda>p. case p of None \<Rightarrow> False | Some t \<Rightarrow> wf_Tx t \<and> length (tx_Bytes t) \<le> MaxBlockBytes) (blk_Txs b) \<and>
     (case blk_Bytes b of Inl _ \<Rightarrow> False | Inr raw \<Rightarrow> length raw \<le> MaxBlockBytes + 16)"

lemma length_hdr_Bytes [simp]: "length (hdr_Bytes h) = 88"
  by (simp add: hdr_Bytes_def)

lemmas header_slices = slice_def take_append drop_append

lemma header_of_bytes_hdr_Bytes:
  assumes "is_int64 (hdr_Time h)"
  shows "header_of_bytes (hdr_Bytes h @ rest) = h"
proof -
  have u32: "le_nat (le_bytes 4 (unat (w :: uint32))) = unat w" for w
    using unsigned_less [of w, where ?'a = nat] by (simp add: le_nat_le_bytes)
  have u64: "le_nat (le_bytes 8 (unat (w :: uint64))) = unat w" for w
    using unsigned_less [of w, where ?'a = nat] by (simp add: le_nat_le_bytes)
  have i64: "le_nat (le_bytes 8 (u64_of v)) = u64_of v" for v
    using u64_of_bound [of v] by (simp add: le_nat_le_bytes)
  show ?thesis
    using assms by (simp add: header_of_bytes_def hdr_Bytes_def header_slices u32 u64 i64)
qed

lemma hdr_Bytes_inj: "is_int64 (hdr_Time a) \<Longrightarrow> is_int64 (hdr_Time b) \<Longrightarrow> hdr_Bytes a = hdr_Bytes b \<Longrightarrow> a = b"
  using header_of_bytes_hdr_Bytes [of a "[]"] header_of_bytes_hdr_Bytes [of b "[]"] by simp

definition enc_block_tx :: "Tx option \<Rightarrow> byte list" where
  "enc_block_tx p = (case p of None \<Rightarrow> [] | Some t \<Rightarrow> writeBytes (tx_Bytes t))"

definition ok_block_tx :: "Tx option \<Rightarrow> bool" where
  "ok_block_tx p = (case p of None \<Rightarrow> False | Some t \<Rightarrow> wf_Tx t \<and> length (tx_Bytes t) \<le> MaxBlockBytes)"

interpretation block_tx: byte_codec enc_block_tx read_block_tx ok_block_tx
proof
  fix p rest
  assume "ok_block_tx p"
  then obtain t where "p = Some t" "wf_Tx t" "length (tx_Bytes t) \<le> MaxBlockBytes"
    by (cases p) (auto simp: ok_block_tx_def)
  then show "read_block_tx (enc_block_tx p @ rest) = Inr (p, rest)"
    by (simp add: read_block_tx_def enc_block_tx_def readBytes_writeBytes MaxBlockBytes_def DecodeTx_tx_Bytes)
qed

lemma DecodeBlock_blk_Bytes:
  assumes "wf_Block b" and "blk_Bytes b = Inr raw"
  shows "DecodeBlock raw = Inr b"
proof -
  from assms(2) obtain ts where ts: "blk_Txs b = map Some ts"
    and raw: "raw = hdr_Bytes (blk_Header b) @ put_uvarint (length ts) @ concat (map (\<lambda>t. writeBytes (tx_Bytes t)) ts)"
    by (auto simp: blk_Bytes_def steps)
  have ok: "\<forall>p \<in> set (blk_Txs b). ok_block_tx p"
    using assms(1) by (auto simp: wf_Block_def ok_block_tx_def list_all_iff split: option.splits)
  have enc: "concat (map (\<lambda>t. writeBytes (tx_Bytes t)) ts) = concat (map enc_block_tx (blk_Txs b))"
    by (simp add: ts enc_block_tx_def comp_def)
  have n: "0 < length ts" "length ts \<le> 100000" and len: "length raw \<le> MaxBlockBytes + 16"
    and tm: "is_int64 (hdr_Time (blk_Header b))"
    using assms by (auto simp: wf_Block_def ts)
  have h: "header_of_bytes raw = blk_Header b" unfolding raw by (rule header_of_bytes_hdr_Bytes [OF tm])
  have rest: "drop 88 raw = put_uvarint (length ts) @ concat (map enc_block_tx (blk_Txs b))"
    by (simp add: raw enc)
  have "read_many read_block_tx (length ts) (concat (map enc_block_tx (blk_Txs b)) @ []) = Inr (blk_Txs b, [])"
    using block_tx.read_many_enc [OF ok, of "[]"] by (simp add: ts)
  then show ?thesis
    using n len h unfolding DecodeBlock_def rest by (simp add: read_uvarint_put raw)
qed

lemma read_block_tx_ok: "read_block_tx r = Inr (p, r') \<Longrightarrow> \<exists>t. p = Some t \<and> wf_Tx t"
  by (auto simp: read_block_tx_def steps dest: DecodeTx_wf)

text \<open>Decoding never yields a nil transaction, and always at least one.\<close>

lemma DecodeBlock_txs:
  assumes "DecodeBlock raw = Inr b"
  shows "\<exists>ts. blk_Txs b = map Some ts \<and> ts \<noteq> [] \<and> list_all wf_Tx ts"
proof -
  from assms obtain n r r1 where n: "n \<noteq> 0" and rm: "read_many read_block_tx n r = Inr (blk_Txs b, r1)"
    by (auto simp: DecodeBlock_def steps split: sum.splits)
  have all: "length (blk_Txs b) = n \<and> list_all (\<lambda>p. \<exists>t. p = Some t \<and> wf_Tx t) (blk_Txs b)"
    using rm by (rule read_many_wf [rotated]) (rule read_block_tx_ok)
  let ?ts = "map the (blk_Txs b)"
  have "blk_Txs b = map Some ?ts"
    using all by (auto simp: list_all_iff intro!: nth_equalityI) (metis nth_mem option.sel)
  moreover have "?ts \<noteq> []" using all n by auto
  moreover have "list_all wf_Tx ?ts" using all by (auto simp: list_all_iff)
  ultimately show ?thesis by blast
qed

section \<open>Merkle proofs over transactions\<close>

lemma MerkleRoot_Some:
  "ts \<noteq> [] \<Longrightarrow> MerkleRoot K (map Some ts) = Inr (merkle_loop (merklePair K) (map (tx_ID K) ts))"
  by (simp add: MerkleRoot_def)

lemma MerkleRoot_Inr_iff:
  "txs \<noteq> [] \<Longrightarrow> MerkleRoot K txs = Inr r \<longleftrightarrow>
     (\<exists>ts. txs = map Some ts \<and> r = merkle_loop (merklePair K) (map (tx_ID K) ts))"
  by (auto simp: MerkleRoot_def steps)

lemma branch_ids: "mapE (\<lambda>p. case p of None \<Rightarrow> Inl (Err m) | Some t \<Rightarrow> Inr (tx_ID K t)) (map Some ts)
    = Inr (map (tx_ID K) ts)"
  by (induction ts) simp_all

lemma MerkleBranch_Some:
  "i < length ts \<Longrightarrow> MerkleBranch K (map Some ts) (int i)
     = Inr (branch_loop (merklePair K) (map (tx_ID K) ts) i)"
  by (auto simp: MerkleBranch_def branch_ids failIf_def)

lemma MerkleRootFromBranch_branch:
  "i < length ts \<Longrightarrow>
   MerkleRootFromBranch K (tx_ID K (ts ! i)) (int i) (branch_loop (merklePair K) (map (tx_ID K) ts) i)
     = MerkleRoot K (map Some ts)"
  using path_loop_branch_loop [of i "map (tx_ID K) ts" "merklePair K"]
  by (auto simp: MerkleRootFromBranch_def MerkleRoot_def)

section \<open>Properties\<close>

definition sample_block :: Block where
  "sample_block =
     \<lparr>blk_Header = \<lparr>hdr_Version = 1, hdr_PrevBlock = 5, hdr_MerkleRoot = 6, hdr_Time = 1000,
        hdr_Bits = 0x207fffff, hdr_Nonce = 3\<rparr>, blk_Txs = [Some sample_tx]\<rparr>"

lemma hdr_ID_sample: "hdr_ID sample_crypto h = of_nat (unat (hdr_Nonce h) mod 256)"
proof -
  have "hdr_Bytes h ! 80 = of_nat (unat (hdr_Nonce h) mod 256)"
  proof -
    have "le_bytes 8 v = of_nat (v mod 256) # le_bytes 7 (v div 256)" for v
      using le_bytes.simps(2) [of 7 v] by simp
    then show ?thesis by (simp add: hdr_Bytes_def nth_append)
  qed
  then show ?thesis by (simp add: hdr_ID_def SHA256d_def sample_crypto_def unat_byte_of_nat)
qed

text \<open>A block within the decoder's limits (header times in 64 bits, 1 to 100000 well-formed
  transactions, at most a million bytes) is decoded from its encoding unchanged.\<close>

theorem block_roundtrip:
  assumes "wf_Block b" and "blk_Bytes b = Inr raw"
  shows "DecodeBlock raw = Inr b"
  using assms by (rule DecodeBlock_blk_Bytes)

lemma length_sample_tx: "length (tx_Bytes sample_tx) = 108"
  by (simp add: tx_Bytes_def serialize_def sample_tx_def enc_TxIn_def enc_TxOut_def writeBytes_def put_uvarint_small)

lemma wf_sample_block: "wf_Block sample_block"
proof -
  have "wf_Tx sample_tx" by (simp add: wf_Tx_def sample_tx_def wf_TxIn_def wf_TxOut_def is_int64_def)
  then show ?thesis
    by (simp add: wf_Block_def sample_block_def blk_Bytes_def length_sample_tx MaxBlockBytes_def writeBytes_def
        put_uvarint_small is_int64_def)
qed

theorem block_roundtrip_witness: "\<exists>raw. blk_Bytes sample_block = Inr raw \<and> DecodeBlock raw = Inr sample_block"
proof -
  obtain raw where "blk_Bytes sample_block = Inr raw" by (simp add: blk_Bytes_def sample_block_def)
  then show ?thesis using block_roundtrip [OF wf_sample_block] by blast
qed

text \<open>The Merkle branch computed for any transaction of a list reconstructs the Merkle root of
  the list from that transaction's id and index.\<close>

theorem merkle_branch_proves:
  assumes "i < length ts"
  shows "\<exists>br. MerkleBranch K (map Some ts) (int i) = Inr br \<and>
    MerkleRootFromBranch K (tx_ID K (ts ! i)) (int i) br = MerkleRoot K (map Some ts)"
  using MerkleBranch_Some [OF assms] MerkleRootFromBranch_branch [OF assms] by blast

theorem merkle_branch_proves_witness:
  "\<exists>br. MerkleBranch sample_crypto (map Some [sample_tx, sample_tx\<lparr>tx_Version := 2\<rparr>, sample_tx]) 2 = Inr br \<and>
    MerkleRootFromBranch sample_crypto (tx_ID sample_crypto sample_tx) 2 br =
      MerkleRoot sample_crypto (map Some [sample_tx, sample_tx\<lparr>tx_Version := 2\<rparr>, sample_tx])"
  using merkle_branch_proves [of 2 "[sample_tx, sample_tx\<lparr>tx_Version := 2\<rparr>, sample_tx]" sample_crypto] by simp

text \<open>Two different leaves that branches of equal length lead to the same root at the same index
  exhibit a collision of the pair hash: a Merkle proof binds the leaf.\<close>

theorem merkle_branch_binds:
  assumes "MerkleRootFromBranch K a i bs = Inr r" and "MerkleRootFromBranch K b i cs = Inr r"
    and "length bs = length cs" and "a \<noteq> b"
  shows "\<exists>x y x' y'. (x, y) \<noteq> (x', y') \<and> merklePair K x y = merklePair K x' y'"
proof -
  have "fst (path_loop (merklePair K) a (nat i) bs) = fst (path_loop (merklePair K) b (nat i) cs)"
    using assms(1,2) by (auto simp: MerkleRootFromBranch_def steps split: prod.splits)
  from path_collision [OF this assms(3,4)] show ?thesis by (metis (no_types, lifting) case_prod_conv surj_pair)
qed

theorem merkle_branch_binds_witness:
  "\<exists>x y x' y'. (x, y) \<noteq> (x', y') \<and>
    merklePair (sample_crypto\<lparr>sha256 := \<lambda>_. 0\<rparr>) x y = merklePair (sample_crypto\<lparr>sha256 := \<lambda>_. 0\<rparr>) x' y'"
  by (rule merkle_branch_binds [of "sample_crypto\<lparr>sha256 := \<lambda>_. 0\<rparr>" 1 0 "[2]" 0 2 "[1]"])
    (simp_all add: MerkleRootFromBranch_def merklePair_def SHA256d_def)

end
