(* ===== verification/Ledger.thy ===== *)
theory Ledger
  imports Block
begin

text \<open>
  The ledger rules of \<^verbatim>\<open>core/chain.go\<close>: the set of unspent outputs, validation of one
  transaction against it, context-free block checks, and applying a block with an undo journal
  that restores the set when the block fails. The set is a finite map from outpoints; Go's
  \<open>seen\<close> and \<open>spent\<close> maps are sets. Stateful operations take the map and return the new one.
\<close>

section \<open>Unspent outputs\<close>

record UTXOEntry =
  ue_Value :: int
  ue_PKH :: PKH
  ue_Height :: int
  ue_Coinbase :: bool

type_synonym utxo_map = "OutPoint \<Rightarrow> UTXOEntry option"

text \<open>An undo item: the outpoint and its entry before the write, if it existed.\<close>

record utxoUndo =
  undo_op :: OutPoint
  undo_entry :: "UTXOEntry option"

section \<open>Validation of one transaction\<close>

text \<open>The four messages a loop over outputs can fail with.\<close>

type_synonym out_msgs = "string \<times> string \<times> string \<times> string"

definition add_output :: "out_msgs \<Rightarrow> int \<Rightarrow> TxOut \<Rightarrow> int res" where
  "add_output ms acc o' =
     (case ms of (negative, zero, rng, sum_msg) \<Rightarrow>
        failIf (out_Value o' < 0) (moneyRangeError negative)
        (failIf (out_Value o' = 0) (Err zero)
        (failIf (\<not> MoneyRange (out_Value o')) (moneyRangeError rng)
        (addMoney sum_msg acc (out_Value o')))))"

definition sum_outputs :: "out_msgs \<Rightarrow> TxOut list \<Rightarrow> int res" where
  "sum_outputs ms outs = foldE (add_output ms) 0 outs"

definition check_input ::
  "crypto \<Rightarrow> Params \<Rightarrow> utxo_map \<Rightarrow> Hash32 \<Rightarrow> int \<Rightarrow> OutPoint set \<times> int \<Rightarrow> TxIn \<Rightarrow> (OutPoint set \<times> int) res"
where
  "check_input K p utxo digest height st i =
     (case st of (seen, inSum) \<Rightarrow>
        failIf (in_Prev i \<in> seen) (Err ''duplicate input'')
        (case utxo (in_Prev i) of
           None \<Rightarrow> Inl (Err ''input not found or already spent'')
         | Some entry \<Rightarrow>
             failIf (\<not> MoneyRange (ue_Value entry)) (moneyRangeError ''input value'')
             (failIf (ue_Coinbase entry \<and> height - ue_Height entry < CoinbaseMaturity p)
               (Err ''coinbase not mature'')
             (failIf (length (in_PubKey i) \<noteq> 32) (Err ''bad pubkey size'')
             (failIf (PubKeyHash20 K (in_PubKey i) \<noteq> ue_PKH entry)
               (Err ''pubkey does not match output owner'')
             (failIf (\<not> ed_verify K (in_PubKey i) (hash_bytes digest) (in_Sig i)) (Err ''bad signature'')
             (bindE (addMoney ''input total'' inSum (ue_Value entry)) (\<lambda>s.
              Inr (insert (in_Prev i) seen, s)))))))))"

definition checkTxLocked :: "crypto \<Rightarrow> Params \<Rightarrow> utxo_map \<Rightarrow> Tx \<Rightarrow> int \<Rightarrow> int res" where
  "checkTxLocked K p utxo tx height =
     failIf (tx_Ins tx = [] \<or> tx_Outs tx = []) (Err ''empty ins or outs'')
     (bindE (foldE (check_input K p utxo (SigDigest K tx) height) ({}, 0) (tx_Ins tx)) (\<lambda>(_, inSum).
      bindE (sum_outputs (''negative output value'', ''non-positive output'', ''output value'', ''output total'')
               (tx_Outs tx)) (\<lambda>outSum.
      failIf (outSum > inSum) (Err ''outputs exceed inputs'')
      (let fee = wrap64 (inSum - outSum) in
       failIf (\<not> MoneyRange fee) (moneyRangeError ''transaction fee'') (Inr fee)))))"

section \<open>Context-free block checks\<close>

definition sanity_inputs :: "OutPoint set \<Rightarrow> TxIn list \<Rightarrow> OutPoint set res" where
  "sanity_inputs spent ins =
     foldE (\<lambda>s i. failIf (in_Prev i \<in> s) (Err ''duplicate input in block'') (Inr (insert (in_Prev i) s)))
       spent ins"

fun sanity_loop :: "crypto \<Rightarrow> nat \<Rightarrow> Hash32 set \<Rightarrow> OutPoint set \<Rightarrow> Tx option list \<Rightarrow> unit res" where
  "sanity_loop K txIndex txIDs spent [] = Inr ()"
| "sanity_loop K txIndex txIDs spent (ptx # rest) =
     (case ptx of
        None \<Rightarrow> Inl (Err ''nil transaction in block'')
      | Some tx \<Rightarrow>
          failIf (txIndex > 0 \<and> IsCoinbase tx) (Err ''multiple coinbases'')
          (failIf (tx_Ins tx = [] \<or> tx_Outs tx = []) (Err ''empty ins or outs'')
          (failIf (tx_ID K tx \<in> txIDs) (Err ''duplicate transaction in block'')
          (bindE (if txIndex > 0 then sanity_inputs spent (tx_Ins tx) else Inr spent) (\<lambda>spent'.
           bindE (sum_outputs (''negative block output'', ''non-positive block output'',
                    ''block output value'', ''block transaction output total'') (tx_Outs tx)) (\<lambda>_.
           sanity_loop K (Suc txIndex) (insert (tx_ID K tx) txIDs) spent' rest))))))"

definition checkBlockSanity :: "crypto \<Rightarrow> Block \<Rightarrow> unit res" where
  "checkBlockSanity K b =
     failIf (case blk_Txs b of Some t # _ \<Rightarrow> \<not> IsCoinbase t | _ \<Rightarrow> True) (Err ''first tx must be coinbase'')
     (sanity_loop K 0 {} {} (blk_Txs b))"

section \<open>Applying transactions\<close>

definition new_entry :: "int \<Rightarrow> bool \<Rightarrow> TxOut \<Rightarrow> UTXOEntry" where
  "new_entry height coinbase o' =
     \<lparr>ue_Value = out_Value o', ue_PKH = out_PubKeyHash o', ue_Height = height, ue_Coinbase = coinbase\<rparr>"

fun create_outputs :: "Hash32 \<Rightarrow> int \<Rightarrow> bool \<Rightarrow> nat \<Rightarrow> TxOut list \<Rightarrow> utxo_map \<Rightarrow> utxo_map" where
  "create_outputs txid height coinbase i [] u = u"
| "create_outputs txid height coinbase i (o' # rest) u =
     create_outputs txid height coinbase (Suc i) rest (u(OutPoint txid (of_nat i) \<mapsto> new_entry height coinbase o'))"

definition spendAndCreate :: "crypto \<Rightarrow> utxo_map \<Rightarrow> Tx \<Rightarrow> int \<Rightarrow> bool \<Rightarrow> utxo_map" where
  "spendAndCreate K u tx height coinbase =
     (let u1 = (if \<not> coinbase then fold (\<lambda>i u. u(in_Prev i := None)) (tx_Ins tx) u else u)
      in create_outputs (tx_ID K tx) height coinbase 0 (tx_Outs tx) u1)"

text \<open>\<open>record(op)\<close> followed by the write of \<open>c.utxo[op]\<close>.\<close>

definition record_set :: "OutPoint \<Rightarrow> UTXOEntry option \<Rightarrow> utxo_map \<times> utxoUndo list \<Rightarrow> utxo_map \<times> utxoUndo list" where
  "record_set op v st = (case st of (u, undo) \<Rightarrow> (u(op := v), undo @ [\<lparr>undo_op = op, undo_entry = u op\<rparr>]))"

fun create_with_undo ::
  "Hash32 \<Rightarrow> int \<Rightarrow> bool \<Rightarrow> nat \<Rightarrow> TxOut list \<Rightarrow> utxo_map \<times> utxoUndo list \<Rightarrow> utxo_map \<times> utxoUndo list"
where
  "create_with_undo txid height coinbase i [] st = st"
| "create_with_undo txid height coinbase i (o' # rest) st =
     create_with_undo txid height coinbase (Suc i) rest
       (record_set (OutPoint txid (of_nat i)) (Some (new_entry height coinbase o')) st)"

definition spendAndCreateWithUndo ::
  "crypto \<Rightarrow> Tx \<Rightarrow> int \<Rightarrow> bool \<Rightarrow> utxo_map \<times> utxoUndo list \<Rightarrow> utxo_map \<times> utxoUndo list"
where
  "spendAndCreateWithUndo K tx height coinbase st =
     (let st1 = (if \<not> coinbase then fold (\<lambda>i. record_set (in_Prev i) None) (tx_Ins tx) st else st)
      in create_with_undo (tx_ID K tx) height coinbase 0 (tx_Outs tx) st1)"

definition rollback :: "utxoUndo list \<Rightarrow> utxo_map \<Rightarrow> utxo_map" where
  "rollback undo u = fold (\<lambda>item u. u(undo_op item := undo_entry item)) (rev undo) u"

section \<open>Applying a block\<close>

text \<open>The loop over the transactions after the coinbase: the accumulated fees or the error, with
  the map and the journal at that point. A nil transaction is dereferenced by the check.\<close>

fun apply_txs ::
  "crypto \<Rightarrow> Params \<Rightarrow> int \<Rightarrow> Tx option list \<Rightarrow> int \<Rightarrow> utxo_map \<times> utxoUndo list \<Rightarrow>
     int res \<times> utxo_map \<times> utxoUndo list"
where
  "apply_txs K p height [] fees st = (Inr fees, st)"
| "apply_txs K p height (ptx # rest) fees st =
     (case bindE (deref ptx) (\<lambda>tx.
             bindE (checkTxLocked K p (fst st) tx height) (\<lambda>fee.
             bindE (addMoney ''aggregate block fees'' fees fee) (\<lambda>fees'. Inr (tx, fees'))))
      of Inl e \<Rightarrow> (Inl e, st)
       | Inr (tx, fees') \<Rightarrow>
           apply_txs K p height rest fees' (spendAndCreateWithUndo K tx height False st))"

fun is_panic :: "error \<Rightarrow> bool" where
  "is_panic (Panic _) = True"
| "is_panic _ = False"

definition coinbase_allowance :: "Tx option list \<Rightarrow> int \<Rightarrow> int \<Rightarrow> Tx res" where
  "coinbase_allowance txs height fees =
     (case txs of [] \<Rightarrow> Inl (Panic ''index out of range'')
      | pcb # _ \<Rightarrow>
         bindE (deref pcb) (\<lambda>cb.
         bindE (sum_outputs (''negative coinbase output'', ''non-positive coinbase output'',
                  ''coinbase output'', ''coinbase total'') (tx_Outs cb)) (\<lambda>cbOut.
         bindE (addMoney ''subsidy plus fees'' (SubsidyAt height) fees) (\<lambda>allowed.
         failIf (cbOut > allowed) (Err ''coinbase pays more than subsidy plus fees'') (Inr cb)))))"

text \<open>The new map and the outcome. An error rolls the journal back before it returns; a panic
  unwinds without doing so.\<close>

definition validateAndApplyLocked ::
  "crypto \<Rightarrow> Params \<Rightarrow> utxo_map \<Rightarrow> Block \<Rightarrow> int \<Rightarrow> utxo_map \<times> unit res"
where
  "validateAndApplyLocked K p utxo b height =
     (let fail = (\<lambda>e st. (if is_panic e then fst st else rollback (snd st) (fst st), Inl e)) in
      case apply_txs K p height (drop 1 (blk_Txs b)) 0 (utxo, []) of
        (Inl e, st) \<Rightarrow> fail e st
      | (Inr fees, st) \<Rightarrow>
          (case coinbase_allowance (blk_Txs b) height fees of
             Inl e \<Rightarrow> fail e st
           | Inr cb \<Rightarrow> (fst (spendAndCreateWithUndo K cb height True st), Inr ())))"

fun apply_genesis_txs :: "crypto \<Rightarrow> int \<Rightarrow> bool \<Rightarrow> Tx option list \<Rightarrow> utxo_map \<Rightarrow> utxo_map res" where
  "apply_genesis_txs K height first [] u = Inr u"
| "apply_genesis_txs K height first (ptx # rest) u =
     bindE (deref ptx) (\<lambda>tx. apply_genesis_txs K height False rest (spendAndCreate K u tx height first))"

definition applyBlockToUTXO :: "crypto \<Rightarrow> utxo_map \<Rightarrow> Block \<Rightarrow> int \<Rightarrow> utxo_map res" where
  "applyBlockToUTXO K u b height = apply_genesis_txs K height True (blk_Txs b) u"

section \<open>The journal\<close>

lemma rollback_record_set:
  "case record_set op v (u, undo) of (u', undo') \<Rightarrow> rollback undo' u' = rollback undo u"
  by (simp add: record_set_def rollback_def)

text \<open>What a journal undoes to is unchanged by journalled writes.\<close>

definition undone :: "utxo_map \<times> utxoUndo list \<Rightarrow> utxo_map" where
  "undone st = rollback (snd st) (fst st)"

lemma undone_record_set [simp]: "undone (record_set op v st) = undone st"
  by (cases st) (simp add: undone_def record_set_def rollback_def)

lemma undone_fold_record: "undone (fold (\<lambda>i. record_set (in_Prev i) None) ins st) = undone st"
  by (induction ins arbitrary: st) simp_all

lemma undone_create: "undone (create_with_undo txid h cb i outs st) = undone st"
  by (induction outs arbitrary: i st) simp_all

lemma undone_spend [simp]: "undone (spendAndCreateWithUndo K tx h cb st) = undone st"
  by (simp add: spendAndCreateWithUndo_def Let_def undone_create undone_fold_record)

lemma undone_apply_txs: "undone (snd (apply_txs K p h txs fees st)) = undone st"
  by (induction txs arbitrary: fees st) (auto split: sum.splits)

text \<open>The journalled operation writes what the plain one writes.\<close>

lemma fst_record_set [simp]: "fst (record_set op v st) = (fst st)(op := v)"
  by (cases st) (simp add: record_set_def)

lemma fst_create: "fst (create_with_undo txid h cb i outs st) = create_outputs txid h cb i outs (fst st)"
  by (induction outs arbitrary: i st) simp_all

lemma fst_fold_record:
  "fst (fold (\<lambda>i. record_set (in_Prev i) None) ins st) = fold (\<lambda>i u. u(in_Prev i := None)) ins (fst st)"
  by (induction ins arbitrary: st) simp_all

lemma fst_spend: "fst (spendAndCreateWithUndo K tx h cb st) = spendAndCreate K (fst st) tx h cb"
  by (simp add: spendAndCreateWithUndo_def spendAndCreate_def Let_def fst_create fst_fold_record)

lemma validateAndApply_restores:
  assumes "validateAndApplyLocked K p u b h = (u', Inl e)" and "\<not> is_panic e"
  shows "u' = u"
proof -
  obtain r st where run: "apply_txs K p h (drop 1 (blk_Txs b)) 0 (u, []) = (r, st)"
    by (cases "apply_txs K p h (drop 1 (blk_Txs b)) 0 (u, [])")
  have "undone st = u"
    using undone_apply_txs [of K p h "drop 1 (blk_Txs b)" 0 "(u, [])"] run
    by (simp add: undone_def rollback_def)
  then show ?thesis
    using assms run by (auto simp: validateAndApplyLocked_def Let_def undone_def split: sum.splits)
qed

end
