(* ===== verification/Chain.thy ===== *)
theory Chain
  imports Ledger
begin

text \<open>
  The consensus state of \<^verbatim>\<open>core/chain.go\<close>: the index of known blocks, the best chain, the unspent
  outputs of that chain and the mempool; transaction admission, block acceptance, difficulty and
  timestamp rules on a branch, branch replay and reorganisation.

  A \<^verbatim>\<open>*blockIndex\<close> is the record it points to: the index holds one entry per block id and an
  entry carries its id, so equality of pointers into the index is equality of records. Internal
  pointers are never nil; a lookup in the index may miss and is an option. Cloning a block or a
  transaction is the identity on values. The mempool map is an association list whose order
  stands for the order in which Go ranges over it. Every exported method takes the chain's lock
  for its whole body, so a method is one atomic function of the state. The clock is an argument.
  The callback \<^verbatim>\<open>OnNewTip\<close> is the event an operation returns. The walks back through the index
  have no bound in the code: they are partial functions, and not returning is the error
  \<open>Diverges\<close>.
\<close>

section \<open>State\<close>

record blockIndex =
  bi_block :: Block
  bi_height :: int
  bi_cumWork :: int
  bi_id :: Hash32

type_synonym index_map = "Hash32 \<Rightarrow> blockIndex option"

record Chain =
  ch_params :: Params
  ch_index :: index_map
  ch_tip :: blockIndex
  ch_mainIDs :: "Hash32 list"
  ch_utxo :: utxo_map
  ch_mempool :: "(Hash32 \<times> Tx) list"

abbreviation bi_header :: "blockIndex \<Rightarrow> Header" where
  "bi_header bi \<equiv> blk_Header (bi_block bi)"

abbreviation bi_prev :: "blockIndex \<Rightarrow> Hash32" where
  "bi_prev bi \<equiv> hdr_PrevBlock (bi_header bi)"

definition genesis_index :: "crypto \<Rightarrow> Params \<Rightarrow> blockIndex" where
  "genesis_index K p =
     (let g = GenesisBlock K p in
      \<lparr>bi_block = g, bi_height = 0, bi_cumWork = WorkFromTarget (CompactToTarget (hdr_Bits (blk_Header g))),
       bi_id = hdr_ID K (blk_Header g)\<rparr>)"

definition NewChain :: "crypto \<Rightarrow> Params option \<Rightarrow> Chain res" where
  "NewChain K p =
     (case p of None \<Rightarrow> Inl (Err ''nil chain params'')
      | Some params \<Rightarrow>
          bindE (validateConsensusParams params) (\<lambda>_.
          let g = GenesisBlock K params in
          failIf (\<not> CheckPow K params (blk_Header g)) (Err ''genesis block fails PoW: params/nonce mismatch'')
          (let bi = genesis_index K params in
           bindE (applyBlockToUTXO K Map.empty g 0) (\<lambda>utxo.
           Inr \<lparr>ch_params = params, ch_index = [bi_id bi \<mapsto> bi], ch_tip = bi, ch_mainIDs = [bi_id bi],
                ch_utxo = utxo, ch_mempool = []\<rparr>))))"

definition Tip :: "Chain \<Rightarrow> Hash32 \<times> int" where
  "Tip c = (bi_id (ch_tip c), bi_height (ch_tip c))"

definition Height :: "Chain \<Rightarrow> int" where
  "Height c = snd (Tip c)"

section \<open>Accessors\<close>

text \<open>\<open>c.mainIDs[h]\<close> and \<open>c.index[c.mainIDs[h]]\<close> with a dereference of the result.\<close>

definition main_entry :: "Chain \<Rightarrow> int \<Rightarrow> blockIndex res" where
  "main_entry c h =
     (if h < 0 \<or> h \<ge> int (length (ch_mainIDs c)) then Inl (Panic ''index out of range'')
      else deref (ch_index c (ch_mainIDs c ! nat h)))"

definition BlockAt :: "Chain \<Rightarrow> int \<Rightarrow> Block option res" where
  "BlockAt c h =
     (if h < 0 \<or> h \<ge> int (length (ch_mainIDs c)) then Inr None
      else bindE (main_entry c h) (\<lambda>bi. Inr (Some (bi_block bi))))"

definition HasBlock :: "Chain \<Rightarrow> Hash32 \<Rightarrow> bool" where
  "HasBlock c hid = (ch_index c hid \<noteq> None)"

definition UTXOsForPKH :: "Chain \<Rightarrow> PKH \<Rightarrow> utxo_map" where
  "UTXOsForPKH c pkh =
     (\<lambda>op. case ch_utxo c op of None \<Rightarrow> None
       | Some e \<Rightarrow>
           if ue_PKH e \<noteq> pkh then None
           else if ue_Coinbase e \<and> bi_height (ch_tip c) - ue_Height e + 1 < CoinbaseMaturity (ch_params c) then None
           else Some e)"

definition MempoolTxs :: "crypto \<Rightarrow> Chain \<Rightarrow> Tx list" where
  "MempoolTxs K c = sort_key (tx_ID K) (map snd (ch_mempool c))"

section \<open>Difficulty\<close>

definition nextBitsAtLocked :: "Chain \<Rightarrow> int \<Rightarrow> uint32 res" where
  "nextBitsAtLocked c height =
     NextBits (ch_params c) height
       (\<lambda>h. bindE (main_entry c h) (\<lambda>bi. Inr (hdr_Bits (bi_header bi))))
       (\<lambda>h. bindE (main_entry c h) (\<lambda>bi. Inr (hdr_Time (bi_header bi))))"

definition NextBitsForTip :: "Chain \<Rightarrow> uint32 res" where
  "NextBitsForTip c = nextBitsAtLocked c (bi_height (ch_tip c) + 1)"

text \<open>The loop of \<open>ancestorAt\<close>: back from an entry while its height is above the target.\<close>

partial_function (option) ancestor_loop ::
  "index_map \<Rightarrow> int \<Rightarrow> blockIndex option \<Rightarrow> blockIndex option option"
where
  "ancestor_loop idx target current =
     (case current of None \<Rightarrow> Some None
      | Some bi \<Rightarrow>
          if bi_height bi > target then ancestor_loop idx target (idx (bi_prev bi)) else Some current)"

definition ancestorAt :: "index_map \<Rightarrow> blockIndex \<Rightarrow> int \<Rightarrow> blockIndex res" where
  "ancestorAt idx parent target =
     (case ancestor_loop idx target (Some parent) of
        None \<Rightarrow> Inl Diverges
      | Some current \<Rightarrow>
          deref (case current of None \<Rightarrow> None | Some bi \<Rightarrow> if bi_height bi \<noteq> target then None else Some bi))"

definition bitsOnBranch :: "Chain \<Rightarrow> blockIndex \<Rightarrow> int \<Rightarrow> uint32 res" where
  "bitsOnBranch c parent height =
     (if parent = ch_tip c \<and> height = bi_height parent + 1 then nextBitsAtLocked c height
      else NextBits (ch_params c) height
        (\<lambda>h. bindE (ancestorAt (ch_index c) parent h) (\<lambda>bi. Inr (hdr_Bits (bi_header bi))))
        (\<lambda>h. bindE (ancestorAt (ch_index c) parent h) (\<lambda>bi. Inr (hdr_Time (bi_header bi)))))"

section \<open>Timestamps\<close>

text \<open>The ancestors' times, at most \<open>n\<close>, back from \<open>current\<close> and stopping at height 0.\<close>

fun collect_times :: "index_map \<Rightarrow> nat \<Rightarrow> blockIndex option \<Rightarrow> int list" where
  "collect_times idx 0 current = []"
| "collect_times idx (Suc n) current =
     (case current of None \<Rightarrow> []
      | Some bi \<Rightarrow>
          hdr_Time (bi_header bi) #
          (if bi_height bi = 0 then [] else collect_times idx n (idx (bi_prev bi))))"

definition checkBlockTimestamp :: "Chain \<Rightarrow> blockIndex \<Rightarrow> int \<Rightarrow> int \<Rightarrow> int \<Rightarrow> unit res" where
  "checkBlockTimestamp c parent height candidateTime now =
     (let p = ch_params c in
      if \<not> asertActive p height then
        bindE (CheckTimestamp p now
                 \<lparr>hdr_Version = 0, hdr_PrevBlock = 0, hdr_MerkleRoot = 0, hdr_Time = candidateTime,
                  hdr_Bits = 0, hdr_Nonce = 0\<rparr>) (\<lambda>_.
        failIf (candidateTime < wrap64 (hdr_Time (bi_header parent) - FutureDrift p))
          (Err ''block timestamp before parent'') (Inr ()))
      else
        failIf (candidateTime > wrap64 (now + ASERTFutureDrift p))
          (Err ''block timestamp too far in the future'')
        (let timestamps = collect_times (ch_index c) (nat (ASERTMedianTimeBlocks p)) (Some parent) in
         failIf (timestamps = []) (Err ''block timestamp ancestry is unavailable'')
         (failIf (candidateTime \<le> sort timestamps ! (length timestamps div 2))
           (Err ''block timestamp is not after median time past'') (Inr ()))))"

section \<open>The mempool\<close>

datatype TxAcceptanceResult = TxAcceptanceAdded | TxAcceptanceAlreadyKnown

definition mempool_spent :: "(Hash32 \<times> Tx) list \<Rightarrow> OutPoint set" where
  "mempool_spent pool = (\<Union>(_, m)\<in>set pool. in_Prev ` set (tx_Ins m))"

definition AcceptTxWithResult :: "crypto \<Rightarrow> Chain \<Rightarrow> Tx option \<Rightarrow> Chain \<times> TxAcceptanceResult res" where
  "AcceptTxWithResult K c ptx =
     (case ptx of None \<Rightarrow> (c, Inl (Err ''nil transaction''))
      | Some tx \<Rightarrow>
          if IsCoinbase tx then (c, Inl (Err ''coinbase cannot enter mempool''))
          else if tx_ID K tx \<in> fst ` set (ch_mempool c) then (c, Inr TxAcceptanceAlreadyKnown)
          else if \<exists>i\<in>set (tx_Ins tx). in_Prev i \<in> mempool_spent (ch_mempool c)
            then (c, Inl (Err ''input already spent in mempool''))
          else
            (case checkTxLocked K (ch_params c) (ch_utxo c) tx (bi_height (ch_tip c) + 1) of
               Inl e \<Rightarrow> (c, Inl e)
             | Inr _ \<Rightarrow> (c\<lparr>ch_mempool := ch_mempool c @ [(tx_ID K tx, tx)]\<rparr>, Inr TxAcceptanceAdded)))"

definition AcceptTx :: "crypto \<Rightarrow> Chain \<Rightarrow> Tx option \<Rightarrow> Chain \<times> unit res" where
  "AcceptTx K c ptx = (case AcceptTxWithResult K c ptx of (c', r) \<Rightarrow> (c', bindE r (\<lambda>_. Inr ())))"

definition evictMempoolLocked :: "crypto \<Rightarrow> Chain \<Rightarrow> Chain" where
  "evictMempoolLocked K c =
     c\<lparr>ch_mempool := filter (\<lambda>(_, tx).
         case checkTxLocked K (ch_params c) (ch_utxo c) tx (bi_height (ch_tip c) + 1) of
           Inl _ \<Rightarrow> False | Inr _ \<Rightarrow> True) (ch_mempool c)\<rparr>"

section \<open>Branches\<close>

partial_function (option) branchTo_loop ::
  "index_map \<Rightarrow> blockIndex \<Rightarrow> (int \<Rightarrow> blockIndex option) \<Rightarrow> (int \<Rightarrow> blockIndex option) res option"
where
  "branchTo_loop idx cur m =
     (if bi_height cur = 0 then Some (Inr (m(bi_height cur \<mapsto> cur)))
      else case idx (bi_prev cur) of
        None \<Rightarrow> Some (Inl (Panic ''nil dereference''))
      | Some prev \<Rightarrow> branchTo_loop idx prev (m(bi_height cur \<mapsto> cur)))"

definition branchTo :: "index_map \<Rightarrow> blockIndex \<Rightarrow> (int \<Rightarrow> blockIndex option) res" where
  "branchTo idx bi = (case branchTo_loop idx bi Map.empty of None \<Rightarrow> Inl Diverges | Some r \<Rightarrow> r)"

text \<open>The loop of \<open>replayBranch\<close> over \<open>n\<close> heights from \<open>h\<close>, with the scratch set and the ids so far.\<close>

fun replay_loop ::
  "crypto \<Rightarrow> Params \<Rightarrow> (int \<Rightarrow> blockIndex option) \<Rightarrow> nat \<Rightarrow> int \<Rightarrow> utxo_map \<Rightarrow> Hash32 list \<Rightarrow>
     (utxo_map \<times> Hash32 list) res"
where
  "replay_loop K p branch 0 h utxo newMain = Inr (utxo, newMain)"
| "replay_loop K p branch (Suc n) h utxo newMain =
     (case branch h of
        None \<Rightarrow> Inl (Err ''branch missing height'')
      | Some bi \<Rightarrow>
          (case checkBlockSanity K (bi_block bi) of
             Inl e \<Rightarrow> Inl (Wrapped ''block invalid'' e)
           | Inr _ \<Rightarrow>
               (case validateAndApplyLocked K p utxo (bi_block bi) h of
                  (_, Inl e) \<Rightarrow> Inl (if is_panic e then e else Wrapped ''block invalid'' e)
                | (utxo', Inr _) \<Rightarrow> replay_loop K p branch n (h + 1) utxo' (newMain @ [bi_id bi]))))"

definition replayBranch :: "crypto \<Rightarrow> Chain \<Rightarrow> blockIndex \<Rightarrow> (utxo_map \<times> Hash32 list) res" where
  "replayBranch K c newTip =
     bindE (branchTo (ch_index c) newTip) (\<lambda>branch.
       replay_loop K (ch_params c) branch (nat (bi_height newTip + 1)) 0 Map.empty [])"

definition connectTipLocked :: "crypto \<Rightarrow> Chain \<Rightarrow> blockIndex \<Rightarrow> Chain \<times> unit res" where
  "connectTipLocked K c newTip =
     (case validateAndApplyLocked K (ch_params c) (ch_utxo c) (bi_block newTip) (bi_height newTip) of
        (utxo, Inl e) \<Rightarrow> (c\<lparr>ch_utxo := utxo\<rparr>, Inl (if is_panic e then e else Wrapped ''block invalid'' e))
      | (utxo, Inr _) \<Rightarrow>
          (evictMempoolLocked K
             (c\<lparr>ch_utxo := utxo, ch_mainIDs := ch_mainIDs c @ [bi_id newTip], ch_tip := newTip\<rparr>), Inr ()))"

definition connectBranch :: "crypto \<Rightarrow> Chain \<Rightarrow> blockIndex \<Rightarrow> Chain \<times> unit res" where
  "connectBranch K c newTip =
     (case replayBranch K c newTip of
        Inl e \<Rightarrow> (c, Inl e)
      | Inr (utxo, newMain) \<Rightarrow>
          (evictMempoolLocked K (c\<lparr>ch_utxo := utxo, ch_mainIDs := newMain, ch_tip := newTip\<rparr>), Inr ()))"

section \<open>Accepting blocks\<close>

definition index_block :: "blockIndex \<Rightarrow> Chain \<Rightarrow> Chain" where
  "index_block bi c = c\<lparr>ch_index := (ch_index c)(bi_id bi \<mapsto> bi)\<rparr>"

text \<open>The checks of \<open>acceptBlockLocked\<close> before the new entry is built.\<close>

definition check_header :: "crypto \<Rightarrow> Chain \<Rightarrow> int \<Rightarrow> Block \<Rightarrow> bool \<Rightarrow> blockIndex \<Rightarrow> unit res" where
  "check_header K c now b checkPow parent =
     bindE (checkBlockSanity K b) (\<lambda>_.
     bindE (blk_Bytes b) (\<lambda>raw.
     failIf (length raw > MaxBlockBytes) (Err ''block too large'')
     (let height = bi_height parent + 1 in
      bindE (checkBlockTimestamp c parent height (hdr_Time (blk_Header b)) now) (\<lambda>_.
      bindE (bitsOnBranch c parent height) (\<lambda>requiredBits.
      failIf (hdr_Bits (blk_Header b) \<noteq> requiredBits) (Err ''wrong difficulty bits'')
      (failIf (checkPow \<and> \<not> CheckPow K (ch_params c) (blk_Header b)) (Err ''proof of work invalid'')
      (bindE (MerkleRoot K (blk_Txs b)) (\<lambda>root.
       failIf (root \<noteq> hdr_MerkleRoot (blk_Header b)) (Err ''merkle root mismatch'') (Inr ())))))))))"

definition acceptBlockLocked ::
  "crypto \<Rightarrow> Chain \<Rightarrow> int \<Rightarrow> Block \<Rightarrow> bool \<Rightarrow> Chain \<times> blockIndex option res"
where
  "acceptBlockLocked K c now b checkPow =
     (let hid = hdr_ID K (blk_Header b) in
      if ch_index c hid \<noteq> None then (c, Inr None)
      else case ch_index c (hdr_PrevBlock (blk_Header b)) of
        None \<Rightarrow> (c, Inl (Err ''orphan: unknown parent''))
      | Some parent \<Rightarrow>
         (case check_header K c now b checkPow parent of
            Inl e \<Rightarrow> (c, Inl e)
          | Inr _ \<Rightarrow>
              let bi = \<lparr>bi_block = b, bi_height = bi_height parent + 1,
                        bi_cumWork = bi_cumWork parent + WorkFromTarget (CompactToTarget (hdr_Bits (blk_Header b))),
                        bi_id = hid\<rparr>
              in if bi_cumWork bi \<le> bi_cumWork (ch_tip c) then
                   (case replayBranch K c bi of
                      Inl e \<Rightarrow> (c, Inl e)
                    | Inr _ \<Rightarrow> (index_block bi c, Inr None))
                 else
                   (case (if parent = ch_tip c then connectTipLocked K c bi else connectBranch K c bi) of
                      (c', Inl e) \<Rightarrow> (c', Inl e)
                    | (c', Inr _) \<Rightarrow> (index_block bi c', Inr (Some bi)))))"

text \<open>The exported operations return the block and height \<^verbatim>\<open>OnNewTip\<close> is called with, if it is.\<close>

definition accept_with ::
  "string \<Rightarrow> bool \<Rightarrow> crypto \<Rightarrow> Chain \<Rightarrow> int \<Rightarrow> Block option \<Rightarrow> Chain \<times> unit res \<times> (Block \<times> int) option"
where
  "accept_with nilMsg checkPow K c now pb =
     (case pb of None \<Rightarrow> (c, Inl (Err nilMsg), None)
      | Some b \<Rightarrow>
          (case acceptBlockLocked K c now b checkPow of
             (c', Inl e) \<Rightarrow> (c', Inl e, None)
           | (c', Inr None) \<Rightarrow> (c', Inr (), None)
           | (c', Inr (Some newTip)) \<Rightarrow> (c', Inr (), Some (bi_block newTip, bi_height newTip))))"

definition AcceptBlock ::
  "crypto \<Rightarrow> Chain \<Rightarrow> int \<Rightarrow> Block option \<Rightarrow> Chain \<times> unit res \<times> (Block \<times> int) option"
where
  "AcceptBlock = accept_with ''nil block'' True"

definition acceptStoredBlock ::
  "crypto \<Rightarrow> Chain \<Rightarrow> int \<Rightarrow> Block option \<Rightarrow> Chain \<times> unit res \<times> (Block \<times> int) option"
where
  "acceptStoredBlock = accept_with ''nil stored block'' False"

end
