(* ===== verification/Supply.thy ===== *)
theory Supply
  imports Ledger
begin

text \<open>
  What the ledger rules of theory \<open>Ledger\<close> guarantee: declarative characterisations of
  transaction and block validity, and the accounting of the unspent output set. No operation
  creates more value than the subsidy allows.
\<close>

section \<open>Valid output lists\<close>

definition outs_total :: "TxOut list \<Rightarrow> int" where
  "outs_total outs = (\<Sum>o'\<leftarrow>outs. out_Value o')"

definition good_outs :: "TxOut list \<Rightarrow> bool" where
  "good_outs outs \<longleftrightarrow> (\<forall>o'\<in>set outs. 0 < out_Value o') \<and> outs_total outs \<le> MaxMoneyUnits"

lemma outs_total_simps [simp]:
  "outs_total [] = 0" "outs_total (o' # outs) = out_Value o' + outs_total outs"
  by (simp_all add: outs_total_def)

lemma outs_total_nonneg: "\<forall>o'\<in>set outs. 0 < out_Value o' \<Longrightarrow> 0 \<le> outs_total outs"
  by (induction outs) auto

lemma add_output_Inr_iff [steps]:
  "add_output ms acc o' = Inr s \<longleftrightarrow>
     0 < out_Value o' \<and> MoneyRange acc \<and> MoneyRange (out_Value o') \<and> MoneyRange s \<and> s = acc + out_Value o'"
  by (auto simp: add_output_def failIf_Inr_iff addMoney_Inr_iff split: prod.splits)

lemma foldE_add_output:
  assumes "MoneyRange acc"
  shows "foldE (add_output ms) acc outs = Inr s \<longleftrightarrow>
     (\<forall>o'\<in>set outs. 0 < out_Value o') \<and> s = acc + outs_total outs \<and> MoneyRange s"
  using assms
proof (induction outs arbitrary: acc)
  case Nil
  then show ?case by auto
next
  case (Cons o' outs)
  let ?a = "acc + out_Value o'"
  show ?case
  proof (cases "0 < out_Value o' \<and> MoneyRange ?a")
    case True
    then have "add_output ms acc o' = Inr ?a"
      using Cons.prems by (auto simp: add_output_Inr_iff MoneyRange_simps)
    then show ?thesis using True Cons.IH [of ?a] by (auto simp: add.assoc)
  next
    case False
    then have "foldE (add_output ms) acc (o' # outs) \<noteq> Inr s"
      by (auto simp: bindE_Inr_iff add_output_Inr_iff)
    moreover have "0 < out_Value o' \<Longrightarrow> \<forall>o'\<in>set outs. 0 < out_Value o' \<Longrightarrow> \<not> MoneyRange (?a + outs_total outs)"
      using False Cons.prems outs_total_nonneg [of outs] by (auto simp: MoneyRange_simps)
    ultimately show ?thesis by (auto simp: add.assoc)
  qed
qed

lemma sum_outputs_Inr_iff [steps]: "sum_outputs ms outs = Inr s \<longleftrightarrow> good_outs outs \<and> s = outs_total outs"
  unfolding sum_outputs_def foldE_add_output [OF MoneyRange_0] good_outs_def
  using outs_total_nonneg [of outs] by (auto simp: MoneyRange_def)

section \<open>Valid transactions\<close>

definition entry_of :: "utxo_map \<Rightarrow> TxIn \<Rightarrow> UTXOEntry" where
  "entry_of u i = the (u (in_Prev i))"

definition ins_total :: "utxo_map \<Rightarrow> TxIn list \<Rightarrow> int" where
  "ins_total u ins = (\<Sum>i\<leftarrow>ins. ue_Value (entry_of u i))"

lemma ins_total_simps [simp]:
  "ins_total u [] = 0" "ins_total u (i # ins) = ue_Value (entry_of u i) + ins_total u ins"
  by (simp_all add: ins_total_def)

text \<open>An input the owner of an existing, mature output has authorised.\<close>

definition authorised :: "crypto \<Rightarrow> Params \<Rightarrow> utxo_map \<Rightarrow> Hash32 \<Rightarrow> int \<Rightarrow> TxIn \<Rightarrow> bool" where
  "authorised K p u digest height i \<longleftrightarrow>
     in_Prev i \<in> dom u \<and> MoneyRange (ue_Value (entry_of u i)) \<and>
     (ue_Coinbase (entry_of u i) \<longrightarrow> CoinbaseMaturity p \<le> height - ue_Height (entry_of u i)) \<and>
     length (in_PubKey i) = 32 \<and> PubKeyHash20 K (in_PubKey i) = ue_PKH (entry_of u i) \<and>
     ed_verify K (in_PubKey i) (hash_bytes digest) (in_Sig i)"

text \<open>The specification of a valid spend: every input is authorised and none is used twice, the
  outputs are positive amounts, and value is conserved up to the fee.\<close>

definition valid_spend :: "crypto \<Rightarrow> Params \<Rightarrow> utxo_map \<Rightarrow> Tx \<Rightarrow> int \<Rightarrow> int \<Rightarrow> bool" where
  "valid_spend K p u tx height fee \<longleftrightarrow>
     tx_Ins tx \<noteq> [] \<and> tx_Outs tx \<noteq> [] \<and> distinct (map in_Prev (tx_Ins tx)) \<and>
     (\<forall>i\<in>set (tx_Ins tx). authorised K p u (SigDigest K tx) height i) \<and>
     good_outs (tx_Outs tx) \<and> ins_total u (tx_Ins tx) \<le> MaxMoneyUnits \<and>
     ins_total u (tx_Ins tx) = outs_total (tx_Outs tx) + fee \<and> 0 \<le> fee"

lemma ins_total_nonneg: "\<forall>i\<in>set ins. MoneyRange (ue_Value (entry_of u i)) \<Longrightarrow> 0 \<le> ins_total u ins"
  by (induction ins) (auto simp: MoneyRange_def)

lemma check_input_Inr_iff [steps]:
  "check_input K p u d h (seen, s) i = Inr st \<longleftrightarrow>
     in_Prev i \<notin> seen \<and> authorised K p u d h i \<and> MoneyRange s \<and>
     MoneyRange (s + ue_Value (entry_of u i)) \<and>
     st = (insert (in_Prev i) seen, s + ue_Value (entry_of u i))"
  by (cases "u (in_Prev i)")
    (auto simp: check_input_def authorised_def entry_of_def failIf_Inr_iff bindE_Inr_iff addMoney_Inr_iff)

lemma foldE_check_input:
  assumes "MoneyRange s"
  shows "foldE (check_input K p u d h) (seen, s) ins = Inr st \<longleftrightarrow>
     distinct (map in_Prev ins) \<and> in_Prev ` set ins \<inter> seen = {} \<and>
     (\<forall>i\<in>set ins. authorised K p u d h i) \<and> MoneyRange (s + ins_total u ins) \<and>
     st = (seen \<union> in_Prev ` set ins, s + ins_total u ins)"
  using assms
proof (induction ins arbitrary: seen s)
  case Nil
  then show ?case by auto
next
  case (Cons i ins)
  let ?s = "s + ue_Value (entry_of u i)"
  have split: "foldE (check_input K p u d h) (seen, s) (i # ins) = Inr st \<longleftrightarrow>
      in_Prev i \<notin> seen \<and> authorised K p u d h i \<and> MoneyRange ?s \<and>
      foldE (check_input K p u d h) (insert (in_Prev i) seen, ?s) ins = Inr st"
    using Cons.prems by (auto simp: bindE_Inr_iff check_input_Inr_iff)
  have mono: "\<lbrakk>\<forall>j\<in>set (i # ins). authorised K p u d h j; MoneyRange (?s + ins_total u ins)\<rbrakk> \<Longrightarrow> MoneyRange ?s"
    using Cons.prems ins_total_nonneg [of ins u] by (auto simp: authorised_def MoneyRange_def)
  show ?case
  proof (cases "authorised K p u d h i \<and> MoneyRange ?s")
    case True
    show ?thesis unfolding split using True Cons.IH [of ?s "insert (in_Prev i) seen"] by (auto simp: add.assoc)
  next
    case False
    then show ?thesis unfolding split using mono by (auto simp: add.assoc)
  qed
qed

lemma checkTxLocked_iff: "checkTxLocked K p u tx h = Inr fee \<longleftrightarrow> valid_spend K p u tx h fee"
proof -
  have run: "checkTxLocked K p u tx h = Inr fee \<longleftrightarrow>
      tx_Ins tx \<noteq> [] \<and> tx_Outs tx \<noteq> [] \<and> distinct (map in_Prev (tx_Ins tx)) \<and>
      (\<forall>i\<in>set (tx_Ins tx). authorised K p u (SigDigest K tx) h i) \<and>
      MoneyRange (ins_total u (tx_Ins tx)) \<and> good_outs (tx_Outs tx) \<and>
      outs_total (tx_Outs tx) \<le> ins_total u (tx_Ins tx) \<and>
      MoneyRange (wrap64 (ins_total u (tx_Ins tx) - outs_total (tx_Outs tx))) \<and>
      fee = wrap64 (ins_total u (tx_Ins tx) - outs_total (tx_Outs tx))"
    by (auto simp: checkTxLocked_def failIf_Inr_iff bindE_Inr_iff foldE_check_input sum_outputs_Inr_iff Let_def)
  have exact: "MoneyRange (ins_total u (tx_Ins tx)) \<Longrightarrow> good_outs (tx_Outs tx) \<Longrightarrow>
      wrap64 (ins_total u (tx_Ins tx) - outs_total (tx_Outs tx)) = ins_total u (tx_Ins tx) - outs_total (tx_Outs tx)"
    using outs_total_nonneg [of "tx_Outs tx"]
    by (intro wrap64_id) (auto simp: good_outs_def is_int64_def MoneyRange_simps MaxMoneyUnits_eq)
  have "\<forall>i\<in>set (tx_Ins tx). authorised K p u (SigDigest K tx) h i \<Longrightarrow> 0 \<le> ins_total u (tx_Ins tx)"
    by (rule ins_total_nonneg) (simp add: authorised_def)
  then show ?thesis
    unfolding run valid_spend_def
    using exact outs_total_nonneg [of "tx_Outs tx"] by (auto simp: MoneyRange_def good_outs_def)
qed

section \<open>Sane blocks\<close>

definition sane_tx :: "Tx \<Rightarrow> bool" where
  "sane_tx tx \<longleftrightarrow> tx_Ins tx \<noteq> [] \<and> tx_Outs tx \<noteq> [] \<and> good_outs (tx_Outs tx)"

definition spent_by :: "Tx list \<Rightarrow> OutPoint list" where
  "spent_by txs = concat (map (\<lambda>tx. map in_Prev (tx_Ins tx)) txs)"

lemma spent_by_simps [simp]:
  "spent_by [] = []" "spent_by (tx # txs) = map in_Prev (tx_Ins tx) @ spent_by txs"
  by (simp_all add: spent_by_def)

definition sane_txs :: "crypto \<Rightarrow> Tx list \<Rightarrow> bool" where
  "sane_txs K txs \<longleftrightarrow>
     txs \<noteq> [] \<and> IsCoinbase (List.hd txs) \<and> (\<forall>tx\<in>set (tl txs). \<not> IsCoinbase tx) \<and>
     (\<forall>tx\<in>set txs. sane_tx tx) \<and> distinct (map (tx_ID K) txs) \<and> distinct (spent_by (tl txs))"

lemma sanity_inputs_Inr_iff [steps]:
  "sanity_inputs spent ins = Inr s \<longleftrightarrow>
     distinct (map in_Prev ins) \<and> in_Prev ` set ins \<inter> spent = {} \<and> s = spent \<union> in_Prev ` set ins"
proof (induction ins arbitrary: spent)
  case Nil
  then show ?case by (auto simp: sanity_inputs_def)
next
  case (Cons i ins)
  have "sanity_inputs spent (i # ins) = Inr s \<longleftrightarrow>
      in_Prev i \<notin> spent \<and> sanity_inputs (insert (in_Prev i) spent) ins = Inr s"
    by (simp add: sanity_inputs_def bindE_Inr_iff failIf_Inr_iff)
  then show ?case using Cons.IH by auto
qed

lemma sanity_loop_later:
  "sanity_loop K (Suc n) ids spent ptxs = Inr () \<longleftrightarrow>
     (\<exists>txs. ptxs = map Some txs \<and> (\<forall>tx\<in>set txs. \<not> IsCoinbase tx \<and> sane_tx tx) \<and>
        distinct (map (tx_ID K) txs) \<and> tx_ID K ` set txs \<inter> ids = {} \<and>
        distinct (spent_by txs) \<and> set (spent_by txs) \<inter> spent = {})"
proof (induction ptxs arbitrary: n ids spent)
  case Nil
  then show ?case by auto
next
  case (Cons ptx ptxs)
  show ?case
  proof (cases ptx)
    case None
    then show ?thesis by auto
  next
    case (Some tx)
    have "sanity_loop K (Suc n) ids spent (ptx # ptxs) = Inr () \<longleftrightarrow>
        \<not> IsCoinbase tx \<and> sane_tx tx \<and> tx_ID K tx \<notin> ids \<and> distinct (map in_Prev (tx_Ins tx)) \<and>
        in_Prev ` set (tx_Ins tx) \<inter> spent = {} \<and>
        sanity_loop K (Suc (Suc n)) (insert (tx_ID K tx) ids) (spent \<union> in_Prev ` set (tx_Ins tx)) ptxs = Inr ()"
      using Some
      by (auto simp: failIf_Inr_iff bindE_Inr_iff sanity_inputs_Inr_iff sum_outputs_Inr_iff sane_tx_def)
    also have "\<dots> \<longleftrightarrow> (\<exists>txs. ptx # ptxs = map Some txs \<and> (\<forall>tx\<in>set txs. \<not> IsCoinbase tx \<and> sane_tx tx) \<and>
        distinct (map (tx_ID K) txs) \<and> tx_ID K ` set txs \<inter> ids = {} \<and>
        distinct (spent_by txs) \<and> set (spent_by txs) \<inter> spent = {})" (is "?L = ?R")
    proof
      assume ?L
      then obtain txs where txs: "ptxs = map Some txs" "\<forall>t\<in>set txs. \<not> IsCoinbase t \<and> sane_tx t"
        "distinct (map (tx_ID K) txs)" "tx_ID K ` set txs \<inter> insert (tx_ID K tx) ids = {}"
        "distinct (spent_by txs)" "set (spent_by txs) \<inter> (spent \<union> in_Prev ` set (tx_Ins tx)) = {}"
        unfolding Cons.IH by blast
      with \<open>?L\<close> Some show ?R
        by (intro exI [of _ "tx # txs"]) auto
    next
      assume ?R
      then obtain txs where "ptxs = map Some txs" "\<forall>t\<in>set (tx # txs). \<not> IsCoinbase t \<and> sane_tx t"
        "distinct (map (tx_ID K) (tx # txs))" "tx_ID K ` set (tx # txs) \<inter> ids = {}"
        "distinct (spent_by (tx # txs))" "set (spent_by (tx # txs)) \<inter> spent = {}"
        using Some by auto
      then show ?L unfolding Cons.IH by (auto intro!: exI [of _ txs])
    qed
    finally show ?thesis .
  qed
qed

lemma checkBlockSanity_iff:
  "checkBlockSanity K b = Inr () \<longleftrightarrow> (\<exists>txs. blk_Txs b = map Some txs \<and> sane_txs K txs)"
proof (cases "blk_Txs b")
  case Nil
  then show ?thesis by (auto simp: checkBlockSanity_def sane_txs_def)
next
  case (Cons ptx ptxs)
  show ?thesis
  proof (cases ptx)
    case None
    then show ?thesis using Cons by (auto simp: checkBlockSanity_def)
  next
    case (Some cb)
    have "checkBlockSanity K b = Inr () \<longleftrightarrow>
        IsCoinbase cb \<and> sane_tx cb \<and> sanity_loop K (Suc 0) {tx_ID K cb} {} ptxs = Inr ()"
      using Cons Some by (auto simp: checkBlockSanity_def failIf_Inr_iff bindE_Inr_iff sum_outputs_Inr_iff sane_tx_def)
    also have "\<dots> \<longleftrightarrow> (\<exists>txs. ptxs = map Some txs \<and> sane_txs K (cb # txs))"
      unfolding sanity_loop_later sane_txs_def by auto
    finally show ?thesis using Cons Some by (auto simp: Cons_eq_map_conv)
  qed
qed

section \<open>Connecting a block\<close>

text \<open>The specification of a block's effect: the transactions after the coinbase spend in order,
  each valid in the set its predecessors leave, and the coinbase then creates at most the subsidy
  plus the fees.\<close>

inductive spends :: "crypto \<Rightarrow> Params \<Rightarrow> int \<Rightarrow> utxo_map \<Rightarrow> Tx list \<Rightarrow> int \<Rightarrow> utxo_map \<Rightarrow> bool"
  for K p h where
  spends_Nil: "spends K p h u [] 0 u"
| spends_Cons: "valid_spend K p u tx h fee \<Longrightarrow> spends K p h (spendAndCreate K u tx h False) txs fees u' \<Longrightarrow>
     spends K p h u (tx # txs) (fee + fees) u'"

inductive_simps spends_Nil_iff [simp]: "spends K p h u [] fees u'"
inductive_simps spends_Cons_iff: "spends K p h u (tx # txs) fees u'"

definition connects :: "crypto \<Rightarrow> Params \<Rightarrow> int \<Rightarrow> utxo_map \<Rightarrow> Tx list \<Rightarrow> utxo_map \<Rightarrow> bool" where
  "connects K p h u txs u' \<longleftrightarrow>
     txs \<noteq> [] \<and>
     (\<exists>fees u1. spends K p h u (tl txs) fees u1 \<and> fees \<le> MaxMoneyUnits \<and>
        SubsidyAt h + fees \<le> MaxMoneyUnits \<and> good_outs (tx_Outs (List.hd txs)) \<and>
        outs_total (tx_Outs (List.hd txs)) \<le> SubsidyAt h + fees \<and>
        u' = spendAndCreate K u1 (List.hd txs) h True)"

lemma spends_fees_nonneg: "spends K p h u txs fees u' \<Longrightarrow> 0 \<le> fees"
  by (induction rule: spends.induct) (auto simp: valid_spend_def)

lemma apply_txs_ok:
  assumes "spends K p h (fst st) txs g u'" and "0 \<le> f" and "f + g \<le> MaxMoneyUnits"
  shows "\<exists>undo. apply_txs K p h (map Some txs) f st = (Inr (f + g), u', undo)"
  using assms
proof (induction txs arbitrary: f g st)
  case Nil
  then show ?case by (cases st) auto
next
  case (Cons tx txs)
  from Cons.prems(1) obtain fee fees where g: "g = fee + fees" and valid: "valid_spend K p (fst st) tx h fee"
    and rest: "spends K p h (spendAndCreate K (fst st) tx h False) txs fees u'"
    by (auto simp: spends_Cons_iff)
  have "0 \<le> fee" "0 \<le> fees" using valid spends_fees_nonneg [OF rest] by (simp_all add: valid_spend_def)
  then have sum: "addMoney ''aggregate block fees'' f fee = Inr (f + fee)"
    using Cons.prems g by (intro addMoney_ok) (simp_all add: MoneyRange_def)
  have "\<exists>undo. apply_txs K p h (map Some txs) (f + fee) (spendAndCreateWithUndo K tx h False st)
      = (Inr (f + fee + fees), u', undo)"
    using Cons.prems g rest \<open>0 \<le> fee\<close> by (intro Cons.IH) (simp_all add: fst_spend)
  then show ?case using valid sum g by (simp add: checkTxLocked_iff [THEN iffD2] add.assoc)
qed

lemma apply_txs_Inr:
  assumes "apply_txs K p h ptxs f st = (Inr f', u', undo)"
  shows "\<exists>txs g. ptxs = map Some txs \<and> spends K p h (fst st) txs g u' \<and> f' = f + g \<and> (g = 0 \<or> f' \<le> MaxMoneyUnits)"
  using assms
proof (induction ptxs arbitrary: f st)
  case Nil
  then show ?case by (auto intro: exI [of _ "[]"])
next
  case (Cons ptx ptxs)
  obtain tx fee f1 where tx: "ptx = Some tx" and fee: "checkTxLocked K p (fst st) tx h = Inr fee"
    and f1: "addMoney ''aggregate block fees'' f fee = Inr f1"
    and rest: "apply_txs K p h ptxs f1 (spendAndCreateWithUndo K tx h False st) = (Inr f', u', undo)"
    using Cons.prems
    by (auto simp: bindE_Inr_iff deref_Inr_iff split: sum.splits)
  obtain txs g where "ptxs = map Some txs" "spends K p h (spendAndCreate K (fst st) tx h False) txs g u'"
    "f' = f1 + g" "g = 0 \<or> f' \<le> MaxMoneyUnits"
    using Cons.IH [OF rest] by (auto simp: fst_spend)
  moreover have "f1 = f + fee" "f1 \<le> MaxMoneyUnits" using f1 by (auto simp: addMoney_Inr_iff MoneyRange_def)
  ultimately show ?case
    using tx fee by (intro exI [of _ "tx # txs"] exI [of _ "fee + g"])
      (auto simp: checkTxLocked_iff intro: spends_Cons)
qed

lemma coinbase_allowance_Inr_iff:
  "coinbase_allowance ptxs h fees = Inr cb \<longleftrightarrow>
     (\<exists>rest. ptxs = Some cb # rest) \<and> good_outs (tx_Outs cb) \<and> MoneyRange (SubsidyAt h) \<and>
     MoneyRange fees \<and> MoneyRange (SubsidyAt h + fees) \<and> outs_total (tx_Outs cb) \<le> SubsidyAt h + fees"
  by (cases ptxs)
    (auto simp: coinbase_allowance_def bindE_Inr_iff deref_Inr_iff sum_outputs_Inr_iff addMoney_Inr_iff failIf_Inr_iff)

lemma SubsidyAt_MoneyRange: "MoneyRange (SubsidyAt h)"
proof (cases "0 \<le> h")
  case True
  then show ?thesis using SubsidyAt_range [of "nat h"] by simp
next
  case False
  define q where "q = h sdiv 210000"
  have "SubsidyAt h = (if q \<ge> 64 \<or> q < 0 then 0 else 5000000000 div 2 ^ nat q)"
    by (simp add: SubsidyAt_def q_def HalvingInterval_def MaxHalvings_def InitialRewardUnits_def UnitsPerCoin_def Let_def)
  moreover have "(5000000000::int) div 2 ^ nat q \<le> 5000000000 div 1" by (rule zdiv_mono2) simp_all
  moreover have "0 \<le> (5000000000::int) div 2 ^ nat q" by (simp add: pos_imp_zdiv_nonneg_iff)
  ultimately show ?thesis by (simp add: MoneyRange_simps)
qed

text \<open>The journalled implementation succeeds exactly on the blocks the specification connects, with
  the specified result.\<close>

lemma validateAndApplyLocked_iff:
  "validateAndApplyLocked K p u b h = (u', Inr ()) \<longleftrightarrow> (\<exists>txs. blk_Txs b = map Some txs \<and> connects K p h u txs u')"
  (is "?run \<longleftrightarrow> ?spec")
proof
  assume ?run
  then obtain fees st cb where txs: "apply_txs K p h (drop 1 (blk_Txs b)) 0 (u, []) = (Inr fees, st)"
    and cb: "coinbase_allowance (blk_Txs b) h fees = Inr cb" and u': "u' = spendAndCreate K (fst st) cb h True"
    by (auto simp: validateAndApplyLocked_def Let_def fst_spend split: sum.splits prod.splits)
  obtain rest where "drop 1 (blk_Txs b) = map Some rest" "spends K p h u rest fees (fst st)"
    using apply_txs_Inr [of K p h "drop 1 (blk_Txs b)" 0 "(u, [])" fees "fst st" "snd st"] txs by auto
  then show ?spec
    using cb u' by (intro exI [of _ "cb # rest"])
      (auto simp: coinbase_allowance_Inr_iff connects_def MoneyRange_def)
next
  assume ?spec
  then obtain cb rest fees u1 where b: "blk_Txs b = map Some (cb # rest)" and sp: "spends K p h u rest fees u1"
    and le: "fees \<le> MaxMoneyUnits" "SubsidyAt h + fees \<le> MaxMoneyUnits" "good_outs (tx_Outs cb)"
      "outs_total (tx_Outs cb) \<le> SubsidyAt h + fees" and u': "u' = spendAndCreate K u1 cb h True"
    by (auto simp: connects_def neq_Nil_conv)
  have "0 \<le> fees" using sp by (rule spends_fees_nonneg)
  then have "coinbase_allowance (blk_Txs b) h fees = Inr cb"
    using b le SubsidyAt_MoneyRange [of h] by (auto simp: coinbase_allowance_Inr_iff MoneyRange_def)
  moreover obtain undo where "apply_txs K p h (map Some rest) 0 (u, []) = (Inr fees, u1, undo)"
    using apply_txs_ok [of K p h "(u, [])" rest fees u1 0] sp le by auto
  ultimately show ?run using b u' by (simp add: validateAndApplyLocked_def Let_def fst_spend)
qed

section \<open>Accounting\<close>

definition utxo_total :: "utxo_map \<Rightarrow> int" where
  "utxo_total u = (\<Sum>op\<in>dom u. ue_Value (the (u op)))"

definition wf_utxo :: "utxo_map \<Rightarrow> bool" where
  "wf_utxo u \<longleftrightarrow> finite (dom u) \<and> (\<forall>e\<in>ran u. 0 < ue_Value e \<and> ue_Value e \<le> MaxMoneyUnits)"

lemma wf_utxo_empty [simp]: "wf_utxo Map.empty"
  by (simp add: wf_utxo_def)

lemma utxo_total_empty [simp]: "utxo_total Map.empty = 0"
  by (simp add: utxo_total_def)

lemma wf_utxo_delete: "wf_utxo u \<Longrightarrow> wf_utxo (u(op := None))"
  by (auto simp: wf_utxo_def ran_def)

lemma wf_utxo_update: "wf_utxo u \<Longrightarrow> 0 < ue_Value e \<Longrightarrow> ue_Value e \<le> MaxMoneyUnits \<Longrightarrow> wf_utxo (u(op \<mapsto> e))"
  by (auto simp: wf_utxo_def ran_def)

lemma utxo_total_delete:
  assumes "finite (dom u)" and "u op = Some e"
  shows "utxo_total (u(op := None)) = utxo_total u - ue_Value e"
proof -
  have "utxo_total (u(op := None)) = (\<Sum>x\<in>dom u - {op}. ue_Value (the (u x)))"
    unfolding utxo_total_def by (rule sum.cong) auto
  then show ?thesis
    using assms sum.remove [of "dom u" op "\<lambda>x. ue_Value (the (u x))"] by (simp add: utxo_total_def domI)
qed

lemma utxo_total_insert:
  assumes "finite (dom u)" and "u op = None"
  shows "utxo_total (u(op \<mapsto> e)) = utxo_total u + ue_Value e"
  using utxo_total_delete [of "u(op \<mapsto> e)" op e] assms by (simp add: fun_upd_idem)

lemma utxo_total_update_le:
  assumes "wf_utxo u"
  shows "utxo_total (u(op \<mapsto> e)) \<le> utxo_total u + ue_Value e"
proof (cases "u op")
  case None
  then show ?thesis using assms utxo_total_insert [of u op e] by (simp add: wf_utxo_def)
next
  case (Some e0)
  have "0 < ue_Value e0" using assms Some by (auto simp: wf_utxo_def ran_def)
  moreover have "utxo_total (u(op := None)) = utxo_total u - ue_Value e0"
    using assms Some by (intro utxo_total_delete) (simp_all add: wf_utxo_def)
  moreover have "utxo_total ((u(op := None))(op \<mapsto> e)) = utxo_total (u(op := None)) + ue_Value e"
    using assms by (intro utxo_total_insert) (simp_all add: wf_utxo_def)
  ultimately show ?thesis by simp
qed

lemma create_outputs_total:
  assumes "wf_utxo u" and "\<forall>o'\<in>set outs. 0 < out_Value o' \<and> out_Value o' \<le> MaxMoneyUnits"
  shows "wf_utxo (create_outputs txid h cb i outs u)
    \<and> utxo_total (create_outputs txid h cb i outs u) \<le> utxo_total u + outs_total outs"
  using assms
proof (induction outs arbitrary: i u)
  case Nil
  then show ?case by simp
next
  case (Cons o' outs)
  define v where "v = u(OutPoint txid (of_nat i) \<mapsto> new_entry h cb o')"
  have "wf_utxo v" unfolding v_def using Cons.prems by (intro wf_utxo_update) (simp_all add: new_entry_def)
  moreover have "utxo_total v \<le> utxo_total u + out_Value o'"
    unfolding v_def
    using utxo_total_update_le [OF Cons.prems(1), of "OutPoint txid (of_nat i)" "new_entry h cb o'"]
    by (simp add: new_entry_def)
  ultimately show ?case using Cons.IH [of v "Suc i"] Cons.prems(2) by (simp flip: v_def)
qed

lemma good_outs_each: "good_outs outs \<Longrightarrow> \<forall>o'\<in>set outs. 0 < out_Value o' \<and> out_Value o' \<le> MaxMoneyUnits"
proof (induction outs)
  case Nil
  then show ?case by simp
next
  case (Cons o' outs)
  then show ?case
    using outs_total_nonneg [of outs] by (auto simp: good_outs_def)
qed

definition delete_inputs :: "TxIn list \<Rightarrow> utxo_map \<Rightarrow> utxo_map" where
  "delete_inputs ins u = fold (\<lambda>i u. u(in_Prev i := None)) ins u"

lemma delete_inputs_eq: "delete_inputs ins u = (\<lambda>op. if op \<in> in_Prev ` set ins then None else u op)"
  unfolding delete_inputs_def by (induction ins arbitrary: u) (auto simp: fun_eq_iff)

lemma delete_inputs_total:
  assumes "wf_utxo u" and "distinct (map in_Prev ins)" and "in_Prev ` set ins \<subseteq> dom u"
  shows "wf_utxo (delete_inputs ins u) \<and> utxo_total (delete_inputs ins u) = utxo_total u - ins_total u ins"
  using assms
proof (induction ins arbitrary: u)
  case Nil
  then show ?case by (simp add: delete_inputs_def)
next
  case (Cons i ins)
  define v where "v = u(in_Prev i := None)"
  obtain e where e: "u (in_Prev i) = Some e" using Cons.prems(3) by auto
  have other: "\<forall>x\<in>set ins. in_Prev x \<noteq> in_Prev i" using Cons.prems(2) by simp (metis image_eqI)
  have same: "ins_total v ins = ins_total u ins"
    unfolding ins_total_def using other
    by (intro arg_cong [of _ _ sum_list] map_cong) (simp_all add: entry_of_def v_def)
  have "wf_utxo v" unfolding v_def using Cons.prems(1) by (rule wf_utxo_delete)
  moreover have "in_Prev ` set ins \<subseteq> dom v" using Cons.prems(3) other by (auto simp: v_def)
  ultimately have "wf_utxo (delete_inputs ins v) \<and> utxo_total (delete_inputs ins v) = utxo_total v - ins_total v ins"
    using Cons.prems(2) by (intro Cons.IH) simp_all
  moreover have "utxo_total v = utxo_total u - ue_Value e"
    unfolding v_def using Cons.prems(1) e by (intro utxo_total_delete) (auto simp: wf_utxo_def)
  ultimately show ?case using same e by (simp add: delete_inputs_def entry_of_def flip: v_def)
qed

lemma spendAndCreate_spend:
  "spendAndCreate K u tx h False = create_outputs (tx_ID K tx) h False 0 (tx_Outs tx) (delete_inputs (tx_Ins tx) u)"
  "spendAndCreate K u tx h True = create_outputs (tx_ID K tx) h True 0 (tx_Outs tx) u"
  by (simp_all add: spendAndCreate_def delete_inputs_def)

lemma valid_spend_total:
  assumes "valid_spend K p u tx h fee" and "wf_utxo u"
  shows "wf_utxo (spendAndCreate K u tx h False) \<and> utxo_total (spendAndCreate K u tx h False) + fee \<le> utxo_total u"
proof -
  have "in_Prev ` set (tx_Ins tx) \<subseteq> dom u" "distinct (map in_Prev (tx_Ins tx))"
    using assms(1) by (auto simp: valid_spend_def authorised_def)
  then have "wf_utxo (delete_inputs (tx_Ins tx) u)"
    "utxo_total (delete_inputs (tx_Ins tx) u) = utxo_total u - ins_total u (tx_Ins tx)"
    using delete_inputs_total [OF assms(2)] by blast+
  moreover have "ins_total u (tx_Ins tx) = outs_total (tx_Outs tx) + fee" "good_outs (tx_Outs tx)"
    using assms(1) by (simp_all add: valid_spend_def)
  ultimately show ?thesis
    using create_outputs_total [of "delete_inputs (tx_Ins tx) u" "tx_Outs tx" "tx_ID K tx" h False 0] good_outs_each
    by (simp add: spendAndCreate_spend)
qed

lemma spends_total:
  "spends K p h u txs fees u' \<Longrightarrow> wf_utxo u \<Longrightarrow> wf_utxo u' \<and> utxo_total u' + fees \<le> utxo_total u"
proof (induction rule: spends.induct)
  case (spends_Nil u)
  then show ?case by simp
next
  case (spends_Cons u tx fee txs fees u')
  then show ?case using valid_spend_total [of K p u tx h fee] by simp
qed

lemma connects_total:
  assumes "connects K p h u txs u'" and "wf_utxo u"
  shows "wf_utxo u' \<and> utxo_total u' \<le> utxo_total u + SubsidyAt h"
proof -
  obtain fees u1 where sp: "spends K p h u (tl txs) fees u1" and good: "good_outs (tx_Outs (List.hd txs))"
    and le: "outs_total (tx_Outs (List.hd txs)) \<le> SubsidyAt h + fees"
    and u': "u' = spendAndCreate K u1 (List.hd txs) h True"
    using assms(1) by (auto simp: connects_def)
  have "wf_utxo u1" "utxo_total u1 + fees \<le> utxo_total u" using spends_total [OF sp assms(2)] by simp_all
  then show ?thesis
    using create_outputs_total [of u1 "tx_Outs (List.hd txs)" "tx_ID K (List.hd txs)" h True 0]
      good_outs_each [OF good] le
    by (simp add: u' spendAndCreate_spend)
qed

section \<open>Spent outputs\<close>

lemma create_outputs_other: "op_TxID op \<noteq> txid \<Longrightarrow> create_outputs txid h cb i outs u op = u op"
  by (induction outs arbitrary: i u) auto

lemma spent_is_gone:
  assumes "i \<in> set (tx_Ins tx)" and "op_TxID (in_Prev i) \<noteq> tx_ID K tx"
  shows "spendAndCreate K u tx h False (in_Prev i) = None"
  using assms by (simp add: spendAndCreate_spend create_outputs_other delete_inputs_eq)

section \<open>Properties\<close>

text \<open>C38: Transaction validation accepts exactly the valid spends and returns their fee: existing,
  distinct, mature inputs, each signed by the owner of the output it spends, positive outputs, every
  amount and sum in range, and inputs equal to outputs plus a non-negative fee.\<close>

theorem tx_validation_correct: "checkTxLocked K p u tx height = Inr fee \<longleftrightarrow> valid_spend K p u tx height fee"
  by (rule checkTxLocked_iff)

text \<open>Once a transaction's inputs are removed and its outputs added, no later transaction that spends
  one of the same outpoints passes validation (an outpoint of the transaction itself aside).\<close>

theorem no_double_spend:
  assumes "i \<in> set (tx_Ins tx)" and "op_TxID (in_Prev i) \<noteq> tx_ID K tx"
    and "j \<in> set (tx_Ins tx')" and "in_Prev j = in_Prev i"
  shows "checkTxLocked K p (spendAndCreate K u tx h False) tx' h' \<noteq> Inr fee"
proof -
  have "in_Prev j \<notin> dom (spendAndCreate K u tx h False)"
    using spent_is_gone [OF assms(1,2)] assms(4) by auto
  then show ?thesis using assms(3) by (auto simp: checkTxLocked_iff valid_spend_def authorised_def)
qed

theorem no_double_spend_witness:
  "checkTxLocked (sample_crypto\<lparr>sha256 := \<lambda>_. 0\<rparr>) canonicalRegTestParams (spendAndCreate (sample_crypto\<lparr>sha256 := \<lambda>_. 0\<rparr>)
     [OutPoint 7 1 \<mapsto> \<lparr>ue_Value = 9000, ue_PKH = 0, ue_Height = 3, ue_Coinbase = False\<rparr>] sample_tx 5 False)
     (sample_tx\<lparr>tx_Version := 2\<rparr>) 6 \<noteq> Inr 4000"
  by (rule no_double_spend [of "tx_Ins sample_tx ! 0" _ _ "tx_Ins sample_tx ! 0"])
    (simp_all add: sample_tx_def tx_ID_def SHA256d_def)

text \<open>The context-free block check passes exactly the blocks whose transactions are all present, the
  first and only the first a coinbase, with distinct ids, no outpoint spent twice in the block, and
  positive outputs summing within the money range.\<close>

theorem block_sanity_correct:
  "checkBlockSanity K b = Inr () \<longleftrightarrow> (\<exists>txs. blk_Txs b = map Some txs \<and> sane_txs K txs)"
  by (rule checkBlockSanity_iff)

text \<open>C39: Applying a block through the undo journal succeeds exactly when every transaction is a valid
  spend in the set its predecessors leave and the coinbase claims at most subsidy plus fees, and the
  new set is the one the specification gives.\<close>

theorem block_application_refines:
  "validateAndApplyLocked K p u b h = (u', Inr ()) \<longleftrightarrow> (\<exists>txs. blk_Txs b = map Some txs \<and> connects K p h u txs u')"
  by (rule validateAndApplyLocked_iff)

text \<open>A block that fails part way is rolled back: the set of unspent outputs is the one before the
  block, on every error path.\<close>

theorem failed_block_rolls_back:
  assumes "validateAndApplyLocked K p u b h = (u', Inl e)" and "\<not> is_panic e"
  shows "u' = u"
  using assms by (rule validateAndApply_restores)

definition greedy_block :: Block where
  "greedy_block = sample_block\<lparr>blk_Txs := [Some (NewCoinbase 1 6000000000 0 [])]\<rparr>"

lemma SubsidyAt_1: "SubsidyAt 1 = 5000000000"
  by (simp add: SubsidyAt_def HalvingInterval_def MaxHalvings_def InitialRewardUnits_def UnitsPerCoin_def
      signed_divide_int_def)

theorem failed_block_rolls_back_witness:
  "\<exists>u'. validateAndApplyLocked sample_crypto canonicalRegTestParams Map.empty greedy_block 1 =
     (u', Inl (Err ''coinbase pays more than subsidy plus fees'')) \<and> u' = Map.empty"
proof -
  have "sum_outputs ms (tx_Outs (NewCoinbase 1 6000000000 0 [])) = Inr 6000000000" for ms
    by (simp add: sum_outputs_Inr_iff NewCoinbase_def good_outs_def MaxMoneyUnits_eq)
  moreover have "addMoney ''subsidy plus fees'' (SubsidyAt 1) 0 = Inr 5000000000"
    by (simp add: addMoney_Inr_iff SubsidyAt_1 MoneyRange_simps)
  ultimately have "snd (validateAndApplyLocked sample_crypto canonicalRegTestParams Map.empty greedy_block 1) =
      Inl (Err ''coinbase pays more than subsidy plus fees'')"
    by (simp add: validateAndApplyLocked_def coinbase_allowance_def greedy_block_def)
  then show ?thesis
    using failed_block_rolls_back [of sample_crypto canonicalRegTestParams Map.empty greedy_block 1]
    by (metis is_panic.simps(2) prod.collapse)
qed

text \<open>Applying a block keeps every unspent output a positive amount in range and raises the total of
  all unspent outputs by at most the subsidy of its height.\<close>

theorem block_issues_at_most_subsidy:
  assumes "validateAndApplyLocked K p u b h = (u', Inr ())" and "wf_utxo u"
  shows "wf_utxo u' \<and> utxo_total u' \<le> utxo_total u + SubsidyAt h"
  using assms connects_total by (auto simp: validateAndApplyLocked_iff)

theorem block_issues_at_most_subsidy_witness:
  "\<exists>u'. validateAndApplyLocked sample_crypto canonicalRegTestParams Map.empty
      (sample_block\<lparr>blk_Txs := [Some (NewCoinbase 1 4000000000 0 [])]\<rparr>) 1 = (u', Inr ()) \<and> utxo_total u' \<le> 5000000000"
proof -
  let ?cb = "NewCoinbase 1 4000000000 0 []" and ?b = "sample_block\<lparr>blk_Txs := [Some (NewCoinbase 1 4000000000 0 [])]\<rparr>"
  have "connects sample_crypto canonicalRegTestParams 1 Map.empty [?cb] (spendAndCreate sample_crypto Map.empty ?cb 1 True)"
    by (simp add: connects_def SubsidyAt_1 NewCoinbase_def good_outs_def MaxMoneyUnits_eq)
  then have "validateAndApplyLocked sample_crypto canonicalRegTestParams Map.empty ?b 1 =
      (spendAndCreate sample_crypto Map.empty ?cb 1 True, Inr ())"
    unfolding validateAndApplyLocked_iff by (intro exI [of _ "[?cb]"]) simp
  then show ?thesis using block_issues_at_most_subsidy [OF _ wf_utxo_empty] SubsidyAt_1 by fastforce
qed

end
