(* ===== verification/Branch.thy ===== *)
theory Branch
  imports Chain Supply Difficulty "HOL-Library.Multiset"
begin

text \<open>
  Branches of the block index and what the consensus rules say about them. A branch is the list
  of entries from genesis to a block; the lemmas show that the walks of \<^verbatim>\<open>core/chain.go\<close> through
  the index (\<open>ancestorAt\<close>, \<open>branchTo\<close>, the median-time window) return and compute the
  corresponding element, map and window of that list, and that replaying a branch is the
  successive application of its blocks to the empty ledger.
\<close>

section \<open>The difficulty rule looks only at ancestors\<close>

definition sound_params :: "Params \<Rightarrow> bool" where
  "sound_params p \<longleftrightarrow> validateConsensusParams p = Inr () \<and> 0 < RetargetInterval p"

lemma asert_height: "sound_params p \<Longrightarrow> asertActive p h \<Longrightarrow> 2 \<le> ASERTActivationHeight p \<and> 2 \<le> h"
  by (auto simp: sound_params_def asertActive_def validateConsensusParams_def failIf_Inr_iff split: if_splits)

lemma retarget_height:
  assumes "0 < r" and "0 < h" and "h smod r = (0::int)"
  shows "r \<le> h"
proof -
  have "h mod r = 0" using assms by (simp add: signed_modulo_int_def split: if_splits)
  then show ?thesis using assms by (metis mod_pos_pos_trivial not_le order.strict_implies_order order_less_irrefl)
qed

lemma NextBits_cong:
  assumes "sound_params p" and "0 < height"
    and "\<And>h. 0 \<le> h \<Longrightarrow> h < height \<Longrightarrow> bitsAt h = bitsAt' h"
    and "\<And>h. 0 \<le> h \<Longrightarrow> h < height \<Longrightarrow> timeAt h = timeAt' h"
  shows "NextBits p height bitsAt timeAt = NextBits p height bitsAt' timeAt'"
proof (cases "asertActive p height")
  case True
  then have "2 \<le> ASERTActivationHeight p" "ASERTActivationHeight p \<le> height"
    using assms(1) asert_height by (auto simp: asertActive_def)
  then show ?thesis using assms True by (simp add: NextBits_def Let_def)
next
  case False
  have "height smod RetargetInterval p = 0 \<Longrightarrow> RetargetInterval p \<le> height"
    using assms retarget_height by (simp add: sound_params_def)
  then show ?thesis using assms False by (auto simp: NextBits_def Let_def sound_params_def)
qed

lemma NextBits_returns:
  assumes "sound_params p" and "0 < height"
    and "\<And>h. 0 \<le> h \<Longrightarrow> h < height \<Longrightarrow> \<exists>b. bitsAt h = Inr b"
    and "\<And>h. 0 \<le> h \<Longrightarrow> h < height \<Longrightarrow> \<exists>t. timeAt h = Inr t"
  shows "\<exists>b. NextBits p height bitsAt timeAt = Inr b"
proof -
  define B where "B = (\<lambda>h. Inr (projr (bitsAt h)) :: uint32 res)"
  define T where "T = (\<lambda>h. Inr (projr (timeAt h)) :: int res)"
  have "NextBits p height bitsAt timeAt = NextBits p height B T"
  proof (rule NextBits_cong [OF assms(1,2)])
    show "bitsAt h = B h" if "0 \<le> h" "h < height" for h
      using assms(3) [OF that] by (auto simp: B_def)
    show "timeAt h = T h" if "0 \<le> h" "h < height" for h
      using assms(4) [OF that] by (auto simp: T_def)
  qed
  moreover have "\<exists>b. NextBits p height B T = Inr b"
    using assms(1) by (auto simp: NextBits_def Let_def B_def T_def sound_params_def)
  ultimately show ?thesis by simp
qed

section \<open>Branches\<close>

definition bi_time :: "blockIndex \<Rightarrow> int" where
  "bi_time bi = hdr_Time (bi_header bi)"

definition block_work :: "Block \<Rightarrow> int" where
  "block_work b = WorkFromTarget (CompactToTarget (hdr_Bits (blk_Header b)))"

definition entry_at :: "blockIndex list \<Rightarrow> int \<Rightarrow> blockIndex res" where
  "entry_at bs h = (if h < 0 \<or> h \<ge> int (length bs) then Inl (Panic ''index out of range'') else Inr (bs ! nat h))"

text \<open>The difficulty bits required of the block after a branch.\<close>

definition required_bits :: "Params \<Rightarrow> blockIndex list \<Rightarrow> uint32 res" where
  "required_bits p bs =
     NextBits p (int (length bs))
       (\<lambda>h. bindE (entry_at bs h) (\<lambda>bi. Inr (hdr_Bits (bi_header bi))))
       (\<lambda>h. bindE (entry_at bs h) (\<lambda>bi. Inr (hdr_Time (bi_header bi))))"

definition median_past :: "nat \<Rightarrow> int list \<Rightarrow> int" where
  "median_past n ts = (let w = drop (length ts - n) ts in sort w ! (length w div 2))"

text \<open>The part of the timestamp rule that does not depend on the clock.\<close>

definition timestamp_rule :: "Params \<Rightarrow> int list \<Rightarrow> int \<Rightarrow> bool" where
  "timestamp_rule p ts t \<longleftrightarrow>
     (if asertActive p (int (length ts)) then median_past (nat (ASERTMedianTimeBlocks p)) ts < t
      else wrap64 (last ts - FutureDrift p) \<le> t)"

text \<open>The rules a block obeys after the branch \<open>bs\<close>, whatever the clock said.\<close>

definition block_rules :: "crypto \<Rightarrow> Params \<Rightarrow> blockIndex list \<Rightarrow> Block \<Rightarrow> bool" where
  "block_rules K p bs b \<longleftrightarrow>
     checkBlockSanity K b = Inr () \<and>
     (\<exists>raw. blk_Bytes b = Inr raw \<and> length raw \<le> MaxBlockBytes) \<and>
     timestamp_rule p (map bi_time bs) (hdr_Time (blk_Header b)) \<and>
     required_bits p bs = Inr (hdr_Bits (blk_Header b)) \<and>
     MerkleRoot K (blk_Txs b) = Inr (hdr_MerkleRoot (blk_Header b))"

definition follows :: "crypto \<Rightarrow> Params \<Rightarrow> blockIndex list \<Rightarrow> blockIndex \<Rightarrow> bool" where
  "follows K p bs bi \<longleftrightarrow>
     bi_height bi = int (length bs) \<and> bi_id bi = hdr_ID K (bi_header bi) \<and>
     bi_cumWork bi = bi_cumWork (last bs) + block_work (bi_block bi) \<and>
     block_rules K p bs (bi_block bi)"

inductive branch :: "crypto \<Rightarrow> Params \<Rightarrow> index_map \<Rightarrow> blockIndex \<Rightarrow> blockIndex list \<Rightarrow> bool"
  for K p idx where
  branch_root: "branch K p idx (genesis_index K p) [genesis_index K p]"
| branch_extend: "branch K p idx parent bs \<Longrightarrow> idx (bi_prev bi) = Some parent \<Longrightarrow> follows K p bs bi \<Longrightarrow>
     branch K p idx bi (bs @ [bi])"

inductive_cases branchE: "branch K p idx bi bs"

lemma genesis_index_simps [simp]:
  "bi_height (genesis_index K p) = 0" "bi_block (genesis_index K p) = GenesisBlock K p"
  "bi_id (genesis_index K p) = hdr_ID K (blk_Header (GenesisBlock K p))"
  "bi_cumWork (genesis_index K p) = block_work (GenesisBlock K p)"
  by (simp_all add: genesis_index_def Let_def block_work_def)

lemma branch_shape: "branch K p idx bi bs \<Longrightarrow> bs \<noteq> [] \<and> last bs = bi \<and> bi_height bi = int (length bs) - 1 \<and> bs ! 0 = genesis_index K p"
  by (induction rule: branch.induct) (auto simp: follows_def nth_append)

lemma branch_heights: "branch K p idx bi bs \<Longrightarrow> i < length bs \<Longrightarrow> bi_height (bs ! i) = int i"
  by (induction arbitrary: i rule: branch.induct) (auto simp: follows_def nth_append less_Suc_eq)

lemma branch_entry_ids: "branch K p idx bi bs \<Longrightarrow> x \<in> set bs \<Longrightarrow> bi_id x = hdr_ID K (bi_header x)"
  by (induction rule: branch.induct) (auto simp: follows_def)

lemma branch_mono:
  assumes "branch K p idx bi bs" and "idx \<subseteq>\<^sub>m idx'"
  shows "branch K p idx' bi bs"
  using assms
proof (induction rule: branch.induct)
  case branch_root
  show ?case by (rule branch.branch_root)
next
  case (branch_extend parent bs bi)
  have "idx' (bi_prev bi) = Some parent"
    using branch_extend.hyps(2) branch_extend.prems by (auto simp: map_le_def dom_def)
  then show ?case using branch_extend by (blast intro: branch.branch_extend)
qed

text \<open>A block has one branch: the parent links determine it.\<close>

lemma branch_unique: "branch K p idx bi bs \<Longrightarrow> branch K p idx bi bs' \<Longrightarrow> bs = bs'"
proof (induction arbitrary: bs' rule: branch.induct)
  case branch_root
  then show ?case by (cases rule: branch.cases) (auto simp: follows_def dest: branch_shape)
next
  case (branch_extend parent bs bi)
  from branch_extend.prems show ?case
  proof (cases rule: branch.cases)
    case branch_root
    then show ?thesis using branch_extend.hyps branch_shape [of K p idx parent bs] by (auto simp: follows_def)
  next
    case (branch_extend parent' bs2)
    then show ?thesis using branch_extend.IH branch_extend.hyps \<open>idx (bi_prev bi) = Some parent\<close>
      using \<open>\<And>bs'. branch K p idx parent bs' \<Longrightarrow> bs = bs'\<close> by simp
  qed
qed

text \<open>Every entry of a branch but its last is in the index under the id its child names.\<close>

lemma branch_link:
  "branch K p idx bi bs \<Longrightarrow> Suc i < length bs \<Longrightarrow> idx (bi_prev (bs ! Suc i)) = Some (bs ! i)"
proof (induction arbitrary: i rule: branch.induct)
  case branch_root
  then show ?case by simp
next
  case (branch_extend parent bs bi)
  show ?case
  proof (cases "Suc i < length bs")
    case True
    then show ?thesis using branch_extend.IH by (simp add: nth_append)
  next
    case False
    then have i: "Suc i = length bs" using branch_extend.prems by simp
    moreover have "bs ! i = parent"
      using branch_shape [OF branch_extend.hyps(1)] i by (metis diff_Suc_1 last_conv_nth)
    ultimately show ?thesis using branch_extend.hyps(2) by (simp add: nth_append)
  qed
qed

lemma branch_nth_follows:
  "branch K p idx bi bs \<Longrightarrow> 0 < i \<Longrightarrow> i < length bs \<Longrightarrow> follows K p (take i bs) (bs ! i)"
proof (induction arbitrary: i rule: branch.induct)
  case branch_root
  then show ?case by simp
next
  case (branch_extend parent bs bi)
  then show ?case by (cases "i < length bs") (auto simp: nth_append less_Suc_eq)
qed


section \<open>The walks through the index\<close>

lemma ancestor_loop_branch:
  "branch K p idx bi bs \<Longrightarrow> 0 \<le> t \<Longrightarrow> t \<le> bi_height bi \<Longrightarrow>
     ancestor_loop idx t (Some bi) = Some (Some (bs ! nat t))"
proof (induction rule: branch.induct)
  case branch_root
  then show ?case by (simp add: ancestor_loop.simps)
next
  case (branch_extend parent bs bi)
  have len: "bi_height bi = int (length bs)" "bi_height parent = int (length bs) - 1"
    using branch_extend.hyps branch_shape by (auto simp: follows_def)
  show ?case
  proof (cases "t < bi_height bi")
    case True
    then have "ancestor_loop idx t (Some parent) = Some (Some (bs ! nat t))"
      using branch_extend.IH branch_extend.prems len by simp
    moreover have "nat t < length bs" using True branch_extend.prems len by linarith
    ultimately show ?thesis
      using True branch_extend.hyps(2) by (simp add: ancestor_loop.simps [of _ _ "Some bi"] nth_append)
  next
    case False
    then have "nat t = length bs" using branch_extend.prems len by simp
    then show ?thesis using False by (simp add: ancestor_loop.simps nth_append)
  qed
qed

lemma ancestorAt_branch:
  assumes "branch K p idx bi bs" and "0 \<le> t" and "t < int (length bs)"
  shows "ancestorAt idx bi t = Inr (bs ! nat t)"
proof -
  have "t \<le> bi_height bi" using assms branch_shape [OF assms(1)] by simp
  moreover have "bi_height (bs ! nat t) = t" using assms by (simp add: branch_heights)
  ultimately show ?thesis using ancestor_loop_branch [OF assms(1,2)] by (simp add: ancestorAt_def)
qed

lemma ancestor_bits:
  assumes "sound_params p" and "branch K p idx bi bs"
  shows "NextBits p (int (length bs))
       (\<lambda>h. bindE (ancestorAt idx bi h) (\<lambda>bi. Inr (hdr_Bits (bi_header bi))))
       (\<lambda>h. bindE (ancestorAt idx bi h) (\<lambda>bi. Inr (hdr_Time (bi_header bi)))) = required_bits p bs"
proof -
  have "0 < int (length bs)" using branch_shape [OF assms(2)] by simp
  then show ?thesis
    unfolding required_bits_def
    by (rule NextBits_cong [OF assms(1)]) (simp_all add: ancestorAt_branch [OF assms(2)] entry_at_def)
qed

lemma required_bits_returns:
  assumes "sound_params p" and "bs \<noteq> []"
  shows "\<exists>b. required_bits p bs = Inr b"
  unfolding required_bits_def
  using assms by (intro NextBits_returns) (auto simp: entry_at_def)

lemma collect_times_branch:
  "branch K p idx bi bs \<Longrightarrow> collect_times idx n (Some bi) = rev (drop (length bs - n) (map bi_time bs))"
proof (induction arbitrary: n rule: branch.induct)
  case branch_root
  then show ?case by (cases n) (simp_all add: bi_time_def)
next
  case (branch_extend parent bs bi)
  have "bi_height bi \<noteq> 0" using branch_extend.hyps branch_shape by (auto simp: follows_def)
  then show ?case
    using branch_extend.IH branch_extend.hyps(2)
    by (cases n) (auto simp: bi_time_def Suc_diff_le)
qed

lemma sort_rev [simp]: "sort (rev xs) = sort (xs :: int list)"
  by (rule properties_for_sort) simp_all

lemma checkBlockTimestamp_branch:
  assumes "sound_params (ch_params c)" and "branch K (ch_params c) (ch_index c) parent bs"
    and "checkBlockTimestamp c parent (bi_height parent + 1) t now = Inr ()"
  shows "timestamp_rule (ch_params c) (map bi_time bs) t"
proof -
  let ?p = "ch_params c" and ?w = "drop (length bs - nat (ASERTMedianTimeBlocks (ch_params c))) (map bi_time bs)"
  have shape: "bs \<noteq> []" "last bs = parent" "bi_height parent + 1 = int (length bs)"
    using branch_shape [OF assms(2)] by auto
  show ?thesis
  proof (cases "asertActive ?p (int (length bs))")
    case True
    then have "t > sort (rev ?w) ! (length ?w div 2)"
      using assms(3) shape collect_times_branch [OF assms(2)]
      by (auto simp: checkBlockTimestamp_def Let_def failIf_Inr_iff simp del: sort_rev)
    then show ?thesis using True by (simp add: timestamp_rule_def median_past_def Let_def)
  next
    case False
    then show ?thesis
      using assms(3) shape
      by (auto simp: checkBlockTimestamp_def Let_def failIf_Inr_iff bindE_Inr_iff timestamp_rule_def last_map bi_time_def)
  qed
qed

text \<open>The block is judged against the clock as well when it arrives.\<close>

lemma checkBlockTimestamp_clock:
  assumes "checkBlockTimestamp c parent h t now = Inr ()"
  shows "t \<le> wrap64 (now + (if asertActive (ch_params c) h then ASERTFutureDrift (ch_params c) else FutureDrift (ch_params c)))"
  using assms
  by (auto simp: checkBlockTimestamp_def CheckTimestamp_def Let_def failIf_Inr_iff bindE_Inr_iff split: if_splits)

section \<open>Replay\<close>

text \<open>Applying blocks in order from a ledger; \<open>connect\<close> is the effect of one block.\<close>

fun replay_from :: "('u \<Rightarrow> 'b \<Rightarrow> nat \<Rightarrow> 'u option) \<Rightarrow> nat \<Rightarrow> 'u \<Rightarrow> 'b list \<Rightarrow> 'u option" where
  "replay_from connect h u [] = Some u"
| "replay_from connect h u (b # bs) =
     (case connect u b h of None \<Rightarrow> None | Some u' \<Rightarrow> replay_from connect (Suc h) u' bs)"

lemma replay_from_append:
  "replay_from connect h u (xs @ ys) =
     (case replay_from connect h u xs of None \<Rightarrow> None | Some u' \<Rightarrow> replay_from connect (h + length xs) u' ys)"
  by (induction xs arbitrary: h u) (auto split: option.splits)

definition connectBlock :: "crypto \<Rightarrow> Params \<Rightarrow> utxo_map \<Rightarrow> Block \<Rightarrow> nat \<Rightarrow> utxo_map option" where
  "connectBlock K p u b h =
     (if checkBlockSanity K b = Inr ()
      then case validateAndApplyLocked K p u b (int h) of (u', Inr _) \<Rightarrow> Some u' | (_, Inl _) \<Rightarrow> None
      else None)"

definition ledger_of :: "crypto \<Rightarrow> Params \<Rightarrow> Block list \<Rightarrow> utxo_map option" where
  "ledger_of K p blocks = replay_from (connectBlock K p) 0 Map.empty blocks"

text \<open>The interface a ledger offers to a chain: each block keeps the ledger well formed and adds at
  most that height's issue to the supply. The chain's bound on the supply follows.\<close>

locale ledger =
  fixes connect :: "'u \<Rightarrow> 'b \<Rightarrow> nat \<Rightarrow> 'u option"
    and good :: "'u \<Rightarrow> bool"
    and amount :: "'u \<Rightarrow> int"
    and issue :: "nat \<Rightarrow> int"
  assumes connect_good: "good u \<Longrightarrow> connect u b h = Some u' \<Longrightarrow> good u'"
    and connect_supply: "good u \<Longrightarrow> connect u b h = Some u' \<Longrightarrow> amount u' \<le> amount u + issue h"
begin

lemma replay_good: "good u \<Longrightarrow> replay_from connect h u bs = Some u' \<Longrightarrow> good u'"
  by (induction bs arbitrary: h u) (auto intro: connect_good split: option.splits)

lemma replay_supply:
  "good u \<Longrightarrow> replay_from connect h u bs = Some u' \<Longrightarrow> amount u' \<le> amount u + (\<Sum>i<length bs. issue (h + i))"
proof (induction bs arbitrary: h u)
  case Nil
  then show ?case by simp
next
  case (Cons b bs)
  from Cons.prems obtain u1 where u1: "connect u b h = Some u1" and rest: "replay_from connect (Suc h) u1 bs = Some u'"
    by (auto split: option.splits)
  have "amount u' \<le> amount u1 + (\<Sum>i<length bs. issue (Suc h + i))"
    using Cons.IH connect_good [OF Cons.prems(1) u1] rest by blast
  moreover have "amount u1 \<le> amount u + issue h" using connect_supply Cons.prems(1) u1 by blast
  moreover have "(\<Sum>i<Suc (length bs). issue (h + i)) = issue h + (\<Sum>i<length bs. issue (Suc h + i))"
    by (subst sum.lessThan_Suc_shift) simp
  ultimately show ?case by simp
qed

end

lemma connectBlock_Some:
  "connectBlock K p u b h = Some u' \<longleftrightarrow>
     checkBlockSanity K b = Inr () \<and> validateAndApplyLocked K p u b (int h) = (u', Inr ())"
  by (auto simp: connectBlock_def split: prod.splits sum.splits)

interpretation utxo_ledger: ledger "connectBlock K p" wf_utxo utxo_total "\<lambda>h. SubsidyAt (int h)"
proof
  fix u b h u'
  assume "wf_utxo u" and "connectBlock K p u b h = Some u'"
  then obtain txs where "connects K p (int h) u txs u'"
    by (auto simp: connectBlock_Some validateAndApplyLocked_iff)
  then show "wf_utxo u'" and "utxo_total u' \<le> utxo_total u + SubsidyAt (int h)"
    using connects_total \<open>wf_utxo u\<close> by blast+
qed

lemma ledger_of_wf: "ledger_of K p blocks = Some u \<Longrightarrow> wf_utxo u"
  unfolding ledger_of_def by (rule utxo_ledger.replay_good [OF wf_utxo_empty])

lemma ledger_of_supply: "ledger_of K p blocks = Some u \<Longrightarrow> utxo_total u \<le> (\<Sum>h<length blocks. SubsidyAt (int h))"
  unfolding ledger_of_def using utxo_ledger.replay_supply [OF wf_utxo_empty, of K p 0 blocks u] by simp

lemma ledger_of_snoc:
  "ledger_of K p (blocks @ [b]) =
     (case ledger_of K p blocks of None \<Rightarrow> None | Some u \<Rightarrow> connectBlock K p u b (length blocks))"
  by (auto simp: ledger_of_def replay_from_append split: option.splits)


section \<open>Replaying through the index\<close>

lemma branchTo_loop_branch:
  "branch K p idx bi bs \<Longrightarrow>
     \<exists>m'. branchTo_loop idx bi m = Some (Inr m') \<and> (\<forall>i<length bs. m' (int i) = Some (bs ! i)) \<and>
       (\<forall>h. \<not> (0 \<le> h \<and> h < int (length bs)) \<longrightarrow> m' h = m h)"
proof (induction arbitrary: m rule: branch.induct)
  case branch_root
  then show ?case by (auto simp: branchTo_loop.simps)
next
  case (branch_extend parent bs bi)
  have len: "bi_height bi = int (length bs)" "bs \<noteq> []"
    using branch_extend.hyps branch_shape by (auto simp: follows_def)
  obtain m' where m': "branchTo_loop idx parent (m(bi_height bi \<mapsto> bi)) = Some (Inr m')"
    "\<forall>i<length bs. m' (int i) = Some (bs ! i)"
    "\<forall>h. \<not> (0 \<le> h \<and> h < int (length bs)) \<longrightarrow> m' h = (m(bi_height bi \<mapsto> bi)) h"
    using branch_extend.IH by blast
  have "branchTo_loop idx bi m = Some (Inr m')"
    using m'(1) len branch_extend.hyps(2) by (simp add: branchTo_loop.simps [of idx bi])
  moreover have "m' (int (length bs)) = Some bi" using m'(3) len by simp
  ultimately show ?case using m'(2,3) len by (auto simp: nth_append less_Suc_eq)
qed

lemma branchTo_branch:
  assumes "branch K p idx bi bs"
  obtains m where "branchTo idx bi = Inr m" and "\<And>i. i < length bs \<Longrightarrow> m (int i) = Some (bs ! i)"
  using branchTo_loop_branch [OF assms, of Map.empty] by (auto simp: branchTo_def)

text \<open>Errors that are values the code returns, as opposed to a crash or a loop without end.\<close>

fun returned :: "error \<Rightarrow> bool" where
  "returned (Panic _) = False"
| "returned Diverges = False"
| "returned (Wrapped _ e) = returned e"
| "returned _ = True"

lemma failIf_Inl_iff: "failIf c e k = Inl e' \<longleftrightarrow> (if c then e' = e else k = Inl e')"
  by (auto simp: failIf_def)

lemma foldE_Inl: "foldE f s xs = Inl e \<Longrightarrow> \<exists>s' x. x \<in> set xs \<and> f s' x = Inl e"
  by (induction xs arbitrary: s) (auto simp: bindE_Inl_iff, blast)

lemma addMoney_returned: "addMoney d x v = Inl e \<Longrightarrow> returned e"
  by (auto simp: addMoney_def moneyRangeError_def split: prod.splits if_splits)

lemma sum_outputs_returned: "sum_outputs ms outs = Inl e \<Longrightarrow> returned e"
  by (auto simp: sum_outputs_def add_output_def failIf_Inl_iff moneyRangeError_def dest!: foldE_Inl addMoney_returned
      split: prod.splits if_splits)

lemma check_input_returned: "check_input K p u d h st i = Inl e \<Longrightarrow> returned e"
  by (auto simp: check_input_def failIf_Inl_iff bindE_Inl_iff moneyRangeError_def dest: addMoney_returned
      split: prod.splits if_splits option.splits)

lemma checkTxLocked_returned: "checkTxLocked K p u tx h = Inl e \<Longrightarrow> returned e"
  by (auto simp: checkTxLocked_def failIf_Inl_iff bindE_Inl_iff moneyRangeError_def Let_def
      dest!: foldE_Inl check_input_returned dest: sum_outputs_returned split: prod.splits if_splits)

lemma sanity_inputs_returned: "sanity_inputs spent ins = Inl e \<Longrightarrow> returned e"
  by (auto simp: sanity_inputs_def failIf_Inl_iff dest!: foldE_Inl split: if_splits)

lemma sanity_loop_returned: "sanity_loop K n ids spent ptxs = Inl e \<Longrightarrow> returned e"
proof (induction K n ids spent ptxs rule: sanity_loop.induct)
  case (2 K n ids spent ptx rest)
  then show ?case
    by (auto simp: failIf_Inl_iff bindE_Inl_iff dest: sanity_inputs_returned sum_outputs_returned
        split: option.splits if_splits)
qed simp

lemma checkBlockSanity_returned: "checkBlockSanity K b = Inl e \<Longrightarrow> returned e"
  by (auto simp: checkBlockSanity_def failIf_Inl_iff dest: sanity_loop_returned split: if_splits)

lemma apply_txs_returned:
  "apply_txs K p h (map Some txs) f st = (Inl e, st') \<Longrightarrow> returned e"
proof (induction txs arbitrary: f st)
  case Nil
  then show ?case by simp
next
  case (Cons tx txs)
  show ?case
  proof (cases "bindE (checkTxLocked K p (fst st) tx h) (\<lambda>fee. addMoney ''aggregate block fees'' f fee)")
    case (Inl e')
    then show ?thesis
      using Cons.prems by (auto simp: bindE_Inl_iff dest: checkTxLocked_returned addMoney_returned)
  next
    case (Inr f')
    then show ?thesis using Cons by (cases "checkTxLocked K p (fst st) tx h") auto
  qed
qed

lemma returned_not_panic: "returned e \<Longrightarrow> \<not> is_panic e"
  by (cases e) auto

lemma validateAndApply_returned:
  assumes "checkBlockSanity K b = Inr ()" and "validateAndApplyLocked K p u b h = (u', Inl e)"
  shows "returned e \<and> u' = u"
proof -
  obtain cb rest where b: "blk_Txs b = map Some (cb # rest)"
    using assms(1) by (auto simp: checkBlockSanity_iff sane_txs_def neq_Nil_conv)
  have cbe: "coinbase_allowance (map Some (cb # rest)) h fees = Inl e' \<Longrightarrow> returned e'" for fees e'
    by (auto simp: coinbase_allowance_def bindE_Inl_iff failIf_Inl_iff split: if_splits
        dest: sum_outputs_returned addMoney_returned)
  obtain r st where run: "apply_txs K p h (map Some rest) 0 (u, []) = (r, st)" by (rule prod.exhaust)
  have "returned e"
    using assms(2) b run apply_txs_returned [of K p h rest 0 "(u, [])"] cbe
    by (cases r) (auto simp: validateAndApplyLocked_def Let_def split: sum.splits)
  then show ?thesis using assms(2) returned_not_panic validateAndApply_restores by blast
qed

lemma replay_loop_ok:
  assumes "\<And>i. i < length bs \<Longrightarrow> m (int (h + i)) = Some (bs ! i)"
    and "replay_from (connectBlock K p) h u (map bi_block bs) = Some u'"
  shows "replay_loop K p m (length bs) (int h) u ids = Inr (u', ids @ map bi_id bs)"
  using assms
proof (induction bs arbitrary: h u ids)
  case Nil
  then show ?case by simp
next
  case (Cons bi bs)
  have m0: "m (int h) = Some bi" using Cons.prems(1) [of 0] by simp
  from Cons.prems(2) obtain u1 where u1: "connectBlock K p u (bi_block bi) h = Some u1"
    and rest: "replay_from (connectBlock K p) (Suc h) u1 (map bi_block bs) = Some u'"
    by (auto split: option.splits)
  have "replay_loop K p m (length bs) (int (Suc h)) u1 (ids @ [bi_id bi]) = Inr (u', (ids @ [bi_id bi]) @ map bi_id bs)"
    using Cons.prems(1) [of "Suc _"] rest by (intro Cons.IH) auto
  then show ?case using m0 u1 by (simp add: connectBlock_Some add.commute)
qed

lemma replay_loop_fails:
  assumes "\<And>i. i < length bs \<Longrightarrow> m (int (h + i)) = Some (bs ! i)"
    and "replay_from (connectBlock K p) h u (map bi_block bs) = None"
  shows "\<exists>e. replay_loop K p m (length bs) (int h) u ids = Inl e \<and> returned e"
  using assms
proof (induction bs arbitrary: h u ids)
  case Nil
  then show ?case by simp
next
  case (Cons bi bs)
  have m0: "m (int h) = Some bi" using Cons.prems(1) [of 0] by simp
  show ?case
  proof (cases "connectBlock K p u (bi_block bi) h")
    case None
    then show ?thesis
      using m0 checkBlockSanity_returned [of K "bi_block bi"] validateAndApply_returned [of K "bi_block bi" p u "int h"]
      by (auto simp: connectBlock_def returned_not_panic split: sum.splits prod.splits)
  next
    case (Some u1)
    have "\<exists>e. replay_loop K p m (length bs) (int (Suc h)) u1 (ids @ [bi_id bi]) = Inl e \<and> returned e"
      using Cons.prems(1) [of "Suc _"] Cons.prems(2) Some by (intro Cons.IH) auto
    then show ?thesis using m0 Some by (auto simp: connectBlock_Some add.commute)
  qed
qed

text \<open>Replaying a branch through the index computes the ledger of its blocks, or returns an error.\<close>

lemma replayBranch_branch:
  assumes "branch K (ch_params c) (ch_index c) bi bs"
  shows "case ledger_of K (ch_params c) (map bi_block bs) of
      Some u \<Rightarrow> replayBranch K c bi = Inr (u, map bi_id bs)
    | None \<Rightarrow> (\<exists>e. replayBranch K c bi = Inl e \<and> returned e)"
proof -
  obtain m where m: "branchTo (ch_index c) bi = Inr m" "\<And>i. i < length bs \<Longrightarrow> m (int i) = Some (bs ! i)"
    using branchTo_branch [OF assms] by blast
  have n: "nat (bi_height bi + 1) = length bs" using branch_shape [OF assms] by simp
  show ?thesis
    using m replay_loop_ok [of bs m 0 K "ch_params c" Map.empty _ "[]"]
      replay_loop_fails [of bs m 0 K "ch_params c" Map.empty "[]"]
    by (auto simp: replayBranch_def n ledger_of_def split: option.splits)
qed

lemma ledger_genesis:
  "ledger_of K p [GenesisBlock K p] = Some (spendAndCreate K Map.empty (NewCoinbase 0 (SubsidyAt 0) 0 (GenesisHeadline p)) 0 True)"
proof -
  let ?cb = "NewCoinbase 0 (SubsidyAt 0) 0 (GenesisHeadline p)"
  have cb: "blk_Txs (GenesisBlock K p) = map Some [?cb]" by (simp add: GenesisBlock_def Let_def)
  have sub: "SubsidyAt 0 = 5000000000"
    by (simp add: SubsidyAt_def HalvingInterval_def MaxHalvings_def InitialRewardUnits_def UnitsPerCoin_def
        signed_divide_int_def)
  have good: "good_outs (tx_Outs ?cb)" by (simp add: good_outs_def NewCoinbase_def sub MaxMoneyUnits_eq)
  have "sane_txs K [?cb]"
    using good by (simp add: sane_txs_def sane_tx_def NewCoinbase_def IsCoinbase_def)
  then have "checkBlockSanity K (GenesisBlock K p) = Inr ()" unfolding checkBlockSanity_iff using cb by blast
  moreover have "connects K p 0 Map.empty [?cb] (spendAndCreate K Map.empty ?cb 0 True)"
    using good by (simp add: connects_def NewCoinbase_def sub MaxMoneyUnits_eq)
  ultimately have "connectBlock K p Map.empty (GenesisBlock K p) 0 = Some (spendAndCreate K Map.empty ?cb 0 True)"
    unfolding connectBlock_Some validateAndApplyLocked_iff using cb by fastforce
  then show ?thesis by (simp add: ledger_of_def)
qed

lemma genesis_utxo:
  "applyBlockToUTXO K Map.empty (GenesisBlock K p) 0 =
     Inr (spendAndCreate K Map.empty (NewCoinbase 0 (SubsidyAt 0) 0 (GenesisHeadline p)) 0 True)"
  by (simp add: applyBlockToUTXO_def GenesisBlock_def Let_def)

end
