(* ===== verification/Consensus.thy ===== *)
theory Consensus
  imports Branch
begin

text \<open>
  The invariant of the chain state, its preservation by every operation, and the reachable states
  as an inductive relation over the operations of \<^verbatim>\<open>core/chain.go\<close>. Blocks arrive in any order and
  from anyone: the relation allows every block, every transaction and every clock reading.
\<close>

section \<open>The invariant\<close>

text \<open>Every indexed block heads a branch of rule-abiding blocks that replays to a ledger.\<close>

definition index_inv :: "crypto \<Rightarrow> Params \<Rightarrow> index_map \<Rightarrow> bool" where
  "index_inv K p idx \<longleftrightarrow>
     idx (bi_id (genesis_index K p)) = Some (genesis_index K p) \<and>
     (\<forall>hid bi. idx hid = Some bi \<longrightarrow> bi_id bi = hid \<and>
        (\<exists>bs. branch K p idx bi bs \<and> ledger_of K p (map bi_block bs) \<noteq> None))"

text \<open>The mempool: keyed by id, valid on top of the tip, and free of conflicts.\<close>

definition mempool_inv :: "crypto \<Rightarrow> Params \<Rightarrow> utxo_map \<Rightarrow> int \<Rightarrow> (Hash32 \<times> Tx) list \<Rightarrow> bool" where
  "mempool_inv K p u height pool \<longleftrightarrow>
     distinct (map fst pool) \<and> distinct (spent_by (map snd pool)) \<and>
     (\<forall>(hid, tx)\<in>set pool. hid = tx_ID K tx \<and> \<not> IsCoinbase tx \<and> (\<exists>fee. checkTxLocked K p u tx height = Inr fee))"

text \<open>The main chain is the tip's branch, the ledger its replay, and no indexed block has more work.\<close>

definition chain_inv :: "crypto \<Rightarrow> Chain \<Rightarrow> bool" where
  "chain_inv K c \<longleftrightarrow>
     sound_params (ch_params c) \<and> index_inv K (ch_params c) (ch_index c) \<and>
     ch_index c (bi_id (ch_tip c)) = Some (ch_tip c) \<and>
     (\<exists>bs. branch K (ch_params c) (ch_index c) (ch_tip c) bs \<and> ch_mainIDs c = map bi_id bs \<and>
        ledger_of K (ch_params c) (map bi_block bs) = Some (ch_utxo c)) \<and>
     (\<forall>bi\<in>ran (ch_index c). bi_cumWork bi \<le> bi_cumWork (ch_tip c)) \<and>
     mempool_inv K (ch_params c) (ch_utxo c) (bi_height (ch_tip c) + 1) (ch_mempool c)"

lemma index_invD:
  assumes "index_inv K p idx" and "idx hid = Some bi"
  obtains bs where "bi_id bi = hid" and "branch K p idx bi bs" and "ledger_of K p (map bi_block bs) \<noteq> None"
  using assms unfolding index_inv_def by blast

lemma chain_invD:
  assumes "chain_inv K c"
  obtains bs where "branch K (ch_params c) (ch_index c) (ch_tip c) bs" and "ch_mainIDs c = map bi_id bs"
    and "ledger_of K (ch_params c) (map bi_block bs) = Some (ch_utxo c)"
  using assms by (auto simp: chain_inv_def)

text \<open>Under the invariant every entry of the tip's branch is found in the index by its id.\<close>

lemma branch_indexed:
  assumes "index_inv K p idx" and "branch K p idx bi bs" and "x \<in> set bs"
  shows "x = bi \<or> idx (bi_id x) = Some x"
proof -
  obtain i where i: "i < length bs" "x = bs ! i" using assms(3) by (auto simp: in_set_conv_nth)
  show ?thesis
  proof (cases "Suc i < length bs")
    case True
    then have "idx (bi_prev (bs ! Suc i)) = Some x" using branch_link [OF assms(2)] i by simp
    then show ?thesis using assms(1) by (metis index_invD)
  next
    case False
    then have "x = last bs" using i by (metis Suc_lessI diff_Suc_1 last_conv_nth length_0_conv not_less_zero)
    then show ?thesis using branch_shape [OF assms(2)] by simp
  qed
qed

lemma main_entry_branch:
  assumes "chain_inv K c" and "branch K (ch_params c) (ch_index c) (ch_tip c) bs" and "ch_mainIDs c = map bi_id bs"
    and "0 \<le> h" and "h < int (length bs)"
  shows "main_entry c h = Inr (bs ! nat h)"
proof -
  have "bs ! nat h \<in> set bs" using assms(4,5) by (intro nth_mem) linarith
  then have "ch_index c (bi_id (bs ! nat h)) = Some (bs ! nat h)"
    using branch_indexed [OF _ assms(2), of "bs ! nat h"] assms(1) unfolding chain_inv_def by metis
  moreover have "nat h < length bs" using assms(4,5) by linarith
  ultimately show ?thesis using assms(3-5) by (simp add: main_entry_def)
qed

section \<open>Difficulty on a branch\<close>

lemma nextBits_tip:
  assumes "chain_inv K c" and "branch K (ch_params c) (ch_index c) (ch_tip c) bs" and "ch_mainIDs c = map bi_id bs"
  shows "nextBitsAtLocked c (bi_height (ch_tip c) + 1) = required_bits (ch_params c) bs"
proof -
  have shape: "0 < int (length bs)" "bi_height (ch_tip c) + 1 = int (length bs)"
    using branch_shape [OF assms(2)] by auto
  have "sound_params (ch_params c)" using assms(1) by (simp add: chain_inv_def)
  then show ?thesis
    unfolding nextBitsAtLocked_def required_bits_def shape(2)
    by (rule NextBits_cong [OF _ shape(1)]) (simp_all add: main_entry_branch [OF assms] entry_at_def)
qed

lemma bitsOnBranch_required:
  assumes "chain_inv K c" and "branch K (ch_params c) (ch_index c) parent bs"
  shows "bitsOnBranch c parent (bi_height parent + 1) = required_bits (ch_params c) bs"
proof (cases "parent = ch_tip c")
  case True
  obtain bs' where bs': "branch K (ch_params c) (ch_index c) (ch_tip c) bs'" "ch_mainIDs c = map bi_id bs'"
    using assms(1) by (rule chain_invD)
  then have "bs' = bs" using True assms(2) branch_unique by blast
  then show ?thesis using nextBits_tip [OF assms(1) bs'] True by (simp add: bitsOnBranch_def)
next
  case False
  have "sound_params (ch_params c)" using assms(1) by (simp add: chain_inv_def)
  moreover have "bi_height parent + 1 = int (length bs)" using branch_shape [OF assms(2)] by simp
  ultimately show ?thesis using False ancestor_bits [OF _ assms(2)] by (simp add: bitsOnBranch_def)
qed

section \<open>New chains\<close>

lemma NewChain_inv:
  assumes "NewChain K (Some p) = Inr c" and "0 < RetargetInterval p"
  shows "chain_inv K c \<and> ch_params c = p"
proof -
  let ?g = "genesis_index K p"
  have valid: "validateConsensusParams p = Inr ()" and
    c: "c = \<lparr>ch_params = p, ch_index = [bi_id ?g \<mapsto> ?g], ch_tip = ?g, ch_mainIDs = [bi_id ?g],
        ch_utxo = spendAndCreate K Map.empty (NewCoinbase 0 (SubsidyAt 0) 0 (GenesisHeadline p)) 0 True,
        ch_mempool = []\<rparr>"
    using assms(1) by (auto simp: NewChain_def bindE_Inr_iff failIf_Inr_iff Let_def genesis_utxo)
  have br: "branch K p [bi_id ?g \<mapsto> ?g] ?g [?g]" by (rule branch_root)
  have led: "ledger_of K p (map bi_block [?g]) = Some (ch_utxo c)" by (simp add: ledger_genesis c)
  have "index_inv K p [bi_id ?g \<mapsto> ?g]"
    unfolding index_inv_def using br led by (auto split: if_splits)
  moreover have "\<exists>bs. branch K p [bi_id ?g \<mapsto> ?g] ?g bs \<and> [bi_id ?g] = map bi_id bs \<and>
      ledger_of K p (map bi_block bs) = Some (ch_utxo c)"
    using br led by (intro exI [of _ "[?g]"]) simp
  ultimately show ?thesis
    using valid assms(2) by (simp add: chain_inv_def c sound_params_def mempool_inv_def spent_by_def)
qed

section \<open>Transactions\<close>

lemma mempool_spent_eq: "mempool_spent pool = set (spent_by (map snd pool))"
  by (auto simp: mempool_spent_def spent_by_def split: prod.splits)

lemma spent_by_append [simp]: "spent_by (xs @ ys) = spent_by xs @ spent_by ys"
  by (simp add: spent_by_def)

lemma AcceptTx_inv:
  assumes "chain_inv K c" and "AcceptTxWithResult K c ptx = (c', r)"
  shows "chain_inv K c'"
proof (cases "c' = c")
  case True
  then show ?thesis using assms(1) by simp
next
  case False
  then obtain tx fee where tx: "ptx = Some tx" "\<not> IsCoinbase tx" "tx_ID K tx \<notin> fst ` set (ch_mempool c)"
    "\<forall>i\<in>set (tx_Ins tx). in_Prev i \<notin> mempool_spent (ch_mempool c)"
    "checkTxLocked K (ch_params c) (ch_utxo c) tx (bi_height (ch_tip c) + 1) = Inr fee"
    and c': "c' = c\<lparr>ch_mempool := ch_mempool c @ [(tx_ID K tx, tx)]\<rparr>"
    using assms(2) by (auto simp: AcceptTxWithResult_def split: option.splits if_splits sum.splits)
  have "distinct (map in_Prev (tx_Ins tx))" using tx(5) by (simp add: checkTxLocked_iff valid_spend_def)
  moreover have "mempool_inv K (ch_params c) (ch_utxo c) (bi_height (ch_tip c) + 1) (ch_mempool c)"
    using assms(1) by (simp add: chain_inv_def)
  ultimately have "mempool_inv K (ch_params c) (ch_utxo c) (bi_height (ch_tip c) + 1) (ch_mempool c')"
    using tx by (auto simp: mempool_inv_def c' mempool_spent_eq)
  then show ?thesis using assms(1) by (simp add: chain_inv_def c')
qed

lemma spent_by_filter: "distinct (spent_by (map snd pool)) \<Longrightarrow> distinct (spent_by (map snd (filter P pool)))"
proof (induction pool)
  case Nil
  then show ?case by simp
next
  case (Cons e pool)
  have "set (spent_by (map snd (filter P pool))) \<subseteq> set (spent_by (map snd pool))"
    by (auto simp: spent_by_def)
  then show ?case using Cons by auto
qed

lemma evict_mempool_inv:
  assumes "distinct (map fst (ch_mempool c))" and "distinct (spent_by (map snd (ch_mempool c)))"
    and "\<forall>(hid, tx)\<in>set (ch_mempool c). hid = tx_ID K tx \<and> \<not> IsCoinbase tx"
  shows "mempool_inv K (ch_params c) (ch_utxo c) (bi_height (ch_tip c) + 1) (ch_mempool (evictMempoolLocked K c))"
  using assms spent_by_filter
  by (auto simp: mempool_inv_def evictMempoolLocked_def distinct_map_filter split: sum.splits)

lemma evict_simps [simp]:
  "ch_params (evictMempoolLocked K c) = ch_params c" "ch_index (evictMempoolLocked K c) = ch_index c"
  "ch_tip (evictMempoolLocked K c) = ch_tip c" "ch_mainIDs (evictMempoolLocked K c) = ch_mainIDs c"
  "ch_utxo (evictMempoolLocked K c) = ch_utxo c"
  by (simp_all add: evictMempoolLocked_def)

section \<open>Blocks\<close>

text \<open>The entry \<open>acceptBlockLocked\<close> builds.\<close>

definition entry_for :: "crypto \<Rightarrow> blockIndex \<Rightarrow> Block \<Rightarrow> blockIndex" where
  "entry_for K parent b =
     \<lparr>bi_block = b, bi_height = bi_height parent + 1,
      bi_cumWork = bi_cumWork parent + WorkFromTarget (CompactToTarget (hdr_Bits (blk_Header b))),
      bi_id = hdr_ID K (blk_Header b)\<rparr>"

lemma entry_for_simps [simp]:
  "bi_block (entry_for K parent b) = b" "bi_height (entry_for K parent b) = bi_height parent + 1"
  "bi_id (entry_for K parent b) = hdr_ID K (blk_Header b)"
  "bi_cumWork (entry_for K parent b) = bi_cumWork parent + block_work b"
  by (simp_all add: entry_for_def block_work_def)

lemma check_header_rules:
  assumes "chain_inv K c" and "branch K (ch_params c) (ch_index c) parent bs"
    and "check_header K c now b pow parent = Inr ()"
  shows "block_rules K (ch_params c) bs b" and "pow \<Longrightarrow> CheckPow K (ch_params c) (blk_Header b)"
proof -
  have sound: "sound_params (ch_params c)" using assms(1) by (simp add: chain_inv_def)
  obtain raw where "checkBlockSanity K b = Inr ()" "blk_Bytes b = Inr raw" "length raw \<le> MaxBlockBytes"
    "checkBlockTimestamp c parent (bi_height parent + 1) (hdr_Time (blk_Header b)) now = Inr ()"
    "bitsOnBranch c parent (bi_height parent + 1) = Inr (hdr_Bits (blk_Header b))"
    "MerkleRoot K (blk_Txs b) = Inr (hdr_MerkleRoot (blk_Header b))"
    and pw: "pow \<longrightarrow> CheckPow K (ch_params c) (blk_Header b)"
    using assms(3) by (auto simp: check_header_def bindE_Inr_iff failIf_Inr_iff Let_def)
  then show "block_rules K (ch_params c) bs b"
    using checkBlockTimestamp_branch [OF sound assms(2)] bitsOnBranch_required [OF assms(1,2)]
    by (auto simp: block_rules_def)
  show "pow \<Longrightarrow> CheckPow K (ch_params c) (blk_Header b)" using pw by simp
qed

lemma entry_for_branch:
  assumes "chain_inv K c" and "ch_index c (hdr_PrevBlock (blk_Header b)) = Some parent"
    and "branch K (ch_params c) (ch_index c) parent bs"
    and "check_header K c now b pow parent = Inr ()"
  shows "branch K (ch_params c) (ch_index c) (entry_for K parent b) (bs @ [entry_for K parent b])"
proof (rule branch_extend [OF assms(3)])
  show "ch_index c (bi_prev (entry_for K parent b)) = Some parent" using assms(2) by simp
  show "follows K (ch_params c) bs (entry_for K parent b)"
    using check_header_rules(1) [OF assms(1,3,4)] branch_shape [OF assms(3)] by (simp add: follows_def)
qed

text \<open>The three ways a block enters the index.\<close>

lemma acceptBlock_cases:
  assumes "acceptBlockLocked K c now b pow = (c', Inr r)"
  obtains (known) "c' = c" "r = None" "ch_index c (hdr_ID K (blk_Header b)) \<noteq> None"
  | (side) parent u ids where "ch_index c (hdr_ID K (blk_Header b)) = None"
      "ch_index c (hdr_PrevBlock (blk_Header b)) = Some parent" "check_header K c now b pow parent = Inr ()"
      "bi_cumWork (entry_for K parent b) \<le> bi_cumWork (ch_tip c)" "r = None"
      "replayBranch K c (entry_for K parent b) = Inr (u, ids)" "c' = index_block (entry_for K parent b) c"
  | (tip) u where "ch_index c (hdr_ID K (blk_Header b)) = None"
      "ch_index c (hdr_PrevBlock (blk_Header b)) = Some (ch_tip c)" "check_header K c now b pow (ch_tip c) = Inr ()"
      "bi_cumWork (ch_tip c) < bi_cumWork (entry_for K (ch_tip c) b)" "r = Some (entry_for K (ch_tip c) b)"
      "validateAndApplyLocked K (ch_params c) (ch_utxo c) b (bi_height (ch_tip c) + 1) = (u, Inr ())"
      "c' = index_block (entry_for K (ch_tip c) b) (evictMempoolLocked K
         (c\<lparr>ch_utxo := u, ch_mainIDs := ch_mainIDs c @ [hdr_ID K (blk_Header b)], ch_tip := entry_for K (ch_tip c) b\<rparr>))"
  | (reorg) parent u ids where "ch_index c (hdr_ID K (blk_Header b)) = None"
      "ch_index c (hdr_PrevBlock (blk_Header b)) = Some parent" "check_header K c now b pow parent = Inr ()"
      "bi_cumWork (ch_tip c) < bi_cumWork (entry_for K parent b)" "r = Some (entry_for K parent b)"
      "replayBranch K c (entry_for K parent b) = Inr (u, ids)"
      "c' = index_block (entry_for K parent b) (evictMempoolLocked K
         (c\<lparr>ch_utxo := u, ch_mainIDs := ids, ch_tip := entry_for K parent b\<rparr>))"
proof (cases "ch_index c (hdr_ID K (blk_Header b))")
  case (Some bi)
  then show ?thesis using assms known by (simp add: acceptBlockLocked_def Let_def)
next
  case None
  obtain parent where parent: "ch_index c (hdr_PrevBlock (blk_Header b)) = Some parent"
    using assms None by (auto simp: acceptBlockLocked_def Let_def split: option.splits)
  let ?bi = "entry_for K parent b"
  have hdr: "check_header K c now b pow parent = Inr ()"
    using assms None parent by (auto simp: acceptBlockLocked_def Let_def split: sum.splits)
  have eq: "acceptBlockLocked K c now b pow =
      (if bi_cumWork ?bi \<le> bi_cumWork (ch_tip c) then
         (case replayBranch K c ?bi of Inl e \<Rightarrow> (c, Inl e) | Inr _ \<Rightarrow> (index_block ?bi c, Inr None))
       else
         (case (if parent = ch_tip c then connectTipLocked K c ?bi else connectBranch K c ?bi) of
            (c', Inl e) \<Rightarrow> (c', Inl e) | (c', Inr _) \<Rightarrow> (index_block ?bi c', Inr (Some ?bi))))"
    unfolding acceptBlockLocked_def entry_for_def Let_def using None parent hdr by simp
  show ?thesis
  proof (cases "bi_cumWork ?bi \<le> bi_cumWork (ch_tip c)")
    case True
    then show ?thesis using assms side [OF None parent hdr True] unfolding eq by (auto split: sum.splits)
  next
    case less: False
    show ?thesis
    proof (cases "parent = ch_tip c")
      case True
      then show ?thesis
        using assms less tip [OF None] parent hdr unfolding eq
        by (auto simp: connectTipLocked_def split: sum.splits prod.splits)
    next
      case False
      then show ?thesis
        using assms less reorg [OF None parent hdr] unfolding eq
        by (auto simp: connectBranch_def split: sum.splits prod.splits)
    qed
  qed
qed

lemma index_block_simps [simp]:
  "ch_params (index_block bi c) = ch_params c" "ch_tip (index_block bi c) = ch_tip c"
  "ch_index (index_block bi c) = (ch_index c)(bi_id bi \<mapsto> bi)"
  "ch_mainIDs (index_block bi c) = ch_mainIDs c" "ch_utxo (index_block bi c) = ch_utxo c"
  "ch_mempool (index_block bi c) = ch_mempool c"
  by (simp_all add: index_block_def)

lemma index_inv_insert:
  assumes "index_inv K p idx" and "idx (bi_id bi) = None"
    and "branch K p idx bi bs" and "ledger_of K p (map bi_block bs) \<noteq> None"
  shows "index_inv K p (idx(bi_id bi \<mapsto> bi))"
proof -
  have le: "idx \<subseteq>\<^sub>m idx(bi_id bi \<mapsto> bi)" using assms(2) by (auto simp: map_le_def)
  have "\<exists>bs. branch K p (idx(bi_id bi \<mapsto> bi)) x bs \<and> ledger_of K p (map bi_block bs) \<noteq> None"
    if "idx hid = Some x" for hid x
    using assms(1) that branch_mono [OF _ le] by (metis index_invD)
  moreover have "branch K p (idx(bi_id bi \<mapsto> bi)) bi bs" using assms(3) le by (rule branch_mono)
  ultimately show ?thesis
    using assms unfolding index_inv_def by (metis fun_upd_apply option.inject option.distinct(1))
qed

lemma ran_index_insert: "idx k = None \<Longrightarrow> ran (idx(k \<mapsto> bi)) = insert bi (ran idx)"
  by (rule ran_map_upd)

text \<open>A new tip with its ledger and ids re-establishes the invariant.\<close>

lemma chain_inv_new_tip:
  assumes inv: "chain_inv K c" and fresh: "ch_index c (bi_id bi) = None"
    and br: "branch K (ch_params c) (ch_index c) bi bs" and led: "ledger_of K (ch_params c) (map bi_block bs) = Some u"
    and more: "bi_cumWork (ch_tip c) < bi_cumWork bi"
  shows "chain_inv K (index_block bi (evictMempoolLocked K (c\<lparr>ch_utxo := u, ch_mainIDs := map bi_id bs, ch_tip := bi\<rparr>)))"
proof -
  let ?c = "c\<lparr>ch_utxo := u, ch_mainIDs := map bi_id bs, ch_tip := bi\<rparr>"
  let ?idx = "(ch_index c)(bi_id bi \<mapsto> bi)"
  have le: "ch_index c \<subseteq>\<^sub>m ?idx" using fresh by (auto simp: map_le_def)
  have idx: "index_inv K (ch_params c) (ch_index c)" using inv by (simp add: chain_inv_def)
  have "mempool_inv K (ch_params ?c) (ch_utxo ?c) (bi_height (ch_tip ?c) + 1) (ch_mempool (evictMempoolLocked K ?c))"
    using inv by (intro evict_mempool_inv) (auto simp: chain_inv_def mempool_inv_def)
  moreover have "index_inv K (ch_params c) ?idx"
    using index_inv_insert [OF idx fresh br] led by simp
  moreover have "\<forall>x\<in>ran ?idx. bi_cumWork x \<le> bi_cumWork bi"
    using inv more by (auto simp: chain_inv_def ran_index_insert [where idx = "ch_index c", OF fresh])
  moreover have "branch K (ch_params c) ?idx bi bs" using br le by (rule branch_mono)
  ultimately show ?thesis using inv led by (auto simp: chain_inv_def)
qed

lemma chain_inv_side:
  assumes inv: "chain_inv K c" and fresh: "ch_index c (bi_id bi) = None"
    and br: "branch K (ch_params c) (ch_index c) bi bs" and led: "ledger_of K (ch_params c) (map bi_block bs) \<noteq> None"
    and less: "bi_cumWork bi \<le> bi_cumWork (ch_tip c)"
  shows "chain_inv K (index_block bi c)"
proof -
  let ?idx = "(ch_index c)(bi_id bi \<mapsto> bi)"
  have le: "ch_index c \<subseteq>\<^sub>m ?idx" using fresh by (auto simp: map_le_def)
  have "index_inv K (ch_params c) ?idx"
    using inv by (intro index_inv_insert [OF _ fresh br led]) (simp add: chain_inv_def)
  moreover have "\<forall>x\<in>ran ?idx. bi_cumWork x \<le> bi_cumWork (ch_tip c)"
    using inv less by (auto simp: chain_inv_def ran_index_insert [where idx = "ch_index c", OF fresh])
  moreover have "bi_id (ch_tip c) \<noteq> bi_id bi" using inv fresh by (auto simp: chain_inv_def)
  moreover have "\<exists>bs. branch K (ch_params c) ?idx (ch_tip c) bs \<and> ch_mainIDs c = map bi_id bs \<and>
      ledger_of K (ch_params c) (map bi_block bs) = Some (ch_utxo c)"
    using inv branch_mono [OF _ le] unfolding chain_inv_def by blast
  ultimately show ?thesis using inv by (simp add: chain_inv_def)
qed

lemma replayBranch_Inr:
  assumes "branch K (ch_params c) (ch_index c) bi bs" and "replayBranch K c bi = Inr (u, ids)"
  shows "ledger_of K (ch_params c) (map bi_block bs) = Some u \<and> ids = map bi_id bs"
  using replayBranch_branch [OF assms(1)] assms(2) by (auto split: option.splits)

lemma acceptBlock_Inr_inv:
  assumes "chain_inv K c" and "acceptBlockLocked K c now b pow = (c', Inr r)"
  shows "chain_inv K c'"
  using assms(2)
proof (cases rule: acceptBlock_cases)
  case known
  then show ?thesis using assms(1) by simp
next
  case (side parent u ids)
  obtain bs where "branch K (ch_params c) (ch_index c) parent bs"
    using assms(1) side(2) by (auto simp: chain_inv_def elim: index_invD)
  note br = entry_for_branch [OF assms(1) side(2) this side(3)]
  show ?thesis using chain_inv_side [OF assms(1) _ br] replayBranch_Inr [OF br side(6)] side by simp
next
  case (tip u)
  obtain bs where bs: "branch K (ch_params c) (ch_index c) (ch_tip c) bs" "ch_mainIDs c = map bi_id bs"
    "ledger_of K (ch_params c) (map bi_block bs) = Some (ch_utxo c)"
    using assms(1) by (rule chain_invD)
  note br = entry_for_branch [OF assms(1) tip(2) bs(1) tip(3)]
  have "block_rules K (ch_params c) bs b" using check_header_rules [OF assms(1) bs(1) tip(3)] by simp
  then have "ledger_of K (ch_params c) (map bi_block (bs @ [entry_for K (ch_tip c) b])) = Some u"
    using tip(6) bs(3) branch_shape [OF bs(1)]
    by (simp add: ledger_of_snoc connectBlock_Some block_rules_def)
  then show ?thesis using chain_inv_new_tip [OF assms(1) _ br] tip bs(2) by simp
next
  case (reorg parent u ids)
  obtain bs where "branch K (ch_params c) (ch_index c) parent bs"
    using assms(1) reorg(2) by (auto simp: chain_inv_def elim: index_invD)
  note br = entry_for_branch [OF assms(1) reorg(2) this reorg(3)]
  show ?thesis using chain_inv_new_tip [OF assms(1) _ br] replayBranch_Inr [OF br reorg(6)] reorg by simp
qed

section \<open>Rejected blocks\<close>

lemma blk_Bytes_sane: "checkBlockSanity K b = Inr () \<Longrightarrow> \<exists>raw. blk_Bytes b = Inr raw"
  by (auto simp: checkBlockSanity_iff blk_Bytes_def)

lemma MerkleRoot_sane: "checkBlockSanity K b = Inr () \<Longrightarrow> \<exists>r. MerkleRoot K (blk_Txs b) = Inr r"
  by (auto simp: checkBlockSanity_iff MerkleRoot_Some sane_txs_def)

lemma checkBlockTimestamp_returned: "checkBlockTimestamp c parent h t now = Inl e \<Longrightarrow> returned e"
  by (auto simp: checkBlockTimestamp_def CheckTimestamp_def Let_def bindE_Inl_iff failIf_Inl_iff split: if_splits)

lemma check_header_returned:
  assumes "chain_inv K c" and "branch K (ch_params c) (ch_index c) parent bs"
    and "check_header K c now b pow parent = Inl e"
  shows "returned e"
proof -
  have "\<exists>r. bitsOnBranch c parent (bi_height parent + 1) = Inr r"
    using bitsOnBranch_required [OF assms(1,2)] required_bits_returns branch_shape [OF assms(2)] assms(1)
    by (simp add: chain_inv_def)
  then show ?thesis
    using assms(3) blk_Bytes_sane [of K b] MerkleRoot_sane [of K b]
    by (auto simp: check_header_def bindE_Inl_iff failIf_Inl_iff Let_def split: if_splits
        dest: checkBlockSanity_returned checkBlockTimestamp_returned)
qed

text \<open>A block that is not accepted is refused with an error the code returns, and nothing changes.\<close>

lemma acceptBlock_Inl:
  assumes inv: "chain_inv K c" and run: "acceptBlockLocked K c now b pow = (c', Inl e)"
  shows "returned e \<and> c' = c"
proof (cases "ch_index c (hdr_PrevBlock (blk_Header b))")
  case None
  then show ?thesis using run by (auto simp: acceptBlockLocked_def Let_def split: if_splits)
next
  case (Some parent)
  let ?bi = "entry_for K parent b"
  obtain bs where bs: "branch K (ch_params c) (ch_index c) parent bs"
    using inv Some by (auto simp: chain_inv_def elim: index_invD)
  have new: "ch_index c (hdr_ID K (blk_Header b)) = None"
    using run by (auto simp: acceptBlockLocked_def Let_def split: if_splits)
  show ?thesis
  proof (cases "check_header K c now b pow parent")
    case (Inl e')
    then have "c' = c" "e' = e" using run new Some by (auto simp: acceptBlockLocked_def Let_def)
    then show ?thesis using check_header_returned [OF inv bs] Inl by simp
  next
    case (Inr _)
    then have hdr: "check_header K c now b pow parent = Inr ()" by simp
    note br = entry_for_branch [OF inv Some bs hdr]
    have sane: "checkBlockSanity K b = Inr ()"
      using check_header_rules(1) [OF inv bs hdr] by (simp add: block_rules_def)
    have replay: "replayBranch K c ?bi = Inl e' \<Longrightarrow> returned e'" for e'
      using replayBranch_branch [OF br] by (auto split: option.splits)
    have undo: "validateAndApplyLocked K (ch_params c) (ch_utxo c) b h = (u', Inl e') \<Longrightarrow> returned e' \<and> u' = ch_utxo c" for h u' e'
      using validateAndApply_returned [OF sane] by blast
    have eq: "acceptBlockLocked K c now b pow =
      (if bi_cumWork ?bi \<le> bi_cumWork (ch_tip c) then
         (case replayBranch K c ?bi of Inl e \<Rightarrow> (c, Inl e) | Inr _ \<Rightarrow> (index_block ?bi c, Inr None))
       else
         (case (if parent = ch_tip c then connectTipLocked K c ?bi else connectBranch K c ?bi) of
            (c', Inl e) \<Rightarrow> (c', Inl e) | (c', Inr _) \<Rightarrow> (index_block ?bi c', Inr (Some ?bi))))"
      unfolding acceptBlockLocked_def entry_for_def Let_def using new Some hdr by simp
    consider (side) "bi_cumWork ?bi \<le> bi_cumWork (ch_tip c)"
      | (tip) "\<not> bi_cumWork ?bi \<le> bi_cumWork (ch_tip c)" "parent = ch_tip c"
      | (reorg) "\<not> bi_cumWork ?bi \<le> bi_cumWork (ch_tip c)" "parent \<noteq> ch_tip c"
      by blast
    then show ?thesis
    proof cases
      case side
      then have "replayBranch K c ?bi = Inl e \<and> c' = c" using run unfolding eq by (auto split: sum.splits)
      then show ?thesis using replay by blast
    next
      case tip
      obtain u r where ur: "validateAndApplyLocked K (ch_params c) (ch_utxo c) b (bi_height ?bi) = (u, r)"
        by (rule prod.exhaust)
      with run tip have "r \<noteq> Inr ()" unfolding eq by (auto simp: connectTipLocked_def)
      then obtain e' where e': "r = Inl e'" by (cases r) auto
      then show ?thesis
        using run tip undo ur unfolding eq by (auto simp: connectTipLocked_def returned_not_panic)
    next
      case reorg
      then have "replayBranch K c ?bi = Inl e \<and> c' = c"
        using run unfolding eq by (auto simp: connectBranch_def split: sum.splits prod.splits)
      then show ?thesis using replay by blast
    qed
  qed
qed

lemma acceptBlock_inv:
  assumes "chain_inv K c" and "acceptBlockLocked K c now b pow = (c', r)"
  shows "chain_inv K c'"
  using assms acceptBlock_Inr_inv acceptBlock_Inl by (cases r) fast+

section \<open>Reachable chains\<close>

definition chain_init :: "crypto \<Rightarrow> Params \<Rightarrow> Chain \<Rightarrow> bool" where
  "chain_init K p c \<longleftrightarrow> 0 < RetargetInterval p \<and> NewChain K (Some p) = Inr c"

text \<open>One call of an exported operation. \<open>stored\<close> tells whether blocks may also be replayed from the
  block file, which skips the proof of work.\<close>

inductive chain_step :: "crypto \<Rightarrow> bool \<Rightarrow> Chain \<Rightarrow> Chain \<Rightarrow> bool" for K stored where
  step_tx: "AcceptTxWithResult K c ptx = (c', r) \<Longrightarrow> chain_step K stored c c'"
| step_block: "AcceptBlock K c now pb = (c', r) \<Longrightarrow> chain_step K stored c c'"
| step_stored: "stored \<Longrightarrow> acceptStoredBlock K c now pb = (c', r) \<Longrightarrow> chain_step K stored c c'"

inductive_cases chain_stepE: "chain_step K stored c c'"

abbreviation chain_reach :: "crypto \<Rightarrow> Params \<Rightarrow> bool \<Rightarrow> Chain \<Rightarrow> bool" where
  "chain_reach K p stored \<equiv> reach (chain_init K p) (chain_step K stored)"

text \<open>An exported block operation either leaves the chain alone or is an internal acceptance.\<close>

lemma accept_with_cases:
  assumes "accept_with msg pow K c now pb = (c', r)"
  shows "c' = c \<or> (\<exists>b res. pb = Some b \<and> acceptBlockLocked K c now b pow = (c', res))"
  using assms by (auto simp: accept_with_def split: option.splits prod.splits sum.splits)

lemma chain_step_cases:
  assumes "chain_step K stored c c'"
  obtains (same) "c' = c"
  | (tx) ptx r where "AcceptTxWithResult K c ptx = (c', r)"
  | (block) now b pow res where "pow \<or> stored" "acceptBlockLocked K c now b pow = (c', res)"
  using assms
proof (cases rule: chain_step.cases)
  case (step_tx ptx r)
  then show ?thesis by (rule tx)
next
  case (step_block now pb r)
  then consider "c' = c" | b res where "acceptBlockLocked K c now b True = (c', res)"
    unfolding AcceptBlock_def by (blast dest: accept_with_cases)
  then show ?thesis using same block [of True] by cases simp_all
next
  case (step_stored now pb r)
  then consider "c' = c" | b res where "acceptBlockLocked K c now b False = (c', res)"
    unfolding acceptStoredBlock_def by (blast dest: accept_with_cases)
  then show ?thesis using same block [of False] step_stored(1) by cases simp_all
qed

lemma AcceptTx_frame:
  assumes "AcceptTxWithResult K c ptx = (c', r)"
  shows "ch_params c' = ch_params c \<and> ch_index c' = ch_index c \<and> ch_tip c' = ch_tip c \<and>
    ch_mainIDs c' = ch_mainIDs c \<and> ch_utxo c' = ch_utxo c"
  using assms by (auto simp: AcceptTxWithResult_def split: option.splits if_splits sum.splits)

lemma acceptBlock_params:
  assumes "chain_inv K c" and "acceptBlockLocked K c now b pow = (c', r)"
  shows "ch_params c' = ch_params c"
proof (cases r)
  case (Inl e)
  then show ?thesis using acceptBlock_Inl assms by blast
next
  case (Inr r')
  with assms(2) have "acceptBlockLocked K c now b pow = (c', Inr r')" by simp
  then show ?thesis by (cases rule: acceptBlock_cases) simp_all
qed

interpretation chain_machine: state_machine "chain_init K p" "chain_step K stored" "\<lambda>c. chain_inv K c \<and> ch_params c = p"
proof
  fix c
  assume "chain_init K p c"
  then show "chain_inv K c \<and> ch_params c = p" using NewChain_inv by (auto simp: chain_init_def)
next
  fix c c'
  assume inv: "chain_inv K c \<and> ch_params c = p" and "chain_step K stored c c'"
  from this(2) show "chain_inv K c' \<and> ch_params c' = p"
  proof (cases rule: chain_step_cases)
    case same
    then show ?thesis using inv by simp
  next
    case (tx ptx r)
    then show ?thesis using inv AcceptTx_inv AcceptTx_frame by metis
  next
    case (block now b pow res)
    then show ?thesis using inv acceptBlock_inv acceptBlock_params by metis
  qed
qed

lemmas reach_chain_inv = chain_machine.reach_inv [THEN conjunct1] and reach_params = chain_machine.reach_inv [THEN conjunct2]

section \<open>Proof of work\<close>

definition pow_inv :: "crypto \<Rightarrow> Chain \<Rightarrow> bool" where
  "pow_inv K c \<longleftrightarrow> (\<forall>bi\<in>ran (ch_index c). CheckPow K (ch_params c) (bi_header bi))"

lemma acceptBlock_index:
  assumes "chain_inv K c" and "acceptBlockLocked K c now b pow = (c', r)"
  shows "ch_index c' = ch_index c \<or>
    (\<exists>parent. ch_index c (hdr_PrevBlock (blk_Header b)) = Some parent \<and> check_header K c now b pow parent = Inr () \<and>
       ch_index c (hdr_ID K (blk_Header b)) = None \<and>
       ch_index c' = (ch_index c)(hdr_ID K (blk_Header b) \<mapsto> entry_for K parent b))"
proof (cases r)
  case (Inl e)
  then show ?thesis using acceptBlock_Inl assms by blast
next
  case (Inr r')
  with assms(2) have "acceptBlockLocked K c now b pow = (c', Inr r')" by simp
  then show ?thesis by (cases rule: acceptBlock_cases) auto
qed

lemma acceptBlock_pow:
  assumes "chain_inv K c" and "pow_inv K c" and "acceptBlockLocked K c now b True = (c', r)"
  shows "pow_inv K c'"
  using acceptBlock_index [OF assms(1,3)]
proof (elim disjE exE conjE)
  assume "ch_index c' = ch_index c"
  then show ?thesis using assms(2) acceptBlock_params [OF assms(1,3)] by (simp add: pow_inv_def)
next
  fix parent
  assume parent: "ch_index c (hdr_PrevBlock (blk_Header b)) = Some parent"
    and hdr: "check_header K c now b True parent = Inr ()"
    and new: "ch_index c (hdr_ID K (blk_Header b)) = None"
    and idx: "ch_index c' = (ch_index c)(hdr_ID K (blk_Header b) \<mapsto> entry_for K parent b)"
  obtain bs where "branch K (ch_params c) (ch_index c) parent bs"
    using assms(1) parent by (auto simp: chain_inv_def elim: index_invD)
  then have "CheckPow K (ch_params c) (blk_Header b)" using check_header_rules(2) [OF assms(1) _ hdr] by simp
  then show ?thesis
    using assms(2) acceptBlock_params [OF assms(1,3)] idx ran_index_insert [of "ch_index c", OF new]
    by (auto simp: pow_inv_def)
qed

interpretation pow_machine: state_machine "chain_init K p" "chain_step K False" "\<lambda>c. chain_inv K c \<and> pow_inv K c"
proof
  fix c
  assume init: "chain_init K p c"
  then have "CheckPow K p (blk_Header (GenesisBlock K p))" "ch_params c = p"
    "ch_index c = [bi_id (genesis_index K p) \<mapsto> genesis_index K p]"
    by (auto simp: chain_init_def NewChain_def bindE_Inr_iff failIf_Inr_iff Let_def)
  then show "chain_inv K c \<and> pow_inv K c"
    using chain_machine.init_inv [OF init] by (simp add: pow_inv_def)
next
  fix c c'
  assume inv: "chain_inv K c \<and> pow_inv K c" and step: "chain_step K False c c'"
  have "chain_inv K c'" using chain_machine.step_inv [of K c "ch_params c" False c'] inv step by simp
  moreover have "pow_inv K c'"
    using step
  proof (cases rule: chain_step_cases)
    case same
    then show ?thesis using inv by simp
  next
    case (tx ptx r)
    then show ?thesis using inv AcceptTx_frame [OF tx] by (simp add: pow_inv_def)
  next
    case (block now b pow res)
    then show ?thesis using inv acceptBlock_pow by auto
  qed
  ultimately show "chain_inv K c' \<and> pow_inv K c'" ..
qed

section \<open>Fork choice\<close>

text \<open>What an operation may do to the best chain: keep the tip, or move to a block with strictly more work.\<close>

definition tip_advances :: "Chain \<Rightarrow> Chain \<Rightarrow> bool" where
  "tip_advances c c' \<longleftrightarrow>
     ch_index c \<subseteq>\<^sub>m ch_index c' \<and>
     (ch_tip c' = ch_tip c \<and> ch_mainIDs c' = ch_mainIDs c \<and> ch_utxo c' = ch_utxo c \<or>
      bi_cumWork (ch_tip c) < bi_cumWork (ch_tip c'))"

lemma acceptBlock_advances:
  assumes "chain_inv K c" and "acceptBlockLocked K c now b pow = (c', r)"
  shows "tip_advances c c'"
proof (cases r)
  case (Inl e)
  then have "c' = c" using acceptBlock_Inl assms by blast
  then show ?thesis by (simp add: tip_advances_def)
next
  case (Inr r')
  with assms(2) have "acceptBlockLocked K c now b pow = (c', Inr r')" by simp
  then show ?thesis
    by (cases rule: acceptBlock_cases) (auto simp: tip_advances_def map_le_def)
qed

lemma chain_step_advances:
  assumes "chain_inv K c" and "chain_step K stored c c'"
  shows "tip_advances c c'"
  using assms(2)
proof (cases rule: chain_step_cases)
  case same
  then show ?thesis by (simp add: tip_advances_def)
next
  case (tx ptx r)
  then show ?thesis using AcceptTx_frame [OF tx] by (simp add: tip_advances_def)
next
  case (block now b pow res)
  then show ?thesis using assms(1) acceptBlock_advances by blast
qed

lemma tip_advances_refl: "tip_advances c c"
  by (simp add: tip_advances_def)

lemma tip_advances_trans: "tip_advances a b \<Longrightarrow> tip_advances b c \<Longrightarrow> tip_advances a c"
  unfolding tip_advances_def by (metis map_le_trans order.strict_trans)

lemma steps_advance:
  assumes "chain_inv K c" and "(chain_step K stored)\<^sup>*\<^sup>* c c'"
  shows "tip_advances c c'"
  using chain_machine.steps_related [of K stored c c' "ch_params c" tip_advances] assms
    tip_advances_refl tip_advances_trans chain_step_advances by blast

end
