(* ===== verification/ChainTheorems.thy ===== *)
theory ChainTheorems
  imports Consensus
begin

text \<open>
  The theorems about reachable chains: acceptance is exactly the consensus rules, the best chain
  replays, the supply is capped, fork choice, atomic refusal, the mempool and proof of work. A
  concrete chain with one block on the regression-test genesis shows that the hypotheses hold.
\<close>

section \<open>Completeness of acceptance\<close>

lemma median_window: "sound_params p \<Longrightarrow> asertActive p h \<Longrightarrow> 3 \<le> ASERTMedianTimeBlocks p"
  by (auto simp: sound_params_def asertActive_def validateConsensusParams_def failIf_Inr_iff split: if_splits)

lemma checkBlockTimestamp_complete:
  assumes "sound_params (ch_params c)" and "branch K (ch_params c) (ch_index c) parent bs"
    and "timestamp_rule (ch_params c) (map bi_time bs) t"
    and "t \<le> wrap64 (now + (if asertActive (ch_params c) (bi_height parent + 1)
           then ASERTFutureDrift (ch_params c) else FutureDrift (ch_params c)))"
  shows "checkBlockTimestamp c parent (bi_height parent + 1) t now = Inr ()"
proof -
  let ?p = "ch_params c"
  have shape: "bs \<noteq> []" "last bs = parent" "bi_height parent + 1 = int (length bs)"
    using branch_shape [OF assms(2)] by auto
  show ?thesis
  proof (cases "asertActive ?p (int (length bs))")
    case True
    have "0 < nat (ASERTMedianTimeBlocks ?p)" using median_window [OF assms(1) True] by simp
    then have "drop (length bs - nat (ASERTMedianTimeBlocks ?p)) (map bi_time bs) \<noteq> []"
      using shape(1) diff_less [of "nat (ASERTMedianTimeBlocks ?p)" "length bs"] by (simp add: not_le)
    moreover have "median_past (nat (ASERTMedianTimeBlocks ?p)) (map bi_time bs) < t"
      using True assms(3) by (simp add: timestamp_rule_def)
    ultimately show ?thesis
      using True assms(4) shape(3) collect_times_branch [OF assms(2)]
      by (simp add: checkBlockTimestamp_def Let_def median_past_def failIf_def)
  next
    case False
    then show ?thesis
      using assms(3,4) shape
      by (simp add: checkBlockTimestamp_def CheckTimestamp_def Let_def timestamp_rule_def last_map bi_time_def failIf_def)
  qed
qed

definition clock_ok :: "Params \<Rightarrow> int \<Rightarrow> int \<Rightarrow> int \<Rightarrow> bool" where
  "clock_ok p height now t \<longleftrightarrow> t \<le> wrap64 (now + (if asertActive p height then ASERTFutureDrift p else FutureDrift p))"

lemma check_header_iff:
  assumes "chain_inv K c" and "branch K (ch_params c) (ch_index c) parent bs"
  shows "check_header K c now b pow parent = Inr () \<longleftrightarrow>
    block_rules K (ch_params c) bs b \<and> clock_ok (ch_params c) (int (length bs)) now (hdr_Time (blk_Header b)) \<and>
    (pow \<longrightarrow> CheckPow K (ch_params c) (blk_Header b))" (is "?run \<longleftrightarrow> ?rules")
proof
  have h: "bi_height parent + 1 = int (length bs)" using branch_shape [OF assms(2)] by simp
  {
    assume ?run
    then have "checkBlockTimestamp c parent (bi_height parent + 1) (hdr_Time (blk_Header b)) now = Inr ()"
      by (auto simp: check_header_def bindE_Inr_iff failIf_Inr_iff Let_def)
    then have "clock_ok (ch_params c) (int (length bs)) now (hdr_Time (blk_Header b))"
      using checkBlockTimestamp_clock h by (simp add: clock_ok_def)
    then show ?rules using check_header_rules [OF assms \<open>?run\<close>] by blast
  next
    assume rules: ?rules
    have "sound_params (ch_params c)" using assms(1) by (simp add: chain_inv_def)
    then have "checkBlockTimestamp c parent (bi_height parent + 1) (hdr_Time (blk_Header b)) now = Inr ()"
      using rules h by (intro checkBlockTimestamp_complete [OF _ assms(2)]) (simp_all add: block_rules_def clock_ok_def)
    then show ?run
      using rules bitsOnBranch_required [OF assms]
      by (auto simp: check_header_def block_rules_def failIf_def Let_def)
  }
qed

lemma acceptBlock_complete:
  assumes inv: "chain_inv K c" and parent: "ch_index c (hdr_PrevBlock (blk_Header b)) = Some parent"
    and bs: "branch K (ch_params c) (ch_index c) parent bs"
    and hdr: "check_header K c now b pow parent = Inr ()"
    and led: "ledger_of K (ch_params c) (map bi_block bs @ [b]) \<noteq> None"
  shows "\<exists>c' r. acceptBlockLocked K c now b pow = (c', Inr r) \<and> ch_index c' (hdr_ID K (blk_Header b)) \<noteq> None"
proof (cases "ch_index c (hdr_ID K (blk_Header b))")
  case (Some bi)
  then show ?thesis by (simp add: acceptBlockLocked_def Let_def)
next
  case None
  let ?bi = "entry_for K parent b"
  note br = entry_for_branch [OF inv parent bs hdr]
  obtain u where u: "ledger_of K (ch_params c) (map bi_block (bs @ [?bi])) = Some u" using led by auto
  have replay: "replayBranch K c ?bi = Inr (u, map bi_id (bs @ [?bi]))"
    using replayBranch_branch [OF br] u by simp
  have tip: "parent = ch_tip c \<Longrightarrow> validateAndApplyLocked K (ch_params c) (ch_utxo c) b (bi_height parent + 1) = (u, Inr ())"
  proof -
    assume tip: "parent = ch_tip c"
    obtain bs' where "branch K (ch_params c) (ch_index c) (ch_tip c) bs'"
      "ledger_of K (ch_params c) (map bi_block bs') = Some (ch_utxo c)"
      using inv by (rule chain_invD)
    then have "ledger_of K (ch_params c) (map bi_block bs) = Some (ch_utxo c)"
      using bs tip branch_unique by blast
    then show ?thesis using u branch_shape [OF bs] by (simp add: ledger_of_snoc connectBlock_Some)
  qed
  have eq: "acceptBlockLocked K c now b pow =
      (if bi_cumWork ?bi \<le> bi_cumWork (ch_tip c) then (index_block ?bi c, Inr None)
       else
         (case (if parent = ch_tip c then connectTipLocked K c ?bi else connectBranch K c ?bi) of
            (c', Inl e) \<Rightarrow> (c', Inl e) | (c', Inr _) \<Rightarrow> (index_block ?bi c', Inr (Some ?bi))))"
    using replay unfolding acceptBlockLocked_def entry_for_def Let_def using None parent hdr by simp
  show ?thesis
    unfolding eq using tip replay by (auto simp: connectTipLocked_def connectBranch_def)
qed


section \<open>Properties\<close>

lemma PowHash_sample: "PowHash sample_crypto header p = 0"
proof -
  have zero: "le_nat (replicate n 0) = 0" for n by (induction n) simp_all
  have "hash_of (replicate 32 0) = of_nat (le_nat (replicate 32 0))"
    by (simp only: hash_of_def be_nat_def length_replicate copy_array_id rev_replicate)
  then have "hash_of (replicate 32 0) = 0" unfolding zero semiring_1_class.of_nat_0 .
  then show ?thesis by (simp only: PowHash_def sample_crypto_def crypto.simps)
qed

lemma CheckPow_sample: "hdr_Bits h = 0x207fffff \<Longrightarrow> CheckPow sample_crypto canonicalRegTestParams h"
proof -
  have "HashToBig 0 = 0" by (simp add: HashToBig_def hash_bytes_def be_nat_be_bytes)
  then show "hdr_Bits h = 0x207fffff \<Longrightarrow> ?thesis"
    by (simp add: CheckPow_def PowHash_sample MaxTarget_def CompactToTarget_def canonicalRegTestParams_def)
qed

lemma NewChain_sample: "\<exists>c. chain_init sample_crypto canonicalRegTestParams c"
proof -
  have "hdr_Bits (blk_Header (GenesisBlock sample_crypto canonicalRegTestParams)) = 0x207fffff"
    by (simp add: GenesisBlock_def Let_def canonicalRegTestParams_def)
  then have "CheckPow sample_crypto canonicalRegTestParams (blk_Header (GenesisBlock sample_crypto canonicalRegTestParams))"
    by (rule CheckPow_sample)
  moreover have "0 < RetargetInterval canonicalRegTestParams" by (simp add: canonicalRegTestParams_def)
  ultimately have "0 < RetargetInterval canonicalRegTestParams \<and> (\<exists>c. NewChain sample_crypto (Some canonicalRegTestParams) = Inr c)"
    unfolding NewChain_def
    by (simp only: option.case canonical_params_valid bindE_simps Let_def genesis_utxo not_True_eq_False failIf_simps) blast
  then show ?thesis by (simp add: chain_init_def)
qed

lemma chain_sample: "\<exists>c. chain_reach sample_crypto canonicalRegTestParams stored c"
  using NewChain_sample reach_init [of "chain_init sample_crypto canonicalRegTestParams" _ "chain_step sample_crypto stored"]
  by (elim exE) (rule exI)

lemma index_sample:
  assumes "chain_init sample_crypto canonicalRegTestParams c"
  shows "ch_index c = [0 \<mapsto> genesis_index sample_crypto canonicalRegTestParams]" and "ch_params c = canonicalRegTestParams"
    and "ch_tip c = genesis_index sample_crypto canonicalRegTestParams"
proof -
  have "hdr_ID sample_crypto (blk_Header (GenesisBlock sample_crypto canonicalRegTestParams)) = 0"
    by (simp add: hdr_ID_sample GenesisBlock_def Let_def canonicalRegTestParams_def)
  then show "ch_index c = [0 \<mapsto> genesis_index sample_crypto canonicalRegTestParams]" "ch_params c = canonicalRegTestParams"
    "ch_tip c = genesis_index sample_crypto canonicalRegTestParams"
    using assms by (auto simp: chain_init_def NewChain_def bindE_Inr_iff failIf_Inr_iff Let_def)
qed

text \<open>C1: In every reachable state the main chain is a sequence of linked entries from genesis to the tip,
  each obeying the consensus rules after its predecessors, and the live set of unspent outputs, which
  is maintained incrementally and across reorganisations, is the one obtained by replaying those
  blocks from nothing.\<close>

theorem best_chain_replays:
  assumes "chain_reach K p stored c"
  shows "\<exists>bs. ch_mainIDs c = map bi_id bs \<and> bs \<noteq> [] \<and> bs ! 0 = genesis_index K p \<and> last bs = ch_tip c \<and>
    (\<forall>i. 0 < i \<and> i < length bs \<longrightarrow> bi_prev (bs ! i) = bi_id (bs ! (i - 1)) \<and> follows K p (take i bs) (bs ! i)) \<and>
    ledger_of K p (map bi_block bs) = Some (ch_utxo c)"
proof -
  have inv: "chain_inv K c" "ch_params c = p" using assms reach_chain_inv reach_params by blast+
  obtain bs where bs: "branch K p (ch_index c) (ch_tip c) bs" "ch_mainIDs c = map bi_id bs"
    "ledger_of K p (map bi_block bs) = Some (ch_utxo c)"
    using chain_invD [OF inv(1)] inv(2) by metis
  have "bi_prev (bs ! i) = bi_id (bs ! (i - 1))" if "0 < i" "i < length bs" for i
    using branch_link [OF bs(1), of "i - 1"] that inv by (auto simp: chain_inv_def elim: index_invD)
  then show ?thesis using bs branch_shape [OF bs(1)] branch_nth_follows [OF bs(1)] by blast
qed

theorem best_chain_replays_witness:
  "\<exists>c bs. chain_reach sample_crypto canonicalRegTestParams True c \<and> bs ! 0 = genesis_index sample_crypto canonicalRegTestParams \<and>
    ledger_of sample_crypto canonicalRegTestParams (map bi_block bs) = Some (ch_utxo c)"
  using chain_sample [of True] best_chain_replays [of sample_crypto canonicalRegTestParams True] by blast

text \<open>C2: In every reachable state the unspent outputs total at most the subsidies issued up to the tip,
  hence at most 21 million coins.\<close>

theorem supply_capped:
  assumes "chain_reach K p stored c"
  shows "utxo_total (ch_utxo c) \<le> (\<Sum>h<nat (bi_height (ch_tip c) + 1). SubsidyAt (int h)) \<and>
    utxo_total (ch_utxo c) \<le> MaxMoneyUnits"
proof -
  have inv: "chain_inv K c" "ch_params c = p" using assms reach_chain_inv reach_params by blast+
  obtain bs where bs: "branch K p (ch_index c) (ch_tip c) bs" "ledger_of K p (map bi_block bs) = Some (ch_utxo c)"
    using chain_invD [OF inv(1)] inv(2) by metis
  have "nat (bi_height (ch_tip c) + 1) = length bs" using branch_shape [OF bs(1)] by simp
  then show ?thesis using ledger_of_supply [OF bs(2)] subsidy_sum_le [of "length bs"] by simp
qed

theorem supply_capped_witness:
  "\<exists>c. chain_reach sample_crypto canonicalRegTestParams True c \<and> utxo_total (ch_utxo c) \<le> MaxMoneyUnits"
  using chain_sample [of True] supply_capped by blast

text \<open>C5: The tip of a reachable chain is an indexed block, and no indexed block has more cumulative work.\<close>

theorem tip_has_most_work:
  assumes "chain_reach K p stored c"
  shows "ch_index c (bi_id (ch_tip c)) = Some (ch_tip c) \<and> (\<forall>bi\<in>ran (ch_index c). bi_cumWork bi \<le> bi_cumWork (ch_tip c))"
  using reach_chain_inv [OF assms] by (simp add: chain_inv_def)

theorem tip_has_most_work_witness:
  "\<exists>c. chain_reach sample_crypto canonicalRegTestParams True c \<and> ch_index c (bi_id (ch_tip c)) = Some (ch_tip c)"
  using chain_sample [of True] tip_has_most_work by blast

text \<open>C22: Any run of operations from a reachable state only adds to the index, and either keeps the best
  chain and its ledger or moves to a tip of strictly more work: ties stay with the first block seen.\<close>

theorem tip_only_improves:
  assumes "chain_reach K p stored c" and "(chain_step K stored)\<^sup>*\<^sup>* c c'"
  shows "ch_index c \<subseteq>\<^sub>m ch_index c' \<and>
    (ch_tip c' = ch_tip c \<and> ch_mainIDs c' = ch_mainIDs c \<and> ch_utxo c' = ch_utxo c \<or>
     bi_cumWork (ch_tip c) < bi_cumWork (ch_tip c'))"
  using steps_advance [OF reach_chain_inv [OF assms(1)] assms(2)] by (simp add: tip_advances_def)

theorem tip_only_improves_witness:
  "\<exists>c c'. chain_reach sample_crypto canonicalRegTestParams True c \<and> chain_step sample_crypto True c c' \<and>
    ch_index c \<subseteq>\<^sub>m ch_index c'"
proof -
  obtain c where c: "chain_reach sample_crypto canonicalRegTestParams True c" using chain_sample by blast
  obtain c' r where "AcceptTxWithResult sample_crypto c None = (c', r)" by (rule prod.exhaust)
  then have "chain_step sample_crypto True c c'" by (rule step_tx)
  then show ?thesis using c tip_only_improves [OF c r_into_rtranclp] by blast
qed

text \<open>C3: A block refused by a reachable chain is refused with an error the code returns, never a crash
  or an endless walk, and leaves the whole chain state as it was.\<close>

theorem refused_block_changes_nothing:
  assumes "chain_reach K p stored c" and "acceptBlockLocked K c now b pow = (c', Inl e)"
  shows "returned e \<and> c' = c"
  using acceptBlock_Inl [OF reach_chain_inv [OF assms(1)] assms(2)] .

theorem refused_block_changes_nothing_witness:
  "\<exists>c c' e. chain_reach sample_crypto canonicalRegTestParams True c \<and>
    acceptBlockLocked sample_crypto c 0 sample_block True = (c', Inl e) \<and> returned e \<and> c' = c"
proof -
  obtain c where c: "chain_init sample_crypto canonicalRegTestParams c" using NewChain_sample by blast
  then have r0: "chain_reach sample_crypto canonicalRegTestParams True c" by (rule reach_init)
  have "acceptBlockLocked sample_crypto c 0 sample_block True = (c, Inl (Err ''orphan: unknown parent''))"
    by (simp add: acceptBlockLocked_def Let_def index_sample [OF c] hdr_ID_sample sample_block_def)
  then show ?thesis using refused_block_changes_nothing [OF r0] r0 by blast
qed

text \<open>A block with a known parent passes the header checks of a reachable chain exactly when it obeys
  the consensus rules after its parent's branch, its time is within the allowed drift of the
  clock, and it meets its proof of work where that is checked; the difficulty it is held to is the one
  the rule gives on that branch, whether computed through the main chain or the index.\<close>

theorem header_checks_exact:
  assumes "chain_reach K p stored c" and "branch K p (ch_index c) parent bs"
  shows "bitsOnBranch c parent (bi_height parent + 1) = required_bits p bs \<and>
    (check_header K c now b pow parent = Inr () \<longleftrightarrow>
     block_rules K p bs b \<and> clock_ok p (int (length bs)) now (hdr_Time (blk_Header b)) \<and>
     (pow \<longrightarrow> CheckPow K p (blk_Header b)))"
  using check_header_iff [of K c parent bs] bitsOnBranch_required [of K c parent bs]
    reach_chain_inv [OF assms(1)] reach_params [OF assms(1)] assms(2) by auto

theorem header_checks_exact_witness:
  "\<exists>c. chain_reach sample_crypto canonicalRegTestParams True c \<and>
    bitsOnBranch c (genesis_index sample_crypto canonicalRegTestParams) 1 =
      required_bits canonicalRegTestParams [genesis_index sample_crypto canonicalRegTestParams]"
  using chain_sample [of True]
    header_checks_exact [OF _ branch_root, where K = sample_crypto and p = canonicalRegTestParams and stored = True]
  by fastforce

text \<open>C4: Every block that passes the header checks and whose branch replays to a ledger is accepted into
  the index of a reachable chain, whether it extends the tip, a side branch, or causes a reorganisation.\<close>

theorem valid_block_accepted:
  assumes "chain_reach K p stored c" and "ch_index c (hdr_PrevBlock (blk_Header b)) = Some parent"
    and "branch K p (ch_index c) parent bs" and "check_header K c now b pow parent = Inr ()"
    and "ledger_of K p (map bi_block bs @ [b]) \<noteq> None"
  shows "\<exists>c' r. acceptBlockLocked K c now b pow = (c', Inr r) \<and> ch_index c' (hdr_ID K (blk_Header b)) \<noteq> None"
  using acceptBlock_complete [OF reach_chain_inv [OF assms(1)] assms(2)] reach_params [OF assms(1)] assms(3-5) by simp

text \<open>A block on top of the regression-test genesis.\<close>

definition sample_coinbase :: Tx where
  "sample_coinbase = NewCoinbase 1 5000000000 7 ''m''"

definition sample_child :: Block where
  "sample_child =
     \<lparr>blk_Header = \<lparr>hdr_Version = 1, hdr_PrevBlock = 0, hdr_MerkleRoot = tx_ID sample_crypto sample_coinbase,
        hdr_Time = 1751738400, hdr_Bits = 0x207fffff, hdr_Nonce = 1\<rparr>, blk_Txs = [Some sample_coinbase]\<rparr>"

lemma sample_child_connects:
  "checkBlockSanity sample_crypto sample_child = Inr ()"
  "connectBlock sample_crypto canonicalRegTestParams u sample_child 1 \<noteq> None"
proof -
  have good: "good_outs (tx_Outs sample_coinbase)"
    by (simp add: sample_coinbase_def NewCoinbase_def good_outs_def MaxMoneyUnits_eq)
  then have "sane_txs sample_crypto [sample_coinbase]"
    by (simp add: sane_txs_def sane_tx_def sample_coinbase_def NewCoinbase_def IsCoinbase_def)
  then show sane: "checkBlockSanity sample_crypto sample_child = Inr ()"
    unfolding checkBlockSanity_iff by (intro exI [of _ "[sample_coinbase]"]) (simp add: sample_child_def)
  have "connects sample_crypto canonicalRegTestParams 1 u [sample_coinbase] (spendAndCreate sample_crypto u sample_coinbase 1 True)"
    using good by (simp add: connects_def SubsidyAt_1 sample_coinbase_def NewCoinbase_def MaxMoneyUnits_eq)
  then have "validateAndApplyLocked sample_crypto canonicalRegTestParams u sample_child 1 =
      (spendAndCreate sample_crypto u sample_coinbase 1 True, Inr ())"
    unfolding validateAndApplyLocked_iff by (intro exI [of _ "[sample_coinbase]"]) (simp add: sample_child_def)
  then show "connectBlock sample_crypto canonicalRegTestParams u sample_child 1 \<noteq> None"
    using sane by (simp add: connectBlock_def)
qed

lemma sample_child_rules:
  "block_rules sample_crypto canonicalRegTestParams [genesis_index sample_crypto canonicalRegTestParams] sample_child"
proof -
  have bytes: "\<exists>raw. blk_Bytes sample_child = Inr raw \<and> length raw \<le> MaxBlockBytes"
    by (simp add: blk_Bytes_def sample_child_def sample_coinbase_def NewCoinbase_def tx_Bytes_def serialize_def
        enc_TxIn_def enc_TxOut_def writeBytes_def put_uvarint_small u64_of_def MaxBlockBytes_def string_bytes_def)
  have bits: "required_bits canonicalRegTestParams [genesis_index sample_crypto canonicalRegTestParams] = Inr 0x207fffff"
    by (simp add: required_bits_def NextBits_def asertActive_def entry_at_def GenesisBlock_def Let_def
        canonicalRegTestParams_def signed_modulo_int_def)
  have time: "timestamp_rule canonicalRegTestParams (map bi_time [genesis_index sample_crypto canonicalRegTestParams]) 1751738400"
    by (simp add: timestamp_rule_def asertActive_def bi_time_def GenesisBlock_def Let_def canonicalRegTestParams_def wrap64_def)
  have "MerkleRoot sample_crypto (blk_Txs sample_child) = Inr (hdr_MerkleRoot (blk_Header sample_child))"
    by (simp add: sample_child_def MerkleRoot_def merkle_loop.simps)
  then show ?thesis
    using bytes bits time sample_child_connects(1) by (simp add: block_rules_def sample_child_def)
qed

lemma sample_child_header:
  assumes "chain_init sample_crypto canonicalRegTestParams c"
  shows "check_header sample_crypto c 1751738400 sample_child True (genesis_index sample_crypto canonicalRegTestParams) = Inr ()"
proof -
  have inv: "chain_inv sample_crypto c" using chain_machine.init_inv [OF assms] ..
  have "clock_ok canonicalRegTestParams 1 1751738400 (hdr_Time (blk_Header sample_child))"
    by (simp add: clock_ok_def asertActive_def canonicalRegTestParams_def sample_child_def wrap64_def)
  moreover have "CheckPow sample_crypto canonicalRegTestParams (blk_Header sample_child)"
    by (rule CheckPow_sample) (simp add: sample_child_def)
  ultimately show ?thesis
    using check_header_iff [OF inv branch_root] sample_child_rules index_sample(2) [OF assms] by simp
qed

theorem valid_block_accepted_witness:
  "\<exists>c c' r. chain_reach sample_crypto canonicalRegTestParams False c \<and>
    acceptBlockLocked sample_crypto c 1751738400 sample_child True = (c', Inr r) \<and> ch_index c' 1 \<noteq> None"
proof -
  obtain c where c: "chain_init sample_crypto canonicalRegTestParams c" using NewChain_sample by blast
  then have r0: "chain_reach sample_crypto canonicalRegTestParams False c" by (rule reach_init)
  have "ledger_of sample_crypto canonicalRegTestParams [GenesisBlock sample_crypto canonicalRegTestParams, sample_child] \<noteq> None"
    using ledger_of_snoc [of sample_crypto canonicalRegTestParams "[GenesisBlock sample_crypto canonicalRegTestParams]" sample_child]
      ledger_genesis sample_child_connects(2) by simp
  then have "\<exists>c' r. acceptBlockLocked sample_crypto c 1751738400 sample_child True = (c', Inr r) \<and>
      ch_index c' (hdr_ID sample_crypto (blk_Header sample_child)) \<noteq> None"
    using index_sample(1) [OF c]
    by (intro valid_block_accepted [OF r0 _ branch_root sample_child_header [OF c]])
      (simp_all add: sample_child_def)
  moreover have "hdr_ID sample_crypto (blk_Header sample_child) = 1" by (simp add: hdr_ID_sample sample_child_def)
  ultimately show ?thesis using r0 by fastforce
qed

text \<open>C23: In every reachable state the mempool holds each transaction under its id, no two of them spend the
  same output, and each is valid in the next block.\<close>

theorem mempool_always_minable:
  assumes "chain_reach K p stored c"
  shows "distinct (map fst (ch_mempool c)) \<and> distinct (spent_by (map snd (ch_mempool c))) \<and>
    (\<forall>(hid, tx)\<in>set (ch_mempool c). hid = tx_ID K tx \<and> \<not> IsCoinbase tx \<and>
       (\<exists>fee. checkTxLocked K p (ch_utxo c) tx (bi_height (ch_tip c) + 1) = Inr fee))"
  using reach_chain_inv [OF assms] reach_params [OF assms] by (simp add: chain_inv_def mempool_inv_def)

theorem mempool_always_minable_witness:
  "\<exists>c. chain_reach sample_crypto canonicalRegTestParams True c \<and> distinct (map fst (ch_mempool c))"
  using chain_sample [of True] mempool_always_minable by blast

text \<open>C24: A chain that has taken blocks from the network only has proof of work behind every indexed block.\<close>

theorem every_block_has_work:
  assumes "chain_reach K p False c" and "ch_index c hid = Some bi"
  shows "CheckPow K p (bi_header bi)"
  using pow_machine.reach_inv [OF assms(1)] reach_params [OF assms(1)] ranI [of "ch_index c" hid bi] assms(2)
  by (auto simp: pow_inv_def)

theorem every_block_has_work_witness:
  "CheckPow sample_crypto canonicalRegTestParams (bi_header (genesis_index sample_crypto canonicalRegTestParams))"
proof -
  obtain c where c: "chain_reach sample_crypto canonicalRegTestParams False c" using chain_sample by blast
  then have "ch_index c (bi_id (genesis_index sample_crypto canonicalRegTestParams)) = Some (genesis_index sample_crypto canonicalRegTestParams)"
    using reach_chain_inv [OF c] reach_params [OF c] by (simp add: chain_inv_def index_inv_def)
  then show ?thesis using every_block_has_work [OF c] by blast
qed

section \<open>A chain of one block\<close>

definition child_index :: blockIndex where
  "child_index = \<lparr>bi_block = sample_child, bi_height = 1,
     bi_cumWork = bi_cumWork (genesis_index sample_crypto canonicalRegTestParams) + WorkFromTarget (CompactToTarget 0x207fffff), bi_id = 1\<rparr>"

lemma sample_grown:
  obtains c where "chain_reach sample_crypto canonicalRegTestParams stored c" and "ch_mempool c = []" and "ch_tip c = child_index"
    and "ch_mainIDs c = [bi_id (genesis_index sample_crypto canonicalRegTestParams), 1]"
proof -
  let ?p = canonicalRegTestParams and ?g = "genesis_index sample_crypto canonicalRegTestParams"
  obtain c where c: "chain_init sample_crypto ?p c" using NewChain_sample by blast
  then have r: "chain_reach sample_crypto ?p stored c" by (rule reach_init)
  note idx = index_sample [OF c]
  have init: "ch_mempool c = []" "ch_mainIDs c = [bi_id ?g]"
    using c by (auto simp: chain_init_def NewChain_def bindE_Inr_iff failIf_Inr_iff Let_def genesis_index_def)
  have "0 < WorkFromTarget (CompactToTarget 0x207fffff)" by (simp add: WorkFromTarget_def CompactToTarget_def)
  moreover obtain u where u: "validateAndApplyLocked sample_crypto ?p (ch_utxo c) sample_child 1 = (u, Inr ())"
    using sample_child_connects(2) [of "ch_utxo c"] by (auto simp: connectBlock_def split: prod.splits sum.splits if_splits)
  moreover have "hdr_ID sample_crypto (blk_Header sample_child) = 1" by (simp add: hdr_ID_sample sample_child_def)
  moreover have "hdr_PrevBlock (blk_Header sample_child) = 0" "hdr_Bits (blk_Header sample_child) = 0x207fffff" by (simp_all add: sample_child_def)
  moreover have "bi_height ?g = 0" by (simp add: genesis_index_def Let_def)
  ultimately have acc: "acceptBlockLocked sample_crypto c 1751738400 sample_child True =
      (index_block child_index (c\<lparr>ch_utxo := u, ch_mainIDs := [bi_id ?g, 1], ch_tip := child_index\<rparr>), Inr (Some child_index))"
    using idx init sample_child_header [OF c]
    by (simp add: acceptBlockLocked_def Let_def connectTipLocked_def evictMempoolLocked_def child_index_def)
  define c1 where "c1 = index_block child_index (c\<lparr>ch_utxo := u, ch_mainIDs := [bi_id ?g, 1], ch_tip := child_index\<rparr>)"
  have "AcceptBlock sample_crypto c 1751738400 (Some sample_child) = (c1, Inr (), Some (bi_block child_index, bi_height child_index))"
    unfolding c1_def by (simp only: AcceptBlock_def accept_with_def option.case acc prod.case sum.case)
  then have "chain_step sample_crypto stored c c1" by (rule step_block)
  with r have "chain_reach sample_crypto ?p stored c1" by (rule reach_step)
  moreover have "ch_mempool c1 = []" "ch_tip c1 = child_index" "ch_mainIDs c1 = [bi_id ?g, 1]"
    using init by (simp_all add: c1_def index_block_def)
  ultimately show ?thesis by (rule that)
qed

end
