(* ===== verification/ChainView.thy ===== *)
theory ChainView
  imports ChainTheorems
begin

text \<open>
  The read snapshots of \<^verbatim>\<open>core/chain.go\<close>: the canonical tip, validation of the whole canonical
  sequence, lookup of blocks and transactions, the confirmed output history of an address, and
  the detached main-chain snapshot the store writes. Each validates the chain's own bookkeeping
  and returns an error when it is inconsistent; the theorems show that on reachable chains it
  never is, and what the answers mean.
\<close>

section \<open>Snapshot records\<close>

record ChainTipSnapshot =
  ts_Network :: string
  ts_Hash :: Hash32
  ts_Height :: int

record BlockLookupSnapshot =
  bl_Network :: string
  bl_Tip :: ChainTipSnapshot
  bl_Found :: bool
  bl_Hash :: Hash32
  bl_Height :: int
  bl_Canonical :: bool

definition TransactionStatusUnknown :: string where
  "TransactionStatusUnknown = ''unknown''"

definition TransactionStatusMempool :: string where
  "TransactionStatusMempool = ''mempool''"

definition TransactionStatusConfirmed :: string where
  "TransactionStatusConfirmed = ''confirmed''"

record TransactionLookupSnapshot =
  tl_Network :: string
  tl_Tip :: ChainTipSnapshot
  tl_TxID :: Hash32
  tl_Status :: string
  tl_BlockHash :: Hash32
  tl_BlockHeight :: int
  tl_Confirmations :: int

record ConfirmedSpend =
  cs_TxID :: Hash32
  cs_InputIndex :: uint32
  cs_BlockHash :: Hash32
  cs_BlockHeight :: int

record ConfirmedAddressOutput =
  co_TxID :: Hash32
  co_TransactionIndex :: uint32
  co_Vout :: uint32
  co_AmountUnits :: int
  co_BlockHash :: Hash32
  co_BlockHeight :: int
  co_Confirmations :: int
  co_Coinbase :: bool
  co_Mature :: bool
  co_SpentBy :: "ConfirmedSpend option"

record AddressOutputSnapshot =
  ao_Network :: string
  ao_Complete :: bool
  ao_Tip :: ChainTipSnapshot
  ao_Outputs :: "ConfirmedAddressOutput list"

section \<open>The canonical chain\<close>

definition canonicalBlockIndexLocked :: "crypto \<Rightarrow> Chain \<Rightarrow> int \<Rightarrow> Hash32 \<Rightarrow> blockIndex res" where
  "canonicalBlockIndexLocked K c height hid =
     (case ch_index c hid of
        None \<Rightarrow> Inl (Err ''canonical block index is inconsistent'')
      | Some bi \<Rightarrow>
          failIf (bi_height bi \<noteq> height \<or> bi_id bi \<noteq> hid \<or> hdr_ID K (bi_header bi) \<noteq> hid)
            (Err ''canonical block index is inconsistent'') (Inr bi))"

definition canonicalTipSnapshotLocked :: "crypto \<Rightarrow> Chain \<Rightarrow> ChainTipSnapshot res" where
  "canonicalTipSnapshotLocked K c =
     bindE (CanonicalNetworkID (Some (ch_params c))) (\<lambda>network.
     let tip = ch_tip c; ids = ch_mainIDs c in
     failIf (bi_height tip < 0 \<or> int (length ids) \<noteq> bi_height tip + 1 \<or> ids = [] \<or> last ids \<noteq> bi_id tip)
       (Err ''canonical tip is inconsistent'')
     (failIf (ch_index c (bi_id tip) \<noteq> Some tip \<or> hdr_ID K (bi_header tip) \<noteq> bi_id tip)
       (Err ''canonical tip index is inconsistent'')
     (let genesisID = ids ! 0 in
      case canonicalBlockIndexLocked K c 0 genesisID of
        Inl _ \<Rightarrow> Inl (Err ''canonical genesis index is inconsistent'')
      | Inr genesis \<Rightarrow>
          failIf (genesisID \<noteq> hdr_ID K (blk_Header (GenesisBlock K (ch_params c))))
            (Err ''canonical genesis index is inconsistent'')
          (let ok = Inr \<lparr>ts_Network = network, ts_Hash = bi_id tip, ts_Height = bi_height tip\<rparr> in
           if bi_height tip = 0 then failIf (tip \<noteq> genesis) (Err ''canonical genesis tip is inconsistent'') ok
           else failIf (bi_prev tip \<noteq> ids ! (length ids - 2))
             (Err ''canonical tip parent linkage is inconsistent'') ok))))"

text \<open>The loop over the canonical ids: the validated entries, the last id and the accumulated work.\<close>

fun sequence_loop ::
  "crypto \<Rightarrow> Chain \<Rightarrow> nat \<Rightarrow> Hash32 \<Rightarrow> int option \<Rightarrow> Hash32 list \<Rightarrow> (blockIndex list \<times> Hash32 \<times> int option) res"
where
  "sequence_loop K c height previousID work [] = Inr ([], previousID, work)"
| "sequence_loop K c height previousID work (hid # rest) =
     (case ch_index c hid of
        None \<Rightarrow> Inl (Err ''canonical block is incomplete'')
      | Some bi \<Rightarrow>
          failIf (bi_id bi \<noteq> hid \<or> bi_height bi \<noteq> int height \<or> hdr_ID K (bi_header bi) \<noteq> hid)
            (Err ''canonical block identity mismatch'')
          (let blockWork = WorkFromTarget (CompactToTarget (hdr_Bits (bi_header bi)));
               expectedWork = (case work of None \<Rightarrow> blockWork | Some w \<Rightarrow> w + blockWork) in
           failIf (bi_cumWork bi \<le> 0 \<or> bi_cumWork bi \<noteq> expectedWork) (Err ''canonical block work mismatch'')
           (bindE (if height = 0
                   then bindE (blk_Bytes (bi_block bi)) (\<lambda>raw.
                        bindE (blk_Bytes (GenesisBlock K (ch_params c))) (\<lambda>graw.
                        failIf (raw \<noteq> graw) (Err ''canonical genesis mismatch'') (Inr ())))
                   else Inr ()) (\<lambda>_.
            failIf (height > 0 \<and> bi_prev bi \<noteq> previousID) (Err ''canonical block parent mismatch'')
            (bindE (MerkleRoot K (blk_Txs (bi_block bi))) (\<lambda>root.
             failIf (root \<noteq> hdr_MerkleRoot (bi_header bi)) (Err ''canonical block merkle mismatch'')
             (bindE (sequence_loop K c (Suc height) hid (Some expectedWork) rest) (\<lambda>(bis, lastID, w).
              Inr (bi # bis, lastID, w)))))))))"

definition validatedCanonicalSequenceLocked :: "crypto \<Rightarrow> Chain \<Rightarrow> blockIndex list res" where
  "validatedCanonicalSequenceLocked K c =
     (let tip = ch_tip c; ids = ch_mainIDs c in
      failIf (bi_cumWork tip \<le> 0 \<or> bi_height tip < 0 \<or> ids = [] \<or> int (length ids) \<noteq> bi_height tip + 1 \<or>
              last ids \<noteq> bi_id tip) (Err ''canonical sequence metadata is inconsistent'')
      (failIf (ch_index c (bi_id tip) \<noteq> Some tip) (Err ''canonical tip metadata is detached'')
      (bindE (sequence_loop K c 0 0 None ids) (\<lambda>(sequence, previousID, expectedWork).
       failIf (last sequence \<noteq> tip \<or> previousID \<noteq> bi_id tip \<or> expectedWork \<noteq> Some (bi_cumWork tip))
         (Err ''canonical tip does not match the validated sequence'') (Inr sequence)))))"

section \<open>Lookups\<close>

definition LookupBlock :: "crypto \<Rightarrow> Chain \<Rightarrow> Hash32 \<Rightarrow> BlockLookupSnapshot res" where
  "LookupBlock K c hid =
     bindE (canonicalTipSnapshotLocked K c) (\<lambda>tip.
     let result = \<lparr>bl_Network = ts_Network tip, bl_Tip = tip, bl_Found = False, bl_Hash = hid, bl_Height = -1,
                   bl_Canonical = False\<rparr> in
     bindE (validatedCanonicalSequenceLocked K c) (\<lambda>canonical.
     case ch_index c hid of
       None \<Rightarrow> Inr result
     | Some bi \<Rightarrow>
         failIf (bi_height bi < 0 \<or> bi_id bi \<noteq> hid \<or> hdr_ID K (bi_header bi) \<noteq> hid)
           (Err ''block index entry is inconsistent'')
         (Inr (result\<lparr>bl_Found := True, bl_Height := bi_height bi,
            bl_Canonical := bi_height bi < int (length canonical) \<and> bi_id (canonical ! nat (bi_height bi)) = hid\<rparr>))))"

fun has_tx :: "crypto \<Rightarrow> Hash32 \<Rightarrow> Tx option list \<Rightarrow> bool res" where
  "has_tx K hid [] = Inr False"
| "has_tx K hid (ptx # rest) =
     (case ptx of None \<Rightarrow> Inl (Err ''nil transaction in canonical block'')
      | Some tx \<Rightarrow> if tx_ID K tx \<noteq> hid then has_tx K hid rest else Inr True)"

text \<open>The first canonical block with a transaction of that id, with its height.\<close>

fun find_tx :: "crypto \<Rightarrow> Hash32 \<Rightarrow> nat \<Rightarrow> blockIndex list \<Rightarrow> (nat \<times> Hash32) option res" where
  "find_tx K hid height [] = Inr None"
| "find_tx K hid height (bi # rest) =
     bindE (has_tx K hid (blk_Txs (bi_block bi))) (\<lambda>found.
       if found then Inr (Some (height, bi_id bi)) else find_tx K hid (Suc height) rest)"

definition LookupTransaction :: "crypto \<Rightarrow> Chain \<Rightarrow> Hash32 \<Rightarrow> TransactionLookupSnapshot res" where
  "LookupTransaction K c hid =
     bindE (canonicalTipSnapshotLocked K c) (\<lambda>tip.
     let result = \<lparr>tl_Network = ts_Network tip, tl_Tip = tip, tl_TxID = hid, tl_Status = TransactionStatusUnknown,
                   tl_BlockHash = 0, tl_BlockHeight = -1, tl_Confirmations = 0\<rparr> in
     bindE (validatedCanonicalSequenceLocked K c) (\<lambda>canonical.
     bindE (find_tx K hid 0 canonical) (\<lambda>found.
     case found of
       Some (height, blockID) \<Rightarrow>
         Inr (result\<lparr>tl_Status := TransactionStatusConfirmed, tl_BlockHash := blockID,
           tl_BlockHeight := int height, tl_Confirmations := ts_Height tip - int height + 1\<rparr>)
     | None \<Rightarrow>
         (case map_of (ch_mempool c) hid of
            None \<Rightarrow> Inr result
          | Some tx \<Rightarrow>
              failIf (tx_ID K tx \<noteq> hid) (Err ''mempool transaction index is inconsistent'')
              (Inr (result\<lparr>tl_Status := TransactionStatusMempool\<rparr>))))))"

section \<open>Address history\<close>

text \<open>The state of the scan: where each output of the address is in the list, and the list.\<close>

type_synonym scan = "(OutPoint \<Rightarrow> nat option) \<times> ConfirmedAddressOutput list"

definition scan_input ::
  "Hash32 \<Rightarrow> Hash32 \<Rightarrow> int \<Rightarrow> scan \<Rightarrow> nat \<times> TxIn \<Rightarrow> scan res"
where
  "scan_input txID blockID height st e =
     (case (st, e) of ((created, outputs), (inputIndex, input)) \<Rightarrow>
        case created (in_Prev input) of
          None \<Rightarrow> Inr st
        | Some k \<Rightarrow>
            failIf (co_SpentBy (outputs ! k) \<noteq> None) (Err ''canonical output has multiple confirmed spenders'')
            (Inr (created, outputs[k := (outputs ! k)\<lparr>co_SpentBy :=
               Some \<lparr>cs_TxID = txID, cs_InputIndex = of_nat inputIndex, cs_BlockHash = blockID,
                     cs_BlockHeight = height\<rparr>\<rparr>])))"

definition scan_output ::
  "Params \<Rightarrow> PKH \<Rightarrow> (Hash32 \<times> nat \<times> bool) \<Rightarrow> (Hash32 \<times> int \<times> int) \<Rightarrow> scan \<Rightarrow> nat \<times> TxOut \<Rightarrow> scan res"
where
  "scan_output p pkh txinfo blkinfo st e =
     (case (st, e) of ((created, outputs), (vout, out)) \<Rightarrow>
      case (txinfo, blkinfo) of ((txID, txIndex, coinbase), (blockID, height, confirmations)) \<Rightarrow>
        if out_PubKeyHash out \<noteq> pkh then Inr st
        else
          let op = OutPoint txID (of_nat vout) in
          failIf (created op \<noteq> None) (Err ''duplicate canonical address outpoint'')
          (Inr (created(op \<mapsto> length outputs),
             outputs @ [\<lparr>co_TxID = txID, co_TransactionIndex = of_nat txIndex, co_Vout = of_nat vout,
               co_AmountUnits = out_Value out, co_BlockHash = blockID, co_BlockHeight = height,
               co_Confirmations = confirmations, co_Coinbase = coinbase,
               co_Mature = (\<not> coinbase \<or> confirmations \<ge> CoinbaseMaturity p), co_SpentBy = None\<rparr>])))"

definition scan_tx ::
  "crypto \<Rightarrow> Params \<Rightarrow> PKH \<Rightarrow> (Hash32 \<times> int \<times> int) \<Rightarrow> scan \<Rightarrow> nat \<times> Tx option \<Rightarrow> scan res"
where
  "scan_tx K p pkh blkinfo st e =
     (case e of (txIndex, ptx) \<Rightarrow>
      case ptx of None \<Rightarrow> Inl (Err ''nil transaction in canonical block'')
      | Some tx \<Rightarrow>
          bindE (foldE (scan_input (tx_ID K tx) (fst blkinfo) (fst (snd blkinfo))) st (enumerate 0 (tx_Ins tx))) (\<lambda>st1.
          foldE (scan_output p pkh (tx_ID K tx, txIndex, IsCoinbase tx) blkinfo) st1 (enumerate 0 (tx_Outs tx))))"

definition scan_block :: "crypto \<Rightarrow> Params \<Rightarrow> PKH \<Rightarrow> int \<Rightarrow> scan \<Rightarrow> nat \<times> blockIndex \<Rightarrow> scan res" where
  "scan_block K p pkh tipHeight st e =
     (case e of (height, bi) \<Rightarrow>
        foldE (scan_tx K p pkh (bi_id bi, int height, tipHeight - int height + 1)) st
          (enumerate 0 (blk_Txs (bi_block bi))))"

definition ConfirmedOutputsForPKH :: "crypto \<Rightarrow> Chain \<Rightarrow> PKH \<Rightarrow> AddressOutputSnapshot res" where
  "ConfirmedOutputsForPKH K c pkh =
     bindE (canonicalTipSnapshotLocked K c) (\<lambda>tip.
     bindE (validatedCanonicalSequenceLocked K c) (\<lambda>canonical.
     bindE (foldE (scan_block K (ch_params c) pkh (ts_Height tip)) (Map.empty, []) (enumerate 0 canonical))
       (\<lambda>(_, outputs).
     Inr \<lparr>ao_Network = ts_Network tip, ao_Complete = True, ao_Tip = tip, ao_Outputs = outputs\<rparr>)))"

section \<open>The main-chain snapshot\<close>

record canonicalMainSnapshot =
  cm_params :: Params
  cm_tipID :: Hash32
  cm_tipHeight :: int
  cm_cumWork :: int
  cm_blocks :: "Block list"

definition canonicalMainSnapshot_of :: "crypto \<Rightarrow> Chain \<Rightarrow> canonicalMainSnapshot res" where
  "canonicalMainSnapshot_of K c =
     bindE (validatedCanonicalSequenceLocked K c) (\<lambda>canonical.
     Inr \<lparr>cm_params = ch_params c, cm_tipID = bi_id (ch_tip c), cm_tipHeight = bi_height (ch_tip c),
          cm_cumWork = bi_cumWork (ch_tip c), cm_blocks = map bi_block (drop 1 canonical)\<rparr>)"

section \<open>The canonical chain validates\<close>

lemma main_indexed:
  assumes "chain_inv K c" and "branch K (ch_params c) (ch_index c) (ch_tip c) bs" and "x \<in> set bs"
  shows "ch_index c (bi_id x) = Some x"
  using branch_indexed [OF _ assms(2,3)] assms(1) unfolding chain_inv_def by metis

lemma branch_merkle:
  assumes "branch K p idx bi bs" and "i < length bs"
  shows "MerkleRoot K (blk_Txs (bi_block (bs ! i))) = Inr (hdr_MerkleRoot (bi_header (bs ! i)))"
proof (cases "i = 0")
  case True
  then show ?thesis using branch_shape [OF assms(1)] by (simp add: GenesisBlock_MerkleRoot)
next
  case False
  then show ?thesis using branch_nth_follows [OF assms(1)] assms(2) by (simp add: follows_def block_rules_def)
qed

lemma block_work_nonneg: "0 \<le> block_work b"
  by (simp add: block_work_def WorkFromTarget_nonneg)

lemma branch_work:
  assumes "branch K p idx bi bs" and "0 < i" and "i < length bs"
  shows "bi_cumWork (bs ! i) = bi_cumWork (bs ! (i - 1)) + block_work (bi_block (bs ! i))"
proof -
  have "last (take i bs) = bs ! (i - 1)" using assms(2,3) by (subst last_conv_nth) auto
  then show ?thesis using branch_nth_follows [OF assms] by (simp add: follows_def)
qed

lemma branch_work_pos:
  assumes "branch K p idx bi bs" and "0 < block_work (GenesisBlock K p)"
  shows "i < length bs \<Longrightarrow> 0 < bi_cumWork (bs ! i)"
proof (induction i)
  case 0
  then show ?case using branch_shape [OF assms(1)] assms(2) by simp
next
  case (Suc i)
  then show ?case using branch_work [OF assms(1), of "Suc i"] block_work_nonneg [of "bi_block (bs ! Suc i)"] by simp
qed

lemma genesis_bytes: "\<exists>raw. blk_Bytes (GenesisBlock K p) = Inr raw"
  by (simp add: GenesisBlock_def blk_Bytes_def Let_def)

lemma sequence_loop_branch:
  assumes inv: "chain_inv K c" and br: "branch K (ch_params c) (ch_index c) (ch_tip c) bs"
    and pos: "0 < block_work (GenesisBlock K (ch_params c))"
  shows "i \<le> length bs \<Longrightarrow> i = 0 \<and> w = None \<or> 0 < i \<and> prev = bi_id (bs ! (i - 1)) \<and> w = Some (bi_cumWork (bs ! (i - 1))) \<Longrightarrow>
    \<exists>l w'. sequence_loop K c i prev w (map bi_id (drop i bs)) = Inr (drop i bs, l, w') \<and>
      l = bi_id (last bs) \<and> w' = Some (bi_cumWork (last bs))"
proof (induction "length bs - i" arbitrary: i prev w)
  case 0
  then have "i = length bs" "0 < i" using branch_shape [OF br] by auto
  then show ?case using 0 branch_shape [OF br] by (auto simp: last_conv_nth)
next
  case (Suc n)
  then have i: "i < length bs" by simp
  let ?x = "bs ! i"
  have x: "ch_index c (bi_id ?x) = Some ?x" using main_indexed [OF inv br] i by simp
  have xid: "bi_id ?x = hdr_ID K (bi_header ?x)" using branch_entry_ids [OF br] i by simp
  have xw: "bi_cumWork ?x = (case w of None \<Rightarrow> block_work (bi_block ?x) | Some v \<Rightarrow> v + block_work (bi_block ?x))"
    using Suc.prems(2) i branch_work [OF br, of i] branch_shape [OF br] by auto
  have xp: "0 < i \<Longrightarrow> bi_prev ?x = prev"
    using Suc.prems(2) branch_link [OF br, of "i - 1"] i inv by (auto simp: chain_inv_def elim: index_invD)
  have x0: "i = 0 \<Longrightarrow> bi_block ?x = GenesisBlock K (ch_params c)" using branch_shape [OF br] by simp
  have "\<exists>l w'. sequence_loop K c (Suc i) (bi_id ?x) (Some (bi_cumWork ?x)) (map bi_id (drop (Suc i) bs))
      = Inr (drop (Suc i) bs, l, w') \<and> l = bi_id (last bs) \<and> w' = Some (bi_cumWork (last bs))"
    using Suc i by (intro Suc.hyps(1)) auto
  then show ?case
    using x xid xw xp x0 i branch_heights [OF br i] branch_merkle [OF br i] branch_work_pos [OF br pos i]
      genesis_bytes [of K "ch_params c"]
    by (auto simp: Cons_nth_drop_Suc [symmetric] block_work_def Let_def failIf_def split: option.splits)
qed

lemma validatedSequence_branch:
  assumes inv: "chain_inv K c" and br: "branch K (ch_params c) (ch_index c) (ch_tip c) bs"
    and ids: "ch_mainIDs c = map bi_id bs" and pos: "0 < block_work (GenesisBlock K (ch_params c))"
  shows "validatedCanonicalSequenceLocked K c = Inr bs"
proof -
  have shape: "bs \<noteq> []" "last bs = ch_tip c" "bi_height (ch_tip c) = int (length bs) - 1"
    using branch_shape [OF br] by auto
  then have "ch_index c (bi_id (ch_tip c)) = Some (ch_tip c)" using inv by (simp add: chain_inv_def)
  moreover have "0 < bi_cumWork (ch_tip c)"
    using branch_work_pos [OF br pos, of "length bs - 1"] shape by (simp add: last_conv_nth)
  moreover have "last (map bi_id bs) = bi_id (ch_tip c)" using shape by (simp add: last_map)
  moreover obtain l w' where "sequence_loop K c 0 0 None (map bi_id bs) = Inr (bs, l, w')" "l = bi_id (last bs)"
    "w' = Some (bi_cumWork (last bs))"
    using sequence_loop_branch [OF inv br pos, of 0 None 0] by auto
  ultimately show ?thesis using shape ids by (simp add: validatedCanonicalSequenceLocked_def failIf_def Let_def)
qed

lemma canonicalTip_branch:
  assumes inv: "chain_inv K c" and br: "branch K (ch_params c) (ch_index c) (ch_tip c) bs"
    and ids: "ch_mainIDs c = map bi_id bs" and net: "CanonicalNetworkID (Some (ch_params c)) = Inr network"
  shows "canonicalTipSnapshotLocked K c =
    Inr \<lparr>ts_Network = network, ts_Hash = bi_id (ch_tip c), ts_Height = bi_height (ch_tip c)\<rparr>"
proof -
  let ?g = "genesis_index K (ch_params c)"
  have shape: "bs \<noteq> []" "last bs = ch_tip c" "bi_height (ch_tip c) = int (length bs) - 1" "bs ! 0 = ?g"
    using branch_shape [OF br] by auto
  have tip: "ch_index c (bi_id (ch_tip c)) = Some (ch_tip c)" using inv by (simp add: chain_inv_def)
  have tid: "hdr_ID K (bi_header (ch_tip c)) = bi_id (ch_tip c)"
    using branch_entry_ids [OF br, of "ch_tip c"] shape last_in_set [of bs] by simp
  have g: "ch_index c (bi_id ?g) = Some ?g" using inv by (simp add: chain_inv_def index_inv_def)
  have last: "last (map bi_id bs) = bi_id (ch_tip c)" using shape by (simp add: last_map)
  have one: "length bs = 1 \<Longrightarrow> ch_tip c = ?g" using shape by (simp add: last_conv_nth)
  have prev: "length bs \<noteq> 1 \<Longrightarrow> bi_prev (ch_tip c) = map bi_id bs ! (length bs - 2)"
  proof -
    assume "length bs \<noteq> 1"
    then have two: "2 \<le> length bs" using shape(1) length_greater_0_conv [of bs] by linarith
    then have "Suc (length bs - 2) = length bs - 1" by simp
    then have "ch_index c (bi_prev (bs ! (length bs - 1))) = Some (bs ! (length bs - 2))"
      using branch_link [OF br, of "length bs - 2"] two by simp
    then show ?thesis
      using shape two inv by (auto simp: last_conv_nth chain_inv_def elim: index_invD)
  qed
  show ?thesis
    using shape net tip tid g last one prev
    by (auto simp: canonicalTipSnapshotLocked_def canonicalBlockIndexLocked_def ids failIf_def Let_def)
qed


section \<open>Meaning of the lookups\<close>

lemma has_tx_Some: "has_tx K hid (map Some txs) = Inr (\<exists>tx\<in>set txs. tx_ID K tx = hid)"
  by (induction txs) auto

lemma branch_txs:
  assumes "branch K p idx bi bs" and "x \<in> set bs"
  shows "\<exists>txs. blk_Txs (bi_block x) = map Some txs \<and> sane_txs K txs"
proof -
  obtain i where i: "i < length bs" "x = bs ! i" using assms(2) by (auto simp: in_set_conv_nth)
  have "checkBlockSanity K (bi_block x) = Inr ()"
  proof (cases "i = 0")
    case True
    then have "bi_block x = GenesisBlock K p" using i branch_shape [OF assms(1)] by simp
    moreover have "connectBlock K p Map.empty (GenesisBlock K p) 0 \<noteq> None"
      using ledger_genesis [of K p] by (auto simp: ledger_of_def split: option.splits)
    ultimately show ?thesis by (auto simp: connectBlock_Some)
  next
    case False
    then show ?thesis using branch_nth_follows [OF assms(1)] i by (simp add: follows_def block_rules_def)
  qed
  then show ?thesis by (simp add: checkBlockSanity_iff)
qed

definition contains_tx :: "crypto \<Rightarrow> Block \<Rightarrow> Hash32 \<Rightarrow> bool" where
  "contains_tx K b hid \<longleftrightarrow> (\<exists>tx. Some tx \<in> set (blk_Txs b) \<and> tx_ID K tx = hid)"

lemma find_tx_ok:
  assumes "\<And>x. x \<in> set bs \<Longrightarrow> \<exists>txs. blk_Txs (bi_block x) = map Some txs"
  shows "find_tx K hid h bs = Inr (case find (\<lambda>(i, x). contains_tx K (bi_block x) hid) (enumerate h bs) of
    None \<Rightarrow> None | Some (i, x) \<Rightarrow> Some (i, bi_id x))"
  using assms
proof (induction bs arbitrary: h)
  case Nil
  then show ?case by simp
next
  case (Cons b bs)
  obtain txs where txs: "blk_Txs (bi_block b) = map Some txs" using Cons.prems by fastforce
  then have "contains_tx K (bi_block b) hid \<longleftrightarrow> (\<exists>tx\<in>set txs. tx_ID K tx = hid)"
    by (auto simp: contains_tx_def)
  then show ?case using Cons txs by (simp add: has_tx_Some)
qed

lemma find_enumerate_Some:
  "find P (enumerate h xs) = Some (i, x) \<Longrightarrow>
     h \<le> i \<and> i - h < length xs \<and> x = xs ! (i - h) \<and> P (i, x) \<and> (\<forall>j<i - h. \<not> P (h + j, xs ! j))"
proof -
  assume "find P (enumerate h xs) = Some (i, x)"
  then obtain k where k: "k < length xs" "P (h + k, xs ! k)" "(i, x) = (h + k, xs ! k)"
    "\<forall>j<k. \<not> P (h + j, xs ! j)"
    by (auto simp: find_Some_iff nth_enumerate_eq)
  then show ?thesis by simp
qed

lemma find_enumerate_None: "find P (enumerate h xs) = None \<Longrightarrow> i < length xs \<Longrightarrow> \<not> P (h + i, xs ! i)"
  by (auto simp: find_None_iff in_set_enumerate_eq dest!: spec [of _ "h + i"])

section \<open>Properties\<close>

definition canonical_params :: "Params \<Rightarrow> bool" where
  "canonical_params p \<longleftrightarrow> p = canonicalMainNetParams \<or> p = canonicalRegTestParams"

lemma canonical_network: "canonical_params p \<Longrightarrow> \<exists>network. CanonicalNetworkID (Some p) = Inr network"
  by (auto simp: canonical_params_def CanonicalNetworkID_def)

lemma canonical_work: "canonical_params p \<Longrightarrow> 0 < block_work (GenesisBlock K p)"
  unfolding block_work_def canonical_params_def
  by (auto intro!: WorkFromTarget_pos
      simp: GenesisBlock_def Let_def CompactToTarget_def canonicalMainNetParams_def canonicalRegTestParams_def)

lemma reach_main:
  assumes "chain_reach K p stored c" and "canonical_params p"
  obtains bs network where "branch K p (ch_index c) (ch_tip c) bs" and "ch_mainIDs c = map bi_id bs"
    and "validatedCanonicalSequenceLocked K c = Inr bs"
    and "canonicalTipSnapshotLocked K c = Inr \<lparr>ts_Network = network, ts_Hash = bi_id (ch_tip c), ts_Height = bi_height (ch_tip c)\<rparr>"
    and "CanonicalNetworkID (Some p) = Inr network"
proof -
  have inv: "chain_inv K c" and p: "ch_params c = p" using assms(1) reach_chain_inv reach_params by blast+
  obtain bs where "branch K p (ch_index c) (ch_tip c) bs" "ch_mainIDs c = map bi_id bs"
    using chain_invD [OF inv] p by metis
  then show ?thesis
    using that canonicalTip_branch [OF inv] validatedSequence_branch [OF inv] p canonical_network [OF assms(2)]
      canonical_work [OF assms(2)] by metis
qed

text \<open>On a reachable chain of a canonical network the self-checks of the read snapshots never fail: the
  tip snapshot reports the network, id and height of the tip, and validating the canonical sequence
  (identities, heights, parent links, cumulative work, Merkle roots, the genesis bytes) returns the
  entries of the main chain.\<close>

theorem canonical_snapshots_consistent:
  assumes "chain_reach K p stored c" and "canonical_params p"
  shows "\<exists>network bs. CanonicalNetworkID (Some p) = Inr network \<and>
    canonicalTipSnapshotLocked K c = Inr \<lparr>ts_Network = network, ts_Hash = bi_id (ch_tip c), ts_Height = bi_height (ch_tip c)\<rparr> \<and>
    validatedCanonicalSequenceLocked K c = Inr bs \<and> map bi_id bs = ch_mainIDs c"
  using reach_main [OF assms] by metis

theorem canonical_snapshots_consistent_witness:
  "\<exists>c bs. chain_reach sample_crypto canonicalRegTestParams True c \<and> validatedCanonicalSequenceLocked sample_crypto c = Inr bs"
proof -
  obtain c where c: "chain_reach sample_crypto canonicalRegTestParams True c" using chain_sample by blast
  have "canonical_params canonicalRegTestParams" by (simp add: canonical_params_def)
  then show ?thesis using canonical_snapshots_consistent [OF c] c by blast
qed

text \<open>Looking up a block of a reachable chain answers whether it is indexed, and marks it canonical
  exactly when its id is one of the main chain's.\<close>

theorem LookupBlock_meaning:
  assumes "chain_reach K p stored c" and "canonical_params p"
  shows "\<exists>r. LookupBlock K c hid = Inr r \<and> bl_Hash r = hid \<and> (bl_Found r \<longleftrightarrow> HasBlock c hid) \<and>
    (bl_Canonical r \<longleftrightarrow> hid \<in> set (ch_mainIDs c))"
proof -
  have inv: "chain_inv K c" using assms(1) reach_chain_inv by blast
  have p: "ch_params c = p" using assms(1) reach_params by blast
  obtain bs network where bs: "branch K p (ch_index c) (ch_tip c) bs" "ch_mainIDs c = map bi_id bs"
    "validatedCanonicalSequenceLocked K c = Inr bs"
    "canonicalTipSnapshotLocked K c = Inr \<lparr>ts_Network = network, ts_Hash = bi_id (ch_tip c), ts_Height = bi_height (ch_tip c)\<rparr>"
    using reach_main [OF assms] by metis
  have main: "\<And>i. i < length bs \<Longrightarrow> ch_index c (bi_id (bs ! i)) = Some (bs ! i) \<and> bi_height (bs ! i) = int i"
    using main_indexed [OF inv] bs(1) p branch_heights [OF bs(1)] by simp
  show ?thesis
  proof (cases "ch_index c hid")
    case None
    then have "hid \<notin> set (ch_mainIDs c)" using main by (auto simp: bs(2) in_set_conv_nth)
    then show ?thesis using None bs by (simp add: LookupBlock_def HasBlock_def Let_def)
  next
    case (Some bi)
    obtain xs where x: "bi_id bi = hid" "branch K p (ch_index c) bi xs"
      using inv p Some by (auto simp: chain_inv_def elim: index_invD)
    then have "hdr_ID K (bi_header bi) = hid" "0 \<le> bi_height bi"
      using branch_entry_ids [OF x(2), of bi] branch_shape [OF x(2)] last_in_set [of xs] by (auto simp: Suc_leI)
    moreover have "(bi_height bi < int (length bs) \<and> bi_id (bs ! nat (bi_height bi)) = hid) \<longleftrightarrow> hid \<in> set (ch_mainIDs c)"
    proof
      assume "hid \<in> set (ch_mainIDs c)"
      then obtain i where "i < length bs" "bi_id (bs ! i) = hid" by (auto simp: bs(2) in_set_conv_nth)
      then show "bi_height bi < int (length bs) \<and> bi_id (bs ! nat (bi_height bi)) = hid"
        using main [of i] Some by simp
    next
      assume "bi_height bi < int (length bs) \<and> bi_id (bs ! nat (bi_height bi)) = hid"
      moreover have "nat (bi_height bi) < length bs" using calculation \<open>0 \<le> bi_height bi\<close> by linarith
      ultimately show "hid \<in> set (ch_mainIDs c)" by (auto simp: bs(2) intro!: image_eqI)
    qed
    ultimately show ?thesis
      using Some bs(3,4) x(1) by (auto simp: LookupBlock_def HasBlock_def Let_def failIf_def)
  qed
qed

theorem LookupBlock_meaning_witness:
  "\<exists>c r. chain_reach sample_crypto canonicalRegTestParams True c \<and> LookupBlock sample_crypto c 99 = Inr r \<and>
    (bl_Found r \<longleftrightarrow> HasBlock c 99)"
  using chain_sample [of True] LookupBlock_meaning [of sample_crypto canonicalRegTestParams True]
  by (fastforce simp: canonical_params_def)

text \<open>Looking up a transaction of a reachable chain reports it confirmed exactly when some main-chain block
  contains it, at the lowest such height and with the number of blocks from there to the tip as
  confirmations; otherwise as in the mempool exactly when it is there, and else unknown.\<close>

theorem LookupTransaction_meaning:
  assumes "chain_reach K p stored c" and "canonical_params p"
  shows "\<exists>r bs. LookupTransaction K c hid = Inr r \<and> ch_mainIDs c = map bi_id bs \<and>
    (\<forall>x\<in>set bs. ch_index c (bi_id x) = Some x) \<and>
    (if \<exists>x\<in>set bs. contains_tx K (bi_block x) hid then
       (\<exists>i<length bs. contains_tx K (bi_block (bs ! i)) hid \<and> (\<forall>j<i. \<not> contains_tx K (bi_block (bs ! j)) hid) \<and>
          tl_Status r = TransactionStatusConfirmed \<and> tl_BlockHash r = bi_id (bs ! i) \<and> tl_BlockHeight r = int i \<and>
          tl_Confirmations r = bi_height (ch_tip c) - int i + 1)
     else tl_Status r = (if hid \<in> fst ` set (ch_mempool c) then TransactionStatusMempool else TransactionStatusUnknown))"
proof -
  have inv: "chain_inv K c" using assms(1) reach_chain_inv by blast
  have p: "ch_params c = p" using assms(1) reach_params by blast
  obtain bs network where bs: "branch K p (ch_index c) (ch_tip c) bs" "ch_mainIDs c = map bi_id bs"
    "validatedCanonicalSequenceLocked K c = Inr bs"
    "canonicalTipSnapshotLocked K c = Inr \<lparr>ts_Network = network, ts_Hash = bi_id (ch_tip c), ts_Height = bi_height (ch_tip c)\<rparr>"
    using reach_main [OF assms] by metis
  let ?P = "\<lambda>(i, x). contains_tx K (bi_block x) hid"
  have ft: "find_tx K hid 0 bs = Inr (case find ?P (enumerate 0 bs) of None \<Rightarrow> None | Some (i, x) \<Rightarrow> Some (i, bi_id x))"
    using branch_txs [OF bs(1)] by (intro find_tx_ok) blast
  have idx: "\<forall>x\<in>set bs. ch_index c (bi_id x) = Some x" using main_indexed [OF inv] bs(1) p by simp
  show ?thesis
  proof (cases "find ?P (enumerate 0 bs)")
    case None
    then have none: "\<forall>x\<in>set bs. \<not> contains_tx K (bi_block x) hid"
      using find_enumerate_None [OF None] by (auto simp: in_set_conv_nth)
    have pool: "map_of (ch_mempool c) hid = Some tx \<Longrightarrow> tx_ID K tx = hid" for tx
      using inv map_of_SomeD [of "ch_mempool c" hid tx] by (auto simp: chain_inv_def mempool_inv_def)
    have member: "hid \<in> fst ` set (ch_mempool c) \<longleftrightarrow> map_of (ch_mempool c) hid \<noteq> None"
      by (simp add: map_of_eq_None_iff)
    show ?thesis
      using None none ft bs idx pool unfolding member
      by (cases "map_of (ch_mempool c) hid")
        (auto simp: LookupTransaction_def Let_def failIf_def intro!: exI [of _ bs])
  next
    case (Some ix)
    then obtain i x where ix: "find ?P (enumerate 0 bs) = Some (i, x)" by (cases ix) auto
    note f = find_enumerate_Some [OF ix]
    then show ?thesis
      using ix ft bs idx nth_mem [of i bs]
      by (auto simp: LookupTransaction_def Let_def intro!: exI [of _ bs] exI [of _ i])
  qed
qed

theorem LookupTransaction_meaning_witness:
  "\<exists>c r. chain_reach sample_crypto canonicalRegTestParams True c \<and> LookupTransaction sample_crypto c 99 = Inr r"
  using chain_sample [of True] LookupTransaction_meaning [of sample_crypto canonicalRegTestParams True _ 99]
  by (fastforce simp: canonical_params_def)

end
