(* ===== verification/WalletTheorems.thy ===== *)
theory WalletTheorems
  imports WalletView
begin

text \<open>
  The wallet's scan of the canonical blocks agrees with the chain's ledger: whenever the scan
  succeeds, the outputs it believes unspent are exactly the unspent outputs, although it processes
  the coinbase of a block first and the ledger applies it last.
\<close>

section \<open>The ledger a scan stands for\<close>

definition wallet_entry :: "canonicalWalletOutput \<Rightarrow> UTXOEntry" where
  "wallet_entry w = \<lparr>ue_Value = cw_value w, ue_PKH = cw_pkh w, ue_Height = cw_height w, ue_Coinbase = cw_coinbase w\<rparr>"

definition scan_ledger :: "created_map \<Rightarrow> utxo_map" where
  "scan_ledger created =
     (\<lambda>op. case map_of created op of None \<Rightarrow> None | Some w \<Rightarrow> if cw_spent w then None else Some (wallet_entry w))"

text \<open>Keys are distinct, and an output is filed under its own outpoint with the right owner.\<close>

definition scan_ok :: "owner_map \<Rightarrow> created_map \<Rightarrow> bool" where
  "scan_ok owners created \<longleftrightarrow>
     distinct (map fst created) \<and>
     (\<forall>(op, w)\<in>set created. cw_outpoint w = op \<and> (cw_owned w \<longleftrightarrow> owners (cw_pkh w) \<noteq> None) \<and>
        (cw_owned w \<longrightarrow> owners (cw_pkh w) = Some (cw_ownerIndex w)))"

lemma scan_ledger_Nil [simp]: "scan_ledger [] = Map.empty"
  by (simp add: scan_ledger_def)

lemma fst_mark_spent [simp]: "map fst (mark_spent op created) = map fst created"
  by (induction created) (auto simp: mark_spent_def)

lemma scan_ok_mark: "scan_ok owners created \<Longrightarrow> scan_ok owners (mark_spent op created)"
  unfolding scan_ok_def fst_mark_spent by (auto simp: mark_spent_def split: if_splits)

lemma map_of_mark_spent:
  "map_of (mark_spent op created) x =
     (if x = op then map_option (\<lambda>w. w\<lparr>cw_spent := True\<rparr>) (map_of created x) else map_of created x)"
  by (induction created) (auto simp: mark_spent_def)

lemma scan_ledger_mark: "scan_ledger (mark_spent op created) = (scan_ledger created)(op := None)"
  by (auto simp: scan_ledger_def map_of_mark_spent fun_eq_iff split: option.splits)

lemma scan_ledger_snoc:
  assumes "map_of created op = None" and "\<not> cw_spent w"
  shows "scan_ledger (created @ [(op, w)]) = (scan_ledger created)(op \<mapsto> wallet_entry w)"
  using assms by (auto simp: scan_ledger_def fun_eq_iff map_add_def split: option.splits)

lemma view_input_Inr: "view_input (created, s, b) i = Inr t \<Longrightarrow> \<exists>s1 b1. t = (mark_spent (in_Prev i) created, s1, b1)"
  by (auto simp: view_input_def bindE_Inr_iff failIf_Inr_iff Let_def split: option.splits if_splits)

lemma view_inputs_ledger:
  assumes "foldE view_input (created, s, b) ins = Inr (created', s', b')" and "scan_ok owners created"
  shows "scan_ok owners created' \<and> map fst created' = map fst created \<and>
    scan_ledger created' = delete_inputs ins (scan_ledger created)"
  using assms
proof (induction ins arbitrary: created s b)
  case Nil
  then show ?case by (simp add: delete_inputs_def)
next
  case (Cons i ins)
  from Cons.prems(1) obtain s1 b1 where
    "foldE view_input (mark_spent (in_Prev i) created, s1, b1) ins = Inr (created', s', b')"
    by (auto simp: bindE_Inr_iff dest: view_input_Inr)
  then have "scan_ok owners created' \<and> map fst created' = map fst (mark_spent (in_Prev i) created) \<and>
      scan_ledger created' = delete_inputs ins (scan_ledger (mark_spent (in_Prev i) created))"
    using Cons.IH scan_ok_mark [OF Cons.prems(2)] by blast
  then show ?case by (simp add: scan_ledger_mark delete_inputs_def)
qed

definition created_ops :: "crypto \<Rightarrow> Tx \<Rightarrow> OutPoint list" where
  "created_ops K tx = map (\<lambda>i. OutPoint (tx_ID K tx) (of_nat i)) [0..<length (tx_Outs tx)]"

lemma view_output_Inr:
  assumes "view_output owners txID h cb (created, s, b) (i, o') = Inr t"
  shows "map_of created (OutPoint txID (of_nat i)) = None \<and>
    (\<exists>w s1 b1. t = (created @ [(OutPoint txID (of_nat i), w)], s1, b1) \<and> cw_outpoint w = OutPoint txID (of_nat i) \<and>
       \<not> cw_spent w \<and> wallet_entry w = new_entry h cb o' \<and> (cw_owned w \<longleftrightarrow> owners (cw_pkh w) \<noteq> None) \<and>
       (cw_owned w \<longrightarrow> owners (cw_pkh w) = Some (cw_ownerIndex w)))"
  using assms
  by (cases "owners (out_PubKeyHash o')")
    (auto simp: view_output_def bindE_Inr_iff failIf_Inr_iff Let_def wallet_entry_def new_entry_def)

lemma view_outputs_ledger:
  assumes "foldE (view_output owners txID h cb) (created, s, b) (enumerate i outs) = Inr (created', s', b')"
    and "scan_ok owners created"
  shows "scan_ok owners created' \<and>
    map fst created' = map fst created @ map (\<lambda>j. OutPoint txID (of_nat j)) [i..<i + length outs] \<and>
    scan_ledger created' = create_outputs txID h cb i outs (scan_ledger created)"
  using assms
proof (induction outs arbitrary: i created s b)
  case Nil
  then show ?case by simp
next
  case (Cons o' outs)
  let ?op = "OutPoint txID (of_nat i)"
  from Cons.prems(1) obtain w s1 b1 where new: "map_of created ?op = None"
    and w: "cw_outpoint w = ?op" "\<not> cw_spent w" "wallet_entry w = new_entry h cb o'"
      "cw_owned w \<longleftrightarrow> owners (cw_pkh w) \<noteq> None" "cw_owned w \<longrightarrow> owners (cw_pkh w) = Some (cw_ownerIndex w)"
    and rest: "foldE (view_output owners txID h cb) (created @ [(?op, w)], s1, b1) (enumerate (Suc i) outs) = Inr (created', s', b')"
    by (auto simp: bindE_Inr_iff dest!: view_output_Inr)
  have "scan_ok owners (created @ [(?op, w)])"
    using Cons.prems(2) new w by (auto simp: scan_ok_def map_of_eq_None_iff)
  note IH = Cons.IH [OF rest this]
  have upt: "[i..<i + length (o' # outs)] = i # [Suc i..<Suc i + length outs]" by (simp add: upt_conv_Cons del: upt_Suc)
  show ?case
    using IH scan_ledger_snoc [OF new w(2)] w(3) unfolding upt by (simp del: upt_Suc fun_upd_apply)
qed

lemma view_tx_ledger:
  assumes "view_tx K p owners (blk, h, conf) (created, act) (n, Some tx) = Inr (created', act')" and "scan_ok owners created"
  shows "scan_ok owners created' \<and> map fst created' = map fst created @ created_ops K tx \<and>
    scan_ledger created' = spendAndCreate K (scan_ledger created) tx h (IsCoinbase tx)"
proof -
  obtain c1 s1 b1 s2 b2 where ins: "(if \<not> IsCoinbase tx then foldE view_input (created, 0, False) (tx_Ins tx)
      else Inr (created, 0, False)) = Inr (c1, s1, b1)"
    and outs: "foldE (view_output owners (tx_ID K tx) h (IsCoinbase tx)) (c1, 0, False) (enumerate 0 (tx_Outs tx)) = Inr (created', s2, b2)"
    using assms(1) by (auto simp: view_tx_def bindE_Inr_iff failIf_Inr_iff Let_def split: if_splits)
  have c1: "scan_ok owners c1" "map fst c1 = map fst created"
    "scan_ledger c1 = (if IsCoinbase tx then scan_ledger created else delete_inputs (tx_Ins tx) (scan_ledger created))"
    using ins view_inputs_ledger [of created 0 False "tx_Ins tx" c1 s1 b1 owners] assms(2) by (auto split: if_splits)
  show ?thesis
    using view_outputs_ledger [OF outs c1(1)] c1(2,3)
    by (cases "IsCoinbase tx") (simp_all add: created_ops_def spendAndCreate_spend)
qed


section \<open>A block\<close>

lemma view_txs_ledger:
  assumes "foldE (view_tx K p owners (blk, h, conf)) (created, act) (enumerate n (map Some txs)) = Inr (created', act')"
    and "scan_ok owners created"
  shows "scan_ok owners created' \<and> map fst created' = map fst created @ concat (map (created_ops K) txs) \<and>
    scan_ledger created' = fold (\<lambda>tx u. spendAndCreate K u tx h (IsCoinbase tx)) txs (scan_ledger created)"
  using assms
proof (induction txs arbitrary: n created act)
  case Nil
  then show ?case by simp
next
  case (Cons tx txs)
  from Cons.prems(1) obtain c1 a1 where c1: "view_tx K p owners (blk, h, conf) (created, act) (n, Some tx) = Inr (c1, a1)"
    and rest: "foldE (view_tx K p owners (blk, h, conf)) (c1, a1) (enumerate (Suc n) (map Some txs)) = Inr (created', act')"
    by (auto simp: bindE_Inr_iff)
  show ?case using view_tx_ledger [OF c1 Cons.prems(2)] Cons.IH [OF rest] by simp
qed

lemma create_outputs_add: "create_outputs txid h cb i outs u = u ++ create_outputs txid h cb i outs Map.empty"
proof (induction outs arbitrary: i u)
  case Nil
  then show ?case by simp
next
  case (Cons o' outs)
  let ?m = "[OutPoint txid (of_nat i) \<mapsto> new_entry h cb o']"
  have "create_outputs txid h cb i (o' # outs) u = (u ++ ?m) ++ create_outputs txid h cb (Suc i) outs Map.empty"
    using Cons.IH [of "Suc i" "u ++ ?m"] by (simp del: fun_upd_apply)
  also have "\<dots> = u ++ (?m ++ create_outputs txid h cb (Suc i) outs Map.empty)" by simp
  also have "\<dots> = u ++ create_outputs txid h cb (Suc i) outs ?m" by (simp only: Cons.IH [of "Suc i" ?m, symmetric])
  finally show ?case by simp
qed

lemma dom_create_outputs:
  "dom (create_outputs txid h cb i outs u) = dom u \<union> (\<lambda>j. OutPoint txid (of_nat j)) ` {i..<i + length outs}"
proof (induction outs arbitrary: i u)
  case Nil
  then show ?case by simp
next
  case (Cons o' outs)
  have "{i..<i + length (o' # outs)} = insert i {Suc i..<Suc i + length outs}" by auto
  then show ?case using Cons.IH [of "Suc i" "u(OutPoint txid (of_nat i) \<mapsto> new_entry h cb o')"] by (simp del: fun_upd_apply)
qed

lemma dom_created_ops: "dom (create_outputs (tx_ID K tx) h cb 0 (tx_Outs tx) Map.empty) = set (created_ops K tx)"
  by (simp add: dom_create_outputs created_ops_def)

text \<open>Creating fresh outputs commutes with a spend that does not touch them.\<close>

lemma spend_commutes:
  assumes "in_Prev ` set (tx_Ins tx) \<inter> dom m = {}" and "set (created_ops K tx) \<inter> dom m = {}"
  shows "spendAndCreate K (u ++ m) tx h False = spendAndCreate K u tx h False ++ m"
proof -
  let ?new = "create_outputs (tx_ID K tx) h False 0 (tx_Outs tx) Map.empty"
  have del: "delete_inputs (tx_Ins tx) (u ++ m) = delete_inputs (tx_Ins tx) u ++ m"
    using assms(1) by (auto simp: delete_inputs_eq map_add_def fun_eq_iff split: option.splits)
  have "m ++ ?new = ?new ++ m"
    using assms(2) by (intro map_add_comm) (simp add: dom_created_ops Int_commute)
  then have "(delete_inputs (tx_Ins tx) u ++ m) ++ ?new = (delete_inputs (tx_Ins tx) u ++ ?new) ++ m"
    by (metis map_add_assoc)
  then show ?thesis
    unfolding spendAndCreate_spend del
    by (metis create_outputs_add)
qed

lemma spends_commute:
  "spends K p h u txs fees u' \<Longrightarrow> dom u \<inter> dom m = {} \<Longrightarrow> \<forall>tx\<in>set txs. set (created_ops K tx) \<inter> dom m = {} \<Longrightarrow>
     fold (\<lambda>tx u. spendAndCreate K u tx h False) txs (u ++ m) = u' ++ m"
proof (induction rule: spends.induct)
  case (spends_Nil u)
  then show ?case by simp
next
  case (spends_Cons u tx fee txs fees u')
  have ins: "in_Prev ` set (tx_Ins tx) \<subseteq> dom u" using spends_Cons.hyps(1) by (auto simp: valid_spend_def authorised_def)
  then have "spendAndCreate K (u ++ m) tx h False = spendAndCreate K u tx h False ++ m"
    using spends_Cons.prems by (intro spend_commutes) auto
  moreover have "dom (spendAndCreate K u tx h False) \<subseteq> dom u \<union> set (created_ops K tx)"
    by (auto simp: spendAndCreate_spend dom_create_outputs created_ops_def delete_inputs_eq split: if_splits)
  moreover have "set (created_ops K tx) \<inter> dom m = {}" using spends_Cons.prems(2) by simp
  ultimately show ?case using spends_Cons.IH spends_Cons.prems by simp blast
qed

lemma view_block_ledger:
  assumes scan: "view_block K p owners tipHeight (created, act) (n, bi) = Inr (created', act')"
    and ok: "scan_ok owners created" and led: "scan_ledger created = u"
    and conn: "connectBlock K p' u (bi_block bi) n = Some u'"
  shows "scan_ok owners created' \<and> scan_ledger created' = u'"
proof -
  obtain txs where txs: "blk_Txs (bi_block bi) = map Some txs" "sane_txs K txs"
    using conn by (auto simp: connectBlock_Some checkBlockSanity_iff)
  moreover obtain txs' where txs': "blk_Txs (bi_block bi) = map Some txs'" "connects K p' (int n) u txs' u'"
    using conn by (auto simp: connectBlock_Some validateAndApplyLocked_iff)
  ultimately have "txs' = txs" by (metis inj_map_eq_map inj_Some)
  then obtain cb rest where t: "txs = cb # rest" "IsCoinbase cb" "\<forall>tx\<in>set rest. \<not> IsCoinbase tx"
    and conn': "connects K p' (int n) u (cb # rest) u'"
    using txs(2) txs'(2) by (cases txs) (auto simp: sane_txs_def)
  obtain fees u1 where sp: "spends K p' (int n) u rest fees u1" and u': "u' = spendAndCreate K u1 cb (int n) True"
    using conn' by (auto simp: connects_def)
  have run: "foldE (view_tx K p owners (bi_id bi, int n, tipHeight - int n + 1)) (created, act) (enumerate 0 (map Some txs)) = Inr (created', act')"
    using scan txs(1) by (simp add: view_block_def)
  note R = view_txs_ledger [OF run ok]
  let ?m = "create_outputs (tx_ID K cb) (int n) True 0 (tx_Outs cb) Map.empty"
  have keys: "map fst created' = map fst created @ concat (map (created_ops K) (cb # rest))" using R t(1) by simp
  have "scan_ok owners created'" using R by blast
  then have "distinct (map fst created')" by (simp add: scan_ok_def)
  then have "distinct (map fst created @ concat (map (created_ops K) (cb # rest)))" unfolding keys .
  then have dis: "set (map fst created) \<inter> set (created_ops K cb) = {}"
    "\<forall>tx\<in>set rest. set (created_ops K tx) \<inter> set (created_ops K cb) = {}" by auto
  have "dom u \<subseteq> set (map fst created)"
  proof
    fix op
    assume "op \<in> dom u"
    then have "map_of created op \<noteq> None" using led by (auto simp: scan_ledger_def split: option.splits)
    then show "op \<in> set (map fst created)" by (simp add: map_of_eq_None_iff)
  qed
  then have "dom u \<inter> dom ?m = {}" using dis(1) by (auto simp: dom_created_ops)
  then have "fold (\<lambda>tx u. spendAndCreate K u tx (int n) False) rest (u ++ ?m) = u1 ++ ?m"
    using spends_commute [OF sp, of ?m] dis(2) by (simp add: dom_created_ops)
  moreover have "fold (\<lambda>tx u. spendAndCreate K u tx (int n) (IsCoinbase tx)) rest v =
      fold (\<lambda>tx u. spendAndCreate K u tx (int n) False) rest v" for v
    using t(3) by (intro fold_cong) simp_all
  ultimately have "scan_ledger created' = u1 ++ ?m"
    using R t(1,2) led by (simp add: spendAndCreate_spend create_outputs_add [of _ _ _ _ _ u])
  then show ?thesis using R u' by (simp add: spendAndCreate_spend create_outputs_add [of _ _ _ _ _ u1])
qed

lemma view_blocks_ledger:
  assumes "foldE (view_block K p owners tipHeight) ([], []) (enumerate 0 bs) = Inr (created, act)"
    and "ledger_of K p' (map bi_block bs) = Some u"
  shows "scan_ok owners created \<and> scan_ledger created = u"
  using assms
proof (induction bs arbitrary: created act u rule: rev_induct)
  case Nil
  then show ?case by (simp add: scan_ok_def ledger_of_def)
next
  case (snoc bi bs)
  obtain c1 a1 where c1: "foldE (view_block K p owners tipHeight) ([], []) (enumerate 0 bs) = Inr (c1, a1)"
    and last: "view_block K p owners tipHeight (c1, a1) (length bs, bi) = Inr (created, act)"
    using snoc.prems(1) by (auto simp: enumerate_append_eq foldE_append bindE_Inr_iff)
  obtain u1 where u1: "ledger_of K p' (map bi_block bs) = Some u1" "connectBlock K p' u1 (bi_block bi) (length bs) = Some u"
    using snoc.prems(2) by (auto simp: ledger_of_snoc split: option.splits)
  then show ?case using snoc.IH [OF c1 u1(1)] view_block_ledger [OF last _ _ u1(2)] by blast
qed


section \<open>Owners, mempool and totals\<close>

lemma owners_loop_dom: "owners_loop d i pkhs m = Inr owners \<Longrightarrow> dom owners = dom m \<union> set pkhs"
  by (induction d i pkhs m rule: owners_loop.induct) (auto split: if_splits)

lemma walletOwners_dom: "walletOwners pkhs d = Inr owners \<Longrightarrow> owners pkh \<noteq> None \<longleftrightarrow> pkh \<in> set pkhs"
  using owners_loop_dom [of d 0 pkhs Map.empty owners] by (auto simp: walletOwners_def failIf_Inr_iff)

lemma pool_input_Inr: "pool_input created (spent, s, b) i = Inr t \<Longrightarrow> fst t = insert (in_Prev i) spent"
  by (auto simp: pool_input_def bindE_Inr_iff failIf_Inr_iff Let_def split: option.splits if_splits)

lemma pool_inputs_spent:
  "foldE (pool_input created) (spent, s, b) ins = Inr t \<Longrightarrow> fst t = spent \<union> in_Prev ` set ins"
proof (induction ins arbitrary: spent s b)
  case Nil
  then show ?case by auto
next
  case (Cons i ins)
  then obtain t1 where t1: "pool_input created (spent, s, b) i = Inr t1" "foldE (pool_input created) t1 ins = Inr t"
    by (auto simp: bindE_Inr_iff)
  obtain sp1 s1 b1 where "t1 = (sp1, s1, b1)" by (rule prod_cases3)
  then show ?case using pool_input_Inr [OF t1(1)] t1(2) Cons.IH [of sp1 s1 b1] by simp
qed

lemma view_pool_tx_spent:
  assumes "view_pool_tx owners created (spent, act) (hid, tx) = Inr t"
  shows "fst t = spent \<union> in_Prev ` set (tx_Ins tx)"
proof -
  obtain t1 where "foldE (pool_input created) (spent, 0, False) (tx_Ins tx) = Inr t1" "fst t1 = fst t"
    using assms by (auto simp: view_pool_tx_def bindE_Inr_iff Let_def split: if_splits prod.splits)
  then show ?thesis using pool_inputs_spent by metis
qed

lemma view_pool_spent:
  "foldE (view_pool_tx owners created) (spent, act) pool = Inr t \<Longrightarrow> fst t = spent \<union> mempool_spent pool"
proof (induction pool arbitrary: spent act)
  case Nil
  then show ?case by (auto simp: mempool_spent_def)
next
  case (Cons e pool)
  obtain hid tx where e: "e = (hid, tx)" by fastforce
  obtain t1 where t1: "view_pool_tx owners created (spent, act) (hid, tx) = Inr t1"
    "foldE (view_pool_tx owners created) t1 pool = Inr t"
    using Cons.prems e by (auto simp: bindE_Inr_iff)
  obtain sp1 a1 where "t1 = (sp1, a1)" by (rule prod.exhaust)
  then show ?case
    using view_pool_tx_spent [OF t1(1)] t1(2) Cons.IH [of sp1 a1] e by (simp add: mempool_spent_def Un_assoc)
qed

definition is_immature :: "Params \<Rightarrow> int \<Rightarrow> canonicalWalletOutput \<Rightarrow> bool" where
  "is_immature p th w \<longleftrightarrow> cw_owned w \<and> \<not> cw_spent w \<and> cw_coinbase w \<and> th - cw_height w + 1 < CoinbaseMaturity p"

definition is_spendable :: "Params \<Rightarrow> int \<Rightarrow> OutPoint set \<Rightarrow> canonicalWalletOutput \<Rightarrow> bool" where
  "is_spendable p th ms w \<longleftrightarrow> cw_owned w \<and> \<not> cw_spent w \<and>
     \<not> (cw_coinbase w \<and> th - cw_height w + 1 < CoinbaseMaturity p) \<and> cw_outpoint w \<notin> ms"

definition spendable_of :: "canonicalWalletOutput \<Rightarrow> SpendableOutputSnapshot" where
  "spendable_of w = \<lparr>so_OutPoint = cw_outpoint w, so_AmountUnits = cw_value w, so_OwnerPKH = cw_pkh w,
     so_OwnerIndex = cw_ownerIndex w\<rparr>"

lemma collect_outputs:
  assumes "foldE (collect_output p th ms) (sp, su, im, iu) created = Inr (sp', su', im', iu')"
  shows "sp' = sp @ map spendable_of (filter (is_spendable p th ms) (map snd created)) \<and>
    su' = su + (\<Sum>w\<leftarrow>filter (is_spendable p th ms) (map snd created). cw_value w) \<and>
    iu' = iu + (\<Sum>w\<leftarrow>filter (is_immature p th) (map snd created). cw_value w)"
  using assms
proof (induction created arbitrary: sp su im iu)
  case Nil
  then show ?case by simp
next
  case (Cons e created)
  obtain op w where e: "e = (op, w)" by fastforce
  obtain sp1 su1 im1 iu1 where s1: "collect_output p th ms (sp, su, im, iu) (op, w) = Inr (sp1, su1, im1, iu1)"
    and rest: "foldE (collect_output p th ms) (sp1, su1, im1, iu1) created = Inr (sp', su', im', iu')"
    using Cons.prems e by (auto simp: bindE_Inr_iff)
  have "sp1 = sp @ (if is_spendable p th ms w then [spendable_of w] else [])"
    "su1 = su + (if is_spendable p th ms w then cw_value w else 0)"
    "iu1 = iu + (if is_immature p th w then cw_value w else 0)"
    using s1
    by (auto simp: collect_output_def is_spendable_def is_immature_def spendable_of_def Let_def addWalletMoney_def
        bindE_Inr_iff addMoney_Inr_iff split: if_splits)
  then show ?case using Cons.IH [OF rest] e by simp
qed

section \<open>Properties\<close>

text \<open>An unspent output is available to its owner when it is mature and no mempool transaction spends it.\<close>

definition available :: "Chain \<Rightarrow> OutPoint \<Rightarrow> UTXOEntry \<Rightarrow> bool" where
  "available c op e \<longleftrightarrow>
     ch_utxo c op = Some e \<and> op \<notin> mempool_spent (ch_mempool c) \<and>
     \<not> (ue_Coinbase e \<and> bi_height (ch_tip c) - ue_Height e + 1 < CoinbaseMaturity (ch_params c))"

lemma set_sort_key: "set (sort_key f xs) = set xs"
  by simp

lemma view_scan:
  assumes "chain_reach K p stored c" and "canonical_params p" and "walletViewForOwnersLocked K c owners limit = Inr v"
  obtains created where "scan_ok owners created" and "scan_ledger created = ch_utxo c"
    and "wv_SpendableOutputs v = sort_key so_OutPoint
      (map spendable_of (filter (is_spendable p (bi_height (ch_tip c)) (mempool_spent (ch_mempool c))) (map snd created)))"
    and "wv_SpendableUnits v = (\<Sum>w\<leftarrow>filter (is_spendable p (bi_height (ch_tip c)) (mempool_spent (ch_mempool c))) (map snd created). cw_value w)"
    and "canonicalTipSnapshotLocked K c = Inr (wv_Tip v)" and "wv_Complete v" and "wv_Network v = ts_Network (wv_Tip v)"
proof -
  have inv: "chain_inv K c" and par: "ch_params c = p" using assms(1) reach_chain_inv reach_params by blast+
  obtain bs network where bs: "branch K p (ch_index c) (ch_tip c) bs" "ch_mainIDs c = map bi_id bs"
    "validatedCanonicalSequenceLocked K c = Inr bs"
    "canonicalTipSnapshotLocked K c = Inr \<lparr>ts_Network = network, ts_Hash = bi_id (ch_tip c), ts_Height = bi_height (ch_tip c)\<rparr>"
    using reach_main [OF assms(1,2)] by metis
  have led: "ledger_of K p (map bi_block bs) = Some (ch_utxo c)"
  proof -
    obtain bs' where "branch K p (ch_index c) (ch_tip c) bs'" "ledger_of K p (map bi_block bs') = Some (ch_utxo c)"
      using chain_invD [OF inv] par by metis
    then show ?thesis using branch_unique [OF bs(1)] by metis
  qed
  let ?th = "bi_height (ch_tip c)"
  obtain created act ms pact sp su im iu
    where scan: "foldE (view_block K p owners ?th) ([], []) (enumerate 0 bs) = Inr (created, act)"
    and pool: "foldE (view_pool_tx owners created) ({}, []) (sort_key fst (ch_mempool c)) = Inr (ms, pact)"
    and col: "foldE (collect_output p ?th ms) ([], 0, [], 0) created = Inr (sp, su, im, iu)"
    and v: "wv_SpendableOutputs v = sort_key so_OutPoint sp" "wv_SpendableUnits v = su" "wv_Complete v"
      "wv_Tip v = \<lparr>ts_Network = network, ts_Hash = bi_id (ch_tip c), ts_Height = bi_height (ch_tip c)\<rparr>" "wv_Network v = network"
    using assms(3) bs(3,4) par
    by (auto simp: walletViewForOwnersLocked_def failIf_Inr_iff bindE_Inr_iff)
  have ms: "ms = mempool_spent (ch_mempool c)" using view_pool_spent [OF pool] by (auto simp: mempool_spent_def)
  show ?thesis
    using that [of created] view_blocks_ledger [OF scan led] collect_outputs [OF col] v bs(4) ms by simp
qed

lemma spendable_member:
  assumes "scan_ok owners created" and "scan_ledger created = ch_utxo c"
  shows "s \<in> set (map spendable_of (filter (is_spendable (ch_params c) (bi_height (ch_tip c)) (mempool_spent (ch_mempool c))) (map snd created))) \<longleftrightarrow>
    (\<exists>e. available c (so_OutPoint s) e \<and> so_AmountUnits s = ue_Value e \<and> so_OwnerPKH s = ue_PKH e \<and>
       owners (ue_PKH e) = Some (so_OwnerIndex s))" (is "?in \<longleftrightarrow> ?av")
proof -
  have keys: "distinct (map fst created)" using assms(1) by (simp add: scan_ok_def)
  have filed: "(op, w) \<in> set created \<Longrightarrow> cw_outpoint w = op \<and> (cw_owned w \<longleftrightarrow> owners (cw_pkh w) \<noteq> None) \<and>
      (cw_owned w \<longrightarrow> owners (cw_pkh w) = Some (cw_ownerIndex w))" for op w
    using assms(1) by (fastforce simp: scan_ok_def)
  have entry: "ch_utxo c op = Some e \<longleftrightarrow> (\<exists>w. (op, w) \<in> set created \<and> \<not> cw_spent w \<and> e = wallet_entry w)" for op e
    unfolding assms(2) [symmetric] scan_ledger_def map_of_eq_Some_iff [OF keys, symmetric] by (auto split: option.splits)
  show ?thesis
  proof
    assume ?in
    then obtain op w where w: "(op, w) \<in> set created" "s = spendable_of w"
      and sp: "is_spendable (ch_params c) (bi_height (ch_tip c)) (mempool_spent (ch_mempool c)) w" by auto
    then have "ch_utxo c (so_OutPoint s) = Some (wallet_entry w)"
      using entry filed [OF w(1)] by (auto simp: spendable_of_def is_spendable_def)
    then show ?av
      using w sp filed [OF w(1)] by (intro exI [of _ "wallet_entry w"]) (auto simp: available_def is_spendable_def spendable_of_def wallet_entry_def)
  next
    assume ?av
    then obtain e where e: "available c (so_OutPoint s) e" "so_AmountUnits s = ue_Value e" "so_OwnerPKH s = ue_PKH e"
      "owners (ue_PKH e) = Some (so_OwnerIndex s)" by blast
    then obtain w where w: "(so_OutPoint s, w) \<in> set created" "\<not> cw_spent w" and we: "e = wallet_entry w"
      using entry by (auto simp: available_def)
    have eq: "so_AmountUnits s = cw_value w" "so_OwnerPKH s = cw_pkh w" "owners (cw_pkh w) = Some (so_OwnerIndex s)"
      using e we by (simp_all add: wallet_entry_def)
    have av: "available c (so_OutPoint s) (wallet_entry w)" using e we by simp
    have "s = spendable_of w"
      using filed [OF w(1)] eq by (intro SpendableOutputSnapshot.equality) (auto simp: spendable_of_def)
    moreover have "is_spendable (ch_params c) (bi_height (ch_tip c)) (mempool_spent (ch_mempool c)) w"
      using av w(2) filed [OF w(1)] eq(3) by (auto simp: is_spendable_def available_def wallet_entry_def)
    ultimately show ?in using w(1) by force
  qed
qed

text \<open>What a successful view says of the ledger, for any owner map.\<close>

lemma view_spendable:
  assumes "chain_reach K p stored c" and "canonical_params p" and "walletViewForOwnersLocked K c owners limit = Inr v"
  shows "sorted (map so_OutPoint (wv_SpendableOutputs v))" and "distinct (map so_OutPoint (wv_SpendableOutputs v))"
    and "s \<in> set (wv_SpendableOutputs v) \<longleftrightarrow>
      (\<exists>e. available c (so_OutPoint s) e \<and> so_AmountUnits s = ue_Value e \<and> so_OwnerPKH s = ue_PKH e \<and>
        owners (ue_PKH e) = Some (so_OwnerIndex s))"
    and "wv_SpendableUnits v = (\<Sum>s\<leftarrow>wv_SpendableOutputs v. so_AmountUnits s)"
    and "canonicalTipSnapshotLocked K c = Inr (wv_Tip v)" and "wv_Complete v" and "wv_Network v = ts_Network (wv_Tip v)"
proof -
  have par: "ch_params c = p" using assms(1) by (rule reach_params)
  let ?live = "is_spendable p (bi_height (ch_tip c)) (mempool_spent (ch_mempool c))"
  obtain created where cr: "scan_ok owners created" "scan_ledger created = ch_utxo c"
    and v: "wv_SpendableOutputs v = sort_key so_OutPoint (map spendable_of (filter ?live (map snd created)))"
    and su: "wv_SpendableUnits v = (\<Sum>w\<leftarrow>filter ?live (map snd created). cw_value w)"
    and tip: "canonicalTipSnapshotLocked K c = Inr (wv_Tip v)" "wv_Complete v" "wv_Network v = ts_Network (wv_Tip v)"
    using view_scan [OF assms] by metis
  show "sorted (map so_OutPoint (wv_SpendableOutputs v))" by (simp add: v)
  have "map cw_outpoint (map snd created) = map fst created"
    using cr(1) by (auto simp: map_eq_conv scan_ok_def)
  moreover have "distinct (map fst created)" using cr(1) by (simp add: scan_ok_def)
  ultimately have "distinct (map cw_outpoint (filter ?live (map snd created)))"
    by (metis distinct_map_filter)
  then have "distinct (map so_OutPoint (map spendable_of (filter ?live (map snd created))))"
    by (simp add: spendable_of_def comp_def)
  then show "distinct (map so_OutPoint (wv_SpendableOutputs v))"
    unfolding v by (metis mset_eq_imp_distinct_iff mset_map mset_sort)
  show "s \<in> set (wv_SpendableOutputs v) \<longleftrightarrow>
      (\<exists>e. available c (so_OutPoint s) e \<and> so_AmountUnits s = ue_Value e \<and> so_OwnerPKH s = ue_PKH e \<and>
        owners (ue_PKH e) = Some (so_OwnerIndex s))"
    using spendable_member [OF cr, of s] unfolding par v by simp
  have "wv_SpendableUnits v = (\<Sum>s\<leftarrow>map spendable_of (filter ?live (map snd created)). so_AmountUnits s)"
    by (simp add: su spendable_of_def comp_def)
  also have "\<dots> = (\<Sum>s\<leftarrow>wv_SpendableOutputs v. so_AmountUnits s)"
    unfolding v by (metis mset_map mset_sort sum_mset_sum_list)
  finally show "wv_SpendableUnits v = (\<Sum>s\<leftarrow>wv_SpendableOutputs v. so_AmountUnits s)" .
qed (use view_scan [OF assms] in metis)+

text \<open>C25: Whenever the wallet view of a reachable chain succeeds, the outputs it lists as spendable are exactly
  the chain's unspent outputs owned by the given keys that are mature and not spent in the mempool,
  each once and in outpoint order, with the right owner and amount, and the reported
  total is their sum.\<close>

theorem wallet_view_matches_ledger:
  assumes "chain_reach K p stored c" and "canonical_params p" and "WalletViewForPKHs K c pkhs limit = Inr v"
  shows "sorted (map so_OutPoint (wv_SpendableOutputs v)) \<and> distinct (map so_OutPoint (wv_SpendableOutputs v)) \<and>
    (\<forall>op. (\<exists>s\<in>set (wv_SpendableOutputs v). so_OutPoint s = op) \<longleftrightarrow> (\<exists>e. available c op e \<and> ue_PKH e \<in> set pkhs)) \<and>
    (\<forall>s\<in>set (wv_SpendableOutputs v). \<exists>e. ch_utxo c (so_OutPoint s) = Some e \<and> so_AmountUnits s = ue_Value e \<and>
       so_OwnerPKH s = ue_PKH e) \<and>
    wv_SpendableUnits v = (\<Sum>s\<leftarrow>wv_SpendableOutputs v. so_AmountUnits s)"
proof -
  obtain owners where own: "walletOwners pkhs True = Inr owners" and view: "walletViewForOwnersLocked K c owners limit = Inr v"
    using assms(3) by (auto simp: WalletViewForPKHs_def failIf_Inr_iff bindE_Inr_iff)
  note V = view_spendable [OF assms(1,2) view]
  have "(\<exists>s\<in>set (wv_SpendableOutputs v). so_OutPoint s = op) \<longleftrightarrow> (\<exists>e. available c op e \<and> ue_PKH e \<in> set pkhs)" for op
  proof
    assume "\<exists>e. available c op e \<and> ue_PKH e \<in> set pkhs"
    then obtain e i where e: "available c op e" "owners (ue_PKH e) = Some i" using walletOwners_dom [OF own] by blast
    then show "\<exists>s\<in>set (wv_SpendableOutputs v). so_OutPoint s = op"
      by (intro bexI [of _ "\<lparr>so_OutPoint = op, so_AmountUnits = ue_Value e, so_OwnerPKH = ue_PKH e, so_OwnerIndex = i\<rparr>"])
        (auto simp: V(3))
  qed (use V(3) walletOwners_dom [OF own] in fastforce)
  moreover have "\<forall>s\<in>set (wv_SpendableOutputs v). \<exists>e. ch_utxo c (so_OutPoint s) = Some e \<and> so_AmountUnits s = ue_Value e \<and>
       so_OwnerPKH s = ue_PKH e"
    using V(3) by (auto simp: available_def)
  ultimately show ?thesis using V(1,2,4) by blast
qed

theorem wallet_view_matches_ledger_witness:
  "\<exists>c v. chain_reach sample_crypto canonicalRegTestParams True c \<and> WalletViewForPKHs sample_crypto c [7] 10 = Inr v \<and>
    sorted (map so_OutPoint (wv_SpendableOutputs v)) \<and>
    wv_SpendableUnits v = (\<Sum>s\<leftarrow>wv_SpendableOutputs v. so_AmountUnits s)"
proof -
  obtain c where c: "chain_init sample_crypto canonicalRegTestParams c" using NewChain_sample by blast
  then have r: "chain_reach sample_crypto canonicalRegTestParams True c" by (rule reach_init)
  have can: "canonical_params canonicalRegTestParams" by (simp add: canonical_params_def)
  let ?g = "genesis_index sample_crypto canonicalRegTestParams"
  have init: "ch_mempool c = []" "ch_mainIDs c = [bi_id ?g]" "ch_params c = canonicalRegTestParams"
    using c by (auto simp: chain_init_def NewChain_def bindE_Inr_iff failIf_Inr_iff Let_def genesis_index_def)
  obtain bs network where bs: "branch sample_crypto canonicalRegTestParams (ch_index c) (ch_tip c) bs" "ch_mainIDs c = map bi_id bs"
    "validatedCanonicalSequenceLocked sample_crypto c = Inr bs"
    "canonicalTipSnapshotLocked sample_crypto c = Inr \<lparr>ts_Network = network, ts_Hash = bi_id (ch_tip c), ts_Height = bi_height (ch_tip c)\<rparr>"
    using reach_main [OF r can] by metis
  have "length bs = 1" using bs(2) init(2) by (metis length_map length_Cons list.size(3) One_nat_def)
  then have "bs = [?g]" using branch_shape [OF bs(1)] by (cases bs) auto
  then have "\<exists>v. WalletViewForPKHs sample_crypto c [7] 10 = Inr v"
    using bs(3,4) init
    by (simp add: WalletViewForPKHs_def walletOwners_def walletViewForOwnersLocked_def view_block_def view_tx_def
        view_output_def genesis_index_def GenesisBlock_def Let_def NewCoinbase_def activity_kind_def
        collect_output_def MaxWalletActivityLimit_def failIf_def IsCoinbase_def MoneyRange_def SubsidyAt_def
        MaxHalvings_def InitialRewardUnits_def MaxMoneyUnits_def UnitsPerCoin_def)
  then show ?thesis using wallet_view_matches_ledger [OF r can] r by blast
qed

end
