(* ===== verification/Store.thy ===== *)
theory Store
  imports ChainView
begin

text \<open>
  \<^verbatim>\<open>core/store.go\<close>: the block file. A canonical snapshot is encoded as length-prefixed blocks of
  heights 1 to N and decoded by replaying every block on a scratch chain. The operating system is
  a parameter: the outcome of each file operation is a field of \<open>StoreOps\<close>, and the files are the
  durable file and the temporary one a replacement writes. \<^verbatim>\<open>errors.Join\<close> keeps the first error
  (the text of a joined error is not modelled). Loading reads the clock once per block.
\<close>

section \<open>Encoding\<close>

definition canonicalStoreParams :: "string \<Rightarrow> Params option" where
  "canonicalStoreParams network =
     (if network = p_Name canonicalMainNetParams then Some canonicalMainNetParams
      else if network = p_Name canonicalRegTestParams then Some canonicalRegTestParams
      else None)"

fun encode_blocks :: "crypto \<Rightarrow> Block list \<Rightarrow> Hash32 \<Rightarrow> int \<Rightarrow> byte list \<Rightarrow> (byte list \<times> Hash32 \<times> int) res" where
  "encode_blocks K [] previousID expectedWork buffer = Inr (buffer, previousID, expectedWork)"
| "encode_blocks K (b # rest) previousID expectedWork buffer =
     failIf (hdr_PrevBlock (blk_Header b) \<noteq> previousID) (Err ''snapshot block parent mismatch'')
     (bindE (MerkleRoot K (blk_Txs b)) (\<lambda>root.
      failIf (hdr_MerkleRoot (blk_Header b) \<noteq> root) (Err ''snapshot block merkle mismatch'')
      (bindE (blk_Bytes b) (\<lambda>raw.
       failIf (length raw = 0 \<or> length raw > MaxBlockBytes) (Err ''snapshot block size is invalid'')
       (encode_blocks K rest (hdr_ID K (blk_Header b))
          (expectedWork + WorkFromTarget (CompactToTarget (hdr_Bits (blk_Header b))))
          (buffer @ be_bytes 4 (length raw) @ raw))))))"

definition encodeCanonicalSnapshot :: "crypto \<Rightarrow> canonicalMainSnapshot \<Rightarrow> byte list res" where
  "encodeCanonicalSnapshot K s =
     failIf (p_Name (cm_params s) \<noteq> p_Name canonicalMainNetParams \<and> p_Name (cm_params s) \<noteq> p_Name canonicalRegTestParams)
       (Err ''snapshot has unsupported network'')
     (failIf (cm_tipHeight s < 0 \<or> int (length (cm_blocks s)) \<noteq> cm_tipHeight s)
       (Err ''snapshot height/block count mismatch'')
     (failIf (cm_cumWork s \<le> 0) (Err ''snapshot cumulative work is invalid'')
     (let genesis = GenesisBlock K (cm_params s) in
      bindE (encode_blocks K (cm_blocks s) (hdr_ID K (blk_Header genesis))
               (WorkFromTarget (CompactToTarget (hdr_Bits (blk_Header genesis)))) [])
        (\<lambda>(buffer, previousID, expectedWork).
      failIf (previousID \<noteq> cm_tipID s \<or> expectedWork \<noteq> cm_cumWork s) (Err ''snapshot tip/work metadata mismatch'')
      (Inr buffer)))))"

section \<open>Decoding\<close>

fun load_blocks :: "crypto \<Rightarrow> (nat \<Rightarrow> int) \<Rightarrow> Chain \<Rightarrow> nat \<Rightarrow> byte list \<Rightarrow> Chain res" where
  "load_blocks K clock scratch height reader =
     (if reader = [] then Inr scratch
      else
        failIf (length reader < 4) (Err ''truncated snapshot frame length'')
        (let len = be_nat (take 4 reader); body = drop 4 reader in
         failIf (len = 0 \<or> len > MaxBlockBytes) (Err ''invalid stored block length'')
         (failIf (len > length body) (Err ''truncated stored block'')
         (case DecodeBlock (take len body) of Inl e \<Rightarrow> Inl (Wrapped ''decode stored block'' e)
          | Inr block \<Rightarrow>
             (case acceptStoredBlock K scratch (clock height) (Some block) of
                (_, Inl e, _) \<Rightarrow> Inl (Wrapped ''stored block rejected'' e)
              | (scratch', Inr _, _) \<Rightarrow>
                  failIf (Tip scratch' \<noteq> (hdr_ID K (blk_Header block), int (Suc height)))
                    (Err ''stored block is not the canonical next tip'')
                  (load_blocks K clock scratch' (Suc height) (drop len body)))))))"

declare load_blocks.simps [simp del]

definition decodeCanonicalSnapshot ::
  "crypto \<Rightarrow> (nat \<Rightarrow> int) \<Rightarrow> Params \<Rightarrow> byte list \<Rightarrow> (Chain \<times> canonicalMainSnapshot \<times> byte list) res"
where
  "decodeCanonicalSnapshot K clock p data =
     bindE (NewChain K (Some p)) (\<lambda>scratch.
     bindE (load_blocks K clock scratch 0 data) (\<lambda>scratch'.
     bindE (canonicalMainSnapshot_of K scratch') (\<lambda>snapshot.
     bindE (encodeCanonicalSnapshot K snapshot) (\<lambda>canonical.
     Inr (scratch', snapshot, canonical)))))"

definition validateAndEncodeCanonicalSnapshot :: "crypto \<Rightarrow> (nat \<Rightarrow> int) \<Rightarrow> canonicalMainSnapshot \<Rightarrow> byte list res" where
  "validateAndEncodeCanonicalSnapshot K clock s =
     bindE (encodeCanonicalSnapshot K s) (\<lambda>encoded.
     bindE (decodeCanonicalSnapshot K clock (cm_params s) encoded) (\<lambda>(_, validated, canonical).
     failIf (cm_tipID validated \<noteq> cm_tipID s \<or> cm_tipHeight validated \<noteq> cm_tipHeight s \<or>
         cm_cumWork validated \<noteq> cm_cumWork s \<or> canonical \<noteq> encoded)
       (Err ''candidate canonical snapshot metadata mismatch'')
     (Inr canonical)))"

section \<open>Files\<close>

record StoreFiles =
  sf_durable :: "byte list option"
  sf_temp :: "byte list option"

text \<open>The outcome of every file operation: None is success. \<open>ops_write\<close> returns the byte count and
  an optional error, \<open>ops_tempInside\<close> whether the temporary file lies in the destination directory.\<close>

record StoreOps =
  ops_lock :: "error option"
  ops_release :: "error option"
  ops_read :: "error option"
  ops_createTemp :: "error option"
  ops_abs :: "error option"
  ops_tempInside :: bool
  ops_write :: "byte list \<Rightarrow> nat \<times> error option"
  ops_flush :: "error option"
  ops_prepare :: "error option"
  ops_syncFile :: "error option"
  ops_closeFile :: "error option"
  ops_deferClose :: "error option"
  ops_replace :: "error option"
  ops_finalize :: "error option"
  ops_remove :: "error option"

definition joinE :: "unit res \<Rightarrow> error option \<Rightarrow> unit res" where
  "joinE r e = (case r of Inl e' \<Rightarrow> Inl e' | Inr _ \<Rightarrow> (case e of None \<Rightarrow> Inr () | Some e' \<Rightarrow> Inl e'))"

definition opE :: "error option \<Rightarrow> 'a res \<Rightarrow> 'a res" where
  "opE e k = (case e of Some e' \<Rightarrow> Inl e' | None \<Rightarrow> k)"

text \<open>The steps up to the rename, which touch the temporary file only; the flag tells whether the
  file was closed by them.\<close>

definition prepare_temp :: "StoreOps \<Rightarrow> byte list \<Rightarrow> bool \<times> unit res" where
  "prepare_temp ops data =
     (case
        opE (ops_abs ops)
        (failIf (\<not> ops_tempInside ops) (Err ''temporary snapshot is outside destination directory'')
        (case ops_write ops data of
           (_, Some e) \<Rightarrow> Inl e
         | (written, None) \<Rightarrow>
             failIf (written \<noteq> length data) (Err ''short write'')
             (opE (ops_flush ops) (opE (ops_prepare ops) (opE (ops_syncFile ops) (opE (ops_closeFile ops) (Inr ())))))))
      of Inl e \<Rightarrow> (False, Inl e) | Inr _ \<Rightarrow> (True, Inr ()))"

definition durableReplace :: "StoreOps \<Rightarrow> StoreFiles \<Rightarrow> byte list \<Rightarrow> StoreFiles \<times> unit res" where
  "durableReplace ops fs data =
     (case ops_createTemp ops of Some e \<Rightarrow> (fs, Inl e)
      | None \<Rightarrow>
          let (closed, prepared) = prepare_temp ops data;
              replaced = (prepared = Inr () \<and> ops_replace ops = None);
              result = (case prepared of Inl e \<Rightarrow> Inl e
                        | Inr _ \<Rightarrow> opE (ops_replace ops) (opE (ops_finalize ops) (Inr ())));
              result1 = (if closed then result else joinE result (ops_deferClose ops));
              result2 = (if replaced then result1 else joinE result1 (ops_remove ops))
          in (\<lparr>sf_durable = (if replaced then Some data else sf_durable fs),
               sf_temp = (if replaced then None else if ops_remove ops = None then None else Some data)\<rparr>, result2))"

text \<open>The flag tells whether the file exists; a missing file reads as the genesis chain.\<close>

definition readDurableSnapshotLocked ::
  "crypto \<Rightarrow> (nat \<Rightarrow> int) \<Rightarrow> StoreOps \<Rightarrow> StoreFiles \<Rightarrow> Params \<Rightarrow>
     (Chain \<times> canonicalMainSnapshot \<times> byte list \<times> bool) res"
where
  "readDurableSnapshotLocked K clock ops fs p =
     (case sf_durable fs of
        None \<Rightarrow>
          bindE (NewChain K (Some p)) (\<lambda>scratch.
          bindE (canonicalMainSnapshot_of K scratch) (\<lambda>snapshot. Inr (scratch, snapshot, [], False)))
      | Some data \<Rightarrow>
          opE (ops_read ops)
          (bindE (decodeCanonicalSnapshot K clock p data) (\<lambda>(scratch, snapshot, canonical).
           failIf (data \<noteq> canonical) (Err ''durable snapshot is not canonically encoded'')
           (Inr (scratch, snapshot, canonical, True)))))"

definition ErrSnapshotRegression :: error where
  "ErrSnapshotRegression = Err ''canonical snapshot would regress durable work''"

text \<open>The body of \<^verbatim>\<open>saveSnapshot\<close> under the lock. \<open>clock\<close> is read while the candidate is
  validated and \<open>clock'\<close> while the file is.\<close>

definition save_locked ::
  "crypto \<Rightarrow> (nat \<Rightarrow> int) \<Rightarrow> (nat \<Rightarrow> int) \<Rightarrow> StoreOps \<Rightarrow> string \<Rightarrow> StoreFiles \<Rightarrow> Chain \<Rightarrow> StoreFiles \<times> unit res"
where
  "save_locked K clock clock' ops network fs c =
     (let decision =
        bindE (canonicalMainSnapshot_of K c) (\<lambda>candidate.
        failIf (canonicalStoreParams network \<noteq> Some (cm_params candidate))
          (Err ''candidate snapshot consensus params mismatch'')
        (bindE (validateAndEncodeCanonicalSnapshot K clock candidate) (\<lambda>candidateBytes.
         bindE (readDurableSnapshotLocked K clock' ops fs (cm_params candidate)) (\<lambda>(_, current, currentBytes, exists).
         if exists \<and> cm_cumWork candidate < cm_cumWork current then Inl ErrSnapshotRegression
         else if exists \<and> cm_cumWork candidate = cm_cumWork current then
           failIf (cm_tipID candidate \<noteq> cm_tipID current)
             (Wrapped ''equal work has different tip'' ErrSnapshotRegression)
           (failIf (candidateBytes \<noteq> currentBytes) (Err ''same durable tip has noncanonical byte mismatch'')
           (Inr None))
         else Inr (Some candidateBytes)))))
      in case decision of
           Inl e \<Rightarrow> (fs, Inl e)
         | Inr None \<Rightarrow> (fs, opE (ops_finalize ops) (Inr ()))
         | Inr (Some candidateBytes) \<Rightarrow> durableReplace ops fs candidateBytes)"

definition SaveSnapshot ::
  "crypto \<Rightarrow> (nat \<Rightarrow> int) \<Rightarrow> (nat \<Rightarrow> int) \<Rightarrow> StoreOps \<Rightarrow> string \<Rightarrow> StoreFiles \<Rightarrow> Chain option \<Rightarrow> StoreFiles \<times> unit res"
where
  "SaveSnapshot K clock clock' ops network fs pc =
     (case pc of None \<Rightarrow> (fs, Inl (Err ''nil source chain''))
      | Some c \<Rightarrow>
          (case ops_lock ops of Some e \<Rightarrow> (fs, Inl e)
           | None \<Rightarrow>
               let (fs', r) = save_locked K clock clock' ops network fs c in (fs', joinE r (ops_release ops))))"

section \<open>Loading\<close>

definition equalBlockBytes :: "Block \<Rightarrow> Block \<Rightarrow> bool" where
  "equalBlockBytes got want \<longleftrightarrow>
     length (blk_Txs got) = length (blk_Txs want) \<and> None \<notin> set (blk_Txs got) \<and> None \<notin> set (blk_Txs want) \<and>
     blk_Bytes got = blk_Bytes want"

definition matchesCanonicalGenesisLocked :: "Chain \<Rightarrow> Chain \<Rightarrow> bool" where
  "matchesCanonicalGenesisLocked c fresh \<longleftrightarrow>
     ch_mempool c = [] \<and> length (ch_mainIDs c) = length (ch_mainIDs fresh) \<and>
     card (dom (ch_index c)) = card (dom (ch_index fresh)) \<and> card (dom (ch_utxo c)) = card (dom (ch_utxo fresh)) \<and>
     (\<forall>i<length (ch_mainIDs fresh). ch_mainIDs c ! i = ch_mainIDs fresh ! i) \<and>
     (\<forall>op\<in>dom (ch_utxo fresh). ch_utxo c op = ch_utxo fresh op) \<and>
     (\<forall>(hid, want)\<in>Map.graph (ch_index fresh).
        case ch_index c hid of None \<Rightarrow> False
        | Some got \<Rightarrow> bi_id got = bi_id want \<and> bi_height got = bi_height want \<and> bi_cumWork got = bi_cumWork want \<and>
            equalBlockBytes (bi_block got) (bi_block want)) \<and>
     ch_index c (bi_id (ch_tip fresh)) = Some (ch_tip c) \<and> bi_id (ch_tip c) = bi_id (ch_tip fresh)"

definition validateLoadDestinationLocked :: "crypto \<Rightarrow> Chain \<Rightarrow> Params \<Rightarrow> unit res" where
  "validateLoadDestinationLocked K c expected =
     failIf (ch_params c \<noteq> expected) (Err ''destination chain consensus params do not match Store network'')
     (case NewChain K (Some expected) of Inl e \<Rightarrow> Inl (Wrapped ''construct canonical genesis state'' e)
      | Inr fresh \<Rightarrow>
          failIf (\<not> matchesCanonicalGenesisLocked c fresh) (Err ''LoadInto destination must be an empty genesis chain'')
          (Inr ()))"

text \<open>The destination is validated before the file is read and again before it is replaced; in
  between the lock is free and other callers may change the chain, from \<open>c\<close> to \<open>c1\<close>.\<close>

definition LoadInto ::
  "crypto \<Rightarrow> (nat \<Rightarrow> int) \<Rightarrow> StoreOps \<Rightarrow> Params \<Rightarrow> StoreFiles \<Rightarrow> Chain option \<Rightarrow> Chain \<Rightarrow> Chain option \<times> int res"
where
  "LoadInto K clock ops expectedParams fs pc c1 =
     (case pc of None \<Rightarrow> (None, Inl (Err ''nil destination chain''))
      | Some c \<Rightarrow>
          (case validateLoadDestinationLocked K c expectedParams of Inl e \<Rightarrow> (Some c1, Inl e)
           | Inr _ \<Rightarrow>
          (case ops_lock ops of Some e \<Rightarrow> (Some c1, Inl e)
           | None \<Rightarrow>
               let (c', r) =
                 (case readDurableSnapshotLocked K clock ops fs (ch_params c) of
                    Inl e \<Rightarrow> (c1, Inl e)
                  | Inr (scratch, snapshot, _, exists) \<Rightarrow>
                      if \<not> exists then (c1, Inr 0)
                      else
                        (case validateLoadDestinationLocked K c1 expectedParams of Inl e \<Rightarrow> (c1, Inl e)
                         | Inr _ \<Rightarrow>
                             if cm_params snapshot \<noteq> expectedParams
                             then (c1, Inl (Err ''durable snapshot consensus params mismatch''))
                             else (c1\<lparr>ch_index := ch_index scratch, ch_tip := ch_tip scratch, ch_mainIDs := ch_mainIDs scratch,
                                     ch_utxo := ch_utxo scratch, ch_mempool := []\<rparr>,
                                   Inr (cm_tipHeight snapshot))))
               in (Some c', case ops_release ops of None \<Rightarrow> r | Some e \<Rightarrow> (case r of Inl e' \<Rightarrow> Inl e' | Inr _ \<Rightarrow> Inl e)))))"

section \<open>Replaying a saved chain\<close>

text \<open>What the file format asks of a block beyond consensus: it has an encoding the decoder accepts,
  it adds work, and the clock at loading time does not place it in the future.\<close>

definition storable :: "Params \<Rightarrow> int \<Rightarrow> int \<Rightarrow> Block \<Rightarrow> bool" where
  "storable p height now b \<longleftrightarrow> wf_Block b \<and> 0 < block_work b \<and> clock_ok p height now (hdr_Time (blk_Header b))"

definition frame :: "Block \<Rightarrow> byte list" where
  "frame b = (case blk_Bytes b of Inl _ \<Rightarrow> [] | Inr raw \<Rightarrow> be_bytes 4 (length raw) @ raw)"

lemma accept_next:
  assumes inv: "chain_inv K c" and par: "ch_params c = p" and br: "branch K p (ch_index c) (ch_tip c) bs"
    and fol: "follows K p bs bi" and prev: "bi_prev bi = bi_id (ch_tip c)" and new: "ch_index c (bi_id bi) = None"
    and led: "ledger_of K p (map bi_block bs @ [bi_block bi]) \<noteq> None"
    and st: "storable p (int (length bs)) now (bi_block bi)"
  shows "\<exists>c' x. acceptStoredBlock K c now (Some (bi_block bi)) = (c', Inr (), x) \<and> ch_tip c' = bi \<and>
    chain_inv K c' \<and> ch_params c' = p \<and> branch K p (ch_index c') bi (bs @ [bi]) \<and>
    ch_index c' = (ch_index c)(bi_id bi \<mapsto> bi)"
proof -
  let ?b = "bi_block bi"
  have hid: "hdr_ID K (blk_Header ?b) = bi_id bi" using fol by (simp add: follows_def)
  have tip: "ch_index c (hdr_PrevBlock (blk_Header ?b)) = Some (ch_tip c)"
    using prev inv by (simp add: chain_inv_def)
  have shape: "last bs = ch_tip c" "bi_height (ch_tip c) = int (length bs) - 1" using branch_shape [OF br] by auto
  have entry: "entry_for K (ch_tip c) ?b = bi"
    using fol shape by (simp add: entry_for_def follows_def block_work_def)
  have hdr: "check_header K c now ?b False (ch_tip c) = Inr ()"
    using check_header_iff [OF inv, of "ch_tip c" bs now ?b False] br par fol st by (simp add: follows_def storable_def)
  obtain c' r where acc: "acceptBlockLocked K c now ?b False = (c', Inr r)"
    using acceptBlock_complete [OF inv tip, of bs now False] br par hdr led by auto
  have more: "bi_cumWork (ch_tip c) < bi_cumWork bi" using fol shape st by (simp add: follows_def storable_def)
  have res: "ch_tip c' = bi \<and> ch_index c' = (ch_index c)(bi_id bi \<mapsto> bi)"
    using acc
  proof (cases rule: acceptBlock_cases)
    case known
    then show ?thesis using new hid by simp
  next
    case (side parent u ids)
    then have "bi_cumWork bi \<le> bi_cumWork (ch_tip c)" using tip entry by (simp del: entry_for_simps)
    then show ?thesis using more by simp
  next
    case (tip u)
    then show ?thesis using entry by (simp del: entry_for_simps)
  next
    case (reorg parent u ids)
    then show ?thesis using tip entry by (simp del: entry_for_simps)
  qed
  have inv': "chain_inv K c'" using acceptBlock_inv [OF inv acc] .
  have par': "ch_params c' = p" using acceptBlock_params [OF inv acc] par by simp
  have "ch_index c \<subseteq>\<^sub>m ch_index c'" using res new by (auto simp: map_le_def)
  then have "branch K p (ch_index c') bi (bs @ [bi])"
    using branch_extend [OF br _ fol] tip branch_mono by blast
  moreover have "\<exists>x. acceptStoredBlock K c now (Some ?b) = (c', Inr (), x)"
    using acc by (cases r) (simp_all add: acceptStoredBlock_def accept_with_def)
  ultimately show ?thesis using res inv' par' by blast
qed

lemma ledger_prefix: "ledger_of K p (xs @ ys) \<noteq> None \<Longrightarrow> ledger_of K p xs \<noteq> None"
  by (auto simp: ledger_of_def replay_from_append split: option.splits)

lemma main_ids_distinct:
  assumes inv: "chain_inv K c" and br: "branch K (ch_params c) (ch_index c) (ch_tip c) bs"
  shows "distinct (map bi_id bs)"
proof (rule distinct_map [THEN iffD2, OF conjI])
  have idx: "x \<in> set bs \<Longrightarrow> ch_index c (bi_id x) = Some x" for x using main_indexed [OF inv br] by simp
  then show "inj_on bi_id (set bs)" by (metis inj_onI option.inject)
  show "distinct bs"
    unfolding distinct_conv_nth using branch_heights [OF br] by (metis of_nat_eq_iff)
qed

lemma be_nat_frame: "n < 256 ^ 4 \<Longrightarrow> be_nat (be_bytes 4 n) = n"
  by (simp add: be_nat_be_bytes)

lemma load_step:
  assumes "wf_Block b" and "blk_Bytes b = Inr raw" and "raw \<noteq> []" and "length raw \<le> MaxBlockBytes"
    and "acceptStoredBlock K c (clock h) (Some b) = (c', Inr (), x)" and "Tip c' = (hdr_ID K (blk_Header b), int (Suc h))"
  shows "load_blocks K clock c h (frame b @ rest) = load_blocks K clock c' (Suc h) rest"
proof -
  have len: "length raw < 256 ^ 4" using assms(4) by (simp add: MaxBlockBytes_def)
  have "frame b = be_bytes 4 (length raw) @ raw" using assms(2) by (simp add: frame_def)
  then have parts: "take 4 (frame b @ rest) = be_bytes 4 (length raw)" "drop 4 (frame b @ rest) = raw @ rest"
    "\<not> length (frame b @ rest) < 4" "(frame b @ rest = []) = False" using assms(3) by simp_all
  show ?thesis
    unfolding load_blocks.simps [of K clock c h "frame b @ rest"] parts(1,2) be_nat_frame [OF len]
    unfolding parts(4) using parts(3) assms DecodeBlock_blk_Bytes [OF assms(1,2)] by (simp add: Let_def)
qed

lemma load_main:
  assumes br: "branch K p idx (last bs) bs" and led: "ledger_of K p (map bi_block bs) \<noteq> None"
    and dist: "distinct (map bi_id bs)"
    and link: "\<And>i. Suc i < length bs \<Longrightarrow> bi_prev (bs ! Suc i) = bi_id (bs ! i)"
    and st: "\<And>i. Suc i < length bs \<Longrightarrow> storable p (int (Suc i)) (clock i) (bi_block (bs ! Suc i))"
  shows "k < length bs \<Longrightarrow> chain_inv K c \<Longrightarrow> ch_params c = p \<Longrightarrow> branch K p (ch_index c) (bs ! k) (take (Suc k) bs) \<Longrightarrow>
    ch_tip c = bs ! k \<Longrightarrow> dom (ch_index c) = bi_id ` set (take (Suc k) bs) \<Longrightarrow>
    \<exists>c'. load_blocks K clock c k (concat (map (frame \<circ> bi_block) (drop (Suc k) bs))) = Inr c' \<and>
      chain_inv K c' \<and> ch_params c' = p \<and> branch K p (ch_index c') (last bs) bs \<and> ch_tip c' = last bs"
proof (induction "length bs - Suc k" arbitrary: k c)
  case 0
  then have k: "Suc k = length bs" by simp
  then have "bs ! k = last bs" by (metis diff_Suc_1 last_conv_nth length_0_conv nat.distinct(1))
  then show ?case using 0 k by (simp add: load_blocks.simps)
next
  case (Suc n)
  let ?bi = "bs ! Suc k"
  have k: "Suc k < length bs" using Suc.hyps(2) by simp
  have fol: "follows K p (take (Suc k) bs) ?bi" using branch_nth_follows [OF br] k by simp
  have "take (Suc (Suc k)) bs = take (Suc k) bs @ [?bi]" using k by (simp add: take_Suc_conv_app_nth)
  then have pre: "map bi_block (take (Suc k) bs) @ [bi_block ?bi] = map bi_block (take (Suc (Suc k)) bs)" by simp
  have "ledger_of K p (map bi_block (take (Suc (Suc k)) bs)) \<noteq> None"
    using ledger_prefix [of K p "map bi_block (take (Suc (Suc k)) bs)" "map bi_block (drop (Suc (Suc k)) bs)"] led
    by (metis append_take_drop_id map_append)
  then have ledk: "ledger_of K p (map bi_block (take (Suc k) bs) @ [bi_block ?bi]) \<noteq> None" unfolding pre .
  have new: "ch_index c (bi_id ?bi) = None"
  proof (rule ccontr)
    assume "ch_index c (bi_id ?bi) \<noteq> None"
    then have "bi_id ?bi \<in> bi_id ` set (take (Suc k) bs)" using Suc.prems(6) by blast
    then obtain i where i: "i \<le> k" "bi_id ?bi = bi_id (bs ! i)" by (auto simp: in_set_conv_nth less_Suc_eq_le)
    then have "map bi_id bs ! Suc k = map bi_id bs ! i" using k by simp
    then have "Suc k = i" using dist k i(1) by (metis distinct_conv_nth le_less_trans length_map lessI less_or_eq_imp_le not_less order.strict_trans)
    then show False using i(1) by simp
  qed
  obtain c' x where acc: "acceptStoredBlock K c (clock k) (Some (bi_block ?bi)) = (c', Inr (), x)" "ch_tip c' = ?bi"
    "chain_inv K c'" "ch_params c' = p" "branch K p (ch_index c') ?bi (take (Suc k) bs @ [?bi])"
    "ch_index c' = (ch_index c)(bi_id ?bi \<mapsto> ?bi)"
    using accept_next [OF Suc.prems(2,3) _ fol _ new ledk, of "clock k"] Suc.prems(4,5) link [OF k] st [OF k] k by auto
  obtain raw where raw: "blk_Bytes (bi_block ?bi) = Inr raw" "length raw \<le> MaxBlockBytes"
    using fol by (auto simp: follows_def block_rules_def)
  have "raw \<noteq> []" using raw(1) by (auto simp: blk_Bytes_def bindE_Inr_iff)
  moreover have "Tip c' = (hdr_ID K (blk_Header (bi_block ?bi)), int (Suc k))"
    using acc(2) fol k by (simp add: Tip_def follows_def)
  ultimately have step: "load_blocks K clock c k (frame (bi_block ?bi) @ rest) = load_blocks K clock c' (Suc k) rest" for rest
    using load_step [of "bi_block ?bi" raw K c clock k c' x] st [OF k] raw acc(1) by (simp add: storable_def)
  have "\<exists>c''. load_blocks K clock c' (Suc k) (concat (map (frame \<circ> bi_block) (drop (Suc (Suc k)) bs))) = Inr c'' \<and>
      chain_inv K c'' \<and> ch_params c'' = p \<and> branch K p (ch_index c'') (last bs) bs \<and> ch_tip c'' = last bs"
    using Suc.hyps(2) k acc Suc.prems(6) by (intro Suc.hyps(1)) (auto simp: take_Suc_conv_app_nth)
  moreover have "drop (Suc k) bs = ?bi # drop (Suc (Suc k)) bs" using k by (simp add: Cons_nth_drop_Suc)
  ultimately show ?case using step by simp
qed

lemma encode_main:
  assumes br: "branch K p idx (last bs) bs"
    and link: "\<And>i. Suc i < length bs \<Longrightarrow> bi_prev (bs ! Suc i) = bi_id (bs ! i)"
  shows "k < length bs \<Longrightarrow>
    encode_blocks K (map bi_block (drop (Suc k) bs)) (bi_id (bs ! k)) (bi_cumWork (bs ! k)) buf =
      Inr (buf @ concat (map (frame \<circ> bi_block) (drop (Suc k) bs)), bi_id (last bs), bi_cumWork (last bs))"
proof (induction "length bs - Suc k" arbitrary: k buf)
  case 0
  then have k: "Suc k = length bs" by simp
  then have "bs ! k = last bs" by (metis diff_Suc_1 last_conv_nth length_0_conv nat.distinct(1))
  then show ?case using k by simp
next
  case (Suc n)
  let ?bi = "bs ! Suc k"
  have k: "Suc k < length bs" using Suc.hyps(2) by simp
  have fol: "follows K p (take (Suc k) bs) ?bi" using branch_nth_follows [OF br] k by simp
  obtain raw where raw: "blk_Bytes (bi_block ?bi) = Inr raw" "length raw \<le> MaxBlockBytes"
    using fol by (auto simp: follows_def block_rules_def)
  have "raw \<noteq> []" using raw(1) by (auto simp: blk_Bytes_def bindE_Inr_iff)
  moreover have "MerkleRoot K (blk_Txs (bi_block ?bi)) = Inr (hdr_MerkleRoot (bi_header ?bi))"
    using branch_merkle [OF br k] .
  moreover have "drop (Suc k) bs = ?bi # drop (Suc (Suc k)) bs" using k by (simp add: Cons_nth_drop_Suc)
  moreover have "bi_cumWork ?bi = bi_cumWork (bs ! k) + block_work (bi_block ?bi)" using branch_work [OF br _ k] by simp
  moreover have "hdr_ID K (bi_header ?bi) = bi_id ?bi" using fol by (simp add: follows_def)
  ultimately show ?case
    using Suc.hyps(1) [of "Suc k" "buf @ frame (bi_block ?bi)"] Suc.hyps(2) k link [OF k] raw
    by (simp add: block_work_def frame_def)
qed

section \<open>Saving\<close>

lemma durableReplace_file:
  "sf_durable (fst (durableReplace ops fs data)) = sf_durable fs \<or> sf_durable (fst (durableReplace ops fs data)) = Some data"
  by (simp add: durableReplace_def Let_def split: option.split prod.split)

lemma durableReplace_ok:
  "snd (durableReplace ops fs data) = Inr () \<Longrightarrow>
     sf_durable (fst (durableReplace ops fs data)) = Some data \<and> sf_temp (fst (durableReplace ops fs data)) = None"
  by (auto simp: durableReplace_def Let_def joinE_def opE_def split: option.splits prod.splits sum.splits if_splits)

lemma readDurable_exists:
  "readDurableSnapshotLocked K clock ops fs p = Inr (scr, cur, raw, True) \<Longrightarrow>
     sf_durable fs = Some raw \<and> decodeCanonicalSnapshot K clock p raw = Inr (scr, cur, raw)"
  by (auto simp: readDurableSnapshotLocked_def opE_def bindE_Inr_iff failIf_Inr_iff split: option.splits)

lemma readDurable_missing:
  "readDurableSnapshotLocked K clock ops fs p = Inr (scr, cur, raw, False) \<Longrightarrow> sf_durable fs = None"
  by (auto simp: readDurableSnapshotLocked_def opE_def bindE_Inr_iff failIf_Inr_iff split: option.splits)

text \<open>A reachable chain starts from the genesis chain.\<close>

lemma reach_start:
  assumes "chain_reach K p stored c"
  obtains c0 where "NewChain K (Some p) = Inr c0" and "chain_inv K c0" and "ch_params c0 = p"
    and "ch_tip c0 = genesis_index K p" and "ch_index c0 = [bi_id (genesis_index K p) \<mapsto> genesis_index K p]"
proof -
  have "\<exists>c0. chain_init K p c0" using assms by (induction rule: reach.induct) auto
  then obtain c0 where c0: "chain_init K p c0" ..
  then have "NewChain K (Some p) = Inr c0" by (simp add: chain_init_def)
  moreover from this have "ch_tip c0 = genesis_index K p" "ch_index c0 = [bi_id (genesis_index K p) \<mapsto> genesis_index K p]"
    by (auto simp: NewChain_def bindE_Inr_iff failIf_Inr_iff Let_def)
  ultimately show ?thesis using that chain_machine.init_inv [OF c0] by blast
qed

lemma main_link:
  assumes "chain_inv K c" and "branch K (ch_params c) (ch_index c) (ch_tip c) bs" and "Suc i < length bs"
  shows "bi_prev (bs ! Suc i) = bi_id (bs ! i)"
  using branch_link [OF assms(2,3)] assms(1) unfolding chain_inv_def by (metis index_invD)

lemma canonical_retarget: "canonical_params p \<Longrightarrow> 0 < RetargetInterval p"
  by (auto simp: canonical_params_def canonicalMainNetParams_def canonicalRegTestParams_def)

lemma canonical_names: "canonical_params p \<Longrightarrow> p_Name p = p_Name canonicalMainNetParams \<or> p_Name p = p_Name canonicalRegTestParams"
  by (auto simp: canonical_params_def)

lemma evict_empty: "ch_mempool c = [] \<Longrightarrow> ch_mempool (evictMempoolLocked K c) = []"
  by (simp add: evictMempoolLocked_def)

lemma stored_mempool:
  assumes "chain_inv K c" and "acceptStoredBlock K c now (Some b) = (c', Inr (), x)" and "ch_mempool c = []"
  shows "ch_mempool c' = []"
proof -
  consider "c' = c" | r where "acceptBlockLocked K c now b False = (c', Inr r)"
    using assms(2) unfolding acceptStoredBlock_def accept_with_def by (auto split: prod.splits sum.splits option.splits)
  then show ?thesis
  proof cases
    case 1
    then show ?thesis using assms(3) by simp
  next
    case 2
    then show ?thesis by (cases rule: acceptBlock_cases) (simp_all add: assms(3) evict_empty)
  qed
qed

lemma load_blocks_reach:
  "load_blocks K clock c h data = Inr c' \<Longrightarrow> chain_reach K p True c \<and> ch_mempool c = [] \<Longrightarrow>
     chain_reach K p True c' \<and> ch_mempool c' = []"
proof (induction K clock c h data rule: load_blocks.induct)
  case (1 K clock c h data)
  show ?case
  proof (cases "data = []")
    case True
    then show ?thesis using "1.prems" by (simp add: load_blocks.simps)
  next
    case False
    let ?n = "be_nat (take 4 data)"
    obtain b c1 x where b: "DecodeBlock (take ?n (drop 4 data)) = Inr b"
      "acceptStoredBlock K c (clock h) (Some b) = (c1, Inr (), x)"
      "load_blocks K clock c1 (Suc h) (drop ?n (drop 4 data)) = Inr c'"
      using "1.prems"(1) False unfolding load_blocks.simps [of K clock c h data]
      by (auto simp: failIf_Inr_iff Let_def split: sum.splits prod.splits)
    have "chain_step K True c c1" using b(2) by (intro step_stored) simp_all
    then have "chain_reach K p True c1 \<and> ch_mempool c1 = []"
      using "1.prems"(2) reach_step [of "chain_init K p" "chain_step K True" c c1] stored_mempool [OF _ b(2)] reach_chain_inv by blast
    then show ?thesis using "1.IH" [OF False refl refl b(1) b(2) [symmetric] refl refl b(3)] by simp
  qed
qed

section \<open>Snapshots of a branch\<close>

definition main_snapshot :: "Params \<Rightarrow> blockIndex list \<Rightarrow> canonicalMainSnapshot" where
  "main_snapshot p bs = \<lparr>cm_params = p, cm_tipID = bi_id (last bs), cm_tipHeight = bi_height (last bs),
     cm_cumWork = bi_cumWork (last bs), cm_blocks = map bi_block (drop 1 bs)\<rparr>"

definition main_file :: "blockIndex list \<Rightarrow> byte list" where
  "main_file bs = concat (map (frame \<circ> bi_block) (drop 1 bs))"

lemma main_chain_branch:
  assumes "chain_inv K c" and "ch_params c = p" and "branch K p (ch_index c) (ch_tip c) bs"
  shows "ch_mainIDs c = map bi_id bs \<and> ledger_of K p (map bi_block bs) = Some (ch_utxo c)"
  using chain_invD [OF assms(1)] assms(2,3) branch_unique by metis

lemma snapshot_of_branch:
  assumes "chain_inv K c" and "ch_params c = p" and "branch K p (ch_index c) (ch_tip c) bs" and "canonical_params p"
  shows "canonicalMainSnapshot_of K c = Inr (main_snapshot p bs)"
proof -
  have "validatedCanonicalSequenceLocked K c = Inr bs"
    using validatedSequence_branch [OF assms(1), of bs] main_chain_branch [OF assms(1-3)] assms(2,3)
      canonical_work [OF assms(4)] by simp
  then show ?thesis
    using branch_shape [OF assms(3)] assms(2) by (simp add: canonicalMainSnapshot_of_def main_snapshot_def)
qed

lemma encode_snapshot:
  assumes br: "branch K p idx (last bs) bs" and can: "canonical_params p"
    and link: "\<And>i. Suc i < length bs \<Longrightarrow> bi_prev (bs ! Suc i) = bi_id (bs ! i)"
  shows "encodeCanonicalSnapshot K (main_snapshot p bs) = Inr (main_file bs)"
proof -
  have bs: "bs \<noteq> []" "bs ! 0 = genesis_index K p" "bi_height (last bs) = int (length bs) - 1"
    using branch_shape [OF br] by auto
  have "0 < bi_cumWork (last bs)" using branch_work_pos [OF br canonical_work [OF can]] bs(1) by (simp add: last_conv_nth)
  moreover have "encode_blocks K (map bi_block (drop 1 bs)) (bi_id (genesis_index K p)) (bi_cumWork (genesis_index K p)) [] =
      Inr (main_file bs, bi_id (last bs), bi_cumWork (last bs))"
    using encode_main [OF br link, of 0 "[]"] bs by (simp add: main_file_def)
  moreover have "int (length (drop 1 bs)) = bi_height (last bs)" using bs by (cases bs) simp_all
  ultimately show ?thesis
    using canonical_names [OF can] bs(1)
    by (auto simp: encodeCanonicalSnapshot_def main_snapshot_def Let_def failIf_def block_work_def)
qed

lemma decode_snapshot:
  assumes reach: "chain_reach K p stored c" and can: "canonical_params p"
    and br: "branch K p (ch_index c) (ch_tip c) bs"
    and st: "\<And>i. Suc i < length bs \<Longrightarrow> storable p (int (Suc i)) (clock i) (bi_block (bs ! Suc i))"
  shows "\<exists>scratch. decodeCanonicalSnapshot K clock p (main_file bs) = Inr (scratch, main_snapshot p bs, main_file bs) \<and>
    chain_inv K scratch \<and> ch_params scratch = p \<and> branch K p (ch_index scratch) (ch_tip scratch) bs"
proof -
  have inv: "chain_inv K c" and par: "ch_params c = p" using reach reach_chain_inv reach_params by blast+
  have tip: "ch_tip c = last bs" "bs ! 0 = genesis_index K p" "bs \<noteq> []" using branch_shape [OF br] by auto
  have link: "\<And>i. Suc i < length bs \<Longrightarrow> bi_prev (bs ! Suc i) = bi_id (bs ! i)" using main_link [OF inv] br par by simp
  obtain c0 where c0: "NewChain K (Some p) = Inr c0" "chain_inv K c0" "ch_params c0 = p" "ch_tip c0 = genesis_index K p"
    "ch_index c0 = [bi_id (genesis_index K p) \<mapsto> genesis_index K p]"
    using reach by (rule reach_start)
  have "take (Suc 0) bs = [genesis_index K p]" using tip(2,3) by (cases bs) auto
  then obtain c' where c': "load_blocks K clock c0 0 (main_file bs) = Inr c'" "chain_inv K c'" "ch_params c' = p"
    "branch K p (ch_index c') (last bs) bs" "ch_tip c' = last bs"
    using load_main [of K p "ch_index c" bs clock 0 c0, OF _ _ main_ids_distinct [OF inv] link st]
      br tip par c0 branch_root main_chain_branch [OF inv par br]
    by (auto simp: main_file_def)
  then have "branch K p (ch_index c') (ch_tip c') bs" by simp
  then show ?thesis
    using c0(1) c' snapshot_of_branch [OF c'(2,3) _ can] encode_snapshot [OF c'(4) can link]
    by (simp add: decodeCanonicalSnapshot_def)
qed

lemma save_locked_cases:
  assumes "save_locked K clock clock' ops network fs c = (fs', r)"
  obtains (refused) "fs' = fs" "r \<noteq> Inr ()"
  | (same) s raw scr cur where "canonicalMainSnapshot_of K c = Inr s" "validateAndEncodeCanonicalSnapshot K clock s = Inr raw"
      "readDurableSnapshotLocked K clock' ops fs (cm_params s) = Inr (scr, cur, raw, True)" "fs' = fs"
  | (replaced) s raw scr cur old e where "canonicalMainSnapshot_of K c = Inr s"
      "validateAndEncodeCanonicalSnapshot K clock s = Inr raw"
      "readDurableSnapshotLocked K clock' ops fs (cm_params s) = Inr (scr, cur, old, e)"
      "e \<longrightarrow> cm_cumWork cur < cm_cumWork s" "durableReplace ops fs raw = (fs', r)"
proof (cases "canonicalMainSnapshot_of K c")
  case (Inl e)
  then show ?thesis using assms refused by (auto simp: save_locked_def)
next
  case (Inr s)
  note s = Inr
  show ?thesis
  proof (cases "canonicalStoreParams network \<noteq> Some (cm_params s)")
    case True
    then show ?thesis using assms refused s by (auto simp: save_locked_def)
  next
    case net: False
    show ?thesis
    proof (cases "validateAndEncodeCanonicalSnapshot K clock s")
      case (Inl e)
      then show ?thesis using assms refused s net by (auto simp: save_locked_def)
    next
      case (Inr raw)
      note raw = Inr
      show ?thesis
      proof (cases "readDurableSnapshotLocked K clock' ops fs (cm_params s)")
        case (Inl e)
        then show ?thesis using assms refused s net raw by (auto simp: save_locked_def)
      next
        case (Inr t)
        obtain scr cur old e where t: "t = (scr, cur, old, e)" by (rule prod_cases4)
        then show ?thesis
          using assms s net raw Inr refused same [OF s raw] replaced [OF s raw]
          by (auto simp: save_locked_def failIf_def not_less split: if_splits)
      qed
    qed
  qed
qed

section \<open>Properties\<close>

text \<open>C26: Saving the main chain of a reachable state and loading the file again gives back the same chain:
  encoding succeeds, decoding replays every block on a scratch chain, and the result has the same
  block ids, tip and unspent outputs, the same snapshot and the same bytes. The blocks must be
  storable: encodable within the decoder's limits, with positive work, and not in the future at loading time.\<close>

theorem snapshot_roundtrip:
  assumes reach: "chain_reach K p stored c" and can: "canonical_params p"
    and st: "\<forall>i. Suc i < length (ch_mainIDs c) \<longrightarrow>
      (\<exists>b. BlockAt c (int (Suc i)) = Inr (Some b) \<and> storable p (int (Suc i)) (clock i) b)"
  shows "\<exists>s raw scratch. canonicalMainSnapshot_of K c = Inr s \<and> encodeCanonicalSnapshot K s = Inr raw \<and>
    decodeCanonicalSnapshot K clock p raw = Inr (scratch, s, raw) \<and> ch_mainIDs scratch = ch_mainIDs c \<and>
    ch_tip scratch = ch_tip c \<and> ch_utxo scratch = ch_utxo c"
proof -
  have inv: "chain_inv K c" and par: "ch_params c = p" using reach reach_chain_inv reach_params by blast+
  obtain bs where br: "branch K p (ch_index c) (ch_tip c) bs" using chain_invD [OF inv] par by metis
  note main = main_chain_branch [OF inv par br]
  have tip: "ch_tip c = last bs" using branch_shape [OF br] by auto
  have stored: "\<And>i. Suc i < length bs \<Longrightarrow> storable p (int (Suc i)) (clock i) (bi_block (bs ! Suc i))"
  proof -
    fix i
    assume i: "Suc i < length bs"
    then have "main_entry c (int (Suc i)) = Inr (bs ! Suc i)"
      using main_entry_branch [OF inv, of bs "int (Suc i)"] br main par by (simp del: of_nat_Suc)
    moreover obtain b where "BlockAt c (int (Suc i)) = Inr (Some b)" "storable p (int (Suc i)) (clock i) b"
      using st i main by auto
    ultimately show "storable p (int (Suc i)) (clock i) (bi_block (bs ! Suc i))"
      using i main by (simp add: BlockAt_def)
  qed
  obtain c' where c': "decodeCanonicalSnapshot K clock p (main_file bs) = Inr (c', main_snapshot p bs, main_file bs)"
    "chain_inv K c'" "ch_params c' = p" "branch K p (ch_index c') (ch_tip c') bs"
    using decode_snapshot [OF reach can br stored] by metis
  have "encodeCanonicalSnapshot K (main_snapshot p bs) = Inr (main_file bs)"
    using encode_snapshot [OF _ can] br tip main_link [OF inv] par by metis
  then show ?thesis
    using c'(1) snapshot_of_branch [OF inv par br can] main main_chain_branch [OF c'(2-4)] branch_shape [OF c'(4)] tip
    by auto
qed

text \<open>The sample chain of one block on the regression-test genesis.\<close>

lemma sample_child_storable: "storable canonicalRegTestParams 1 1751738400 sample_child"
proof -
  have "length (tx_Bytes sample_coinbase) = 75"
    by (simp add: sample_coinbase_def NewCoinbase_def tx_Bytes_def serialize_def enc_TxIn_def enc_TxOut_def writeBytes_def
        put_uvarint_small u64_of_def string_bytes_def)
  moreover have "wf_Tx sample_coinbase"
    by (simp add: wf_Tx_def sample_coinbase_def NewCoinbase_def wf_TxIn_def wf_TxOut_def put_uvarint_small u64_of_def
        string_bytes_def is_int64_def)
  ultimately have "wf_Block sample_child"
    by (simp add: wf_Block_def sample_child_def is_int64_def MaxBlockBytes_def blk_Bytes_def writeBytes_def put_uvarint_small)
  moreover have "0 < block_work sample_child"
    unfolding block_work_def by (rule WorkFromTarget_pos) (simp_all add: sample_child_def CompactToTarget_def)
  moreover have "clock_ok canonicalRegTestParams 1 1751738400 (hdr_Time (blk_Header sample_child))"
    by (simp add: clock_ok_def asertActive_def canonicalRegTestParams_def sample_child_def wrap64_def)
  ultimately show ?thesis by (simp add: storable_def)
qed

lemma sample_stored_chain:
  "\<exists>c. chain_reach sample_crypto canonicalRegTestParams True c \<and> length (ch_mainIDs c) = 2 \<and>
     BlockAt c 1 = Inr (Some sample_child)"
proof -
  let ?K = sample_crypto and ?p = canonicalRegTestParams
  let ?g = "genesis_index ?K ?p"
  let ?bi = "entry_for ?K ?g sample_child"
  obtain c where c: "chain_init ?K ?p c" using NewChain_sample by blast
  have inv: "chain_inv ?K c" "ch_params c = ?p" using chain_machine.init_inv [OF c] by auto
  note ix = index_sample [OF c]
  have hid: "hdr_ID ?K (blk_Header sample_child) = 1" by (simp add: hdr_ID_sample sample_child_def)
  have g0: "bi_id ?g = 0" using ix inv(1) by (auto simp: chain_inv_def split: if_splits)
  have fol: "follows ?K ?p [?g] ?bi" using sample_child_rules by (simp add: follows_def)
  have led: "ledger_of ?K ?p (map bi_block [?g] @ [bi_block ?bi]) \<noteq> None"
    using ledger_of_snoc [of ?K ?p "[GenesisBlock ?K ?p]" sample_child] ledger_genesis sample_child_connects(2) by simp
  obtain c' x where acc: "acceptStoredBlock ?K c 1751738400 (Some sample_child) = (c', Inr (), x)" "ch_tip c' = ?bi"
    "chain_inv ?K c'" "ch_params c' = ?p" "branch ?K ?p (ch_index c') ?bi [?g, ?bi]"
    using accept_next [OF inv, of "[?g]" ?bi 1751738400] branch_root fol led sample_child_storable ix hid g0
    by (auto simp: sample_child_def)
  have "chain_step ?K True c c'" using acc(1) by (intro step_stored) simp_all
  then have "chain_reach ?K ?p True c'" using c by (blast intro: reach_init reach_step)
  moreover have main: "ch_mainIDs c' = map bi_id [?g, ?bi]" using main_chain_branch [OF acc(3,4)] acc(2,5) by simp
  moreover have "main_entry c' 1 = Inr ?bi" using main_entry_branch [OF acc(3), of "[?g, ?bi]" 1] acc(2,4,5) main by simp
  ultimately show ?thesis by (intro exI [of _ c']) (simp add: BlockAt_def)
qed

lemma sample_saved:
  "\<exists>c scratch s raw. chain_reach sample_crypto canonicalRegTestParams True c \<and>
     canonicalMainSnapshot_of sample_crypto c = Inr s \<and> cm_params s = canonicalRegTestParams \<and> cm_tipHeight s = 1 \<and>
     encodeCanonicalSnapshot sample_crypto s = Inr raw \<and>
     decodeCanonicalSnapshot sample_crypto (\<lambda>_. 1751738400) canonicalRegTestParams raw = Inr (scratch, s, raw)"
proof -
  let ?K = sample_crypto and ?p = canonicalRegTestParams
  obtain c where c: "chain_reach ?K ?p True c" "length (ch_mainIDs c) = 2" "BlockAt c 1 = Inr (Some sample_child)"
    using sample_stored_chain by blast
  have can: "canonical_params ?p" by (simp add: canonical_params_def)
  have inv: "chain_inv ?K c" "ch_params c = ?p" using c(1) reach_chain_inv reach_params by blast+
  obtain bs where br: "branch ?K ?p (ch_index c) (ch_tip c) bs" using chain_invD [OF inv(1)] inv(2) by metis
  note main = main_chain_branch [OF inv br]
  have len: "length bs = 2" using main c(2) by simp
  then have "main_entry c 1 = Inr (bs ! 1)" using main_entry_branch [OF inv(1), of bs 1] br main inv(2) by simp
  then have "bi_block (bs ! 1) = sample_child" using c(2,3) by (simp add: BlockAt_def)
  then have "\<And>i. Suc i < length bs \<Longrightarrow> storable ?p (int (Suc i)) 1751738400 (bi_block (bs ! Suc i))"
    using len sample_child_storable by (auto simp: less_Suc_eq numeral_2_eq_2)
  then obtain c' where "decodeCanonicalSnapshot ?K (\<lambda>_. 1751738400) ?p (main_file bs) = Inr (c', main_snapshot ?p bs, main_file bs)"
    using decode_snapshot [OF c(1) can br, of "\<lambda>_. 1751738400"] by blast
  moreover have "encodeCanonicalSnapshot ?K (main_snapshot ?p bs) = Inr (main_file bs)"
    using encode_snapshot [OF _ can] br branch_shape [OF br] main_link [OF inv(1)] inv(2) by metis
  moreover have "cm_params (main_snapshot ?p bs) = ?p" "cm_tipHeight (main_snapshot ?p bs) = 1"
    using branch_shape [OF br] len by (auto simp: main_snapshot_def)
  ultimately show ?thesis using c(1) snapshot_of_branch [OF inv br can] by blast
qed

definition sample_ops :: StoreOps where
  "sample_ops = \<lparr>ops_lock = None, ops_release = None, ops_read = None, ops_createTemp = None, ops_abs = None,
     ops_tempInside = True, ops_write = (\<lambda>data. (length data, None)), ops_flush = None, ops_prepare = None,
     ops_syncFile = None, ops_closeFile = None, ops_deferClose = None, ops_replace = None, ops_finalize = None,
     ops_remove = None\<rparr>"

theorem snapshot_roundtrip_witness:
  "\<exists>c s raw scratch. BlockAt c 1 = Inr (Some sample_child) \<and> canonicalMainSnapshot_of sample_crypto c = Inr s \<and>
    decodeCanonicalSnapshot sample_crypto (\<lambda>_. 1751738400) canonicalRegTestParams raw = Inr (scratch, s, raw) \<and>
    ch_utxo scratch = ch_utxo c"
proof -
  obtain c where c: "chain_reach sample_crypto canonicalRegTestParams True c" "length (ch_mainIDs c) = 2"
    "BlockAt c 1 = Inr (Some sample_child)" using sample_stored_chain by blast
  have "canonical_params canonicalRegTestParams" by (simp add: canonical_params_def)
  moreover have "\<forall>i. Suc i < length (ch_mainIDs c) \<longrightarrow> (\<exists>b. BlockAt c (int (Suc i)) = Inr (Some b) \<and>
      storable canonicalRegTestParams (int (Suc i)) 1751738400 b)"
    using c(2,3) sample_child_storable by (auto simp: less_Suc_eq numeral_2_eq_2)
  ultimately show ?thesis
    using snapshot_roundtrip [OF c(1), of "\<lambda>_. 1751738400"] c(3) by blast
qed



text \<open>Loading is all or nothing: afterwards the destination is untouched, or it is a state reachable by
  replaying blocks from genesis whose main chain is exactly the content of the file, with an empty mempool.\<close>

theorem load_all_or_nothing:
  assumes "LoadInto K clock ops p fs (Some c) c1 = (Some c', r)" and "canonical_params p" and "chain_reach K p True c1"
  shows "c' = c1 \<or>
    (\<exists>data s. sf_durable fs = Some data \<and> chain_reach K p True c' \<and> ch_mempool c' = [] \<and>
       canonicalMainSnapshot_of K c' = Inr s \<and> encodeCanonicalSnapshot K s = Inr data \<and>
       (ops_release ops = None \<longrightarrow> r = Inr (bi_height (ch_tip c'))))"
proof -
  consider "c' = c1"
    | scratch s data where "readDurableSnapshotLocked K clock ops fs (ch_params c) = Inr (scratch, s, data, True)"
        "ch_params c = p" "cm_params s = p"
        "c' = c1\<lparr>ch_index := ch_index scratch, ch_tip := ch_tip scratch, ch_mainIDs := ch_mainIDs scratch,
           ch_utxo := ch_utxo scratch, ch_mempool := []\<rparr>"
        "ops_release ops = None \<longrightarrow> r = Inr (cm_tipHeight s)"
    using assms(1)
    by (auto simp: LoadInto_def validateLoadDestinationLocked_def failIf_def split: sum.splits option.splits prod.splits if_splits)
  then show ?thesis
  proof cases
    case 1
    then show ?thesis by simp
  next
    case 2
    note read = readDurable_exists [OF 2(1)]
    obtain c0 where c0: "NewChain K (Some p) = Inr c0" "load_blocks K clock c0 0 data = Inr scratch"
      and s: "canonicalMainSnapshot_of K scratch = Inr s" "encodeCanonicalSnapshot K s = Inr data"
      using read 2(2) by (auto simp: decodeCanonicalSnapshot_def bindE_Inr_iff)
    have "chain_init K p c0" "ch_mempool c0 = []"
      using c0(1) canonical_retarget [OF assms(2)] by (auto simp: chain_init_def NewChain_def bindE_Inr_iff failIf_Inr_iff Let_def)
    then have "chain_reach K p True c0 \<and> ch_mempool c0 = []" by (blast intro: reach_init)
    then have reach: "chain_reach K p True scratch" "ch_mempool scratch = []" using load_blocks_reach [OF c0(2)] by blast+
    have "ch_params c1 = p" "ch_params scratch = p" using assms(3) reach(1) reach_params by blast+
    then have "c' = scratch" using 2(4) reach(2) by simp
    moreover have "cm_tipHeight s = bi_height (ch_tip scratch)" using s(1) by (auto simp: canonicalMainSnapshot_of_def bindE_Inr_iff)
    ultimately show ?thesis using read reach s 2(5) by auto
  qed
qed

theorem load_all_or_nothing_witness:
  "\<exists>c c' data s. LoadInto sample_crypto (\<lambda>_. 1751738400) sample_ops canonicalRegTestParams
      \<lparr>sf_durable = Some data, sf_temp = None\<rparr> (Some c) c = (Some c', Inr 1) \<and> c' \<noteq> c \<and>
    canonicalMainSnapshot_of sample_crypto c' = Inr s \<and> encodeCanonicalSnapshot sample_crypto s = Inr data"
proof -
  let ?K = sample_crypto and ?p = canonicalRegTestParams and ?clk = "\<lambda>_. 1751738400 :: int"
  obtain c scratch s raw where c: "chain_reach ?K ?p True c" "canonicalMainSnapshot_of ?K c = Inr s" "cm_params s = ?p"
    "cm_tipHeight s = 1" "decodeCanonicalSnapshot ?K ?clk ?p raw = Inr (scratch, s, raw)"
    using sample_saved by blast
  obtain c0 where c0: "chain_init ?K ?p c0" using NewChain_sample by blast
  then have r0: "chain_reach ?K ?p True c0" by (rule reach_init)
  have new: "NewChain ?K (Some ?p) = Inr c0" using c0 by (simp add: chain_init_def)
  note ix = index_sample [OF c0]
  have mem: "ch_mempool c0 = []" using new by (auto simp: NewChain_def bindE_Inr_iff failIf_Inr_iff Let_def)
  have "chain_inv ?K c0" using r0 reach_chain_inv by blast
  then have "ch_index c0 (bi_id (ch_tip c0)) = Some (ch_tip c0)" by (simp add: chain_inv_def)
  moreover have "equalBlockBytes (GenesisBlock ?K ?p) (GenesisBlock ?K ?p)"
    by (simp add: equalBlockBytes_def GenesisBlock_def Let_def)
  ultimately have "validateLoadDestinationLocked ?K c0 ?p = Inr ()"
    using new ix mem by (auto simp: validateLoadDestinationLocked_def matchesCanonicalGenesisLocked_def graph_def)
  then have load: "LoadInto ?K ?clk sample_ops ?p \<lparr>sf_durable = Some raw, sf_temp = None\<rparr> (Some c0) c0 =
      (Some (c0\<lparr>ch_index := ch_index scratch, ch_tip := ch_tip scratch, ch_mainIDs := ch_mainIDs scratch,
         ch_utxo := ch_utxo scratch, ch_mempool := []\<rparr>), Inr 1)" (is "_ = (Some ?c', _)")
    using c(3-5) ix(2) by (simp add: LoadInto_def sample_ops_def readDurableSnapshotLocked_def opE_def)
  have "canonicalMainSnapshot_of ?K scratch = Inr s" using c(5) by (auto simp: decodeCanonicalSnapshot_def bindE_Inr_iff)
  then have "bi_height (ch_tip scratch) = 1" using c(4) by (auto simp: canonicalMainSnapshot_of_def bindE_Inr_iff)
  then have "bi_height (ch_tip ?c') \<noteq> bi_height (ch_tip c0)" using ix(3) by simp
  then have "?c' \<noteq> c0" by metis
  then show ?thesis
    using load load_all_or_nothing [OF load _ r0] by (fastforce simp: canonical_params_def)
qed

end
