(* ===== verification/JobTable.thy ===== *)
theory JobTable
  imports Prelude "HOL-Library.AList"
begin

text \<open>
  The bounded job table both mining coordinators keep: a Go map from job ids to jobs with a list of
  ids in the order of issue (\<^verbatim>\<open>jobs\<close> and \<^verbatim>\<open>order\<close> of \<^verbatim>\<open>pool/coordinator.go\<close> and
  \<^verbatim>\<open>pool/pplns_coordinator.go\<close>, whose table functions are the same text over two job types). The
  map is an association list with distinct keys; \<open>expires\<close> reads a job's expiry. The loop that makes
  room for a new job is not bounded by the code itself: it is a partial function, and it is shown to
  return for every table that satisfies the invariant.
\<close>

section \<open>Operations\<close>

type_synonym 'j jobs = "(string \<times> 'j) list"

fun prune_order :: "('j \<Rightarrow> int) \<Rightarrow> int \<Rightarrow> string list \<Rightarrow> 'j jobs \<Rightarrow> string list \<Rightarrow> string list \<times> 'j jobs" where
  "prune_order expires now [] jobs kept = (kept, jobs)"
| "prune_order expires now (jobID # rest) jobs kept =
     (case map_of jobs jobID of
        None \<Rightarrow> prune_order expires now rest jobs kept
      | Some job \<Rightarrow>
          if \<not> now < expires job then prune_order expires now rest (AList.delete jobID jobs) kept
          else prune_order expires now rest jobs (kept @ [jobID]))"

fun evict_oldest :: "string list \<Rightarrow> 'j jobs \<Rightarrow> string list \<times> 'j jobs" where
  "evict_oldest [] jobs = ([], jobs)"
| "evict_oldest (jobID # rest) jobs =
     (if map_of jobs jobID \<noteq> None then (rest, AList.delete jobID jobs) else evict_oldest rest jobs)"

partial_function (option) make_room :: "int \<Rightarrow> string list \<Rightarrow> 'j jobs \<Rightarrow> (string list \<times> 'j jobs) option" where
  "make_room maxJobs order jobs =
     (if int (length jobs) \<ge> maxJobs
      then make_room maxJobs (fst (evict_oldest order jobs)) (snd (evict_oldest order jobs))
      else Some (order, jobs))"

declare make_room.simps [code]

definition add_job ::
  "('j \<Rightarrow> int) \<Rightarrow> int \<Rightarrow> int \<Rightarrow> string \<Rightarrow> 'j \<Rightarrow> string list \<Rightarrow> 'j jobs \<Rightarrow> (string list \<times> 'j jobs) res"
where
  "add_job expires now maxJobs jobID job order jobs =
     (case prune_order expires now order jobs [] of (order1, jobs1) \<Rightarrow>
      case make_room maxJobs order1 jobs1 of None \<Rightarrow> Inl Diverges
      | Some (order2, jobs2) \<Rightarrow> Inr (order2 @ [jobID], AList.update jobID job jobs2))"

section \<open>The invariant\<close>

definition table_ok :: "int \<Rightarrow> string list \<Rightarrow> 'j jobs \<Rightarrow> bool" where
  "table_ok maxJobs order jobs \<longleftrightarrow>
     distinct (map fst jobs) \<and> set (map fst jobs) \<subseteq> set order \<and> int (length jobs) \<le> maxJobs \<and> 1 \<le> maxJobs"

lemma delete_keys: "map fst (AList.delete k jobs) = filter (\<lambda>x. x \<noteq> k) (map fst jobs)"
  by (induction jobs) (auto simp: AList.delete_eq)

lemma length_delete_le: "length (AList.delete k jobs) \<le> length jobs"
  by (simp add: AList.delete_eq)

lemma length_delete_less: "map_of jobs k \<noteq> None \<Longrightarrow> length (AList.delete k jobs) < length jobs"
proof -
  assume "map_of jobs k \<noteq> None"
  then obtain v where "(k, v) \<in> set jobs" by (metis map_of_SomeD not_None_eq)
  then show ?thesis unfolding AList.delete_eq by (intro length_filter_less [of "(k, v)"]) auto
qed

lemma table_ok_delete: "table_ok m order jobs \<Longrightarrow> table_ok m order (AList.delete k jobs)"
  using length_delete_le [of k jobs] by (auto simp: table_ok_def delete_keys)

lemma table_ok_empty: "1 \<le> m \<Longrightarrow> table_ok m [] []"
  by (simp add: table_ok_def)

lemma table_ok_update:
  assumes "table_ok m order jobs" and "map_of jobs k \<noteq> None"
  shows "table_ok m order (AList.update k j jobs)"
proof -
  have mem: "k \<in> set (map fst jobs)" using assms(2) by (metis map_of_eq_None_iff set_map)
  then have "map fst (AList.update k j jobs) = map fst jobs" by (induction jobs) auto
  moreover from this have "length (AList.update k j jobs) = length jobs" by (metis length_map)
  ultimately show ?thesis using assms(1) by (simp only: table_ok_def)
qed

text \<open>Pruning keeps exactly the unexpired jobs, in the order of issue.\<close>

lemma prune_jobs_filter:
  assumes "distinct (map fst jobs)" and "prune_order expires now order jobs kept = (order', jobs')"
  shows "jobs' = filter (\<lambda>(k, j). k \<in> set order \<longrightarrow> now < expires j) jobs \<and>
    order' = kept @ filter (\<lambda>k. case map_of jobs k of None \<Rightarrow> False | Some j \<Rightarrow> now < expires j) order"
  using assms
proof (induction expires now order jobs kept rule: prune_order.induct)
  case (1 expires now jobs kept)
  then show ?case by (auto simp: filter_id_conv)
next
  case (2 expires now jobID rest jobs kept)
  show ?case
  proof (cases "map_of jobs jobID")
    case None
    then have "\<forall>x\<in>set jobs. fst x \<noteq> jobID" by (metis image_eqI map_of_eq_None_iff)
    moreover have "jobs' = filter (\<lambda>(k, j). k \<in> set rest \<longrightarrow> now < expires j) jobs \<and>
        order' = kept @ filter (\<lambda>k. case map_of jobs k of None \<Rightarrow> False | Some j \<Rightarrow> now < expires j) rest"
      using "2.IH"(1) [OF None] "2.prems" None by simp
    ultimately show ?thesis using None by (auto intro!: filter_cong)
  next
    case (Some job)
    have only: "j = job" if "(jobID, j) \<in> set jobs" for j
      using that Some "2.prems"(1) by (metis map_of_eq_Some_iff option.inject)
    show ?thesis
    proof (cases "now < expires job")
      case True
      then have "jobs' = filter (\<lambda>(k, j). k \<in> set rest \<longrightarrow> now < expires j) jobs \<and>
          order' = (kept @ [jobID]) @ filter (\<lambda>k. case map_of jobs k of None \<Rightarrow> False | Some j \<Rightarrow> now < expires j) rest"
        using "2.IH"(3) [OF Some] "2.prems" Some by simp
      then show ?thesis using Some True only by (auto intro!: filter_cong)
    next
      case False
      have dist: "distinct (map fst (AList.delete jobID jobs))" using "2.prems"(1) by (simp add: delete_keys)
      have "jobs' = filter (\<lambda>(k, j). k \<in> set rest \<longrightarrow> now < expires j) (AList.delete jobID jobs) \<and>
          order' = kept @ filter (\<lambda>k. case map_of (AList.delete jobID jobs) k of None \<Rightarrow> False | Some j \<Rightarrow> now < expires j) rest"
        using "2.IH"(2) [OF Some False dist] "2.prems"(2) Some False by simp
      moreover have "filter (\<lambda>(k, j). k \<in> set rest \<longrightarrow> now < expires j) (AList.delete jobID jobs) =
          filter (\<lambda>(k, j). k \<in> set (jobID # rest) \<longrightarrow> now < expires j) jobs"
        using False only by (auto simp: AList.delete_eq intro!: filter_cong)
      moreover have "(case map_of (AList.delete jobID jobs) k of None \<Rightarrow> False | Some j \<Rightarrow> now < expires j) =
          (case map_of jobs k of None \<Rightarrow> False | Some j \<Rightarrow> now < expires j)" for k
        using Some False by (simp add: AList.delete_conv)
      ultimately show ?thesis using Some False by simp
    qed
  qed
qed

lemma prune_ok:
  assumes "table_ok m order jobs" and "prune_order expires now order jobs [] = (order', jobs')"
  shows "table_ok m order' jobs' \<and> jobs' = filter (\<lambda>(k, j). now < expires j) jobs"
proof -
  have dist: "distinct (map fst jobs)" and sub: "set (map fst jobs) \<subseteq> set order" using assms(1) by (auto simp: table_ok_def)
  note p = prune_jobs_filter [OF dist assms(2)]
  have jobs': "jobs' = filter (\<lambda>(k, j). now < expires j) jobs"
    using p sub by (auto intro!: filter_cong)
  have "set (map fst jobs') \<subseteq> set order'"
  proof
    fix k
    assume "k \<in> set (map fst jobs')"
    then obtain j where kj: "(k, j) \<in> set jobs" "now < expires j" using jobs' by auto
    then have "map_of jobs k = Some j" using dist by simp
    moreover have "k \<in> set order" using kj(1) sub by force
    ultimately show "k \<in> set order'" using p kj(2) by simp
  qed
  moreover have "distinct (map fst jobs')" using dist jobs' by (simp add: distinct_map_filter)
  moreover have "length jobs' \<le> length jobs" unfolding jobs' by (rule length_filter_le)
  then have "int (length jobs') \<le> m" "1 \<le> m" using assms(1) unfolding table_ok_def by linarith+
  ultimately show ?thesis using jobs' by (simp only: table_ok_def)
qed

text \<open>One eviction of a nonempty table removes one job, the oldest still present.\<close>

lemma evict_oldest_cases:
  assumes "set (map fst jobs) \<subseteq> set order" and "jobs \<noteq> []"
  obtains jobID where "map_of jobs jobID \<noteq> None" and "snd (evict_oldest order jobs) = AList.delete jobID jobs"
    and "set (map fst (AList.delete jobID jobs)) \<subseteq> set (fst (evict_oldest order jobs))"
  using assms
proof (induction order jobs arbitrary: thesis rule: evict_oldest.induct)
  case (1 jobs)
  then show ?case by auto
next
  case (2 jobID rest jobs)
  show ?case
  proof (cases "map_of jobs jobID")
    case None
    then have "jobID \<notin> set (map fst jobs)" by (simp add: map_of_eq_None_iff)
    then have "set (map fst jobs) \<subseteq> set rest" using "2.prems"(2) by auto
    then show ?thesis using "2.IH" [OF _ _ _ "2.prems"(3)] "2.prems"(1) None by auto
  next
    case (Some job)
    then show ?thesis using "2.prems"(1) [of jobID] "2.prems"(2) by (auto simp: delete_keys)
  qed
qed

lemma make_room_returns:
  assumes "distinct (map fst jobs)" and "set (map fst jobs) \<subseteq> set order" and "1 \<le> m"
  shows "\<exists>order' jobs'. make_room m order jobs = Some (order', jobs') \<and> int (length jobs') < m \<and>
    distinct (map fst jobs') \<and> set (map fst jobs') \<subseteq> set order' \<and> set jobs' \<subseteq> set jobs \<and>
    (int (length jobs) < m \<longrightarrow> jobs' = jobs)"
  using assms
proof (induction "length jobs" arbitrary: order jobs rule: less_induct)
  case less
  show ?case
  proof (cases "int (length jobs) \<ge> m")
    case False
    then show ?thesis using less.prems by (simp add: make_room.simps)
  next
    case True
    then have ne: "jobs \<noteq> []" using less.prems(3) by auto
    obtain jobID where id: "map_of jobs jobID \<noteq> None" "snd (evict_oldest order jobs) = AList.delete jobID jobs"
      "set (map fst (AList.delete jobID jobs)) \<subseteq> set (fst (evict_oldest order jobs))"
      using evict_oldest_cases [OF less.prems(2) ne] by blast
    have dist: "distinct (map fst (AList.delete jobID jobs))" using less.prems(1) by (simp add: delete_keys)
    have sub: "set (AList.delete jobID jobs) \<subseteq> set jobs" by (auto simp: AList.delete_eq)
    have step: "make_room m order jobs = make_room m (fst (evict_oldest order jobs)) (AList.delete jobID jobs)"
      using True id(2) by (simp add: make_room.simps [of m order])
    show ?thesis
      using less.hyps [OF length_delete_less [OF id(1)] dist id(3) less.prems(3)] step sub True by fastforce
  qed
qed

text \<open>Adding a job always returns, keeps the invariant, keeps only unexpired jobs, and keeps all of them
  when there is room.\<close>

lemma add_job_ok:
  assumes "table_ok m order jobs"
  obtains order' jobs' where "add_job expires now m jobID job order jobs = Inr (order', jobs')"
    and "table_ok m order' jobs'" and "map_of jobs' jobID = Some job"
    and "\<And>k j. map_of jobs' k = Some j \<Longrightarrow> k = jobID \<or> (map_of jobs k = Some j \<and> now < expires j)"
    and "\<And>k j. int (length jobs) < m \<Longrightarrow> map_of jobs k = Some j \<Longrightarrow> now < expires j \<Longrightarrow> k \<noteq> jobID \<Longrightarrow> map_of jobs' k = Some j"
proof -
  obtain order1 jobs1 where pr: "prune_order expires now order jobs [] = (order1, jobs1)" by fastforce
  note p = prune_ok [OF assms pr]
  have ok1: "distinct (map fst jobs1)" "set (map fst jobs1) \<subseteq> set order1" "1 \<le> m"
    using p unfolding table_ok_def by blast+
  obtain order2 jobs2 where mk: "make_room m order1 jobs1 = Some (order2, jobs2)" "int (length jobs2) < m"
    "distinct (map fst jobs2)" "set (map fst jobs2) \<subseteq> set order2" "set jobs2 \<subseteq> set jobs1" "int (length jobs1) < m \<longrightarrow> jobs2 = jobs1"
    using make_room_returns [OF ok1] by blast
  have dist: "distinct (map fst jobs)" using assms by (simp add: table_ok_def)
  let ?jobs = "AList.update jobID job jobs2"
  have len: "length ?jobs \<le> Suc (length jobs2)" by (induction jobs2) auto
  have dist': "distinct (map fst ?jobs)" using mk(3) by (rule distinct_update)
  have keys: "set (map fst ?jobs) \<subseteq> insert jobID (set (map fst jobs2))" by (induction jobs2) auto
  have "table_ok m (order2 @ [jobID]) ?jobs"
    using mk(2) len dist' ok1(3) order_trans [OF keys insert_mono [OF mk(4)]] unfolding table_ok_def by auto
  moreover have "k = jobID \<or> (map_of jobs k = Some j \<and> now < expires j)" if get: "map_of ?jobs k = Some j" for k j
  proof (cases "k = jobID")
    case False
    then have "(k, j) \<in> set jobs2" using get by (simp add: AList.update_conv map_of_SomeD)
    then have "(k, j) \<in> set jobs1" using mk(5) by blast
    then show ?thesis using p dist by auto
  qed simp
  moreover have "map_of ?jobs k = Some j"
    if room: "int (length jobs) < m" and get: "map_of jobs k = Some j" "now < expires j" "k \<noteq> jobID" for k j
  proof -
    have "length jobs1 \<le> length jobs" using p by simp
    then have "jobs2 = jobs1" using mk(6) room by simp
    moreover have "(k, j) \<in> set jobs1" using p get map_of_SomeD [OF get(1)] by simp
    ultimately show ?thesis using get(3) ok1(1) by (simp add: AList.update_conv)
  qed
  moreover have "map_of ?jobs jobID = Some job" by (simp add: AList.update_conv)
  ultimately show ?thesis
    using that [of "order2 @ [jobID]" ?jobs] pr mk(1) by (simp add: add_job_def)
qed

end
