(* ===== verification/Hex.thy ===== *)
theory Hex
  imports Keys "HOL-Library.List_Lexorder" "HOL-Library.Product_Lexorder"
begin

text \<open>
  Hexadecimal text as \<^verbatim>\<open>encoding/hex\<close> and \<^verbatim>\<open>fmt\<close> produce and accept it, and the canonical spellings
  the pool protocol requires (\<^verbatim>\<open>pool/pplns.go\<close>, \<^verbatim>\<open>pool/pplns_work.go\<close>). A string is the list of its bytes.
\<close>

section \<open>Hexadecimal\<close>

definition hex_digits :: string where
  "hex_digits = ''0123456789abcdef''"

definition hex_char :: "nat \<Rightarrow> char" where
  "hex_char n = hex_digits ! n"

definition hex_EncodeToString :: "byte list \<Rightarrow> string" where
  "hex_EncodeToString bs = concat (map (\<lambda>b. [hex_char (unat b div 16), hex_char (unat b mod 16)]) bs)"

text \<open>The value of a hexadecimal digit of either case.\<close>

definition from_hex :: "char \<Rightarrow> nat option" where
  "from_hex c =
     (let n = of_char c :: nat in
      if 48 \<le> n \<and> n \<le> 57 then Some (n - 48)
      else if 97 \<le> n \<and> n \<le> 102 then Some (n - 87)
      else if 65 \<le> n \<and> n \<le> 70 then Some (n - 55)
      else None)"

fun hex_DecodeString :: "string \<Rightarrow> byte list res" where
  "hex_DecodeString [] = Inr []"
| "hex_DecodeString [c] = Inl (Err ''encoding/hex: odd length hex string'')"
| "hex_DecodeString (c # d # rest) =
     (case (from_hex c, from_hex d) of
        (Some a, Some b) \<Rightarrow> bindE (hex_DecodeString rest) (\<lambda>bs. Inr (of_nat (16 * a + b) # bs))
      | _ \<Rightarrow> Inl (Err ''encoding/hex: invalid byte''))"

text \<open>\<open>%0wx\<close> of a nonnegative integer: at least \<open>w\<close> lower-case digits.\<close>

fun hex_nat :: "nat \<Rightarrow> string" where
  "hex_nat n = (if n < 16 then [hex_char n] else hex_nat (n div 16) @ [hex_char (n mod 16)])"

declare hex_nat.simps [simp del]

definition format_hex :: "nat \<Rightarrow> int \<Rightarrow> string" where
  "format_hex w v = (let s = hex_nat (nat v) in replicate (w - length s) (CHR ''0'') @ s)"

text \<open>Decoding, with the check that the text is the canonical spelling of \<open>len\<close> bytes.\<close>

definition canonical_hex :: "nat \<Rightarrow> string \<Rightarrow> byte list option" where
  "canonical_hex len value =
     (case hex_DecodeString value of Inl _ \<Rightarrow> None
      | Inr raw \<Rightarrow> if length raw = len \<and> hex_EncodeToString raw = value then Some raw else None)"

definition validLowerHex :: "string \<Rightarrow> nat \<Rightarrow> bool" where
  "validLowerHex value len \<longleftrightarrow>
     length value = len \<and>
     (\<forall>c\<in>set value. let n = of_char c :: nat in \<not> ((n < 48 \<or> n > 57) \<and> (n < 97 \<or> n > 102)))"

definition parseCanonicalTarget :: "string \<Rightarrow> int res" where
  "parseCanonicalTarget value =
     (case canonical_hex 32 value of None \<Rightarrow> Inl (Err ''target is not canonical hex'')
      | Some raw \<Rightarrow>
          let target = int (be_nat raw) in
          failIf (target \<le> 0) (Err ''target must be positive'') (Inr target))"

definition parseCanonicalWork :: "string \<Rightarrow> int res" where
  "parseCanonicalWork value =
     (case canonical_hex 34 value of None \<Rightarrow> Inl (Err ''work is not canonical hex'')
      | Some raw \<Rightarrow>
          let work = int (be_nat raw) in
          failIf (work \<le> 0 \<or> bit_len (nat work) > 268) (Err ''work must be positive'') (Inr work))"

section \<open>Encoding and decoding\<close>

lemma from_hex_char: "n < 16 \<Longrightarrow> from_hex (hex_char n) = Some n"
proof -
  have "\<forall>n\<in>{..<16}. from_hex (hex_char n) = Some n" by (simp add: from_hex_def hex_char_def hex_digits_def lessThan_nat_numeral lessThan_Suc)
  then show "n < 16 \<Longrightarrow> from_hex (hex_char n) = Some n" by simp
qed

lemma unat_byte_lt: "unat (b :: byte) < 256"
proof -
  have "unat b < 2 ^ LENGTH(8)" by (rule unsigned_less)
  then show ?thesis by simp
qed

lemma hex_Decode_Encode [simp]: "hex_DecodeString (hex_EncodeToString bs) = Inr bs"
proof (induction bs)
  case Nil
  then show ?case by (simp add: hex_EncodeToString_def)
next
  case (Cons b bs)
  have "unat b div 16 < 16" using unat_byte_lt [of b] by simp
  then have "from_hex (hex_char (unat b div 16)) = Some (unat b div 16)" "from_hex (hex_char (unat b mod 16)) = Some (unat b mod 16)"
    using from_hex_char by simp_all
  then show ?case using Cons by (simp add: hex_EncodeToString_def)
qed

lemma length_hex_Encode [simp]: "length (hex_EncodeToString bs) = 2 * length bs"
  by (induction bs) (simp_all add: hex_EncodeToString_def)

lemma canonical_hex_iff: "canonical_hex len value = Some raw \<longleftrightarrow> length raw = len \<and> value = hex_EncodeToString raw"
  by (auto simp: canonical_hex_def split: sum.splits)

lemma hex_char_lower: "n < 16 \<Longrightarrow> c = hex_char n \<Longrightarrow> \<not> ((of_char c < (48 :: nat) \<or> of_char c > (57 :: nat)) \<and> (of_char c < (97 :: nat) \<or> of_char c > (102 :: nat)))"
proof -
  have "\<forall>n\<in>{..<16}. \<not> ((of_char (hex_char n) < (48 :: nat) \<or> of_char (hex_char n) > (57 :: nat)) \<and>
      (of_char (hex_char n) < (97 :: nat) \<or> of_char (hex_char n) > (102 :: nat)))"
    by (simp add: hex_char_def hex_digits_def lessThan_nat_numeral lessThan_Suc)
  then show "n < 16 \<Longrightarrow> c = hex_char n \<Longrightarrow> ?thesis" by auto
qed

lemma validLowerHex_Encode [simp]: "validLowerHex (hex_EncodeToString bs) n \<longleftrightarrow> n = 2 * length bs"
proof -
  have "\<forall>c\<in>set (hex_EncodeToString bs). \<exists>n<16. c = hex_char n"
  proof
    fix c
    assume "c \<in> set (hex_EncodeToString bs)"
    then obtain b :: byte where "c = hex_char (unat b div 16) \<or> c = hex_char (unat b mod 16)"
      by (auto simp: hex_EncodeToString_def)
    moreover have "unat b div 16 < 16" "unat b mod 16 < 16" using unat_byte_lt [of b] by simp_all
    ultimately show "\<exists>n<16. c = hex_char n" by blast
  qed
  then show ?thesis using hex_char_lower by (fastforce simp: validLowerHex_def Let_def)
qed

lemma parseCanonicalTarget_range: "parseCanonicalTarget v = Inr t \<Longrightarrow> 0 < t \<and> t < 2 ^ 256"
proof -
  assume "parseCanonicalTarget v = Inr t"
  then obtain raw where raw: "length raw = 32" "t = int (be_nat raw)" "0 < t"
    by (auto simp: parseCanonicalTarget_def canonical_hex_iff Let_def failIf_Inr_iff split: option.splits)
  have "be_nat raw < 256 ^ length raw" by (rule be_nat_bound)
  then have "int (be_nat raw) < 2 ^ 256" unfolding raw(1) by simp
  then show ?thesis using raw by simp
qed

lemma parseCanonicalTarget_Encode:
  "length raw = 32 \<Longrightarrow> 0 < be_nat raw \<Longrightarrow> parseCanonicalTarget (hex_EncodeToString raw) = Inr (int (be_nat raw))"
  by (simp add: parseCanonicalTarget_def canonical_hex_def Let_def failIf_def)

end
