(* ===== verification/Pplns.thy ===== *)
theory Pplns
  imports Hex
begin

text \<open>
  \<^verbatim>\<open>pool/pplns.go\<close>: the rolling window of accepted shares and the exact-sum payout of a block
  reward over it. Addresses are lists of code points as in theory \<open>Keys\<close> and compare as Go strings
  do; the other strings are byte strings. An instant is an integer, zero the zero \<^verbatim>\<open>Time\<close>; a Go map
  that is only iterated and looked up is an association list in some iteration order. The JSON
  coding of the standard library and the outcome of the file operations are parameters.
\<close>

section \<open>State\<close>

definition pplnsStateSchemaVersion :: int where "pplnsStateSchemaVersion = 2"
definition defaultPPLNSWindowShares :: int where "defaultPPLNSWindowShares = 256"
definition defaultPPLNSMaxAddresses :: int where "defaultPPLNSMaxAddresses = 64"
definition maxPPLNSStateBytes :: nat where "maxPPLNSStateBytes = 256 * 1024"

definition ErrPPLNSAddressLimit :: error where "ErrPPLNSAddressLimit = Err ''PPLNS payout-address limit reached''"
definition ErrPPLNSDuplicateShare :: error where "ErrPPLNSDuplicateShare = Err ''PPLNS share was already accepted''"
definition ErrPPLNSClosed :: error where "ErrPPLNSClosed = Err ''PPLNS window is closed''"

type_synonym address = "rune list"
type_synonym instant = int

record PPLNSShare =
  sh_Sequence :: uint64
  sh_Address :: address
  sh_JobID :: string
  sh_Nonce :: uint64
  sh_ShareHash :: string
  sh_ShareTarget :: string
  sh_TipHash :: string
  sh_TipHeight :: int
  sh_AcceptedAt :: instant

record PPLNSSnapshot =
  ps_SchemaVersion :: int
  ps_Network :: string
  ps_WindowShares :: int
  ps_MaxAddresses :: int
  ps_NextSequence :: uint64
  ps_Shares :: "PPLNSShare list"

text \<open>The lock file is held while \<open>pw_lock\<close> is set; \<open>pw_file\<close> is the content of the state file.\<close>

record PPLNSWindow =
  pw_state :: PPLNSSnapshot
  pw_lock :: bool
  pw_closed :: bool
  pw_file :: "byte list option"

section \<open>Validation\<close>

definition payout_pkh :: "crypto \<Rightarrow> address \<Rightarrow> PKH option" where
  "payout_pkh K a =
     (case DecodeAddress K a of Inl _ \<Rightarrow> None
      | Inr pkh \<Rightarrow> if pkh = 0 \<or> EncodeAddress K pkh \<noteq> a then None else Some pkh)"

definition validatePPLNSShare :: "crypto \<Rightarrow> PPLNSShare \<Rightarrow> bool \<Rightarrow> unit res" where
  "validatePPLNSShare K share stored =
     failIf (stored \<and> sh_Sequence share = 0) (Err ''stored share sequence is missing'')
     (failIf (\<not> stored \<and> sh_Sequence share \<noteq> 0) (Err ''new share must not choose its sequence'')
     (failIf (payout_pkh K (sh_Address share) = None) (Err ''share payout address is invalid'')
     (failIf (\<not> validLowerHex (sh_JobID share) 32 \<or> \<not> validLowerHex (sh_ShareHash share) 64 \<or>
              \<not> validLowerHex (sh_TipHash share) 64) (Err ''share proof identity is invalid'')
     (case parseCanonicalTarget (sh_ShareTarget share) of Inl _ \<Rightarrow> Inl (Err ''share target is invalid'')
      | Inr _ \<Rightarrow>
          failIf (sh_TipHeight share < 0 \<or> sh_AcceptedAt share = 0) (Err ''share height or acceptance time is invalid'')
          (Inr ())))))"

fun decimal :: "nat \<Rightarrow> string" where
  "decimal n = (if n < 10 then [''0123456789'' ! n] else decimal (n div 10) @ [''0123456789'' ! (n mod 10)])"

declare decimal.simps [simp del]

definition pplnsShareKey :: "PPLNSShare \<Rightarrow> string" where
  "pplnsShareKey share = sh_JobID share @ '':'' @ decimal (unat (sh_Nonce share))"

definition network_maximum :: "string \<Rightarrow> int" where
  "network_maximum network = (if network = MainNetMachineID then MaxTarget canonicalMainNetParams else MaxTarget canonicalRegTestParams)"

type_synonym share_scan = "address set \<times> string set \<times> uint64 \<times> nat"

definition validate_share :: "crypto \<Rightarrow> string \<Rightarrow> share_scan \<Rightarrow> PPLNSShare \<Rightarrow> share_scan res" where
  "validate_share K network st share =
     (case st of (addresses, seen, previous, index) \<Rightarrow>
      case validatePPLNSShare K share True of Inl e \<Rightarrow> Inl (Wrapped ''invalid PPLNS share'' e)
      | Inr _ \<Rightarrow>
          bindE (parseCanonicalTarget (sh_ShareTarget share)) (\<lambda>target.
          failIf (target > network_maximum network) (Err ''PPLNS share target exceeds network maximum'')
          (failIf (index > 0 \<and> sh_Sequence share \<noteq> previous + 1) (Err ''PPLNS share sequence is not contiguous'')
          (failIf (pplnsShareKey share \<in> seen) ErrPPLNSDuplicateShare
          (Inr (insert (sh_Address share) addresses, insert (pplnsShareKey share) seen, sh_Sequence share, Suc index))))))"

definition validatePPLNSState :: "crypto \<Rightarrow> PPLNSSnapshot \<Rightarrow> string \<Rightarrow> int \<Rightarrow> int \<Rightarrow> unit res" where
  "validatePPLNSState K state network windowShares maxAddresses =
     failIf (ps_SchemaVersion state \<noteq> pplnsStateSchemaVersion \<or> ps_Network state \<noteq> network \<or>
         ps_WindowShares state \<noteq> windowShares \<or> ps_MaxAddresses state \<noteq> maxAddresses \<or> ps_NextSequence state < 1)
       (Err ''PPLNS state identity or bounds do not match configuration'')
     (failIf (int (length (ps_Shares state)) > windowShares) (Err ''PPLNS state exceeds its share window'')
     (bindE (foldE (validate_share K network) ({}, {}, 0, 0) (ps_Shares state)) (\<lambda>(addresses, _, previous, _).
      failIf (ps_Shares state = [] \<and> ps_NextSequence state \<noteq> 1) (Err ''empty PPLNS state has an invalid sequence'')
      (failIf (ps_Shares state \<noteq> [] \<and> (previous = - 1 \<or> ps_NextSequence state \<noteq> previous + 1))
        (Err ''PPLNS next sequence does not follow the window'')
      (failIf (int (card addresses) > maxAddresses) ErrPPLNSAddressLimit
      (Inr ()))))))"

section \<open>Opening, accepting, closing\<close>

record PPLNSConfig =
  pc_WindowShares :: int
  pc_MaxAddresses :: int

text \<open>The outcomes of the file operations: the canonical path, the lock, the checks of the opened file
  and the write; \<open>io_marshal\<close> and \<open>io_unmarshal\<close> are the standard library's JSON coding of a
  snapshot, the latter with the duplicate-key and trailing-data checks.\<close>

record PPLNSIO =
  io_path :: "error option"
  io_lock :: "error option"
  io_hardlink :: "error option"
  io_open :: "error option"
  io_regular :: bool
  io_mode :: bool
  io_write :: "error option"
  io_release :: "error option"
  io_marshal :: "PPLNSSnapshot \<Rightarrow> byte list res"
  io_unmarshal :: "byte list \<Rightarrow> PPLNSSnapshot res"

definition loadPPLNSState :: "crypto \<Rightarrow> PPLNSIO \<Rightarrow> byte list option \<Rightarrow> string \<Rightarrow> int \<Rightarrow> int \<Rightarrow> PPLNSSnapshot res" where
  "loadPPLNSState K io file network windowShares maxAddresses =
     (case io_hardlink io of Some e \<Rightarrow> Inl e
      | None \<Rightarrow>
     (case file of
        None \<Rightarrow> Inr \<lparr>ps_SchemaVersion = pplnsStateSchemaVersion, ps_Network = network, ps_WindowShares = windowShares,
                  ps_MaxAddresses = maxAddresses, ps_NextSequence = 1, ps_Shares = []\<rparr>
      | Some encoded \<Rightarrow>
     (case io_open io of Some e \<Rightarrow> Inl e
      | None \<Rightarrow>
          failIf (\<not> io_regular io \<or> length encoded = 0 \<or> length encoded > maxPPLNSStateBytes)
            (Err ''PPLNS state size or type is invalid'')
          (failIf (\<not> io_mode io) (Err ''PPLNS state must use mode 0600'')
          (bindE (io_unmarshal io encoded) (\<lambda>state.
           bindE (validatePPLNSState K state network windowShares maxAddresses) (\<lambda>_. Inr state)))))))"

definition NewPPLNSWindow :: "crypto \<Rightarrow> PPLNSIO \<Rightarrow> byte list option \<Rightarrow> string \<Rightarrow> PPLNSConfig \<Rightarrow> PPLNSWindow res" where
  "NewPPLNSWindow K io file network config =
     failIf (network \<noteq> MainNetMachineID \<and> network \<noteq> RegTestMachineID) (Err ''unsupported PPLNS network'')
     (let windowShares = (if pc_WindowShares config = 0 then defaultPPLNSWindowShares else pc_WindowShares config);
          maxAddresses = (if pc_MaxAddresses config = 0 then defaultPPLNSMaxAddresses else pc_MaxAddresses config)
      in failIf (windowShares < 1 \<or> windowShares > 4096) (Err ''PPLNS window must contain between 1 and 4096 shares'')
         (failIf (maxAddresses < 1 \<or> maxAddresses > 256 \<or> maxAddresses > windowShares)
           (Err ''PPLNS address limit must fit inside the share window'')
         (case io_path io of Some e \<Rightarrow> Inl e
          | None \<Rightarrow>
         (case io_lock io of Some e \<Rightarrow> Inl (Wrapped ''lock PPLNS state'' e)
          | None \<Rightarrow>
              bindE (loadPPLNSState K io file network windowShares maxAddresses) (\<lambda>state.
              Inr \<lparr>pw_state = state, pw_lock = True, pw_closed = False, pw_file = file\<rparr>)))))"

definition trim_window :: "int \<Rightarrow> PPLNSShare list \<Rightarrow> PPLNSShare list" where
  "trim_window w shares = (if int (length shares) > w then drop (length shares - nat w) shares else shares)"

definition Accept :: "crypto \<Rightarrow> PPLNSIO \<Rightarrow> PPLNSWindow \<Rightarrow> PPLNSShare \<Rightarrow> PPLNSWindow \<times> PPLNSShare res" where
  "Accept K io w share =
     (let decision =
        bindE (validatePPLNSShare K share False) (\<lambda>_.
        failIf (pw_closed w) ErrPPLNSClosed
        (failIf (pplnsShareKey share \<in> pplnsShareKey ` set (ps_Shares (pw_state w))) ErrPPLNSDuplicateShare
        (failIf (ps_NextSequence (pw_state w) = - 1) (Err ''PPLNS sequence exhausted'')
        (let share' = share\<lparr>sh_Sequence := ps_NextSequence (pw_state w)\<rparr>;
             candidate = (pw_state w)\<lparr>ps_NextSequence := ps_NextSequence (pw_state w) + 1,
               ps_Shares := trim_window (ps_WindowShares (pw_state w)) (ps_Shares (pw_state w) @ [share'])\<rparr>
         in bindE (validatePPLNSState K candidate (ps_Network candidate) (ps_WindowShares candidate) (ps_MaxAddresses candidate)) (\<lambda>_.
            bindE (io_marshal io candidate) (\<lambda>text.
            let encoded = text @ [10] in
            failIf (length encoded > maxPPLNSStateBytes) (Err ''PPLNS state exceeds size bound'')
            (case io_hardlink io of Some e \<Rightarrow> Inl e
             | None \<Rightarrow>
                (case io_write io of Some e \<Rightarrow> Inl (Wrapped ''persist PPLNS share'' e)
                 | None \<Rightarrow> Inr (share', candidate, encoded)))))))))
      in case decision of
           Inl e \<Rightarrow> (w, Inl e)
         | Inr (share', candidate, encoded) \<Rightarrow> (w\<lparr>pw_state := candidate, pw_file := Some encoded\<rparr>, Inr share'))"

definition CloseWindow :: "PPLNSIO \<Rightarrow> PPLNSWindow \<Rightarrow> PPLNSWindow \<times> unit res" where
  "CloseWindow io w =
     (if pw_closed w then (w, Inr ())
      else (w\<lparr>pw_closed := True, pw_lock := False\<rparr>,
            if pw_lock w then (case io_release io of Some e \<Rightarrow> Inl e | None \<Rightarrow> Inr ()) else Inr ()))"

section \<open>Payouts\<close>

type_synonym weights = "(address \<times> int) list"

definition check_weight :: "crypto \<Rightarrow> int \<Rightarrow> address \<times> int \<Rightarrow> int res" where
  "check_weight K totalWork e =
     (case e of (address, work) \<Rightarrow>
      failIf (payout_pkh K address = None \<or> work \<le> 0 \<or> bit_len (nat work) > 268) (Err ''PPLNS payout weight is invalid'')
      (Inr (totalWork + work)))"

record allocation =
  al_address :: address
  al_pkh :: PKH
  al_value :: int
  al_remainder :: int

definition allocate :: "crypto \<Rightarrow> int \<Rightarrow> int \<Rightarrow> address \<times> int \<Rightarrow> allocation res" where
  "allocate K reward totalWork e =
     (case e of (address, work) \<Rightarrow>
      let quotient = reward * work div totalWork in
      failIf (\<not> is_int64 quotient) (Err ''PPLNS payout quotient is out of range'')
      (Inr \<lparr>al_address = address, al_pkh = (case DecodeAddress K address of Inl _ \<Rightarrow> 0 | Inr pkh \<Rightarrow> pkh),
            al_value = quotient, al_remainder = reward * work mod totalWork\<rparr>))"

definition payout_output :: "int \<Rightarrow> int \<times> TxOut list \<Rightarrow> allocation \<Rightarrow> (int \<times> TxOut list) res" where
  "payout_output reward st a =
     (case st of (paid, outputs) \<Rightarrow>
      failIf (al_value a \<le> 0 \<or> paid > wrap64 (reward - al_value a)) (Err ''PPLNS payout invariant failed'')
      (Inr (wrap64 (paid + al_value a), outputs @ [\<lparr>out_Value = al_value a, out_PubKeyHash = al_pkh a\<rparr>])))"

definition bump :: "allocation \<Rightarrow> allocation" where
  "bump a = a\<lparr>al_value := wrap64 (al_value a + 1)\<rparr>"

definition pplnsOutputsFromWork :: "crypto \<Rightarrow> weights \<Rightarrow> int \<Rightarrow> TxOut list res" where
  "pplnsOutputsFromWork K weights reward =
     failIf (reward \<le> 0 \<or> \<not> MoneyRange reward \<or> weights = [] \<or> length weights > 256)
       (Err ''PPLNS payout weights or reward are invalid'')
     (failIf (reward < int (length weights)) (Err ''PPLNS reward cannot produce positive outputs'')
     (bindE (foldE (check_weight K) 0 weights) (\<lambda>totalWork.
      failIf (totalWork \<le> 0 \<or> bit_len (nat totalWork) > 268) (Err ''PPLNS total payout weight is invalid'')
      (bindE (mapE (allocate K reward totalWork) weights) (\<lambda>allocations.
       let allocated = foldl (\<lambda>s a. wrap64 (s + al_value a)) 0 allocations;
           leftover = wrap64 (reward - allocated);
           ranked = sort_key (\<lambda>a. (- al_remainder a, al_address a)) allocations
       in failIf (leftover < 0 \<or> leftover > int (length allocations)) (Err ''PPLNS rounding invariant failed'')
          (let bumped = map bump (take (nat leftover) ranked) @ drop (nat leftover) ranked in
           bindE (foldE (payout_output reward) (0, []) (sort_key al_address bumped)) (\<lambda>(paid, outputs).
           failIf (paid \<noteq> reward) (Err ''PPLNS payouts do not exhaust reward'') (Inr outputs))))))))"

fun add_weight :: "address \<Rightarrow> int \<Rightarrow> weights \<Rightarrow> weights" where
  "add_weight a work [] = [(a, work)]"
| "add_weight a work ((b, v) # rest) = (if b = a then (b, v + work) # rest else (b, v) # add_weight a work rest)"

definition share_work :: "PPLNSShare \<Rightarrow> int" where
  "share_work share = (case parseCanonicalTarget (sh_ShareTarget share) of Inl _ \<Rightarrow> 0 | Inr target \<Rightarrow> WorkFromTarget target)"

definition work_by_address :: "PPLNSShare list \<Rightarrow> weights" where
  "work_by_address shares = fold (\<lambda>share. add_weight (sh_Address share) (share_work share)) shares []"

definition pplnsPayouts :: "crypto \<Rightarrow> PPLNSSnapshot \<Rightarrow> int \<Rightarrow> TxOut list res" where
  "pplnsPayouts K state reward =
     failIf (reward \<le> 0 \<or> \<not> MoneyRange reward) (Err ''PPLNS reward is out of range'')
     (failIf (ps_Shares state = []) (Err ''PPLNS window has no shares'')
     (failIf (ps_Network state \<noteq> MainNetMachineID \<and> ps_Network state \<noteq> RegTestMachineID) (Err ''PPLNS snapshot network is invalid'')
     (case validatePPLNSState K state (ps_Network state) (ps_WindowShares state) (ps_MaxAddresses state) of
        Inl e \<Rightarrow> Inl (Wrapped ''invalid PPLNS snapshot'' e)
      | Inr _ \<Rightarrow> pplnsOutputsFromWork K (work_by_address (ps_Shares state)) reward)))"

definition Payouts :: "crypto \<Rightarrow> PPLNSWindow \<Rightarrow> int \<Rightarrow> TxOut list res" where
  "Payouts K w reward =
     failIf (reward \<le> 0 \<or> \<not> MoneyRange reward) (Err ''PPLNS reward is out of range'')
     (failIf (pw_closed w) ErrPPLNSClosed (pplnsPayouts K (pw_state w) reward))"

definition check_count :: "address \<times> int \<Rightarrow> (address \<times> int) res" where
  "check_count e = failIf (snd e \<le> 0 \<or> snd e > 4096) (Err ''PPLNS payout weight is invalid'') (Inr e)"

definition pplnsOutputsFromCounts :: "crypto \<Rightarrow> weights \<Rightarrow> int \<Rightarrow> TxOut list res" where
  "pplnsOutputsFromCounts K counts reward = bindE (mapE check_count counts) (\<lambda>weights. pplnsOutputsFromWork K weights reward)"

end
