(* ===== verification/PplnsTheorems.thy ===== *)
theory PplnsTheorems
  imports Pplns "HOL-Library.Multiset"
begin

text \<open>
  The payout of a reward is the largest-remainder apportionment: it exhausts the reward, pays every
  address its exact proportion rounded down or up by less than one unit, and does not depend on the
  iteration order of the weights.
\<close>

section \<open>Loops\<close>

lemma mapE_fails: "x \<in> set xs \<Longrightarrow> f x = Inl e \<Longrightarrow> (\<And>y e'. y \<in> set xs \<Longrightarrow> f y = Inl e' \<Longrightarrow> e' = e) \<Longrightarrow> mapE f xs = Inl e"
proof (induction xs)
  case Nil
  then show ?case by simp
next
  case (Cons y ys)
  show ?case
  proof (cases "f y")
    case (Inl e')
    then show ?thesis using Cons.prems(3) [of y e'] by simp
  next
    case (Inr z)
    then have "x \<in> set ys" using Cons.prems(1,2) by auto
    then have "mapE f ys = Inl e" using Cons.prems(2,3) \<open>x \<in> set ys\<close> by (intro Cons.IH) (simp_all, metis list.set_intros(2))
    then show ?thesis using Inr by simp
  qed
qed

definition ok_weight :: "crypto \<Rightarrow> address \<times> int \<Rightarrow> bool" where
  "ok_weight K e \<longleftrightarrow> payout_pkh K (fst e) \<noteq> None \<and> 0 < snd e \<and> bit_len (nat (snd e)) \<le> 268"

lemma check_weights:
  "foldE (check_weight K) s ws =
     (if \<forall>e\<in>set ws. ok_weight K e then Inr (s + sum_list (map snd ws)) else Inl (Err ''PPLNS payout weight is invalid''))"
proof (induction ws arbitrary: s)
  case Nil
  then show ?case by simp
next
  case (Cons e ws)
  have "check_weight K s e = (if ok_weight K e then Inr (s + snd e) else Inl (Err ''PPLNS payout weight is invalid''))"
    by (cases e) (auto simp: check_weight_def ok_weight_def failIf_def)
  then show ?case by (simp add: Cons add.assoc)
qed

section \<open>Apportionment\<close>

definition alloc :: "crypto \<Rightarrow> int \<Rightarrow> int \<Rightarrow> address \<times> int \<Rightarrow> allocation" where
  "alloc K reward totalWork e =
     \<lparr>al_address = fst e, al_pkh = (case DecodeAddress K (fst e) of Inl _ \<Rightarrow> 0 | Inr pkh \<Rightarrow> pkh),
      al_value = reward * snd e div totalWork, al_remainder = reward * snd e mod totalWork\<rparr>"

definition leftover_of :: "int \<Rightarrow> weights \<Rightarrow> int" where
  "leftover_of reward ws = reward - (\<Sum>e\<leftarrow>ws. reward * snd e div sum_list (map snd ws))"

lemma sum_parts:
  assumes "0 < (t :: int)"
  shows "reward * sum_list (map snd ws) = t * (\<Sum>e\<leftarrow>ws. reward * snd e div t) + (\<Sum>e\<leftarrow>ws. reward * snd e mod t)"
proof (induction ws)
  case Nil
  then show ?case by simp
next
  case (Cons e ws)
  then show ?case using mult_div_mod_eq [of t "reward * snd e"] by (simp add: distrib_left)
qed

lemma sum_mods:
  assumes "0 < (t :: int)"
  shows "0 \<le> (\<Sum>e\<leftarrow>ws. reward * snd e mod t) \<and> (ws \<noteq> [] \<longrightarrow> (\<Sum>e\<leftarrow>ws. reward * snd e mod t) < t * int (length ws))"
proof (induction ws)
  case Nil
  then show ?case by simp
next
  case (Cons e ws)
  have "0 \<le> reward * snd e mod t" "reward * snd e mod t < t" using assms by simp_all
  then show ?case using Cons by (cases "ws = []") (auto simp: distrib_left)
qed

lemma leftover_bounds:
  assumes "0 < sum_list (map snd ws)" and "ws \<noteq> []"
  shows "0 \<le> leftover_of reward ws \<and> leftover_of reward ws < int (length ws)"
proof -
  let ?t = "sum_list (map snd ws)"
  have "?t * leftover_of reward ws = (\<Sum>e\<leftarrow>ws. reward * snd e mod ?t)"
    using sum_parts [OF assms(1), of reward ws] unfolding leftover_of_def right_diff_distrib by (simp add: mult.commute)
  then have "0 \<le> ?t * leftover_of reward ws" "?t * leftover_of reward ws < ?t * int (length ws)"
    using sum_mods [OF assms(1), of reward ws] assms(2) by simp_all
  then show ?thesis using assms(1) by (simp add: zero_le_mult_iff)
qed

lemma share_bounds:
  assumes "0 < (t :: int)" and "0 \<le> w" and "w \<le> t" and "0 \<le> reward"
  shows "0 \<le> reward * w div t \<and> reward * w div t \<le> reward"
proof -
  have "reward * w \<le> reward * t" using assms by (intro mult_left_mono)
  then have "reward * w div t \<le> reward * t div t" using assms(1) by (rule zdiv_mono1)
  then show ?thesis using assms by (simp add: pos_imp_zdiv_nonneg_iff)
qed

lemma weight_le_total: "\<forall>e\<in>set (ws :: weights). 0 < snd e \<Longrightarrow> e \<in> set ws \<Longrightarrow> snd e \<le> sum_list (map snd ws)"
proof -
  assume pos: "\<forall>e\<in>set ws. 0 < snd e" and e: "e \<in> set ws"
  have "\<And>x. x \<in> set (map snd ws) \<Longrightarrow> 0 \<le> x" using pos by (auto dest!: bspec [where P = "\<lambda>e. 0 < snd e"] intro: less_imp_le)
  then show ?thesis using e by (intro member_le_sum_list) auto
qed

lemma foldl_wrap:
  assumes "\<forall>a\<in>set as. 0 \<le> al_value a" and "0 \<le> s" and "s + sum_list (map al_value as) \<le> MaxMoneyUnits"
  shows "foldl (\<lambda>s a. wrap64 (s + al_value a)) s as = s + sum_list (map al_value as)"
  using assms
proof (induction as arbitrary: s)
  case Nil
  then show ?case by simp
next
  case (Cons a as)
  have "0 \<le> sum_list (map al_value as)" using Cons.prems(1) by (intro sum_list_nonneg) auto
  then have "wrap64 (s + al_value a) = s + al_value a"
    using Cons.prems by (intro wrap64_id) (auto simp: is_int64_def MaxMoneyUnits_eq)
  then show ?case using Cons by (simp add: add.assoc)
qed

definition to_output :: "allocation \<Rightarrow> TxOut" where
  "to_output a = \<lparr>out_Value = al_value a, out_PubKeyHash = al_pkh a\<rparr>"

lemma payout_outputs:
  assumes "0 \<le> paid" and "paid + sum_list (map al_value as) = reward" and "reward \<le> MaxMoneyUnits"
    and "\<forall>a\<in>set as. 0 \<le> al_value a"
  shows "foldE (payout_output reward) (paid, outs) as =
    (if \<forall>a\<in>set as. 0 < al_value a then Inr (reward, outs @ map to_output as) else Inl (Err ''PPLNS payout invariant failed''))"
  using assms
proof (induction as arbitrary: paid outs)
  case Nil
  then show ?case by simp
next
  case (Cons a as)
  have rest: "0 \<le> sum_list (map al_value as)" using Cons.prems(4) by (intro sum_list_nonneg) auto
  then have "wrap64 (reward - al_value a) = reward - al_value a" "wrap64 (paid + al_value a) = paid + al_value a"
    using Cons.prems by (auto intro!: wrap64_id simp: is_int64_def MaxMoneyUnits_eq)
  then show ?case
    using Cons.prems Cons.IH [of "paid + al_value a" "outs @ [to_output a]"] rest
    by (auto simp: payout_output_def to_output_def failIf_def)
qed

text \<open>The ranked list with the leftover units, in address order.\<close>

definition settled :: "crypto \<Rightarrow> int \<Rightarrow> weights \<Rightarrow> allocation list" where
  "settled K reward ws =
     (let ranked = sort_key (\<lambda>a. (- al_remainder a, al_address a)) (map (alloc K reward (sum_list (map snd ws))) ws);
          n = nat (leftover_of reward ws)
      in sort_key al_address (map (\<lambda>a. a\<lparr>al_value := al_value a + 1\<rparr>) (take n ranked) @ drop n ranked))"

definition valid_weights :: "crypto \<Rightarrow> weights \<Rightarrow> int \<Rightarrow> bool" where
  "valid_weights K ws reward \<longleftrightarrow>
     0 < reward \<and> MoneyRange reward \<and> ws \<noteq> [] \<and> length ws \<le> 256 \<and> int (length ws) \<le> reward \<and>
     (\<forall>e\<in>set ws. ok_weight K e) \<and> bit_len (nat (sum_list (map snd ws))) \<le> 268"

lemma bump_values:
  assumes "\<forall>a\<in>set as. 0 \<le> al_value a \<and> al_value a \<le> MaxMoneyUnits"
  shows "map bump (take n as) @ drop n as = map (\<lambda>a. a\<lparr>al_value := al_value a + 1\<rparr>) (take n as) @ drop n as"
proof -
  have "bump a = a\<lparr>al_value := al_value a + 1\<rparr>" if "a \<in> set (take n as)" for a
  proof -
    have "wrap64 (al_value a + 1) = al_value a + 1"
      using assms in_set_takeD [OF that] by (intro wrap64_id) (auto simp: is_int64_def MaxMoneyUnits_eq)
    then show ?thesis by (simp add: bump_def)
  qed
  then show ?thesis by simp
qed

lemma sum_bumped:
  "n \<le> length (as :: allocation list) \<Longrightarrow> sum_list (map al_value (map (\<lambda>a. a\<lparr>al_value := al_value a + 1\<rparr>) (take n as) @ drop n as)) =
     sum_list (map al_value as) + int n"
proof -
  assume n: "n \<le> length as"
  have "sum_list (map al_value (map (\<lambda>a. a\<lparr>al_value := al_value a + 1\<rparr>) xs)) = sum_list (map al_value xs) + int (length xs)" for xs :: "allocation list"
    by (induction xs) simp_all
  moreover have "sum_list (map al_value as) = sum_list (map al_value (take n as)) + sum_list (map al_value (drop n as))"
    by (metis append_take_drop_id map_append sum_list_append)
  ultimately show ?thesis using n by simp
qed

lemma sum_list_mset: "mset xs = mset ys \<Longrightarrow> sum_list (map f xs) = sum_list (map (f :: 'a \<Rightarrow> int) ys)"
  by (metis mset_map sum_mset_sum_list)

lemma alloc_values:
  assumes "valid_weights K ws reward" and "e \<in> set ws"
  shows "0 \<le> reward * snd e div sum_list (map snd ws) \<and> reward * snd e div sum_list (map snd ws) \<le> reward"
proof -
  have pos: "\<forall>e\<in>set ws. 0 < snd e" using assms(1) by (simp add: valid_weights_def ok_weight_def)
  then have le: "snd e \<le> sum_list (map snd ws)" using assms(2) by (rule weight_le_total)
  then show ?thesis using pos assms by (intro share_bounds) (auto simp: valid_weights_def dest: bspec)
qed

lemma total_pos: "valid_weights K ws reward \<Longrightarrow> 0 < sum_list (map snd ws)"
proof -
  assume v: "valid_weights K ws reward"
  then obtain e where e: "e \<in> set ws" by (cases ws) (auto simp: valid_weights_def)
  have pos: "\<forall>e\<in>set ws. 0 < snd e" using v by (simp add: valid_weights_def ok_weight_def)
  then show ?thesis using weight_le_total [OF pos e] e by fastforce
qed

lemma settled_sum:
  assumes v: "valid_weights K ws reward"
  shows "sum_list (map al_value (settled K reward ws)) = reward"
proof -
  define as where "as = map (alloc K reward (sum_list (map snd ws))) ws"
  define ranked where "ranked = sort_key (\<lambda>a. (- al_remainder a, al_address a)) as"
  define n where "n = nat (leftover_of reward ws)"
  define b where "b = map (\<lambda>a. a\<lparr>al_value := al_value a + 1\<rparr>) (take n ranked) @ drop n ranked"
  have settled: "settled K reward ws = sort_key al_address b"
    by (simp only: settled_def b_def n_def ranked_def as_def Let_def)
  have lo: "0 \<le> leftover_of reward ws" "leftover_of reward ws < int (length ws)"
    using leftover_bounds [OF total_pos [OF v]] v by (auto simp: valid_weights_def)
  have len: "length ranked = length ws" "mset ranked = mset as" by (simp_all add: as_def ranked_def)
  have "sum_list (map al_value as) = reward - leftover_of reward ws"
    by (simp add: leftover_of_def as_def alloc_def comp_def)
  then have "sum_list (map al_value b) = reward"
    unfolding b_def using sum_bumped [of n ranked] sum_list_mset [OF len(2), of al_value] lo len by (simp add: n_def)
  then show ?thesis unfolding settled using sum_list_mset [of "sort_key al_address b" b al_value] by simp
qed

lemma payouts_valid:
  assumes v: "valid_weights K ws reward"
  shows "pplnsOutputsFromWork K ws reward =
    (if \<forall>a\<in>set (settled K reward ws). 0 < al_value a then Inr (map to_output (settled K reward ws))
     else Inl (Err ''PPLNS payout invariant failed''))"
proof -
  define t where "t = sum_list (map snd ws)"
  define as where "as = map (alloc K reward t) ws"
  define ranked where "ranked = sort_key (\<lambda>a. (- al_remainder a, al_address a)) as"
  define n where "n = nat (leftover_of reward ws)"
  define b where "b = map (\<lambda>a. a\<lparr>al_value := al_value a + 1\<rparr>) (take n ranked) @ drop n ranked"
  have settled: "settled K reward ws = sort_key al_address b"
    by (simp only: settled_def b_def n_def ranked_def as_def t_def Let_def)
  have r: "0 < reward" "reward \<le> MaxMoneyUnits" using v by (auto simp: valid_weights_def MoneyRange_def)
  have vals: "\<forall>a\<in>set as. 0 \<le> al_value a \<and> al_value a \<le> MaxMoneyUnits"
    using alloc_values [OF v] r(2) by (fastforce simp: as_def alloc_def t_def)
  have lo: "0 \<le> leftover_of reward ws" "leftover_of reward ws < int (length ws)"
    using leftover_bounds [OF total_pos [OF v]] v by (auto simp: valid_weights_def)
  have len: "length as = length ws" "length ranked = length ws" "mset ranked = mset as" by (simp_all add: as_def ranked_def)
  have sum: "sum_list (map al_value as) = reward - leftover_of reward ws"
    by (simp add: leftover_of_def as_def t_def alloc_def comp_def)
  have allocated: "foldl (\<lambda>s a. wrap64 (s + al_value a)) 0 as = reward - leftover_of reward ws"
    using foldl_wrap [of as 0] vals sum r(2) lo(1) by simp
  have left: "wrap64 (reward - (reward - leftover_of reward ws)) = leftover_of reward ws"
    using lo v by (simp, intro wrap64_id) (auto simp: is_int64_def valid_weights_def)
  have alloc: "mapE (allocate K reward t) ws = Inr as"
    unfolding as_def
  proof (rule mapE_map)
    fix e
    assume e: "e \<in> set ws"
    have "is_int64 (reward * snd e div t)" using alloc_values [OF v e] r(2) by (auto simp: t_def is_int64_def MaxMoneyUnits_eq)
    then show "allocate K reward t e = Inr (alloc K reward t e)" by (cases e) (simp add: allocate_def alloc_def Let_def)
  qed
  have bumped: "map bump (take n ranked) @ drop n ranked = b"
    unfolding b_def using vals by (intro bump_values) (simp add: ranked_def)
  have nonneg: "\<forall>a\<in>set b. 0 \<le> al_value a"
  proof -
    have "\<forall>a\<in>set ranked. 0 \<le> al_value a" using vals by (simp add: ranked_def)
    then show ?thesis unfolding b_def by (auto dest!: in_set_takeD in_set_dropD)
  qed
  have out: "foldE (payout_output reward) (0, []) (sort_key al_address b) =
      (if \<forall>a\<in>set (settled K reward ws). 0 < al_value a then Inr (reward, map to_output (settled K reward ws))
       else Inl (Err ''PPLNS payout invariant failed''))"
    unfolding settled
    using payout_outputs [of 0 "sort_key al_address b" reward "[]"] settled_sum [OF v] settled nonneg r by simp
  have checks: "\<not> (reward \<le> 0 \<or> \<not> MoneyRange reward \<or> ws = [] \<or> 256 < length ws)" "\<not> reward < int (length ws)"
    "foldE (check_weight K) 0 ws = Inr t" "\<not> (t \<le> 0 \<or> 268 < bit_len (nat t))"
    "\<not> (leftover_of reward ws < 0 \<or> int (length as) < leftover_of reward ws)"
    using v total_pos [OF v] lo len by (auto simp: valid_weights_def check_weights t_def)
  show ?thesis
    unfolding pplnsOutputsFromWork_def Let_def
    by (simp only: checks not_False_eq_True failIf_simps bindE_simps alloc allocated left
        n_def [symmetric] ranked_def [symmetric] bumped out) (simp del: set_sort)
qed

lemma payouts_invalid:
  assumes "\<not> valid_weights K ws reward"
  shows "pplnsOutputsFromWork K ws reward = Inl
    (if reward \<le> 0 \<or> \<not> MoneyRange reward \<or> ws = [] \<or> length ws > 256 then Err ''PPLNS payout weights or reward are invalid''
     else if reward < int (length ws) then Err ''PPLNS reward cannot produce positive outputs''
     else if \<exists>e\<in>set ws. \<not> ok_weight K e then Err ''PPLNS payout weight is invalid''
     else Err ''PPLNS total payout weight is invalid'')"
  using assms
  by (cases "\<forall>e\<in>set ws. ok_weight K e")
    (auto simp: pplnsOutputsFromWork_def check_weights failIf_def valid_weights_def linorder_not_less linorder_not_le)

section \<open>What each address receives\<close>

lemma settled_members:
  assumes "a \<in> set (settled K reward ws)"
  obtains e d where "e \<in> set ws" and "d \<in> {0, 1}" and "al_address a = fst e"
    and "al_pkh a = al_pkh (alloc K reward (sum_list (map snd ws)) e)"
    and "al_value a = reward * snd e div sum_list (map snd ws) + d"
proof -
  define as where "as = map (alloc K reward (sum_list (map snd ws))) ws"
  define ranked where "ranked = sort_key (\<lambda>a. (- al_remainder a, al_address a)) as"
  have "a \<in> (\<lambda>a. a\<lparr>al_value := al_value a + 1\<rparr>) ` set ranked \<or> a \<in> set ranked"
    using assms unfolding settled_def Let_def as_def [symmetric] ranked_def [symmetric]
    by (auto dest: in_set_takeD in_set_dropD)
  then obtain x d where x: "x \<in> set as" "d \<in> {0, 1}" "al_address a = al_address x" "al_pkh a = al_pkh x" "al_value a = al_value x + d"
    unfolding ranked_def set_sort by force
  then obtain e where "e \<in> set ws" "x = alloc K reward (sum_list (map snd ws)) e" by (auto simp: as_def)
  then show ?thesis using x that by (auto simp: alloc_def)
qed

lemma settled_addresses: "map al_address (settled K reward ws) = map fst (sort_key fst ws)"
proof -
  define as where "as = map (alloc K reward (sum_list (map snd ws))) ws"
  define ranked where "ranked = sort_key (\<lambda>a. (- al_remainder a, al_address a)) as"
  define n where "n = nat (leftover_of reward ws)"
  define b where "b = map (\<lambda>a. a\<lparr>al_value := al_value a + 1\<rparr>) (take n ranked) @ drop n ranked"
  have "map al_address b = map al_address ranked"
    unfolding b_def map_append map_map comp_def by (simp add: map_append [symmetric] del: map_append)
  then have "mset (map al_address b) = mset (map al_address as)" by (simp add: ranked_def)
  also have "\<dots> = mset (map fst ws)" by (simp add: as_def alloc_def comp_def)
  finally have "mset (map al_address (sort_key al_address b)) = mset (map fst (sort_key fst ws))" by simp
  then have "map al_address (sort_key al_address b) = map fst (sort_key fst ws)"
    by (metis properties_for_sort sorted_sort_key)
  moreover have "settled K reward ws = sort_key al_address b"
    by (simp only: settled_def b_def n_def ranked_def as_def Let_def)
  ultimately show ?thesis by simp
qed

lemma settled_nth:
  assumes "distinct (map fst ws)" and "i < length ws"
  obtains d where "d \<in> {0, 1}"
    and "al_pkh (settled K reward ws ! i) = al_pkh (alloc K reward (sum_list (map snd ws)) (sort_key fst ws ! i))"
    and "al_value (settled K reward ws ! i) = reward * snd (sort_key fst ws ! i) div sum_list (map snd ws) + d"
proof -
  let ?e = "sort_key fst ws ! i"
  have len: "length (settled K reward ws) = length ws" using settled_addresses [of K reward ws] by (metis length_map length_sort)
  then have addr: "al_address (settled K reward ws ! i) = fst ?e"
    using settled_addresses [of K reward ws] assms(2) by (metis length_sort nth_map)
  obtain e d where e: "e \<in> set ws" "d \<in> {0, 1}" "al_address (settled K reward ws ! i) = fst e"
    "al_pkh (settled K reward ws ! i) = al_pkh (alloc K reward (sum_list (map snd ws)) e)"
    "al_value (settled K reward ws ! i) = reward * snd e div sum_list (map snd ws) + d"
    using settled_members [of "settled K reward ws ! i" K reward ws] len assms(2) by (metis nth_mem)
  have "?e \<in> set ws" using assms(2) by (metis length_sort nth_mem set_sort)
  then have "e = ?e" using e(1,3) addr assms(1) by (metis distinct_map inj_onD)
  then show ?thesis using e that by simp
qed

lemma pkh_of_payout: "payout_pkh K a \<noteq> None \<Longrightarrow> payout_pkh K a = Some (case DecodeAddress K a of Inl _ \<Rightarrow> 0 | Inr pkh \<Rightarrow> pkh)"
  by (auto simp: payout_pkh_def split: sum.splits if_splits)

lemma rounding: "0 < (t :: int) \<Longrightarrow> d \<in> {0, 1} \<Longrightarrow> v = x div t + d \<Longrightarrow> v * t \<le> x + t \<and> x < v * t + t"
proof -
  assume t: "0 < t" and d: "d \<in> {0, 1}" and v: "v = x div t + d"
  have "t * (x div t) + x mod t = x" by simp
  moreover have "0 \<le> x mod t" "x mod t < t" using t by simp_all
  ultimately have "x - t < t * (x div t)" "t * (x div t) \<le> x" by linarith+
  moreover have "v * t = t * (x div t) + d * t" by (simp add: v algebra_simps)
  moreover have "d = 0 \<or> d = 1" using d by simp
  ultimately show ?thesis by auto
qed

lemma payout_order:
  assumes "mset ws = mset ws'" and "distinct (map fst ws)"
  shows "pplnsOutputsFromWork K ws reward = pplnsOutputsFromWork K ws' reward"
proof (cases "valid_weights K ws reward")
  case True
  have sets: "set ws = set ws'" "length ws = length ws'" using assms(1) by (metis set_mset_mset, metis size_mset)
  have total: "sum_list (map snd ws) = sum_list (map snd ws')" using sum_list_mset [OF assms(1)] .
  then have valid: "valid_weights K ws' reward" using True sets by (auto simp: valid_weights_def)
  have left: "leftover_of reward ws = leftover_of reward ws'"
    unfolding leftover_of_def total
    using sum_list_mset [OF assms(1), of "\<lambda>e. reward * snd e div sum_list (map snd ws')"] by simp
  let ?f = "alloc K reward (sum_list (map snd ws'))" and ?key = "\<lambda>a :: allocation. (- al_remainder a, al_address a)"
  have "inj_on ?key (set (map ?f ws))"
  proof (rule inj_onI)
    fix x y
    assume xy: "x \<in> set (map ?f ws)" "y \<in> set (map ?f ws)" "?key x = ?key y"
    obtain e e' where e: "e \<in> set ws" "e' \<in> set ws" "x = ?f e" "y = ?f e'" using xy(1,2) by (auto simp del: split_paired_Ex)
    have "fst e = fst e'" using xy(3) unfolding e(3,4) by (simp add: alloc_def)
    then have "e = e'" using assms(2) e(1,2) by (metis distinct_map inj_onD)
    then show "x = y" using e(3,4) by simp
  qed
  moreover have "mset (map ?f ws) = mset (sort_key ?key (map ?f ws'))" using assms(1) by simp
  ultimately have "sort_key ?key (map ?f ws) = sort_key ?key (map ?f ws')" using sort_key_inj_key_eq sorted_sort_key by blast
  then have "settled K reward ws = settled K reward ws'" unfolding settled_def total left Let_def by simp
  then show ?thesis using payouts_valid [OF True] payouts_valid [OF valid] by simp
next
  case False
  have sets: "set ws = set ws'" "length ws = length ws'" using assms(1) by (metis set_mset_mset, metis size_mset)
  have total: "sum_list (map snd ws) = sum_list (map snd ws')" using sum_list_mset [OF assms(1)] .
  have empty: "(ws = []) = (ws' = [])" using sets(2) by auto
  have "\<not> valid_weights K ws' reward" using False sets total empty by (simp add: valid_weights_def)
  then show ?thesis
    unfolding payouts_invalid [OF False] payouts_invalid [OF \<open>\<not> valid_weights K ws' reward\<close>] using sets empty by simp
qed

section \<open>Properties\<close>

text \<open>Two addresses with work three and five.\<close>

lemma payout_pkh_Encode [simp]: "payout_pkh K (EncodeAddress K pkh) = (if pkh = 0 then None else Some pkh)"
  by (simp add: payout_pkh_def DecodeAddress_EncodeAddress)

lemma EncodeAddress_inj [simp]: "EncodeAddress K a = EncodeAddress K b \<longleftrightarrow> a = b"
  by (metis DecodeAddress_EncodeAddress Inr_inject)

definition sample_weights :: weights where
  "sample_weights = [(EncodeAddress sample_crypto 7, 3), (EncodeAddress sample_crypto 8, 5)]"

lemma sample_weights_valid: "valid_weights sample_crypto sample_weights 10" "distinct (map fst sample_weights)"
  by (simp_all add: valid_weights_def sample_weights_def ok_weight_def MoneyRange_def MaxMoneyUnits_eq bit_len.simps)

text \<open>C28: For valid weights of distinct addresses, each worth at least one unit of the reward, the payout
  succeeds and is fair: the outputs add up to exactly the reward, there is one output per address
  in address order, paying the key hash of that address a positive amount that differs from the
  exact proportion of its work by at most one unit.\<close>

theorem pplns_payout_fair:
  assumes "valid_weights K ws reward" and "distinct (map fst ws)"
    and "\<forall>e\<in>set ws. sum_list (map snd ws) \<le> reward * snd e"
  shows "\<exists>outs. pplnsOutputsFromWork K ws reward = Inr outs \<and> sum_list (map out_Value outs) = reward \<and>
    length outs = length ws \<and>
    (\<forall>i<length ws. payout_pkh K (fst (sort_key fst ws ! i)) = Some (out_PubKeyHash (outs ! i)) \<and> 0 < out_Value (outs ! i) \<and>
       (let t = sum_list (map snd ws); exact = reward * snd (sort_key fst ws ! i) in
        out_Value (outs ! i) * t \<le> exact + t \<and> exact < out_Value (outs ! i) * t + t))"
proof -
  let ?s = "settled K reward ws" and ?t = "sum_list (map snd ws)"
  have t: "0 < ?t" using total_pos [OF assms(1)] .
  have len: "length ?s = length ws" using settled_addresses [of K reward ws] by (metis length_map length_sort)
  have pos: "\<forall>a\<in>set ?s. 0 < al_value a"
  proof
    fix a
    assume "a \<in> set ?s"
    then obtain e d where e: "e \<in> set ws" "d \<in> {0, 1 :: int}" "al_value a = reward * snd e div ?t + d"
      by (rule settled_members)
    have "1 \<le> reward * snd e div ?t" using assms(3) e(1) t zdiv_mono1 [of ?t "reward * snd e" ?t] by simp
    then show "0 < al_value a" using e(2,3) by auto
  qed
  then have run: "pplnsOutputsFromWork K ws reward = Inr (map to_output ?s)" using payouts_valid [OF assms(1)] by simp
  have "sum_list (map out_Value (map to_output ?s)) = reward" using settled_sum [OF assms(1)] by (simp add: to_output_def comp_def)
  moreover have "payout_pkh K (fst (sort_key fst ws ! i)) = Some (out_PubKeyHash (map to_output ?s ! i)) \<and>
      0 < out_Value (map to_output ?s ! i) \<and>
      (let t = ?t; exact = reward * snd (sort_key fst ws ! i) in
       out_Value (map to_output ?s ! i) * t \<le> exact + t \<and> exact < out_Value (map to_output ?s ! i) * t + t)"
    if i: "i < length ws" for i
  proof -
    obtain d where d: "d \<in> {0, 1}" "al_pkh (?s ! i) = al_pkh (alloc K reward ?t (sort_key fst ws ! i))"
      "al_value (?s ! i) = reward * snd (sort_key fst ws ! i) div ?t + d"
      using assms(2) i by (rule settled_nth)
    have "sort_key fst ws ! i \<in> set ws" using i by (metis length_sort nth_mem set_sort)
    then have "payout_pkh K (fst (sort_key fst ws ! i)) \<noteq> None" using assms(1) by (auto simp: valid_weights_def ok_weight_def)
    moreover have "0 < al_value (?s ! i)" using pos i len by simp
    ultimately show ?thesis
      using d(2) pkh_of_payout rounding [OF t d(1,3)] i len by (simp add: to_output_def alloc_def)
  qed
  ultimately show ?thesis using run len by (intro exI [of _ "map to_output ?s"]) simp
qed

theorem pplns_payout_fair_witness:
  "\<exists>outs. pplnsOutputsFromWork sample_crypto sample_weights 10 = Inr outs \<and> sum_list (map out_Value outs) = 10 \<and> length outs = 2"
  using pplns_payout_fair [OF sample_weights_valid] by (fastforce simp: sample_weights_def)

text \<open>The payout does not depend on the iteration order of the weight map: for the same weights of
  distinct addresses in any two orders the outcome, error or outputs, is the same.\<close>

theorem pplns_payout_deterministic:
  assumes "mset ws = mset ws'" and "distinct (map fst ws)"
  shows "pplnsOutputsFromWork K ws reward = pplnsOutputsFromWork K ws' reward"
  using assms by (rule payout_order)

theorem pplns_payout_deterministic_witness:
  "pplnsOutputsFromWork sample_crypto sample_weights 10 = pplnsOutputsFromWork sample_crypto (rev sample_weights) 10"
  using pplns_payout_deterministic [of sample_weights "rev sample_weights"] sample_weights_valid(2) by simp

end
