(* ===== verification/PplnsWindow.thy ===== *)
theory PplnsWindow
  imports PplnsTheorems
begin

text \<open>
  The share window as a state machine: what its validation means, exactly which shares \<^verbatim>\<open>Accept\<close>
  takes, and that the state file always holds the window in memory, so that a restart resumes with
  it. The JSON coding enters as one hypothesis: reading what was written gives the snapshot back.
\<close>

section \<open>What validation means\<close>

definition share_ok :: "crypto \<Rightarrow> string \<Rightarrow> PPLNSShare \<Rightarrow> bool" where
  "share_ok K network share \<longleftrightarrow>
     payout_pkh K (sh_Address share) \<noteq> None \<and> validLowerHex (sh_JobID share) 32 \<and> validLowerHex (sh_ShareHash share) 64 \<and>
     validLowerHex (sh_TipHash share) 64 \<and> 0 \<le> sh_TipHeight share \<and> sh_AcceptedAt share \<noteq> 0 \<and>
     (\<exists>target. parseCanonicalTarget (sh_ShareTarget share) = Inr target \<and> target \<le> network_maximum network)"

definition contiguous :: "uint64 list \<Rightarrow> bool" where
  "contiguous xs \<longleftrightarrow> (\<forall>i. Suc i < length xs \<longrightarrow> xs ! Suc i = xs ! i + 1)"

definition wf_window :: "crypto \<Rightarrow> PPLNSSnapshot \<Rightarrow> bool" where
  "wf_window K st \<longleftrightarrow>
     ps_SchemaVersion st = pplnsStateSchemaVersion \<and> int (length (ps_Shares st)) \<le> ps_WindowShares st \<and>
     (\<forall>s\<in>set (ps_Shares st). share_ok K (ps_Network st) s \<and> sh_Sequence s \<noteq> 0) \<and>
     contiguous (map sh_Sequence (ps_Shares st)) \<and> distinct (map pplnsShareKey (ps_Shares st)) \<and>
     int (card (sh_Address ` set (ps_Shares st))) \<le> ps_MaxAddresses st \<and>
     (if ps_Shares st = [] then ps_NextSequence st = 1
      else sh_Sequence (last (ps_Shares st)) \<noteq> - 1 \<and> ps_NextSequence st = sh_Sequence (last (ps_Shares st)) + 1)"

lemma contiguous_snoc: "contiguous (xs @ [x]) \<longleftrightarrow> contiguous xs \<and> (xs \<noteq> [] \<longrightarrow> x = last xs + 1)"
proof
  assume c: "contiguous (xs @ [x])"
  have "contiguous xs" using c by (auto simp: contiguous_def nth_append) (metis Suc_lessD less_SucI)
  moreover have "x = last xs + 1" if "xs \<noteq> []"
  proof -
    have "Suc (length xs - 1) = length xs" using that by simp
    then show ?thesis using c [unfolded contiguous_def, rule_format, of "length xs - 1"] that
      by (auto simp: nth_append last_conv_nth)
  qed
  ultimately show "contiguous xs \<and> (xs \<noteq> [] \<longrightarrow> x = last xs + 1)" by blast
next
  assume c: "contiguous xs \<and> (xs \<noteq> [] \<longrightarrow> x = last xs + 1)"
  show "contiguous (xs @ [x])"
    unfolding contiguous_def
  proof (intro allI impI)
    fix i
    assume i: "Suc i < length (xs @ [x])"
    show "(xs @ [x]) ! Suc i = (xs @ [x]) ! i + 1"
    proof (cases "Suc i < length xs")
      case True
      then show ?thesis using c by (simp add: nth_append contiguous_def)
    next
      case False
      then have "i = length xs - 1" "xs \<noteq> []" using i by auto
      then show ?thesis using c by (auto simp: nth_append last_conv_nth)
    qed
  qed
qed

lemma contiguous_short [simp]: "contiguous []" "contiguous [x]"
  by (simp_all add: contiguous_def)

lemma contiguous_drop: "contiguous xs \<Longrightarrow> contiguous (drop n xs)"
  by (auto simp: contiguous_def)

lemma share_ok_iff:
  "validatePPLNSShare K share stored = Inr () \<and>
     (\<exists>target. parseCanonicalTarget (sh_ShareTarget share) = Inr target \<and> target \<le> network_maximum network) \<longleftrightarrow>
   share_ok K network share \<and> (sh_Sequence share \<noteq> 0 \<longleftrightarrow> stored)"
  by (auto simp: validatePPLNSShare_def share_ok_def failIf_def split: sum.splits)

lemma validate_share_Inr:
  "validate_share K network (as, seen, prev, n) share = Inr st \<longleftrightarrow>
     share_ok K network share \<and> sh_Sequence share \<noteq> 0 \<and> (0 < n \<longrightarrow> sh_Sequence share = prev + 1) \<and>
     pplnsShareKey share \<notin> seen \<and>
     st = (insert (sh_Address share) as, insert (pplnsShareKey share) seen, sh_Sequence share, Suc n)"
proof -
  have "validate_share K network (as, seen, prev, n) share = Inr st \<longleftrightarrow>
      (validatePPLNSShare K share True = Inr () \<and>
       (\<exists>target. parseCanonicalTarget (sh_ShareTarget share) = Inr target \<and> target \<le> network_maximum network)) \<and>
      (0 < n \<longrightarrow> sh_Sequence share = prev + 1) \<and> pplnsShareKey share \<notin> seen \<and>
      st = (insert (sh_Address share) as, insert (pplnsShareKey share) seen, sh_Sequence share, Suc n)"
    by (auto simp: validate_share_def bindE_Inr_iff failIf_Inr_iff not_less split: sum.splits)
  then show ?thesis unfolding share_ok_iff by auto
qed

lemma foldE_snoc: "foldE f s (xs @ [x]) = bindE (foldE f s xs) (\<lambda>t. f t x)"
proof -
  have "bindE m Inr = m" for m :: "'a res" by (cases m) simp_all
  then show ?thesis by (simp add: foldE_append)
qed

lemma validate_shares:
  "foldE (validate_share K network) ({}, {}, 0, 0) shares = Inr st \<longleftrightarrow>
     (\<forall>s\<in>set shares. share_ok K network s \<and> sh_Sequence s \<noteq> 0) \<and> contiguous (map sh_Sequence shares) \<and>
     distinct (map pplnsShareKey shares) \<and>
     st = (sh_Address ` set shares, pplnsShareKey ` set shares, if shares = [] then 0 else sh_Sequence (last shares), length shares)"
proof (induction shares arbitrary: st rule: rev_induct)
  case Nil
  then show ?case by (auto simp: contiguous_def)
next
  case (snoc s shares)
  have "foldE (validate_share K network) ({}, {}, 0, 0) (shares @ [s]) = Inr st \<longleftrightarrow>
      (\<exists>st1. foldE (validate_share K network) ({}, {}, 0, 0) shares = Inr st1 \<and> validate_share K network st1 s = Inr st)"
    by (simp only: foldE_snoc bindE_Inr_iff)
  also have "\<dots> \<longleftrightarrow> (\<forall>s\<in>set shares. share_ok K network s \<and> sh_Sequence s \<noteq> 0) \<and> contiguous (map sh_Sequence shares) \<and>
      distinct (map pplnsShareKey shares) \<and>
      validate_share K network (sh_Address ` set shares, pplnsShareKey ` set shares,
        if shares = [] then 0 else sh_Sequence (last shares), length shares) s = Inr st"
    unfolding snoc.IH by blast
  also have "\<dots> \<longleftrightarrow> (\<forall>x\<in>set (shares @ [s]). share_ok K network x \<and> sh_Sequence x \<noteq> 0) \<and>
      contiguous (map sh_Sequence (shares @ [s])) \<and> distinct (map pplnsShareKey (shares @ [s])) \<and>
      st = (sh_Address ` set (shares @ [s]), pplnsShareKey ` set (shares @ [s]),
        if shares @ [s] = [] then 0 else sh_Sequence (last (shares @ [s])), length (shares @ [s]))"
    unfolding validate_share_Inr by (auto simp: contiguous_snoc last_map)
  finally show ?case .
qed

lemma validatePPLNSState_iff:
  "validatePPLNSState K st network w m = Inr () \<longleftrightarrow>
     ps_Network st = network \<and> ps_WindowShares st = w \<and> ps_MaxAddresses st = m \<and> ps_NextSequence st \<noteq> 0 \<and> wf_window K st"
proof -
  have "validatePPLNSState K st network w m = Inr () \<longleftrightarrow>
    ps_SchemaVersion st = pplnsStateSchemaVersion \<and> ps_Network st = network \<and> ps_WindowShares st = w \<and>
    ps_MaxAddresses st = m \<and> ps_NextSequence st \<noteq> 0 \<and> int (length (ps_Shares st)) \<le> w \<and>
    (\<exists>t. foldE (validate_share K network) ({}, {}, 0, 0) (ps_Shares st) = Inr t \<and>
       (ps_Shares st = [] \<longrightarrow> ps_NextSequence st = 1) \<and>
       (ps_Shares st \<noteq> [] \<longrightarrow> fst (snd (snd t)) \<noteq> - 1 \<and> ps_NextSequence st = fst (snd (snd t)) + 1) \<and>
       int (card (fst t)) \<le> m)"
    by (auto simp: validatePPLNSState_def bindE_Inr_iff failIf_Inr_iff not_less split: prod.splits)
  also have "\<dots> \<longleftrightarrow> ps_Network st = network \<and> ps_WindowShares st = w \<and> ps_MaxAddresses st = m \<and> ps_NextSequence st \<noteq> 0 \<and> wf_window K st"
    unfolding validate_shares wf_window_def by auto
  finally show ?thesis .
qed

section \<open>Sliding the window\<close>

definition slide :: "PPLNSSnapshot \<Rightarrow> PPLNSShare \<Rightarrow> PPLNSSnapshot" where
  "slide st share = st\<lparr>ps_NextSequence := ps_NextSequence st + 1,
     ps_Shares := trim_window (ps_WindowShares st) (ps_Shares st @ [share\<lparr>sh_Sequence := ps_NextSequence st\<rparr>])\<rparr>"

lemma slide_simps [simp]:
  "ps_SchemaVersion (slide st share) = ps_SchemaVersion st" "ps_Network (slide st share) = ps_Network st"
  "ps_WindowShares (slide st share) = ps_WindowShares st" "ps_MaxAddresses (slide st share) = ps_MaxAddresses st"
  "ps_NextSequence (slide st share) = ps_NextSequence st + 1"
  by (simp_all add: slide_def)

lemma key_sequence [simp]: "pplnsShareKey (share\<lparr>sh_Sequence := n\<rparr>) = pplnsShareKey share"
  by (simp add: pplnsShareKey_def)

lemma share_ok_sequence [simp]: "share_ok K network (share\<lparr>sh_Sequence := n\<rparr>) = share_ok K network share"
  by (simp add: share_ok_def)

lemma trim_window_drop: "\<exists>n. trim_window w xs = drop n xs"
  unfolding trim_window_def by (metis drop0)

lemma trim_window_last: "1 \<le> w \<Longrightarrow> \<exists>n\<le>length xs. trim_window w (xs @ [x]) = drop n xs @ [x]"
proof (cases "int (length (xs @ [x])) > w")
  case True
  assume w: "1 \<le> w"
  have "length (xs @ [x]) - nat w \<le> length xs" using w by auto
  then show ?thesis using True by (intro exI [of _ "length (xs @ [x]) - nat w"]) (auto simp: trim_window_def)
next
  case False
  then show ?thesis by (intro exI [of _ 0]) (simp add: trim_window_def)
qed

lemma length_trim_window: "0 \<le> w \<Longrightarrow> int (length (trim_window w xs)) \<le> w"
  by (auto simp: trim_window_def)

lemma slide_valid_iff:
  assumes wf: "wf_window K st" and w: "1 \<le> ps_WindowShares st" and next_: "ps_NextSequence st \<noteq> 0" "ps_NextSequence st \<noteq> - 1"
    and fresh: "pplnsShareKey share \<notin> pplnsShareKey ` set (ps_Shares st)"
  shows "validatePPLNSState K (slide st share) (ps_Network st) (ps_WindowShares st) (ps_MaxAddresses st) = Inr () \<longleftrightarrow>
    share_ok K (ps_Network st) share \<and> int (card (sh_Address ` set (ps_Shares (slide st share)))) \<le> ps_MaxAddresses st"
proof -
  let ?s = "share\<lparr>sh_Sequence := ps_NextSequence st\<rparr>"
  obtain n where n: "ps_Shares (slide st share) = drop n (ps_Shares st) @ [?s]"
    using trim_window_last [OF w, of "ps_Shares st" ?s] by (auto simp: slide_def)
  have len: "int (length (ps_Shares (slide st share))) \<le> ps_WindowShares st"
    using w length_trim_window [of "ps_WindowShares st"] by (simp add: slide_def)
  have seq: "contiguous (map sh_Sequence (ps_Shares (slide st share)))"
    using wf unfolding n by (cases "drop n (ps_Shares st) = []")
      (auto simp: contiguous_snoc wf_window_def contiguous_drop drop_map [symmetric] last_map last_drop split: if_splits)
  have keys: "distinct (map pplnsShareKey (ps_Shares (slide st share)))"
    using wf fresh unfolding n by (auto simp: wf_window_def drop_map [symmetric] distinct_drop dest: in_set_dropD)
  have rest: "\<forall>x\<in>set (drop n (ps_Shares st)). share_ok K (ps_Network st) x \<and> sh_Sequence x \<noteq> 0"
    using wf by (auto simp: wf_window_def dest: in_set_dropD)
  have "ps_NextSequence st + 1 \<noteq> 0" using next_(2) by (metis add_eq_0_iff2)
  then have "validatePPLNSState K (slide st share) (ps_Network st) (ps_WindowShares st) (ps_MaxAddresses st) = Inr () \<longleftrightarrow>
      wf_window K (slide st share)" by (simp add: validatePPLNSState_iff)
  also have "\<dots> \<longleftrightarrow> share_ok K (ps_Network st) share \<and> int (card (sh_Address ` set (ps_Shares (slide st share)))) \<le> ps_MaxAddresses st"
    unfolding wf_window_def slide_simps using wf len seq keys rest next_ n by (auto simp: wf_window_def)
  finally show ?thesis .
qed

section \<open>The window as a state machine\<close>

text \<open>\<open>mar\<close> and \<open>unmar\<close> are the JSON coding; every other outcome may differ from call to call.\<close>

definition json_ok :: "(PPLNSSnapshot \<Rightarrow> byte list res) \<Rightarrow> (byte list \<Rightarrow> PPLNSSnapshot res) \<Rightarrow> bool" where
  "json_ok mar unmar \<longleftrightarrow> (\<forall>s text. mar s = Inr text \<longrightarrow> unmar (text @ [10]) = Inr s)"

definition healthy :: "PPLNSIO \<Rightarrow> bool" where
  "healthy io \<longleftrightarrow> io_hardlink io = None \<and> io_open io = None \<and> io_regular io \<and> io_mode io"

definition uses_json :: "(PPLNSSnapshot \<Rightarrow> byte list res) \<Rightarrow> (byte list \<Rightarrow> PPLNSSnapshot res) \<Rightarrow> PPLNSIO \<Rightarrow> bool" where
  "uses_json mar unmar io \<longleftrightarrow> io_marshal io = mar \<and> io_unmarshal io = unmar"

definition window_init ::
  "crypto \<Rightarrow> (PPLNSSnapshot \<Rightarrow> byte list res) \<Rightarrow> (byte list \<Rightarrow> PPLNSSnapshot res) \<Rightarrow> PPLNSWindow \<Rightarrow> bool" where
  "window_init K mar unmar w \<longleftrightarrow>
     (\<exists>io file network config. uses_json mar unmar io \<and> NewPPLNSWindow K io file network config = Inr w)"

inductive window_step ::
  "crypto \<Rightarrow> (PPLNSSnapshot \<Rightarrow> byte list res) \<Rightarrow> (byte list \<Rightarrow> PPLNSSnapshot res) \<Rightarrow> PPLNSWindow \<Rightarrow> PPLNSWindow \<Rightarrow> bool"
  for K mar unmar where
  window_accept: "uses_json mar unmar io \<Longrightarrow> Accept K io w share = (w', r) \<Longrightarrow> window_step K mar unmar w w'"
| window_close: "CloseWindow io w = (w', r) \<Longrightarrow> window_step K mar unmar w w'"

inductive_cases window_stepE: "window_step K mar unmar w w'"

abbreviation window_reach ::
  "crypto \<Rightarrow> (PPLNSSnapshot \<Rightarrow> byte list res) \<Rightarrow> (byte list \<Rightarrow> PPLNSSnapshot res) \<Rightarrow> PPLNSWindow \<Rightarrow> bool" where
  "window_reach K mar unmar \<equiv> reach (window_init K mar unmar) (window_step K mar unmar)"

definition window_ok :: "crypto \<Rightarrow> PPLNSWindow \<Rightarrow> bool" where
  "window_ok K w \<longleftrightarrow>
     wf_window K (pw_state w) \<and> ps_NextSequence (pw_state w) \<noteq> 0 \<and>
     1 \<le> ps_WindowShares (pw_state w) \<and> ps_WindowShares (pw_state w) \<le> 4096 \<and>
     1 \<le> ps_MaxAddresses (pw_state w) \<and> ps_MaxAddresses (pw_state w) \<le> 256 \<and>
     ps_MaxAddresses (pw_state w) \<le> ps_WindowShares (pw_state w)"

definition file_ok :: "(byte list \<Rightarrow> PPLNSSnapshot res) \<Rightarrow> PPLNSWindow \<Rightarrow> bool" where
  "file_ok unmar w \<longleftrightarrow>
     (case pw_file w of
        None \<Rightarrow> ps_Shares (pw_state w) = []
      | Some encoded \<Rightarrow> unmar encoded = Inr (pw_state w) \<and> encoded \<noteq> [] \<and> length encoded \<le> maxPPLNSStateBytes)"

text \<open>The result of a call of \<^verbatim>\<open>Accept\<close>, with the candidate written as a slide.\<close>

lemma Accept_cases:
  assumes "Accept K io w share = (w', r)"
  obtains (refused) e where "w' = w" "r = Inl e"
  | (taken) body where "validatePPLNSShare K share False = Inr ()" "\<not> pw_closed w"
      "pplnsShareKey share \<notin> pplnsShareKey ` set (ps_Shares (pw_state w))" "ps_NextSequence (pw_state w) \<noteq> - 1"
      "validatePPLNSState K (slide (pw_state w) share) (ps_Network (pw_state w)) (ps_WindowShares (pw_state w))
         (ps_MaxAddresses (pw_state w)) = Inr ()"
      "io_marshal io (slide (pw_state w) share) = Inr body" "length body < maxPPLNSStateBytes"
      "io_hardlink io = None" "io_write io = None"
      "w' = w\<lparr>pw_state := slide (pw_state w) share, pw_file := Some (body @ [10])\<rparr>"
      "r = Inr (share\<lparr>sh_Sequence := ps_NextSequence (pw_state w)\<rparr>)"
proof -
  define decision where "decision =
    bindE (validatePPLNSShare K share False) (\<lambda>_.
    failIf (pw_closed w) ErrPPLNSClosed
    (failIf (pplnsShareKey share \<in> pplnsShareKey ` set (ps_Shares (pw_state w))) ErrPPLNSDuplicateShare
    (failIf (ps_NextSequence (pw_state w) = - 1) (Err ''PPLNS sequence exhausted'')
    (bindE (validatePPLNSState K (slide (pw_state w) share) (ps_Network (pw_state w)) (ps_WindowShares (pw_state w))
        (ps_MaxAddresses (pw_state w))) (\<lambda>_.
     bindE (io_marshal io (slide (pw_state w) share)) (\<lambda>body.
     failIf (length (body @ [10]) > maxPPLNSStateBytes) (Err ''PPLNS state exceeds size bound'')
     (case io_hardlink io of Some e \<Rightarrow> Inl e
      | None \<Rightarrow>
          (case io_write io of Some e \<Rightarrow> Inl (Wrapped ''persist PPLNS share'' e)
           | None \<Rightarrow> Inr (share\<lparr>sh_Sequence := ps_NextSequence (pw_state w)\<rparr>, slide (pw_state w) share, body @ [10])))))))))"
  have run: "(w', r) = (case decision of Inl e \<Rightarrow> (w, Inl e)
      | Inr (share', candidate, encoded) \<Rightarrow> (w\<lparr>pw_state := candidate, pw_file := Some encoded\<rparr>, Inr share'))"
    using assms unfolding Accept_def decision_def slide_def Let_def by simp
  show ?thesis
  proof (cases decision)
    case (Inl e)
    then show ?thesis using run refused by simp
  next
    case (Inr t)
    then obtain body where "t = (share\<lparr>sh_Sequence := ps_NextSequence (pw_state w)\<rparr>, slide (pw_state w) share, body @ [10])"
      "validatePPLNSShare K share False = Inr ()" "\<not> pw_closed w"
      "pplnsShareKey share \<notin> pplnsShareKey ` set (ps_Shares (pw_state w))" "ps_NextSequence (pw_state w) \<noteq> - 1"
      "validatePPLNSState K (slide (pw_state w) share) (ps_Network (pw_state w)) (ps_WindowShares (pw_state w))
         (ps_MaxAddresses (pw_state w)) = Inr ()"
      "io_marshal io (slide (pw_state w) share) = Inr body" "length body < maxPPLNSStateBytes"
      "io_hardlink io = None" "io_write io = None"
      unfolding decision_def by (auto simp: bindE_Inr_iff failIf_Inr_iff split: option.splits)
    then show ?thesis using run Inr taken by simp
  qed
qed

lemma Accept_taken:
  assumes "validatePPLNSShare K share False = Inr ()" and "\<not> pw_closed w"
    and "pplnsShareKey share \<notin> pplnsShareKey ` set (ps_Shares (pw_state w))" and "ps_NextSequence (pw_state w) \<noteq> - 1"
    and "validatePPLNSState K (slide (pw_state w) share) (ps_Network (pw_state w)) (ps_WindowShares (pw_state w))
         (ps_MaxAddresses (pw_state w)) = Inr ()"
    and "io_marshal io (slide (pw_state w) share) = Inr body" and "length body < maxPPLNSStateBytes"
    and "io_hardlink io = None" and "io_write io = None"
  shows "Accept K io w share = (w\<lparr>pw_state := slide (pw_state w) share, pw_file := Some (body @ [10])\<rparr>,
    Inr (share\<lparr>sh_Sequence := ps_NextSequence (pw_state w)\<rparr>))"
  using assms unfolding Accept_def Let_def slide_def by (simp add: failIf_def)

lemma slide_window_ok:
  assumes "window_ok K w" and "ps_NextSequence (pw_state w) \<noteq> - 1"
    and "validatePPLNSState K (slide (pw_state w) share) (ps_Network (pw_state w)) (ps_WindowShares (pw_state w))
         (ps_MaxAddresses (pw_state w)) = Inr ()"
  shows "window_ok K (w\<lparr>pw_state := slide (pw_state w) share, pw_file := f\<rparr>)"
  using assms by (simp add: window_ok_def validatePPLNSState_iff)

lemma NewPPLNSWindow_ok:
  assumes "NewPPLNSWindow K io stored network config = Inr w" and "uses_json mar unmar io"
  shows "window_ok K w \<and> file_ok unmar w"
proof -
  obtain st ws ma where w: "w = \<lparr>pw_state = st, pw_lock = True, pw_closed = False, pw_file = stored\<rparr>"
    and ld: "loadPPLNSState K io stored network ws ma = Inr st" and b: "1 \<le> ws" "ws \<le> 4096" "1 \<le> ma" "ma \<le> 256" "ma \<le> ws"
    using assms(1) by (auto simp: NewPPLNSWindow_def failIf_Inr_iff bindE_Inr_iff Let_def split: option.splits)
  have un: "io_unmarshal io = unmar" using assms(2) by (simp add: uses_json_def)
  show ?thesis
  proof (cases stored)
    case None
    then show ?thesis
      using ld b by (auto simp: w loadPPLNSState_def window_ok_def file_ok_def wf_window_def contiguous_def split: option.splits)
  next
    case (Some encoded)
    then have "unmar encoded = Inr st" "validatePPLNSState K st network ws ma = Inr ()" "encoded \<noteq> []"
      "length encoded \<le> maxPPLNSStateBytes"
      using ld un by (auto simp: loadPPLNSState_def failIf_Inr_iff bindE_Inr_iff split: option.splits)
    then show ?thesis using b Some by (simp add: w window_ok_def file_ok_def validatePPLNSState_iff)
  qed
qed

interpretation window_machine: state_machine "window_init K mar unmar" "window_step K mar unmar"
  "\<lambda>w. window_ok K w \<and> (json_ok mar unmar \<longrightarrow> file_ok unmar w)"
proof
  fix w
  assume "window_init K mar unmar w"
  then show "window_ok K w \<and> (json_ok mar unmar \<longrightarrow> file_ok unmar w)"
    using NewPPLNSWindow_ok by (auto simp: window_init_def)
next
  fix w w'
  assume inv: "window_ok K w \<and> (json_ok mar unmar \<longrightarrow> file_ok unmar w)" and "window_step K mar unmar w w'"
  from this(2) show "window_ok K w' \<and> (json_ok mar unmar \<longrightarrow> file_ok unmar w')"
  proof (cases rule: window_step.cases)
    case (window_accept io share r)
    from window_accept(2) show ?thesis
    proof (cases rule: Accept_cases)
      case (refused e)
      then show ?thesis using inv by simp
    next
      case (taken body)
      then have "json_ok mar unmar \<longrightarrow> file_ok unmar w'"
        using window_accept(1) by (auto simp: json_ok_def uses_json_def file_ok_def)
      then show ?thesis using inv slide_window_ok taken by blast
    qed
  next
    case (window_close io r)
    then show ?thesis using inv by (cases "pw_closed w") (auto simp: CloseWindow_def window_ok_def file_ok_def split: option.splits)
  qed
qed

section \<open>Properties\<close>

text \<open>A window of four shares for two addresses on the regression-test network, and a first share.\<close>

definition sample_state :: PPLNSSnapshot where
  "sample_state = \<lparr>ps_SchemaVersion = 2, ps_Network = RegTestMachineID, ps_WindowShares = 4, ps_MaxAddresses = 2,
     ps_NextSequence = 1, ps_Shares = []\<rparr>"

definition sample_share :: PPLNSShare where
  "sample_share = \<lparr>sh_Sequence = 0, sh_Address = EncodeAddress sample_crypto 7, sh_JobID = hex_EncodeToString (replicate 16 0),
     sh_Nonce = 5, sh_ShareHash = hex_EncodeToString (replicate 32 0), sh_ShareTarget = hex_EncodeToString (be_bytes 32 1),
     sh_TipHash = hex_EncodeToString (replicate 32 0), sh_TipHeight = 0, sh_AcceptedAt = 1\<rparr>"

definition sample_mar :: "PPLNSSnapshot \<Rightarrow> byte list res" where
  "sample_mar s = (if s = slide sample_state sample_share then Inr [] else Inl EOF)"

definition sample_unmar :: "byte list \<Rightarrow> PPLNSSnapshot res" where
  "sample_unmar b = Inr (slide sample_state sample_share)"

definition sample_io :: PPLNSIO where
  "sample_io = \<lparr>io_path = None, io_lock = None, io_hardlink = None, io_open = None, io_regular = True, io_mode = True,
     io_write = None, io_release = None, io_marshal = sample_mar, io_unmarshal = sample_unmar\<rparr>"

definition sample_window :: PPLNSWindow where
  "sample_window = \<lparr>pw_state = sample_state, pw_lock = True, pw_closed = False, pw_file = None\<rparr>"

lemma sample_share_ok: "share_ok sample_crypto RegTestMachineID sample_share"
proof -
  have "be_nat (be_bytes 32 1) = 1" by (simp add: be_nat_be_bytes)
  then have "parseCanonicalTarget (hex_EncodeToString (be_bytes 32 1)) = Inr 1"
    using parseCanonicalTarget_Encode [of "be_bytes 32 1"] by simp
  moreover have "1 \<le> network_maximum RegTestMachineID"
    by (simp add: network_maximum_def MaxTarget_def CompactToTarget_def canonicalRegTestParams_def canonicalMainNetParams_def)
  ultimately show ?thesis by (simp add: share_ok_def sample_share_def)
qed

lemma sample_window_reach: "window_reach sample_crypto sample_mar sample_unmar sample_window"
proof (rule reach_init)
  have "NewPPLNSWindow sample_crypto sample_io None RegTestMachineID \<lparr>pc_WindowShares = 4, pc_MaxAddresses = 2\<rparr> = Inr sample_window"
    by (simp add: NewPPLNSWindow_def sample_io_def loadPPLNSState_def sample_window_def sample_state_def failIf_def
        pplnsStateSchemaVersion_def Let_def)
  then show "window_init sample_crypto sample_mar sample_unmar sample_window"
    unfolding window_init_def by (intro exI conjI) (auto simp: uses_json_def sample_io_def)
qed

lemma sample_slide: "ps_Shares (slide sample_state sample_share) = [sample_share\<lparr>sh_Sequence := 1\<rparr>]"
  by (simp add: slide_def trim_window_def sample_state_def)



text \<open>In every state of a window reached from opening it, the state file holds the window: opening the file again, with
  files in order, gives back exactly the shares and sequence number in memory. The coding only has
  to read back what it wrote.\<close>

theorem pplns_window_survives_restart:
  assumes "window_reach K mar unmar w" and "json_ok mar unmar" and "uses_json mar unmar io" and "healthy io"
  shows "(pw_file w = None \<and> ps_Shares (pw_state w) = [] \<or>
      loadPPLNSState K io (pw_file w) (ps_Network (pw_state w)) (ps_WindowShares (pw_state w)) (ps_MaxAddresses (pw_state w)) =
        Inr (pw_state w)) \<and>
    int (length (ps_Shares (pw_state w))) \<le> ps_WindowShares (pw_state w) \<and>
    distinct (map pplnsShareKey (ps_Shares (pw_state w))) \<and> contiguous (map sh_Sequence (ps_Shares (pw_state w)))"
proof -
  have inv: "window_ok K w" "file_ok unmar w" using window_machine.reach_inv [OF assms(1)] assms(2) by auto
  have "validatePPLNSState K (pw_state w) (ps_Network (pw_state w)) (ps_WindowShares (pw_state w)) (ps_MaxAddresses (pw_state w)) = Inr ()"
    using inv(1) by (simp add: validatePPLNSState_iff window_ok_def)
  then show ?thesis
    using inv assms(3,4)
    by (auto simp: file_ok_def loadPPLNSState_def healthy_def uses_json_def failIf_def window_ok_def wf_window_def split: option.splits)
qed

theorem pplns_window_survives_restart_witness:
  "\<exists>w. window_reach sample_crypto sample_mar sample_unmar w \<and> pw_file w \<noteq> None \<and>
    loadPPLNSState sample_crypto sample_io (pw_file w) (ps_Network (pw_state w)) (ps_WindowShares (pw_state w))
      (ps_MaxAddresses (pw_state w)) = Inr (pw_state w)"
proof -
  have json: "json_ok sample_mar sample_unmar" by (auto simp: json_ok_def sample_mar_def sample_unmar_def split: if_splits)
  have io: "uses_json sample_mar sample_unmar sample_io" "healthy sample_io" by (simp_all add: uses_json_def healthy_def sample_io_def)
  have st: "ps_Network sample_state = RegTestMachineID" "ps_NextSequence sample_state = 1" "ps_Shares sample_state = []"
    "ps_WindowShares sample_state = 4" "ps_MaxAddresses sample_state = 2" by (simp_all add: sample_state_def)
  have "wf_window sample_crypto sample_state" by (simp add: wf_window_def sample_state_def pplnsStateSchemaVersion_def)
  then have "validatePPLNSState sample_crypto (slide sample_state sample_share) (ps_Network sample_state)
      (ps_WindowShares sample_state) (ps_MaxAddresses sample_state) = Inr ()"
    using slide_valid_iff [of sample_crypto sample_state sample_share] st sample_share_ok sample_slide by simp
  moreover have "validatePPLNSShare sample_crypto sample_share False = Inr ()"
    using share_ok_iff [of sample_crypto sample_share False RegTestMachineID] sample_share_ok by (simp add: sample_share_def)
  ultimately have "Accept sample_crypto sample_io sample_window sample_share =
      (sample_window\<lparr>pw_state := slide sample_state sample_share, pw_file := Some ([] @ [10])\<rparr>, Inr (sample_share\<lparr>sh_Sequence := 1\<rparr>))"
    using Accept_taken [of sample_crypto sample_share sample_window sample_io "[]"] st
    by (simp add: sample_window_def sample_io_def sample_mar_def maxPPLNSStateBytes_def)
  then have reach: "window_reach sample_crypto sample_mar sample_unmar
      (sample_window\<lparr>pw_state := slide sample_state sample_share, pw_file := Some ([] @ [10])\<rparr>)"
    using reach_step [OF sample_window_reach window_accept [OF io(1)]] by blast
  show ?thesis using pplns_window_survives_restart [OF reach json io] reach by (auto simp: sample_slide)
qed

end
