(* ===== verification/Miner.thy ===== *)
theory Miner
  imports ChainTheorems "HOL-Library.Sublist"
begin

text \<open>
  Block templates of \<^verbatim>\<open>core/miner.go\<close>: assembling the next block from the mempool around a
  caller-supplied coinbase. The builder is a function from height and reward to a coinbase (it
  may return nil); the state does not change while a template is assembled. The theorem shows
  that a template of a reachable chain is a block the chain's rules accept once a nonce meets the
  target, and that its coinbase claims exactly subsidy plus fees.
\<close>

section \<open>Operations\<close>

type_synonym CoinbaseBuilder = "int \<Rightarrow> int \<Rightarrow> Tx option"

definition ErrCoinbaseShapeChanged :: error where
  "ErrCoinbaseShapeChanged = Err ''coinbase shape changed while building template''"

definition encodedTemplateTxSize :: "nat \<Rightarrow> nat" where
  "encodedTemplateTxSize sz = length (put_uvarint sz) + sz"

definition coinbase_output :: "int \<Rightarrow> TxOut \<Rightarrow> int res" where
  "coinbase_output acc o' =
     failIf (out_Value o' \<le> 0 \<or> \<not> MoneyRange (out_Value o')) (Err ''coinbase output is out of range'')
     (case checkedAddMoney acc (out_Value o') of
        (s, ok) \<Rightarrow> if ok then Inr s else Inl (Err ''coinbase output total is out of range''))"

definition validateTemplateCoinbase :: "Tx option \<Rightarrow> int \<Rightarrow> int \<Rightarrow> unit res" where
  "validateTemplateCoinbase coinbase height reward =
     (case coinbase of
        None \<Rightarrow> Inl (Err ''coinbase builder returned a non-coinbase transaction'')
      | Some cb \<Rightarrow>
          failIf (\<not> IsCoinbase cb) (Err ''coinbase builder returned a non-coinbase transaction'')
          (failIf (reward \<le> 0 \<or> \<not> MoneyRange reward) (Err ''coinbase reward is out of range'')
          (failIf (length (tx_Ins cb) \<noteq> 1 \<or> in_PubKey (tx_Ins cb ! 0) \<noteq> put_uvarint (u64_of height) \<or>
                   in_Sig (tx_Ins cb ! 0) \<noteq> [])
            (Err ''coinbase does not commit to the requested height'')
          (failIf (tx_Outs cb = [] \<or> length (tx_LockTag cb) > 256)
            (Err ''coinbase output or tag shape is invalid'')
          (bindE (foldE coinbase_output 0 (tx_Outs cb)) (\<lambda>s.
           failIf (s \<noteq> reward) (Err ''coinbase outputs do not exactly equal the requested reward'')
           (Inr ())))))))"

definition feeOf :: "crypto \<Rightarrow> Chain \<Rightarrow> Tx \<Rightarrow> int \<Rightarrow> int res" where
  "feeOf K c tx height = checkTxLocked K (ch_params c) (ch_utxo c) tx height"

text \<open>The selection loop: the transactions after the coinbase, the encoded size of all of them with
  the coinbase, and the fees.\<close>

fun template_loop ::
  "crypto \<Rightarrow> Chain \<Rightarrow> int \<Rightarrow> int \<Rightarrow> Tx list \<Rightarrow> Tx list \<times> nat \<times> int \<Rightarrow> Tx list \<times> nat \<times> int"
where
  "template_loop K c height subsidy [] st = st"
| "template_loop K c height subsidy (tx # rest) (sel, encodedTxBytes, fees) =
     (let b = tx_Bytes tx;
          nextEncodedTxBytes = encodedTxBytes + encodedTemplateTxSize (length b);
          nextSize = 88 + length (put_uvarint (Suc (length sel) + 1)) + nextEncodedTxBytes
      in if nextSize > MaxBlockBytes then (sel, encodedTxBytes, fees)
         else
           case feeOf K c tx height of
             Inl _ \<Rightarrow> template_loop K c height subsidy rest (sel, encodedTxBytes, fees)
           | Inr fee \<Rightarrow>
               (case checkedAddMoney fees fee of (nextFees, ok) \<Rightarrow>
                  if \<not> ok \<or> \<not> snd (checkedAddMoney subsidy nextFees)
                  then template_loop K c height subsidy rest (sel, encodedTxBytes, fees)
                  else template_loop K c height subsidy rest (sel @ [tx], nextEncodedTxBytes, nextFees)))"

definition BuildBlockTemplateWithCoinbase ::
  "crypto \<Rightarrow> Chain option \<Rightarrow> int \<Rightarrow> CoinbaseBuilder option \<Rightarrow> Block res"
where
  "BuildBlockTemplateWithCoinbase K pc now pbuild =
     (case pc of None \<Rightarrow> Inl (Err ''nil chain'')
      | Some c \<Rightarrow>
     (case pbuild of None \<Rightarrow> Inl (Err ''nil coinbase builder'')
      | Some build \<Rightarrow>
      case Tip c of (tipID, tipH) \<Rightarrow>
      let height = tipH + 1; subsidy = SubsidyAt height; preliminary = build height subsidy in
      bindE (validateTemplateCoinbase preliminary height subsidy) (\<lambda>_.
      bindE (deref preliminary) (\<lambda>pre.
      let preliminaryBytes = tx_Bytes pre in
      case template_loop K c height subsidy (MempoolTxs K c)
             ([], encodedTemplateTxSize (length preliminaryBytes), 0) of
        (sel, _, fees) \<Rightarrow>
          (case checkedAddMoney subsidy fees of (reward, ok) \<Rightarrow>
           failIf (\<not> ok) (Err ''template reward is out of range'')
           (let coinbase = build height reward in
            bindE (validateTemplateCoinbase coinbase height reward) (\<lambda>_.
            bindE (deref coinbase) (\<lambda>cb.
            failIf (length (tx_Bytes cb) \<noteq> length preliminaryBytes) ErrCoinbaseShapeChanged
            (bindE (NextBitsForTip c) (\<lambda>bits.
             let txs = map Some (cb # sel);
                 hdr = \<lparr>hdr_Version = 1, hdr_PrevBlock = tipID, hdr_MerkleRoot = 0, hdr_Time = now,
                        hdr_Bits = bits, hdr_Nonce = 0\<rparr>
             in bindE (MerkleRoot K txs) (\<lambda>root.
                let blk = \<lparr>blk_Header = hdr\<lparr>hdr_MerkleRoot := root\<rparr>, blk_Txs = txs\<rparr> in
                bindE (blk_Bytes blk) (\<lambda>raw.
                failIf (length raw > MaxBlockBytes) (Err ''template exceeds maximum block size'')
                (Inr blk)))))))))))))"

text \<open>\<^verbatim>\<open>BuildBlockTemplate\<close> returns nil on error.\<close>

definition BuildBlockTemplate :: "crypto \<Rightarrow> Chain option \<Rightarrow> int \<Rightarrow> PKH \<Rightarrow> string \<Rightarrow> Block option" where
  "BuildBlockTemplate K pc now rewardPKH tag =
     (case BuildBlockTemplateWithCoinbase K pc now (Some (\<lambda>height reward. Some (NewCoinbase height reward rewardPKH tag))) of
        Inl _ \<Rightarrow> None | Inr blk \<Rightarrow> Some blk)"

section \<open>The coinbase\<close>

lemma coinbase_output_Inr_iff:
  "coinbase_output acc o' = Inr s \<longleftrightarrow>
     0 < out_Value o' \<and> MoneyRange acc \<and> MoneyRange (out_Value o') \<and> MoneyRange s \<and> s = acc + out_Value o'"
  by (auto simp: coinbase_output_def failIf_Inr_iff checkedAddMoney_eq)

lemma foldE_coinbase_output:
  "foldE coinbase_output acc outs = Inr s \<longleftrightarrow> foldE (add_output ms) acc outs = Inr s"
  by (induction outs arbitrary: acc) (auto simp: bindE_Inr_iff coinbase_output_Inr_iff add_output_Inr_iff)

lemma validateTemplateCoinbase_Inr:
  assumes "validateTemplateCoinbase pcb height reward = Inr ()"
  obtains cb where "pcb = Some cb" and "IsCoinbase cb" and "sane_tx cb" and "outs_total (tx_Outs cb) = reward"
    and "in_PubKey (tx_Ins cb ! 0) = put_uvarint (u64_of height)"
proof -
  obtain cb where cb: "pcb = Some cb" "IsCoinbase cb" "length (tx_Ins cb) = 1" "tx_Outs cb \<noteq> []"
    "foldE coinbase_output 0 (tx_Outs cb) = Inr reward" "in_PubKey (tx_Ins cb ! 0) = put_uvarint (u64_of height)"
    using assms by (auto simp: validateTemplateCoinbase_def failIf_Inr_iff bindE_Inr_iff split: option.splits)
  then have "sum_outputs ([], [], [], []) (tx_Outs cb) = Inr reward"
    by (simp add: sum_outputs_def foldE_coinbase_output [symmetric])
  then have "good_outs (tx_Outs cb)" "outs_total (tx_Outs cb) = reward" by (auto simp: sum_outputs_Inr_iff)
  moreover have "tx_Ins cb \<noteq> []" using cb(3) by auto
  ultimately show ?thesis using that cb by (simp add: sane_tx_def)
qed

section \<open>Selection\<close>

definition fee_in :: "utxo_map \<Rightarrow> Tx \<Rightarrow> int" where
  "fee_in u tx = ins_total u (tx_Ins tx) - outs_total (tx_Outs tx)"

lemma template_loop_selects:
  assumes "template_loop K c height subsidy pool (sel, enc, fees) = (sel', enc', fees')" and "MoneyRange subsidy"
    and "MoneyRange (subsidy + fees)" and "MoneyRange fees"
  shows "\<exists>new. sel' = sel @ new \<and> subseq new pool \<and>
    (\<forall>tx\<in>set new. valid_spend K (ch_params c) (ch_utxo c) tx height (fee_in (ch_utxo c) tx)) \<and>
    fees' = fees + (\<Sum>tx\<leftarrow>new. fee_in (ch_utxo c) tx) \<and> MoneyRange fees' \<and> MoneyRange (subsidy + fees')"
  using assms
proof (induction pool arbitrary: sel enc fees)
  case Nil
  then show ?case by (auto intro: exI [of _ "[]"])
next
  case (Cons tx pool)
  let ?skip = "template_loop K c height subsidy pool (sel, enc, fees)"
  show ?case
  proof (cases "template_loop K c height subsidy (tx # pool) (sel, enc, fees) = (sel, enc, fees)")
    case True
    then show ?thesis using Cons.prems by (auto intro!: exI [of _ "[]"])
  next
    case moved: False
    show ?thesis
    proof (cases "?skip = (sel', enc', fees')")
      case True
      then show ?thesis using Cons.IH [OF True] Cons.prems by (auto intro: subseq_Cons')
    next
      case False
      then obtain fee where fee: "feeOf K c tx height = Inr fee" "MoneyRange fee" "MoneyRange (fees + fee)"
        "MoneyRange (subsidy + (fees + fee))"
        and next': "template_loop K c height subsidy pool
          (sel @ [tx], enc + encodedTemplateTxSize (length (tx_Bytes tx)), fees + fee) = (sel', enc', fees')"
        using Cons.prems moved
        by (auto simp: Let_def checkedAddMoney_eq split: sum.splits if_splits prod.splits)
      have valid: "valid_spend K (ch_params c) (ch_utxo c) tx height fee"
        using fee(1) by (simp add: feeOf_def checkTxLocked_iff)
      then have fee_eq: "fee_in (ch_utxo c) tx = fee" by (simp add: fee_in_def valid_spend_def)
      obtain new where "sel' = (sel @ [tx]) @ new" "subseq new pool"
        "\<forall>tx\<in>set new. valid_spend K (ch_params c) (ch_utxo c) tx height (fee_in (ch_utxo c) tx)"
        "fees' = fees + fee + (\<Sum>tx\<leftarrow>new. fee_in (ch_utxo c) tx)" "MoneyRange fees'" "MoneyRange (subsidy + fees')"
        using Cons.IH [OF next'] Cons.prems(2) fee by (auto simp: add.assoc)
      then show ?thesis using valid fee_eq by (intro exI [of _ "tx # new"]) (auto simp: add.assoc)
    qed
  qed
qed


section \<open>Applying the selection\<close>

text \<open>Transactions valid on their own and free of conflicts apply one after the other, provided their
  ids do not collide with each other or with the transactions of existing outputs.\<close>

lemma authorised_frame:
  assumes "u' (in_Prev i) = u (in_Prev i)"
  shows "authorised K p u' d h i \<longleftrightarrow> authorised K p u d h i"
  using assms by (auto simp: authorised_def entry_of_def dom_def)

lemma valid_spend_frame:
  assumes "valid_spend K p u tx h fee" and "\<And>i. i \<in> set (tx_Ins tx) \<Longrightarrow> u' (in_Prev i) = u (in_Prev i)"
  shows "valid_spend K p u' tx h fee"
proof -
  have "ins_total u' (tx_Ins tx) = ins_total u (tx_Ins tx)"
    unfolding ins_total_def using assms(2) by (intro arg_cong [of _ _ sum_list] map_cong) (simp_all add: entry_of_def)
  moreover have "\<forall>i\<in>set (tx_Ins tx). authorised K p u' (SigDigest K tx) h i"
  proof
    fix i
    assume i: "i \<in> set (tx_Ins tx)"
    then have "authorised K p u (SigDigest K tx) h i" using assms(1) by (simp add: valid_spend_def)
    then show "authorised K p u' (SigDigest K tx) h i" using authorised_frame [where u = u and u' = u', OF assms(2) [OF i]] by simp
  qed
  ultimately show ?thesis using assms(1) by (simp add: valid_spend_def)
qed

definition fresh_ids :: "crypto \<Rightarrow> utxo_map \<Rightarrow> Tx list \<Rightarrow> bool" where
  "fresh_ids K u txs \<longleftrightarrow> distinct (map (tx_ID K) txs) \<and> op_TxID ` dom u \<inter> tx_ID K ` set txs = {}"

lemma create_outputs_dom: "dom (create_outputs txid h cb i outs u) \<subseteq> dom u \<union> {op. op_TxID op = txid}"
proof
  fix op
  assume "op \<in> dom (create_outputs txid h cb i outs u)"
  then show "op \<in> dom u \<union> {op. op_TxID op = txid}"
    using create_outputs_other [of op txid h cb i outs u] by (cases "op_TxID op = txid") (simp_all add: dom_def)
qed

lemma disjoint_insert: "A \<subseteq> insert x B \<Longrightarrow> x \<notin> C \<Longrightarrow> B \<inter> C = {} \<Longrightarrow> A \<inter> C = {}"
  by blast

lemma selection_spends:
  assumes "\<forall>tx\<in>set txs. valid_spend K p u tx h (f tx)" and "distinct (spent_by txs)" and "fresh_ids K u txs"
  shows "\<exists>u'. spends K p h u txs (\<Sum>tx\<leftarrow>txs. f tx) u'"
  using assms
proof (induction txs arbitrary: u)
  case Nil
  then show ?case by auto
next
  case (Cons tx txs)
  let ?u = "spendAndCreate K u tx h False"
  have same: "?u (in_Prev i) = u (in_Prev i)" if i: "i \<in> set (tx_Ins t)" "t \<in> set txs" for i t
  proof -
    have "in_Prev i \<in> dom u" using Cons.prems(1) i by (auto simp: valid_spend_def authorised_def)
    then have "op_TxID (in_Prev i) \<in> op_TxID ` dom u" by (rule imageI)
    then have "op_TxID (in_Prev i) \<noteq> tx_ID K tx" using Cons.prems(3) unfolding fresh_ids_def by auto
    moreover have "in_Prev i \<notin> in_Prev ` set (tx_Ins tx)"
      using Cons.prems(2) i by (auto simp: spent_by_def dest!: equals0D [of _ "in_Prev i"])
    ultimately show ?thesis by (simp add: spendAndCreate_spend create_outputs_other delete_inputs_eq)
  qed
  have "\<forall>t\<in>set txs. valid_spend K p ?u t h (f t)"
    using Cons.prems(1) same by (auto intro: valid_spend_frame)
  moreover have "fresh_ids K ?u txs"
  proof -
    have "dom ?u \<subseteq> dom u \<union> {op. op_TxID op = tx_ID K tx}"
      using create_outputs_dom [of "tx_ID K tx" h False 0 "tx_Outs tx" "delete_inputs (tx_Ins tx) u"]
      by (auto simp: spendAndCreate_spend delete_inputs_eq split: if_splits)
    then have "op_TxID ` dom ?u \<subseteq> insert (tx_ID K tx) (op_TxID ` dom u)" by blast
    moreover have "distinct (map (tx_ID K) txs)" "tx_ID K tx \<notin> tx_ID K ` set txs" "op_TxID ` dom u \<inter> tx_ID K ` set txs = {}"
      using Cons.prems(3) by (auto simp: fresh_ids_def)
    ultimately show ?thesis unfolding fresh_ids_def using disjoint_insert by (intro conjI)
  qed
  ultimately obtain u' where "spends K p h ?u txs (\<Sum>t\<leftarrow>txs. f t) u'"
    using Cons.IH [of ?u] Cons.prems(2) by auto
  then show ?case using Cons.prems(1) by (auto intro!: exI [of _ u'] spends_Cons)
qed

lemma MempoolTxs_set: "set (MempoolTxs K c) = snd ` set (ch_mempool c)"
  by (simp add: MempoolTxs_def)

lemma subseq_spent_by: "subseq xs ys \<Longrightarrow> distinct (spent_by ys) \<Longrightarrow> distinct (spent_by xs)"
proof (induction rule: list_emb.induct)
  case (list_emb_Nil ys)
  then show ?case by simp
next
  case (list_emb_Cons xs ys y)
  then show ?case by simp
next
  case (list_emb_Cons2 x y xs ys)
  have "set (spent_by xs) \<subseteq> set (spent_by ys)"
    using list_emb_set [OF list_emb_Cons2.hyps(2)] by (auto simp: spent_by_def)
  then show ?case using list_emb_Cons2 by auto
qed

lemma mset_spent_by: "mset (spent_by xs) = (\<Sum>tx\<in>#mset xs. mset (map in_Prev (tx_Ins tx)))"
  by (induction xs) simp_all

lemma distinct_spent_by_mset: "mset xs = mset ys \<Longrightarrow> distinct (spent_by xs) \<longleftrightarrow> distinct (spent_by ys)"
proof -
  assume "mset xs = mset ys"
  then have "mset (spent_by xs) = mset (spent_by ys)"
    by (simp add: mset_spent_by)
  then show ?thesis by (rule mset_eq_imp_distinct_iff)
qed

lemma distinct_spent_MempoolTxs:
  assumes "distinct (spent_by (map snd (ch_mempool c)))"
  shows "distinct (spent_by (MempoolTxs K c))"
  using assms distinct_spent_by_mset [of "MempoolTxs K c" "map snd (ch_mempool c)"] by (simp add: MempoolTxs_def)


lemma template_txs:
  assumes "BuildBlockTemplateWithCoinbase K (Some c) now (Some build) = Inr blk"
  obtains cb sel enc fees where "blk_Txs blk = map Some (cb # sel)" and "IsCoinbase cb" and "sane_tx cb"
    and "template_loop K c (bi_height (ch_tip c) + 1) (SubsidyAt (bi_height (ch_tip c) + 1)) (MempoolTxs K c)
           ([], enc, 0) = (sel, snd (template_loop K c (bi_height (ch_tip c) + 1) (SubsidyAt (bi_height (ch_tip c) + 1)) (MempoolTxs K c)
           ([], enc, 0)))"
    and "fees = snd (snd (template_loop K c (bi_height (ch_tip c) + 1) (SubsidyAt (bi_height (ch_tip c) + 1)) (MempoolTxs K c)
           ([], enc, 0)))"
    and "outs_total (tx_Outs cb) = SubsidyAt (bi_height (ch_tip c) + 1) + fees"
    and "hdr_PrevBlock (blk_Header blk) = bi_id (ch_tip c)" and "hdr_Time (blk_Header blk) = now"
    and "NextBitsForTip c = Inr (hdr_Bits (blk_Header blk))"
    and "MerkleRoot K (blk_Txs blk) = Inr (hdr_MerkleRoot (blk_Header blk))"
    and "\<exists>raw. blk_Bytes blk = Inr raw \<and> length raw \<le> MaxBlockBytes"
proof -
  let ?h = "bi_height (ch_tip c) + 1"
  let ?s = "SubsidyAt ?h"
  obtain pre where pre: "validateTemplateCoinbase (build ?h ?s) ?h ?s = Inr ()" "build ?h ?s = Some pre"
    using assms by (auto simp: BuildBlockTemplateWithCoinbase_def Tip_def Let_def bindE_Inr_iff deref_Inr_iff)
  let ?loop = "template_loop K c ?h ?s (MempoolTxs K c) ([], encodedTemplateTxSize (length (tx_Bytes pre)), 0)"
  obtain sel enc fees where loop: "?loop = (sel, enc, fees)" by (cases ?loop) auto
  obtain reward ok where r: "checkedAddMoney ?s fees = (reward, ok)" by fastforce
  have run: "failIf (\<not> ok) (Err ''template reward is out of range'')
      (bindE (validateTemplateCoinbase (build ?h reward) ?h reward) (\<lambda>_.
       bindE (deref (build ?h reward)) (\<lambda>cb.
       failIf (length (tx_Bytes cb) \<noteq> length (tx_Bytes pre)) ErrCoinbaseShapeChanged
       (bindE (NextBitsForTip c) (\<lambda>bits.
        bindE (MerkleRoot K (map Some (cb # sel))) (\<lambda>root.
        let blk = \<lparr>blk_Header = \<lparr>hdr_Version = 1, hdr_PrevBlock = bi_id (ch_tip c), hdr_MerkleRoot = root, hdr_Time = now,
                        hdr_Bits = bits, hdr_Nonce = 0\<rparr>, blk_Txs = map Some (cb # sel)\<rparr> in
        bindE (blk_Bytes blk) (\<lambda>raw.
        failIf (length raw > MaxBlockBytes) (Err ''template exceeds maximum block size'') (Inr blk)))))))) = Inr blk"
    using assms pre loop r by (simp add: BuildBlockTemplateWithCoinbase_def Tip_def Let_def)
  then have ok: ok and val: "validateTemplateCoinbase (build ?h reward) ?h reward = Inr ()"
    by (auto simp: failIf_Inr_iff bindE_Inr_iff)
  obtain cb where cb: "build ?h reward = Some cb" "IsCoinbase cb" "sane_tx cb" "outs_total (tx_Outs cb) = reward"
    using validateTemplateCoinbase_Inr [OF val] by metis
  have reward: "reward = ?s + fees" using r ok by (auto simp: checkedAddMoney_eq split: if_splits)
  show ?thesis
    by (rule that [of cb sel "encodedTemplateTxSize (length (tx_Bytes pre))" fees])
      (use run cb loop reward in \<open>auto simp: failIf_Inr_iff bindE_Inr_iff Let_def\<close>)
qed

lemma template_valid:
  assumes "chain_reach K p stored c" and "BuildBlockTemplateWithCoinbase K (Some c) now (Some build) = Inr blk"
    and "blk_Txs blk = map Some txs" and "fresh_ids K (ch_utxo c) txs"
  shows "sane_txs K txs \<and> (\<exists>u'. connects K p (bi_height (ch_tip c) + 1) (ch_utxo c) txs u') \<and>
    outs_total (tx_Outs (List.hd txs)) = SubsidyAt (bi_height (ch_tip c) + 1) + (\<Sum>tx\<leftarrow>tl txs. fee_in (ch_utxo c) tx) \<and>
    subseq (tl txs) (MempoolTxs K c) \<and> hdr_PrevBlock (blk_Header blk) = bi_id (ch_tip c) \<and>
    NextBitsForTip c = Inr (hdr_Bits (blk_Header blk)) \<and>
    MerkleRoot K (blk_Txs blk) = Inr (hdr_MerkleRoot (blk_Header blk)) \<and>
    (\<exists>raw. blk_Bytes blk = Inr raw \<and> length raw \<le> MaxBlockBytes)"
proof -
  have inv: "chain_inv K c" using assms(1) reach_chain_inv by blast
  have p: "ch_params c = p" using assms(1) reach_params by blast
  let ?h = "bi_height (ch_tip c) + 1"
  let ?s = "SubsidyAt ?h"
  obtain cb sel enc fees where t: "blk_Txs blk = map Some (cb # sel)" "IsCoinbase cb" "sane_tx cb"
    "template_loop K c ?h ?s (MempoolTxs K c) ([], enc, 0) = (sel, snd (template_loop K c ?h ?s (MempoolTxs K c) ([], enc, 0)))"
    "fees = snd (snd (template_loop K c ?h ?s (MempoolTxs K c) ([], enc, 0)))"
    "outs_total (tx_Outs cb) = ?s + fees" "hdr_PrevBlock (blk_Header blk) = bi_id (ch_tip c)"
    "NextBitsForTip c = Inr (hdr_Bits (blk_Header blk))" "MerkleRoot K (blk_Txs blk) = Inr (hdr_MerkleRoot (blk_Header blk))"
    "\<exists>raw. blk_Bytes blk = Inr raw \<and> length raw \<le> MaxBlockBytes"
    using template_txs [OF assms(2)] by metis
  have "map Some txs = map Some (cb # sel)" using assms(3) t(1) by simp
  then have txs: "txs = cb # sel" by (simp only: inj_map_eq_map [OF inj_Some])
  have range: "MoneyRange ?s" by (rule SubsidyAt_MoneyRange)
  have sel: "subseq sel (MempoolTxs K c)" "\<forall>tx\<in>set sel. valid_spend K p (ch_utxo c) tx ?h (fee_in (ch_utxo c) tx)"
    "fees = (\<Sum>tx\<leftarrow>sel. fee_in (ch_utxo c) tx)" "MoneyRange fees" "MoneyRange (?s + fees)"
    using template_loop_selects [of K c ?h ?s "MempoolTxs K c" "[]" enc 0 sel] t(4,5) range p
    by (metis add_0 append_Nil MoneyRange_0 add.right_neutral prod.collapse)+
  have pool: "mempool_inv K p (ch_utxo c) ?h (ch_mempool c)" using inv p by (simp add: chain_inv_def)
  have spent: "distinct (spent_by sel)"
    using subseq_spent_by [OF sel(1)] distinct_spent_MempoolTxs pool by (auto simp: mempool_inv_def)
  have notcb: "\<forall>tx\<in>set sel. \<not> IsCoinbase tx"
    using list_emb_set [OF sel(1)] MempoolTxs_set [of K c] pool by (fastforce simp: mempool_inv_def)
  have fresh: "fresh_ids K (ch_utxo c) sel" "distinct (map (tx_ID K) txs)" using assms(4) txs by (auto simp: fresh_ids_def)
  obtain u' where "spends K p ?h (ch_utxo c) sel fees u'" using selection_spends [OF sel(2) spent fresh(1)] sel(3) by auto
  then have "connects K p ?h (ch_utxo c) txs (spendAndCreate K u' cb ?h True)"
    using t(3,6) sel(4,5) txs by (auto simp: connects_def sane_tx_def MoneyRange_def)
  moreover have "sane_txs K txs"
    using t(2,3) notcb sel(2) spent fresh(2) txs by (auto simp: sane_txs_def sane_tx_def valid_spend_def)
  ultimately show ?thesis using t txs sel by auto
qed

section \<open>Properties\<close>


definition sample_build :: CoinbaseBuilder where
  "sample_build height reward = Some (NewCoinbase height reward 7 ''m'')"

lemma length_coinbase:
  "0 \<le> height \<Longrightarrow> height < 128 \<Longrightarrow> length tag < 128 \<Longrightarrow> length (tx_Bytes (NewCoinbase height v pkh tag)) = 74 + length tag"
  by (simp add: NewCoinbase_def tx_Bytes_def serialize_def enc_TxIn_def enc_TxOut_def writeBytes_def
      put_uvarint_small u64_of_def string_bytes_def)

lemma tx_ID_sample: "length (tx_Bytes t) \<noteq> 32 \<Longrightarrow> length (tx_Bytes t) \<noteq> 88 \<Longrightarrow> tx_ID sample_crypto t = of_nat (length (tx_Bytes t))"
  by (simp add: tx_ID_def SHA256d_def sample_crypto_def)

lemma sample_build_valid:
  assumes "reward = 5000000000"
  shows "validateTemplateCoinbase (sample_build 1 reward) 1 reward = Inr ()"
  using assms
  by (simp add: validateTemplateCoinbase_def sample_build_def NewCoinbase_def IsCoinbase_def coinbase_output_def
      checkedAddMoney_eq MoneyRange_simps string_bytes_def)

lemma sample_facts:
  assumes "chain_init sample_crypto canonicalRegTestParams c"
  shows "Tip c = (0, 0) \<and> MempoolTxs sample_crypto c = [] \<and> NextBitsForTip c = Inr 0x207fffff"
proof -
  let ?g = "genesis_index sample_crypto canonicalRegTestParams"
  have tip: "Tip c = (0, 0)"
    using index_sample(3) [OF assms] by (simp add: Tip_def hdr_ID_sample GenesisBlock_def Let_def canonicalRegTestParams_def)
  have pool: "MempoolTxs sample_crypto c = []"
    using assms by (auto simp: chain_init_def NewChain_def MempoolTxs_def bindE_Inr_iff failIf_Inr_iff Let_def)
  have inv: "chain_inv sample_crypto c" using chain_machine.init_inv [OF assms] by simp
  have br: "branch sample_crypto canonicalRegTestParams (ch_index c) (ch_tip c) [?g]" using branch_root index_sample(3) [OF assms] by simp
  have "nextBitsAtLocked c (bi_height (ch_tip c) + 1) = required_bits canonicalRegTestParams [?g]"
    using nextBits_tip [OF inv, of "[?g]"] br index_sample [OF assms] chain_invD [OF inv] branch_unique by metis
  then have "NextBitsForTip c = Inr 0x207fffff"
    using sample_child_rules by (simp add: NextBitsForTip_def block_rules_def sample_child_def)
  then show ?thesis using tip pool by blast
qed

lemma sample_template:
  assumes "chain_init sample_crypto canonicalRegTestParams c"
  shows "\<exists>blk. BuildBlockTemplateWithCoinbase sample_crypto (Some c) now (Some sample_build) = Inr blk \<and>
    blk_Txs blk = [Some (NewCoinbase 1 5000000000 7 ''m'')]"
proof -
  have "length (tx_Bytes (NewCoinbase 1 5000000000 7 ''m'')) = 75" by (simp add: length_coinbase)
  then show ?thesis
    using sample_facts [OF assms] sample_build_valid [of 5000000000]
    by (simp add: BuildBlockTemplateWithCoinbase_def Let_def SubsidyAt_1 sample_build_def checkedAddMoney_eq
        MoneyRange_simps MerkleRoot_def blk_Bytes_def writeBytes_def put_uvarint_small MaxBlockBytes_def)
qed

lemma sample_fresh:
  assumes "chain_init sample_crypto canonicalRegTestParams c"
  shows "fresh_ids sample_crypto (ch_utxo c) [NewCoinbase 1 5000000000 7 ''m'']"
proof -
  let ?cb = "NewCoinbase 1 5000000000 7 ''m''" and ?g = "NewCoinbase 0 (SubsidyAt 0) 0 (GenesisHeadline canonicalRegTestParams)"
  have "ch_utxo c = spendAndCreate sample_crypto Map.empty ?g 0 True"
    using assms by (auto simp: chain_init_def NewChain_def bindE_Inr_iff failIf_Inr_iff Let_def genesis_utxo)
  then have "dom (ch_utxo c) \<subseteq> {op. op_TxID op = tx_ID sample_crypto ?g}"
    using create_outputs_dom [of "tx_ID sample_crypto ?g" 0 True 0 "tx_Outs ?g" Map.empty] by (simp add: spendAndCreate_spend)
  moreover have "length (tx_Bytes ?g) = 89" by (simp add: length_coinbase canonicalRegTestParams_def)
  moreover have "length (tx_Bytes ?cb) = 75" by (simp add: length_coinbase)
  ultimately show ?thesis by (auto simp: fresh_ids_def tx_ID_sample)
qed


end
