(* ===== verification/PoolWork.thy ===== *)
theory PoolWork
  imports PplnsWindow Miner
begin

text \<open>
  The work items of the pool protocol and what a miner checks before working on one:
  \<^verbatim>\<open>pool/work.go\<close> (remote-solo work and the nonce search) and \<^verbatim>\<open>pool/pplns_work.go\<close> (PPLNS work with
  its coinbase proof), with the weights of \<^verbatim>\<open>pool/pplns_coordinator.go\<close>. \<open>mj\<close> is the standard library's
  JSON text of a snapshot. Progress reports (floating point, tickers) are not modelled; of the
  concurrent search, each worker's loop is, with the cancelled context as a parameter.
\<close>

section \<open>Remote-solo work\<close>

record Work =
  wk_SchemaVersion :: int
  wk_Network :: string
  wk_JobID :: string
  wk_Height :: int
  wk_HeaderHex :: string
  wk_TargetHex :: string
  wk_ExpiresAt :: instant
  wk_ArgonMemKiB :: uint32
  wk_ArgonTime :: uint32

definition hex_bytes :: "nat \<Rightarrow> string \<Rightarrow> byte list option" where
  "hex_bytes len value = (case hex_DecodeString value of Inl _ \<Rightarrow> None | Inr raw \<Rightarrow> if length raw = len then Some raw else None)"

definition ParseWork :: "Work \<Rightarrow> Params option \<Rightarrow> (Header \<times> int) res" where
  "ParseWork work params =
     (case params of None \<Rightarrow> Inl (Err ''nil network params'')
      | Some p \<Rightarrow>
          failIf (CanonicalNetworkID (Some p) \<noteq> Inr (wk_Network work)) (Err ''work network mismatch'')
          (failIf (wk_SchemaVersion work \<noteq> 1 \<or> wk_Height work \<le> 0) (Err ''unsupported work schema'')
          (failIf (hex_bytes 16 (wk_JobID work) = None) (Err ''invalid job id'')
          (case hex_bytes 88 (wk_HeaderHex work) of None \<Rightarrow> Inl (Err ''invalid work header'')
           | Some raw \<Rightarrow>
               let header = header_of_bytes raw in
               failIf (hdr_Nonce header \<noteq> 0) (Err ''work header nonce must be zero'')
               (failIf (wk_ArgonMemKiB work \<noteq> ArgonMemKiB p \<or> wk_ArgonTime work \<noteq> ArgonTime p)
                 (Err ''work proof-of-work parameters mismatch'')
               (case hex_bytes 32 (wk_TargetHex work) of None \<Rightarrow> Inl (Err ''invalid work target'')
                | Some targetBytes \<Rightarrow>
                    let target = int (be_nat targetBytes) in
                    failIf (target \<le> 0 \<or> target \<noteq> CompactToTarget (hdr_Bits header) \<or> target > MaxTarget p)
                      (Err ''work target mismatch'')
                    (Inr (header, target))))))))"

text \<open>One worker of the search: nonces \<open>start\<close>, \<open>start + step\<close>, ... up to the largest 64-bit value.
  \<open>stopped\<close> tells whether the context is cancelled when the worker is about to try a nonce.\<close>

definition proof_value :: "crypto \<Rightarrow> Params \<Rightarrow> Header \<Rightarrow> nat \<Rightarrow> int" where
  "proof_value K p header nonce = HashToBig (PowHash K (hdr_Bytes (header\<lparr>hdr_Nonce := of_nat nonce\<rparr>)) p)"

function mine_worker :: "(nat \<Rightarrow> bool) \<Rightarrow> (nat \<Rightarrow> bool) \<Rightarrow> nat \<Rightarrow> nat \<Rightarrow> nat option" where
  "mine_worker stopped hit step nonce =
     (if stopped nonce then None
      else if hit nonce then Some nonce
      else if nonce > 2 ^ 64 - 1 - step \<or> step = 0 then None
      else mine_worker stopped hit step (nonce + step))"
  by pat_completeness auto

termination
  by (relation "measure (\<lambda>(stopped, hit, step, nonce). 2 ^ 64 - nonce)") auto

declare mine_worker.simps [simp del]

text \<open>The nonces the workers report; the code keeps the first one sent.\<close>

definition mine_found :: "crypto \<Rightarrow> (nat \<Rightarrow> nat \<Rightarrow> bool) \<Rightarrow> Params \<Rightarrow> Header \<Rightarrow> int \<Rightarrow> nat \<Rightarrow> nat list" where
  "mine_found K stopped p header target workers =
     List.map_filter (\<lambda>w. mine_worker (stopped w) (\<lambda>n. proof_value K p header n \<le> target) workers w) [0..<workers]"

section \<open>PPLNS work\<close>

record PPLNSPayoutWeight =
  pt_Address :: address
  pt_Shares :: int
  pt_WorkHex :: string

record PoolWork =
  po_SchemaVersion :: int
  po_Network :: string
  po_Mode :: string
  po_FeeBPS :: int
  po_JobID :: string
  po_Height :: int
  po_HeaderHex :: string
  po_NetworkTargetHex :: string
  po_ShareTargetHex :: string
  po_ExpiresAt :: instant
  po_ArgonMemKiB :: uint32
  po_ArgonTime :: uint32
  po_WindowShares :: int
  po_CurrentShares :: int
  po_PPLNSStateHash :: string
  po_Window :: PPLNSSnapshot
  po_PayoutBasis :: string
  po_PayoutWeights :: "PPLNSPayoutWeight list"
  po_CoinbaseHex :: string
  po_CoinbaseMerkleBranch :: "string list"

definition pplnsSnapshotHash :: "crypto \<Rightarrow> (PPLNSSnapshot \<Rightarrow> byte list res) \<Rightarrow> PPLNSSnapshot \<Rightarrow> string res" where
  "pplnsSnapshotHash K mj snapshot = bindE (mj snapshot) (\<lambda>encoded. Inr (hex_EncodeToString (hash_bytes (SHA256d K encoded))))"

definition payout_weight :: "weights \<Rightarrow> address \<times> int \<Rightarrow> PPLNSPayoutWeight" where
  "payout_weight works e = \<lparr>pt_Address = fst e, pt_Shares = snd e,
     pt_WorkHex = format_hex 68 (case map_of works (fst e) of None \<Rightarrow> 0 | Some w \<Rightarrow> w)\<rparr>"

definition pplnsWeights :: "PPLNSSnapshot \<Rightarrow> PPLNSPayoutWeight list res" where
  "pplnsWeights snapshot =
     (if \<exists>share\<in>set (ps_Shares snapshot). \<exists>e. parseCanonicalTarget (sh_ShareTarget share) = Inl e
      then Inl (Err ''PPLNS share target is invalid'')
      else
        let counts = fold (\<lambda>share. add_weight (sh_Address share) 1) (ps_Shares snapshot) [];
            works = work_by_address (ps_Shares snapshot)
        in Inr (sort_key pt_Address (map (payout_weight works) counts)))"

definition coinbase_reward :: "int \<Rightarrow> TxOut \<Rightarrow> int res" where
  "coinbase_reward reward output =
     failIf (out_Value output \<le> 0 \<or> \<not> MoneyRange (out_Value output) \<or> reward > wrap64 (MaxMoneyUnits - out_Value output))
       (Err ''pool coinbase reward is invalid'')
     (Inr (wrap64 (reward + out_Value output)))"

definition branch_hash :: "string \<Rightarrow> Hash32 res" where
  "branch_hash encoded =
     (case canonical_hex 32 encoded of None \<Rightarrow> Inl (Err ''pool coinbase merkle branch is invalid'') | Some raw \<Rightarrow> Inr (hash_of raw))"

type_synonym weight_scan = "weights \<times> int \<times> address"

definition scan_weight :: "crypto \<Rightarrow> weight_scan \<Rightarrow> PPLNSPayoutWeight \<Rightarrow> weight_scan res" where
  "scan_weight K st weight =
     (case st of (works, weightTotal, previousAddress) \<Rightarrow>
      failIf (payout_pkh K (pt_Address weight) = None \<or> pt_Address weight \<le> previousAddress \<or>
          pt_Shares weight < 1 \<or> pt_Shares weight > 4096 \<or> weightTotal > 4096 - pt_Shares weight)
        (Err ''pool payout weight is invalid'')
      (case parseCanonicalWork (pt_WorkHex weight) of Inl _ \<Rightarrow> Inl (Err ''pool payout work is invalid'')
       | Inr workValue \<Rightarrow> Inr (works @ [(pt_Address weight, workValue)], weightTotal + pt_Shares weight, pt_Address weight)))"

definition check_requester :: "crypto \<Rightarrow> PoolWork \<Rightarrow> Tx \<Rightarrow> int \<Rightarrow> int \<Rightarrow> unit res" where
  "check_requester K work coinbase reward weightTotal =
     failIf (po_CurrentShares work \<noteq> 0 \<or> ps_Shares (po_Window work) \<noteq> [] \<or> length (po_PayoutWeights work) \<noteq> 1 \<or>
         weightTotal \<noteq> 1 \<or> pt_WorkHex (po_PayoutWeights work ! 0) \<noteq> format_hex 68 1 \<or> length (tx_Outs coinbase) \<noteq> 1)
       (Err ''requester payout proof is invalid'')
     (failIf (payout_pkh K (pt_Address (po_PayoutWeights work ! 0)) \<noteq> Some (out_PubKeyHash (tx_Outs coinbase ! 0)) \<or>
         out_Value (tx_Outs coinbase ! 0) \<noteq> reward)
       (Err ''requester payout does not receive coinbase'')
     (Inr ()))"

definition check_window :: "crypto \<Rightarrow> PoolWork \<Rightarrow> Tx \<Rightarrow> int \<Rightarrow> int \<Rightarrow> weights \<Rightarrow> unit res" where
  "check_window K work coinbase reward weightTotal works =
     failIf (po_CurrentShares work < 1 \<or> weightTotal \<noteq> po_CurrentShares work)
       (Err ''PPLNS payout weights do not match window'')
     (failIf (pplnsWeights (po_Window work) \<noteq> Inr (po_PayoutWeights work))
       (Err ''PPLNS payout weights do not match committed shares'')
     (case pplnsOutputsFromWork K works reward of Inl _ \<Rightarrow> Inl (Err ''PPLNS coinbase allocation is invalid'')
      | Inr expected \<Rightarrow>
          failIf (length expected \<noteq> length (tx_Outs coinbase)) (Err ''PPLNS coinbase allocation is invalid'')
          (failIf (expected \<noteq> tx_Outs coinbase) (Err ''PPLNS coinbase does not match advertised weights'')
          (Inr ()))))"

definition validatePoolCoinbaseProof :: "crypto \<Rightarrow> PoolWork \<Rightarrow> Header \<Rightarrow> unit res" where
  "validatePoolCoinbaseProof K work header =
     (case hex_DecodeString (po_CoinbaseHex work) of Inl _ \<Rightarrow> Inl (Err ''invalid pool coinbase encoding'')
      | Inr coinbaseRaw \<Rightarrow>
     failIf (length coinbaseRaw = 0 \<or> length coinbaseRaw > 32 * 1024 \<or> hex_EncodeToString coinbaseRaw \<noteq> po_CoinbaseHex work)
       (Err ''invalid pool coinbase encoding'')
     (case DecodeTx coinbaseRaw of Inl _ \<Rightarrow> Inl (Err ''invalid pool coinbase transaction'')
      | Inr coinbase \<Rightarrow>
     failIf (tx_Bytes coinbase \<noteq> coinbaseRaw \<or> \<not> IsCoinbase coinbase \<or> length (tx_Ins coinbase) \<noteq> 1 \<or>
         in_Sig (tx_Ins coinbase ! 0) \<noteq> [])
       (Err ''invalid pool coinbase transaction'')
     (failIf (in_PubKey (tx_Ins coinbase ! 0) \<noteq> put_uvarint (u64_of (po_Height work))) (Err ''pool coinbase height mismatch'')
     (bindE (foldE coinbase_reward 0 (tx_Outs coinbase)) (\<lambda>reward.
      failIf (reward < SubsidyAt (po_Height work)) (Err ''pool coinbase omits block subsidy'')
      (let commitment = string_bytes ('':'' @ po_PPLNSStateHash work); tag = tx_LockTag coinbase in
       failIf (length tag \<le> length commitment \<or> length tag > 64 + length commitment \<or>
           drop (length tag - length commitment) tag \<noteq> commitment)
         (Err ''pool coinbase does not commit to PPLNS state'')
       (failIf (length (po_CoinbaseMerkleBranch work) > 64) (Err ''pool coinbase merkle branch is too long'')
       (bindE (mapE branch_hash (po_CoinbaseMerkleBranch work)) (\<lambda>branch.
        failIf (MerkleRootFromBranch K (tx_ID K coinbase) 0 branch \<noteq> Inr (hdr_MerkleRoot header))
          (Err ''pool coinbase is not committed by work header'')
        (failIf (po_PayoutWeights work = [] \<or> length (po_PayoutWeights work) > 256) (Err ''pool payout weights are invalid'')
        (bindE (foldE (scan_weight K) ([], 0, []) (po_PayoutWeights work)) (\<lambda>(works, weightTotal, _).
         if po_PayoutBasis work = ''requester'' then check_requester K work coinbase reward weightTotal
         else if po_PayoutBasis work = ''pplns_window'' then check_window K work coinbase reward weightTotal works
         else Inl (Err ''unknown pool payout basis'')))))))))))))"

definition ParsePoolWork ::
  "crypto \<Rightarrow> (PPLNSSnapshot \<Rightarrow> byte list res) \<Rightarrow> PoolWork \<Rightarrow> Params option \<Rightarrow> (Header \<times> int \<times> int) res"
where
  "ParsePoolWork K mj work params =
     (case params of None \<Rightarrow> Inl (Err ''nil network params'')
      | Some p \<Rightarrow>
     failIf (CanonicalNetworkID (Some p) \<noteq> Inr (po_Network work)) (Err ''work network mismatch'')
     (failIf (po_SchemaVersion work \<noteq> 2 \<or> po_Mode work \<noteq> ''pplns'' \<or> po_FeeBPS work \<noteq> 0 \<or> po_Height work \<le> 0)
       (Err ''unsupported pool work schema'')
     (failIf (po_WindowShares work < 1 \<or> po_WindowShares work > 4096 \<or> po_CurrentShares work < 0 \<or>
         po_CurrentShares work > po_WindowShares work) (Err ''invalid PPLNS window metadata'')
     (let window = po_Window work in
      failIf (ps_Network window \<noteq> po_Network work \<or> ps_WindowShares window \<noteq> po_WindowShares work \<or> ps_MaxAddresses window < 1 \<or>
          ps_MaxAddresses window > 256 \<or> ps_MaxAddresses window > po_WindowShares work \<or>
          int (length (ps_Shares window)) \<noteq> po_CurrentShares work)
        (Err ''PPLNS window does not match work metadata'')
      (failIf (validatePPLNSState K window (po_Network work) (po_WindowShares work) (ps_MaxAddresses window) \<noteq> Inr ())
        (Err ''invalid committed PPLNS window'')
      (failIf (canonical_hex 16 (po_JobID work) = None) (Err ''invalid job id'')
      (failIf (canonical_hex 32 (po_PPLNSStateHash work) = None) (Err ''invalid PPLNS state hash'')
      (failIf (pplnsSnapshotHash K mj window \<noteq> Inr (po_PPLNSStateHash work)) (Err ''committed PPLNS window hash mismatch'')
      (case canonical_hex 88 (po_HeaderHex work) of None \<Rightarrow> Inl (Err ''invalid work header'')
       | Some raw \<Rightarrow>
           let header = header_of_bytes raw in
           failIf (hdr_Nonce header \<noteq> 0) (Err ''work header nonce must be zero'')
           (failIf (po_ArgonMemKiB work \<noteq> ArgonMemKiB p \<or> po_ArgonTime work \<noteq> ArgonTime p)
             (Err ''work proof-of-work parameters mismatch'')
           (bindE (validatePoolCoinbaseProof K work header) (\<lambda>_.
           (case parseCanonicalTarget (po_NetworkTargetHex work) of Inl _ \<Rightarrow> Inl (Err ''invalid network target'')
            | Inr networkTarget \<Rightarrow>
                failIf (networkTarget \<noteq> CompactToTarget (hdr_Bits header) \<or> networkTarget > MaxTarget p)
                  (Err ''network target mismatch'')
                (case parseCanonicalTarget (po_ShareTargetHex work) of Inl _ \<Rightarrow> Inl (Err ''share target mismatch'')
                 | Inr shareTarget \<Rightarrow>
                     failIf (shareTarget < networkTarget \<or> shareTarget > MaxTarget p) (Err ''share target mismatch'')
                     (Inr (header, networkTarget, shareTarget))))))))))))))))"

end
