(* ===== verification/PoolWorkTheorems.thy ===== *)
theory PoolWorkTheorems
  imports PoolWork
begin

text \<open>
  The nonce search is exhaustive, and a miner that accepts a PPLNS work item knows that the block pays
  the committed share window exactly what the payout rule gives.
\<close>

section \<open>The search\<close>

lemma mine_worker_Some:
  "mine_worker stopped hit step start = Some n \<Longrightarrow> start < 2 ^ 64 \<Longrightarrow> step < 2 ^ 64 \<Longrightarrow> hit n \<and> n < 2 ^ 64 \<and> (\<exists>k. n = start + k * step)"
proof (induction stopped hit step start rule: mine_worker.induct)
  case (1 stopped hit step start)
  show ?case
  proof (cases "stopped start \<or> hit start \<or> start > 2 ^ 64 - 1 - step \<or> step = 0")
    case True
    then show ?thesis
      using "1.prems" by (subst (asm) mine_worker.simps) (auto split: if_splits intro: exI [of _ 0])
  next
    case False
    then have "mine_worker stopped hit step (start + step) = Some n"
      using "1.prems"(1) by (subst (asm) mine_worker.simps) simp
    moreover have "start + step < 2 ^ 64" using False "1.prems"(3) by auto
    ultimately obtain k where "hit n" "n < 2 ^ 64" "n = start + step + k * step"
      using "1.IH" False "1.prems"(3) by blast
    then show ?thesis by (intro conjI exI [of _ "Suc k"]) simp_all
  qed
qed

lemma mine_worker_None:
  "mine_worker stopped hit step start = None \<Longrightarrow> \<forall>n. \<not> stopped n \<Longrightarrow> 0 < step \<Longrightarrow> start + k * step < 2 ^ 64 \<Longrightarrow> \<not> hit (start + k * step)"
proof (induction stopped hit step start arbitrary: k rule: mine_worker.induct)
  case (1 stopped hit step start)
  have no: "\<not> hit start" using "1.prems"(1,2) by (subst (asm) mine_worker.simps) (auto split: if_splits)
  show ?case
  proof (cases k)
    case 0
    then show ?thesis using no by simp
  next
    case (Suc k')
    then have "start + step < 2 ^ 64" using "1.prems"(4) by auto
    then have le: "\<not> (start > 2 ^ 64 - 1 - step \<or> step = 0)" using "1.prems"(3) by auto
    then have "mine_worker stopped hit step (start + step) = None"
      using "1.prems"(1,2) no by (subst (asm) mine_worker.simps) simp
    moreover have "\<not> stopped start" "start + step + k' * step < 2 ^ 64" using "1.prems"(2,4) Suc by (auto simp: add.assoc)
    ultimately have "\<not> hit ((start + step) + k' * step)" using "1.IH" "1.prems"(2,3) no le by blast
    then show ?thesis using Suc by (simp add: add.assoc)
  qed
qed

section \<open>Numbers in hexadecimal\<close>

definition hex_value :: "string \<Rightarrow> nat" where
  "hex_value s = foldl (\<lambda>a c. 16 * a + (case from_hex c of None \<Rightarrow> 0 | Some d \<Rightarrow> d)) 0 s"

lemma hex_value_snoc: "n < 16 \<Longrightarrow> hex_value (s @ [hex_char n]) = 16 * hex_value s + n"
  by (simp add: hex_value_def from_hex_char)

lemma hex_value_nat [simp]: "hex_value (hex_nat n) = n"
proof (induction n rule: hex_nat.induct)
  case (1 n)
  show ?case
  proof (cases "n < 16")
    case True
    then show ?thesis using hex_value_snoc [of n "[]"] by (simp add: hex_nat.simps hex_value_def)
  next
    case False
    then have "hex_value (hex_nat n) = 16 * hex_value (hex_nat (n div 16)) + n mod 16"
      using hex_value_snoc [of "n mod 16" "hex_nat (n div 16)"] by (simp add: hex_nat.simps [of n])
    then show ?thesis using 1 False by simp
  qed
qed

lemma hex_value_zeros [simp]: "hex_value (replicate k (CHR ''0'') @ s) = hex_value s"
proof -
  have "from_hex (CHR ''0'') = Some 0" by (simp add: from_hex_def)
  then have "foldl (\<lambda>a c. 16 * a + (case from_hex c of None \<Rightarrow> 0 | Some d \<Rightarrow> d)) 0 (replicate k (CHR ''0'')) = (0 :: nat)"
    by (induction k) simp_all
  then show ?thesis by (simp add: hex_value_def)
qed

lemma hex_value_format [simp]: "hex_value (format_hex w v) = nat v"
  by (simp add: format_hex_def Let_def)

lemma hex_value_Encode [simp]: "hex_value (hex_EncodeToString bs) = be_nat bs"
proof (induction bs rule: rev_induct)
  case Nil
  then show ?case by (simp add: hex_value_def hex_EncodeToString_def be_nat_def)
next
  case (snoc b bs)
  have "unat b div 16 < 16" using unat_byte_lt [of b] by simp
  then have "hex_value (hex_EncodeToString (bs @ [b])) = 16 * (16 * hex_value (hex_EncodeToString bs) + unat b div 16) + unat b mod 16"
    using hex_value_snoc [of "unat b mod 16" "hex_EncodeToString bs @ [hex_char (unat b div 16)]"]
      hex_value_snoc [of "unat b div 16" "hex_EncodeToString bs"] by (simp add: hex_EncodeToString_def)
  also have "\<dots> = unat b + 256 * be_nat bs" using snoc by simp
  finally show ?case by (simp add: be_nat_def)
qed

lemma parse_format_work: "parseCanonicalWork (format_hex w v) = Inr x \<Longrightarrow> x = v \<or> v < 0"
proof -
  assume "parseCanonicalWork (format_hex w v) = Inr x"
  then obtain raw where "format_hex w v = hex_EncodeToString raw" "x = int (be_nat raw)" "0 < x"
    by (auto simp: parseCanonicalWork_def canonical_hex_iff Let_def failIf_Inr_iff split: option.splits)
  then have "x = int (nat v)" using hex_value_format [of w v] hex_value_Encode [of raw] by metis
  then show ?thesis by auto
qed

section \<open>The weights of a window\<close>

lemma fst_add_weight: "map fst (add_weight a v ws) = (if a \<in> set (map fst ws) then map fst ws else map fst ws @ [a])"
  by (induction a v ws rule: add_weight.induct) (auto simp: image_iff split: if_splits)

lemma map_of_add_weight:
  "map_of (add_weight a v ws) x = (if x = a then Some (v + (case map_of ws a of None \<Rightarrow> 0 | Some u \<Rightarrow> u)) else map_of ws x)"
  by (induction ws) auto

lemma distinct_add_weight: "distinct (map fst ws) \<Longrightarrow> distinct (map fst (add_weight a v ws))"
  unfolding fst_add_weight by auto

lemma weights_keys:
  "map fst ws = map fst ws' \<Longrightarrow>
     map fst (fold (\<lambda>s. add_weight (sh_Address s) (f s)) shares ws) = map fst (fold (\<lambda>s. add_weight (sh_Address s) (g s)) shares ws')"
proof (induction shares arbitrary: ws ws')
  case Nil
  then show ?case by simp
next
  case (Cons s shares)
  have "map fst (add_weight (sh_Address s) (f s) ws) = map fst (add_weight (sh_Address s) (g s) ws')"
    using Cons.prems by (simp add: fst_add_weight)
  then show ?case using Cons.IH by simp
qed

lemma work_distinct: "distinct (map fst (work_by_address shares))"
proof -
  have "distinct (map fst ws) \<Longrightarrow> distinct (map fst (fold (\<lambda>s. add_weight (sh_Address s) (share_work s)) shares ws))" for ws
    by (induction shares arbitrary: ws) (simp_all add: distinct_add_weight)
  then show ?thesis by (simp add: work_by_address_def)
qed

lemma add_weight_nonneg: "0 \<le> v \<Longrightarrow> \<forall>e\<in>set ws. 0 \<le> snd e \<Longrightarrow> \<forall>e\<in>set (add_weight a v ws). 0 \<le> snd e"
  by (induction a v ws rule: add_weight.induct) (auto split: if_splits)

lemma share_work_nonneg: "0 \<le> share_work s"
proof -
  have "0 \<le> WorkFromTarget t" if "parseCanonicalTarget v = Inr t" for v t
    using parseCanonicalTarget_range [OF that] by (intro WorkFromTarget_nonneg) simp
  then show ?thesis by (auto simp: share_work_def split: sum.splits)
qed

lemma work_nonneg: "\<forall>e\<in>set (work_by_address shares). 0 \<le> snd e"
proof -
  have "\<forall>e\<in>set ws. 0 \<le> snd e \<Longrightarrow> \<forall>e\<in>set (fold (\<lambda>s. add_weight (sh_Address s) (share_work s)) shares ws). 0 \<le> snd e" for ws
  proof (induction shares arbitrary: ws)
    case Nil
    then show ?case by simp
  next
    case (Cons s shares)
    show ?case using Cons.IH [OF add_weight_nonneg [OF share_work_nonneg Cons.prems]] by simp
  qed
  from this [of "[]"] show ?thesis by (simp add: work_by_address_def)
qed

section \<open>The coinbase proof\<close>

lemma coinbase_rewards:
  "foldE coinbase_reward r outs = Inr r' \<Longrightarrow> 0 \<le> r \<Longrightarrow> r \<le> MaxMoneyUnits \<Longrightarrow>
     r' = r + sum_list (map out_Value outs) \<and> r' \<le> MaxMoneyUnits \<and> (\<forall>out\<in>set outs. 0 < out_Value out)"
proof (induction outs arbitrary: r)
  case Nil
  then show ?case by simp
next
  case (Cons out outs)
  then obtain r1 where r1: "coinbase_reward r out = Inr r1" "foldE coinbase_reward r1 outs = Inr r'" by (auto simp: bindE_Inr_iff)
  have v: "0 < out_Value out" "MoneyRange (out_Value out)" "r \<le> wrap64 (MaxMoneyUnits - out_Value out)" "r1 = wrap64 (r + out_Value out)"
    using r1(1) by (auto simp: coinbase_reward_def failIf_Inr_iff)
  have "wrap64 (MaxMoneyUnits - out_Value out) = MaxMoneyUnits - out_Value out"
    using v by (intro wrap64_id) (auto simp: is_int64_def MoneyRange_def MaxMoneyUnits_eq)
  moreover from this have "wrap64 (r + out_Value out) = r + out_Value out"
    using v Cons.prems by (intro wrap64_id) (auto simp: is_int64_def MaxMoneyUnits_eq)
  ultimately show ?case using Cons.IH [OF r1(2)] v Cons.prems by auto
qed

lemma scan_weights:
  assumes "foldE (scan_weight K) (ws, n, prev) pws = Inr (ws', n', prev')"
    and "sorted (map fst ws)" and "distinct (map fst ws)" and "\<forall>a\<in>set (map fst ws). a \<le> prev"
  shows "distinct (map fst ws') \<and> (\<exists>vs. ws' = ws @ vs \<and> map fst vs = map pt_Address pws \<and>
    list_all2 (\<lambda>pw e. parseCanonicalWork (pt_WorkHex pw) = Inr (snd e)) pws vs)"
  using assms
proof (induction pws arbitrary: ws n prev)
  case Nil
  then show ?case by simp
next
  case (Cons pw pws)
  from Cons.prems(1) obtain t where t: "scan_weight K (ws, n, prev) pw = Inr t" "foldE (scan_weight K) t pws = Inr (ws', n', prev')"
    by (auto simp: bindE_Inr_iff)
  obtain v where v: "\<not> pt_Address pw \<le> prev" "parseCanonicalWork (pt_WorkHex pw) = Inr v"
    and tv: "t = (ws @ [(pt_Address pw, v)], n + pt_Shares pw, pt_Address pw)"
    using t(1) by (auto simp: scan_weight_def failIf_Inr_iff split: sum.splits)
  note rest = t(2) [unfolded tv]
  have lt: "\<forall>a\<in>set (map fst ws). a < pt_Address pw" using v(1) Cons.prems(4) by (auto simp: not_le intro: le_less_trans)
  have "distinct (map fst ws') \<and> (\<exists>vs. ws' = (ws @ [(pt_Address pw, v)]) @ vs \<and> map fst vs = map pt_Address pws \<and>
      list_all2 (\<lambda>pw e. parseCanonicalWork (pt_WorkHex pw) = Inr (snd e)) pws vs)"
    using Cons.prems lt by (intro Cons.IH [OF rest]) (auto simp: sorted_append intro: less_imp_le)
  then obtain vs where "distinct (map fst ws')" "ws' = ws @ (pt_Address pw, v) # vs" "map fst vs = map pt_Address pws"
    "list_all2 (\<lambda>pw e. parseCanonicalWork (pt_WorkHex pw) = Inr (snd e)) pws vs" by auto
  then show ?case using v(2) by (intro conjI exI [of _ "(pt_Address pw, v) # vs"]) simp_all
qed

lemma committed_weights:
  assumes weights: "pplnsWeights snap = Inr pws" and scan: "foldE (scan_weight K) ([], 0, []) pws = Inr (works, n, prev)"
  shows "mset works = mset (work_by_address (ps_Shares snap)) \<and> distinct (map fst works)"
proof -
  define W where "W = work_by_address (ps_Shares snap)"
  define counts where "counts = fold (\<lambda>share. add_weight (sh_Address share) 1) (ps_Shares snap) []"
  have keys: "map fst counts = map fst W"
    unfolding counts_def W_def work_by_address_def by (rule weights_keys) simp
  have pws: "pws = sort_key pt_Address (map (payout_weight W) counts)"
    using weights by (auto simp: pplnsWeights_def Let_def W_def counts_def split: if_splits)
  have dist: "distinct (map fst works)" and addr: "map fst works = map pt_Address pws"
    and vals: "list_all2 (\<lambda>pw e. parseCanonicalWork (pt_WorkHex pw) = Inr (snd e)) pws works"
    using scan_weights [OF scan] by auto
  have "e \<in> set W" if e: "e \<in> set works" for e
  proof -
    obtain i where i: "i < length works" "e = works ! i" using e by (auto simp: in_set_conv_nth)
    then have len: "i < length pws" and a: "fst e = pt_Address (pws ! i)"
      using addr by (metis length_map, metis length_map nth_map)
    have val: "parseCanonicalWork (pt_WorkHex (pws ! i)) = Inr (snd e)" using vals i len by (simp add: list_all2_conv_all_nth)
    have "pws ! i \<in> set (map (payout_weight W) counts)" using len pws by (metis nth_mem set_sort)
    then obtain c where c: "c \<in> set counts" "pws ! i = payout_weight W c" by (auto simp del: split_paired_Ex)
    then have "fst c \<in> set (map fst W)" using keys by (metis image_eqI list.set_map)
    then obtain v where v: "map_of W (fst c) = Some v" by (metis map_of_eq_None_iff not_None_eq set_map)
    have mem: "(fst c, v) \<in> set W" using v by (rule map_of_SomeD)
    then have "0 \<le> v" using work_nonneg [of "ps_Shares snap"] W_def by fastforce
    moreover have "pt_WorkHex (pws ! i) = format_hex 68 v" "pt_Address (pws ! i) = fst c" using c(2) v by (simp_all add: payout_weight_def)
    ultimately have "snd e = v" "fst e = fst c" using val a parse_format_work [of 68 v "snd e"] by auto
    then show ?thesis using mem by (metis prod.collapse)
  qed
  then have sub: "set works \<subseteq> set W" by blast
  have dW: "distinct W" using work_distinct by (metis W_def distinct_map)
  have "length works = length W"
    using addr pws keys by (metis length_map length_sort)
  then have "set works = set W"
    using sub dW dist by (intro card_subset_eq) (auto simp: distinct_card distinct_map)
  then have "mset works = mset W" using dist dW by (metis distinct_map set_eq_iff_mset_eq_distinct)
  then show ?thesis using dist by (simp add: W_def)
qed

lemma payouts_of_weights:
  assumes "pplnsOutputsFromWork K works reward = Inr outs" and "mset works = mset (work_by_address (ps_Shares snap))"
    and "distinct (map fst works)" and "validatePPLNSState K snap (ps_Network snap) (ps_WindowShares snap) (ps_MaxAddresses snap) = Inr ()"
    and "ps_Network snap = MainNetMachineID \<or> ps_Network snap = RegTestMachineID" and "ps_Shares snap \<noteq> []"
  shows "pplnsPayouts K snap reward = Inr outs"
proof -
  have "valid_weights K works reward" using assms(1) payouts_invalid by fastforce
  then have "0 < reward" "MoneyRange reward" by (simp_all add: valid_weights_def)
  then show ?thesis
    using assms payout_order [OF assms(2,3)] by (auto simp: pplnsPayouts_def failIf_def)
qed

lemma coinbase_proof:
  assumes "validatePoolCoinbaseProof K work header = Inr ()"
  obtains coinbase branch reward works n prev where "hex_DecodeString (po_CoinbaseHex work) = Inr (tx_Bytes coinbase)"
    and "IsCoinbase coinbase" and "foldE coinbase_reward 0 (tx_Outs coinbase) = Inr reward" and "SubsidyAt (po_Height work) \<le> reward"
    and "length (tx_LockTag coinbase) > length (string_bytes ('':'' @ po_PPLNSStateHash work))"
    and "drop (length (tx_LockTag coinbase) - length (string_bytes ('':'' @ po_PPLNSStateHash work))) (tx_LockTag coinbase) =
        string_bytes ('':'' @ po_PPLNSStateHash work)"
    and "MerkleRootFromBranch K (tx_ID K coinbase) 0 branch = Inr (hdr_MerkleRoot header)"
    and "foldE (scan_weight K) ([], 0, []) (po_PayoutWeights work) = Inr (works, n, prev)"
    and "check_requester K work coinbase reward n = Inr () \<or> check_window K work coinbase reward n works = Inr ()"
  using assms unfolding validatePoolCoinbaseProof_def Let_def
  by (auto simp: failIf_Inr_iff bindE_Inr_iff not_less not_le split: sum.splits if_splits)

section \<open>Properties\<close>

text \<open>C31: A search that is not cancelled finds a nonce exactly when one of the 64-bit nonces meets the target:
  every worker ends, whatever was reported satisfies the target, and together the workers miss none.\<close>

theorem nonce_search_complete:
  assumes "0 < workers" and "workers < 2 ^ 64"
  shows "((\<exists>n<2 ^ 64. proof_value K p header n \<le> target) \<longleftrightarrow> mine_found K (\<lambda>_ _. False) p header target workers \<noteq> []) \<and>
    (\<forall>stopped. \<forall>n\<in>set (mine_found K stopped p header target workers). n < 2 ^ 64 \<and> proof_value K p header n \<le> target)"
proof -
  let ?hit = "\<lambda>n. proof_value K p header n \<le> target"
  have some: "n < 2 ^ 64 \<and> ?hit n" if mem: "n \<in> set (mine_found K stopped p header target workers)" for n stopped
  proof -
    obtain w where "w < workers" "mine_worker (stopped w) ?hit workers w = Some n"
      using mem by (auto simp: mine_found_def map_filter_def)
    then show ?thesis using mine_worker_Some [of "stopped w" ?hit workers w n] assms(2) by simp
  qed
  have "(\<exists>n<2 ^ 64. ?hit n) \<longleftrightarrow> mine_found K (\<lambda>_ _. False) p header target workers \<noteq> []"
  proof
    assume "\<exists>n<2 ^ 64. ?hit n"
    then obtain n where n: "n < 2 ^ 64" "?hit n" by blast
    let ?w = "n mod workers"
    have "mine_worker (\<lambda>_. False) ?hit workers ?w \<noteq> None"
      using mine_worker_None [of "\<lambda>_. False" ?hit workers ?w "n div workers"] n assms(1) by (auto simp: mod_mult_div_eq mult.commute)
    moreover have "?w \<in> set [0..<workers]" using assms(1) by simp
    ultimately show "mine_found K (\<lambda>_ _. False) p header target workers \<noteq> []"
      by (auto simp: mine_found_def map_filter_def filter_empty_conv)
  next
    assume "mine_found K (\<lambda>_ _. False) p header target workers \<noteq> []"
    then show "\<exists>n<2 ^ 64. ?hit n" using some by (metis list.set_sel(1))
  qed
  then show ?thesis using some by blast
qed

lemma HashToBig_zero: "HashToBig 0 = 0"
  by code_simp

theorem nonce_search_complete_witness:
  "mine_found sample_crypto (\<lambda>_ _. False) canonicalRegTestParams (header_of_bytes (replicate 88 0)) 1 2 \<noteq> []"
proof -
  have "\<exists>n<2 ^ 64. proof_value sample_crypto canonicalRegTestParams (header_of_bytes (replicate 88 0)) n \<le> 1"
    by (intro exI [of _ 0]) (simp add: proof_value_def PowHash_sample HashToBig_zero)
  then show ?thesis
    using nonce_search_complete [of 2 sample_crypto canonicalRegTestParams "header_of_bytes (replicate 88 0)" 1] by simp
qed

text \<open>C30: When a miner accepts a PPLNS work item, the block it will mine pays the pool fairly: the header commits
  to a coinbase that claims at least the subsidy and whose outputs are exactly what the payout rule
  gives for the window of shares in the item (or all to the requesting address when the window is
  empty), the coinbase commits to that window, and the share target lies between the network target
  and the network maximum.\<close>

theorem pool_work_protects_miner:
  assumes "ParsePoolWork K mj work (Some p) = Inr (header, networkTarget, shareTarget)"
  shows "\<exists>coinbase branch reward. hex_DecodeString (po_CoinbaseHex work) = Inr (tx_Bytes coinbase) \<and> IsCoinbase coinbase \<and>
    MerkleRootFromBranch K (tx_ID K coinbase) 0 branch = Inr (hdr_MerkleRoot header) \<and>
    reward = sum_list (map out_Value (tx_Outs coinbase)) \<and> SubsidyAt (po_Height work) \<le> reward \<and>
    (if ps_Shares (po_Window work) = []
     then \<exists>out. tx_Outs coinbase = [out] \<and> payout_pkh K (pt_Address (po_PayoutWeights work ! 0)) = Some (out_PubKeyHash out)
     else pplnsPayouts K (po_Window work) reward = Inr (tx_Outs coinbase)) \<and>
    (\<exists>tag hash. tx_LockTag coinbase = tag @ string_bytes ('':'' @ hash) \<and> pplnsSnapshotHash K mj (po_Window work) = Inr hash) \<and>
    networkTarget = CompactToTarget (hdr_Bits header) \<and> networkTarget \<le> shareTarget \<and> shareTarget \<le> MaxTarget p"
proof -
  let ?win = "po_Window work"
  have net: "CanonicalNetworkID (Some p) = Inr (po_Network work)" "ps_Network ?win = po_Network work"
    and val: "validatePPLNSState K ?win (ps_Network ?win) (ps_WindowShares ?win) (ps_MaxAddresses ?win) = Inr ()"
    and hash: "pplnsSnapshotHash K mj ?win = Inr (po_PPLNSStateHash work)"
    and cur: "po_CurrentShares work = int (length (ps_Shares ?win))"
    and proof_ok: "validatePoolCoinbaseProof K work header = Inr ()"
    and targets: "networkTarget = CompactToTarget (hdr_Bits header)" "networkTarget \<le> shareTarget" "shareTarget \<le> MaxTarget p"
    using assms by (auto simp: ParsePoolWork_def failIf_Inr_iff bindE_Inr_iff Let_def not_less split: option.splits sum.splits)
  obtain coinbase branch reward works n prev where cb: "hex_DecodeString (po_CoinbaseHex work) = Inr (tx_Bytes coinbase)" "IsCoinbase coinbase"
    and rw: "foldE coinbase_reward 0 (tx_Outs coinbase) = Inr reward" "SubsidyAt (po_Height work) \<le> reward"
    and tag: "length (tx_LockTag coinbase) > length (string_bytes ('':'' @ po_PPLNSStateHash work))"
      "drop (length (tx_LockTag coinbase) - length (string_bytes ('':'' @ po_PPLNSStateHash work))) (tx_LockTag coinbase) =
        string_bytes ('':'' @ po_PPLNSStateHash work)"
    and root: "MerkleRootFromBranch K (tx_ID K coinbase) 0 branch = Inr (hdr_MerkleRoot header)"
    and scan: "foldE (scan_weight K) ([], 0, []) (po_PayoutWeights work) = Inr (works, n, prev)"
    and basis: "check_requester K work coinbase reward n = Inr () \<or> check_window K work coinbase reward n works = Inr ()"
    using proof_ok by (rule coinbase_proof)
  have sum: "reward = sum_list (map out_Value (tx_Outs coinbase))" using coinbase_rewards [OF rw(1)] by (simp add: MaxMoneyUnits_eq)
  have pay: "if ps_Shares ?win = []
     then \<exists>out. tx_Outs coinbase = [out] \<and> payout_pkh K (pt_Address (po_PayoutWeights work ! 0)) = Some (out_PubKeyHash out)
     else pplnsPayouts K ?win reward = Inr (tx_Outs coinbase)"
    using basis
  proof
    assume "check_requester K work coinbase reward n = Inr ()"
    then show ?thesis
      by (cases "tx_Outs coinbase") (auto simp: check_requester_def failIf_Inr_iff)
  next
    assume "check_window K work coinbase reward n works = Inr ()"
    then have cw: "1 \<le> po_CurrentShares work" "pplnsWeights ?win = Inr (po_PayoutWeights work)"
      "pplnsOutputsFromWork K works reward = Inr (tx_Outs coinbase)"
      by (auto simp: check_window_def failIf_Inr_iff not_less split: sum.splits)
    have ne: "ps_Shares ?win \<noteq> []" using cw(1) cur by auto
    have "ps_Network ?win = MainNetMachineID \<or> ps_Network ?win = RegTestMachineID"
      using net by (auto simp: CanonicalNetworkID_def split: if_splits)
    then show ?thesis
      using payouts_of_weights [OF cw(3) _ _ val _ ne] committed_weights [OF cw(2) scan] ne by simp
  qed
  have "tx_LockTag coinbase = take (length (tx_LockTag coinbase) - length (string_bytes ('':'' @ po_PPLNSStateHash work))) (tx_LockTag coinbase) @
      string_bytes ('':'' @ po_PPLNSStateHash work)" using tag(2) by (metis append_take_drop_id)
  then show ?thesis using cb root sum rw(2) pay hash targets by blast
qed

text \<open>A work item for an empty window on the regression-test network: the coinbase pays the requester.\<close>

definition sample_empty :: PPLNSSnapshot where
  "sample_empty = \<lparr>ps_SchemaVersion = 2, ps_Network = RegTestMachineID, ps_WindowShares = 4, ps_MaxAddresses = 2,
     ps_NextSequence = 1, ps_Shares = []\<rparr>"

definition sample_hash :: string where
  "sample_hash = hex_EncodeToString (hash_bytes (SHA256d sample_crypto []))"

definition sample_pool_coinbase :: Tx where
  "sample_pool_coinbase = NewCoinbase 1 5000000000 7 (''t'' @ '':'' @ sample_hash)"

definition sample_pool_header :: Header where
  "sample_pool_header = \<lparr>hdr_Version = 1, hdr_PrevBlock = 0, hdr_MerkleRoot = tx_ID sample_crypto sample_pool_coinbase,
     hdr_Time = 1751738400, hdr_Bits = 0x207fffff, hdr_Nonce = 0\<rparr>"

definition sample_pool_work :: PoolWork where
  "sample_pool_work = \<lparr>po_SchemaVersion = 2, po_Network = RegTestMachineID, po_Mode = ''pplns'', po_FeeBPS = 0,
     po_JobID = hex_EncodeToString (replicate 16 0), po_Height = 1, po_HeaderHex = hex_EncodeToString (hdr_Bytes sample_pool_header),
     po_NetworkTargetHex = hex_EncodeToString (be_bytes 32 (nat (CompactToTarget 0x207fffff))),
     po_ShareTargetHex = hex_EncodeToString (be_bytes 32 (nat (CompactToTarget 0x207fffff))), po_ExpiresAt = 1,
     po_ArgonMemKiB = ArgonMemKiB canonicalRegTestParams, po_ArgonTime = ArgonTime canonicalRegTestParams,
     po_WindowShares = 4, po_CurrentShares = 0, po_PPLNSStateHash = sample_hash, po_Window = sample_empty,
     po_PayoutBasis = ''requester'',
     po_PayoutWeights = [\<lparr>pt_Address = EncodeAddress sample_crypto 7, pt_Shares = 1, pt_WorkHex = format_hex 68 1\<rparr>],
     po_CoinbaseHex = hex_EncodeToString (tx_Bytes sample_pool_coinbase), po_CoinbaseMerkleBranch = []\<rparr>"

lemma format_one: "hex_EncodeToString (be_bytes 34 1) = format_hex 68 1"
  by code_simp

lemma parse_one: "parseCanonicalWork (format_hex 68 1) = Inr 1"
  unfolding format_one [symmetric]
  by (simp add: parseCanonicalWork_def canonical_hex_def be_nat_be_bytes Let_def failIf_def bit_len.simps)

lemma EncodeAddress_nonempty: "EncodeAddress K pkh \<noteq> []"
proof
  assume "EncodeAddress K pkh = []"
  then have "DecodeAddress K [] = Inr pkh" using DecodeAddress_EncodeAddress [of K pkh] by simp
  then show False by (auto simp: DecodeAddress_def bindE_Inr_iff failIf_Inr_iff base58Decode_def Let_def)
qed

lemma sample_coinbase_proof: "validatePoolCoinbaseProof sample_crypto sample_pool_work sample_pool_header = Inr ()"
proof -
  have wf: "wf_Tx sample_pool_coinbase"
    by (simp add: wf_Tx_def sample_pool_coinbase_def NewCoinbase_def wf_TxIn_def wf_TxOut_def put_uvarint_small u64_of_def
        string_bytes_def is_int64_def sample_hash_def)
  have len: "0 < length (tx_Bytes sample_pool_coinbase)" "length (tx_Bytes sample_pool_coinbase) \<le> 32 * 1024"
    by (simp_all add: sample_pool_coinbase_def NewCoinbase_def tx_Bytes_def serialize_def enc_TxIn_def enc_TxOut_def writeBytes_def
        put_uvarint_small u64_of_def string_bytes_def sample_hash_def)
  have cb: "IsCoinbase sample_pool_coinbase" "tx_Ins sample_pool_coinbase = [\<lparr>in_Prev = OutPoint 0 0xffffffff, in_PubKey = put_uvarint (u64_of 1), in_Sig = []\<rparr>]"
    "tx_Outs sample_pool_coinbase = [\<lparr>out_Value = 5000000000, out_PubKeyHash = 7\<rparr>]"
    "tx_LockTag sample_pool_coinbase = string_bytes (''t'' @ '':'' @ sample_hash)"
    by (simp_all add: sample_pool_coinbase_def NewCoinbase_def IsCoinbase_def)
  show ?thesis
    unfolding validatePoolCoinbaseProof_def
    using wf len cb parse_one EncodeAddress_nonempty DecodeTx_tx_Bytes [OF wf]
    by (simp add: sample_pool_work_def sample_pool_header_def failIf_def Let_def coinbase_reward_def MoneyRange_def MaxMoneyUnits_eq
        wrap64_def SubsidyAt_1 MerkleRootFromBranch_def scan_weight_def check_requester_def sample_empty_def string_bytes_def)
qed

theorem pool_work_protects_miner_witness:
  "\<exists>h nt st. ParsePoolWork sample_crypto (\<lambda>_. Inr []) sample_pool_work (Some canonicalRegTestParams) = Inr (h, nt, st) \<and>
    nt = CompactToTarget (hdr_Bits h) \<and> nt \<le> st"
proof -
  let ?t = "CompactToTarget 0x207fffff"
  have t: "0 < ?t" "?t < 2 ^ 256" by (simp_all add: CompactToTarget_def)
  have "be_nat (be_bytes 32 (nat ?t)) = nat ?t" using t by (simp add: be_nat_be_bytes nat_less_iff)
  then have target: "parseCanonicalTarget (hex_EncodeToString (be_bytes 32 (nat ?t))) = Inr ?t"
    using parseCanonicalTarget_Encode [of "be_bytes 32 (nat ?t)"] t by simp
  have "wf_window sample_crypto sample_empty" by (simp add: wf_window_def sample_empty_def pplnsStateSchemaVersion_def)
  then have win: "validatePPLNSState sample_crypto sample_empty RegTestMachineID 4 2 = Inr ()"
    by (simp add: validatePPLNSState_iff sample_empty_def)
  have hdr: "header_of_bytes (hdr_Bytes sample_pool_header) = sample_pool_header"
    using header_of_bytes_hdr_Bytes [of sample_pool_header "[]"] by (simp add: sample_pool_header_def is_int64_def)
  have fields: "po_Window sample_pool_work = sample_empty" "po_HeaderHex sample_pool_work = hex_EncodeToString (hdr_Bytes sample_pool_header)"
    "hdr_Nonce sample_pool_header = 0" "hdr_Bits sample_pool_header = 0x207fffff"
    "po_Network sample_pool_work = RegTestMachineID" "po_SchemaVersion sample_pool_work = 2" "po_Mode sample_pool_work = ''pplns''"
    "po_FeeBPS sample_pool_work = 0" "po_Height sample_pool_work = 1" "po_WindowShares sample_pool_work = 4"
    "po_CurrentShares sample_pool_work = 0" "po_PPLNSStateHash sample_pool_work = sample_hash"
    "po_JobID sample_pool_work = hex_EncodeToString (replicate 16 0)"
    "po_ArgonMemKiB sample_pool_work = ArgonMemKiB canonicalRegTestParams" "po_ArgonTime sample_pool_work = ArgonTime canonicalRegTestParams"
    "po_NetworkTargetHex sample_pool_work = hex_EncodeToString (be_bytes 32 (nat ?t))"
    "po_ShareTargetHex sample_pool_work = hex_EncodeToString (be_bytes 32 (nat ?t))"
    "ps_Network sample_empty = RegTestMachineID" "ps_WindowShares sample_empty = 4" "ps_MaxAddresses sample_empty = 2" "ps_Shares sample_empty = []"
    by (simp_all add: sample_pool_work_def sample_pool_header_def sample_empty_def)
  have net: "CanonicalNetworkID (Some canonicalRegTestParams) = Inr RegTestMachineID" and max: "?t \<le> MaxTarget canonicalRegTestParams"
    using Params.canonical_params_distinct by (auto simp: CanonicalNetworkID_def) (simp add: MaxTarget_def canonicalRegTestParams_def)
  have hash: "canonical_hex 32 sample_hash \<noteq> None" "pplnsSnapshotHash sample_crypto (\<lambda>_. Inr []) sample_empty = Inr sample_hash"
    "canonical_hex 16 (hex_EncodeToString (replicate 16 0)) \<noteq> None"
    "canonical_hex 88 (hex_EncodeToString (hdr_Bytes sample_pool_header)) = Some (hdr_Bytes sample_pool_header)"
    by (simp_all add: canonical_hex_def sample_hash_def pplnsSnapshotHash_def)
  have run: "ParsePoolWork sample_crypto (\<lambda>_. Inr []) sample_pool_work (Some canonicalRegTestParams) = Inr (sample_pool_header, ?t, ?t)"
    unfolding ParsePoolWork_def fields option.case Let_def
    using win hdr sample_coinbase_proof target net max hash
    by (simp add: failIf_def fields)
  then show ?thesis using pool_work_protects_miner [OF run] by blast
qed

end
