(* ===== verification/Coordinator.thy ===== *)
theory Coordinator
  imports JobTable PoolWorkTheorems Miner "HOL-Library.Char_ord"
begin

text \<open>
  The remote-solo job service of \<^verbatim>\<open>pool/coordinator.go\<close>. The chain the coordinator points to is passed
  along; \<^verbatim>\<open>Submit\<close> is split where it releases the lock, so that the step relation interleaves the
  pieces of concurrent calls. \<open>Issue\<close> takes the chain twice, when the template is built and when the
  height is read, because the tip may move in between. Clocks and random bytes are arguments.
  Instants and durations are in nanoseconds.
\<close>

section \<open>State\<close>

definition ErrUnknownJob :: error where "ErrUnknownJob = Err ''unknown mining job''"
definition ErrExpiredJob :: error where "ErrExpiredJob = Err ''mining job expired''"
definition ErrStaleJob :: error where "ErrStaleJob = Err ''mining job is stale''"
definition ErrDuplicateSubmission :: error where "ErrDuplicateSubmission = Err ''duplicate nonce submission''"
definition ErrLowDifficulty :: error where "ErrLowDifficulty = Err ''nonce does not meet network target''"
definition ErrBlockRejected :: "error \<Rightarrow> error" where "ErrBlockRejected e = Wrapped ''mined block rejected'' e"

lemmas coordinator_errors = ErrUnknownJob_def ErrExpiredJob_def ErrStaleJob_def ErrDuplicateSubmission_def
  ErrLowDifficulty_def ErrBlockRejected_def

definition defaultJobTTL :: int where "defaultJobTTL = 2 * 60 * 10 ^ 9"
definition defaultMaxJobs :: int where "defaultMaxJobs = 256"

record CoordinatorConfig =
  cc_JobTTL :: int
  cc_MaxJobs :: int
  cc_Tag :: string

record miningJob =
  mj_block :: Block
  mj_issuedAt :: instant
  mj_expiresAt :: instant
  mj_seen :: "uint64 set"

record Coordinator =
  co_params :: Params
  co_network :: string
  co_config :: CoordinatorConfig
  co_jobs :: "miningJob jobs"
  co_order :: "string list"

record SubmitResult =
  sr_SchemaVersion :: int
  sr_Network :: string
  sr_Status :: string
  sr_BlockID :: string
  sr_Height :: int

section \<open>Operations\<close>

definition NewCoordinator :: "Chain option \<Rightarrow> CoordinatorConfig \<Rightarrow> Coordinator res" where
  "NewCoordinator chain config =
     (case chain of None \<Rightarrow> Inl (Err ''nil chain'')
      | Some ch \<Rightarrow>
          bindE (CanonicalNetworkID (Some (ch_params ch))) (\<lambda>network.
          let ttl = (if cc_JobTTL config = 0 then defaultJobTTL else cc_JobTTL config) in
          failIf (ttl < 10 ^ 9 \<or> ttl > 10 * 60 * 10 ^ 9) (Err ''job TTL must be between one second and ten minutes'')
          (let maxJobs = (if cc_MaxJobs config = 0 then defaultMaxJobs else cc_MaxJobs config) in
           failIf (maxJobs < 1 \<or> maxJobs > 4096) (Err ''max jobs must be between 1 and 4096'')
           (failIf (length (cc_Tag config) > 64) (Err ''coordinator tag too long'')
           (Inr \<lparr>co_params = ch_params ch, co_network = network,
              co_config = \<lparr>cc_JobTTL = ttl, cc_MaxJobs = maxJobs, cc_Tag = cc_Tag config\<rparr>,
              co_jobs = [], co_order = []\<rparr>)))))"

definition worker_char :: "char \<Rightarrow> bool" where
  "worker_char b \<longleftrightarrow> (CHR ''a'' \<le> b \<and> b \<le> CHR ''z'') \<or> (CHR ''A'' \<le> b \<and> b \<le> CHR ''Z'') \<or> (CHR ''0'' \<le> b \<and> b \<le> CHR ''9'') \<or>
     b = CHR ''-'' \<or> b = CHR ''_'' \<or> b = CHR ''.''"

definition validWorker :: "string \<Rightarrow> bool" where
  "validWorker worker \<longleftrightarrow> \<not> length worker > 64 \<and> list_all worker_char worker"

text \<open>\<open>raw\<close> is what the random source gave: sixteen bytes or an error.\<close>

definition randomJobID :: "byte list res \<Rightarrow> string res" where
  "randomJobID raw = bindE raw (\<lambda>bytes. Inr (hex_EncodeToString bytes))"

definition copy_block :: "string \<Rightarrow> Block \<Rightarrow> Block res" where
  "copy_block what b =
     bindE (blk_Bytes b) (\<lambda>raw. case DecodeBlock raw of Inl e \<Rightarrow> Inl (Wrapped what e) | Inr b' \<Rightarrow> Inr b')"

definition wrapE :: "string \<Rightarrow> 'a res \<Rightarrow> 'a res" where
  "wrapE what r = (case r of Inl e \<Rightarrow> Inl (Wrapped what e) | Inr x \<Rightarrow> Inr x)"

definition issue_template ::
  "crypto \<Rightarrow> Chain \<Rightarrow> int \<Rightarrow> byte list res \<Rightarrow> address \<Rightarrow> string \<Rightarrow> string \<Rightarrow> (Block \<times> Block \<times> string) res"
where
  "issue_template K chain clock raw address worker tag =
     (case DecodeAddress K address of
        Inl _ \<Rightarrow> Inl (Err ''invalid payout address'')
      | Inr payout \<Rightarrow>
          failIf (payout = 0) (Err ''invalid payout address'')
          (failIf (\<not> validWorker worker) (Err ''invalid worker label'')
          (case BuildBlockTemplate K (Some chain) clock payout tag of
             None \<Rightarrow> Inl (Err ''failed to build canonical template'')
           | Some block \<Rightarrow>
               failIf (hdr_Nonce (blk_Header block) \<noteq> 0) (Err ''failed to build canonical template'')
               (bindE (copy_block ''copy block template'' block) (\<lambda>copyBlock.
                bindE (wrapE ''create job id'' (randomJobID raw)) (\<lambda>jobID.
                Inr (block, copyBlock, jobID)))))))"

definition Issue ::
  "crypto \<Rightarrow> Chain \<Rightarrow> Chain \<Rightarrow> instant \<Rightarrow> int \<Rightarrow> byte list res \<Rightarrow> address \<Rightarrow> string \<Rightarrow> Coordinator \<Rightarrow> Work res \<times> Coordinator"
where
  "Issue K chain chain' now clock raw address worker c =
     (case issue_template K chain clock raw address worker (cc_Tag (co_config c)) of
        Inl e \<Rightarrow> (Inl e, c)
      | Inr (block, copyBlock, jobID) \<Rightarrow>
          let expires = now + cc_JobTTL (co_config c);
              job = \<lparr>mj_block = copyBlock, mj_issuedAt = now, mj_expiresAt = expires, mj_seen = {}\<rparr>
          in case add_job mj_expiresAt now (cc_MaxJobs (co_config c)) jobID job (co_order c) (co_jobs c) of
               Inl e \<Rightarrow> (Inl e, c)
             | Inr (order, jobs) \<Rightarrow>
                 (Inr \<lparr>wk_SchemaVersion = 1, wk_Network = co_network c, wk_JobID = jobID, wk_Height = snd (Tip chain') + 1,
                    wk_HeaderHex = hex_EncodeToString (hdr_Bytes (blk_Header block)),
                    wk_TargetHex = format_hex 64 (CompactToTarget (hdr_Bits (blk_Header block))), wk_ExpiresAt = expires,
                    wk_ArgonMemKiB = ArgonMemKiB (co_params c), wk_ArgonTime = ArgonTime (co_params c)\<rparr>,
                  c\<lparr>co_order := order, co_jobs := jobs\<rparr>))"

definition delete_job :: "string \<Rightarrow> Coordinator \<Rightarrow> Coordinator" where
  "delete_job jobID c = c\<lparr>co_jobs := AList.delete jobID (co_jobs c)\<rparr>"

text \<open>The first critical section of \<^verbatim>\<open>Submit\<close>.\<close>

definition claim_nonce :: "instant \<Rightarrow> Hash32 \<Rightarrow> string \<Rightarrow> uint64 \<Rightarrow> Coordinator \<Rightarrow> Block res \<times> Coordinator" where
  "claim_nonce now tipID jobID nonce c =
     (case map_of (co_jobs c) jobID of
        None \<Rightarrow> (Inl ErrUnknownJob, c)
      | Some job \<Rightarrow>
          if \<not> now < mj_expiresAt job then (Inl ErrExpiredJob, delete_job jobID c)
          else if hdr_PrevBlock (blk_Header (mj_block job)) \<noteq> tipID then (Inl ErrStaleJob, delete_job jobID c)
          else if nonce \<in> mj_seen job then (Inl ErrDuplicateSubmission, c)
          else (copy_block ''copy mining job'' (mj_block job),
                c\<lparr>co_jobs := AList.update jobID (job\<lparr>mj_seen := insert nonce (mj_seen job)\<rparr>) (co_jobs c)\<rparr>))"

text \<open>The unlocked part: the proof of work and the chain.\<close>

definition with_nonce :: "uint64 \<Rightarrow> Block \<Rightarrow> Block" where
  "with_nonce nonce b = b\<lparr>blk_Header := (blk_Header b)\<lparr>hdr_Nonce := nonce\<rparr>\<rparr>"

definition submit_block :: "crypto \<Rightarrow> Params \<Rightarrow> Chain \<Rightarrow> int \<Rightarrow> Block \<Rightarrow> unit res \<times> Chain" where
  "submit_block K p chain clock b =
     (if \<not> CheckPow K p (blk_Header b) then (Inl ErrLowDifficulty, chain)
      else case AcceptBlock K chain clock (Some b) of
        (chain', Inl e, _) \<Rightarrow> (Inl (ErrBlockRejected e), chain')
      | (chain', Inr _, _) \<Rightarrow> (Inr (), chain'))"

text \<open>The last critical section.\<close>

definition clear_jobs :: "Coordinator \<Rightarrow> Coordinator" where
  "clear_jobs c = c\<lparr>co_jobs := [], co_order := []\<rparr>"

definition Submit ::
  "crypto \<Rightarrow> Chain \<Rightarrow> instant \<Rightarrow> int \<Rightarrow> string \<Rightarrow> uint64 \<Rightarrow> Coordinator \<Rightarrow> SubmitResult res \<times> Coordinator \<times> Chain"
where
  "Submit K chain now clock jobID nonce c =
     (case claim_nonce now (fst (Tip chain)) jobID nonce c of
        (Inl e, c1) \<Rightarrow> (Inl e, c1, chain)
      | (Inr block, c1) \<Rightarrow>
          (case submit_block K (co_params c) chain clock (with_nonce nonce block) of
             (Inl e, chain') \<Rightarrow> (Inl e, c1, chain')
           | (Inr _, chain') \<Rightarrow>
               (Inr \<lparr>sr_SchemaVersion = 1, sr_Network = co_network c, sr_Status = ''block_accepted'',
                  sr_BlockID = hex_EncodeToString (hash_bytes (hdr_ID K (blk_Header (with_nonce nonce block)))),
                  sr_Height = Height chain'\<rparr>, clear_jobs c1, chain')))"

section \<open>Concurrent calls\<close>

text \<open>One critical section of any call: the chain seen by it is arbitrary.\<close>

inductive coord_step :: "crypto \<Rightarrow> Coordinator \<Rightarrow> Coordinator \<Rightarrow> bool" for K where
  step_issue: "Issue K chain chain' now clock raw address worker c = (r, c') \<Longrightarrow> coord_step K c c'"
| step_claim: "claim_nonce now tipID jobID nonce c = (r, c') \<Longrightarrow> coord_step K c c'"
| step_clear: "coord_step K c (clear_jobs c)"

inductive_cases coord_stepE: "coord_step K c c'"

definition coord_init :: "Params \<Rightarrow> Coordinator \<Rightarrow> bool" where
  "coord_init p c \<longleftrightarrow> (\<exists>chain config. NewCoordinator (Some chain) config = Inr c \<and> ch_params chain = p)"

definition coord_inv :: "Params \<Rightarrow> Coordinator \<Rightarrow> bool" where
  "coord_inv p c \<longleftrightarrow>
     table_ok (cc_MaxJobs (co_config c)) (co_order c) (co_jobs c) \<and> cc_MaxJobs (co_config c) \<le> 4096 \<and>
     10 ^ 9 \<le> cc_JobTTL (co_config c) \<and> cc_JobTTL (co_config c) \<le> 600 * 10 ^ 9 \<and> co_params c = p \<and>
     CanonicalNetworkID (Some p) = Inr (co_network c) \<and>
     (\<forall>(jobID, job)\<in>set (co_jobs c). mj_expiresAt job = mj_issuedAt job + cc_JobTTL (co_config c))"

lemma coord_inv_init: "coord_init p c \<Longrightarrow> coord_inv p c"
  by (auto simp: coord_init_def NewCoordinator_def coord_inv_def Let_def failIf_Inr_iff bindE_Inr_iff
      defaultJobTTL_def defaultMaxJobs_def intro!: table_ok_empty split: if_splits)

lemma coord_inv_jobs:
  assumes "coord_inv p c" and "table_ok (cc_MaxJobs (co_config c)) order jobs"
    and "\<And>k j. map_of jobs k = Some j \<Longrightarrow> mj_expiresAt j = mj_issuedAt j + cc_JobTTL (co_config c)"
  shows "coord_inv p (c\<lparr>co_order := order, co_jobs := jobs\<rparr>)"
proof -
  have "map_of jobs k = Some j" if "(k, j) \<in> set jobs" for k j
    using that assms(2) by (simp add: table_ok_def)
  then show ?thesis using assms by (auto simp: coord_inv_def)
qed

lemma coord_inv_entry:
  assumes "coord_inv p c" and "map_of (co_jobs c) k = Some j"
  shows "mj_expiresAt j = mj_issuedAt j + cc_JobTTL (co_config c)"
  using assms(1) map_of_SomeD [OF assms(2)] by (auto simp: coord_inv_def)

lemma issue_template_total: "issue_template K chain clock raw address worker tag \<noteq> Inl Diverges"
proof -
  have "mapE deref ps \<noteq> Inl Diverges" for ps :: "Tx option list"
  proof (induction ps)
    case (Cons p ps)
    then show ?case by (cases p) (auto simp: bindE_Inl_iff)
  qed simp
  then have "blk_Bytes b \<noteq> Inl Diverges" for b by (auto simp: blk_Bytes_def bindE_Inl_iff)
  then have "copy_block w b \<noteq> Inl Diverges" for w b by (auto simp: copy_block_def bindE_Inl_iff split: sum.splits)
  moreover have "wrapE w x \<noteq> Inl Diverges" for w and x :: "string res" by (auto simp: wrapE_def split: sum.splits)
  ultimately show ?thesis
    by (auto simp: issue_template_def failIf_def bindE_Inl_iff split: sum.splits option.splits)
qed

text \<open>An issued job is in the table; the other entries are unexpired old ones.\<close>

lemma Issue_cases:
  assumes "coord_inv p c" and "Issue K chain chain' now clock raw address worker c = (r, c')"
  obtains (fail) e where "r = Inl e" and "c' = c" and "e \<noteq> Diverges"
  | (ok) block copyBlock jobID job work where "r = Inr work" and "coord_inv p c'" and "co_config c' = co_config c"
      and "issue_template K chain clock raw address worker (cc_Tag (co_config c)) = Inr (block, copyBlock, jobID)"
      and "map_of (co_jobs c') (jobID) = Some job"
      and "job = \<lparr>mj_block = copyBlock, mj_issuedAt = now, mj_expiresAt = wk_ExpiresAt work, mj_seen = {}\<rparr>"
      and "work = \<lparr>wk_SchemaVersion = 1, wk_Network = co_network c, wk_JobID = jobID, wk_Height = snd (Tip chain') + 1,
                wk_HeaderHex = hex_EncodeToString (hdr_Bytes (blk_Header block)),
                wk_TargetHex = format_hex 64 (CompactToTarget (hdr_Bits (blk_Header block))), wk_ExpiresAt = now + cc_JobTTL (co_config c),
                wk_ArgonMemKiB = ArgonMemKiB p, wk_ArgonTime = ArgonTime p\<rparr>"
      and "\<And>k j. map_of (co_jobs c') k = Some j \<Longrightarrow> k = jobID \<or> (map_of (co_jobs c) k = Some j \<and> now < mj_expiresAt j)"
proof (cases "issue_template K chain clock raw address worker (cc_Tag (co_config c))")
  case (Inl e)
  then show ?thesis using assms(2) fail issue_template_total [of K chain clock raw address worker "cc_Tag (co_config c)"]
    by (auto simp: Issue_def)
next
  case (Inr t)
  obtain block copyBlock jobID where t: "t = (block, copyBlock, jobID)" by (cases t)
  define job where "job = \<lparr>mj_block = copyBlock, mj_issuedAt = now, mj_expiresAt = now + cc_JobTTL (co_config c), mj_seen = {}\<rparr>"
  have table: "table_ok (cc_MaxJobs (co_config c)) (co_order c) (co_jobs c)" and p: "co_params c = p"
    using assms(1) by (simp_all add: coord_inv_def)
  obtain order jobs where add: "add_job mj_expiresAt now (cc_MaxJobs (co_config c)) jobID job (co_order c) (co_jobs c) = Inr (order, jobs)"
    "table_ok (cc_MaxJobs (co_config c)) order jobs" "map_of jobs jobID = Some job"
    "\<And>k j. map_of jobs k = Some j \<Longrightarrow> k = jobID \<or> (map_of (co_jobs c) k = Some j \<and> now < mj_expiresAt j)"
    using add_job_ok [OF table, of mj_expiresAt now jobID job] by metis
  define work where "work = \<lparr>wk_SchemaVersion = 1, wk_Network = co_network c, wk_JobID = jobID, wk_Height = snd (Tip chain') + 1,
                wk_HeaderHex = hex_EncodeToString (hdr_Bytes (blk_Header block)),
                wk_TargetHex = format_hex 64 (CompactToTarget (hdr_Bits (blk_Header block))), wk_ExpiresAt = now + cc_JobTTL (co_config c),
                wk_ArgonMemKiB = ArgonMemKiB p, wk_ArgonTime = ArgonTime p\<rparr>"
  have r: "r = Inr work" "c' = c\<lparr>co_order := order, co_jobs := jobs\<rparr>"
    using assms(2) Inr t add(1) p by (simp_all add: Issue_def Let_def job_def work_def)
  have "coord_inv p c'"
    unfolding r(2)
  proof (rule coord_inv_jobs [OF assms(1) add(2)])
    fix k j
    assume k: "map_of jobs k = Some j"
    then show "mj_expiresAt j = mj_issuedAt j + cc_JobTTL (co_config c)"
      using add(3) add(4) [OF k] coord_inv_entry [OF assms(1)] by (auto simp: job_def)
  qed
  then show ?thesis
    using ok [of work block copyBlock jobID job] r add Inr t by (simp add: work_def job_def)
qed

lemma claim_nonce_inv:
  "claim_nonce now tipID jobID nonce c = (r, c') \<Longrightarrow> coord_inv p c \<Longrightarrow> coord_inv p c'"
proof -
  assume run: "claim_nonce now tipID jobID nonce c = (r, c')" and inv: "coord_inv p c"
  have table: "table_ok (cc_MaxJobs (co_config c)) (co_order c) (co_jobs c)" using inv by (simp add: coord_inv_def)
  have same: "c\<lparr>co_order := co_order c, co_jobs := jobs\<rparr> = c\<lparr>co_jobs := jobs\<rparr>" for jobs by simp
  have del: "coord_inv p (delete_job jobID c)"
    unfolding delete_job_def same [symmetric]
    by (rule coord_inv_jobs [OF inv table_ok_delete [OF table]]) (auto simp: AList.delete_conv' coord_inv_entry [OF inv] split: if_splits)
  have upd: "coord_inv p (c\<lparr>co_jobs := AList.update jobID (job\<lparr>mj_seen := s\<rparr>) (co_jobs c)\<rparr>)"
    if job: "map_of (co_jobs c) jobID = Some job" for job s
    unfolding same [symmetric] using job
    by (intro coord_inv_jobs [OF inv table_ok_update [OF table]]) (auto simp: AList.update_conv' coord_inv_entry [OF inv] split: if_splits)
  show ?thesis using run inv del upd by (auto simp: claim_nonce_def split: option.splits if_splits)
qed

interpretation coordinator_machine: state_machine "coord_init p" "coord_step K" "coord_inv p"
proof
  show "coord_init p c \<Longrightarrow> coord_inv p c" for c by (rule coord_inv_init)
  fix c c'
  assume inv: "coord_inv p c" and "coord_step K c c'"
  from this(2) show "coord_inv p c'"
  proof (cases rule: coord_step.cases)
    case (step_issue chain chain' now clock raw address worker r)
    show ?thesis using Issue_cases [OF inv step_issue] inv by metis
  next
    case (step_claim now tipID jobID nonce r)
    then show ?thesis using claim_nonce_inv inv by blast
  next
    case step_clear
    then show ?thesis using inv by (auto simp: clear_jobs_def coord_inv_def table_ok_def)
  qed
qed

end
