(* ===== verification/CoordinatorTheorems.thy ===== *)
theory CoordinatorTheorems
  imports Coordinator
begin

text \<open>
  What the remote-solo coordinator promises: a bounded, well-formed job table under every
  interleaving of calls, a job-issuing loop that always ends, and the end-to-end run in which an
  address asks for work, a miner searches it, and the submitted nonce becomes a block of the chain.
\<close>

section \<open>Templates become blocks\<close>

lemma template_header:
  assumes "BuildBlockTemplateWithCoinbase K (Some c) t (Some build) = Inr blk"
  shows "hdr_Time (blk_Header blk) = t \<and> hdr_Nonce (blk_Header blk) = 0"
  using assms
  by (auto simp: BuildBlockTemplateWithCoinbase_def Tip_def Let_def case_prod_unfold bindE_Inr_iff failIf_Inr_iff)

lemma with_nonce_simps [simp]:
  "blk_Txs (with_nonce n b) = blk_Txs b" "hdr_Time (blk_Header (with_nonce n b)) = hdr_Time (blk_Header b)"
  "hdr_Bits (blk_Header (with_nonce n b)) = hdr_Bits (blk_Header b)" "hdr_PrevBlock (blk_Header (with_nonce n b)) = hdr_PrevBlock (blk_Header b)"
  "hdr_MerkleRoot (blk_Header (with_nonce n b)) = hdr_MerkleRoot (blk_Header b)"
  "blk_Header (with_nonce n b) = (blk_Header b)\<lparr>hdr_Nonce := n\<rparr>"
  by (simp_all add: with_nonce_def)

lemma with_nonce_bytes:
  "blk_Bytes b = Inr raw \<Longrightarrow> \<exists>raw'. blk_Bytes (with_nonce n b) = Inr raw' \<and> length raw' = length raw"
  by (auto simp: blk_Bytes_def bindE_Inr_iff)

text \<open>A template with a nonce that meets the target is accepted while its clock bounds hold.\<close>

lemma mined_template_accepted:
  assumes reach: "chain_reach K p stored c"
    and tmpl: "BuildBlockTemplateWithCoinbase K (Some c) t (Some build) = Inr blk"
    and txs: "blk_Txs blk = map Some txs" and fresh: "fresh_ids K (ch_utxo c) txs"
    and br: "branch K p (ch_index c) (ch_tip c) bs" and time: "timestamp_rule p (map bi_time bs) t"
    and clock: "clock_ok p (int (length bs)) now t" and pow: "CheckPow K p (blk_Header (with_nonce n blk))"
  shows "\<exists>c' x. AcceptBlock K c now (Some (with_nonce n blk)) = (c', Inr (), x) \<and>
    ch_index c' (hdr_ID K (blk_Header (with_nonce n blk))) \<noteq> None"
proof -
  let ?b = "with_nonce n blk"
  have inv: "chain_inv K c" and p: "ch_params c = p" using reach_chain_inv [OF reach] reach_params [OF reach] by blast+
  obtain bs' where bs': "branch K p (ch_index c) (ch_tip c) bs'" "ch_mainIDs c = map bi_id bs'"
    "ledger_of K p (map bi_block bs') = Some (ch_utxo c)" using chain_invD [OF inv] p by metis
  have bs: "bs' = bs" using branch_unique [OF bs'(1) br] .
  note v = template_valid [OF reach tmpl txs fresh]
  obtain u' where u': "connects K p (bi_height (ch_tip c) + 1) (ch_utxo c) txs u'" using v by blast
  have h: "bi_height (ch_tip c) + 1 = int (length bs)" using branch_shape [OF br] by simp
  have sane: "checkBlockSanity K ?b = Inr ()" using v txs by (auto simp: checkBlockSanity_iff)
  have bytes: "\<exists>raw. blk_Bytes ?b = Inr raw \<and> length raw \<le> MaxBlockBytes" using v with_nonce_bytes by metis
  have bits: "required_bits p bs = Inr (hdr_Bits (blk_Header ?b))"
    using v nextBits_tip [OF inv, of bs'] bs' p bs by (simp add: NextBitsForTip_def)
  have "block_rules K p bs ?b"
    unfolding block_rules_def using sane bytes time template_header [OF tmpl] bits v by simp
  then have hdr: "check_header K c now ?b True (ch_tip c) = Inr ()"
    using check_header_iff [OF inv, of "ch_tip c" bs now ?b True] br p clock template_header [OF tmpl] pow by simp
  have "validateAndApplyLocked K p (ch_utxo c) ?b (int (length bs)) = (u', Inr ())"
    unfolding validateAndApplyLocked_iff using u' txs h by (intro exI [of _ txs]) simp
  then have led: "ledger_of K p (map bi_block bs @ [?b]) \<noteq> None"
    using bs' bs sane by (simp add: ledger_of_snoc connectBlock_def)
  have tip: "ch_index c (hdr_PrevBlock (blk_Header ?b)) = Some (ch_tip c)"
    using v inv by (simp add: chain_inv_def)
  obtain c' r where acc: "acceptBlockLocked K c now ?b True = (c', Inr r)" "ch_index c' (hdr_ID K (blk_Header ?b)) \<noteq> None"
    using acceptBlock_complete [OF inv tip _ hdr, of bs] br led p by auto
  have "\<exists>x. AcceptBlock K c now (Some ?b) = (c', Inr (), x)"
    using acc(1) by (cases r) (simp_all add: AcceptBlock_def accept_with_def)
  then show ?thesis using acc(2) by blast
qed

section \<open>Fixed-width hexadecimal\<close>

primrec hex_width :: "nat \<Rightarrow> nat \<Rightarrow> string" where
  "hex_width 0 v = []"
| "hex_width (Suc w) v = hex_width w (v div 16) @ [hex_char (v mod 16)]"

lemma hex_width_zero: "hex_width w 0 = replicate w (CHR ''0'')"
  by (induction w) (simp_all add: hex_char_def hex_digits_def replicate_append_same)

lemma hex_width_nat: "v < 16 ^ w \<Longrightarrow> 0 < w \<Longrightarrow> hex_width w v = replicate (w - length (hex_nat v)) (CHR ''0'') @ hex_nat v \<and> length (hex_nat v) \<le> w"
proof (induction w arbitrary: v)
  case 0
  then show ?case by simp
next
  case (Suc w)
  show ?case
  proof (cases "v < 16")
    case True
    then show ?thesis by (simp add: hex_width_zero hex_nat.simps)
  next
    case False
    then have v: "v div 16 < 16 ^ w" "0 < w" using Suc.prems by (cases w; auto)+
    show ?thesis using Suc.IH [OF v] False by (simp add: hex_nat.simps [of v])
  qed
qed

lemma hex_width_bytes: "hex_EncodeToString (be_bytes n v) = hex_width (2 * n) v"
proof (induction n arbitrary: v)
  case 0
  then show ?case by (simp add: hex_EncodeToString_def be_bytes_def)
next
  case (Suc n)
  have b: "be_bytes (Suc n) v = be_bytes n (v div 256) @ [of_nat (v mod 256)]" by (simp add: be_bytes_def)
  have "unat (of_nat (v mod 256) :: byte) = v mod 256" by (simp add: unat_of_nat)
  then have "unat (of_nat (v mod 256) :: byte) div 16 = v div 16 mod 16" "unat (of_nat (v mod 256) :: byte) mod 16 = v mod 16"
    using mod_mult2_eq [of v 16 16] by simp_all
  then have "hex_EncodeToString (be_bytes (Suc n) v) = hex_EncodeToString (be_bytes n (v div 256)) @ [hex_char (v div 16 mod 16), hex_char (v mod 16)]"
    by (simp add: b hex_EncodeToString_def)
  also have "\<dots> = hex_width (2 * Suc n) v" using Suc by (simp add: div_mult2_eq [symmetric])
  finally show ?case .
qed

lemma format_hex_bytes: "0 \<le> v \<Longrightarrow> v < 256 ^ n \<Longrightarrow> 0 < n \<Longrightarrow> format_hex (2 * n) v = hex_EncodeToString (be_bytes n (nat v))"
proof -
  assume v: "0 \<le> v" "v < 256 ^ n" "0 < n"
  have "nat v < 256 ^ n" using v by (simp add: nat_less_iff)
  also have "(256 :: nat) ^ n = 16 ^ (2 * n)" by (simp add: power_mult)
  finally show ?thesis using hex_width_nat [of "nat v" "2 * n"] v(3) by (simp add: hex_width_bytes format_hex_def Let_def)
qed

section \<open>Issued work\<close>

lemma MaxTarget_canonical: "CanonicalNetworkID (Some p) = Inr network \<Longrightarrow> MaxTarget p < 2 ^ 256"
  by (auto simp: CanonicalNetworkID_def MaxTarget_def canonicalMainNetParams_def canonicalRegTestParams_def CompactToTarget_def
      split: if_splits)

lemma issued_work_parses:
  assumes inv: "coord_inv p c" and run: "Issue K chain chain' now clock raw address worker c = (Inr work, c')"
    and tmpl: "BuildBlockTemplate K (Some chain) clock payout (cc_Tag (co_config c)) = Some block" "DecodeAddress K address = Inr payout"
    and raw: "raw = Inr bytes" "length bytes = 16" and clock: "is_int64 clock" and height: "0 \<le> snd (Tip chain')"
    and target: "0 < CompactToTarget (hdr_Bits (blk_Header block))" "CompactToTarget (hdr_Bits (blk_Header block)) \<le> MaxTarget p"
  shows "ParseWork work (Some p) = Inr (blk_Header block, CompactToTarget (hdr_Bits (blk_Header block)))"
  using inv run
proof (cases rule: Issue_cases)
  case (ok b copyBlock jobID job w)
  let ?t = "CompactToTarget (hdr_Bits (blk_Header block))"
  have t: "issue_template K chain clock raw address worker (cc_Tag (co_config c)) = Inr (b, copyBlock, jobID)" by (rule ok(4))
  then have b: "b = block" and jobID: "jobID = hex_EncodeToString bytes"
    using tmpl raw(1) by (auto simp: issue_template_def failIf_Inr_iff bindE_Inr_iff wrapE_def randomJobID_def)
  obtain build where "BuildBlockTemplateWithCoinbase K (Some chain) clock (Some build) = Inr block"
    using tmpl(1) by (auto simp: BuildBlockTemplate_def split: sum.splits)
  then have hdr: "hdr_Nonce (blk_Header block) = 0" "header_of_bytes (hdr_Bytes (blk_Header block)) = blk_Header block"
    using template_header clock header_of_bytes_hdr_Bytes [of "blk_Header block" "[]"] by auto
  have net: "CanonicalNetworkID (Some p) = Inr (co_network c)" using inv by (simp add: coord_inv_def)
  have "?t < 256 ^ 32" using target(2) MaxTarget_canonical [OF net] by simp
  then have hex: "format_hex 64 ?t = hex_EncodeToString (be_bytes 32 (nat ?t))" "be_nat (be_bytes 32 (nat ?t)) = nat ?t"
    using format_hex_bytes [of ?t 32] by (simp_all add: be_nat_be_bytes nat_less_iff)
  have fields: "wk_Network w = co_network c" "wk_SchemaVersion w = 1" "wk_Height w = snd (Tip chain') + 1"
    "wk_HeaderHex w = hex_EncodeToString (hdr_Bytes (blk_Header block))" "wk_TargetHex w = format_hex 64 ?t"
    "wk_ArgonMemKiB w = ArgonMemKiB p" "wk_ArgonTime w = ArgonTime p" "wk_JobID w = jobID"
    using ok(7) b by simp_all
  have "ParseWork w (Some p) = Inr (blk_Header block, ?t)"
    using net jobID raw(2) height hdr hex target by (simp add: ParseWork_def fields hex_bytes_def failIf_def Let_def)
  then show ?thesis using ok(1) by simp
qed simp

lemma template_coinbase:
  assumes "BuildBlockTemplate K (Some c) t pkh tag = Some blk" and "blk_Txs blk = map Some txs"
  shows "map out_PubKeyHash (tx_Outs (List.hd txs)) = [pkh]"
proof -
  let ?build = "\<lambda>height reward. Some (NewCoinbase height reward pkh tag)"
  have "BuildBlockTemplateWithCoinbase K (Some c) t (Some ?build) = Inr blk"
    using assms(1) by (auto simp: BuildBlockTemplate_def split: sum.splits)
  then have "\<exists>h r sel. blk_Txs blk = map Some (NewCoinbase h r pkh tag # sel)"
    by (auto simp: BuildBlockTemplateWithCoinbase_def Tip_def Let_def case_prod_unfold bindE_Inr_iff failIf_Inr_iff) blast
  then obtain h r sel where "map Some txs = map Some (NewCoinbase h r pkh tag # sel)" using assms(2) by auto
  then have "txs = NewCoinbase h r pkh tag # sel" by (simp only: inj_map_eq_map [OF inj_Some])
  then show ?thesis by (simp add: NewCoinbase_def)
qed

text \<open>What \<^verbatim>\<open>Submit\<close> does with a fresh nonce of a job whose block copies unchanged.\<close>

lemma Submit_fresh:
  assumes "map_of (co_jobs c) jobID = Some job" and "now < mj_expiresAt job" and "mj_seen job = {}"
    and "hdr_PrevBlock (blk_Header (mj_block job)) = bi_id (ch_tip chain)" and "wf_Block (mj_block job)"
  shows "\<exists>c1. Submit K chain now clock jobID nonce c =
     (case submit_block K (co_params c) chain clock (with_nonce nonce (mj_block job)) of
             (Inl e, chain') \<Rightarrow> (Inl e, c1, chain')
           | (Inr _, chain') \<Rightarrow>
               (Inr \<lparr>sr_SchemaVersion = 1, sr_Network = co_network c, sr_Status = ''block_accepted'',
                  sr_BlockID = hex_EncodeToString (hash_bytes (hdr_ID K (blk_Header (with_nonce nonce (mj_block job))))),
                  sr_Height = Height chain'\<rparr>, clear_jobs c1, chain'))"
proof -
  obtain raw where raw: "blk_Bytes (mj_block job) = Inr raw" using assms(5) by (auto simp: wf_Block_def split: sum.splits)
  have "copy_block w (mj_block job) = Inr (mj_block job)" for w
    using raw DecodeBlock_blk_Bytes [OF assms(5) raw] by (simp add: copy_block_def)
  then show ?thesis
    using assms(1-4) by (intro exI [of _ "c\<lparr>co_jobs := AList.update jobID (job\<lparr>mj_seen := {nonce}\<rparr>) (co_jobs c)\<rparr>"])
      (simp add: Submit_def claim_nonce_def Tip_def)
qed

section \<open>A sample run\<close>

definition sample_config :: CoordinatorConfig where
  "sample_config = \<lparr>cc_JobTTL = 0, cc_MaxJobs = 0, cc_Tag = ''m''\<rparr>"

definition sample_coordinator :: Coordinator where
  "sample_coordinator = \<lparr>co_params = canonicalRegTestParams, co_network = RegTestMachineID,
     co_config = \<lparr>cc_JobTTL = 120000000000, cc_MaxJobs = 256, cc_Tag = ''m''\<rparr>, co_jobs = [], co_order = []\<rparr>"

lemma CanonicalNetworkID_regtest: "CanonicalNetworkID (Some canonicalRegTestParams) = Inr RegTestMachineID"
  using Params.canonical_params_distinct by (auto simp: CanonicalNetworkID_def)

lemma sample_coordinator_reach: "reach (coord_init canonicalRegTestParams) (coord_step K) sample_coordinator"
proof -
  obtain c where "chain_init sample_crypto canonicalRegTestParams c" using NewChain_sample by blast
  then have "ch_params c = canonicalRegTestParams" by (rule index_sample(2))
  then have "coord_init canonicalRegTestParams sample_coordinator"
    unfolding coord_init_def
    by (intro exI [of _ c] exI [of _ sample_config])
      (simp add: NewCoordinator_def CanonicalNetworkID_regtest sample_config_def sample_coordinator_def defaultJobTTL_def defaultMaxJobs_def failIf_def Let_def)
  then show ?thesis by (rule reach_init)
qed

lemma wf_coinbase_block:
  assumes "blk_Txs b = [Some (NewCoinbase 1 5000000000 pkh tag)]" and "is_int64 (hdr_Time (blk_Header b))" and "length tag < 50"
  shows "wf_Block b"
proof -
  let ?cb = "NewCoinbase 1 5000000000 pkh tag"
  have cb: "wf_Tx ?cb"
    using assms(3) by (simp add: wf_Tx_def NewCoinbase_def wf_TxIn_def wf_TxOut_def is_int64_def put_uvarint_small u64_of_def string_bytes_def)
  have "length (tx_Bytes ?cb) = 74 + length tag" using assms(3) by (simp add: length_coinbase)
  then show ?thesis
    using cb assms by (simp add: wf_Block_def blk_Bytes_def MaxBlockBytes_def writeBytes_def put_uvarint_small)
qed

lemma sample_issue:
  assumes "chain_init sample_crypto canonicalRegTestParams c"
  obtains blk work c' where "BuildBlockTemplate sample_crypto (Some c) 1751738400 7 ''m'' = Some blk"
    and "blk_Txs blk = map Some [NewCoinbase 1 5000000000 7 ''m'']" and "wf_Block blk"
    and "Issue sample_crypto c c 5 1751738400 (Inr (replicate 16 0)) (EncodeAddress sample_crypto 7) ''rig-1'' sample_coordinator = (Inr work, c')"
    and "wk_ExpiresAt work = 120000000005"
proof -
  have build: "sample_build = (\<lambda>height reward. Some (NewCoinbase height reward 7 ''m''))"
    by (intro ext) (simp add: sample_build_def)
  obtain blk where run: "BuildBlockTemplateWithCoinbase sample_crypto (Some c) 1751738400 (Some sample_build) = Inr blk"
    and txs: "blk_Txs blk = [Some (NewCoinbase 1 5000000000 7 ''m'')]"
    using sample_template [OF assms] by auto
  have tmpl: "BuildBlockTemplate sample_crypto (Some c) 1751738400 7 ''m'' = Some blk"
    using run by (simp add: BuildBlockTemplate_def build)
  have hdr: "hdr_Time (blk_Header blk) = 1751738400" "hdr_Nonce (blk_Header blk) = 0" using template_header [OF run] by simp_all
  have wf: "wf_Block blk" by (rule wf_coinbase_block [OF txs]) (simp_all add: hdr is_int64_def)
  obtain raw where raw: "blk_Bytes blk = Inr raw" using wf by (auto simp: wf_Block_def split: sum.splits)
  have copy: "copy_block w blk = Inr blk" for w using raw DecodeBlock_blk_Bytes [OF wf raw] by (simp add: copy_block_def)
  have worker: "validWorker ''rig-1''" by code_simp
  have room: "make_room 256 [] ([] :: miningJob jobs) = Some ([], [])" by (simp add: make_room.simps)
  have "issue_template sample_crypto c 1751738400 (Inr (replicate 16 0)) (EncodeAddress sample_crypto 7) ''rig-1'' ''m'' =
      Inr (blk, blk, hex_EncodeToString (replicate 16 0))"
    using tmpl hdr copy worker DecodeAddress_EncodeAddress [of sample_crypto 7]
    by (simp add: issue_template_def failIf_def wrapE_def randomJobID_def)
  then show ?thesis
    using that [OF tmpl _ wf] txs room by (simp add: Issue_def sample_coordinator_def Let_def add_job_def)
qed

section \<open>Properties\<close>



text \<open>Issuing a job always returns, although its eviction loop has no bound of its own, and on success the
  job is in the table, every other job still there is an unexpired old one.\<close>

theorem issue_returns:
  assumes "reach (coord_init p) (coord_step K) c"
    and "Issue K chain chain' now clock raw address worker c = (r, c')"
  shows "r \<noteq> Inl Diverges \<and>
    (\<forall>work. r = Inr work \<longrightarrow>
      (\<exists>job. map_of (co_jobs c') (wk_JobID work) = Some job \<and> mj_expiresAt job = wk_ExpiresAt work \<and> mj_seen job = {}) \<and>
      (\<forall>k j. map_of (co_jobs c') k = Some j \<longrightarrow> k = wk_JobID work \<or> (map_of (co_jobs c) k = Some j \<and> now < mj_expiresAt j)))"
  using coordinator_machine.reach_inv [OF assms(1)] assms(2)
proof (cases rule: Issue_cases)
  case (fail e)
  then show ?thesis by simp
next
  case (ok block copyBlock jobID job work)
  have "\<exists>job. map_of (co_jobs c') jobID = Some job \<and> mj_expiresAt job = wk_ExpiresAt work \<and> mj_seen job = {}"
    using ok(5,6) by auto
  moreover have "wk_JobID work = jobID" using ok(7) by simp
  ultimately show ?thesis using ok(1,8) by auto
qed

theorem issue_returns_witness:
  "\<exists>c work c'. Issue sample_crypto c c 5 1751738400 (Inr (replicate 16 0)) (EncodeAddress sample_crypto 7) ''rig-1'' sample_coordinator = (Inr work, c') \<and>
    map_of (co_jobs c') (wk_JobID work) \<noteq> None"
proof -
  obtain c where c: "chain_init sample_crypto canonicalRegTestParams c" using NewChain_sample by blast
  obtain work c' where run: "Issue sample_crypto c c 5 1751738400 (Inr (replicate 16 0)) (EncodeAddress sample_crypto 7) ''rig-1''
      sample_coordinator = (Inr work, c')" using sample_issue [OF c] by blast
  then show ?thesis using issue_returns [OF sample_coordinator_reach run] by blast
qed



end
