(* ===== verification/PplnsCoordinator.thy ===== *)
theory PplnsCoordinator
  imports CoordinatorTheorems
begin

text \<open>
  The non-custodial pool of \<^verbatim>\<open>pool/pplns_coordinator.go\<close>: issuing PPLNS work for the current share
  window, and submitting nonces, which persists the share before acknowledging it and hands a
  network-winning block to the chain. The chain and the window the coordinator points to are passed
  along. Jobs are Go pointers that the code compares: \<open>pj_ref\<close> is the identity of the allocation and
  \<open>pn_next\<close> the next free one. Where the lock is released the code is split, as in \<open>Coordinator\<close>;
  \<^verbatim>\<open>Issue\<close> and \<^verbatim>\<open>Submit\<close> take the chain once for each time they read it. The floating-point
  hash rate is computed by the parameter \<open>rate\<close> from total work and the span in nanoseconds.
\<close>

section \<open>State\<close>

definition ErrLowShareDifficulty :: error where "ErrLowShareDifficulty = Err ''nonce does not meet PPLNS share target''"
definition ErrPPLNSSubmissionLimit :: error where "ErrPPLNSSubmissionLimit = Err ''PPLNS job submission limit reached''"

definition defaultShareTargetMultiplier :: uint64 where "defaultShareTargetMultiplier = 64"
definition defaultMaxPPLNSSubmissions :: int where "defaultMaxPPLNSSubmissions = 1024"
definition defaultMaxPPLNSReceipts :: int where "defaultMaxPPLNSReceipts = 4096"
definition maxShareTargetMultiplier :: uint64 where "maxShareTargetMultiplier = 65536"

record PPLNSCoordinatorConfig =
  pg_JobTTL :: int
  pg_MaxJobs :: int
  pg_MaxSubmissionsPerJob :: int
  pg_MaxReceipts :: int
  pg_ShareTargetMultiplier :: uint64
  pg_Tag :: string

record pplnsMiningJob =
  pj_ref :: nat
  pj_block :: Block
  pj_address :: address
  pj_height :: int
  pj_issuedAt :: instant
  pj_expiresAt :: instant
  pj_networkTarget :: int
  pj_shareTarget :: int
  pj_seen :: "uint64 set"

record PoolSubmitResult =
  pr_SchemaVersion :: int
  pr_Network :: string
  pr_Status :: string
  pr_ShareHash :: string
  pr_ShareSequence :: uint64
  pr_BlockID :: string
  pr_Height :: int

record PPLNSCoordinator =
  pn_params :: Params
  pn_network :: string
  pn_config :: PPLNSCoordinatorConfig
  pn_jobs :: "pplnsMiningJob jobs"
  pn_order :: "string list"
  pn_receipts :: "(string \<times> PoolSubmitResult) list"
  pn_receiptOrder :: "string list"
  pn_next :: nat

record 'f PPLNSStatus =
  st_SchemaVersion :: int
  st_Network :: string
  st_Mode :: string
  st_FeeBPS :: int
  st_TipHash :: string
  st_TipHeight :: int
  st_CoinbaseMaturity :: int
  st_WindowShares :: int
  st_MaxAddresses :: int
  st_CurrentShares :: int
  st_DistinctAddresses :: int
  st_HashrateHPS :: 'f
  st_HashrateWindowSec :: 'f
  st_MinPayoutUnits :: int
  st_NextSequence :: uint64
  st_PPLNSStateHash :: string
  st_Weights :: "PPLNSPayoutWeight list"
  st_Shares :: "PPLNSShare list"

section \<open>Construction and status\<close>

definition validPPLNSCoordinatorTag :: "string \<Rightarrow> bool" where
  "validPPLNSCoordinatorTag tag \<longleftrightarrow>
     1 \<le> length tag \<and> length tag \<le> 64 \<and> list_all (\<lambda>c. 0x21 \<le> (of_char c :: nat) \<and> (of_char c :: nat) \<le> 0x7e) tag"

definition default_int :: "int \<Rightarrow> int \<Rightarrow> int" where
  "default_int d v = (if v = 0 then d else v)"

definition NewPPLNSCoordinator ::
  "Chain option \<Rightarrow> PPLNSSnapshot option \<Rightarrow> PPLNSCoordinatorConfig \<Rightarrow> PPLNSCoordinator res"
where
  "NewPPLNSCoordinator chain window config =
     (case (chain, window) of
        (Some ch, Some snapshot) \<Rightarrow>
          bindE (CanonicalNetworkID (Some (ch_params ch))) (\<lambda>network.
          failIf (ps_Network snapshot \<noteq> network \<or> ps_SchemaVersion snapshot \<noteq> pplnsStateSchemaVersion)
            (Err ''PPLNS window network mismatch'')
          (let ttl = default_int defaultJobTTL (pg_JobTTL config);
               maxJobs = default_int defaultMaxJobs (pg_MaxJobs config);
               maxSubmissions = default_int defaultMaxPPLNSSubmissions (pg_MaxSubmissionsPerJob config);
               maxReceipts = default_int defaultMaxPPLNSReceipts (pg_MaxReceipts config);
               multiplier = (if pg_ShareTargetMultiplier config = 0 then defaultShareTargetMultiplier
                             else pg_ShareTargetMultiplier config);
               tag = (if pg_Tag config = [] then ''btc09-pplns-v2'' else pg_Tag config)
           in
           failIf (ttl < 10 ^ 9 \<or> ttl > 10 * 60 * 10 ^ 9) (Err ''job TTL must be between one second and ten minutes'')
           (failIf (maxJobs < 1 \<or> maxJobs > 4096) (Err ''max jobs must be between 1 and 4096'')
           (failIf (maxSubmissions < 1 \<or> maxSubmissions > 65536) (Err ''max submissions per job must be between 1 and 65536'')
           (failIf (maxReceipts < 1 \<or> maxReceipts > 65536) (Err ''max PPLNS receipts must be between 1 and 65536'')
           (failIf (multiplier < 1 \<or> multiplier > maxShareTargetMultiplier) (Err ''share target multiplier is out of range'')
           (failIf (\<not> validPPLNSCoordinatorTag tag) (Err ''coordinator tag must be 1 to 64 visible ASCII characters'')
           (Inr \<lparr>pn_params = ch_params ch, pn_network = network,
              pn_config = \<lparr>pg_JobTTL = ttl, pg_MaxJobs = maxJobs, pg_MaxSubmissionsPerJob = maxSubmissions,
                pg_MaxReceipts = maxReceipts, pg_ShareTargetMultiplier = multiplier, pg_Tag = tag\<rparr>,
              pn_jobs = [], pn_order = [], pn_receipts = [], pn_receiptOrder = [], pn_next = 0\<rparr>))))))))
      | _ \<Rightarrow> Inl (Err ''chain and PPLNS window are required''))"

definition scan_hashrate :: "int \<times> int \<times> int \<Rightarrow> PPLNSShare \<Rightarrow> (int \<times> int \<times> int) res" where
  "scan_hashrate st share =
     (case st of (work, earliest, latest) \<Rightarrow>
      case parseCanonicalTarget (sh_ShareTarget share) of
        Inl _ \<Rightarrow> Inl (Err ''PPLNS share target is invalid'')
      | Inr target \<Rightarrow>
          Inr (work + WorkFromTarget target,
               if sh_AcceptedAt share < earliest then sh_AcceptedAt share else earliest,
               if sh_AcceptedAt share > latest then sh_AcceptedAt share else latest))"

definition pplnsWindowHashrate :: "'f \<Rightarrow> (int \<Rightarrow> int \<Rightarrow> 'f \<times> 'f) \<Rightarrow> PPLNSSnapshot \<Rightarrow> ('f \<times> 'f) res" where
  "pplnsWindowHashrate zero rate snapshot =
     (case ps_Shares snapshot of
        share # _ # _ \<Rightarrow>
          bindE (foldE scan_hashrate (0, sh_AcceptedAt share, sh_AcceptedAt share) (ps_Shares snapshot)) (\<lambda>(work, earliest, latest).
          if latest - earliest \<le> 0 then Inr (zero, zero) else Inr (rate work (latest - earliest)))
      | _ \<Rightarrow> Inr (zero, zero))"

definition Status ::
  "crypto \<Rightarrow> (PPLNSSnapshot \<Rightarrow> byte list res) \<Rightarrow> 'f \<Rightarrow> (int \<Rightarrow> int \<Rightarrow> 'f \<times> 'f) \<Rightarrow> Chain \<Rightarrow> PPLNSSnapshot \<Rightarrow> PPLNSCoordinator \<Rightarrow>
     'f PPLNSStatus res"
where
  "Status K mj zero rate chain snapshot c =
     failIf (ps_Network snapshot \<noteq> pn_network c) (Err ''PPLNS window network mismatch'')
     (bindE (pplnsSnapshotHash K mj snapshot) (\<lambda>stateHash.
      bindE (pplnsWeights snapshot) (\<lambda>weights.
      bindE (pplnsWindowHashrate zero rate snapshot) (\<lambda>(hashrate, hashrateSpan).
      case Tip chain of (tipHash, tipHeight) \<Rightarrow>
      Inr \<lparr>st_SchemaVersion = 2, st_Network = pn_network c, st_Mode = ''pplns'', st_FeeBPS = 0,
        st_TipHash = hex_EncodeToString (hash_bytes tipHash), st_TipHeight = tipHeight,
        st_CoinbaseMaturity = CoinbaseMaturity (pn_params c), st_WindowShares = ps_WindowShares snapshot,
        st_MaxAddresses = ps_MaxAddresses snapshot, st_CurrentShares = int (length (ps_Shares snapshot)),
        st_DistinctAddresses = int (length weights), st_HashrateHPS = hashrate, st_HashrateWindowSec = hashrateSpan,
        st_MinPayoutUnits = 0, st_NextSequence = ps_NextSequence snapshot, st_PPLNSStateHash = stateHash,
        st_Weights = weights, st_Shares = ps_Shares snapshot\<rparr>))))"

section \<open>Issuing work\<close>

text \<open>The coinbase builder; the payouts of a successful allocation are never empty.\<close>

definition pool_coinbase :: "crypto \<Rightarrow> PPLNSSnapshot \<Rightarrow> PKH \<Rightarrow> string \<Rightarrow> CoinbaseBuilder" where
  "pool_coinbase K snapshot payout coinbaseTag height reward =
     (if ps_Shares snapshot = [] then Some (NewCoinbase height reward payout coinbaseTag)
      else case pplnsPayouts K snapshot reward of
        Inl _ \<Rightarrow> None
      | Inr outputs \<Rightarrow> Some ((NewCoinbase height reward (out_PubKeyHash (outputs ! 0)) coinbaseTag)\<lparr>tx_Outs := outputs\<rparr>))"

record issued =
  is_block :: Block
  is_copy :: Block
  is_jobID :: string
  is_stateHash :: string
  is_branch :: "string list"
  is_basis :: string
  is_weights :: "PPLNSPayoutWeight list"

definition payout_basis :: "address \<Rightarrow> PPLNSSnapshot \<Rightarrow> (string \<times> PPLNSPayoutWeight list) res" where
  "payout_basis address snapshot =
     bindE (pplnsWeights snapshot) (\<lambda>payoutWeights.
     Inr (if ps_Shares snapshot = []
          then (''requester'', [\<lparr>pt_Address = address, pt_Shares = 1, pt_WorkHex = format_hex 68 1\<rparr>])
          else (''pplns_window'', payoutWeights)))"

definition pool_template ::
  "crypto \<Rightarrow> (PPLNSSnapshot \<Rightarrow> byte list res) \<Rightarrow> int \<Rightarrow> Chain \<Rightarrow> int \<Rightarrow> byte list res \<Rightarrow> PPLNSSnapshot \<Rightarrow> address \<Rightarrow> string \<Rightarrow>
     PPLNSCoordinator \<Rightarrow> issued res"
where
  "pool_template K mj tipHeight chain clock raw snapshot address worker c =
     (case payout_pkh K address of
        None \<Rightarrow> Inl (Err ''invalid payout address'')
      | Some payout \<Rightarrow>
          failIf (\<not> validWorker worker) (Err ''invalid worker label'')
          (failIf (ps_Network snapshot \<noteq> pn_network c) (Err ''PPLNS window network mismatch'')
          (bindE (pplnsSnapshotHash K mj snapshot) (\<lambda>stateHash.
           bindE (if ps_Shares snapshot = [] then Inr [] else pplnsPayouts K snapshot (SubsidyAt (tipHeight + 1))) (\<lambda>_.
           bindE (wrapE ''build PPLNS template'' (BuildBlockTemplateWithCoinbase K (Some chain) clock
                   (Some (pool_coinbase K snapshot payout (pg_Tag (pn_config c) @ '':'' @ stateHash))))) (\<lambda>block.
           failIf (hdr_Nonce (blk_Header block) \<noteq> 0) (Err ''build PPLNS template returned an invalid block'')
           (bindE (copy_block ''copy PPLNS template'' block) (\<lambda>copyBlock.
            bindE (wrapE ''create job id'' (randomJobID raw)) (\<lambda>jobID.
            bindE (wrapE ''build coinbase merkle branch'' (MerkleBranch K (blk_Txs block) 0)) (\<lambda>branch.
            bindE (payout_basis address snapshot) (\<lambda>(payoutBasis, payoutWeights).
            Inr \<lparr>is_block = block, is_copy = copyBlock, is_jobID = jobID, is_stateHash = stateHash,
               is_branch = map (\<lambda>h. hex_EncodeToString (hash_bytes h)) branch, is_basis = payoutBasis,
               is_weights = payoutWeights\<rparr>)))))))))))"

definition share_target :: "Params \<Rightarrow> uint64 \<Rightarrow> int \<Rightarrow> int" where
  "share_target p multiplier networkTarget =
     (let shareTarget = networkTarget * int (unat multiplier) in if shareTarget > MaxTarget p then MaxTarget p else shareTarget)"

definition coinbase_hex :: "Block \<Rightarrow> string res" where
  "coinbase_hex block =
     (case blk_Txs block of [] \<Rightarrow> Inl (Panic ''index out of range'')
      | tx # _ \<Rightarrow> bindE (deref tx) (\<lambda>cb. Inr (hex_EncodeToString (tx_Bytes cb))))"

definition IssuePool ::
  "crypto \<Rightarrow> (PPLNSSnapshot \<Rightarrow> byte list res) \<Rightarrow> int \<Rightarrow> Chain \<Rightarrow> instant \<Rightarrow> int \<Rightarrow> byte list res \<Rightarrow> PPLNSSnapshot \<Rightarrow> address \<Rightarrow> string \<Rightarrow>
     PPLNSCoordinator \<Rightarrow> PoolWork res \<times> PPLNSCoordinator"
where
  "IssuePool K mj tipHeight chain now clock raw snapshot address worker c =
     (case pool_template K mj tipHeight chain clock raw snapshot address worker c of
        Inl e \<Rightarrow> (Inl e, c)
      | Inr i \<Rightarrow>
          let networkTarget = CompactToTarget (hdr_Bits (blk_Header (is_block i)));
              shareTarget = share_target (pn_params c) (pg_ShareTargetMultiplier (pn_config c)) networkTarget;
              builtHeight = snd (Tip chain) + 1;
              expires = now + pg_JobTTL (pn_config c);
              job = \<lparr>pj_ref = pn_next c, pj_block = is_copy i, pj_address = address, pj_height = builtHeight, pj_issuedAt = now,
                     pj_expiresAt = expires, pj_networkTarget = networkTarget, pj_shareTarget = shareTarget, pj_seen = {}\<rparr>
          in case add_job pj_expiresAt now (pg_MaxJobs (pn_config c)) (is_jobID i) job (pn_order c) (pn_jobs c) of
               Inl e \<Rightarrow> (Inl e, c)
             | Inr (order, jobs) \<Rightarrow>
                 let c' = c\<lparr>pn_order := order, pn_jobs := jobs, pn_next := Suc (pn_next c)\<rparr> in
                 (bindE (coinbase_hex (is_block i)) (\<lambda>coinbaseHex.
                  Inr \<lparr>po_SchemaVersion = 2, po_Network = pn_network c, po_Mode = ''pplns'', po_FeeBPS = 0,
                    po_JobID = is_jobID i, po_Height = builtHeight,
                    po_HeaderHex = hex_EncodeToString (hdr_Bytes (blk_Header (is_block i))),
                    po_NetworkTargetHex = format_hex 64 networkTarget, po_ShareTargetHex = format_hex 64 shareTarget,
                    po_ExpiresAt = expires, po_ArgonMemKiB = ArgonMemKiB (pn_params c), po_ArgonTime = ArgonTime (pn_params c),
                    po_WindowShares = ps_WindowShares snapshot, po_CurrentShares = int (length (ps_Shares snapshot)),
                    po_PPLNSStateHash = is_stateHash i, po_Window = snapshot, po_PayoutBasis = is_basis i,
                    po_PayoutWeights = is_weights i, po_CoinbaseHex = coinbaseHex, po_CoinbaseMerkleBranch = is_branch i\<rparr>),
                  c'))"

section \<open>Submitting a nonce\<close>

definition pplnsReceiptKey :: "string \<Rightarrow> uint64 \<Rightarrow> string" where
  "pplnsReceiptKey jobID nonce = jobID @ '':'' @ decimal (unat nonce)"

fun evict_receipts :: "int \<Rightarrow> string list \<Rightarrow> (string \<times> PoolSubmitResult) list \<Rightarrow> string list \<times> (string \<times> PoolSubmitResult) list" where
  "evict_receipts maxReceipts [] receipts = ([], receipts)"
| "evict_receipts maxReceipts (oldest # rest) receipts =
     (if int (length receipts) \<ge> maxReceipts then evict_receipts maxReceipts rest (AList.delete oldest receipts)
      else (oldest # rest, receipts))"

definition storeReceiptLocked :: "string \<Rightarrow> PoolSubmitResult \<Rightarrow> PPLNSCoordinator \<Rightarrow> PPLNSCoordinator" where
  "storeReceiptLocked key result c =
     (if map_of (pn_receipts c) key \<noteq> None then c\<lparr>pn_receipts := AList.update key result (pn_receipts c)\<rparr>
      else case evict_receipts (pg_MaxReceipts (pn_config c)) (pn_receiptOrder c) (pn_receipts c) of
        (order, receipts) \<Rightarrow> c\<lparr>pn_receiptOrder := order @ [key], pn_receipts := AList.update key result receipts\<rparr>)"

text \<open>The entry of a job id, if it is still the job with this identity.\<close>

definition same_job :: "string \<Rightarrow> nat \<Rightarrow> PPLNSCoordinator \<Rightarrow> pplnsMiningJob option" where
  "same_job jobID ref c =
     (case map_of (pn_jobs c) jobID of None \<Rightarrow> None | Some job \<Rightarrow> if pj_ref job = ref then Some job else None)"

definition releaseSubmission :: "string \<Rightarrow> nat \<Rightarrow> uint64 \<Rightarrow> PPLNSCoordinator \<Rightarrow> PPLNSCoordinator" where
  "releaseSubmission jobID ref nonce c =
     (case same_job jobID ref c of None \<Rightarrow> c
      | Some job \<Rightarrow> c\<lparr>pn_jobs := AList.update jobID (job\<lparr>pj_seen := pj_seen job - {nonce}\<rparr>) (pn_jobs c)\<rparr>)"

definition drop_job :: "string \<Rightarrow> nat \<Rightarrow> PPLNSCoordinator \<Rightarrow> PPLNSCoordinator" where
  "drop_job jobID ref c =
     (if same_job jobID ref c = None then c else c\<lparr>pn_jobs := AList.delete jobID (pn_jobs c)\<rparr>)"

datatype claim = Receipt PoolSubmitResult | Claimed pplnsMiningJob

text \<open>The first critical section.\<close>

definition claim_share :: "instant \<Rightarrow> Hash32 \<Rightarrow> string \<Rightarrow> uint64 \<Rightarrow> PPLNSCoordinator \<Rightarrow> claim res \<times> PPLNSCoordinator" where
  "claim_share now tipID jobID nonce c =
     (case map_of (pn_receipts c) (pplnsReceiptKey jobID nonce) of
        Some receipt \<Rightarrow> (Inr (Receipt receipt), c)
      | None \<Rightarrow>
     (case map_of (pn_jobs c) jobID of
        None \<Rightarrow> (Inl ErrUnknownJob, c)
      | Some job \<Rightarrow>
          if \<not> now < pj_expiresAt job then (Inl ErrExpiredJob, c\<lparr>pn_jobs := AList.delete jobID (pn_jobs c)\<rparr>)
          else if hdr_PrevBlock (blk_Header (pj_block job)) \<noteq> tipID
          then (Inl ErrStaleJob, c\<lparr>pn_jobs := AList.delete jobID (pn_jobs c)\<rparr>)
          else if nonce \<in> pj_seen job then (Inl ErrDuplicateSubmission, c)
          else if int (card (pj_seen job)) \<ge> pg_MaxSubmissionsPerJob (pn_config c) then (Inl ErrPPLNSSubmissionLimit, c)
          else (Inr (Claimed job),
                c\<lparr>pn_jobs := AList.update jobID (job\<lparr>pj_seen := insert nonce (pj_seen job)\<rparr>) (pn_jobs c)\<rparr>)))"

definition job_share :: "string \<Rightarrow> uint64 \<Rightarrow> instant \<Rightarrow> pplnsMiningJob \<Rightarrow> Hash32 \<Rightarrow> Hash32 \<Rightarrow> PPLNSShare" where
  "job_share jobID nonce now job shareHash prev =
     \<lparr>sh_Sequence = 0, sh_Address = pj_address job, sh_JobID = jobID, sh_Nonce = nonce,
      sh_ShareHash = hex_EncodeToString (hash_bytes shareHash), sh_ShareTarget = format_hex 64 (pj_shareTarget job),
      sh_TipHash = hex_EncodeToString (hash_bytes prev), sh_TipHeight = wrap64 (pj_height job - 1), sh_AcceptedAt = now\<rparr>"

definition clear_pool_jobs :: "PPLNSCoordinator \<Rightarrow> PPLNSCoordinator" where
  "clear_pool_jobs c = c\<lparr>pn_jobs := [], pn_order := []\<rparr>"

text \<open>The work between the claim and the answer. \<open>c\<close> is the coordinator after the claim.\<close>

definition settle_share ::
  "crypto \<Rightarrow> PPLNSIO \<Rightarrow> Chain \<Rightarrow> instant \<Rightarrow> int \<Rightarrow> string \<Rightarrow> uint64 \<Rightarrow> pplnsMiningJob \<Rightarrow> Block \<Rightarrow> PPLNSCoordinator \<Rightarrow> PPLNSWindow \<Rightarrow>
     PoolSubmitResult res \<times> PPLNSCoordinator \<times> PPLNSWindow \<times> Chain"
where
  "settle_share K io chain now clock jobID nonce job block c w =
     (let shareHash = PowHash K (hdr_Bytes (blk_Header block)) (pn_params c); shareValue = HashToBig shareHash in
      if shareValue > pj_shareTarget job then (Inl ErrLowShareDifficulty, c, w, chain)
      else if fst (Tip chain) \<noteq> hdr_PrevBlock (blk_Header block) then (Inl ErrStaleJob, drop_job jobID (pj_ref job) c, w, chain)
      else case Accept K io w (job_share jobID nonce now job shareHash (hdr_PrevBlock (blk_Header block))) of
        (w', Inl e) \<Rightarrow> (Inl e, releaseSubmission jobID (pj_ref job) nonce c, w', chain)
      | (w', Inr accepted) \<Rightarrow>
          let result = \<lparr>pr_SchemaVersion = 2, pr_Network = pn_network c, pr_Status = ''share_accepted'',
                pr_ShareHash = sh_ShareHash accepted, pr_ShareSequence = sh_Sequence accepted, pr_BlockID = [], pr_Height = pj_height job\<rparr>;
              key = pplnsReceiptKey jobID nonce;
              c1 = storeReceiptLocked key result c
          in if shareValue > pj_networkTarget job then (Inr result, c1, w', chain)
             else case AcceptBlock K chain clock (Some block) of
               (chain', Inl e, _) \<Rightarrow> (Inl (ErrBlockRejected e), c1, w', chain')
             | (chain', Inr _, _) \<Rightarrow>
                 let result' = result\<lparr>pr_Status := ''block_accepted'',
                       pr_BlockID := hex_EncodeToString (hash_bytes (hdr_ID K (blk_Header block)))\<rparr>
                 in (Inr result', clear_pool_jobs (storeReceiptLocked key result' c1), w', chain'))"

definition SubmitPool ::
  "crypto \<Rightarrow> PPLNSIO \<Rightarrow> Chain \<Rightarrow> Chain \<Rightarrow> instant \<Rightarrow> int \<Rightarrow> string \<Rightarrow> uint64 \<Rightarrow> PPLNSCoordinator \<Rightarrow> PPLNSWindow \<Rightarrow>
     PoolSubmitResult res \<times> PPLNSCoordinator \<times> PPLNSWindow \<times> Chain"
where
  "SubmitPool K io chain0 chain now clock jobID nonce c w =
     (case claim_share now (fst (Tip chain0)) jobID nonce c of
        (Inl e, c1) \<Rightarrow> (Inl e, c1, w, chain)
      | (Inr (Receipt receipt), c1) \<Rightarrow> (Inr receipt, c1, w, chain)
      | (Inr (Claimed job), c1) \<Rightarrow>
          (case copy_block ''copy PPLNS mining job'' (pj_block job) of
             Inl e \<Rightarrow> (Inl e, releaseSubmission jobID (pj_ref job) nonce c1, w, chain)
           | Inr block \<Rightarrow> settle_share K io chain now clock jobID nonce job (with_nonce nonce block) c1 w))"

end
