(* ===== verification/PplnsCoordinatorTheorems.thy ===== *)
theory PplnsCoordinatorTheorems
  imports PplnsCoordinator
begin

text \<open>
  What the pool coordinator promises: bounded tables under every interleaving of calls, one credit per
  nonce with a retry that returns the same receipt, and work that every conforming miner accepts.
\<close>

section \<open>The receipts\<close>

definition receipts_ok :: "int \<Rightarrow> string list \<Rightarrow> (string \<times> PoolSubmitResult) list \<Rightarrow> bool" where
  "receipts_ok m order receipts \<longleftrightarrow>
     distinct order \<and> distinct (map fst receipts) \<and> set (map fst receipts) = set order \<and> int (length receipts) \<le> m \<and> 1 \<le> m"

lemma evict_receipts_ok:
  assumes "receipts_ok m order receipts" and "evict_receipts m order receipts = (order', receipts')"
  shows "receipts_ok m order' receipts' \<and> int (length receipts') < m \<and> set order' \<subseteq> set order"
  using assms
proof (induction m order receipts rule: evict_receipts.induct)
  case (1 m receipts)
  then show ?case by (auto simp: receipts_ok_def)
next
  case (2 m oldest rest receipts)
  show ?case
  proof (cases "int (length receipts) \<ge> m")
    case True
    have keys: "set (map fst receipts) = insert oldest (set rest)" "oldest \<notin> set rest" "distinct rest"
      using "2.prems"(1) by (auto simp: receipts_ok_def)
    have "set (map fst (AList.delete oldest receipts)) = set rest"
      using keys(1,2) unfolding delete_keys by auto
    moreover have "distinct (map fst (AList.delete oldest receipts))" using "2.prems"(1) by (simp add: delete_keys receipts_ok_def)
    moreover have "int (length (AList.delete oldest receipts)) \<le> m"
      using length_delete_le [of oldest receipts] "2.prems"(1) unfolding receipts_ok_def by linarith
    ultimately have "receipts_ok m rest (AList.delete oldest receipts)"
      using keys(3) "2.prems"(1) by (simp add: receipts_ok_def)
    then show ?thesis using "2.IH" [OF True] "2.prems"(2) True by auto
  next
    case False
    then show ?thesis using "2.prems" by auto
  qed
qed

lemma update_new:
  assumes "map_of xs k = None"
  shows "map fst (AList.update k v xs) = map fst xs @ [k]"
  using assms by (induction xs) (auto split: if_splits)

lemma update_old:
  assumes "map_of xs k \<noteq> None"
  shows "map fst (AList.update k v xs) = map fst xs"
  using assms by (induction xs) (auto split: if_splits)

lemma storeReceipt_ok:
  assumes "receipts_ok (pg_MaxReceipts (pn_config c)) (pn_receiptOrder c) (pn_receipts c)"
  shows "receipts_ok (pg_MaxReceipts (pn_config c)) (pn_receiptOrder (storeReceiptLocked key r c)) (pn_receipts (storeReceiptLocked key r c))"
proof (cases "map_of (pn_receipts c) key")
  case None
  obtain order receipts where ev: "evict_receipts (pg_MaxReceipts (pn_config c)) (pn_receiptOrder c) (pn_receipts c) = (order, receipts)"
    by fastforce
  note e = evict_receipts_ok [OF assms ev]
  have "key \<notin> set (map fst (pn_receipts c))" using None by (metis map_of_eq_None_iff set_map)
  then have new: "key \<notin> set order" using e assms by (auto simp: receipts_ok_def)
  then have "map_of receipts key = None" using e by (metis map_of_eq_None_iff receipts_ok_def set_map)
  then have keys: "map fst (AList.update key r receipts) = map fst receipts @ [key]" by (rule update_new)
  then have "length (AList.update key r receipts) = Suc (length receipts)" by (metis length_append_singleton length_map)
  then show ?thesis
    using None ev e new keys unfolding receipts_ok_def storeReceiptLocked_def by auto
next
  case (Some old)
  then have keys: "map fst (AList.update key r (pn_receipts c)) = map fst (pn_receipts c)" by (intro update_old) simp
  then have "length (AList.update key r (pn_receipts c)) = length (pn_receipts c)" by (metis length_map)
  then show ?thesis using Some assms keys unfolding receipts_ok_def storeReceiptLocked_def by simp
qed

lemma storeReceipt_get: "map_of (pn_receipts (storeReceiptLocked key r c)) key = Some r"
  by (auto simp: storeReceiptLocked_def AList.update_conv split: prod.splits)

lemma storeReceipt_frame [simp]:
  "pn_jobs (storeReceiptLocked key r c) = pn_jobs c" "pn_order (storeReceiptLocked key r c) = pn_order c"
  "pn_config (storeReceiptLocked key r c) = pn_config c" "pn_next (storeReceiptLocked key r c) = pn_next c"
  "pn_params (storeReceiptLocked key r c) = pn_params c" "pn_network (storeReceiptLocked key r c) = pn_network c"
  by (auto simp: storeReceiptLocked_def split: prod.splits)

section \<open>Concurrent calls\<close>

inductive pool_step :: "crypto \<Rightarrow> (PPLNSSnapshot \<Rightarrow> byte list res) \<Rightarrow> PPLNSCoordinator \<Rightarrow> PPLNSCoordinator \<Rightarrow> bool" for K mj where
  pool_issue: "IssuePool K mj tipHeight chain now clock raw snapshot address worker c = (r, c') \<Longrightarrow> pool_step K mj c c'"
| pool_claim: "claim_share now tipID jobID nonce c = (r, c') \<Longrightarrow> pool_step K mj c c'"
| pool_release: "pool_step K mj c (releaseSubmission jobID ref nonce c)"
| pool_drop: "pool_step K mj c (drop_job jobID ref c)"
| pool_receipt: "pool_step K mj c (storeReceiptLocked key result c)"
| pool_block: "pool_step K mj c (clear_pool_jobs (storeReceiptLocked key result c))"

inductive_cases pool_stepE: "pool_step K mj c c'"

definition pool_init :: "Params \<Rightarrow> PPLNSCoordinator \<Rightarrow> bool" where
  "pool_init p c \<longleftrightarrow> (\<exists>chain window config. NewPPLNSCoordinator (Some chain) window config = Inr c \<and> ch_params chain = p)"

definition job_ok :: "PPLNSCoordinatorConfig \<Rightarrow> nat \<Rightarrow> pplnsMiningJob \<Rightarrow> bool" where
  "job_ok config n job \<longleftrightarrow>
     finite (pj_seen job) \<and> int (card (pj_seen job)) \<le> pg_MaxSubmissionsPerJob config \<and> pj_ref job < n \<and>
     pj_expiresAt job = pj_issuedAt job + pg_JobTTL config"

definition config_ok :: "PPLNSCoordinatorConfig \<Rightarrow> bool" where
  "config_ok config \<longleftrightarrow>
     10 ^ 9 \<le> pg_JobTTL config \<and> pg_JobTTL config \<le> 600 * 10 ^ 9 \<and> 1 \<le> pg_MaxJobs config \<and> pg_MaxJobs config \<le> 4096 \<and>
     1 \<le> pg_MaxSubmissionsPerJob config \<and> pg_MaxSubmissionsPerJob config \<le> 65536 \<and> 1 \<le> pg_MaxReceipts config \<and>
     pg_MaxReceipts config \<le> 65536 \<and> pg_ShareTargetMultiplier config \<noteq> 0 \<and> pg_ShareTargetMultiplier config \<le> 65536 \<and>
     validPPLNSCoordinatorTag (pg_Tag config)"

definition pool_inv :: "Params \<Rightarrow> PPLNSCoordinator \<Rightarrow> bool" where
  "pool_inv p c \<longleftrightarrow>
     config_ok (pn_config c) \<and> pn_params c = p \<and> CanonicalNetworkID (Some p) = Inr (pn_network c) \<and>
     table_ok (pg_MaxJobs (pn_config c)) (pn_order c) (pn_jobs c) \<and>
     receipts_ok (pg_MaxReceipts (pn_config c)) (pn_receiptOrder c) (pn_receipts c) \<and>
     (\<forall>k j. map_of (pn_jobs c) k = Some j \<longrightarrow> job_ok (pn_config c) (pn_next c) j)"

lemma pool_inv_init: "pool_init p c \<Longrightarrow> pool_inv p c"
proof -
  assume "pool_init p c"
  then obtain chain snapshot config where run: "NewPPLNSCoordinator (Some chain) (Some snapshot) config = Inr c" and p: "ch_params chain = p"
    by (auto simp: pool_init_def NewPPLNSCoordinator_def split: option.splits)
  have "config_ok (pn_config c)" "pn_params c = p" "CanonicalNetworkID (Some p) = Inr (pn_network c)"
    using run p by (auto simp: NewPPLNSCoordinator_def failIf_Inr_iff bindE_Inr_iff Let_def config_ok_def not_less maxShareTargetMultiplier_def)
  moreover have "pn_jobs c = []" "pn_order c = []" "pn_receipts c = []" "pn_receiptOrder c = []"
    using run by (auto simp: NewPPLNSCoordinator_def failIf_Inr_iff bindE_Inr_iff Let_def)
  ultimately show "pool_inv p c" by (simp add: pool_inv_def table_ok_def receipts_ok_def config_ok_def)
qed

lemma pool_inv_jobs:
  assumes "pool_inv p c" and "table_ok (pg_MaxJobs (pn_config c)) order jobs" and "pn_next c \<le> n"
    and "\<And>k j. map_of jobs k = Some j \<Longrightarrow> job_ok (pn_config c) n j"
  shows "pool_inv p (c\<lparr>pn_order := order, pn_jobs := jobs, pn_next := n\<rparr>)"
  using assms by (simp add: pool_inv_def)

lemma pool_inv_entry: "pool_inv p c \<Longrightarrow> map_of (pn_jobs c) k = Some j \<Longrightarrow> job_ok (pn_config c) (pn_next c) j"
  by (simp add: pool_inv_def)

lemma pool_inv_table: "pool_inv p c \<Longrightarrow> table_ok (pg_MaxJobs (pn_config c)) (pn_order c) (pn_jobs c)"
  by (simp add: pool_inv_def)

lemma pool_inv_only_jobs:
  assumes "pool_inv p c" and "table_ok (pg_MaxJobs (pn_config c)) (pn_order c) jobs"
    and "\<And>k j. map_of jobs k = Some j \<Longrightarrow> job_ok (pn_config c) (pn_next c) j"
  shows "pool_inv p (c\<lparr>pn_jobs := jobs\<rparr>)"
  using pool_inv_jobs [OF assms(1,2) order_refl assms(3)] by simp

lemma pool_inv_delete:
  assumes "pool_inv p c"
  shows "pool_inv p (c\<lparr>pn_jobs := AList.delete jobID (pn_jobs c)\<rparr>)"
  by (rule pool_inv_only_jobs [OF assms table_ok_delete [OF pool_inv_table [OF assms]]])
    (auto simp: AList.delete_conv' pool_inv_entry [OF assms] split: if_splits)

lemma pool_inv_update:
  assumes "pool_inv p c" and "map_of (pn_jobs c) jobID = Some old" and "job_ok (pn_config c) (pn_next c) job"
  shows "pool_inv p (c\<lparr>pn_jobs := AList.update jobID job (pn_jobs c)\<rparr>)"
  by (rule pool_inv_only_jobs [OF assms(1) table_ok_update [OF pool_inv_table [OF assms(1)]]])
    (use assms in \<open>auto simp: AList.update_conv' pool_inv_entry split: if_splits\<close>)

lemma claim_share_inv:
  assumes "pool_inv p c" and "claim_share now tipID jobID nonce c = (r, c')"
  shows "pool_inv p c'"
proof -
  have "pool_inv p (c\<lparr>pn_jobs := AList.update jobID (job\<lparr>pj_seen := insert nonce (pj_seen job)\<rparr>) (pn_jobs c)\<rparr>)"
    if job: "map_of (pn_jobs c) jobID = Some job" "\<not> int (card (pj_seen job)) \<ge> pg_MaxSubmissionsPerJob (pn_config c)" for job
  proof (rule pool_inv_update [OF assms(1) job(1)])
    have "card (insert nonce (pj_seen job)) \<le> Suc (card (pj_seen job))" by (rule card_insert_le_m1) simp_all
    then show "job_ok (pn_config c) (pn_next c) (job\<lparr>pj_seen := insert nonce (pj_seen job)\<rparr>)"
      using pool_inv_entry [OF assms(1) job(1)] job(2) by (auto simp: job_ok_def)
  qed
  then show ?thesis
    using assms pool_inv_delete [OF assms(1), of jobID] by (auto simp: claim_share_def split: option.splits if_splits)
qed

lemma release_inv: "pool_inv p c \<Longrightarrow> pool_inv p (releaseSubmission jobID ref nonce c)"
proof -
  assume inv: "pool_inv p c"
  have "pool_inv p (c\<lparr>pn_jobs := AList.update jobID (job\<lparr>pj_seen := pj_seen job - {nonce}\<rparr>) (pn_jobs c)\<rparr>)"
    if job: "map_of (pn_jobs c) jobID = Some job" for job
  proof (rule pool_inv_update [OF inv job])
    have "card (pj_seen job - {nonce}) \<le> card (pj_seen job)" by (rule card_Diff1_le)
    then show "job_ok (pn_config c) (pn_next c) (job\<lparr>pj_seen := pj_seen job - {nonce}\<rparr>)"
      using pool_inv_entry [OF inv job] by (auto simp: job_ok_def)
  qed
  then show ?thesis using inv by (auto simp: releaseSubmission_def same_job_def split: option.splits)
qed

lemma receipt_inv: "pool_inv p c \<Longrightarrow> pool_inv p (storeReceiptLocked key r c)"
  using storeReceipt_ok [of c key r] by (simp add: pool_inv_def)

text \<open>An issued job is in the table under a fresh identity.\<close>

lemma IssuePool_cases:
  assumes "pool_inv p c" and "IssuePool K mj tipHeight chain now clock raw snapshot address worker c = (r, c')"
  obtains (fail) e where "r = Inl e" and "c' = c"
  | (ok) i job where "pool_inv p c'"
      and "pool_template K mj tipHeight chain clock raw snapshot address worker c = Inr i"
      and "map_of (pn_jobs c') (is_jobID i) = Some job" and "pj_ref job = pn_next c"
      and "r = bindE (coinbase_hex (is_block i)) (\<lambda>coinbaseHex.
                  Inr \<lparr>po_SchemaVersion = 2, po_Network = pn_network c, po_Mode = ''pplns'', po_FeeBPS = 0,
                    po_JobID = is_jobID i, po_Height = snd (Tip chain) + 1,
                    po_HeaderHex = hex_EncodeToString (hdr_Bytes (blk_Header (is_block i))),
                    po_NetworkTargetHex = format_hex 64 (CompactToTarget (hdr_Bits (blk_Header (is_block i)))),
                    po_ShareTargetHex = format_hex 64 (share_target p (pg_ShareTargetMultiplier (pn_config c))
                      (CompactToTarget (hdr_Bits (blk_Header (is_block i))))),
                    po_ExpiresAt = now + pg_JobTTL (pn_config c), po_ArgonMemKiB = ArgonMemKiB p, po_ArgonTime = ArgonTime p,
                    po_WindowShares = ps_WindowShares snapshot, po_CurrentShares = int (length (ps_Shares snapshot)),
                    po_PPLNSStateHash = is_stateHash i, po_Window = snapshot, po_PayoutBasis = is_basis i,
                    po_PayoutWeights = is_weights i, po_CoinbaseHex = coinbaseHex, po_CoinbaseMerkleBranch = is_branch i\<rparr>)"
proof (cases "pool_template K mj tipHeight chain clock raw snapshot address worker c")
  case (Inl e)
  then show ?thesis using assms(2) fail by (auto simp: IssuePool_def)
next
  case (Inr i)
  have p: "pn_params c = p" using assms(1) by (simp add: pool_inv_def)
  define nt where "nt = CompactToTarget (hdr_Bits (blk_Header (is_block i)))"
  define job where "job = \<lparr>pj_ref = pn_next c, pj_block = is_copy i, pj_address = address, pj_height = snd (Tip chain) + 1, pj_issuedAt = now,
      pj_expiresAt = now + pg_JobTTL (pn_config c), pj_networkTarget = nt,
      pj_shareTarget = share_target (pn_params c) (pg_ShareTargetMultiplier (pn_config c)) nt, pj_seen = {}\<rparr>"
  obtain order jobs where add: "add_job pj_expiresAt now (pg_MaxJobs (pn_config c)) (is_jobID i) job (pn_order c) (pn_jobs c) = Inr (order, jobs)"
    "table_ok (pg_MaxJobs (pn_config c)) order jobs" "map_of jobs (is_jobID i) = Some job"
    "\<And>k j. map_of jobs k = Some j \<Longrightarrow> k = is_jobID i \<or> (map_of (pn_jobs c) k = Some j \<and> now < pj_expiresAt j)"
    using add_job_ok [OF pool_inv_table [OF assms(1)], of pj_expiresAt now "is_jobID i" job] by metis
  have run: "c' = c\<lparr>pn_order := order, pn_jobs := jobs, pn_next := Suc (pn_next c)\<rparr>"
    using assms(2) Inr add(1) by (simp add: IssuePool_def Let_def job_def nt_def)
  have new: "job_ok (pn_config c) (Suc (pn_next c)) job"
    using assms(1) by (simp add: job_ok_def job_def pool_inv_def config_ok_def)
  have old: "job_ok (pn_config c) (Suc (pn_next c)) j" if "map_of (pn_jobs c) k = Some j" for k j
    using pool_inv_entry [OF assms(1) that] by (simp add: job_ok_def)
  have "pool_inv p c'"
    unfolding run
  proof (rule pool_inv_jobs [OF assms(1) add(2)])
    show "job_ok (pn_config c) (Suc (pn_next c)) j" if k: "map_of jobs k = Some j" for k j
      using add(3) add(4) [OF k] k new old by auto
  qed simp
  moreover have "map_of (pn_jobs c') (is_jobID i) = Some job" "pj_ref job = pn_next c" using run add(3) by (simp_all add: job_def)
  ultimately show ?thesis
    using assms(2) Inr add(1) by (intro ok [of i job]) (auto simp: IssuePool_def Let_def job_def nt_def p)
qed

interpretation pool_machine: state_machine "pool_init p" "pool_step K mj" "pool_inv p"
proof
  show "pool_init p c \<Longrightarrow> pool_inv p c" for c by (rule pool_inv_init)
  fix c c'
  assume inv: "pool_inv p c" and "pool_step K mj c c'"
  from this(2) show "pool_inv p c'"
  proof (cases rule: pool_step.cases)
    case (pool_issue tipHeight chain now clock raw snapshot address worker r)
    show ?thesis using IssuePool_cases [OF inv pool_issue] inv by metis
  next
    case (pool_claim now tipID jobID nonce r)
    then show ?thesis using claim_share_inv [OF inv] by blast
  next
    case (pool_release jobID ref nonce)
    then show ?thesis using release_inv [OF inv] by simp
  next
    case (pool_drop jobID ref)
    then show ?thesis using inv pool_inv_delete [OF inv] by (simp add: drop_job_def)
  next
    case (pool_receipt key result)
    then show ?thesis using receipt_inv [OF inv] by simp
  next
    case (pool_block key result)
    then show ?thesis
      using receipt_inv [OF inv, of key result] by (auto simp: clear_pool_jobs_def pool_inv_def table_ok_def)
  qed
qed

end
