(* ===== verification/PoolIssue.thy ===== *)
theory PoolIssue
  imports PplnsCoordinatorTheorems
begin

text \<open>
  The coordinator and the miner agree: every work item the pool issues for an open window passes the
  miner's checks of \<^verbatim>\<open>ParsePoolWork\<close>, the coinbase proof included; and a nonce is credited once.
\<close>

section \<open>Sizes\<close>

lemma length_put_uvarint: "v < 128 ^ k \<Longrightarrow> 0 < k \<Longrightarrow> length (put_uvarint v) \<le> k"
proof (induction v arbitrary: k rule: put_uvarint.induct)
  case (1 v)
  show ?case
  proof (cases "v < 128")
    case True
    then show ?thesis using "1.prems" by (simp add: put_uvarint_small)
  next
    case False
    then obtain k' where k: "k = Suc k'" "0 < k'" using "1.prems" by (cases k; cases "k - 1") auto
    then have "v div 128 < 128 ^ k'" using "1.prems"(1) by (simp add: less_mult_imp_div_less)
    then have "length (put_uvarint (v div 128)) \<le> k'" using "1.IH" [OF False] k(2) by blast
    then show ?thesis using False k by (subst put_uvarint.simps) simp
  qed
qed

lemma length_put_uvarint64: "length (put_uvarint (u64_of v)) \<le> 10"
proof -
  have "v mod 2 ^ 64 < 2 ^ 64" by simp
  then have "u64_of v < 2 ^ 64" unfolding u64_of_def by (simp add: nat_less_iff)
  also have "(2 :: nat) ^ 64 < 128 ^ 10" by simp
  finally show ?thesis by (intro length_put_uvarint) simp_all
qed

text \<open>A coinbase with at most 256 outputs and a tag of at most 129 bytes.\<close>

lemma coinbase_size:
  assumes "tx_Ins cb = [\<lparr>in_Prev = prev, in_PubKey = put_uvarint (u64_of height), in_Sig = []\<rparr>]"
    and "length (tx_Outs cb) \<le> 256" and "length (tx_LockTag cb) \<le> 129"
  shows "0 < length (tx_Bytes cb) \<and> length (tx_Bytes cb) \<le> 32 * 1024"
proof -
  have h: "length (put_uvarint (u64_of height)) \<le> 10" by (rule length_put_uvarint64)
  have a: "length (put_uvarint (length (put_uvarint (u64_of height)))) \<le> 1" using h by (intro length_put_uvarint) simp_all
  have b: "length (put_uvarint (length (tx_Outs cb))) \<le> 2" using assms(2) by (intro length_put_uvarint) simp_all
  have c: "length (put_uvarint (length (tx_LockTag cb))) \<le> 2" using assms(3) by (intro length_put_uvarint) simp_all
  have d: "length (concat (map enc_TxOut (tx_Outs cb))) = 28 * length (tx_Outs cb)"
    by (simp add: length_concat comp_def enc_TxOut_def sum_list_triv)
  have "length (tx_Bytes cb) = 4 + 1 + (36 + length (put_uvarint (length (put_uvarint (u64_of height)))) + length (put_uvarint (u64_of height)) + 1) +
      length (put_uvarint (length (tx_Outs cb))) + 28 * length (tx_Outs cb) + length (put_uvarint (length (tx_LockTag cb))) + length (tx_LockTag cb)"
    unfolding tx_Bytes_def serialize_def by (simp add: assms(1) d enc_TxIn_def writeBytes_def put_uvarint_small)
  then show ?thesis using a b c h assms(2,3) by simp
qed

lemma length_branch_loop: "length layer \<le> 2 ^ k \<Longrightarrow> length (branch_loop pair layer position) \<le> k"
proof (induction pair layer position arbitrary: k rule: branch_loop.induct)
  case (1 pair layer position)
  show ?case
  proof (cases "length layer > 1")
    case True
    then obtain k' where k: "k = Suc k'" using "1.prems" by (cases k) auto
    then have "length (pair_layer pair (pad_layer layer)) \<le> 2 ^ k'" using "1.prems" by (simp add: length_next_layer)
    then show ?thesis using "1.IH" [OF True refl] True k by (simp add: branch_loop.simps [of pair layer] Let_def)
  next
    case False
    then show ?thesis by (simp add: branch_loop.simps)
  qed
qed

section \<open>The template around a builder\<close>

lemma template_run:
  assumes "BuildBlockTemplateWithCoinbase K (Some c) t (Some build) = Inr blk"
  obtains cb sel reward where "build (bi_height (ch_tip c) + 1) reward = Some cb" and "blk_Txs blk = map Some (cb # sel)"
    and "validateTemplateCoinbase (Some cb) (bi_height (ch_tip c) + 1) reward = Inr ()"
    and "SubsidyAt (bi_height (ch_tip c) + 1) \<le> reward" and "MerkleRoot K (blk_Txs blk) = Inr (hdr_MerkleRoot (blk_Header blk))"
    and "hdr_Nonce (blk_Header blk) = 0" and "hdr_Time (blk_Header blk) = t" and "NextBitsForTip c = Inr (hdr_Bits (blk_Header blk))"
    and "\<exists>raw. blk_Bytes blk = Inr raw \<and> length raw \<le> MaxBlockBytes"
proof -
  let ?h = "bi_height (ch_tip c) + 1"
  let ?s = "SubsidyAt ?h"
  obtain pre where pre: "build ?h ?s = Some pre"
    using assms by (auto simp: BuildBlockTemplateWithCoinbase_def Tip_def Let_def bindE_Inr_iff deref_Inr_iff)
  define loop where "loop = template_loop K c ?h ?s (MempoolTxs K c) ([], encodedTemplateTxSize (length (tx_Bytes pre)), 0)"
  define reward where "reward = checkedAddMoney ?s (snd (snd loop))"
  have run: "failIf (\<not> snd reward) (Err ''template reward is out of range'')
       (bindE (validateTemplateCoinbase (build ?h (fst reward)) ?h (fst reward)) (\<lambda>_.
        bindE (deref (build ?h (fst reward))) (\<lambda>cb.
        failIf (length (tx_Bytes cb) \<noteq> length (tx_Bytes pre)) ErrCoinbaseShapeChanged
        (bindE (NextBitsForTip c) (\<lambda>bits.
         bindE (MerkleRoot K (map Some (cb # fst loop))) (\<lambda>root.
         let blk = \<lparr>blk_Header = \<lparr>hdr_Version = 1, hdr_PrevBlock = bi_id (ch_tip c), hdr_MerkleRoot = root, hdr_Time = t,
                        hdr_Bits = bits, hdr_Nonce = 0\<rparr>, blk_Txs = map Some (cb # fst loop)\<rparr> in
         bindE (blk_Bytes blk) (\<lambda>raw.
         failIf (length raw > MaxBlockBytes) (Err ''template exceeds maximum block size'') (Inr blk)))))))) = Inr blk"
    using assms pre
    by (auto simp: BuildBlockTemplateWithCoinbase_def Tip_def Let_def bindE_Inr_iff case_prod_unfold loop_def reward_def)
  have "snd reward" using run by (auto simp: failIf_Inr_iff)
  then have "?s \<le> fst reward" by (auto simp: reward_def checkedAddMoney_eq MoneyRange_def split: if_splits)
  then show ?thesis
    using run by (auto simp: failIf_Inr_iff bindE_Inr_iff deref_Inr_iff Let_def not_less intro!: that)
qed

lemma template_prev:
  assumes "BuildBlockTemplateWithCoinbase K (Some c) t (Some build) = Inr blk"
  shows "hdr_PrevBlock (blk_Header blk) = fst (Tip c)"
  using assms
  by (auto simp: BuildBlockTemplateWithCoinbase_def Tip_def Let_def case_prod_unfold bindE_Inr_iff failIf_Inr_iff)

section \<open>The weights of a window scan\<close>

lemma sum_add_weight: "sum_list (map snd (add_weight a v ws)) = v + sum_list (map snd ws)"
  by (induction a v ws rule: add_weight.induct) auto

lemma sum_weights: "sum_list (map snd (fold (\<lambda>s. add_weight (sh_Address s) (f s)) shares ws)) = sum_list (map f shares) + sum_list (map snd ws)"
  by (induction shares arbitrary: ws) (simp_all add: sum_add_weight)

lemma add_weight_pos: "0 < v \<Longrightarrow> \<forall>e\<in>set ws. 0 < snd e \<Longrightarrow> \<forall>e\<in>set (add_weight a v ws). (0 :: int) < snd e"
  by (induction a v ws rule: add_weight.induct) (auto split: if_splits)

lemma weights_pos:
  assumes "\<forall>s\<in>set shares. (0 :: int) < f s" and "\<forall>e\<in>set ws. 0 < snd e"
  shows "\<forall>e\<in>set (fold (\<lambda>s. add_weight (sh_Address s) (f s)) shares ws). 0 < snd e"
  using assms
proof (induction shares arbitrary: ws)
  case Nil
  then show ?case by simp
next
  case (Cons s shares)
  have "\<forall>e\<in>set (add_weight (sh_Address s) (f s) ws). 0 < snd e" using Cons.prems by (intro add_weight_pos) auto
  then show ?case using Cons.IH Cons.prems(1) by simp
qed

lemma weights_addresses:
  "set (map fst (fold (\<lambda>s. add_weight (sh_Address s) (f s)) shares ws)) = sh_Address ` set shares \<union> set (map fst ws)"
proof (induction shares arbitrary: ws)
  case Nil
  then show ?case by simp
next
  case (Cons s shares)
  have "set (map fst (add_weight (sh_Address s) (f s) ws)) = insert (sh_Address s) (set (map fst ws))"
    unfolding fst_add_weight by auto
  then show ?case unfolding fold_simps comp_def Cons.IH by auto
qed

lemma member_le_sum: "e \<in> set xs \<Longrightarrow> \<forall>x\<in>set xs. 0 \<le> snd x \<Longrightarrow> snd e \<le> sum_list (map snd xs :: int list)"
proof (induction xs)
  case (Cons x xs)
  have "0 \<le> sum_list (map snd xs)" using Cons.prems(2) by (intro sum_list_nonneg) auto
  then show ?case using Cons by auto
qed simp

lemma sum_list_bound: "\<forall>x\<in>set xs. f x \<le> b \<Longrightarrow> sum_list (map f xs) \<le> int (length xs) * b"
  by (induction xs) (auto simp: algebra_simps)

lemma share_work_bounds:
  assumes "parseCanonicalTarget (sh_ShareTarget s) = Inr t"
  shows "0 < share_work s \<and> share_work s \<le> 2 ^ 255"
proof -
  have t: "0 < t" "t < 2 ^ 256" using parseCanonicalTarget_range [OF assms] by auto
  have "WorkFromTarget t \<le> WorkFromTarget 1" using t by (intro WorkFromTarget_antimono) auto
  also have "WorkFromTarget 1 = 2 ^ 255" by (simp add: WorkFromTarget_def)
  finally show ?thesis using assms WorkFromTarget_pos [of t] t by (simp add: share_work_def)
qed

lemma parse_work_format: "0 < v \<Longrightarrow> v < 2 ^ 268 \<Longrightarrow> parseCanonicalWork (format_hex 68 v) = Inr v"
proof -
  assume v: "0 < v" "v < 2 ^ 268"
  have hex: "format_hex 68 v = hex_EncodeToString (be_bytes 34 (nat v))" using format_hex_bytes [of v 34] v by simp
  have n: "nat v < 2 ^ 268" using v by (simp add: nat_less_iff)
  then have "be_nat (be_bytes 34 (nat v)) = nat v" by (simp add: be_nat_be_bytes)
  then show ?thesis
    using v bit_len_le [OF n] by (simp add: parseCanonicalWork_def hex canonical_hex_def Let_def failIf_def)
qed

lemma scan_weights_ok:
  assumes "sorted_wrt (<) (map pt_Address pws)" and "\<forall>pw\<in>set pws. prev < pt_Address pw"
    and "\<forall>pw\<in>set pws. payout_pkh K (pt_Address pw) \<noteq> None \<and> 1 \<le> pt_Shares pw \<and> (\<exists>v. parseCanonicalWork (pt_WorkHex pw) = Inr v)"
    and "0 \<le> n" and "n + sum_list (map pt_Shares pws) \<le> 4096"
  shows "\<exists>works prev'. foldE (scan_weight K) (ws, n, prev) pws = Inr (works, n + sum_list (map pt_Shares pws), prev')"
  using assms
proof (induction pws arbitrary: ws n prev)
  case Nil
  then show ?case by simp
next
  case (Cons pw pws)
  obtain v where v: "parseCanonicalWork (pt_WorkHex pw) = Inr v" using Cons.prems(3) by auto
  have "0 \<le> sum_list (map pt_Shares pws)" using Cons.prems(3) by (intro sum_list_nonneg) auto
  then have one: "1 \<le> pt_Shares pw" "pt_Shares pw \<le> 4096" "n \<le> 4096 - pt_Shares pw" using Cons.prems(3-5) by auto
  have "prev < pt_Address pw" using Cons.prems(2) by simp
  then have step: "scan_weight K (ws, n, prev) pw = Inr (ws @ [(pt_Address pw, v)], n + pt_Shares pw, pt_Address pw)"
    using one v Cons.prems(3) by (auto simp: scan_weight_def failIf_def not_le)
  have "\<exists>works prev'. foldE (scan_weight K) (ws @ [(pt_Address pw, v)], n + pt_Shares pw, pt_Address pw) pws =
      Inr (works, (n + pt_Shares pw) + sum_list (map pt_Shares pws), prev')"
    using Cons.prems one by (intro Cons.IH) auto
  then show ?case using step by (simp add: add.assoc)
qed

lemma window_weights_scan:
  assumes wf: "wf_window K snap" and len: "length (ps_Shares snap) \<le> 4096" and few: "card (sh_Address ` set (ps_Shares snap)) \<le> 256"
    and ne: "ps_Shares snap \<noteq> []"
  obtains pws works prev where "pplnsWeights snap = Inr pws" and "pws \<noteq> []" and "length pws \<le> 256"
    and "foldE (scan_weight K) ([], 0, []) pws = Inr (works, int (length (ps_Shares snap)), prev)"
proof -
  let ?shares = "ps_Shares snap"
  define counts where "counts = fold (\<lambda>share. add_weight (sh_Address share) 1) ?shares []"
  define W where "W = work_by_address ?shares"
  define pws where "pws = sort_key pt_Address (map (payout_weight W) counts)"
  have ok: "\<forall>s\<in>set ?shares. share_ok K (ps_Network snap) s" using wf by (auto simp: wf_window_def)
  have run: "pplnsWeights snap = Inr pws"
    using ok by (auto simp: pplnsWeights_def share_ok_def Let_def counts_def W_def pws_def)
  have keys: "map fst counts = map fst W" unfolding counts_def W_def work_by_address_def by (rule weights_keys) simp
  have addr: "set (map fst counts) = sh_Address ` set ?shares"
    unfolding counts_def by (simp only: weights_addresses list.simps Un_empty_right set_simps)
  have dist: "distinct (map fst counts)" using keys work_distinct [of ?shares] by (simp add: W_def)
  have pos: "\<forall>s\<in>set ?shares. 0 < share_work s \<and> share_work s \<le> 2 ^ 255"
    using ok share_work_bounds by (auto simp: share_ok_def)
  have Wpos: "\<forall>e\<in>set W. 0 < snd e" unfolding W_def work_by_address_def using pos by (intro weights_pos) auto
  have "sum_list (map share_work ?shares) \<le> int (length ?shares) * 2 ^ 255"
    using sum_list_bound [of ?shares share_work "2 ^ 255"] pos by blast
  also have "\<dots> \<le> 4096 * 2 ^ 255" using len by (intro mult_right_mono) auto
  finally have total: "sum_list (map snd W) \<le> 2 ^ 267"
    unfolding W_def work_by_address_def by (simp add: sum_weights)
  have vals: "\<exists>v. map_of W a = Some v \<and> 0 < v \<and> v < 2 ^ 268" if a: "a \<in> set (map fst counts)" for a
  proof -
    obtain v where v: "map_of W a = Some v" using a keys by (metis map_of_eq_None_iff not_None_eq set_map)
    then have "(a, v) \<in> set W" by (rule map_of_SomeD)
    then have "0 < v" "v \<le> sum_list (map snd W)" using Wpos member_le_sum [of "(a, v)" W] by (auto simp: less_imp_le)
    then show ?thesis using v total by auto
  qed
  have cpos: "\<forall>e\<in>set counts. 0 < snd e" unfolding counts_def by (intro weights_pos) auto
  have pw: "payout_pkh K (pt_Address pw) \<noteq> None \<and> 1 \<le> pt_Shares pw \<and> (\<exists>v. parseCanonicalWork (pt_WorkHex pw) = Inr v) \<and> [] < pt_Address pw"
    if mem: "pw \<in> set pws" for pw
  proof -
    obtain e where e: "e \<in> set counts" "pw = payout_weight W e" using mem by (auto simp: pws_def)
    have a: "fst e \<in> set (map fst counts)" using e(1) by simp
    obtain v where v: "map_of W (fst e) = Some v" "0 < v" "v < 2 ^ 268" using vals [OF a] by blast
    obtain s where s: "s \<in> set ?shares" "sh_Address s = fst e" using a addr by auto
    then have pkh: "payout_pkh K (fst e) \<noteq> None" using ok by (auto simp: share_ok_def)
    then have "fst e \<noteq> []" using EncodeAddress_nonempty by (auto simp: payout_pkh_def split: sum.splits if_splits)
    then have "[] < fst e" by (cases "fst e") simp_all
    then show ?thesis
      using pkh cpos e v parse_work_format [OF v(2,3)] by (auto simp: payout_weight_def)
  qed
  have "distinct (map pt_Address pws)"
  proof -
    have "map pt_Address (map (payout_weight W) counts) = map fst counts" by (simp add: payout_weight_def comp_def)
    then have "mset (map pt_Address pws) = mset (map fst counts)" by (metis mset_map mset_sort pws_def)
    then show ?thesis using dist by (metis mset_eq_imp_distinct_iff)
  qed
  then have sorted: "sorted_wrt (<) (map pt_Address pws)"
    using sorted_sort_key [of pt_Address "map (payout_weight W) counts"] by (simp add: pws_def strict_sorted_iff)
  have "map pt_Shares (map (payout_weight W) counts) = map snd counts" by (simp add: payout_weight_def comp_def)
  then have "mset (map pt_Shares pws) = mset (map snd counts)" by (metis mset_map mset_sort pws_def)
  then have "sum_list (map pt_Shares pws) = sum_list (map snd counts)" by (metis sum_mset_sum_list)
  also have "\<dots> = int (length ?shares)" unfolding counts_def by (simp add: sum_weights sum_list_triv)
  finally have sum: "sum_list (map pt_Shares pws) = int (length ?shares)" .
  have "\<exists>works prev'. foldE (scan_weight K) ([], 0, []) pws = Inr (works, 0 + sum_list (map pt_Shares pws), prev')"
    using sorted pw len sum by (intro scan_weights_ok) auto
  then obtain works prev where scan: "foldE (scan_weight K) ([], 0, []) pws = Inr (works, int (length ?shares), prev)" using sum by auto
  have "length pws = card (set (map fst counts))" using distinct_card [OF dist] by (simp add: pws_def)
  then have "length pws \<le> 256" using few addr by simp
  moreover have "pws \<noteq> []"
    using sum ne by auto
  ultimately show ?thesis using that run scan by blast
qed

section \<open>The coinbase of an issued job\<close>

lemma string_bytes_append [simp]: "string_bytes (a @ b) = string_bytes a @ string_bytes b" "length (string_bytes a) = length a"
  by (simp_all add: string_bytes_def)

lemma payouts_length: "pplnsPayouts K snap reward = Inr outs \<Longrightarrow> length outs \<le> 256 \<and> outs \<noteq> []"
proof -
  let ?ws = "work_by_address (ps_Shares snap)"
  assume "pplnsPayouts K snap reward = Inr outs"
  then have run: "pplnsOutputsFromWork K ?ws reward = Inr outs"
    by (auto simp: pplnsPayouts_def failIf_Inr_iff split: sum.splits)
  then have v: "valid_weights K ?ws reward" using payouts_invalid by fastforce
  then have "outs = map to_output (settled K reward ?ws)" using run payouts_valid [OF v] by (auto split: if_splits)
  moreover have "length (settled K reward ?ws) = length ?ws" using settled_addresses [of K reward ?ws] by (metis length_map length_sort)
  ultimately have "length outs = length ?ws" "0 < length ?ws" "length ?ws \<le> 256" using v by (simp_all add: valid_weights_def)
  then show ?thesis by auto
qed

lemma pool_coinbase_shape:
  assumes "pool_coinbase K snap payout tag height reward = Some cb"
  shows "tx_Ins cb = [\<lparr>in_Prev = OutPoint 0 0xffffffff, in_PubKey = put_uvarint (u64_of height), in_Sig = []\<rparr>] \<and>
    tx_LockTag cb = string_bytes tag \<and> length (tx_Outs cb) \<le> 256 \<and>
    (if ps_Shares snap = [] then tx_Outs cb = [\<lparr>out_Value = reward, out_PubKeyHash = payout\<rparr>]
     else pplnsPayouts K snap reward = Inr (tx_Outs cb))"
  using assms payouts_length
  by (auto simp: pool_coinbase_def NewCoinbase_def split: if_splits sum.splits)

lemma coinbase_outputs_reward: "foldE coinbase_output acc outs = Inr s \<Longrightarrow> foldE coinbase_reward acc outs = Inr s"
proof (induction outs arbitrary: acc)
  case Nil
  then show ?case by simp
next
  case (Cons out outs)
  then obtain a where a: "coinbase_output acc out = Inr a" "foldE coinbase_output a outs = Inr s" by (auto simp: bindE_Inr_iff)
  then have v: "0 < out_Value out" "MoneyRange acc" "MoneyRange (out_Value out)" "MoneyRange a" "a = acc + out_Value out"
    unfolding coinbase_output_Inr_iff by blast+
  have "wrap64 (MaxMoneyUnits - out_Value out) = MaxMoneyUnits - out_Value out" "wrap64 (acc + out_Value out) = acc + out_Value out"
    using v by (auto intro!: wrap64_id simp: is_int64_def MoneyRange_def MaxMoneyUnits_eq)
  then have "coinbase_reward acc out = Inr a" using v by (simp add: coinbase_reward_def failIf_def MoneyRange_def)
  then show ?case using Cons.IH [OF a(2)] by simp
qed

lemma coinbase_output_range: "foldE coinbase_output acc outs = Inr s \<Longrightarrow> \<forall>out\<in>set outs. 0 < out_Value out \<and> MoneyRange (out_Value out)"
  by (induction outs arbitrary: acc) (auto simp: bindE_Inr_iff coinbase_output_Inr_iff)

lemma branch_hashes: "mapE branch_hash (map (\<lambda>h. hex_EncodeToString (hash_bytes h)) hs) = Inr hs"
  by (induction hs) (simp_all add: branch_hash_def canonical_hex_def)

lemma wrapE_Inr_iff [simp]: "wrapE what r = Inr x \<longleftrightarrow> r = Inr x"
  by (cases r) (simp_all add: wrapE_def)

lemma pool_template_Inr:
  assumes "pool_template K mj tipHeight chain clock raw snap address worker c = Inr i"
  obtains payout branch hash where "payout_pkh K address = Some payout" and "ps_Network snap = pn_network c"
    and "pplnsSnapshotHash K mj snap = Inr (is_stateHash i)" and "is_stateHash i = hex_EncodeToString (hash_bytes hash)"
    and "BuildBlockTemplateWithCoinbase K (Some chain) clock
      (Some (pool_coinbase K snap payout (pg_Tag (pn_config c) @ '':'' @ is_stateHash i))) = Inr (is_block i)"
    and "copy_block ''copy PPLNS template'' (is_block i) = Inr (is_copy i)"
    and "randomJobID raw = Inr (is_jobID i)" and "MerkleBranch K (blk_Txs (is_block i)) 0 = Inr branch"
    and "is_branch i = map (\<lambda>h. hex_EncodeToString (hash_bytes h)) branch"
    and "payout_basis address snap = Inr (is_basis i, is_weights i)"
  using assms
  by (auto simp: pool_template_def pplnsSnapshotHash_def failIf_Inr_iff bindE_Inr_iff split: option.splits)

lemma txs_in_bytes:
  assumes "blk_Bytes blk = Inr raw" and "blk_Txs blk = map Some txs"
  shows "length txs \<le> length raw"
proof -
  have raw: "raw = hdr_Bytes (blk_Header blk) @ put_uvarint (length txs) @ concat (map (\<lambda>t. writeBytes (tx_Bytes t)) txs)"
    using assms by (auto simp: blk_Bytes_def bindE_Inr_iff mapE_deref_Inr_iff)
  have "length txs \<le> length (concat (map (\<lambda>t. writeBytes (tx_Bytes t)) txs))"
  proof (induction txs)
    case (Cons t txs)
    have "1 \<le> length (writeBytes (tx_Bytes t))" by (simp add: writeBytes_def Suc_le_eq)
    then show ?case using Cons by simp
  qed simp
  then show ?thesis by (simp add: raw)
qed

text \<open>The proof the work item carries for its coinbase.\<close>

lemma pool_coinbase_proof:
  assumes inv: "pool_inv p c" and tmpl: "pool_template K mj tipHeight chain clock raw snap address worker c = Inr i"
    and wf: "wf_window K snap" and win: "ps_WindowShares snap \<le> 4096" "ps_MaxAddresses snap \<le> 256"
    and fields: "po_Height work = bi_height (ch_tip chain) + 1" "po_PPLNSStateHash work = is_stateHash i" "po_Window work = snap"
      "po_PayoutBasis work = is_basis i" "po_PayoutWeights work = is_weights i" "po_CurrentShares work = int (length (ps_Shares snap))"
      "po_CoinbaseMerkleBranch work = is_branch i" "coinbase_hex (is_block i) = Inr (po_CoinbaseHex work)"
  shows "validatePoolCoinbaseProof K work (blk_Header (is_block i)) = Inr ()"
  using tmpl
proof (rule pool_template_Inr)
  fix payout branch hash
  let ?blk = "is_block i" and ?h = "bi_height (ch_tip chain) + 1" and ?tag = "pg_Tag (pn_config c)"
  assume payout: "payout_pkh K address = Some payout" and hash: "is_stateHash i = hex_EncodeToString (hash_bytes hash)"
    and run: "BuildBlockTemplateWithCoinbase K (Some chain) clock (Some (pool_coinbase K snap payout (?tag @ '':'' @ is_stateHash i))) = Inr ?blk"
    and br: "MerkleBranch K (blk_Txs ?blk) 0 = Inr branch" "is_branch i = map (\<lambda>h. hex_EncodeToString (hash_bytes h)) branch"
    and basis: "payout_basis address snap = Inr (is_basis i, is_weights i)"
  obtain cb sel reward where t: "pool_coinbase K snap payout (?tag @ '':'' @ is_stateHash i) ?h reward = Some cb"
    "blk_Txs ?blk = map Some (cb # sel)" "validateTemplateCoinbase (Some cb) ?h reward = Inr ()" "SubsidyAt ?h \<le> reward"
    "MerkleRoot K (blk_Txs ?blk) = Inr (hdr_MerkleRoot (blk_Header ?blk))" "\<exists>raw. blk_Bytes ?blk = Inr raw \<and> length raw \<le> MaxBlockBytes"
    using template_run [OF run] by metis
  note shape = pool_coinbase_shape [OF t(1)]
  have tag: "1 \<le> length ?tag" "length ?tag \<le> 64" using inv by (simp_all add: pool_inv_def config_ok_def validPPLNSCoordinatorTag_def)
  have cbv: "IsCoinbase cb" "foldE coinbase_output 0 (tx_Outs cb) = Inr reward"
    using t(3) by (auto simp: validateTemplateCoinbase_def failIf_Inr_iff bindE_Inr_iff)
  have locktag: "tx_LockTag cb = string_bytes ?tag @ string_bytes ('':'' @ is_stateHash i)" using shape by simp
  have hlen: "length (is_stateHash i) = 64" by (simp add: hash)
  have size: "0 < length (tx_Bytes cb) \<and> length (tx_Bytes cb) \<le> 32 * 1024"
    using shape tag hlen by (intro coinbase_size) auto
  have outs: "\<forall>out\<in>set (tx_Outs cb). is_int64 (out_Value out)"
    using coinbase_output_range [OF cbv(2)] by (auto simp: is_int64_def MoneyRange_def MaxMoneyUnits_eq)
  have wftx: "wf_Tx cb"
    using shape tag hlen outs length_put_uvarint64 [of ?h] by (auto simp: wf_Tx_def wf_TxIn_def wf_TxOut_def list_all_iff)
  have hex: "po_CoinbaseHex work = hex_EncodeToString (tx_Bytes cb)" using fields(8) t(2) by (simp add: coinbase_hex_def)
  have branch: "branch = branch_loop (merklePair K) (map (tx_ID K) (cb # sel)) 0"
    using br(1) MerkleBranch_Some [of 0 "cb # sel" K] t(2) by simp
  have root: "MerkleRootFromBranch K (tx_ID K cb) 0 branch = Inr (hdr_MerkleRoot (blk_Header ?blk))"
    using MerkleRootFromBranch_branch [of 0 "cb # sel" K] branch t(2,5) by simp
  obtain raw where raw: "blk_Bytes ?blk = Inr raw" "length raw \<le> MaxBlockBytes" using t(6) by blast
  have "length (map (tx_ID K) (cb # sel)) \<le> 2 ^ 64" using txs_in_bytes [OF raw(1) t(2)] raw(2) by (simp add: MaxBlockBytes_def)
  then have blen: "length branch \<le> 64" unfolding branch by (rule length_branch_loop)
  have rest: "po_PayoutWeights work \<noteq> [] \<and> length (po_PayoutWeights work) \<le> 256 \<and>
      bindE (foldE (scan_weight K) ([], 0, []) (po_PayoutWeights work)) (\<lambda>(works, weightTotal, _).
         if po_PayoutBasis work = ''requester'' then check_requester K work cb reward weightTotal
         else if po_PayoutBasis work = ''pplns_window'' then check_window K work cb reward weightTotal works
         else Inl (Err ''unknown pool payout basis'')) = Inr ()"
  proof (cases "ps_Shares snap = []")
    case True
    have w: "is_basis i = ''requester''" "is_weights i = [\<lparr>pt_Address = address, pt_Shares = 1, pt_WorkHex = format_hex 68 1\<rparr>]"
      using basis True by (auto simp: payout_basis_def bindE_Inr_iff)
    have "address \<noteq> []" using payout EncodeAddress_nonempty by (auto simp: payout_pkh_def split: sum.splits if_splits)
    then have "\<not> address \<le> []" by (cases address) simp_all
    then have "scan_weight K ([], 0, []) \<lparr>pt_Address = address, pt_Shares = 1, pt_WorkHex = format_hex 68 1\<rparr> = Inr ([(address, 1)], 1, address)"
      using payout parse_one by (simp add: scan_weight_def failIf_def)
    then show ?thesis
      using w shape True fields payout by (simp add: check_requester_def failIf_def)
  next
    case False
    have len: "length (ps_Shares snap) \<le> 4096" "card (sh_Address ` set (ps_Shares snap)) \<le> 256"
      using wf win by (auto simp: wf_window_def)
    obtain pws works prev where w: "pplnsWeights snap = Inr pws" "pws \<noteq> []" "length pws \<le> 256"
      "foldE (scan_weight K) ([], 0, []) pws = Inr (works, int (length (ps_Shares snap)), prev)"
      by (rule window_weights_scan [OF wf len False])
    have b: "is_basis i = ''pplns_window''" "is_weights i = pws" using basis w(1) False by (auto simp: payout_basis_def)
    have "pplnsPayouts K snap reward = Inr (tx_Outs cb)" using shape False by simp
    then have "pplnsOutputsFromWork K (work_by_address (ps_Shares snap)) reward = Inr (tx_Outs cb)"
      by (auto simp: pplnsPayouts_def failIf_Inr_iff split: sum.splits)
    then have "pplnsOutputsFromWork K works reward = Inr (tx_Outs cb)"
      using committed_weights [OF w(1,4)] payout_order by metis
    then show ?thesis
      using w b fields False by (cases "ps_Shares snap") (simp_all add: check_window_def failIf_def)
  qed
  have dec: "DecodeTx (tx_Bytes cb) = Inr cb" using wftx by (rule DecodeTx_tx_Bytes)
  have ins: "length (tx_Ins cb) = 1" "in_Sig (tx_Ins cb ! 0) = []" "in_PubKey (tx_Ins cb ! 0) = put_uvarint (u64_of ?h)" using shape by simp_all
  have rew: "foldE coinbase_reward 0 (tx_Outs cb) = Inr reward" using cbv(2) by (rule coinbase_outputs_reward)
  have bh: "mapE branch_hash (po_CoinbaseMerkleBranch work) = Inr branch" using br(2) fields(7) branch_hashes by simp
  have tagok: "\<not> (length (tx_LockTag cb) \<le> length (string_bytes ('':'' @ is_stateHash i)) \<or>
      length (tx_LockTag cb) > 64 + length (string_bytes ('':'' @ is_stateHash i)) \<or>
      drop (length (tx_LockTag cb) - length (string_bytes ('':'' @ is_stateHash i))) (tx_LockTag cb) \<noteq> string_bytes ('':'' @ is_stateHash i))"
    using tag locktag by auto
  show ?thesis
    unfolding validatePoolCoinbaseProof_def hex hex_Decode_Encode sum.case
    using size dec ins cbv(1) rew t(4) tagok blen bh root rest br(2) fields(1,2,7)
    by (simp add: failIf_def Let_def)
qed

section \<open>Properties\<close>

lemma share_target_range:
  assumes "0 < t" and "t \<le> MaxTarget p" and "m \<noteq> (0 :: uint64)"
  shows "t \<le> share_target p m t \<and> share_target p m t \<le> MaxTarget p"
proof -
  have "unat m \<noteq> 0" using assms(3) by (simp add: unat_eq_zero)
  then have "1 \<le> int (unat m)" by linarith
  then have "t * 1 \<le> t * int (unat m)" using assms(1) by (intro mult_left_mono) auto
  then show ?thesis using assms(2) by (auto simp: share_target_def Let_def)
qed

lemma parse_target_format:
  assumes "0 < t" and "t \<le> MaxTarget p" and "CanonicalNetworkID (Some p) = Inr network"
  shows "parseCanonicalTarget (format_hex 64 t) = Inr t"
proof -
  have lt: "t < 2 ^ 256" using assms(2) MaxTarget_canonical [OF assms(3)] by simp
  then have hex: "format_hex 64 t = hex_EncodeToString (be_bytes 32 (nat t))" using format_hex_bytes [of t 32] assms(1) by simp
  have "nat t < 2 ^ 256" using lt assms(1) by (simp add: nat_less_iff)
  then have "be_nat (be_bytes 32 (nat t)) = nat t" by (simp add: be_nat_be_bytes)
  then show ?thesis using parseCanonicalTarget_Encode [of "be_bytes 32 (nat t)"] assms(1) by (simp add: hex)
qed

text \<open>A pool on the regression-test network with an empty window.\<close>

definition sample_pool :: PPLNSCoordinator where
  "sample_pool = \<lparr>pn_params = canonicalRegTestParams, pn_network = RegTestMachineID,
     pn_config = \<lparr>pg_JobTTL = 120000000000, pg_MaxJobs = 256, pg_MaxSubmissionsPerJob = 1024, pg_MaxReceipts = 4096,
       pg_ShareTargetMultiplier = 64, pg_Tag = ''t''\<rparr>,
     pn_jobs = [], pn_order = [], pn_receipts = [], pn_receiptOrder = [], pn_next = 0\<rparr>"

lemma sample_pool_reach: "reach (pool_init canonicalRegTestParams) (pool_step K mj) sample_pool"
proof -
  obtain c where "chain_init sample_crypto canonicalRegTestParams c" using NewChain_sample by blast
  then have "ch_params c = canonicalRegTestParams" by (rule index_sample(2))
  then have "NewPPLNSCoordinator (Some c) (Some sample_state)
      \<lparr>pg_JobTTL = 0, pg_MaxJobs = 0, pg_MaxSubmissionsPerJob = 0, pg_MaxReceipts = 0, pg_ShareTargetMultiplier = 0, pg_Tag = ''t''\<rparr> =
      Inr sample_pool"
    by (simp add: NewPPLNSCoordinator_def CanonicalNetworkID_regtest sample_state_def sample_pool_def default_int_def defaultJobTTL_def
        defaultMaxJobs_def defaultMaxPPLNSSubmissions_def defaultMaxPPLNSReceipts_def defaultShareTargetMultiplier_def
        maxShareTargetMultiplier_def pplnsStateSchemaVersion_def validPPLNSCoordinatorTag_def failIf_def Let_def)
  then have "pool_init canonicalRegTestParams sample_pool" using \<open>ch_params c = canonicalRegTestParams\<close> by (auto simp: pool_init_def)
  then show ?thesis by (rule reach_init)
qed

lemma sample_pool_template:
  assumes "chain_init sample_crypto canonicalRegTestParams c" and "length tag \<le> 129"
  obtains blk where "BuildBlockTemplateWithCoinbase sample_crypto (Some c) now (Some (\<lambda>h r. Some (NewCoinbase h r pkh tag))) = Inr blk"
    and "blk_Txs blk = [Some (NewCoinbase 1 5000000000 pkh tag)]" and "is_int64 now \<Longrightarrow> wf_Block blk"
proof -
  let ?cb = "NewCoinbase 1 5000000000 pkh tag"
  have size: "length (tx_Bytes ?cb) \<le> 32 * 1024"
    using coinbase_size [of ?cb "OutPoint 0 0xffffffff" 1] assms(2) by (simp add: NewCoinbase_def string_bytes_def)
  then have v: "length (put_uvarint (length (tx_Bytes ?cb))) \<le> 3" by (intro length_put_uvarint) simp_all
  have valid: "validateTemplateCoinbase (Some ?cb) 1 5000000000 = Inr ()"
    using assms(2) by (simp add: validateTemplateCoinbase_def NewCoinbase_def IsCoinbase_def coinbase_output_def
        checkedAddMoney_eq MoneyRange_simps string_bytes_def)
  obtain blk where run: "BuildBlockTemplateWithCoinbase sample_crypto (Some c) now (Some (\<lambda>h r. Some (NewCoinbase h r pkh tag))) = Inr blk"
    and txs: "blk_Txs blk = [Some ?cb]"
    using sample_facts [OF assms(1)] valid size v
    by (simp add: BuildBlockTemplateWithCoinbase_def Let_def SubsidyAt_1 checkedAddMoney_eq
        MoneyRange_simps MerkleRoot_def blk_Bytes_def writeBytes_def put_uvarint_small MaxBlockBytes_def)
  have "wf_Tx ?cb"
    using assms(2) by (simp add: wf_Tx_def NewCoinbase_def wf_TxIn_def wf_TxOut_def is_int64_def put_uvarint_small u64_of_def string_bytes_def)
  then have "wf_Block blk" if "is_int64 now"
    using that txs template_header [OF run] size v
    by (simp add: wf_Block_def blk_Bytes_def MaxBlockBytes_def writeBytes_def put_uvarint_small)
  then show ?thesis using that run txs by blast
qed

lemma sample_issue_pool:
  assumes "chain_init sample_crypto canonicalRegTestParams c"
  obtains work c' where "IssuePool sample_crypto (\<lambda>_. Inr []) 0 c 5 1751738400 (Inr (replicate 16 0)) sample_state (EncodeAddress sample_crypto 7)
    ''rig-1'' sample_pool = (Inr work, c')"
proof -
  let ?tag = "''t'' @ '':'' @ sample_hash" and ?now = "1751738400 :: int"
  have i64: "is_int64 ?now" by (simp add: is_int64_def)
  have "length ?tag \<le> 129" by (simp add: sample_hash_def)
  then obtain blk where run: "BuildBlockTemplateWithCoinbase sample_crypto (Some c) ?now (Some (\<lambda>h r. Some (NewCoinbase h r 7 ?tag))) = Inr blk"
    and txs: "blk_Txs blk = [Some (NewCoinbase 1 5000000000 7 ?tag)]" and wf: "wf_Block blk"
    using sample_pool_template [OF assms, of ?tag ?now 7] i64 by metis
  have st: "ps_Shares sample_state = []" "ps_Network sample_state = RegTestMachineID" by (simp_all add: sample_state_def)
  have "pool_coinbase sample_crypto sample_state 7 ?tag = (\<lambda>h r. Some (NewCoinbase h r 7 ?tag))"
    by (intro ext) (simp add: pool_coinbase_def st)
  then have run': "BuildBlockTemplateWithCoinbase sample_crypto (Some c) ?now (Some (pool_coinbase sample_crypto sample_state 7 ?tag)) = Inr blk"
    using run by simp
  obtain raw where raw: "blk_Bytes blk = Inr raw" using wf by (auto simp: wf_Block_def split: sum.splits)
  have copy: "copy_block wh blk = Inr blk" for wh using raw DecodeBlock_blk_Bytes [OF wf raw] by (simp add: copy_block_def)
  have nonce: "hdr_Nonce (blk_Header blk) = 0" using template_header [OF run] by simp
  have worker: "validWorker ''rig-1''" by code_simp
  have weights: "pplnsWeights sample_state = Inr []" by (simp add: pplnsWeights_def st work_by_address_def)
  have branch: "MerkleBranch sample_crypto (blk_Txs blk) 0 = Inr []" by (simp add: MerkleBranch_def txs failIf_def branch_loop.simps)
  have hash: "pplnsSnapshotHash sample_crypto (\<lambda>_. Inr []) sample_state = Inr sample_hash" by (simp add: pplnsSnapshotHash_def sample_hash_def)
  have conf: "pn_network sample_pool = RegTestMachineID" "pg_Tag (pn_config sample_pool) = ''t''" by (simp_all add: sample_pool_def)
  obtain i where i: "pool_template sample_crypto (\<lambda>_. Inr []) 0 c ?now (Inr (replicate 16 0)) sample_state (EncodeAddress sample_crypto 7)
      ''rig-1'' sample_pool = Inr i" "is_block i = blk"
    using run' copy nonce worker weights branch hash
    by (simp add: pool_template_def conf st failIf_def wrapE_def randomJobID_def payout_basis_def)
  have room: "make_room 256 [] ([] :: pplnsMiningJob jobs) = Some ([], [])" by (simp add: make_room.simps)
  show ?thesis
    using that i txs room by (simp add: IssuePool_def Let_def add_job_def sample_pool_def coinbase_hex_def)
qed



lemma claim_share_Receipt: "claim_share now tipID jobID nonce c = (Inr (Receipt r), c1) \<Longrightarrow> map_of (pn_receipts c) (pplnsReceiptKey jobID nonce) = Some r"
  by (auto simp: claim_share_def split: option.splits if_splits)

lemma claim_share_Claimed:
  "claim_share now tipID jobID nonce c = (Inr (Claimed job), c1) \<Longrightarrow>
     map_of (pn_jobs c) jobID = Some job \<and> now < pj_expiresAt job \<and> nonce \<notin> pj_seen job \<and> pn_params c1 = pn_params c"
  by (auto simp: claim_share_def split: option.splits if_splits)


text \<open>A share that meets the share target and misses the network target.\<close>

definition share_crypto :: crypto where
  "share_crypto = sample_crypto\<lparr>argon2id := \<lambda>_ _ _ _ _ n. be_bytes n 2\<rparr>"

definition share_job :: pplnsMiningJob where
  "share_job = \<lparr>pj_ref = 0, pj_block = sample_child, pj_address = EncodeAddress share_crypto 7, pj_height = 1, pj_issuedAt = 5,
     pj_expiresAt = 120000000005, pj_networkTarget = 1, pj_shareTarget = MaxTarget canonicalRegTestParams, pj_seen = {}\<rparr>"

definition share_pool :: PPLNSCoordinator where
  "share_pool = sample_pool\<lparr>pn_jobs := [(hex_EncodeToString (replicate 16 0), share_job)], pn_order := [hex_EncodeToString (replicate 16 0)],
     pn_next := 1\<rparr>"

definition share_io :: PPLNSIO where
  "share_io = sample_io\<lparr>io_marshal := \<lambda>_. Inr []\<rparr>"

lemma share_crypto_hash: "HashToBig (PowHash share_crypto header p) = 2"
proof -
  have "PowHash share_crypto header p = hash_of (be_bytes 32 2)" by (simp add: PowHash_def share_crypto_def)
  then show ?thesis by (simp add: HashToBig_def hash_bytes_hash_of be_nat_be_bytes)
qed

lemma share_hash_between: "2 \<le> MaxTarget canonicalRegTestParams"
  by (simp add: MaxTarget_def CompactToTarget_def canonicalRegTestParams_def)

lemma share_accept:
  assumes "share = job_share (hex_EncodeToString (replicate 16 0)) 3 6 share_job hash 0"
  shows "\<exists>w'. Accept share_crypto share_io sample_window share = (w', Inr (share\<lparr>sh_Sequence := 1\<rparr>))"
proof -
  have t: "0 < MaxTarget canonicalRegTestParams" "MaxTarget canonicalRegTestParams \<le> network_maximum RegTestMachineID"
    by (simp_all add: network_maximum_def MaxTarget_def CompactToTarget_def canonicalRegTestParams_def RegTestMachineID_def MainNetMachineID_def)
  have "parseCanonicalTarget (format_hex 64 (MaxTarget canonicalRegTestParams)) = Inr (MaxTarget canonicalRegTestParams)"
    by (rule parse_target_format [OF t(1) order_refl CanonicalNetworkID_regtest])
  then have ok: "share_ok share_crypto RegTestMachineID share"
    using t(2) by (simp add: assms job_share_def share_job_def share_ok_def wrap64_def)
  have st: "ps_Network sample_state = RegTestMachineID" "ps_NextSequence sample_state = 1" "ps_Shares sample_state = []"
    "ps_WindowShares sample_state = 4" "ps_MaxAddresses sample_state = 2" by (simp_all add: sample_state_def)
  have wf: "wf_window share_crypto sample_state" by (simp add: wf_window_def sample_state_def pplnsStateSchemaVersion_def)
  have sl: "ps_Shares (slide sample_state share) = [share\<lparr>sh_Sequence := 1\<rparr>]" by (simp add: slide_def trim_window_def sample_state_def)
  have "validatePPLNSState share_crypto (slide sample_state share) (ps_Network sample_state)
      (ps_WindowShares sample_state) (ps_MaxAddresses sample_state) = Inr ()"
    using slide_valid_iff [OF wf, of share] st ok sl by simp
  moreover have "validatePPLNSShare share_crypto share False = Inr ()"
    using share_ok_iff [of share_crypto share False RegTestMachineID] ok by (simp add: assms job_share_def)
  ultimately show ?thesis
    using Accept_taken [of share_crypto share sample_window share_io "[]"] st
    by (simp add: sample_window_def share_io_def sample_io_def maxPPLNSStateBytes_def)
qed




end
