(* ===== verification/PeerAddress.thy ===== *)
theory PeerAddress
  imports Hex "HOL-Library.Char_ord"
begin

text \<open>
  The address rules of \<^verbatim>\<open>p2p/p2p.go\<close>: which text is a dial target, which addresses a node gossips and
  keeps, and the identities a handshake carries. The classification of IP addresses is that of
  \<^verbatim>\<open>net/netip\<close>; the text forms of addresses (\<^verbatim>\<open>net.ParseIP\<close>, \<^verbatim>\<open>netip.ParseAddr\<close> and its inverse,
  \<^verbatim>\<open>strings.TrimSpace\<close> and \<^verbatim>\<open>strings.ToLower\<close>) are the fields of a parameter.
\<close>

section \<open>IP addresses\<close>

datatype ip = IP4 "32 word" | IP6 "128 word" string

record text_lib =
  tl_TrimSpace :: "string \<Rightarrow> string"
  tl_ToLower :: "string \<Rightarrow> string"
  tl_ParseIP :: "string \<Rightarrow> string option"
  tl_ParseAddr :: "string \<Rightarrow> ip option"
  tl_String :: "ip \<Rightarrow> string"

fun ip_Zone :: "ip \<Rightarrow> string" where
  "ip_Zone (IP4 a) = []"
| "ip_Zone (IP6 a zone) = zone"

fun ip_Is6 :: "ip \<Rightarrow> bool" where
  "ip_Is6 (IP4 a) = False"
| "ip_Is6 (IP6 a zone) = True"

fun ip_Unmap :: "ip \<Rightarrow> ip" where
  "ip_Unmap (IP4 a) = IP4 a"
| "ip_Unmap (IP6 a zone) = (if drop_bit 32 a = 0xffff then IP4 (ucast a) else IP6 a zone)"

text \<open>\<open>Prefix.Contains\<close>: an address with a zone is in no prefix, and the families must agree.\<close>

fun prefix_Contains :: "ip \<times> nat \<Rightarrow> ip \<Rightarrow> bool" where
  "prefix_Contains (IP4 p, n) (IP4 a) = (drop_bit (32 - n) p = drop_bit (32 - n) a)"
| "prefix_Contains (IP6 p z, n) (IP6 a zone) = (zone = [] \<and> drop_bit (128 - n) p = drop_bit (128 - n) a)"
| "prefix_Contains (IP4 p, n) (IP6 a zone) = False"
| "prefix_Contains (IP6 p z, n) (IP4 a) = False"

fun ip_IsLoopback :: "ip \<Rightarrow> bool" where
  "ip_IsLoopback (IP4 a) = (drop_bit 24 a = 127)"
| "ip_IsLoopback (IP6 a zone) = (if drop_bit 32 a = 0xffff then drop_bit 24 (ucast a :: 32 word) = 127 else a = 1)"

fun ip_IsMulticast :: "ip \<Rightarrow> bool" where
  "ip_IsMulticast (IP4 a) = (drop_bit 28 a = 0xe)"
| "ip_IsMulticast (IP6 a zone) = (if drop_bit 32 a = 0xffff then drop_bit 28 (ucast a :: 32 word) = 0xe else drop_bit 120 a = 0xff)"

fun ip_IsLinkLocalUnicast :: "ip \<Rightarrow> bool" where
  "ip_IsLinkLocalUnicast (IP4 a) = (drop_bit 16 a = 0xa9fe)"
| "ip_IsLinkLocalUnicast (IP6 a zone) =
     (if drop_bit 32 a = 0xffff then drop_bit 16 (ucast a :: 32 word) = 0xa9fe else drop_bit 118 a = 0x3fa)"

fun ip_IsPrivate :: "ip \<Rightarrow> bool" where
  "ip_IsPrivate (IP4 a) = (drop_bit 24 a = 10 \<or> drop_bit 20 a = 0xac1 \<or> drop_bit 16 a = 0xc0a8)"
| "ip_IsPrivate (IP6 a zone) =
     (if drop_bit 32 a = 0xffff
      then drop_bit 24 (ucast a :: 32 word) = 10 \<or> drop_bit 20 (ucast a :: 32 word) = 0xac1 \<or> drop_bit 16 (ucast a :: 32 word) = 0xc0a8
      else drop_bit 121 a = 0x7e)"

fun ip_IsUnspecified :: "ip \<Rightarrow> bool" where
  "ip_IsUnspecified (IP4 a) = (a = 0)"
| "ip_IsUnspecified (IP6 a zone) = (a = 0 \<and> zone = [])"

definition ip_IsGlobalUnicast :: "ip \<Rightarrow> bool" where
  "ip_IsGlobalUnicast a =
     (a \<noteq> IP4 0 \<and> a \<noteq> IP4 0xffffffff \<and> a \<noteq> IP6 0 [] \<and> \<not> ip_IsLoopback a \<and> \<not> ip_IsMulticast a \<and> \<not> ip_IsLinkLocalUnicast a)"

definition ipv6GlobalUnicastPrefix :: "ip \<times> nat" where
  "ipv6GlobalUnicastPrefix = (IP6 0x20000000000000000000000000000000 [], 3)"

definition blockedGossipPrefixes :: "(ip \<times> nat) list" where
  "blockedGossipPrefixes =
     [(IP4 0x00000000, 8), (IP4 0x64400000, 10), (IP4 0xc0000000, 24), (IP4 0xc0000200, 24), (IP4 0xc0586300, 24),
      (IP4 0xc6120000, 15), (IP4 0xc6336400, 24), (IP4 0xcb007100, 24), (IP4 0xf0000000, 4),
      (IP6 0x0064ff9b000000000000000000000000 [], 96), (IP6 0x0064ff9b000100000000000000000000 [], 48),
      (IP6 0x01000000000000000000000000000000 [], 64), (IP6 0x20010000000000000000000000000000 [], 23),
      (IP6 0x20010db8000000000000000000000000 [], 32), (IP6 0x20020000000000000000000000000000 [], 16),
      (IP6 0x3ffe0000000000000000000000000000 [], 16), (IP6 0x3fff0000000000000000000000000000 [], 20),
      (IP6 0x5f000000000000000000000000000000 [], 16), (IP6 0xfec00000000000000000000000000000 [], 10)]"

definition isPublicGossipIP :: "ip \<Rightarrow> bool" where
  "isPublicGossipIP a =
     (if \<not> ip_IsGlobalUnicast a \<or> ip_IsPrivate a \<or> ip_IsLoopback a \<or> ip_IsLinkLocalUnicast a \<or> ip_IsMulticast a \<or> ip_IsUnspecified a
      then False
      else if ip_Is6 a \<and> \<not> prefix_Contains ipv6GlobalUnicastPrefix a then False
      else \<not> list_ex (\<lambda>prefix. prefix_Contains prefix a) blockedGossipPrefixes)"

section \<open>Host and port\<close>

text \<open>\<^verbatim>\<open>strings.Index\<close> and \<^verbatim>\<open>strings.LastIndex\<close> of a byte.\<close>

fun index_byte :: "char \<Rightarrow> string \<Rightarrow> nat option" where
  "index_byte c [] = None"
| "index_byte c (x # xs) = (if x = c then Some 0 else map_option Suc (index_byte c xs))"

definition last_index_byte :: "char \<Rightarrow> string \<Rightarrow> nat option" where
  "last_index_byte c s = map_option (\<lambda>i. length s - 1 - i) (index_byte c (rev s))"

text \<open>\<^verbatim>\<open>net.SplitHostPort\<close> with its error cases collapsed.\<close>

definition SplitHostPort :: "string \<Rightarrow> (string \<times> string) option" where
  "SplitHostPort hostport =
     (case last_index_byte (CHR '':'') hostport of None \<Rightarrow> None
      | Some i \<Rightarrow>
          (let port = drop (Suc i) hostport in
           if hostport ! 0 = CHR ''['' then
             (case index_byte (CHR '']'') hostport of None \<Rightarrow> None
              | Some k \<Rightarrow>
                  if Suc k \<noteq> i then None
                  else if CHR ''['' \<in> set (drop 1 hostport) \<or> CHR '']'' \<in> set (drop (Suc k) hostport) then None
                  else Some (drop 1 (take k hostport), port))
           else if CHR '':'' \<in> set (take i hostport) then None
           else if CHR ''['' \<in> set hostport \<or> CHR '']'' \<in> set hostport then None
           else Some (take i hostport, port)))"

definition JoinHostPort :: "string \<Rightarrow> string \<Rightarrow> string" where
  "JoinHostPort host port =
     (if CHR '':'' \<in> set host then ''['' @ host @ '']:'' @ port else host @ '':'' @ port)"

definition digit :: "char \<Rightarrow> nat option" where
  "digit c = (let n = of_char c :: nat in if 48 \<le> n \<and> n \<le> 57 then Some (n - 48) else None)"

text \<open>\<^verbatim>\<open>strconv.Atoi\<close> without its range error: its callers refuse every number above 65535.\<close>

definition Atoi :: "string \<Rightarrow> int option" where
  "Atoi s =
     (let digits = (if s \<noteq> [] \<and> (s ! 0 = CHR ''+'' \<or> s ! 0 = CHR ''-'') then drop 1 s else s);
          n = foldl (\<lambda>acc c. case acc of None \<Rightarrow> None | Some v \<Rightarrow> map_option (\<lambda>d. 10 * v + int d) (digit c)) (Some 0) digits
      in if digits = [] then None
         else if s ! 0 = CHR ''-'' then map_option uminus n else n)"

fun Itoa_nat :: "nat \<Rightarrow> string" where
  "Itoa_nat n = (if n < 10 then [char_of (48 + n)] else Itoa_nat (n div 10) @ [char_of (48 + n mod 10)])"

declare Itoa_nat.simps [simp del]

definition Itoa :: "int \<Rightarrow> string" where
  "Itoa n = (if n < 0 then ''-'' @ Itoa_nat (nat (- n)) else Itoa_nat (nat n))"

section \<open>Targets\<close>

definition trim_dot :: "string \<Rightarrow> string" where
  "trim_dot host = (if host \<noteq> [] \<and> last host = CHR ''.'' then butlast host else host)"

definition normalizeDialTarget :: "text_lib \<Rightarrow> string \<Rightarrow> string option" where
  "normalizeDialTarget L addr0 =
     (let addr = tl_TrimSpace L addr0 in
      if addr = [] \<or> length addr > 320 then None
      else case SplitHostPort addr of None \<Rightarrow> None
      | Some (host, portText) \<Rightarrow>
          if host = [] then None
          else case Atoi portText of None \<Rightarrow> None
          | Some port \<Rightarrow>
              if port < 1 \<or> port > 65535 then None
              else case tl_ParseIP L host of
                Some text \<Rightarrow> Some (JoinHostPort text (Itoa port))
              | None \<Rightarrow>
                  if length host > 253 \<or> list_ex (\<lambda>c. c \<in> set [CHR '' '', CHR ''/'', CHR 0x5c, CHR 0x09, CHR 0x0d, CHR 0x0a]) host then None
                  else Some (JoinHostPort (tl_ToLower L (trim_dot host)) (Itoa port)))"

definition normalizeGossipAddress :: "text_lib \<Rightarrow> string \<Rightarrow> string option" where
  "normalizeGossipAddress L addr =
     (case normalizeDialTarget L addr of None \<Rightarrow> None
      | Some normalized \<Rightarrow>
          (let (host, port) = (case SplitHostPort normalized of None \<Rightarrow> ([], []) | Some hp \<Rightarrow> hp) in
           case tl_ParseAddr L host of None \<Rightarrow> None
           | Some a \<Rightarrow>
               if ip_Zone a \<noteq> [] then None
               else if \<not> isPublicGossipIP (ip_Unmap a) then None
               else Some (JoinHostPort (tl_String L (ip_Unmap a)) port)))"

definition dialablePeerEndpoint :: "text_lib \<Rightarrow> string \<Rightarrow> string \<Rightarrow> string option" where
  "dialablePeerEndpoint L remoteAddr advertisedListen =
     (case SplitHostPort remoteAddr of None \<Rightarrow> None
      | Some (host, _) \<Rightarrow>
          if host = [] then None
          else case SplitHostPort advertisedListen of None \<Rightarrow> None
          | Some (_, portText) \<Rightarrow>
              (case Atoi portText of None \<Rightarrow> None
               | Some port \<Rightarrow>
                   if port < 1 \<or> port > 65535 then None
                   else normalizeGossipAddress L (JoinHostPort host (Itoa port))))"

definition remoteIPFromAddr :: "text_lib \<Rightarrow> string \<Rightarrow> string" where
  "remoteIPFromAddr L remoteAddr =
     (case SplitHostPort remoteAddr of None \<Rightarrow> []
      | Some (host, _) \<Rightarrow> (case tl_ParseAddr L host of None \<Rightarrow> [] | Some a \<Rightarrow> tl_String L (ip_Unmap a)))"

section \<open>Identities\<close>

text \<open>A node id is text of hexadecimal digits, which \<open>strings.ToLower\<close> maps one by one.\<close>

definition lower_ascii :: "char \<Rightarrow> char" where
  "lower_ascii c = (let n = of_char c :: nat in if 65 \<le> n \<and> n \<le> 90 then char_of (n + 32) else c)"

definition normalizeHandshakeID :: "string \<Rightarrow> string option" where
  "normalizeHandshakeID value =
     (if length value \<noteq> 32 then None
      else case hex_DecodeString value of Inl _ \<Rightarrow> None
      | Inr decoded \<Rightarrow> if length decoded \<noteq> 16 then None else Some (map lower_ascii value))"

definition peerIdentity :: "text_lib \<Rightarrow> string \<Rightarrow> string \<Rightarrow> string \<Rightarrow> string" where
  "peerIdentity L remoteNodeID remoteAddr dialable =
     (case normalizeHandshakeID remoteNodeID of
        Some nodeID \<Rightarrow>
          (let sourceIP = remoteIPFromAddr L remoteAddr in
           if sourceIP \<noteq> [] then ''node:'' @ nodeID @ ''@'' @ sourceIP else ''node:'' @ nodeID)
      | None \<Rightarrow> if dialable \<noteq> [] then ''legacy:'' @ dialable else ''legacy-conn:'' @ remoteAddr)"

definition connectionTieKey :: "string \<Rightarrow> string \<Rightarrow> string \<Rightarrow> string \<Rightarrow> string" where
  "connectionTieKey localNodeID localNonce remoteNodeID remoteNonce =
     (case (normalizeHandshakeID localNodeID, normalizeHandshakeID localNonce,
            normalizeHandshakeID remoteNodeID, normalizeHandshakeID remoteNonce) of
        (Some localID, Some localN, Some remoteID, Some remoteN) \<Rightarrow>
          (let local = localID @ '':'' @ localN; remote = remoteID @ '':'' @ remoteN in
           if local > remote then remote @ ''|'' @ local else local @ ''|'' @ remote)
      | _ \<Rightarrow> [])"

lemma connectionTieKey_symmetric:
  "connectionTieKey a n b m = connectionTieKey b m a n"
  by (auto simp: connectionTieKey_def Let_def split: option.splits)

end
