(* ===== verification/Peer.thy ===== *)
theory Peer
  imports PeerAddress Chain "HOL-Library.AList"
begin

text \<open>
  The node of \<^verbatim>\<open>p2p/p2p.go\<close>: its tables of peers, targets and pending handshakes, the operations that change
  them under \<^verbatim>\<open>n.mu\<close>, the decision a handshake makes on the first message, the handler of every later
  message, and the framing. A handler reads the chain once (the source takes the chain's lock for each access). Go maps are association lists with distinct keys, maps to \<^verbatim>\<open>true\<close> are finite
  sets. A connection is a number, which stands for the pointer to its \<^verbatim>\<open>peer\<close>. What the
  handler writes to the connection is part of its result; a failed write ends the connection and changes
  nothing else. JSON is a pair of parameter functions.
\<close>

section \<open>Data\<close>

definition protocolVersion :: int where "protocolVersion = 1"
definition maxMsgBytes :: nat where "maxMsgBytes = MaxBlockBytes + 4096"
definition maxPeers :: nat where "maxPeers = 32"
definition reservedOutboundSlots :: nat where "reservedOutboundSlots = 4"
definition maxPendingOutbound :: nat where "maxPendingOutbound = 4"
definition maxPendingInbound :: nat where "maxPendingInbound = 8"
definition maxPendingInboundPerIP :: nat where "maxPendingInboundPerIP = 2"
definition blockBatchSize :: nat where "blockBatchSize = 64"
definition blockBatchBytes :: nat where "blockBatchBytes = 4 * 1024 * 1024"
definition duplicateCrossDialWindow :: int where "duplicateCrossDialWindow = 15000000000"

record Msg =
  m_Type :: string
  m_Version :: int
  m_Magic :: uint32
  m_Height :: int
  m_Hashes :: "string list"
  m_From :: int
  m_Raw :: "byte list"
  m_Addrs :: "string list"
  m_Listen :: string
  m_NodeID :: string
  m_Nonce :: string
  m_More :: bool

definition new_Msg :: "string \<Rightarrow> Msg" where
  "new_Msg type =
     \<lparr>m_Type = type, m_Version = 0, m_Magic = 0, m_Height = 0, m_Hashes = [], m_From = 0, m_Raw = [], m_Addrs = [],
      m_Listen = [], m_NodeID = [], m_Nonce = [], m_More = False\<rparr>"

record handshakeReservation =
  hr_token :: uint64
  hr_target :: string
  hr_sourceIP :: string

record peer =
  pr_conn :: nat
  pr_addr :: string
  pr_tieKey :: string
  pr_remoteIP :: string
  pr_outbound :: bool
  pr_connectedAt :: int
  pr_advertisedHeight :: int

record Node =
  nd_chain :: Chain
  nd_listen :: string
  nd_peers :: "(string \<times> peer) list"
  nd_known :: "string set"
  nd_trustedSeeds :: "string set"
  nd_seedTargets :: "string list"
  nd_suppressed :: "string set"
  nd_dialing :: "(string \<times> uint64) list"
  nd_pending :: "(uint64 \<times> handshakeReservation) list"
  nd_targets :: "(string \<times> string) list"
  nd_nextToken :: uint64
  nd_seedCursor :: nat
  nd_gossipCursor :: nat
  nd_nodeID :: string

definition NewNode :: "Chain \<Rightarrow> string \<Rightarrow> string \<Rightarrow> Node" where
  "NewNode chain listen nodeID =
     \<lparr>nd_chain = chain, nd_listen = listen, nd_peers = [], nd_known = {}, nd_trustedSeeds = {}, nd_seedTargets = [],
      nd_suppressed = {}, nd_dialing = [], nd_pending = [], nd_targets = [], nd_nextToken = 0, nd_seedCursor = 0,
      nd_gossipCursor = 0, nd_nodeID = nodeID\<rparr>"

text \<open>The seed loop of \<open>startWithListener\<close>.\<close>

definition add_seed :: "text_lib \<Rightarrow> string \<Rightarrow> Node \<Rightarrow> Node" where
  "add_seed L s n =
     (case normalizeDialTarget L s of None \<Rightarrow> n
      | Some target \<Rightarrow>
          if target \<in> nd_suppressed n then n
          else
            let n1 = n\<lparr>nd_known := insert target (nd_known n)\<rparr> in
            if target \<in> nd_trustedSeeds n1 then n1
            else n1\<lparr>nd_trustedSeeds := insert target (nd_trustedSeeds n1), nd_seedTargets := nd_seedTargets n1 @ [target]\<rparr>)"

definition startWithListener :: "text_lib \<Rightarrow> string list \<Rightarrow> Node \<Rightarrow> Node" where
  "startWithListener L seeds n = fold (add_seed L) seeds n"

section \<open>Handshake slots\<close>

definition reserveHandshakeLocked :: "Node \<Rightarrow> string \<Rightarrow> string \<Rightarrow> Node \<times> handshakeReservation" where
  "reserveHandshakeLocked n target sourceIP =
     (let token = nd_nextToken n + 1;
          reservation = \<lparr>hr_token = token, hr_target = target, hr_sourceIP = sourceIP\<rparr>;
          n1 = n\<lparr>nd_nextToken := token, nd_pending := AList.update token reservation (nd_pending n)\<rparr>
      in (if target \<noteq> [] then n1\<lparr>nd_dialing := AList.update target token (nd_dialing n1)\<rparr> else n1, reservation))"

text \<open>The source reads a missing entry of \<open>dialing\<close> as zero; deleting a missing key changes nothing.\<close>

definition releaseHandshakeLocked :: "Node \<Rightarrow> handshakeReservation \<Rightarrow> Node \<times> bool" where
  "releaseHandshakeLocked n reservation =
     (case map_of (nd_pending n) (hr_token reservation) of None \<Rightarrow> (n, False)
      | Some current \<Rightarrow>
          if current \<noteq> reservation then (n, False)
          else
            let n1 = n\<lparr>nd_pending := AList.delete (hr_token reservation) (nd_pending n)\<rparr> in
            (if hr_target reservation \<noteq> [] \<and> map_of (nd_dialing n1) (hr_target reservation) = Some (hr_token reservation)
             then n1\<lparr>nd_dialing := AList.delete (hr_target reservation) (nd_dialing n1)\<rparr> else n1, True))"

definition releaseHandshake :: "Node \<Rightarrow> handshakeReservation \<Rightarrow> Node" where
  "releaseHandshake n reservation = fst (releaseHandshakeLocked n reservation)"

definition pending_outbound :: "Node \<Rightarrow> nat" where
  "pending_outbound n = length (filter (\<lambda>(_, r). hr_target r \<noteq> []) (nd_pending n))"

definition pending_inbound :: "Node \<Rightarrow> nat" where
  "pending_inbound n = length (filter (\<lambda>(_, r). hr_target r = []) (nd_pending n))"

definition pending_from :: "Node \<Rightarrow> string \<Rightarrow> nat" where
  "pending_from n sourceIP =
     length (filter (\<lambda>(_, r). hr_target r = [] \<and> sourceIP \<noteq> [] \<and> hr_sourceIP r = sourceIP) (nd_pending n))"

definition inbound_peers :: "Node \<Rightarrow> nat" where
  "inbound_peers n = length (filter (\<lambda>(_, p). \<not> pr_outbound p) (nd_peers n))"

definition reserveInboundHandshakeFrom :: "text_lib \<Rightarrow> Node \<Rightarrow> string \<Rightarrow> Node \<times> handshakeReservation option" where
  "reserveInboundHandshakeFrom L n remoteAddr =
     (let sourceIP = remoteIPFromAddr L remoteAddr in
      if length (nd_peers n) + length (nd_pending n) \<ge> maxPeers \<or>
         inbound_peers n + pending_inbound n \<ge> maxPeers - reservedOutboundSlots \<or>
         pending_inbound n \<ge> maxPendingInbound \<or>
         sourceIP \<noteq> [] \<and> pending_from n sourceIP \<ge> maxPendingInboundPerIP
      then (n, None)
      else case reserveHandshakeLocked n [] sourceIP of (n', reservation) \<Rightarrow> (n', Some reservation))"

section \<open>Choosing targets to dial\<close>

definition isAvailable :: "Node \<Rightarrow> string \<Rightarrow> Node \<times> bool" where
  "isAvailable n target =
     (if target \<notin> nd_known n then (n, False)
      else if target \<in> nd_suppressed n then (n\<lparr>nd_known := nd_known n - {target}\<rparr>, False)
      else if map_of (nd_dialing n) target \<noteq> None then (n, False)
      else case map_of (nd_targets n) target of
        Some key \<Rightarrow> if map_of (nd_peers n) key \<noteq> None then (n, False) else (n\<lparr>nd_targets := AList.delete target (nd_targets n)\<rparr>, True)
      | None \<Rightarrow> (n, True))"

fun available_targets :: "Node \<Rightarrow> string list \<Rightarrow> Node \<times> string list" where
  "available_targets n [] = (n, [])"
| "available_targets n (target # rest) =
     (case isAvailable n target of (n1, ok) \<Rightarrow>
      case available_targets n1 rest of (n2, found) \<Rightarrow> (n2, if ok then target # found else found))"

definition reserve_target :: "nat \<Rightarrow> string \<Rightarrow> Node \<times> handshakeReservation list \<Rightarrow> (Node \<times> handshakeReservation list) \<times> bool" where
  "reserve_target available target st =
     (case st of (n, out) \<Rightarrow>
      if length out \<ge> available then ((n, out), False)
      else case isAvailable n target of
        (n1, False) \<Rightarrow> ((n1, out), False)
      | (n1, True) \<Rightarrow> (case reserveHandshakeLocked n1 target [] of (n2, reservation) \<Rightarrow> ((n2, out @ [reservation]), True)))"

fun rotate_loop ::
  "nat \<Rightarrow> string list \<Rightarrow> nat \<Rightarrow> nat list \<Rightarrow> nat \<Rightarrow> nat \<Rightarrow> Node \<times> handshakeReservation list \<Rightarrow> nat \<times> Node \<times> handshakeReservation list"
where
  "rotate_loop available candidates limit [] added cursor st = (cursor, st)"
| "rotate_loop available candidates limit (index # rest) added cursor st =
     (if \<not> (added < limit \<and> length (snd st) < available) then (cursor, st)
      else case reserve_target available (candidates ! index) st of
        (st', True) \<Rightarrow> rotate_loop available candidates limit rest (Suc added) (Suc index mod length candidates) st'
      | (st', False) \<Rightarrow> rotate_loop available candidates limit rest added cursor st')"

definition reserveRotating ::
  "nat \<Rightarrow> string list \<Rightarrow> nat \<Rightarrow> nat \<Rightarrow> Node \<times> handshakeReservation list \<Rightarrow> nat \<times> Node \<times> handshakeReservation list"
where
  "reserveRotating available candidates cursor limit st =
     (if candidates = [] \<or> limit = 0 then (cursor, st)
      else
        let start = cursor mod length candidates in
        rotate_loop available candidates limit (map (\<lambda>offset. (start + offset) mod length candidates) [0..<length candidates]) 0 cursor st)"

definition rotate_seeds :: "nat \<Rightarrow> string list \<Rightarrow> nat \<Rightarrow> Node \<times> handshakeReservation list \<Rightarrow> Node \<times> handshakeReservation list" where
  "rotate_seeds available candidates limit st =
     (case reserveRotating available candidates (nd_seedCursor (fst st)) limit st of (cursor, n, out) \<Rightarrow> (n\<lparr>nd_seedCursor := cursor\<rparr>, out))"

definition rotate_gossip :: "nat \<Rightarrow> string list \<Rightarrow> nat \<Rightarrow> Node \<times> handshakeReservation list \<Rightarrow> Node \<times> handshakeReservation list" where
  "rotate_gossip available candidates limit st =
     (case reserveRotating available candidates (nd_gossipCursor (fst st)) limit st of (cursor, n, out) \<Rightarrow> (n\<lparr>nd_gossipCursor := cursor\<rparr>, out))"

definition dial_plan :: "nat \<Rightarrow> string list \<Rightarrow> string list \<Rightarrow> Node \<times> handshakeReservation list \<Rightarrow> Node \<times> handshakeReservation list" where
  "dial_plan available seedCandidates gossipTargets st0 =
     (let st1 =
            (if seedCandidates \<noteq> [] \<and> gossipTargets \<noteq> [] \<and> available > 1
             then rotate_gossip available gossipTargets 1 (rotate_seeds available seedCandidates (available - 1) st0)
             else if seedCandidates \<noteq> [] then rotate_seeds available seedCandidates available st0
             else rotate_gossip available gossipTargets available st0);
          st2 = (if length (snd st1) < available then rotate_seeds available seedCandidates (available - length (snd st1)) st1 else st1)
      in if length (snd st2) < available then rotate_gossip available gossipTargets (available - length (snd st2)) st2 else st2)"

definition reserveDialCandidates :: "Node \<Rightarrow> Node \<times> handshakeReservation list" where
  "reserveDialCandidates n =
     (let available = min (maxPeers - length (nd_peers n) - length (nd_pending n)) (maxPendingOutbound - pending_outbound n) in
      if available = 0 then (n, [])
      else
        case available_targets n (nd_seedTargets n) of (n1, seedCandidates) \<Rightarrow>
        case available_targets n1 (sorted_list_of_set {target \<in> nd_known n1. target \<notin> nd_trustedSeeds n1}) of (n2, gossipTargets) \<Rightarrow>
        dial_plan available seedCandidates gossipTargets (n2, []))"

section \<open>Registering peers\<close>

definition rememberPeerTargetsLocked :: "Node \<Rightarrow> string \<Rightarrow> string \<Rightarrow> string \<Rightarrow> Node" where
  "rememberPeerTargetsLocked n target dialable key =
     (let n1 = (if target \<noteq> [] \<and> target \<notin> nd_suppressed n then n\<lparr>nd_targets := AList.update target key (nd_targets n)\<rparr> else n) in
      if dialable \<noteq> [] \<and> dialable \<notin> nd_suppressed n1 then
        let n2 = n1\<lparr>nd_targets := AList.update dialable key (nd_targets n1)\<rparr> in
        if card (nd_known n2) < 1000 then n2\<lparr>nd_known := insert dialable (nd_known n2)\<rparr> else n2
      else n1)"

text \<open>\<^verbatim>\<open>time.Time.Sub\<close> saturates, and the negation of a duration wraps.\<close>

definition time_Sub :: "int \<Rightarrow> int \<Rightarrow> int" where
  "time_Sub a b = max (- (2 ^ 63)) (min (2 ^ 63 - 1) (a - b))"

definition canReplaceConcurrentDuplicate :: "peer \<Rightarrow> peer \<Rightarrow> bool" where
  "canReplaceConcurrentDuplicate existing candidate =
     (if pr_remoteIP existing = [] \<or> pr_remoteIP candidate = [] \<or> pr_remoteIP existing \<noteq> pr_remoteIP candidate then False
      else if pr_tieKey existing = [] \<or> pr_tieKey candidate = [] \<or> pr_tieKey candidate \<ge> pr_tieKey existing then False
      else
        let delta = time_Sub (pr_connectedAt candidate) (pr_connectedAt existing) in
        (if delta < 0 then wrap64 (- delta) else delta) \<le> duplicateCrossDialWindow)"

text \<open>The zero time is 0. The third component of the result is the connection that a replacement closes.\<close>

definition registerPeer :: "Node \<Rightarrow> handshakeReservation \<Rightarrow> string \<Rightarrow> string \<Rightarrow> int \<Rightarrow> peer \<Rightarrow> Node \<times> bool \<times> nat option" where
  "registerPeer n reservation key dialable now p0 =
     (case releaseHandshakeLocked n reservation of
        (n1, False) \<Rightarrow> (n1, False, None)
      | (n1, True) \<Rightarrow>
          let p = p0\<lparr>pr_outbound := (hr_target reservation \<noteq> []), pr_connectedAt := if pr_connectedAt p0 = 0 then now else pr_connectedAt p0\<rparr> in
          (case map_of (nd_peers n1) key of
             Some existing \<Rightarrow>
               let sameSource = pr_remoteIP p \<noteq> [] \<and> pr_remoteIP p = pr_remoteIP existing;
                   n2 = (if sameSource then rememberPeerTargetsLocked n1 (hr_target reservation) dialable key else n1)
               in if \<not> canReplaceConcurrentDuplicate existing p then (n2, False, None)
                  else (n2\<lparr>nd_peers := AList.update key p (nd_peers n2)\<rparr>, True, Some (pr_conn existing))
           | None \<Rightarrow>
               if length (nd_peers n1) \<ge> maxPeers then (n1, False, None)
               else (rememberPeerTargetsLocked (n1\<lparr>nd_peers := AList.update key p (nd_peers n1)\<rparr>) (hr_target reservation) dialable key, True, None)))"

definition unregisterPeer :: "Node \<Rightarrow> string \<Rightarrow> nat \<Rightarrow> Node \<times> bool" where
  "unregisterPeer n key owner =
     (case map_of (nd_peers n) key of None \<Rightarrow> (n, False)
      | Some p \<Rightarrow>
          if pr_conn p \<noteq> owner then (n, False)
          else (n\<lparr>nd_peers := AList.delete key (nd_peers n), nd_targets := filter (\<lambda>(_, peerKey). peerKey \<noteq> key) (nd_targets n)\<rparr>, True))"

definition suppress_target :: "string \<Rightarrow> Node \<Rightarrow> Node" where
  "suppress_target target n =
     (if target = [] then n
      else n\<lparr>nd_suppressed := insert target (nd_suppressed n), nd_known := nd_known n - {target},
             nd_targets := AList.delete target (nd_targets n)\<rparr>)"

definition suppressSelfTargets :: "string list \<Rightarrow> Node \<Rightarrow> Node" where
  "suppressSelfTargets targets n = fold suppress_target targets n"

section \<open>The handshake\<close>

definition hello_Msg :: "Node \<Rightarrow> string \<Rightarrow> Msg" where
  "hello_Msg n localNonce =
     (new_Msg ''hello'')\<lparr>m_Version := protocolVersion, m_Magic := NetMagic (ch_params (nd_chain n)), m_Height := snd (Tip (nd_chain n)),
       m_Listen := nd_listen n, m_NodeID := nd_nodeID n, m_Nonce := localNonce\<rparr>"

definition getblocks_Msg :: "int \<Rightarrow> Msg" where
  "getblocks_Msg from = (new_Msg ''getblocks'')\<lparr>m_From := from\<rparr>"

text \<open>The addresses a new peer is told: at most sixteen, in the order in which the map is traversed.\<close>

definition shared_addresses :: "text_lib \<Rightarrow> string list \<Rightarrow> string list" where
  "shared_addresses L order = take 16 (List.map_filter (normalizeGossipAddress L) order)"

text \<open>\<open>handleConn\<close> from the receipt of the remote hello to the start of the message loop: the node, and the key,
  the peer and the first messages of an established connection. A refused connection releases its
  reservation (the deferred call).\<close>

definition handle_hello ::
  "text_lib \<Rightarrow> Node \<Rightarrow> handshakeReservation \<Rightarrow> nat \<Rightarrow> string \<Rightarrow> int \<Rightarrow> string \<Rightarrow> string list \<Rightarrow> Msg \<Rightarrow>
     Node \<times> (string \<times> peer \<times> Msg list) option"
where
  "handle_hello L n reservation conn remoteAddr now localNonce order hello =
     (if m_Type hello \<noteq> ''hello'' \<or> m_Magic hello \<noteq> NetMagic (ch_params (nd_chain n)) then (releaseHandshake n reservation, None)
      else
        let dialable = (case dialablePeerEndpoint L remoteAddr (m_Listen hello) of None \<Rightarrow> [] | Some d \<Rightarrow> d) in
        if normalizeHandshakeID (m_NodeID hello) = Some (nd_nodeID n)
        then (releaseHandshake (suppressSelfTargets [hr_target reservation, dialable] n) reservation, None)
        else
          let key = peerIdentity L (m_NodeID hello) remoteAddr dialable;
              p = \<lparr>pr_conn = conn, pr_addr = key, pr_tieKey = connectionTieKey (nd_nodeID n) localNonce (m_NodeID hello) (m_Nonce hello),
                   pr_remoteIP = remoteIPFromAddr L remoteAddr, pr_outbound = (hr_target reservation \<noteq> []), pr_connectedAt = now,
                   pr_advertisedHeight = (if m_Height hello > 0 then m_Height hello else 0)\<rparr>
          in case registerPeer n reservation key dialable now p of
               (n1, False, _) \<Rightarrow> (releaseHandshake n1 reservation, None)
             | (n1, True, _) \<Rightarrow>
                 let h = snd (Tip (nd_chain n1)) in
                 (n1, Some (key, p,
                    (if m_Height hello > h then [getblocks_Msg (wrap64 (h + 1))] else []) @
                    [(new_Msg ''addr'')\<lparr>m_Addrs := shared_addresses L order\<rparr>])))"

section \<open>Messages\<close>

definition gossip_address :: "text_lib \<Rightarrow> string \<Rightarrow> Node \<Rightarrow> Node" where
  "gossip_address L a n =
     (case normalizeGossipAddress L a of None \<Rightarrow> n
      | Some normalized \<Rightarrow>
          if card (nd_known n) < 1000 \<and> normalized \<noteq> nd_listen n \<and> normalized \<notin> nd_suppressed n
          then n\<lparr>nd_known := insert normalized (nd_known n)\<rparr> else n)"

text \<open>The batch loop of \<open>getblocks\<close>; the counter is what is left of \<open>blockBatchSize\<close>.\<close>

fun batch_blocks :: "Chain \<Rightarrow> nat \<Rightarrow> int \<Rightarrow> (int \<times> byte list) list \<Rightarrow> nat \<Rightarrow> (int \<times> byte list) list res" where
  "batch_blocks c 0 h batch totalBytes = Inr batch"
| "batch_blocks c (Suc left) h batch totalBytes =
     bindE (BlockAt c h) (\<lambda>blk.
       case blk of None \<Rightarrow> Inr batch
       | Some b \<Rightarrow>
           bindE (blk_Bytes b) (\<lambda>raw.
             if batch \<noteq> [] \<and> totalBytes + length raw > blockBatchBytes then Inr batch
             else batch_blocks c left (wrap64 (h + 1)) (batch @ [(h, raw)]) (totalBytes + length raw)))"

definition block_Msg :: "byte list \<Rightarrow> int \<Rightarrow> bool \<Rightarrow> Msg" where
  "block_Msg raw height hasMore = (new_Msg ''block'')\<lparr>m_Raw := raw, m_Height := height, m_More := hasMore\<rparr>"

definition getblocks_reply :: "Chain \<Rightarrow> int \<Rightarrow> Msg list res" where
  "getblocks_reply c from =
     bindE (batch_blocks c blockBatchSize from [] 0) (\<lambda>batch.
       mapE (\<lambda>(i, height, raw).
         if i = length batch - 1
         then bindE (BlockAt c (wrap64 (height + 1))) (\<lambda>next. Inr (block_Msg raw height (next \<noteq> None)))
         else Inr (block_Msg raw height False)) (enumerate 0 batch))"

text \<open>\<open>p\<close> is a pointer into the table when the peer is registered.\<close>

definition notePeerHeight :: "Node \<Rightarrow> peer \<Rightarrow> int \<Rightarrow> Node" where
  "notePeerHeight n p height =
     (if height < 0 then n
      else n\<lparr>nd_peers := map (\<lambda>(key, q). (key, if pr_conn q = pr_conn p \<and> height > pr_advertisedHeight q
                                              then q\<lparr>pr_advertisedHeight := height\<rparr> else q)) (nd_peers n)\<rparr>)"

text \<open>What a handled message makes the node send: to the peer itself, and to all peers but one.\<close>

record sends =
  sd_peer :: "Msg list"
  sd_broadcast :: "(Msg \<times> string) list"

definition quiet :: sends where "quiet = \<lparr>sd_peer = [], sd_broadcast = []\<rparr>"

definition announceBlock :: "Block \<Rightarrow> int \<Rightarrow> (Msg \<times> string) list" where
  "announceBlock b height = (case blk_Bytes b of Inl _ \<Rightarrow> [] | Inr raw \<Rightarrow> [(block_Msg raw height False, [])])"

definition handle_block :: "crypto \<Rightarrow> int \<Rightarrow> Node \<Rightarrow> peer \<Rightarrow> Msg \<Rightarrow> Node \<times> sends \<times> error option" where
  "handle_block K now n p m =
     (let n1 = notePeerHeight n p (m_Height m) in
      case DecodeBlock (m_Raw m) of Inl e \<Rightarrow> (n1, quiet, Some (Wrapped ''bad block'' e))
      | Inr blk \<Rightarrow>
          (case AcceptBlock K (nd_chain n1) now (Some blk) of (c, r, newTip) \<Rightarrow>
           let n2 = n1\<lparr>nd_chain := c\<rparr>;
               ann = (case newTip of None \<Rightarrow> [] | Some (b, h) \<Rightarrow> announceBlock b h)
           in case r of
                Inr _ \<Rightarrow> (n2, \<lparr>sd_peer = if m_More m then [getblocks_Msg (wrap64 (m_Height m + 1))] else [], sd_broadcast = ann\<rparr>, None)
              | Inl e \<Rightarrow>
                  if e = Err ''orphan: unknown parent''
                  then (n2, \<lparr>sd_peer = [getblocks_Msg 1], sd_broadcast = ann\<rparr>, None)
                  else (n2, \<lparr>sd_peer = [], sd_broadcast = ann\<rparr>, Some (Wrapped ''invalid block'' e))))"

definition handle_tx :: "crypto \<Rightarrow> Node \<Rightarrow> peer \<Rightarrow> Msg \<Rightarrow> Node \<times> sends \<times> error option" where
  "handle_tx K n p m =
     (case DecodeTx (m_Raw m) of Inl e \<Rightarrow> (n, quiet, Some (Wrapped ''bad tx'' e))
      | Inr tx \<Rightarrow>
          (case AcceptTxWithResult K (nd_chain n) (Some tx) of (c, r) \<Rightarrow>
           (n\<lparr>nd_chain := c\<rparr>,
            quiet\<lparr>sd_broadcast := if r = Inr TxAcceptanceAdded then [((new_Msg ''tx'')\<lparr>m_Raw := m_Raw m\<rparr>, pr_addr p)] else []\<rparr>, None)))"

definition handleMsg :: "crypto \<Rightarrow> text_lib \<Rightarrow> int \<Rightarrow> Node \<Rightarrow> peer \<Rightarrow> Msg \<Rightarrow> Node \<times> sends \<times> error option" where
  "handleMsg K L now n p m =
     (if m_Type m = ''ping'' then (n, quiet\<lparr>sd_peer := [new_Msg ''pong'']\<rparr>, None)
      else if m_Type m = ''pong'' then (n, quiet, None)
      else if m_Type m = ''addr'' then (fold (gossip_address L) (m_Addrs m) n, quiet, None)
      else if m_Type m = ''getblocks'' then
        (case getblocks_reply (nd_chain n) (m_From m) of
           Inl e \<Rightarrow> (n, quiet, Some e)
         | Inr ms \<Rightarrow> (n, quiet\<lparr>sd_peer := ms\<rparr>, None))
      else if m_Type m = ''block'' then handle_block K now n p m
      else if m_Type m = ''tx'' then handle_tx K n p m
      else if m_Type m = ''inv'' then
        let n1 = notePeerHeight n p (m_Height m); h = snd (Tip (nd_chain n1)) in
        (n1, quiet\<lparr>sd_peer := if m_Height m > h then [getblocks_Msg (wrap64 (h + 1))] else []\<rparr>, None)
      else (n, quiet, None))"

definition broadcast :: "Node \<Rightarrow> string \<Rightarrow> string list" where
  "broadcast n exceptAddr = map fst (filter (\<lambda>(_, p). pr_addr p \<noteq> exceptAddr) (nd_peers n))"

definition PeerCount :: "Node \<Rightarrow> nat" where
  "PeerCount n = length (nd_peers n)"

definition HighestAdvertisedHeight :: "Node \<Rightarrow> int" where
  "HighestAdvertisedHeight n = fold (\<lambda>(_, p) highest. if pr_advertisedHeight p > highest then pr_advertisedHeight p else highest) (nd_peers n) 0"

section \<open>Framing\<close>

definition sendWithTimeout :: "(Msg \<Rightarrow> byte list res) \<Rightarrow> Msg \<Rightarrow> byte list res" where
  "sendWithTimeout marshal m =
     bindE (marshal m) (\<lambda>b.
       failIf (length b > maxMsgBytes) (Err ''message too large'') (Inr (be_bytes 4 (length b) @ b)))"

text \<open>The reader is the bytes still to come; \<^verbatim>\<open>io.ReadFull\<close> fails when they are too few.\<close>

definition ReadFull :: "nat \<Rightarrow> byte list \<Rightarrow> (byte list \<times> byte list) res" where
  "ReadFull n r = (if length r < n then Inl (if r = [] then EOF else UnexpectedEOF) else Inr (take n r, drop n r))"

definition readMsg :: "(byte list \<Rightarrow> Msg res) \<Rightarrow> byte list \<Rightarrow> (Msg \<times> byte list) res" where
  "readMsg unmarshal r =
     bindE (ReadFull 4 r) (\<lambda>(lenb, r1).
       let ln = be_nat lenb in
       failIf (ln > maxMsgBytes) (Err ''oversize message'')
       (bindE (ReadFull ln r1) (\<lambda>(buf, r2).
        bindE (unmarshal buf) (\<lambda>m. Inr (m, r2)))))"

end
