(* ===== verification/PeerTheorems.thy ===== *)
theory PeerTheorems
  imports Peer ChainTheorems
begin

text \<open>
  Invariants of a running node under every interleaving of its critical sections: the limits on
  connections and pending handshakes, and which addresses it keeps and dials.
\<close>

section \<open>Counting table entries\<close>

definition tally :: "('v \<Rightarrow> bool) \<Rightarrow> ('k \<times> 'v) list \<Rightarrow> nat" where
  "tally P xs = length (filter (\<lambda>(_, v). P v) xs)"

lemma tally_simps [simp]: "tally P [] = 0" "tally P ((k, v) # xs) = (if P v then Suc (tally P xs) else tally P xs)"
  by (simp_all add: tally_def)

lemma tally_update_le: "tally P (AList.update k v xs) \<le> tally P xs + (if P v then 1 else 0)"
  by (induction xs) (auto simp: tally_def)

lemma tally_update_same: "map_of xs k = Some w \<Longrightarrow> tally P (AList.update k v xs) + (if P w then 1 else 0) = tally P xs + (if P v then 1 else 0)"
  by (induction xs) (auto split: if_splits)

lemma tally_delete_le: "tally P (AList.delete k xs) \<le> tally P xs"
proof (induction xs)
  case (Cons x xs)
  then show ?case by (cases x) (auto simp: AList.delete_eq le_SucI)
qed simp

lemma tally_delete:
  "distinct (map fst xs) \<Longrightarrow> map_of xs k = Some w \<Longrightarrow> tally P (AList.delete k xs) + (if P w then 1 else 0) = tally P xs"
proof (induction xs)
  case (Cons x xs)
  have "k \<notin> fst ` set xs \<Longrightarrow> AList.delete k xs = xs" by (force simp: AList.delete_eq intro!: filter_True)
  then show ?case using Cons by (cases x) (auto simp: AList.delete_eq split: if_splits)
qed simp

lemma tally_map_values: "\<forall>v. P (f v) = P v \<Longrightarrow> tally P (map (\<lambda>(k, v). (k, f v)) xs) = tally P xs"
  by (induction xs) auto

lemma length_tally: "length xs = tally (\<lambda>_. True) xs"
  by (simp add: tally_def)

section \<open>Slots\<close>

definition inbound_r :: "handshakeReservation \<Rightarrow> bool" where "inbound_r r = (hr_target r = [])"
definition from_r :: "string \<Rightarrow> handshakeReservation \<Rightarrow> bool" where "from_r s r = (hr_target r = [] \<and> s \<noteq> [] \<and> hr_sourceIP r = s)"

lemma counts_tally:
  "pending_outbound n = tally (\<lambda>r. \<not> inbound_r r) (nd_pending n)" "pending_inbound n = tally inbound_r (nd_pending n)"
  "pending_from n s = tally (from_r s) (nd_pending n)" "inbound_peers n = tally (\<lambda>p. \<not> pr_outbound p) (nd_peers n)"
  by (simp_all add: pending_outbound_def pending_inbound_def pending_from_def inbound_peers_def tally_def inbound_r_def from_r_def)

definition slots_ok :: "Node \<Rightarrow> bool" where
  "slots_ok n \<longleftrightarrow> distinct (map fst (nd_pending n)) \<and>
     length (nd_peers n) + length (nd_pending n) \<le> maxPeers \<and>
     pending_outbound n \<le> maxPendingOutbound \<and> pending_inbound n \<le> maxPendingInbound \<and>
     (\<forall>s. pending_from n s \<le> maxPendingInboundPerIP) \<and>
     inbound_peers n + pending_inbound n \<le> maxPeers - reservedOutboundSlots"

lemma slots_mono:
  assumes "slots_ok n" and "distinct (map fst (nd_pending n'))"
    and "length (nd_peers n') + length (nd_pending n') \<le> length (nd_peers n) + length (nd_pending n)"
    and "pending_outbound n' \<le> pending_outbound n" and "pending_inbound n' \<le> pending_inbound n"
    and "\<And>s. pending_from n' s \<le> pending_from n s"
    and "inbound_peers n' + pending_inbound n' \<le> inbound_peers n + pending_inbound n"
  shows "slots_ok n'"
  using assms unfolding slots_ok_def by (meson order_trans)

text \<open>The invariant looks at peers and pending handshakes only.\<close>

lemma slots_frame:
  "nd_peers n' = nd_peers n \<Longrightarrow> nd_pending n' = nd_pending n \<Longrightarrow> slots_ok n' = slots_ok n"
  by (simp add: slots_ok_def counts_tally)

lemma reserve_pending:
  "reserveHandshakeLocked n target s = (n', r) \<Longrightarrow>
     nd_pending n' = AList.update (hr_token r) r (nd_pending n) \<and> nd_peers n' = nd_peers n \<and> hr_target r = target \<and> hr_sourceIP r = s \<and>
     nd_known n' = nd_known n \<and> nd_trustedSeeds n' = nd_trustedSeeds n \<and> nd_suppressed n' = nd_suppressed n \<and>
     nd_targets n' = nd_targets n \<and> nd_seedTargets n' = nd_seedTargets n \<and>
     nd_dialing n' = (if target = [] then nd_dialing n else AList.update target (hr_token r) (nd_dialing n))"
  by (auto simp: reserveHandshakeLocked_def Let_def)

lemma slots_reserve_inbound:
  assumes ok: "slots_ok n" and run: "reserveInboundHandshakeFrom L n a = (n', r)"
  shows "slots_ok n'"
proof (cases "n' = n")
  case False
  then obtain r' where r: "reserveHandshakeLocked n [] (remoteIPFromAddr L a) = (n', r')"
    and room: "length (nd_peers n) + length (nd_pending n) < maxPeers" "inbound_peers n + pending_inbound n < maxPeers - reservedOutboundSlots"
      "pending_inbound n < maxPendingInbound" "remoteIPFromAddr L a = [] \<or> pending_from n (remoteIPFromAddr L a) < maxPendingInboundPerIP"
    using run by (auto simp: reserveInboundHandshakeFrom_def Let_def split: prod.splits if_splits)
  note R = reserve_pending [OF r]
  have t: "tally P (nd_pending n') \<le> tally P (nd_pending n) + (if P r' then 1 else 0)" for P
    using R tally_update_le [of P "hr_token r'" r' "nd_pending n"] by simp
  have "pending_from n' s \<le> maxPendingInboundPerIP" for s
  proof (cases "from_r s r'")
    case True
    then have "s = remoteIPFromAddr L a" "s \<noteq> []" using R by (auto simp: from_r_def)
    then show ?thesis using room(4) t [of "from_r s"] by (auto simp: counts_tally split: if_splits)
  next
    case False
    then show ?thesis using t [of "from_r s"] ok by (auto simp: counts_tally slots_ok_def intro: le_trans)
  qed
  moreover have "inbound_r r'" using R by (simp add: inbound_r_def)
  ultimately show ?thesis
    using ok room(1-3) R t [of "\<lambda>_. True"] t [of inbound_r] t [of "\<lambda>r. \<not> inbound_r r"]
    unfolding slots_ok_def counts_tally length_tally by (auto simp: distinct_update)
qed (use ok in simp)

lemma release_pending:
  assumes "releaseHandshakeLocked n r = (n', released)"
  shows "nd_peers n' = nd_peers n \<and> nd_known n' = nd_known n \<and> nd_trustedSeeds n' = nd_trustedSeeds n \<and> nd_suppressed n' = nd_suppressed n \<and>
    nd_targets n' = nd_targets n \<and> nd_seedTargets n' = nd_seedTargets n \<and>
    (if released then map_of (nd_pending n) (hr_token r) = Some r \<and> nd_pending n' = AList.delete (hr_token r) (nd_pending n) else n' = n)"
  using assms by (auto simp: releaseHandshakeLocked_def Let_def split: option.splits if_splits)

lemma slots_release:
  assumes ok: "slots_ok n" and run: "releaseHandshakeLocked n r = (n', released)"
  shows "slots_ok n'"
proof -
  have t: "tally P (nd_pending n') \<le> tally P (nd_pending n)" for P
    using release_pending [OF run] tally_delete_le [of P] by (auto split: if_splits)
  moreover have "distinct (map fst (nd_pending n'))"
    using release_pending [OF run] ok by (auto simp: slots_ok_def distinct_delete split: if_splits)
  ultimately show ?thesis
    using release_pending [OF run] t [of "\<lambda>_. True"]
    by (intro slots_mono [OF ok]) (simp_all add: counts_tally length_tally)
qed

lemma remember_frame [simp]:
  "nd_peers (rememberPeerTargetsLocked n t d k) = nd_peers n" "nd_pending (rememberPeerTargetsLocked n t d k) = nd_pending n"
  "nd_trustedSeeds (rememberPeerTargetsLocked n t d k) = nd_trustedSeeds n" "nd_suppressed (rememberPeerTargetsLocked n t d k) = nd_suppressed n"
  "nd_chain (rememberPeerTargetsLocked n t d k) = nd_chain n" "nd_seedTargets (rememberPeerTargetsLocked n t d k) = nd_seedTargets n"
  by (simp_all add: rememberPeerTargetsLocked_def Let_def)

lemma remember_known:
  "nd_known (rememberPeerTargetsLocked n t d k) = nd_known n \<or>
   card (nd_known n) < 1000 \<and> d \<noteq> [] \<and> nd_known (rememberPeerTargetsLocked n t d k) = insert d (nd_known n)"
  by (simp add: rememberPeerTargetsLocked_def Let_def)

lemma register_cases:
  assumes "registerPeer n r key dialable now p = (n', res)" and "releaseHandshakeLocked n r = (n1, released)"
  shows "nd_pending n' = nd_pending n1 \<and> nd_trustedSeeds n' = nd_trustedSeeds n1 \<and> nd_suppressed n' = nd_suppressed n1 \<and>
    (nd_known n' = nd_known n1 \<or> card (nd_known n1) < 1000 \<and> dialable \<noteq> [] \<and> nd_known n' = insert dialable (nd_known n1)) \<and>
    (nd_peers n' = nd_peers n1 \<or>
     released \<and> (\<exists>q. pr_outbound q = (hr_target r \<noteq> []) \<and> nd_peers n' = AList.update key q (nd_peers n1)))"
proof (cases released)
  case False
  then show ?thesis using assms by (simp add: registerPeer_def)
next
  case True
  define q where "q = p\<lparr>pr_outbound := (hr_target r \<noteq> []), pr_connectedAt := if pr_connectedAt p = 0 then now else pr_connectedAt p\<rparr>"
  define N where "N m = rememberPeerTargetsLocked m (hr_target r) dialable key" for m
  have q: "pr_outbound q = (hr_target r \<noteq> [])" by (simp add: q_def)
  have reg: "registerPeer n r key dialable now p =
      (case map_of (nd_peers n1) key of
         Some existing \<Rightarrow>
           (let n2 = (if pr_remoteIP q \<noteq> [] \<and> pr_remoteIP q = pr_remoteIP existing then N n1 else n1)
            in if \<not> canReplaceConcurrentDuplicate existing q then (n2, False, None)
               else (n2\<lparr>nd_peers := AList.update key q (nd_peers n2)\<rparr>, True, Some (pr_conn existing)))
       | None \<Rightarrow> if length (nd_peers n1) \<ge> maxPeers then (n1, False, None)
               else (N (n1\<lparr>nd_peers := AList.update key q (nd_peers n1)\<rparr>), True, None))"
    unfolding registerPeer_def assms(2) Let_def q_def [symmetric] N_def using True by simp
  have N: "nd_peers (N m) = nd_peers m" "nd_pending (N m) = nd_pending m" "nd_trustedSeeds (N m) = nd_trustedSeeds m"
    "nd_suppressed (N m) = nd_suppressed m"
    "nd_known (N m) = nd_known m \<or> card (nd_known m) < 1000 \<and> dialable \<noteq> [] \<and> nd_known (N m) = insert dialable (nd_known m)" for m
    unfolding N_def using remember_known by simp_all
  show ?thesis
  proof (cases "map_of (nd_peers n1) key")
    case None
    then show ?thesis using assms(1) True q N(5) [of "n1\<lparr>nd_peers := AList.update key q (nd_peers n1)\<rparr>"]
      unfolding reg by (auto simp: N(1-4) split: if_splits)
  next
    case (Some existing)
    define n2 where "n2 = (if pr_remoteIP q \<noteq> [] \<and> pr_remoteIP q = pr_remoteIP existing then N n1 else n1)"
    have "nd_peers n2 = nd_peers n1 \<and> nd_pending n2 = nd_pending n1 \<and> nd_trustedSeeds n2 = nd_trustedSeeds n1 \<and> nd_suppressed n2 = nd_suppressed n1 \<and>
        (nd_known n2 = nd_known n1 \<or> card (nd_known n1) < 1000 \<and> dialable \<noteq> [] \<and> nd_known n2 = insert dialable (nd_known n1))"
      unfolding n2_def using N(5) [of n1] by (simp add: N(1-4))
    moreover have "n' = n2 \<or> n' = n2\<lparr>nd_peers := AList.update key q (nd_peers n2)\<rparr>"
      using assms(1) unfolding reg Some option.case n2_def [symmetric] Let_def by (simp split: if_splits)
    ultimately show ?thesis using True q by (elim disjE) (simp, blast?)+
  qed
qed

text \<open>A registered peer takes the slot its handshake held.\<close>

lemma slots_register:
  assumes ok: "slots_ok n" and run: "registerPeer n r key dialable now p = (n', res)"
  shows "slots_ok n'"
proof -
  obtain n1 released where rel: "releaseHandshakeLocked n r = (n1, released)" by (cases "releaseHandshakeLocked n r")
  note R = release_pending [OF rel] and ok1 = slots_release [OF ok rel]
  note C = register_cases [OF run rel]
  show ?thesis
  proof (cases "released \<and> nd_peers n' \<noteq> nd_peers n1")
    case False
    then show ?thesis using C ok1 slots_frame by blast
  next
    case True
    then obtain q where q: "pr_outbound q \<longleftrightarrow> \<not> inbound_r r" and new: "nd_peers n' = AList.update key q (nd_peers n1)" "nd_pending n' = nd_pending n1"
      using C by (auto simp: inbound_r_def)
    have T: "map_of (nd_pending n) (hr_token r) = Some r" "nd_pending n1 = AList.delete (hr_token r) (nd_pending n)" "nd_peers n1 = nd_peers n"
      using R True by auto
    have pend: "tally P (nd_pending n') + (if P r then 1 else 0) = tally P (nd_pending n)" for P
      using tally_delete [of "nd_pending n" _ r P] T ok new by (simp add: slots_ok_def)
    have "tally (\<lambda>p. \<not> pr_outbound p) (nd_peers n') \<le> tally (\<lambda>p. \<not> pr_outbound p) (nd_peers n) + (if inbound_r r then 1 else 0)"
      using tally_update_le [of "\<lambda>p. \<not> pr_outbound p" key q] new(1) T(3) q by (simp add: eq_commute)
    moreover have "length (nd_peers n') \<le> length (nd_peers n) + 1"
      using tally_update_le [of "\<lambda>_. True" key q] new(1) T(3) by (simp add: length_tally)
    moreover have "pending_from n' s \<le> pending_from n s" for s
      using pend [of "from_r s"] by (simp add: counts_tally)
    moreover have "distinct (map fst (nd_pending n'))" using ok1 new(2) by (simp add: slots_ok_def)
    ultimately show ?thesis
      using pend [of "\<lambda>_. True"] pend [of inbound_r] pend [of "\<lambda>r. \<not> inbound_r r"]
      by (intro slots_mono [OF ok]) (auto simp: counts_tally length_tally split: if_splits)
  qed
qed

lemma slots_unregister:
  assumes ok: "slots_ok n" and run: "unregisterPeer n key owner = (n', res)"
  shows "slots_ok n'"
proof -
  have "nd_pending n' = nd_pending n" "nd_peers n' = nd_peers n \<or> nd_peers n' = AList.delete key (nd_peers n)"
    using run by (auto simp: unregisterPeer_def split: option.splits if_splits)
  moreover have "length (AList.delete key (nd_peers n)) \<le> length (nd_peers n)"
    using tally_delete_le [of "\<lambda>_. True" key "nd_peers n"] by (simp add: length_tally)
  ultimately show ?thesis
    using ok tally_delete_le [of "\<lambda>p. \<not> pr_outbound p" key "nd_peers n"]
    by (intro slots_mono [OF ok]) (auto simp: counts_tally slots_ok_def)
qed

section \<open>Dialling\<close>

text \<open>A target that may be dialled now.\<close>

definition free_target :: "Node \<Rightarrow> string \<Rightarrow> bool" where
  "free_target n t \<longleftrightarrow> t \<in> nd_known n \<and> t \<notin> nd_suppressed n \<and> map_of (nd_dialing n) t = None \<and>
     (\<forall>key. map_of (nd_targets n) t = Some key \<longrightarrow> map_of (nd_peers n) key = None)"

definition dial_frame :: "Node \<Rightarrow> Node \<Rightarrow> bool" where
  "dial_frame n n' \<longleftrightarrow> nd_peers n' = nd_peers n \<and> nd_trustedSeeds n' = nd_trustedSeeds n \<and> nd_suppressed n' = nd_suppressed n \<and>
     nd_known n' \<subseteq> nd_known n \<and> nd_chain n' = nd_chain n"

lemma dial_frame_trans: "dial_frame n n1 \<Longrightarrow> dial_frame n1 n2 \<Longrightarrow> dial_frame n n2"
  by (auto simp: dial_frame_def)

lemma isAvailable_free:
  assumes "isAvailable n t = (n', ok)"
  shows "ok \<longleftrightarrow> free_target n t" "free_target n' u \<longleftrightarrow> free_target n u" "dial_frame n n'" "nd_pending n' = nd_pending n"
  using assms by (auto simp: isAvailable_def free_target_def dial_frame_def AList.delete_conv' split: if_splits option.splits)

lemma available_targets_free:
  "available_targets n ts = (n', found) \<Longrightarrow>
     (\<forall>u. free_target n' u \<longleftrightarrow> free_target n u) \<and> dial_frame n n' \<and> nd_pending n' = nd_pending n"
proof (induction ts arbitrary: n found)
  case Nil
  then show ?case by (simp add: dial_frame_def)
next
  case (Cons t ts)
  obtain n1 ok where a: "isAvailable n t = (n1, ok)" by (cases "isAvailable n t")
  obtain found' where "available_targets n1 ts = (n', found')" using Cons.prems a by (auto split: prod.splits)
  from Cons.IH [OF this] show ?case
    using isAvailable_free [OF a] dial_frame_trans by metis
qed

definition dialled :: "Node \<Rightarrow> nat \<Rightarrow> Node \<times> handshakeReservation list \<Rightarrow> bool" where
  "dialled n available st \<longleftrightarrow>
     (case st of (n', out) \<Rightarrow>
      dial_frame n n' \<and> length out \<le> available \<and> distinct (map hr_target out) \<and>
      (\<forall>u. free_target n' u \<longleftrightarrow> free_target n u \<and> u \<notin> hr_target ` set out) \<and>
      (\<forall>r\<in>set out. free_target n (hr_target r)) \<and>
      (distinct (map fst (nd_pending n)) \<longrightarrow> distinct (map fst (nd_pending n'))) \<and>
      (\<forall>P. (\<forall>r. hr_target r \<noteq> [] \<longrightarrow> \<not> P r) \<longrightarrow> tally P (nd_pending n') \<le> tally P (nd_pending n)) \<and>
      (\<forall>P. tally P (nd_pending n') \<le> tally P (nd_pending n) + length out))"

lemma dialled_reserve:
  assumes d: "dialled n available st" and ne: "[] \<notin> nd_known n" and run: "reserve_target available t st = (st', ok)"
  shows "dialled n available st'"
proof -
  obtain n1 out where st: "st = (n1, out)" by (cases st)
  obtain n2 av where a: "isAvailable n1 t = (n2, av)" by (cases "isAvailable n1 t")
  note A = isAvailable_free [OF a]
  have same: "dialled n available (n2, out)"
    using d A(2,4) dial_frame_trans [OF _ A(3), of n] by (simp add: dialled_def st)
  show ?thesis
  proof (cases "length out < available \<and> av")
    case False
    then show ?thesis using run d same a by (auto simp: reserve_target_def st split: if_splits bool.splits)
  next
    case True
    obtain n3 r where r: "reserveHandshakeLocked n2 t [] = (n3, r)" by (cases "reserveHandshakeLocked n2 t []")
    note R = reserve_pending [OF r]
    have st': "st' = (n3, out @ [r])" using run True a r by (auto simp: reserve_target_def st)
    have free: "free_target n t" "t \<notin> hr_target ` set out" "t \<noteq> []"
      using True A(1) d ne by (auto simp: dialled_def st free_target_def)
    have chain: "nd_chain n3 = nd_chain n2" using r by (auto simp: reserveHandshakeLocked_def Let_def)
    have S: "length out \<le> available" "distinct (map hr_target out)" "\<And>u. free_target n2 u \<longleftrightarrow> free_target n u \<and> u \<notin> hr_target ` set out"
      "\<forall>r\<in>set out. free_target n (hr_target r)" "distinct (map fst (nd_pending n)) \<Longrightarrow> distinct (map fst (nd_pending n2))"
      "\<And>P. \<forall>r. hr_target r \<noteq> [] \<longrightarrow> \<not> P r \<Longrightarrow> tally P (nd_pending n2) \<le> tally P (nd_pending n)"
      "\<And>P. tally P (nd_pending n2) \<le> tally P (nd_pending n) + length out"
      using same by (simp_all add: dialled_def)
    have tgt: "hr_target r = t" using R by simp
    have f3: "free_target n3 u \<longleftrightarrow> free_target n2 u \<and> u \<noteq> t" for u
      using R free(3) by (auto simp: free_target_def update_conv')
    have t3: "tally P (nd_pending n3) \<le> tally P (nd_pending n2) + (if P r then 1 else 0)" for P
      using R tally_update_le [of P "hr_token r" r "nd_pending n2"] by simp
    have "tally P (nd_pending n3) \<le> tally P (nd_pending n)" if "\<forall>r. hr_target r \<noteq> [] \<longrightarrow> \<not> P r" for P
      using t3 [of P] S(6) [OF that] that tgt free(3) by auto
    moreover have "tally P (nd_pending n3) \<le> tally P (nd_pending n) + length (out @ [r])" for P
      using t3 [of P] S(7) [of P] by (simp split: if_splits)
    moreover have "dial_frame n n3" using same R chain by (auto simp: dialled_def dial_frame_def)
    moreover have "distinct (map fst (nd_pending n)) \<Longrightarrow> distinct (map fst (nd_pending n3))" using R S(5) by (simp add: distinct_update)
    moreover have "\<And>u. free_target n3 u \<longleftrightarrow> free_target n u \<and> u \<notin> hr_target ` set (out @ [r])" using f3 S(3) tgt by auto
    moreover have "length (out @ [r]) \<le> available" using True by simp
    moreover have "distinct (map hr_target (out @ [r]))" using S(2) free(2) tgt by simp
    moreover have "\<forall>r'\<in>set (out @ [r]). free_target n (hr_target r')" using S(4) free(1) tgt by simp
    ultimately show ?thesis unfolding dialled_def st' by blast
  qed
qed

lemma dialled_loop:
  assumes "dialled n available st" and ne: "[] \<notin> nd_known n"
    and "rotate_loop available candidates limit is added cursor st = (cursor', st')"
  shows "dialled n available st'"
  using assms(1,3)
proof (induction "is" arbitrary: added cursor st)
  case (Cons i "is")
  obtain st1 ok where r: "reserve_target available (candidates ! i) st = (st1, ok)" by (cases "reserve_target available (candidates ! i) st")
  show ?case
    using Cons.IH [OF dialled_reserve [OF Cons.prems(1) ne r]] Cons.prems r by (auto split: if_splits bool.splits)
qed simp

lemma dialled_rotating:
  assumes "dialled n available st" and "[] \<notin> nd_known n" and "reserveRotating available candidates cursor limit st = (cursor', st')"
  shows "dialled n available st'"
  using assms dialled_loop by (fastforce simp: reserveRotating_def Let_def split: if_splits)

lemma dialled_cursor [simp]:
  "dialled n available (n'\<lparr>nd_seedCursor := i\<rparr>, out) = dialled n available (n', out)"
  "dialled n available (n'\<lparr>nd_gossipCursor := i\<rparr>, out) = dialled n available (n', out)"
  by (simp_all add: dialled_def dial_frame_def free_target_def)

lemma dialled_rotate:
  assumes "dialled n available st" and "[] \<notin> nd_known n"
  shows "dialled n available (rotate_seeds available candidates limit st)" "dialled n available (rotate_gossip available candidates limit st)"
  using dialled_rotating [OF assms] by (auto simp: rotate_seeds_def rotate_gossip_def split: prod.splits)

lemma dialled_plan:
  assumes "dialled n available st" and "[] \<notin> nd_known n"
  shows "dialled n available (dial_plan available seeds gossip st)"
  using assms unfolding dial_plan_def Let_def by (auto intro!: dialled_rotate)

lemma reserveDial_dialled:
  assumes "[] \<notin> nd_known n" and run: "reserveDialCandidates n = (n', out)"
  shows "dialled n (min (maxPeers - length (nd_peers n) - length (nd_pending n)) (maxPendingOutbound - pending_outbound n)) (n', out)"
    (is "dialled n ?av _")
proof (cases "?av = 0")
  case True
  then show ?thesis using run by (simp add: reserveDialCandidates_def dialled_def dial_frame_def)
next
  case False
  obtain n1 seeds where a: "available_targets n (nd_seedTargets n) = (n1, seeds)" by (cases "available_targets n (nd_seedTargets n)")
  let ?gs = "sorted_list_of_set {target \<in> nd_known n1. target \<notin> nd_trustedSeeds n1}"
  obtain n2 gossip where b: "available_targets n1 ?gs = (n2, gossip)" by (cases "available_targets n1 ?gs")
  note A = available_targets_free [OF a] available_targets_free [OF b]
  have d0: "dialled n ?av (n2, [])" using A dial_frame_trans by (auto simp: dialled_def)
  have "(n', out) = dial_plan ?av seeds gossip (n2, [])"
    using run False by (simp only: reserveDialCandidates_def Let_def a b prod.case if_False)
  then show ?thesis using dialled_plan [OF d0 assms(1)] by (simp only:)
qed

lemma slots_dial:
  assumes ok: "slots_ok n" and ne: "[] \<notin> nd_known n" and run: "reserveDialCandidates n = (n', out)"
  shows "slots_ok n'"
proof -
  let ?av = "min (maxPeers - length (nd_peers n) - length (nd_pending n)) (maxPendingOutbound - pending_outbound n)"
  have d: "nd_peers n' = nd_peers n" "length out \<le> ?av" "distinct (map fst (nd_pending n'))"
    "\<And>P. \<forall>r. hr_target r \<noteq> [] \<longrightarrow> \<not> P r \<Longrightarrow> tally P (nd_pending n') \<le> tally P (nd_pending n)"
    "\<And>P. tally P (nd_pending n') \<le> tally P (nd_pending n) + length out"
    using reserveDial_dialled [OF ne run] ok by (simp_all add: dialled_def dial_frame_def slots_ok_def)
  have "tally inbound_r (nd_pending n') \<le> tally inbound_r (nd_pending n)" "\<And>s. tally (from_r s) (nd_pending n') \<le> tally (from_r s) (nd_pending n)"
    by (intro d(4); simp add: inbound_r_def from_r_def)+
  then show ?thesis
    using ok d(1-3) d(5) [of "\<lambda>_. True"] d(5) [of "\<lambda>r. \<not> inbound_r r"]
    unfolding slots_ok_def counts_tally length_tally by (auto intro: le_trans)
qed

section \<open>Known addresses\<close>

definition public_address :: "text_lib \<Rightarrow> string \<Rightarrow> bool" where
  "public_address L a \<longleftrightarrow> (\<exists>x port. isPublicGossipIP x \<and> a = JoinHostPort (tl_String L x) port)"

lemma JoinHostPort_nonempty [simp]: "JoinHostPort host port \<noteq> []"
  by (simp add: JoinHostPort_def)

lemma normalizeGossip_public: "normalizeGossipAddress L a = Some b \<Longrightarrow> public_address L b \<and> b \<noteq> []"
  by (auto simp: normalizeGossipAddress_def public_address_def Let_def split: option.splits prod.splits if_splits)

lemma dialable_public: "dialablePeerEndpoint L r a = Some b \<Longrightarrow> public_address L b \<and> b \<noteq> []"
  using normalizeGossip_public by (auto simp: dialablePeerEndpoint_def split: option.splits prod.splits if_splits)

lemma normalizeDial_nonempty: "normalizeDialTarget L a = Some b \<Longrightarrow> b \<noteq> []"
  by (auto simp: normalizeDialTarget_def Let_def split: option.splits prod.splits if_splits)

definition known_ok :: "text_lib \<Rightarrow> Node \<Rightarrow> bool" where
  "known_ok L n \<longleftrightarrow> finite (nd_known n) \<and> finite (nd_trustedSeeds n) \<and> [] \<notin> nd_known n \<and>
     (\<forall>a\<in>nd_known n. a \<in> nd_trustedSeeds n \<or> public_address L a) \<and> card (nd_known n) \<le> 1000 + card (nd_trustedSeeds n)"

lemma known_subset:
  "known_ok L n \<Longrightarrow> nd_known n' \<subseteq> nd_known n \<Longrightarrow> nd_trustedSeeds n' = nd_trustedSeeds n \<Longrightarrow> known_ok L n'"
  unfolding known_ok_def by (metis card_mono finite_subset le_trans subsetD)

lemma known_insert:
  "known_ok L n \<Longrightarrow> public_address L a \<Longrightarrow> a \<noteq> [] \<Longrightarrow> card (nd_known n) < 1000 \<Longrightarrow> nd_known n' = insert a (nd_known n) \<Longrightarrow>
     nd_trustedSeeds n' = nd_trustedSeeds n \<Longrightarrow> known_ok L n'"
  by (auto simp: known_ok_def card_insert_if)

lemma known_gossip:
  "known_ok L n \<Longrightarrow> known_ok L (fold (gossip_address L) as n)"
proof (induction as arbitrary: n)
  case (Cons a as)
  have "known_ok L (gossip_address L a n)"
    using Cons.prems known_insert [OF Cons.prems] normalizeGossip_public [of L a] by (auto simp: gossip_address_def split: option.splits)
  then show ?case using Cons.IH by simp
qed simp

lemma gossip_frame [simp]:
  "nd_peers (fold (gossip_address L) as n) = nd_peers n" "nd_pending (fold (gossip_address L) as n) = nd_pending n"
  "nd_chain (fold (gossip_address L) as n) = nd_chain n"
  by (induction as arbitrary: n) (simp_all add: gossip_address_def split: option.splits)

lemma suppress_frame:
  "nd_peers (suppressSelfTargets ts n) = nd_peers n \<and> nd_pending (suppressSelfTargets ts n) = nd_pending n \<and>
   nd_trustedSeeds (suppressSelfTargets ts n) = nd_trustedSeeds n \<and> nd_known (suppressSelfTargets ts n) \<subseteq> nd_known n \<and>
   nd_chain (suppressSelfTargets ts n) = nd_chain n"
  unfolding suppressSelfTargets_def
proof (induction ts arbitrary: n)
  case (Cons t ts)
  have "nd_peers (suppress_target t n) = nd_peers n" "nd_pending (suppress_target t n) = nd_pending n" "nd_chain (suppress_target t n) = nd_chain n"
    "nd_trustedSeeds (suppress_target t n) = nd_trustedSeeds n" "nd_known (suppress_target t n) \<subseteq> nd_known n"
    by (auto simp: suppress_target_def)
  then show ?case using Cons [of "suppress_target t n"] by auto
qed simp

section \<open>A running node\<close>

text \<open>The critical sections of a node, in any order: what the listener, the dialler, the connections and the local
  miner do. A handshake may use any reservation, also a stale one.\<close>

inductive node_step :: "crypto \<Rightarrow> text_lib \<Rightarrow> Node \<Rightarrow> Node \<Rightarrow> bool" for K L where
  node_inbound: "reserveInboundHandshakeFrom L n a = (n', r) \<Longrightarrow> node_step K L n n'"
| node_dial: "reserveDialCandidates n = (n', out) \<Longrightarrow> node_step K L n n'"
| node_release: "node_step K L n (releaseHandshake n r)"
| node_hello: "handle_hello L n r conn addr now nonce order hello = (n', res) \<Longrightarrow> node_step K L n n'"
| node_message: "handleMsg K L now n p m = (n', out, err) \<Longrightarrow> node_step K L n n'"
| node_gone: "unregisterPeer n key owner = (n', res) \<Longrightarrow> node_step K L n n'"
| node_local: "chain_step K stored (nd_chain n) c \<Longrightarrow> node_step K L n (n\<lparr>nd_chain := c\<rparr>)"

definition node_init :: "text_lib \<Rightarrow> Node \<Rightarrow> bool" where
  "node_init L n \<longleftrightarrow> (\<exists>chain listen nodeID seeds. n = startWithListener L seeds (NewNode chain listen nodeID))"

abbreviation node_reach :: "crypto \<Rightarrow> text_lib \<Rightarrow> Node \<Rightarrow> bool" where
  "node_reach K L \<equiv> reach (node_init L) (node_step K L)"

definition node_ok :: "text_lib \<Rightarrow> Node \<Rightarrow> bool" where
  "node_ok L n \<longleftrightarrow> slots_ok n \<and> known_ok L n"

lemma start_frame:
  "nd_peers (startWithListener L seeds n) = nd_peers n \<and> nd_pending (startWithListener L seeds n) = nd_pending n \<and>
   nd_chain (startWithListener L seeds n) = nd_chain n \<and>
   (nd_known n = nd_trustedSeeds n \<and> finite (nd_known n) \<and> [] \<notin> nd_known n \<longrightarrow>
    (let n' = startWithListener L seeds n in nd_known n' = nd_trustedSeeds n' \<and> finite (nd_known n') \<and> [] \<notin> nd_known n'))"
  unfolding startWithListener_def Let_def
proof (induction seeds arbitrary: n)
  case (Cons a seeds)
  let ?n = "add_seed L a n"
  have "nd_peers ?n = nd_peers n" "nd_pending ?n = nd_pending n" "nd_chain ?n = nd_chain n"
    "nd_known n = nd_trustedSeeds n \<Longrightarrow> nd_known ?n = nd_trustedSeeds ?n" "finite (nd_known n) \<Longrightarrow> finite (nd_known ?n)"
    "[] \<notin> nd_known n \<Longrightarrow> [] \<notin> nd_known ?n"
    by (auto simp: add_seed_def Let_def dest: normalizeDial_nonempty split: option.splits)
  then show ?case using Cons [of ?n] by (metis fold_simps(2))
qed auto

lemma node_ok_init: "node_init L n \<Longrightarrow> node_ok L n"
proof -
  assume "node_init L n"
  then obtain chain listen nodeID seeds where n: "n = startWithListener L seeds (NewNode chain listen nodeID)" by (auto simp: node_init_def)
  note F = start_frame [of L seeds "NewNode chain listen nodeID", folded n]
  have "slots_ok n" using F by (simp add: slots_ok_def counts_tally NewNode_def)
  moreover have "known_ok L n" using F by (auto simp: known_ok_def NewNode_def Let_def)
  ultimately show ?thesis by (simp add: node_ok_def)
qed

lemma known_release: "known_ok L n \<Longrightarrow> releaseHandshakeLocked n r = (n', b) \<Longrightarrow> known_ok L n'"
  using release_pending [of n r n' b] by (intro known_subset [of L n n']) auto

lemma node_ok_release: "node_ok L n \<Longrightarrow> node_ok L (releaseHandshake n r)"
  unfolding node_ok_def releaseHandshake_def
  using slots_release known_release by (metis prod.collapse)

lemma node_ok_register:
  assumes "node_ok L n" and "registerPeer n r key dialable now p = (n', res)" and "dialable = [] \<or> public_address L dialable"
  shows "node_ok L n'"
proof -
  obtain n1 b where rel: "releaseHandshakeLocked n r = (n1, b)" by (cases "releaseHandshakeLocked n r")
  have "known_ok L n1" using assms(1) rel known_release by (auto simp: node_ok_def)
  then have "known_ok L n'" using register_cases [OF assms(2) rel] known_subset [of L n1 n'] known_insert [of L n1 dialable n'] assms(3) by auto
  moreover have "slots_ok n'" using assms(1) slots_register [OF _ assms(2)] by (simp add: node_ok_def)
  ultimately show ?thesis by (simp add: node_ok_def)
qed

lemma node_ok_hello:
  assumes ok: "node_ok L n" and run: "handle_hello L n r conn addr now nonce order hello = (n', res)"
  shows "node_ok L n'"
proof -
  let ?d = "case dialablePeerEndpoint L addr (m_Listen hello) of None \<Rightarrow> [] | Some d \<Rightarrow> d"
  have d: "?d = [] \<or> public_address L ?d" using dialable_public by (auto split: option.splits)
  let ?s = "suppressSelfTargets [hr_target r, ?d] n"
  have sup: "node_ok L ?s"
    using ok suppress_frame [of "[hr_target r, ?d]" n] slots_frame [of ?s n] known_subset [of L n ?s] by (simp add: node_ok_def)
  consider "n' = releaseHandshake n r" | "n' = releaseHandshake ?s r"
    | n1 key p x where "registerPeer n r key ?d now p = (n1, x)" "n' = n1 \<or> n' = releaseHandshake n1 r"
    using run by (auto simp: handle_hello_def Let_def split: if_splits prod.splits bool.splits)
  then show ?thesis using node_ok_release ok sup node_ok_register [OF ok _ d] by cases auto
qed

lemma note_height_frame [simp]:
  "nd_pending (notePeerHeight n p h) = nd_pending n" "nd_known (notePeerHeight n p h) = nd_known n"
  "nd_trustedSeeds (notePeerHeight n p h) = nd_trustedSeeds n" "nd_chain (notePeerHeight n p h) = nd_chain n"
  "length (nd_peers (notePeerHeight n p h)) = length (nd_peers n)" "inbound_peers (notePeerHeight n p h) = inbound_peers n"
  by (simp_all add: notePeerHeight_def counts_tally tally_map_values)

text \<open>A message changes the tables and, through the operations of the chain only, the chain.\<close>

lemma handleMsg_cases:
  assumes "handleMsg K L now n p m = (n', out, err)"
  shows "(\<exists>as. n' = fold (gossip_address L) as n) \<or>
    (\<exists>h c r. (n' = n\<lparr>nd_chain := c\<rparr> \<or> n' = (notePeerHeight n p h)\<lparr>nd_chain := c\<rparr>) \<and> (c = nd_chain n \<or> chain_step K False (nd_chain n) c))"
proof -
  have self: "m = m\<lparr>nd_chain := nd_chain m\<rparr>" for m :: Node by simp
  have blk: "\<exists>c. n' = (notePeerHeight n p (m_Height m))\<lparr>nd_chain := c\<rparr> \<and> (c = nd_chain n \<or> chain_step K False (nd_chain n) c)"
    if "handle_block K now n p m = (n', out, err)"
  proof (cases "DecodeBlock (m_Raw m)")
    case (Inl e)
    then show ?thesis using that self [of "notePeerHeight n p (m_Height m)"] by (auto simp: handle_block_def Let_def intro!: exI [of _ "nd_chain n"])
  next
    case (Inr b)
    then show ?thesis using that by (auto simp: handle_block_def Let_def intro: step_block split: sum.splits prod.splits if_splits)
  qed
  have tx: "\<exists>c. n' = n\<lparr>nd_chain := c\<rparr> \<and> (c = nd_chain n \<or> chain_step K False (nd_chain n) c)" if "handle_tx K n p m = (n', out, err)"
  proof (cases "DecodeTx (m_Raw m)")
    case (Inl e)
    then show ?thesis using that self [of n] by (auto simp: handle_tx_def intro!: exI [of _ "nd_chain n"])
  next
    case (Inr t)
    then show ?thesis using that by (auto simp: handle_tx_def intro: step_tx split: prod.splits)
  qed
  consider "n' = n" | "n' = fold (gossip_address L) (m_Addrs m) n" | "handle_block K now n p m = (n', out, err)"
    | "handle_tx K n p m = (n', out, err)" | "n' = notePeerHeight n p (m_Height m)"
    using assms unfolding handleMsg_def by (auto simp: Let_def split: if_splits sum.splits)
  then show ?thesis
  proof cases
    case 1
    then have "n' = n\<lparr>nd_chain := nd_chain n\<rparr>" by simp
    then show ?thesis by blast
  next
    case 5
    then have "n' = (notePeerHeight n p (m_Height m))\<lparr>nd_chain := nd_chain n\<rparr>" by (simp add: notePeerHeight_def)
    then show ?thesis by blast
  qed (use blk tx in blast)+
qed

lemma node_ok_frame:
  assumes "node_ok L n" and "nd_pending n' = nd_pending n" and "length (nd_peers n') = length (nd_peers n)" and "inbound_peers n' = inbound_peers n"
    and "nd_known n' = nd_known n" and "nd_trustedSeeds n' = nd_trustedSeeds n"
  shows "node_ok L n'"
  using assms by (simp add: node_ok_def slots_ok_def known_ok_def counts_tally(1-3))

lemma node_ok_step: "node_step K L n n' \<Longrightarrow> node_ok L n \<Longrightarrow> node_ok L n'"
proof (induction rule: node_step.induct)
  case (node_inbound n a n' r)
  then have "known_ok L n'"
    by (intro known_subset [of L n n']) (auto simp: reserveInboundHandshakeFrom_def Let_def node_ok_def dest: reserve_pending split: if_splits prod.splits)
  then show ?case using node_inbound slots_reserve_inbound by (auto simp: node_ok_def)
next
  case (node_dial n n' out)
  then have ne: "[] \<notin> nd_known n" by (simp add: node_ok_def known_ok_def)
  have "known_ok L n'" using node_dial(2) reserveDial_dialled [OF ne node_dial(1)] by (intro known_subset [of L n n']) (auto simp: dialled_def dial_frame_def node_ok_def)
  then show ?case using node_dial ne slots_dial by (auto simp: node_ok_def)
next
  case (node_message now n p m n' out err)
  have gossip: "node_ok L (fold (gossip_address L) as n)" for as
    using node_message(2) known_gossip slots_frame [of "fold (gossip_address L) as n" n] by (simp add: node_ok_def)
  have same: "node_ok L (n\<lparr>nd_chain := c\<rparr>)" "node_ok L ((notePeerHeight n p h)\<lparr>nd_chain := c\<rparr>)" for c h
    using node_message(2) by (auto intro!: node_ok_frame [of L n] simp: inbound_peers_def [of "_\<lparr>nd_chain := c\<rparr>"] inbound_peers_def [symmetric])
  show ?case using handleMsg_cases [OF node_message(1)] gossip same by auto
next
  case (node_gone n key owner n' res)
  then have "known_ok L n'" by (intro known_subset [of L n n']) (auto simp: unregisterPeer_def node_ok_def split: option.splits if_splits)
  then show ?case using node_gone slots_unregister by (auto simp: node_ok_def)
next
  case (node_local stored n c)
  then show ?case by (auto intro!: node_ok_frame [of L n] simp: counts_tally)
qed (auto intro: node_ok_release node_ok_hello)

interpretation node_machine: state_machine "node_init L" "node_step K L" "node_ok L"
  by unfold_locales (auto intro: node_ok_init node_ok_step)

lemmas node_reach_ok = node_machine.reach_inv

section \<open>Properties\<close>

text \<open>C12: However connections, dials, messages and disconnections interleave, a node never holds more than
  thirty-two peers and pending handshakes together, at most twenty-eight of them inbound, so that four slots stay open for
  the peers it dials itself; at most four handshakes are pending outbound, eight inbound and two from one source
  address, and it remembers at most a thousand addresses beyond its configured seeds.\<close>

theorem peer_slots_bounded:
  assumes "node_reach K L n"
  shows "length (nd_peers n) + length (nd_pending n) \<le> 32 \<and> inbound_peers n + pending_inbound n \<le> 28 \<and>
    pending_outbound n \<le> 4 \<and> pending_inbound n \<le> 8 \<and> (\<forall>s. pending_from n s \<le> 2) \<and>
    card (nd_known n) \<le> 1000 + card (nd_trustedSeeds n)"
  using node_reach_ok [OF assms]
  by (simp add: node_ok_def slots_ok_def known_ok_def maxPeers_def reservedOutboundSlots_def maxPendingOutbound_def maxPendingInbound_def
      maxPendingInboundPerIP_def)


text \<open>A framed message is read back exactly, whatever follows it on the connection, provided that the JSON decoder
  inverts the encoder.\<close>

theorem message_roundtrip:
  assumes "sendWithTimeout marshal m = Inr frame" and "\<And>b. marshal m = Inr b \<Longrightarrow> unmarshal b = Inr m"
  shows "readMsg unmarshal (frame @ rest) = Inr (m, rest)"
proof -
  obtain b where b: "marshal m = Inr b" "length b \<le> maxMsgBytes" "frame = be_bytes 4 (length b) @ b"
    using assms(1) by (auto simp: sendWithTimeout_def bindE_Inr_iff failIf_Inr_iff)
  have "length b < 256 ^ 4" using b(2) by (simp add: maxMsgBytes_def MaxBlockBytes_def)
  then have "be_nat (be_bytes 4 (length b)) = length b" by (simp add: be_nat_be_bytes)
  then show ?thesis using b assms(2) by (simp add: readMsg_def ReadFull_def Let_def failIf_def not_less)
qed

text \<open>C14: Since JSON carries bytes as base64, a valid block of more than 753,072 bytes cannot be sent: the frame of its
  message exceeds the limit on messages, although consensus admits blocks of up to one million bytes.\<close>

theorem large_block_unsendable:
  assumes "\<And>m b. marshal m = Inr b \<Longrightarrow> 4 * ((length (m_Raw m) + 2) div 3) \<le> length b"
    and "blk_Bytes blk = Inr raw" and "753072 < length raw"
  shows "\<exists>e. sendWithTimeout marshal (block_Msg raw height hasMore) = Inl e"
proof (cases "marshal (block_Msg raw height hasMore)")
  case (Inr b)
  have "maxMsgBytes < 4 * ((length raw + 2) div 3)" using assms(3) by (simp add: maxMsgBytes_def MaxBlockBytes_def)
  then have "maxMsgBytes < length b" using assms(1) [OF Inr] by (simp add: block_Msg_def new_Msg_def)
  then show ?thesis using Inr by (simp add: sendWithTimeout_def failIf_def)
qed (simp add: sendWithTimeout_def)

section \<open>A concrete node\<close>

definition sample_lib :: text_lib where
  "sample_lib =
     \<lparr>tl_TrimSpace = id, tl_ToLower = id, tl_ParseIP = (\<lambda>s. if s = ''8.8.8.8'' then Some s else None),
      tl_ParseAddr = (\<lambda>s. if s = ''8.8.8.8'' then Some (IP4 0x08080808) else None), tl_String = (\<lambda>_. ''8.8.8.8'')\<rparr>"

definition sample_peer :: peer where
  "sample_peer = \<lparr>pr_conn = 1, pr_addr = ''p'', pr_tieKey = [], pr_remoteIP = [], pr_outbound = False, pr_connectedAt = 1, pr_advertisedHeight = 0\<rparr>"

text \<open>A node with the seed \<open>seed:9\<close> that was told the address \<open>8.8.8.8:9\<close>.\<close>

definition told_node :: "Chain \<Rightarrow> Node" where
  "told_node c = (startWithListener sample_lib [''seed:9''] (NewNode c ''me'' ''id''))\<lparr>nd_known := {''seed:9'', ''8.8.8.8:9''}\<rparr>"

lemma sample_lib_targets:
  "normalizeDialTarget sample_lib ''seed:9'' = Some ''seed:9''" "normalizeGossipAddress sample_lib ''8.8.8.8:9'' = Some ''8.8.8.8:9''"
proof -
  have split: "SplitHostPort ''seed:9'' = Some (''seed'', ''9'')" "SplitHostPort ''8.8.8.8:9'' = Some (''8.8.8.8'', ''9'')"
    by (simp_all add: SplitHostPort_def last_index_byte_def Let_def)
  have port: "Atoi ''9'' = Some 9" "Itoa 9 = ''9''"
    by (simp_all add: Atoi_def digit_def Let_def Itoa_def Itoa_nat.simps char_of_def bit_0)
  have "isPublicGossipIP (IP4 0x08080808)" by (simp add: isPublicGossipIP_def ip_IsGlobalUnicast_def blockedGossipPrefixes_def)
  then show "normalizeDialTarget sample_lib ''seed:9'' = Some ''seed:9''" "normalizeGossipAddress sample_lib ''8.8.8.8:9'' = Some ''8.8.8.8:9''"
    by (simp_all add: normalizeGossipAddress_def normalizeDialTarget_def sample_lib_def split port trim_dot_def JoinHostPort_def)
qed

lemma told_node_fields:
  "nd_known (told_node c) = {''seed:9'', ''8.8.8.8:9''}" "nd_trustedSeeds (told_node c) = {''seed:9''}" "nd_seedTargets (told_node c) = [''seed:9'']"
  "nd_peers (told_node c) = []" "nd_pending (told_node c) = []" "nd_dialing (told_node c) = []" "nd_targets (told_node c) = []"
  "nd_suppressed (told_node c) = {}" "nd_nextToken (told_node c) = 0" "nd_seedCursor (told_node c) = 0" "nd_gossipCursor (told_node c) = 0"
  by (simp_all add: told_node_def startWithListener_def add_seed_def sample_lib_targets NewNode_def)

lemma told_node_reach: "node_reach sample_crypto sample_lib (told_node c)"
proof -
  let ?n = "startWithListener sample_lib [''seed:9''] (NewNode c ''me'' ''id'')" and ?m = "(new_Msg ''addr'')\<lparr>m_Addrs := [''8.8.8.8:9'']\<rparr>"
  have "node_reach sample_crypto sample_lib ?n" by (rule reach_init) (auto simp: node_init_def)
  moreover have "handleMsg sample_crypto sample_lib 0 ?n sample_peer ?m = (told_node c, quiet, None)"
    by (simp add: handleMsg_def new_Msg_def gossip_address_def sample_lib_targets told_node_def startWithListener_def add_seed_def NewNode_def insert_commute)
  ultimately show ?thesis by (blast intro: reach_step node_message)
qed

theorem peer_slots_bounded_witness:
  "\<exists>n. node_reach sample_crypto sample_lib n \<and> card (nd_known n) = 2 \<and> length (nd_peers n) + length (nd_pending n) \<le> 32 \<and>
     inbound_peers n + pending_inbound n \<le> 28 \<and> card (nd_known n) \<le> 1000 + card (nd_trustedSeeds n)"
proof -
  obtain c :: Chain where True by blast
  have "card (nd_known (told_node c)) = 2" by (simp add: told_node_fields)
  then show ?thesis using peer_slots_bounded [OF told_node_reach, of c] told_node_reach [of c] by blast
qed

lemma told_node_dial:
  "map hr_target (snd (reserveDialCandidates (told_node c))) = [''seed:9'', ''8.8.8.8:9'']"
proof -
  note N = told_node_fields [of c]
  have s: "{target \<in> nd_known (told_node c). target \<notin> nd_trustedSeeds (told_node c)} = {''8.8.8.8:9''}" by (auto simp: N)
  have av: "isAvailable (told_node c) ''seed:9'' = (told_node c, True)" "isAvailable (told_node c) ''8.8.8.8:9'' = (told_node c, True)"
    by (simp_all add: isAvailable_def N)
  let ?n = "(told_node c)\<lparr>nd_nextToken := 1, nd_pending := [(1, \<lparr>hr_token = 1, hr_target = ''seed:9'', hr_sourceIP = []\<rparr>)],
     nd_dialing := [(''seed:9'', 1)]\<rparr>"
  have r1: "reserve_target 4 ''seed:9'' (told_node c, []) = ((?n, [\<lparr>hr_token = 1, hr_target = ''seed:9'', hr_sourceIP = []\<rparr>]), True)"
    by (simp add: reserve_target_def av reserveHandshakeLocked_def N Let_def)
  have seeds: "rotate_seeds 4 [''seed:9''] 3 (told_node c, []) = (?n\<lparr>nd_seedCursor := 0\<rparr>, [\<lparr>hr_token = 1, hr_target = ''seed:9'', hr_sourceIP = []\<rparr>])"
    by (simp add: rotate_seeds_def reserveRotating_def N r1 Let_def)
  have av2: "isAvailable (?n\<lparr>nd_seedCursor := 0\<rparr>) ''8.8.8.8:9'' = (?n\<lparr>nd_seedCursor := 0\<rparr>, True)" by (simp add: isAvailable_def N)
  let ?out = "[\<lparr>hr_token = 1, hr_target = ''seed:9'', hr_sourceIP = []\<rparr>, \<lparr>hr_token = 2, hr_target = ''8.8.8.8:9'', hr_sourceIP = []\<rparr>]"
  let ?n2 = "?n\<lparr>nd_seedCursor := 0, nd_nextToken := 2, nd_pending := nd_pending ?n @ [(2, \<lparr>hr_token = 2, hr_target = ''8.8.8.8:9'', hr_sourceIP = []\<rparr>)],
     nd_dialing := [(''seed:9'', 1), (''8.8.8.8:9'', 2)], nd_gossipCursor := 0\<rparr>"
  have "rotate_gossip 4 [''8.8.8.8:9''] 1 (rotate_seeds 4 [''seed:9''] 3 (told_node c, [])) = (?n2, ?out)"
    unfolding seeds by (simp add: rotate_gossip_def reserveRotating_def reserve_target_def av2 reserveHandshakeLocked_def N Let_def)
  moreover have "isAvailable ?n2 ''seed:9'' = (?n2, False)" "isAvailable ?n2 ''8.8.8.8:9'' = (?n2, False)"
    by (simp_all add: isAvailable_def N)
  ultimately obtain n2 where gossip: "rotate_gossip 4 [''8.8.8.8:9''] 1 (rotate_seeds 4 [''seed:9''] 3 (told_node c, [])) = (n2, ?out)"
    and busy: "isAvailable n2 ''seed:9'' = (n2, False)" "isAvailable n2 ''8.8.8.8:9'' = (n2, False)" by blast
  have idle: "rotate_seeds 4 [''seed:9''] 2 (n2, ?out) = (n2, ?out)" "rotate_gossip 4 [''8.8.8.8:9''] 2 (n2, ?out) = (n2, ?out)"
    unfolding rotate_seeds_def rotate_gossip_def reserveRotating_def
    by (simp_all add: reserve_target_def busy Let_def)
  have plan: "dial_plan 4 [''seed:9''] [''8.8.8.8:9''] (told_node c, []) = (n2, ?out)"
    by (simp add: dial_plan_def gossip [unfolded One_nat_def] Let_def idle)
  show ?thesis
    by (simp add: reserveDialCandidates_def maxPeers_def maxPendingOutbound_def pending_outbound_def N(3-6) s av plan Let_def)
qed


theorem message_roundtrip_witness:
  "readMsg (\<lambda>b. Inr ((new_Msg ''tx'')\<lparr>m_Raw := b\<rparr>)) ([0, 0, 0, 2, 7, 8] @ [9]) = Inr ((new_Msg ''tx'')\<lparr>m_Raw := [7, 8]\<rparr>, [9])"
proof -
  have four: "4 = Suc (Suc (Suc (Suc 0)))" by simp
  have "sendWithTimeout (\<lambda>m. Inr (m_Raw m)) ((new_Msg ''tx'')\<lparr>m_Raw := [7, 8]\<rparr>) = Inr [0, 0, 0, 2, 7, 8]"
    by (simp add: sendWithTimeout_def new_Msg_def failIf_def maxMsgBytes_def be_bytes_def four)
  then show ?thesis by (rule message_roundtrip) simp
qed

text \<open>A block whose coinbase carries a tag of eight hundred thousand bytes.\<close>

definition large_block :: Block where
  "large_block = sample_child\<lparr>blk_Txs := [Some (sample_coinbase\<lparr>tx_LockTag := replicate 800000 0\<rparr>)]\<rparr>"

theorem large_block_unsendable_witness:
  "\<exists>raw e. blk_Bytes large_block = Inr raw \<and> 753072 < length raw \<and>
     sendWithTimeout (\<lambda>m. Inr (replicate (4 * ((length (m_Raw m) + 2) div 3)) 0)) (block_Msg raw 1 False) = Inl e"
proof -
  let ?t = "sample_coinbase\<lparr>tx_LockTag := replicate 800000 0\<rparr>"
  let ?raw = "hdr_Bytes (blk_Header sample_child) @ put_uvarint 1 @ writeBytes (tx_Bytes ?t)"
  have raw: "blk_Bytes large_block = Inr ?raw" by (simp add: large_block_def blk_Bytes_def)
  have "length (tx_LockTag ?t) \<le> length (tx_Bytes ?t)" by (simp add: tx_Bytes_def serialize_def writeBytes_def del: length_replicate)
  then have "800000 \<le> length (tx_Bytes ?t)" by simp
  then have len: "753072 < length ?raw" by (simp add: writeBytes_def)
  have "\<exists>e. sendWithTimeout (\<lambda>m. Inr (replicate (4 * ((length (m_Raw m) + 2) div 3)) 0)) (block_Msg ?raw 1 False) = Inl e"
    by (rule large_block_unsendable [OF _ raw len]) auto
  then show ?thesis using raw len by blast
qed

end
