(* ===== verification/PeerSync.thy ===== *)
theory PeerSync
  imports PeerTheorems Store
begin

text \<open>
  Synchronisation between two nodes: the exchange of \<open>getblocks\<close> requests and batches of blocks that
  brings a node to the chain of its peer, also when it has to leave a lighter fork of its own. The two
  queues of the connection are modelled as the list of requests the serving node has still to answer.
\<close>

section \<open>The exchange\<close>

text \<open>The client handles the messages of a batch in order; what it sends back are requests.\<close>

fun deliver :: "crypto \<Rightarrow> text_lib \<Rightarrow> (nat \<Rightarrow> int) \<Rightarrow> Node \<Rightarrow> peer \<Rightarrow> Msg list \<Rightarrow> Node \<times> Msg list \<times> error option" where
  "deliver K L clock n p [] = (n, [], None)"
| "deliver K L clock n p (m # ms) =
     (case handleMsg K L (clock (length ms)) n p m of
        (n1, s, Some e) \<Rightarrow> (n1, sd_peer s, Some e)
      | (n1, s, None) \<Rightarrow> (case deliver K L clock n1 p ms of (n2, out, err) \<Rightarrow> (n2, sd_peer s @ out, err)))"

text \<open>One request at a time is answered by the server; \<open>None\<close> stands for a run cut off by the fuel.\<close>

fun exchange ::
  "crypto \<Rightarrow> text_lib \<Rightarrow> (nat \<Rightarrow> int) \<Rightarrow> Node \<Rightarrow> peer \<Rightarrow> peer \<Rightarrow> nat \<Rightarrow> Node \<Rightarrow> Msg list \<Rightarrow> (Node \<times> error option) option"
where
  "exchange K L clock server p q 0 n requests = None"
| "exchange K L clock server p q (Suc fuel) n [] = Some (n, None)"
| "exchange K L clock server p q (Suc fuel) n (request # requests) =
     (case handleMsg K L (clock 0) server q request of (_, s, _) \<Rightarrow>
      case deliver K L clock n p (sd_peer s) of
        (n1, out, Some e) \<Rightarrow> Some (n1, Some e)
      | (n1, out, None) \<Rightarrow> exchange K L clock server p q fuel n1 (requests @ out))"

section \<open>Serving blocks\<close>

text \<open>The main chain of a node as the list of its entries.\<close>

definition main_blocks :: "crypto \<Rightarrow> Params \<Rightarrow> Chain \<Rightarrow> blockIndex list \<Rightarrow> bool" where
  "main_blocks K p c bs \<longleftrightarrow> chain_inv K c \<and> ch_params c = p \<and> branch K p (ch_index c) (ch_tip c) bs"

lemma main_blocksD:
  assumes "main_blocks K p c bs"
  shows "bs \<noteq> []" "last bs = ch_tip c" "ch_mainIDs c = map bi_id bs" "ledger_of K p (map bi_block bs) \<noteq> None" "distinct (map bi_id bs)"
    "bs ! 0 = genesis_index K p"
  using assms branch_shape [of K p "ch_index c" "ch_tip c" bs] main_chain_branch [of K c p bs] main_ids_distinct [of K c bs]
  by (auto simp: main_blocks_def hd_conv_nth)

lemma main_BlockAt:
  assumes "main_blocks K p c bs"
  shows "BlockAt c (int i) = Inr (if i < length bs then Some (bi_block (bs ! i)) else None)"
  using assms main_blocksD [OF assms] main_entry_branch [of K c bs "int i"] by (auto simp: BlockAt_def main_blocks_def)

definition raw_block :: "blockIndex list \<Rightarrow> nat \<Rightarrow> byte list" where
  "raw_block bs i = (case blk_Bytes (bi_block (bs ! i)) of Inr raw \<Rightarrow> raw | Inl _ \<Rightarrow> [])"

lemma main_raw:
  assumes "main_blocks K p c bs" and "0 < i" and "i < length bs"
  shows "blk_Bytes (bi_block (bs ! i)) = Inr (raw_block bs i)"
proof -
  have "follows K p (take i bs) (bs ! i)" using assms branch_nth_follows by (auto simp: main_blocks_def)
  then show ?thesis by (auto simp: follows_def block_rules_def raw_block_def)
qed

lemma batch_blocks_main:
  assumes m: "main_blocks K p c bs" and len: "int (length bs) < 2 ^ 63"
  shows "0 < i \<Longrightarrow> i \<le> length bs \<Longrightarrow> \<exists>k. batch_blocks c left (int i) batch bytes = Inr (batch @ map (\<lambda>j. (int j, raw_block bs j)) [i..<i + k]) \<and>
    k \<le> left \<and> i + k \<le> length bs \<and> (batch = [] \<and> 0 < left \<and> i < length bs \<longrightarrow> 0 < k)"
proof (induction left arbitrary: i batch bytes)
  case 0
  then show ?case by (intro exI [of _ 0]) simp
next
  case (Suc left)
  show ?case
  proof (cases "i < length bs \<and> \<not> (batch \<noteq> [] \<and> bytes + length (raw_block bs i) > blockBatchBytes)")
    case False
    then show ?thesis using main_BlockAt [OF m, of i] main_raw [OF m, of i] Suc.prems by (intro exI [of _ 0]) auto
  next
    case True
    then have w: "wrap64 (int i + 1) = int (Suc i)" using len by (simp add: wrap64_id is_int64_def)
    obtain k where k: "batch_blocks c left (int (Suc i)) (batch @ [(int i, raw_block bs i)]) (bytes + length (raw_block bs i)) =
        Inr ((batch @ [(int i, raw_block bs i)]) @ map (\<lambda>j. (int j, raw_block bs j)) [Suc i..<Suc i + k])" "k \<le> left" "Suc i + k \<le> length bs"
      using Suc.IH [of "Suc i" "batch @ [(int i, raw_block bs i)]" "bytes + length (raw_block bs i)"] True by (meson Suc_leI zero_less_Suc)
    have "batch_blocks c (Suc left) (int i) batch bytes =
        batch_blocks c left (int (Suc i)) (batch @ [(int i, raw_block bs i)]) (bytes + length (raw_block bs i))"
      using True main_BlockAt [OF m, of i] main_raw [OF m, of i] Suc.prems w by auto
    moreover have "[i..<i + Suc k] = i # [Suc i..<Suc i + k]" by (simp add: upt_conv_Cons del: upt_Suc)
    ultimately show ?thesis using k by (intro exI [of _ "Suc k"]) (simp del: upt_Suc batch_blocks.simps)
  qed
qed

text \<open>The answer to a request: consecutive blocks, at least one if there is one, at most sixty-four, and the last one says
  whether there are more.\<close>

lemma getblocks_main:
  assumes m: "main_blocks K p c bs" and len: "int (length bs) < 2 ^ 63" and i: "0 < i" "i \<le> length bs"
  shows "\<exists>k. getblocks_reply c (int i) = Inr (map (\<lambda>j. block_Msg (raw_block bs j) (int j) (Suc j = i + k \<and> i + k < length bs)) [i..<i + k]) \<and>
    k \<le> 64 \<and> i + k \<le> length bs \<and> (i < length bs \<longrightarrow> 0 < k)"
proof -
  obtain k where k: "batch_blocks c blockBatchSize (int i) [] 0 = Inr (map (\<lambda>j. (int j, raw_block bs j)) [i..<i + k])"
    "k \<le> 64" "i + k \<le> length bs" "i < length bs \<longrightarrow> 0 < k"
    using batch_blocks_main [OF m len i, of blockBatchSize "[]" 0] by (auto simp: blockBatchSize_def)
  let ?f = "\<lambda>(j, height, raw). if j = k - 1 then bindE (BlockAt c (wrap64 (height + 1))) (\<lambda>next. Inr (block_Msg raw height (next \<noteq> None)))
      else Inr (block_Msg raw height False)"
  have each: "?f (j, int (i + j), raw_block bs (i + j)) =
      Inr (block_Msg (raw_block bs (i + j)) (int (i + j)) (Suc (i + j) = i + k \<and> i + k < length bs))" if "j < k" for j
  proof -
    have "wrap64 (int (i + j) + 1) = int (Suc (i + j))" using len k(3) that by (simp add: wrap64_id is_int64_def)
    moreover have "j = k - 1 \<longleftrightarrow> Suc (i + j) = i + k" using that by auto
    ultimately show ?thesis using main_BlockAt [OF m, of "Suc (i + j)"] by simp
  qed
  have "enumerate 0 (map (\<lambda>j. (int j, raw_block bs j)) [i..<i + k]) = map (\<lambda>j. (j, int (i + j), raw_block bs (i + j))) [0..<k]"
    by (rule nth_equalityI) (simp_all add: nth_enumerate_eq)
  moreover have "mapE (?f \<circ> (\<lambda>j. (j, int (i + j), raw_block bs (i + j)))) [0..<k] =
      Inr (map (\<lambda>j. block_Msg (raw_block bs (i + j)) (int (i + j)) (Suc (i + j) = i + k \<and> i + k < length bs)) [0..<k])"
    using each by (intro mapE_map) simp
  moreover have "map (\<lambda>j. block_Msg (raw_block bs (i + j)) (int (i + j)) (Suc (i + j) = i + k \<and> i + k < length bs)) [0..<k] =
      map (\<lambda>j. block_Msg (raw_block bs j) (int j) (Suc j = i + k \<and> i + k < length bs)) [i..<i + k]"
    by (rule nth_equalityI) simp_all
  ultimately show ?thesis using k by (intro exI [of _ k]) (simp add: getblocks_reply_def mapE_comp)
qed

section \<open>Receiving blocks\<close>

text \<open>Blocks a peer may serve: well-formed, mined, and not ahead of the receiver's clock.\<close>

definition servable :: "crypto \<Rightarrow> Params \<Rightarrow> (nat \<Rightarrow> int) \<Rightarrow> blockIndex list \<Rightarrow> bool" where
  "servable K p clock bs \<longleftrightarrow>
     (\<forall>i t. 0 < i \<and> i < length bs \<longrightarrow> wf_Block (bi_block (bs ! i)) \<and> CheckPow K p (blk_Header (bi_block (bs ! i))) \<and>
        clock_ok p (int i) (clock t) (hdr_Time (blk_Header (bi_block (bs ! i)))))"

text \<open>The client knows exactly the first \<open>k\<close> blocks of the server's chain; \<open>old\<close> is its index at the start.\<close>

definition client :: "crypto \<Rightarrow> Params \<Rightarrow> blockIndex list \<Rightarrow> index_map \<Rightarrow> Chain \<Rightarrow> nat \<Rightarrow> bool" where
  "client K p bs old a k \<longleftrightarrow> chain_inv K a \<and> ch_params a = p \<and> 0 < k \<and> k \<le> length bs \<and> ran (ch_index a) \<subseteq> ran old \<union> set bs \<and>
     (\<forall>i<length bs. ch_index a (bi_id (bs ! i)) = (if i < k then Some (bs ! i) else None))"

lemma server_entry:
  assumes "main_blocks K p c bs" and "0 < i" and "i < length bs"
  shows "hdr_ID K (blk_Header (bi_block (bs ! i))) = bi_id (bs ! i)" "hdr_PrevBlock (blk_Header (bi_block (bs ! i))) = bi_id (bs ! (i - 1))"
    "follows K p (take i bs) (bs ! i)"
proof -
  show fol: "follows K p (take i bs) (bs ! i)" using assms branch_nth_follows by (auto simp: main_blocks_def)
  then show "hdr_ID K (blk_Header (bi_block (bs ! i))) = bi_id (bs ! i)" by (simp add: follows_def)
  show "hdr_PrevBlock (blk_Header (bi_block (bs ! i))) = bi_id (bs ! (i - 1))"
    using main_link [of K c bs "i - 1"] assms by (auto simp: main_blocks_def)
qed

lemma prefix_branch:
  assumes m: "main_blocks K p c bs" and a: "client K p bs old a k" and i: "0 < i" "i \<le> k"
  shows "branch K p (ch_index a) (bs ! (i - 1)) (take i bs)"
  using i
proof (induction i)
  case (Suc i)
  have len: "i < length bs" using Suc.prems a by (simp add: client_def)
  show ?case
  proof (cases "i = 0")
    case True
    then show ?thesis using main_blocksD [OF m] by (simp add: take_Suc hd_conv_nth branch_root)
  next
    case False
    then have IH: "branch K p (ch_index a) (bs ! (i - 1)) (take i bs)" using Suc by simp
    have "ch_index a (bi_prev (bs ! i)) = Some (bs ! (i - 1))"
      using server_entry(2) [OF m _ len] False a Suc.prems len by (auto simp: client_def)
    then show ?thesis using branch_extend [OF IH _ server_entry(3) [OF m _ len]] False len by (simp add: take_Suc_conv_app_nth)
  qed
qed simp

lemma client_known:
  assumes m: "main_blocks K p c bs" and a: "client K p bs old a k" and i: "0 < i" "i < k"
  shows "AcceptBlock K a now (Some (bi_block (bs ! i))) = (a, Inr (), None)"
  using server_entry(1) [OF m i(1)] a i
  by (auto simp: AcceptBlock_def accept_with_def acceptBlockLocked_def Let_def client_def)

lemma client_orphan:
  assumes m: "main_blocks K p c bs" and a: "client K p bs old a k" and i: "k < i" "i < length bs"
  shows "AcceptBlock K a now (Some (bi_block (bs ! i))) = (a, Inl (Err ''orphan: unknown parent''), None)"
proof -
  have "ch_index a (bi_id (bs ! i)) = None" "ch_index a (bi_id (bs ! (i - 1))) = None" using a i by (auto simp: client_def)
  then show ?thesis using server_entry(1,2) [OF m, of i] a i
    by (auto simp: AcceptBlock_def accept_with_def acceptBlockLocked_def Let_def client_def)
qed

lemma client_accepts:
  assumes m: "main_blocks K p c bs" and s: "servable K p clock bs" and a: "client K p bs old a k" and k: "k < length bs"
  shows "\<exists>a' x. AcceptBlock K a (clock t) (Some (bi_block (bs ! k))) = (a', Inr (), x) \<and> client K p bs old a' (Suc k)"
proof -
  let ?b = "bi_block (bs ! k)" and ?parent = "bs ! (k - 1)"
  have inv: "chain_inv K a" "ch_params a = p" "0 < k" using a by (auto simp: client_def)
  note E = server_entry [OF m inv(3) k]
  have br: "branch K p (ch_index a) ?parent (take k bs)" using prefix_branch [OF m a] inv(3) by simp
  have parent: "ch_index a (hdr_PrevBlock (blk_Header ?b)) = Some ?parent" using E(2) a inv(3) k by (auto simp: client_def)
  have hdr: "check_header K a (clock t) ?b True ?parent = Inr ()"
    using check_header_iff [OF inv(1), of ?parent "take k bs" "clock t" ?b True] br inv(2) E(3) s k inv(3) by (auto simp: follows_def servable_def)
  have "map bi_block bs = map bi_block (take k bs) @ [?b] @ map bi_block (drop (Suc k) bs)"
    using k by (metis append_Cons append_Nil id_take_nth_drop list.simps(9) map_append)
  then have led: "ledger_of K p (map bi_block (take k bs) @ [?b]) \<noteq> None"
    using main_blocksD(4) [OF m] ledger_prefix by (metis append.assoc)
  obtain a' r where acc: "acceptBlockLocked K a (clock t) ?b True = (a', Inr r)" "ch_index a' (bi_id (bs ! k)) \<noteq> None"
    using acceptBlock_complete [OF inv(1) parent, of "take k bs" "clock t" True] br led inv(2) E(1) hdr by auto
  have new: "ch_index a (bi_id (bs ! k)) = None" using a k by (auto simp: client_def)
  have last: "last (take k bs) = ?parent" using inv(3) k by (subst last_conv_nth) auto
  have entry: "entry_for K ?parent ?b = bs ! k"
    using E(1,3) last branch_shape [OF br] inv(3) k by (simp add: entry_for_def follows_def block_work_def)
  have idx: "ch_index a' = (ch_index a)(bi_id (bs ! k) \<mapsto> bs ! k)"
    using acceptBlock_index [OF inv(1) acc(1)] acc(2) new parent entry E(1) by auto
  have "chain_inv K a'" "ch_params a' = p" using acceptBlock_inv [OF inv(1) acc(1)] acceptBlock_params [OF inv(1) acc(1)] inv(2) by auto
  moreover have "ch_index a' (bi_id (bs ! i)) = (if i < Suc k then Some (bs ! i) else None)" if "i < length bs" for i
  proof -
    have "bi_id (bs ! i) = bi_id (bs ! k) \<longleftrightarrow> i = k"
      using nth_eq_iff_index_eq [OF main_blocksD(5) [OF m], of i k] that k by simp
    then show ?thesis using idx a that by (auto simp: client_def less_Suc_eq)
  qed
  moreover have "ran (ch_index a') \<subseteq> ran old \<union> set bs" using a idx new k by (auto simp: client_def)
  ultimately have "client K p bs old a' (Suc k)" using k by (simp add: client_def)
  moreover have "\<exists>x. AcceptBlock K a (clock t) (Some ?b) = (a', Inr (), x)"
    using acc(1) by (cases r) (auto simp: AcceptBlock_def accept_with_def)
  ultimately show ?thesis by blast
qed

section \<open>A batch\<close>

definition served :: "blockIndex list \<Rightarrow> nat \<Rightarrow> nat \<Rightarrow> Msg" where
  "served bs e j = block_Msg (raw_block bs j) (int j) (Suc j = e \<and> e < length bs)"

lemma handle_served:
  assumes m: "main_blocks K p c bs" and s: "servable K p clock bs" and len: "int (length bs) < 2 ^ 63" and j: "0 < j" "j < length bs"
    and acc: "AcceptBlock K (nd_chain n) now (Some (bi_block (bs ! j))) = (a', r, x)" and r: "r = Inr () \<or> r = Inl (Err ''orphan: unknown parent'')"
  shows "\<exists>n' out. handleMsg K L now n q (served bs e j) = (n', out, None) \<and> nd_chain n' = a' \<and>
    sd_peer out = (if r \<noteq> Inr () then [getblocks_Msg 1] else if Suc j = e \<and> e < length bs then [getblocks_Msg (int e)] else [])"
proof -
  have "DecodeBlock (raw_block bs j) = Inr (bi_block (bs ! j))"
    using DecodeBlock_blk_Bytes main_raw [OF m j] s j by (auto simp: servable_def)
  moreover have "wrap64 (int j + 1) = int (Suc j)" using len j by (simp add: wrap64_id is_int64_def)
  ultimately show ?thesis
    using acc r by (auto simp: handleMsg_def handle_block_def served_def block_Msg_def new_Msg_def Let_def)
qed

lemma deliver_known:
  assumes m: "main_blocks K p c bs" and s: "servable K p clock bs" and len: "int (length bs) < 2 ^ 63"
  shows "0 < i \<Longrightarrow> i \<le> e \<Longrightarrow> e \<le> length bs \<Longrightarrow> client K p bs old (nd_chain n) k \<Longrightarrow> i \<le> k \<Longrightarrow>
    \<exists>n'. deliver K L clock n q (map (served bs e) [i..<e]) =
        (n', if i < e \<and> e < length bs then [getblocks_Msg (int e)] else [], None) \<and> client K p bs old (nd_chain n') (max k e)"
proof (induction "e - i" arbitrary: i n k)
  case 0
  then show ?case by (simp add: max_absorb1)
next
  case (Suc d)
  have i: "i < e" "i < length bs" using Suc.hyps(2) Suc.prems(3) by auto
  let ?ms = "map (served bs e) [Suc i..<e]"
  obtain a' x where acc: "AcceptBlock K (nd_chain n) (clock (length ?ms)) (Some (bi_block (bs ! i))) = (a', Inr (), x)"
    and a': "client K p bs old a' (max k (Suc i))"
  proof (cases "i < k")
    case True
    then show ?thesis using that client_known [OF m Suc.prems(4,1)] Suc.prems(4) by (simp add: max_absorb1)
  next
    case False
    then have "i = k" using Suc.prems(5) by simp
    then show ?thesis using that client_accepts [OF m s Suc.prems(4), of "length ?ms"] i(2) by (auto simp: max_absorb2)
  qed
  obtain n1 out where h: "handleMsg K L (clock (length ?ms)) n q (served bs e i) = (n1, out, None)" "nd_chain n1 = a'"
    "sd_peer out = (if Suc i = e \<and> e < length bs then [getblocks_Msg (int e)] else [])"
    using handle_served [OF m s len Suc.prems(1) i(2) acc, of L q e] by auto
  have "\<exists>n'. deliver K L clock n1 q ?ms = (n', if Suc i < e \<and> e < length bs then [getblocks_Msg (int e)] else [], None) \<and>
      client K p bs old (nd_chain n') (max (max k (Suc i)) e)"
    using Suc.hyps(2) Suc.prems i a' h(2) by (intro Suc.hyps(1)) auto
  moreover have "map (served bs e) [i..<e] = served bs e i # ?ms" using i(1) by (simp add: upt_conv_Cons)
  ultimately show ?case using h i(1) by (auto simp: max.assoc max_absorb2)
qed

lemma deliver_orphans:
  assumes m: "main_blocks K p c bs" and s: "servable K p clock bs" and len: "int (length bs) < 2 ^ 63"
  shows "i \<le> e \<Longrightarrow> e \<le> length bs \<Longrightarrow> client K p bs old (nd_chain n) k \<Longrightarrow> k < i \<Longrightarrow>
    \<exists>n'. deliver K L clock n q (map (served bs e) [i..<e]) = (n', replicate (e - i) (getblocks_Msg 1), None) \<and> nd_chain n' = nd_chain n"
proof (induction "e - i" arbitrary: i n)
  case (Suc d)
  have i: "i < e" "i < length bs" "0 < i" using Suc.hyps(2) Suc.prems by auto
  let ?ms = "map (served bs e) [Suc i..<e]"
  have acc: "AcceptBlock K (nd_chain n) (clock (length ?ms)) (Some (bi_block (bs ! i))) = (nd_chain n, Inl (Err ''orphan: unknown parent''), None)"
    by (rule client_orphan [OF m Suc.prems(3,4) i(2)])
  obtain n1 out where h: "handleMsg K L (clock (length ?ms)) n q (served bs e i) = (n1, out, None)" "nd_chain n1 = nd_chain n"
    "sd_peer out = [getblocks_Msg 1]"
    using handle_served [OF m s len i(3,2) acc, of L q e] by auto
  have "\<exists>n'. deliver K L clock n1 q ?ms = (n', replicate (e - Suc i) (getblocks_Msg 1), None) \<and> nd_chain n' = nd_chain n1"
    using Suc.hyps(2) Suc.prems i h(2) by (intro Suc.hyps(1)) auto
  moreover have "map (served bs e) [i..<e] = served bs e i # ?ms" using i(1) by (simp add: upt_conv_Cons)
  moreover have "replicate (e - i) (getblocks_Msg 1) = getblocks_Msg 1 # replicate (e - Suc i) (getblocks_Msg 1)"
    using i(1) by (metis Suc_diff_Suc replicate_Suc)
  ultimately show ?case using h by auto
qed simp

section \<open>The whole exchange\<close>

abbreviation ask :: "nat \<Rightarrow> Msg" where
  "ask f \<equiv> getblocks_Msg (int f)"

text \<open>What a pending request may still cost: a request for unknown blocks brings up to sixty-four requests from the start.\<close>

definition request_cost :: "nat \<Rightarrow> nat \<Rightarrow> nat \<Rightarrow> nat" where
  "request_cost N k f = (if f \<le> k then N + 1 - f else 64 * N + 1)"

lemma request_step:
  assumes m: "main_blocks K p (nd_chain server) bs" and s: "servable K p clock bs" and len: "int (length bs) < 2 ^ 63"
    and a: "client K p bs old (nd_chain n) k" and f: "0 < f" "f \<le> length bs"
  shows "\<exists>out n1 fs k1. handleMsg K L now server q (ask f) = (server, out, None) \<and>
    deliver K L clock n p' (sd_peer out) = (n1, map ask fs, None) \<and> client K p bs old (nd_chain n1) k1 \<and> k \<le> k1 \<and>
    (\<forall>g\<in>set fs. 0 < g \<and> g < length bs) \<and> sum_list (map (request_cost (length bs) k1) fs) < request_cost (length bs) k f \<and>
    (f < length bs \<longrightarrow> k1 = length bs \<or> fs \<noteq> [])"
proof -
  let ?N = "length bs"
  obtain d where d: "getblocks_reply (nd_chain server) (int f) = Inr (map (served bs (f + d)) [f..<f + d])" "d \<le> 64" "f + d \<le> ?N" "f < ?N \<longrightarrow> 0 < d"
    using getblocks_main [OF m len f] unfolding served_def by blast
  let ?ms = "map (served bs (f + d)) [f..<f + d]"
  obtain out where h: "handleMsg K L now server q (ask f) = (server, out, None)" "sd_peer out = ?ms"
    using d(1) by (simp add: handleMsg_def getblocks_Msg_def new_Msg_def quiet_def)
  have k: "0 < k" using a by (simp add: client_def)
  show ?thesis
  proof (cases "f \<le> k")
    case True
    obtain n1 where n1: "deliver K L clock n p' ?ms = (n1, if f < f + d \<and> f + d < ?N then [ask (f + d)] else [], None)"
      "client K p bs old (nd_chain n1) (max k (f + d))"
      using deliver_known [OF m s len f(1) _ d(3) a True] by auto
    have k1: "max k (f + d) \<le> ?N" using n1(2) by (simp add: client_def)
    show ?thesis
    proof (cases "0 < d \<and> f + d < ?N")
      case True
      then have "sum_list (map (request_cost ?N (max k (f + d))) [f + d]) < request_cost ?N k f"
        using \<open>f \<le> k\<close> d(3) by (simp add: request_cost_def) linarith
      then show ?thesis using h n1 True by (fastforce intro!: exI [of _ "[f + d]"])
    next
      case False
      then have "f < ?N \<longrightarrow> max k (f + d) = ?N" using d(3,4) k1 by auto
      moreover have "0 < request_cost ?N k f" using f(2) by (simp add: request_cost_def)
      ultimately show ?thesis using h n1 False by (fastforce intro!: exI [of _ "[] :: nat list"])
    qed
  next
    case False
    obtain n1 where n1: "deliver K L clock n p' ?ms = (n1, replicate d (ask 1), None)" "nd_chain n1 = nd_chain n"
      using deliver_orphans [OF m s len _ d(3) a, of f] False by auto
    have "sum_list (map (request_cost ?N k) (replicate d 1)) = d * ?N" using k by (simp add: request_cost_def sum_list_replicate)
    also have "\<dots> \<le> 64 * ?N" using d(2) by simp
    also have "\<dots> < request_cost ?N k f" using False by (simp add: request_cost_def)
    finally have cost: "sum_list (map (request_cost ?N k) (replicate d 1)) < request_cost ?N k f" .
    have "0 < g \<and> g < ?N" if "g \<in> set (replicate d 1)" for g using that False k d(3) by (auto split: if_splits)
    then show ?thesis using h n1 cost a d(4)
      by (intro exI [of _ out] exI [of _ n1] exI [of _ "replicate d 1"] exI [of _ k]) auto
  qed
qed

lemma cost_mono: "k \<le> k1 \<Longrightarrow> f \<le> N \<Longrightarrow> 0 < f \<Longrightarrow> request_cost N k1 f \<le> request_cost N k f"
  by (auto simp: request_cost_def)

lemma exchange_completes:
  assumes m: "main_blocks K p (nd_chain server) bs" and s: "servable K p clock bs" and len: "int (length bs) < 2 ^ 63"
  shows "client K p bs old (nd_chain n) k \<Longrightarrow> \<forall>f\<in>set fs. 0 < f \<and> f \<le> length bs \<Longrightarrow> k = length bs \<or> (\<exists>f\<in>set fs. f < length bs) \<Longrightarrow>
    \<exists>fuel n'. exchange K L clock server p' q fuel n (map ask fs) = Some (n', None) \<and> client K p bs old (nd_chain n') (length bs)"
proof (induction "sum_list (map (request_cost (length bs) k) fs)" arbitrary: n k fs rule: less_induct)
  case less
  show ?case
  proof (cases fs)
    case Nil
    then show ?thesis using less.prems by (intro exI [of _ 1]) auto
  next
    case (Cons f fs')
    obtain out n1 gs k1 where h: "handleMsg K L (clock 0) server q (ask f) = (server, out, None)"
        "deliver K L clock n p' (sd_peer out) = (n1, map ask gs, None)"
      and c1: "client K p bs old (nd_chain n1) k1" "k \<le> k1" and gs: "\<forall>g\<in>set gs. 0 < g \<and> g < length bs"
        "sum_list (map (request_cost (length bs) k1) gs) < request_cost (length bs) k f" "f < length bs \<longrightarrow> k1 = length bs \<or> gs \<noteq> []"
      using request_step [OF m s len less.prems(1), of f L "clock 0" q p'] less.prems(2) Cons by auto
    have "sum_list (map (request_cost (length bs) k1) fs') \<le> sum_list (map (request_cost (length bs) k) fs')"
      using cost_mono [OF c1(2)] less.prems(2) Cons by (intro sum_list_mono) auto
    then have smaller: "sum_list (map (request_cost (length bs) k1) (fs' @ gs)) < sum_list (map (request_cost (length bs) k) fs)"
      using gs(2) Cons by simp
    have k1: "k1 \<le> length bs" using c1(1) by (simp add: client_def)
    have "k1 = length bs \<or> (\<exists>f\<in>set (fs' @ gs). f < length bs)"
    proof (cases "k1 = length bs")
      case False
      then have "k \<noteq> length bs" using c1(2) k1 by auto
      then show ?thesis using less.prems(3) Cons gs(1,3) False by (cases gs) auto
    qed simp
    moreover have "\<forall>f\<in>set (fs' @ gs). 0 < f \<and> f \<le> length bs" using less.prems(2) Cons gs(1) by auto
    ultimately obtain fuel n' where "exchange K L clock server p' q fuel n1 (map ask (fs' @ gs)) = Some (n', None)" "client K p bs old (nd_chain n') (length bs)"
      using less.hyps [OF smaller c1(1)] by blast
    then have "exchange K L clock server p' q (Suc fuel) n (map ask fs) = Some (n', None) \<and> client K p bs old (nd_chain n') (length bs)"
      using h Cons by simp
    then show ?thesis by blast
  qed
qed

text \<open>At the start the client knows a prefix of the server's chain, because an index contains the ancestors of its
  entries.\<close>

lemma down_closed_prefix:
  "P 0 \<Longrightarrow> 0 < N \<Longrightarrow> (\<And>i. Suc i < N \<Longrightarrow> P (Suc i) \<Longrightarrow> P i) \<Longrightarrow> \<exists>k. 0 < k \<and> k \<le> N \<and> (\<forall>i<N. P i \<longleftrightarrow> i < k)"
proof (induction N)
  case (Suc N)
  show ?case
  proof (cases "N = 0")
    case True
    then show ?thesis using Suc.prems(1) by (intro exI [of _ 1]) auto
  next
    case False
    then obtain k where k: "0 < k" "k \<le> N" "\<forall>i<N. P i \<longleftrightarrow> i < k" using Suc by auto
    show ?thesis
    proof (cases "P N")
      case True
      then have "P (N - 1)" using Suc.prems(3) [of "N - 1"] False by simp
      then have "N - 1 < k" using k(3) False by simp
      then have "k = N" using k(2) by linarith
      then show ?thesis using k True by (intro exI [of _ "Suc N"]) (auto simp: less_Suc_eq)
    next
      case False
      then show ?thesis using k by (intro exI [of _ k]) (auto simp: less_Suc_eq)
    qed
  qed
qed simp

lemma client_start:
  assumes m: "main_blocks K p c bs" and inv: "chain_inv K a" "ch_params a = p"
    and agree: "\<And>hid x y. ch_index a hid = Some x \<Longrightarrow> ch_index c hid = Some y \<Longrightarrow> x = y"
  shows "\<exists>k. client K p bs (ch_index a) a k"
proof -
  have ib: "ch_index c (bi_id (bs ! i)) = Some (bs ! i)" if "i < length bs" for i
    using main_indexed [of K c bs] m that by (auto simp: main_blocks_def)
  have ia: "ch_index a (bi_id (bs ! i)) = None \<or> ch_index a (bi_id (bs ! i)) = Some (bs ! i)" if "i < length bs" for i
    using agree [OF _ ib [OF that]] by (cases "ch_index a (bi_id (bs ! i))") auto
  have down: "ch_index a (bi_id (bs ! i)) = Some (bs ! i)" if i: "Suc i < length bs" "ch_index a (bi_id (bs ! Suc i)) = Some (bs ! Suc i)" for i
  proof -
    obtain xs where xs: "branch K p (ch_index a) (bs ! Suc i) xs" using i(2) inv unfolding chain_inv_def by (metis index_invD)
    have "bi_height (bs ! Suc i) = int (Suc i)" using server_entry(3) [OF m _ i(1)] i(1) by (simp add: follows_def)
    then have "\<exists>parent. ch_index a (bi_prev (bs ! Suc i)) = Some parent" by - (rule branch.cases [OF xs], auto)
    then show ?thesis using server_entry(2) [OF m _ i(1)] ia [of i] i(1) by auto
  qed
  have "ch_index a (bi_id (bs ! 0)) = Some (bs ! 0)" "0 < length bs"
    using inv main_blocksD [OF m] by (auto simp: chain_inv_def index_inv_def)
  then obtain k where "0 < k" "k \<le> length bs" "\<forall>i<length bs. ch_index a (bi_id (bs ! i)) = Some (bs ! i) \<longleftrightarrow> i < k"
    using down_closed_prefix [of "\<lambda>i. ch_index a (bi_id (bs ! i)) = Some (bs ! i)" "length bs"] down by blast
  then show ?thesis using inv ia by (auto simp: client_def intro!: exI [of _ k])
qed

lemma main_tip_strict:
  assumes m: "main_blocks K p c bs" and w: "\<forall>i. 0 < i \<and> i < length bs \<longrightarrow> 0 < block_work (bi_block (bs ! i))" and x: "x \<in> set bs" "x \<noteq> ch_tip c"
  shows "bi_cumWork x < bi_cumWork (ch_tip c)"
proof -
  have br: "branch K p (ch_index c) (ch_tip c) bs" using m by (simp add: main_blocks_def)
  have up: "j < length bs \<Longrightarrow> i < j \<Longrightarrow> bi_cumWork (bs ! i) < bi_cumWork (bs ! j)" for i j
  proof (induction j)
    case (Suc j)
    have "bi_cumWork (bs ! j) < bi_cumWork (bs ! Suc j)" using branch_work [OF br, of "Suc j"] w Suc.prems by simp
    then show ?case using Suc by (cases "i = j") auto
  qed simp
  obtain i where i: "i < length bs" "x = bs ! i" using x(1) by (auto simp: in_set_conv_nth)
  have tip: "ch_tip c = bs ! (length bs - 1)" using main_blocksD [OF m] by (metis last_conv_nth)
  then have "i < length bs - 1" using i x(2) by (cases "i = length bs - 1") auto
  then show ?thesis using up [of "length bs - 1" i] i tip by simp
qed

text \<open>C11: A node that asks an honest peer for blocks at any height the peer has reaches the peer's chain, whatever fork it is
  on: the exchange ends without an error, the node then knows every block of the peer's main chain, its tip has at
  least the peer's work, and if the peer's chain has more work than every block the node knew, both have the same
  tip, main chain and ledger. (Every message is delivered, the peer's blocks are well-formed, and not
  ahead of the node's clock; no two blocks the nodes know share an id.)\<close>

theorem sync_converges:
  assumes "chain_reach K p False (nd_chain server)" and "chain_reach K p stored (nd_chain n)"
    and "\<And>hid x y. ch_index (nd_chain n) hid = Some x \<Longrightarrow> ch_index (nd_chain server) hid = Some y \<Longrightarrow> x = y"
    and "\<And>h b t. 0 < h \<Longrightarrow> BlockAt (nd_chain server) h = Inr (Some b) \<Longrightarrow> storable p h (clock t) b"
    and "0 < f" and "f < length (ch_mainIDs (nd_chain server))" and "int (length (ch_mainIDs (nd_chain server))) < 2 ^ 63"
  shows "\<exists>fuel n'. exchange K L clock server q q' fuel n [getblocks_Msg (int f)] = Some (n', None) \<and>
    set (ch_mainIDs (nd_chain server)) \<subseteq> dom (ch_index (nd_chain n')) \<and>
    bi_cumWork (ch_tip (nd_chain server)) \<le> bi_cumWork (ch_tip (nd_chain n')) \<and>
    ((\<forall>x\<in>ran (ch_index (nd_chain n)). bi_cumWork x < bi_cumWork (ch_tip (nd_chain server))) \<longrightarrow>
       ch_tip (nd_chain n') = ch_tip (nd_chain server) \<and> ch_mainIDs (nd_chain n') = ch_mainIDs (nd_chain server) \<and>
       ch_utxo (nd_chain n') = ch_utxo (nd_chain server))"
proof -
  let ?c = "nd_chain server" and ?a = "nd_chain n"
  have inv: "chain_inv K ?c" "ch_params ?c = p" "chain_inv K ?a" "ch_params ?a = p"
    using assms(1,2) reach_chain_inv reach_params by blast+
  obtain bs where br: "branch K p (ch_index ?c) (ch_tip ?c) bs" using chain_invD [OF inv(1)] inv(2) by metis
  have m: "main_blocks K p ?c bs" using inv br by (simp add: main_blocks_def)
  note M = main_blocksD [OF m]
  have len: "length bs = length (ch_mainIDs ?c)" using M(3) by simp
  have st: "storable p (int i) (clock t) (bi_block (bs ! i))" if "0 < i" "i < length bs" for i t
    using assms(4) [of "int i"] main_BlockAt [OF m, of i] that by simp
  have pow: "CheckPow K p (bi_header (bs ! i))" if "i < length bs" for i
    using pow_machine.reach_inv [OF assms(1)] inv(2) main_indexed [OF inv(1), of bs] br that
    by (metis nth_mem pow_inv_def ranI)
  have serv: "servable K p clock bs" using st pow by (auto simp: servable_def storable_def)
  obtain k where k: "client K p bs (ch_index ?a) ?a k" using client_start [OF m inv(3,4)] assms(3) by blast
  obtain fuel n' where run: "exchange K L clock server q q' fuel n (map ask [f]) = Some (n', None)"
    and fin: "client K p bs (ch_index ?a) (nd_chain n') (length bs)"
    using exchange_completes [OF m serv _ k, of "[f]" L q q'] assms(5-7) len by auto
  let ?a' = "nd_chain n'"
  have inv': "chain_inv K ?a'" "ch_params ?a' = p" and idx: "\<And>x. x \<in> set bs \<Longrightarrow> ch_index ?a' (bi_id x) = Some x"
    using fin by (auto simp: client_def in_set_conv_nth)
  have work: "bi_cumWork (ch_tip ?c) \<le> bi_cumWork (ch_tip ?a')"
    using idx [of "ch_tip ?c"] M(1,2) inv'(1) last_in_set [OF M(1)] by (auto simp: chain_inv_def dest: ranI)
  have "ch_tip ?a' = ch_tip ?c" if heavy: "\<forall>x\<in>ran (ch_index ?a). bi_cumWork x < bi_cumWork (ch_tip ?c)"
  proof (rule ccontr)
    assume ne: "ch_tip ?a' \<noteq> ch_tip ?c"
    have "ch_tip ?a' \<in> ran (ch_index ?a')" using inv'(1) by (auto simp: chain_inv_def intro: ranI)
    then have "ch_tip ?a' \<in> ran (ch_index ?a) \<union> set bs" using fin by (auto simp: client_def)
    then have "bi_cumWork (ch_tip ?a') < bi_cumWork (ch_tip ?c)"
      using heavy main_tip_strict [OF m _ _ ne] st [of _ 0] by (auto simp: storable_def)
    then show False using work by simp
  qed
  moreover have "ch_mainIDs ?a' = ch_mainIDs ?c \<and> ch_utxo ?a' = ch_utxo ?c" if tip: "ch_tip ?a' = ch_tip ?c"
  proof -
    have "branch K p (ch_index ?a') (ch_tip ?a') bs"
      using prefix_branch [OF m fin, of "length bs"] M(1,2) tip by (simp add: last_conv_nth)
    from main_chain_branch [OF inv' this] main_chain_branch [OF inv(1,2) br] show ?thesis by simp
  qed
  moreover have "set (ch_mainIDs ?c) \<subseteq> dom (ch_index ?a')" using M(3) idx by auto
  ultimately show ?thesis using run work by (intro exI [of _ fuel] exI [of _ n']) simp
qed

theorem sync_converges_witness:
  "\<exists>server n fuel n'. chain_reach sample_crypto canonicalRegTestParams False (nd_chain server) \<and> bi_height (ch_tip (nd_chain server)) = 1 \<and>
     bi_height (ch_tip (nd_chain n)) = 0 \<and>
     exchange sample_crypto sample_lib (\<lambda>_. 1751738400) server sample_peer sample_peer fuel n [getblocks_Msg (int 1)] = Some (n', None) \<and>
     ch_tip (nd_chain n') = ch_tip (nd_chain server) \<and> ch_utxo (nd_chain n') = ch_utxo (nd_chain server)"
proof -
  let ?K = sample_crypto and ?p = canonicalRegTestParams and ?g = "genesis_index sample_crypto canonicalRegTestParams"
  obtain c where c: "chain_reach ?K ?p False c" "ch_tip c = child_index" "ch_mainIDs c = [bi_id ?g, 1]" by (rule sample_grown)
  obtain a where a0: "chain_init ?K ?p a" using NewChain_sample by blast
  then have a: "chain_reach ?K ?p False a" by (rule reach_init)
  have idx: "ch_index a = [bi_id ?g \<mapsto> ?g]" "ch_tip a = ?g"
    using a0 by (auto simp: chain_init_def NewChain_def bindE_Inr_iff failIf_Inr_iff Let_def genesis_index_def)
  let ?s = "NewNode c ''s'' ''s''" and ?n = "NewNode a ''n'' ''n''"
  have inv: "chain_inv ?K c" "ch_params c = ?p" using c(1) reach_chain_inv reach_params by blast+
  have gen: "ch_index c (bi_id ?g) = Some ?g" using inv by (simp add: chain_inv_def index_inv_def)
  have tip: "ch_index c 1 = Some child_index" using inv(1) c(2) by (simp add: chain_inv_def child_index_def)
  have agree: "x = y" if "ch_index (nd_chain ?n) hid = Some x" "ch_index (nd_chain ?s) hid = Some y" for hid x y
    using that idx(1) gen by (auto simp: NewNode_def split: if_splits)
  have st: "storable ?p h 1751738400 b" if "0 < h" "BlockAt (nd_chain ?s) h = Inr (Some b)" for h b
  proof -
    have "h < int (length (ch_mainIDs c))" using that by (simp add: BlockAt_def NewNode_def split: if_splits)
    then have "h = 1" using that(1) c(3) by simp
    then show ?thesis using that(2) c(3) tip sample_child_storable
      by (simp add: BlockAt_def NewNode_def main_entry_def child_index_def)
  qed
  have heavy: "\<forall>x\<in>ran (ch_index (nd_chain ?n)). bi_cumWork x < bi_cumWork (ch_tip (nd_chain ?s))"
    using idx(1) c(2) by (auto simp: NewNode_def child_index_def WorkFromTarget_def CompactToTarget_def)
  have heights: "bi_height (ch_tip (nd_chain ?s)) = 1" "bi_height (ch_tip (nd_chain ?n)) = 0"
    using c(2) idx(2) by (simp_all add: NewNode_def child_index_def)
  have reach: "chain_reach ?K ?p False (nd_chain ?s)" "chain_reach ?K ?p False (nd_chain ?n)" using c(1) a by (simp_all add: NewNode_def)
  have "1 < length (ch_mainIDs (nd_chain ?s))" "int (length (ch_mainIDs (nd_chain ?s))) < 2 ^ 63" using c(3) by (simp_all add: NewNode_def)
  then obtain fuel n' where "exchange ?K sample_lib (\<lambda>_. 1751738400) ?s sample_peer sample_peer fuel ?n [getblocks_Msg (int 1)] = Some (n', None)"
    "ch_tip (nd_chain n') = ch_tip (nd_chain ?s)" "ch_utxo (nd_chain n') = ch_utxo (nd_chain ?s)"
    using sync_converges [OF reach, of "\<lambda>_. 1751738400" 1 sample_lib sample_peer sample_peer] agree st heavy by fastforce
  then show ?thesis using reach(1) heights by blast
qed

end
