(* ===== verification/Heap.thy ===== *)
theory Heap
  imports Prelude "HOL-Library.Multiset"
begin

text \<open>
  \<^verbatim>\<open>container/heap\<close> of the Go library on a list, as the wallet's candidate selection uses it
  (\<^verbatim>\<open>wallet/wallet.go\<close>: \<^verbatim>\<open>paymentCandidateHeap\<close>): \<open>heap_push\<close> and \<open>heap_pop\<close> with the sift loops
  of the library, over the slice's own \<open>Less\<close>. The locale states what an order has to satisfy; its
  lemmas show that the loops keep the elements and the heap shape, so that the root is extremal.
\<close>

section \<open>Operations\<close>

definition swap :: "'a list \<Rightarrow> nat \<Rightarrow> nat \<Rightarrow> 'a list" where
  "swap h i j = h[i := h ! j, j := h ! i]"

function heap_up :: "('a \<Rightarrow> 'a \<Rightarrow> bool) \<Rightarrow> 'a list \<Rightarrow> nat \<Rightarrow> 'a list" where
  "heap_up lt h j =
     (let i = (j - 1) div 2 in
      if i = j \<or> \<not> lt (h ! j) (h ! i) then h else heap_up lt (swap h i j) i)"
  by pat_completeness auto

termination
  by (relation "measure (\<lambda>(lt, h, j). j)") auto

function heap_down :: "('a \<Rightarrow> 'a \<Rightarrow> bool) \<Rightarrow> 'a list \<Rightarrow> nat \<Rightarrow> nat \<Rightarrow> 'a list" where
  "heap_down lt h i n =
     (let j1 = 2 * i + 1 in
      if j1 \<ge> n then h
      else let j = (if j1 + 1 < n \<and> lt (h ! (j1 + 1)) (h ! j1) then j1 + 1 else j1) in
           if \<not> lt (h ! j) (h ! i) then h else heap_down lt (swap h i j) j n)"
  by pat_completeness auto

termination
  by (relation "measure (\<lambda>(lt, h, i, n). n - i)") auto

declare heap_up.simps [simp del] heap_down.simps [simp del]

definition heap_push :: "('a \<Rightarrow> 'a \<Rightarrow> bool) \<Rightarrow> 'a \<Rightarrow> 'a list \<Rightarrow> 'a list" where
  "heap_push lt x h = heap_up lt (h @ [x]) (length h)"

definition heap_pop :: "('a \<Rightarrow> 'a \<Rightarrow> bool) \<Rightarrow> 'a list \<Rightarrow> 'a \<times> 'a list" where
  "heap_pop lt h =
     (let n = length h - 1; h1 = heap_down lt (swap h 0 n) 0 n in (h1 ! n, take n h1))"

section \<open>Elements\<close>

lemma length_swap [simp]: "length (swap h i j) = length h"
  by (simp add: swap_def)

lemma nth_swap: "i < length h \<Longrightarrow> j < length h \<Longrightarrow> k < length h \<Longrightarrow>
    swap h i j ! k = (if k = i then h ! j else if k = j then h ! i else h ! k)"
  by (simp add: swap_def nth_list_update)

lemma mset_swap_list: "i < length h \<Longrightarrow> j < length h \<Longrightarrow> mset (swap h i j) = mset h"
  unfolding swap_def by (metis mset_swap list_update_swap)

lemma heap_up_elements: "j < length h \<Longrightarrow> mset (heap_up lt h j) = mset h \<and> length (heap_up lt h j) = length h"
proof (induction lt h j rule: heap_up.induct)
  case (1 lt h j)
  let ?i = "(j - 1) div 2"
  show ?case
  proof (cases "?i = j \<or> \<not> lt (h ! j) (h ! ?i)")
    case True
    then show ?thesis by (subst heap_up.simps, subst (2) heap_up.simps) (simp add: Let_def)
  next
    case False
    then have i: "?i < length h" using "1.prems" by linarith
    then have "mset (heap_up lt (swap h ?i j) ?i) = mset h \<and> length (heap_up lt (swap h ?i j) ?i) = length h"
      using "1.IH" [OF refl False] "1.prems" by (simp add: mset_swap_list)
    moreover have "heap_up lt h j = heap_up lt (swap h ?i j) ?i" using False by (subst heap_up.simps) (simp add: Let_def)
    ultimately show ?thesis by simp
  qed
qed

lemma heap_down_elements:
  "n \<le> length h \<Longrightarrow> i < n \<Longrightarrow> mset (heap_down lt h i n) = mset h \<and> length (heap_down lt h i n) = length h \<and>
     (\<forall>k. n \<le> k \<and> k < length h \<longrightarrow> heap_down lt h i n ! k = h ! k)"
proof (induction lt h i n rule: heap_down.induct)
  case (1 lt h i n)
  define j where "j = (if 2 * i + 1 + 1 < n \<and> lt (h ! (2 * i + 1 + 1)) (h ! (2 * i + 1)) then 2 * i + 1 + 1 else 2 * i + 1)"
  show ?case
  proof (cases "2 * i + 1 \<ge> n \<or> \<not> lt (h ! j) (h ! i)")
    case True
    then have "heap_down lt h i n = h" by (subst heap_down.simps) (auto simp: Let_def j_def)
    then show ?thesis by simp
  next
    case False
    then have eq: "heap_down lt h i n = heap_down lt (swap h i j) j n" by (subst heap_down.simps) (auto simp: Let_def j_def)
    have j: "j < n" using False by (auto simp: j_def)
    have "mset (heap_down lt (swap h i j) j n) = mset (swap h i j) \<and> length (heap_down lt (swap h i j) j n) = length (swap h i j) \<and>
        (\<forall>k. n \<le> k \<and> k < length (swap h i j) \<longrightarrow> heap_down lt (swap h i j) j n ! k = swap h i j ! k)"
      using "1.IH" [OF refl _ j_def] False "1.prems" j by simp
    then show ?thesis using eq j "1.prems" by (auto simp: mset_swap_list nth_swap)
  qed
qed

section \<open>Heap order\<close>

text \<open>\<open>lt\<close> puts the element at the root that no other element is lt than.\<close>

locale heap_order =
  fixes lt :: "'a \<Rightarrow> 'a \<Rightarrow> bool"
  assumes asym: "lt x y \<Longrightarrow> \<not> lt y x"
    and trans: "\<not> lt x y \<Longrightarrow> \<not> lt y z \<Longrightarrow> \<not> lt x z"
begin

definition is_heap :: "'a list \<Rightarrow> nat \<Rightarrow> bool" where
  "is_heap h n \<longleftrightarrow> (\<forall>k. 0 < k \<and> k < n \<longrightarrow> \<not> lt (h ! k) (h ! ((k - 1) div 2)))"

lemma root_least: "is_heap h n \<Longrightarrow> k < n \<Longrightarrow> \<not> lt (h ! k) (h ! 0)"
proof (induction k rule: less_induct)
  case (less k)
  show ?case
  proof (cases "k = 0")
    case True
    then show ?thesis using asym by auto
  next
    case False
    then have "(k - 1) div 2 < k" by simp
    then have "\<not> lt (h ! ((k - 1) div 2)) (h ! 0)" using less by simp
    moreover have "\<not> lt (h ! k) (h ! ((k - 1) div 2))" using False less.prems by (auto simp: is_heap_def)
    ultimately show ?thesis using trans by blast
  qed
qed

text \<open>Sifting up: everything but \<open>j\<close> is in place, also around \<open>j\<close>.\<close>

lemma heap_up_heap:
  assumes "j < length h"
    and "\<forall>k. 0 < k \<and> k < length h \<and> k \<noteq> j \<longrightarrow> \<not> lt (h ! k) (h ! ((k - 1) div 2))"
    and "\<forall>k. 0 < k \<and> k < length h \<and> (k - 1) div 2 = j \<and> 0 < j \<longrightarrow> \<not> lt (h ! k) (h ! ((j - 1) div 2))"
  shows "is_heap (heap_up lt h j) (length h)"
  using assms
proof (induction j arbitrary: h rule: less_induct)
  case (less j)
  let ?i = "(j - 1) div 2"
  show ?case
  proof (cases "?i = j \<or> \<not> lt (h ! j) (h ! ?i)")
    case True
    then have "heap_up lt h j = h" by (subst heap_up.simps) (simp add: Let_def)
    moreover have "is_heap h (length h)"
      unfolding is_heap_def
    proof (intro allI impI)
      fix k
      assume k: "0 < k \<and> k < length h"
      show "\<not> lt (h ! k) (h ! ((k - 1) div 2))"
      proof (cases "k = j")
        case True
        then have "?i \<noteq> j" using k by linarith
        then show ?thesis using True \<open>?i = j \<or> \<not> lt (h ! j) (h ! ?i)\<close> by auto
      next
        case False
        then show ?thesis using less.prems(2) k by blast
      qed
    qed
    ultimately show ?thesis by simp
  next
    case False
    then have j: "0 < j" "?i < j" by (cases j; auto)+
    let ?h = "swap h ?i j"
    have len: "?i < length h" "j < length h" using j less.prems(1) by simp_all
    note sw = nth_swap [OF len(1,2)]
    have eq: "heap_up lt h j = heap_up lt ?h ?i" using False by (subst heap_up.simps) (simp add: Let_def)
    have lts: "lt (h ! j) (h ! ?i)" using False by simp
    have a: "\<not> lt (?h ! k) (?h ! ((k - 1) div 2))" if k: "0 < k" "k < length ?h" "k \<noteq> ?i" for k
    proof -
      have par: "(k - 1) div 2 < length h" using k(2) by simp
      have kl: "k < length h" using k(2) by simp
      show ?thesis
      proof (cases "k = j")
        case True
        then show ?thesis using sw [OF kl] sw [OF par] lts asym j by simp
      next
        case False
        have old: "\<not> lt (h ! k) (h ! ((k - 1) div 2))" using less.prems(2) k(1) kl False by blast
        consider "(k - 1) div 2 = ?i" | "(k - 1) div 2 = j" | "(k - 1) div 2 \<noteq> ?i" "(k - 1) div 2 \<noteq> j" by blast
        then show ?thesis
        proof cases
          case 1
          have "\<not> lt (h ! k) (h ! j)" using old lts asym trans 1 by metis
          then show ?thesis using sw [OF kl] sw [OF par] 1 False k(3) by simp
        next
          case 2
          then have "\<not> lt (h ! k) (h ! ?i)" using less.prems(3) k(1) kl j(1) by blast
          then show ?thesis using sw [OF kl] sw [OF par] 2 False k(3) j(2) by simp
        next
          case 3
          then show ?thesis using sw [OF kl] sw [OF par] old False k(3) by simp
        qed
      qed
    qed
    have b: "\<not> lt (?h ! k) (?h ! ((?i - 1) div 2))" if k: "0 < k" "k < length ?h" "(k - 1) div 2 = ?i" "0 < ?i" for k
    proof -
      have kl: "k < length h" using k(2) by simp
      have gp: "(?i - 1) div 2 < length h" "(?i - 1) div 2 \<noteq> ?i" "(?i - 1) div 2 \<noteq> j" using len(1) k(4) j(2) by linarith+
      have up: "\<not> lt (h ! ?i) (h ! ((?i - 1) div 2))" using less.prems(2) k(4) len(1) j(2) by simp
      show ?thesis
      proof (cases "k = j")
        case True
        then show ?thesis using sw [OF kl] sw [OF gp(1)] gp(2,3) up j(2) by simp
      next
        case False
        have "k \<noteq> ?i" using k(3,4) by linarith
        moreover have "\<not> lt (h ! k) (h ! ?i)" using less.prems(2) k(1,3) kl False by metis
        ultimately show ?thesis using sw [OF kl] sw [OF gp(1)] gp(2,3) up trans False by metis
      qed
    qed
    have "is_heap (heap_up lt ?h ?i) (length ?h)"
      using a b len(1) by (intro less.IH [OF j(2)]) auto
    then show ?thesis using eq by simp
  qed
qed

lemma heap_push_heap: "is_heap h (length h) \<Longrightarrow> is_heap (heap_push lt x h) (length (heap_push lt x h))"
proof -
  assume heap: "is_heap h (length h)"
  let ?h = "h @ [x]"
  have "is_heap (heap_up lt ?h (length h)) (length ?h)"
  proof (rule heap_up_heap)
    show "\<forall>k. 0 < k \<and> k < length ?h \<and> k \<noteq> length h \<longrightarrow> \<not> lt (?h ! k) (?h ! ((k - 1) div 2))"
      using heap by (auto simp: is_heap_def nth_append)
  qed auto
  then show ?thesis using heap_up_elements [of "length h" ?h lt] by (simp add: heap_push_def)
qed

text \<open>Sifting down: everything is in place but possibly the children of \<open>i\<close>.\<close>

lemma heap_down_heap:
  assumes "n \<le> length h" and "i < n"
    and "\<forall>k. 0 < k \<and> k < n \<and> (k - 1) div 2 \<noteq> i \<longrightarrow> \<not> lt (h ! k) (h ! ((k - 1) div 2))"
    and "\<forall>k. 0 < k \<and> k < n \<and> (k - 1) div 2 = i \<and> 0 < i \<longrightarrow> \<not> lt (h ! k) (h ! ((i - 1) div 2))"
  shows "is_heap (heap_down lt h i n) n"
  using assms
proof (induction "n - i" arbitrary: i h rule: less_induct)
  case (less i)
  define j where "j = (if 2 * i + 1 + 1 < n \<and> lt (h ! (2 * i + 1 + 1)) (h ! (2 * i + 1)) then 2 * i + 1 + 1 else 2 * i + 1)"
  have kids: "k = 2 * i + 1 \<or> k = 2 * i + 1 + 1" if "(k - 1) div 2 = i" "0 < k" for k using that by linarith
  show ?case
  proof (cases "2 * i + 1 \<ge> n \<or> \<not> lt (h ! j) (h ! i)")
    case True
    then have eq: "heap_down lt h i n = h" by (subst heap_down.simps) (auto simp: Let_def j_def)
    have "\<not> lt (h ! k) (h ! i)" if k: "0 < k" "k < n" "(k - 1) div 2 = i" for k
    proof -
      have top: "\<not> lt (h ! j) (h ! i)" using True kids [OF k(3,1)] k(2) by auto
      have "\<not> lt (h ! k) (h ! j)"
      proof (cases "k = j")
        case True
        then show ?thesis using asym by blast
      next
        case False
        then show ?thesis using kids [OF k(3,1)] k(2) asym by (auto simp: j_def split: if_splits)
      qed
      then show ?thesis using top trans by blast
    qed
    then show ?thesis unfolding eq is_heap_def using less.prems(3) by metis
  next
    case False
    then have eq: "heap_down lt h i n = heap_down lt (swap h i j) j n" by (subst heap_down.simps) (auto simp: Let_def j_def)
    have j: "i < j" "j < n" "(j - 1) div 2 = i" "0 < j" using False by (auto simp: j_def)
    have lts: "lt (h ! j) (h ! i)" using False by simp
    have len: "i < length h" "j < length h" using j less.prems(1) by simp_all
    note sw = nth_swap [OF len(1,2)]
    let ?h = "swap h i j"
    have a: "\<not> lt (?h ! k) (?h ! ((k - 1) div 2))" if k: "0 < k" "k < n" "(k - 1) div 2 \<noteq> j" for k
    proof -
      have kl: "k < length h" "(k - 1) div 2 < length h" using k less.prems(1) by simp_all
      show ?thesis
      proof (cases "(k - 1) div 2 = i")
        case True
        have "\<not> lt (?h ! k) (h ! j)"
        proof (cases "k = j")
          case True
          then show ?thesis using sw [OF kl(1)] lts asym j(1) by simp
        next
          case False
          have "k \<noteq> i" using True k(1) by linarith
          moreover have "\<not> lt (h ! k) (h ! j)"
            using False kids [OF True k(1)] k(2) asym by (auto simp: j_def split: if_splits)
          ultimately show ?thesis using sw [OF kl(1)] False by simp
        qed
        then show ?thesis using sw [OF kl(2)] True by simp
      next
        case False
        show ?thesis
        proof (cases "k = i")
          case True
          have "\<not> lt (h ! j) (h ! ((i - 1) div 2))" using less.prems(4) j True k(1) by blast
          moreover have "(i - 1) div 2 \<noteq> i" using True k(1) by linarith
          ultimately show ?thesis using sw [OF kl(1)] sw [OF kl(2)] True k(3) by simp
        next
          case ki: False
          have "k \<noteq> j" using False j(3) by blast
          then show ?thesis using sw [OF kl(1)] sw [OF kl(2)] ki False k(3) less.prems(3) k(1,2) by simp
        qed
      qed
    qed
    have b: "\<not> lt (?h ! k) (?h ! ((j - 1) div 2))" if k: "0 < k" "k < n" "(k - 1) div 2 = j" for k
    proof -
      have kl: "k < length h" using k less.prems(1) by simp
      have ne: "k \<noteq> j" "k \<noteq> i" using k j(1) by linarith+
      have "\<not> lt (h ! k) (h ! j)" using less.prems(3) k j(1) by (metis less_irrefl_nat)
      then show ?thesis using sw [OF kl] sw [OF len(1)] ne j(3) by simp
    qed
    have "is_heap (heap_down lt ?h j n) n"
      using a b less.prems(1) j by (intro less.hyps) auto
    then show ?thesis using eq by simp
  qed
qed

text \<open>Popping removes the root.\<close>

lemma heap_pop_heap:
  assumes "is_heap h (length h)" and "h \<noteq> []"
  shows "fst (heap_pop lt h) = h ! 0 \<and> add_mset (h ! 0) (mset (snd (heap_pop lt h))) = mset h \<and>
    is_heap (snd (heap_pop lt h)) (length (snd (heap_pop lt h)))"
proof -
  let ?n = "length h - 1"
  let ?s = "swap h 0 ?n"
  have n: "?n < length h" "0 < length h" using assms(2) by simp_all
  define h1 where "h1 = heap_down lt ?s 0 ?n"
  have facts: "mset h1 = mset h \<and> length h1 = length h \<and> h1 ! ?n = h ! 0 \<and> is_heap h1 ?n"
  proof (cases "?n = 0")
    case True
    then have "h1 = ?s" unfolding h1_def by (subst heap_down.simps) (simp add: Let_def)
    moreover have "?s = h" using True n by (simp add: swap_def)
    ultimately show ?thesis using True by (simp add: is_heap_def)
  next
    case False
    have "is_heap (heap_down lt ?s 0 ?n) ?n"
    proof (rule heap_down_heap)
      show "\<forall>k. 0 < k \<and> k < ?n \<and> (k - 1) div 2 \<noteq> 0 \<longrightarrow> \<not> lt (?s ! k) (?s ! ((k - 1) div 2))"
      proof (intro allI impI)
        fix k
        assume k: "0 < k \<and> k < ?n \<and> (k - 1) div 2 \<noteq> 0"
        then have "?s ! k = h ! k" "?s ! ((k - 1) div 2) = h ! ((k - 1) div 2)" using nth_swap [OF n(2,1), of k] nth_swap [OF n(2,1), of "(k - 1) div 2"] by auto
        moreover have "\<not> lt (h ! k) (h ! ((k - 1) div 2))" using assms(1) k unfolding is_heap_def by (meson less_imp_diff_less less_trans n(1))
        ultimately show "\<not> lt (?s ! k) (?s ! ((k - 1) div 2))" by simp
      qed
    qed (use False in auto)
    then show ?thesis
      using heap_down_elements [of ?n ?s 0 lt] False n by (simp add: h1_def mset_swap_list nth_swap)
  qed
  have split: "h1 = take ?n h1 @ [h1 ! ?n]" using facts n by (metis Suc_diff_1 take_Suc_conv_app_nth take_all_iff order_refl)
  then have "mset h1 = add_mset (h1 ! ?n) (mset (take ?n h1))" by (metis mset_append mset.simps union_mset_add_mset_right add.right_neutral)
  moreover have "is_heap (take ?n h1) (length (take ?n h1))"
    using facts by (auto simp: is_heap_def)
  moreover have "heap_pop lt h = (h1 ! ?n, take ?n h1)" by (simp add: heap_pop_def Let_def h1_def)
  ultimately show ?thesis using facts by simp
qed

end

end
