(* ===== verification/Payment.thy ===== *)
theory Payment
  imports Heap WalletTheorems Hex Pplns
begin

text \<open>
  Offline payment preparation of \<^verbatim>\<open>wallet/wallet.go\<close> and \<^verbatim>\<open>wallet/maximum.go\<close>: the wallet snapshot taken
  from the local chain or from an untrusted light-wallet gateway, its canonical hash, coin
  selection through a bounded heap, change, signing, and the exact-tip preparation calls. The keys
  a call works on are an argument: what \<^verbatim>\<open>withKeys\<close> read from the wallet file, or its error. The chain is
  an argument once for each time a call reads it. The set of excluded outpoints is a finite set.
\<close>

section \<open>Constants and records\<close>

definition wallet_SchemaVersion :: int where "wallet_SchemaVersion = 1"
definition MaxRestrictedOutpoints :: nat where "MaxRestrictedOutpoints = 4096"
definition MaxWalletKeys :: nat where "MaxWalletKeys = 10000"
definition MaxPaymentCandidates :: nat where "MaxPaymentCandidates = 10000"
definition MaxPaymentInputs :: nat where "MaxPaymentInputs = 10000"
definition MaxSignedTxBytes :: nat where "MaxSignedTxBytes = 10000"
definition MaxSnapshotOutpoints :: nat where "MaxSnapshotOutpoints = 10000"

type_synonym privkey = "byte list"

record PreparedPayment =
  pp_Tx :: Tx
  pp_SelectedOutpoints :: "OutPoint list"

record paymentCandidate =
  pcd_op :: OutPoint
  pcd_amount :: int
  pcd_key :: nat

record SnapshotOutpoint =
  sp_Outpoint :: string
  sp_AmountUnits :: int
  sp_Address :: address
  sp_OutpointRef :: OutPoint
  sp_TxID :: Hash32
  sp_Vout :: uint32
  sp_OwnerPKH :: PKH
  sp_OwnerAddressIndex :: uint32
  sp_KeyIndex :: int

record Snapshot =
  sn_SchemaVersion :: int
  sn_Network :: string
  sn_Tip :: ChainTipSnapshot
  sn_PrimaryAddress :: address
  sn_Addresses :: "address list"
  sn_Outpoints :: "SnapshotOutpoint list"
  sn_SpendableUnits :: int
  sn_WalletSnapshotHash :: string

record RemoteSnapshotOutpoint =
  ro_TxID :: Hash32
  ro_Vout :: uint32
  ro_AmountUnits :: int
  ro_Address :: address

record RemoteSnapshot =
  rs_Network :: string
  rs_Tip :: ChainTipSnapshot
  rs_Addresses :: "address list"
  rs_Outpoints :: "RemoteSnapshotOutpoint list"
  rs_SpendableUnits :: int

definition pkhForKey :: "crypto \<Rightarrow> privkey \<Rightarrow> PKH" where
  "pkhForKey K key = PubKeyHash20 K (ed_public K key)"

definition addressForKey :: "crypto \<Rightarrow> privkey \<Rightarrow> address" where
  "addressForKey K key = EncodeAddress K (PubKeyHash20 K (ed_public K key))"

section \<open>Requests\<close>

definition validatePaymentValues :: "crypto \<Rightarrow> address \<Rightarrow> int \<Rightarrow> int \<Rightarrow> OutPoint set \<Rightarrow> PKH res" where
  "validatePaymentValues K toAddr amount fee excluded =
     failIf (amount \<le> 0 \<or> \<not> MoneyRange amount \<or> fee < 0 \<or> \<not> MoneyRange fee \<or> amount > wrap64 (MaxMoneyUnits - fee))
       (Err ''amount or fee out of range'')
     (failIf (card excluded > MaxRestrictedOutpoints) (Err ''too many restricted outpoints'')
     (case DecodeAddress K toAddr of Inl _ \<Rightarrow> Inl (Err ''bad destination address'')
      | Inr toPKH \<Rightarrow> failIf (EncodeAddress K toPKH \<noteq> toAddr) (Err ''bad destination address'') (Inr toPKH)))"

definition validatePaymentRequest :: "crypto \<Rightarrow> Chain option \<Rightarrow> address \<Rightarrow> int \<Rightarrow> int \<Rightarrow> OutPoint set \<Rightarrow> PKH res" where
  "validatePaymentRequest K c toAddr amount fee excluded =
     failIf (c = None) (Err ''nil chain'') (validatePaymentValues K toAddr amount fee excluded)"

definition rejectOwnedDestination :: "crypto \<Rightarrow> privkey list \<Rightarrow> PKH \<Rightarrow> unit res" where
  "rejectOwnedDestination K keys destination =
     failIf (list_ex (\<lambda>key. pkhForKey K key = destination) keys) (Err ''destination is owned by this wallet'') (Inr ())"

section \<open>Coin selection\<close>

definition paymentCandidateBetter :: "paymentCandidate \<Rightarrow> paymentCandidate \<Rightarrow> bool" where
  "paymentCandidateBetter left right =
     (if pcd_amount left \<noteq> pcd_amount right then pcd_amount left > pcd_amount right
      else if op_TxID (pcd_op left) \<noteq> op_TxID (pcd_op right) then op_TxID (pcd_op left) < op_TxID (pcd_op right)
      else op_Idx (pcd_op left) < op_Idx (pcd_op right))"

text \<open>\<open>Less\<close> of the candidate heap: the worst candidate is at the root.\<close>

definition candidate_Less :: "paymentCandidate \<Rightarrow> paymentCandidate \<Rightarrow> bool" where
  "candidate_Less x y = paymentCandidateBetter y x"

text \<open>The order of the final sort.\<close>

definition candidate_rank :: "paymentCandidate \<Rightarrow> int \<times> OutPoint" where
  "candidate_rank x = (- pcd_amount x, pcd_op x)"

definition candidate_of :: "crypto \<Rightarrow> privkey list \<Rightarrow> SnapshotOutpoint \<Rightarrow> paymentCandidate res" where
  "candidate_of K keys output =
     failIf (sp_KeyIndex output < 0 \<or> sp_KeyIndex output \<ge> int (length keys) \<or>
         pkhForKey K (keys ! nat (sp_KeyIndex output)) \<noteq> sp_OwnerPKH output)
       (Err ''snapshot owner does not match signing key'')
     (failIf (sp_AmountUnits output \<le> 0 \<or> \<not> MoneyRange (sp_AmountUnits output)) (Err ''snapshot candidate amount out of range'')
     (Inr \<lparr>pcd_op = sp_OutpointRef output, pcd_amount = sp_AmountUnits output, pcd_key = nat (sp_KeyIndex output)\<rparr>))"

definition keep_candidate :: "nat \<Rightarrow> paymentCandidate list \<Rightarrow> paymentCandidate \<Rightarrow> paymentCandidate list" where
  "keep_candidate limit candidateHeap candidate =
     (if length candidateHeap < limit then heap_push candidate_Less candidate candidateHeap
      else if paymentCandidateBetter candidate (candidateHeap ! 0)
      then heap_push candidate_Less candidate (snd (heap_pop candidate_Less candidateHeap))
      else candidateHeap)"

definition add_candidate ::
  "crypto \<Rightarrow> privkey list \<Rightarrow> OutPoint set \<Rightarrow> paymentCandidate list \<Rightarrow> SnapshotOutpoint \<Rightarrow> paymentCandidate list res"
where
  "add_candidate K keys excluded candidateHeap output =
     (if sp_OutpointRef output \<in> excluded then Inr candidateHeap
      else bindE (candidate_of K keys output) (\<lambda>candidate. Inr (keep_candidate MaxPaymentCandidates candidateHeap candidate)))"

fun select_inputs :: "int \<Rightarrow> paymentCandidate list \<Rightarrow> paymentCandidate list \<Rightarrow> int \<Rightarrow> (paymentCandidate list \<times> int) res" where
  "select_inputs need [] selected acc = Inr (selected, acc)"
| "select_inputs need (candidate # rest) selected acc =
     failIf (length selected \<ge> MaxPaymentInputs) (Err ''payment input count limit exceeded'')
     (failIf (\<not> MoneyRange (pcd_amount candidate) \<or> acc > wrap64 (MaxMoneyUnits - pcd_amount candidate)) (Err ''input sum out of range'')
     (let acc' = wrap64 (acc + pcd_amount candidate); selected' = selected @ [candidate] in
      if acc' \<ge> need then Inr (selected', acc') else select_inputs need rest selected' acc'))"

definition payment_outputs :: "crypto \<Rightarrow> privkey list \<Rightarrow> PKH \<Rightarrow> int \<Rightarrow> int \<Rightarrow> TxOut list" where
  "payment_outputs K keys toPKH amount change =
     \<lparr>out_Value = amount, out_PubKeyHash = toPKH\<rparr> #
     (if change > 0 then [\<lparr>out_Value = change, out_PubKeyHash = pkhForKey K (keys ! 0)\<rparr>] else [])"

definition buildPaymentFromSnapshot ::
  "crypto \<Rightarrow> privkey list \<Rightarrow> Snapshot \<Rightarrow> PKH \<Rightarrow> int \<Rightarrow> int \<Rightarrow> OutPoint set \<Rightarrow> PreparedPayment res"
where
  "buildPaymentFromSnapshot K keys snapshot toPKH amount fee excluded =
     bindE (foldE (add_candidate K keys excluded) [] (sn_Outpoints snapshot)) (\<lambda>candidateHeap.
     let candidates = sort_key candidate_rank candidateHeap; need = wrap64 (amount + fee) in
     bindE (select_inputs need candidates [] 0) (\<lambda>(selected, acc).
     failIf (acc < need) (Err ''insufficient eligible funds'')
     (let tx = \<lparr>tx_Version = 1, tx_Ins = map (\<lambda>candidate. \<lparr>in_Prev = pcd_op candidate, in_PubKey = [], in_Sig = []\<rparr>) selected,
                tx_Outs = payment_outputs K keys toPKH amount (wrap64 (acc - need)), tx_LockTag = []\<rparr> in
      bindE (Sign K (map (\<lambda>candidate. keys ! pcd_key candidate) selected) tx) (\<lambda>signed.
      failIf (length (tx_Bytes signed) > MaxSignedTxBytes) (Err ''signed transaction exceeds 10,000-byte limit'')
      (Inr \<lparr>pp_Tx = signed, pp_SelectedOutpoints = map pcd_op selected\<rparr>)))))"

section \<open>Snapshots\<close>

definition addSpendable :: "int \<Rightarrow> int \<Rightarrow> int res" where
  "addSpendable acc amount =
     failIf (\<not> MoneyRange acc \<or> \<not> MoneyRange amount \<or> acc > wrap64 (MaxMoneyUnits - amount)) (Err ''spendable amount overflow'')
     (Inr (wrap64 (acc + amount)))"

definition isASCII :: "rune list \<Rightarrow> bool" where
  "isASCII value = list_all (\<lambda>c. c \<le> 0x7f) value"

definition ascii_bytes :: "rune list \<Rightarrow> byte list" where
  "ascii_bytes value = map of_nat value"

definition outpoint_text :: "Hash32 \<Rightarrow> uint32 \<Rightarrow> string" where
  "outpoint_text txid vout = hex_EncodeToString (hash_bytes txid) @ '':'' @ decimal (unat vout)"

definition preimage_address :: "address \<Rightarrow> byte list \<times> address option \<times> nat \<Rightarrow> address \<Rightarrow> (byte list \<times> address option \<times> nat) res" where
  "preimage_address primary st address =
     (case st of (buf, previous, primaryCount) \<Rightarrow>
      failIf (address = [] \<or> length address > 0xffff \<or> \<not> isASCII address \<or>
          (case previous of None \<Rightarrow> False | Some prev \<Rightarrow> prev \<ge> address))
        (Err ''wallet snapshot address is noncanonical'')
      (Inr (buf @ be_bytes 2 (length address) @ ascii_bytes address, Some address,
            if address = primary then Suc primaryCount else primaryCount)))"

definition preimage_output ::
  "address list \<Rightarrow> byte list \<times> OutPoint option \<Rightarrow> SnapshotOutpoint \<Rightarrow> (byte list \<times> OutPoint option) res"
where
  "preimage_output addresses st output =
     (case st of (buf, previous) \<Rightarrow>
      failIf (sp_OutpointRef output \<noteq> OutPoint (sp_TxID output) (sp_Vout output) \<or>
          sp_Outpoint output \<noteq> outpoint_text (sp_TxID output) (sp_Vout output) \<or>
          \<not> MoneyRange (sp_AmountUnits output) \<or> sp_AmountUnits output \<le> 0 \<or>
          unat (sp_OwnerAddressIndex output) \<ge> length addresses \<or>
          sp_Address output \<noteq> addresses ! unat (sp_OwnerAddressIndex output))
        (Err ''wallet snapshot outpoint is noncanonical'')
      (failIf (case previous of None \<Rightarrow> False
               | Some prev \<Rightarrow> op_TxID prev > sp_TxID output \<or> (op_TxID prev = sp_TxID output \<and> op_Idx prev \<ge> sp_Vout output))
        (Err ''wallet snapshot outpoints are not strictly sorted'')
      (Inr (buf @ hash_bytes (sp_TxID output) @ be_bytes 4 (unat (sp_Vout output)) @ be_bytes 8 (u64_of (sp_AmountUnits output)) @
              be_bytes 4 (unat (sp_OwnerAddressIndex output)),
            Some (sp_OutpointRef output)))))"

text \<open>The network is one of two ASCII constants after the first test, so the source's ASCII test of it always passes.\<close>

definition snapshotHashPreimage :: "Snapshot \<Rightarrow> byte list res" where
  "snapshotHashPreimage s =
     failIf (ts_Height (sn_Tip s) < 0 \<or> ts_Network (sn_Tip s) \<noteq> sn_Network s \<or>
         (sn_Network s \<noteq> MainNetMachineID \<and> sn_Network s \<noteq> RegTestMachineID) \<or> length (sn_Network s) > 0xffff \<or>
         sn_PrimaryAddress s = [] \<or> length (sn_PrimaryAddress s) > 0xffff \<or> \<not> isASCII (sn_PrimaryAddress s) \<or>
         length (sn_Addresses s) > 0xffffffff \<or> length (sn_Outpoints s) > 0xffffffff)
       (Err ''wallet snapshot hash field out of range'')
     (let buf = string_bytes ''btc09-wallet-snapshot-v2'' @ [0] @ be_bytes 2 (length (sn_Network s)) @ string_bytes (sn_Network s) @
            hash_bytes (ts_Hash (sn_Tip s)) @ be_bytes 8 (u64_of (ts_Height (sn_Tip s))) @
            be_bytes 2 (length (sn_PrimaryAddress s)) @ ascii_bytes (sn_PrimaryAddress s) @ be_bytes 4 (length (sn_Addresses s)) in
      bindE (foldE (preimage_address (sn_PrimaryAddress s)) (buf, None, 0) (sn_Addresses s)) (\<lambda>(buf1, _, primaryCount).
      failIf (primaryCount \<noteq> 1) (Err ''wallet snapshot primary address is noncanonical'')
      (bindE (foldE (preimage_output (sn_Addresses s)) (buf1 @ be_bytes 4 (length (sn_Outpoints s)), None) (sn_Outpoints s)) (\<lambda>(buf2, _).
       Inr buf2))))"

definition hashSnapshot :: "crypto \<Rightarrow> Snapshot \<Rightarrow> string res" where
  "hashSnapshot K s = bindE (snapshotHashPreimage s) (\<lambda>preimage. Inr (hex_EncodeToString (hash_bytes (sha256 K preimage))))"

definition address_index :: "address list \<Rightarrow> address \<Rightarrow> uint32 option" where
  "address_index addresses = map_of (rev (zip addresses (map of_nat [0..<length addresses])))"

definition local_output ::
  "privkey list \<Rightarrow> PKH list \<Rightarrow> address list \<Rightarrow> address list \<Rightarrow> OutPoint set \<times> Snapshot \<Rightarrow> SpendableOutputSnapshot \<Rightarrow>
     (OutPoint set \<times> Snapshot) res"
where
  "local_output keys pkhs keyAddresses addresses st output =
     (case st of (seen, snapshot) \<Rightarrow>
      let owner = unat (so_OwnerIndex output) in
      failIf (owner \<ge> length keys \<or> so_OwnerPKH output \<noteq> pkhs ! owner) (Err ''invalid snapshot owner index'')
      (failIf (so_OutPoint output \<in> seen) (Err ''duplicate wallet outpoint'')
      (let ownerAddress = keyAddresses ! owner in
       case address_index addresses ownerAddress of None \<Rightarrow> Inl (Err ''snapshot owner address is missing'')
       | Some ownerAddressIndex \<Rightarrow>
           bindE (addSpendable (sn_SpendableUnits snapshot) (so_AmountUnits output)) (\<lambda>spendable.
           Inr (insert (so_OutPoint output) seen,
                snapshot\<lparr>sn_SpendableUnits := spendable,
                  sn_Outpoints := sn_Outpoints snapshot @
                    [\<lparr>sp_Outpoint = outpoint_text (op_TxID (so_OutPoint output)) (op_Idx (so_OutPoint output)),
                      sp_AmountUnits = so_AmountUnits output, sp_Address = ownerAddress, sp_OutpointRef = so_OutPoint output,
                      sp_TxID = op_TxID (so_OutPoint output), sp_Vout = op_Idx (so_OutPoint output),
                      sp_OwnerPKH = so_OwnerPKH output, sp_OwnerAddressIndex = ownerAddressIndex,
                      sp_KeyIndex = int owner\<rparr>]\<rparr>)))))"

definition adjacent_equal :: "'a list \<Rightarrow> bool" where
  "adjacent_equal xs = list_ex (\<lambda>(a, b). a = b) (zip xs (tl xs))"

definition snapshotWithKeys ::
  "crypto \<Rightarrow> Chain \<Rightarrow> string \<Rightarrow> ChainTipSnapshot \<Rightarrow> privkey list \<Rightarrow> Snapshot res"
where
  "snapshotWithKeys K c network expected keys =
     failIf (keys = []) (Err ''wallet has no primary address'')
     (let pkhs = map (pkhForKey K) keys; keyAddresses = map (addressForKey K) keys in
      bindE (SpendableOutputsForPKHs K c pkhs) (\<lambda>chainSnapshot.
      failIf (\<not> ss_Complete chainSnapshot \<or> ss_Tip chainSnapshot \<noteq> expected \<or> ss_Network chainSnapshot \<noteq> network)
        (Err ''chain tip or network mismatch'')
      (let addresses = sort keyAddresses;
           snapshot = \<lparr>sn_SchemaVersion = wallet_SchemaVersion, sn_Network = network, sn_Tip = expected,
             sn_PrimaryAddress = keyAddresses ! 0, sn_Addresses = addresses, sn_Outpoints = [], sn_SpendableUnits = 0,
             sn_WalletSnapshotHash = []\<rparr>
       in failIf (adjacent_equal addresses) (Err ''duplicate wallet address'')
          (failIf (sn_PrimaryAddress snapshot = []) (Err ''wallet primary address is empty'')
          (failIf (address_index addresses (sn_PrimaryAddress snapshot) = None) (Err ''wallet primary address is missing'')
          (bindE (foldE (local_output keys pkhs keyAddresses addresses) ({}, snapshot) (ss_Outputs chainSnapshot)) (\<lambda>(_, snapshot').
           bindE (hashSnapshot K snapshot') (\<lambda>hash.
           Inr (snapshot'\<lparr>sn_WalletSnapshotHash := hash\<rparr>)))))))))"

definition remote_output ::
  "crypto \<Rightarrow> privkey list \<Rightarrow> address list \<Rightarrow> address list \<Rightarrow> int \<times> OutPoint option \<times> SnapshotOutpoint list \<Rightarrow> RemoteSnapshotOutpoint \<Rightarrow>
     (int \<times> OutPoint option \<times> SnapshotOutpoint list) res"
where
  "remote_output K keys keyAddresses sortedAddresses st output =
     (case st of (acc, previous, outpoints) \<Rightarrow>
      case (map_of (zip keyAddresses [0..<length keys]) (ro_Address output), address_index sortedAddresses (ro_Address output),
            DecodeAddress K (ro_Address output)) of
        (Some keyIndex, Some ownerAddressIndex, Inr ownerPKH) \<Rightarrow>
          failIf (EncodeAddress K ownerPKH \<noteq> ro_Address output \<or> pkhForKey K (keys ! keyIndex) \<noteq> ownerPKH \<or>
              ro_AmountUnits output \<le> 0 \<or> \<not> MoneyRange (ro_AmountUnits output))
            (Err ''remote wallet snapshot contains an invalid output'')
          (failIf (case previous of None \<Rightarrow> False
                   | Some prev \<Rightarrow> op_TxID prev > ro_TxID output \<or> (op_TxID prev = ro_TxID output \<and> op_Idx prev \<ge> ro_Vout output))
            (Err ''remote wallet snapshot outpoints are not strictly sorted'')
          (failIf (acc > wrap64 (MaxMoneyUnits - ro_AmountUnits output)) (Err ''remote wallet snapshot amount overflow'')
          (Inr (wrap64 (acc + ro_AmountUnits output), Some (OutPoint (ro_TxID output) (ro_Vout output)),
                outpoints @ [\<lparr>sp_Outpoint = outpoint_text (ro_TxID output) (ro_Vout output), sp_AmountUnits = ro_AmountUnits output,
                  sp_Address = ro_Address output, sp_OutpointRef = OutPoint (ro_TxID output) (ro_Vout output), sp_TxID = ro_TxID output,
                  sp_Vout = ro_Vout output, sp_OwnerPKH = ownerPKH, sp_OwnerAddressIndex = ownerAddressIndex,
                  sp_KeyIndex = int keyIndex\<rparr>]))))
      | _ \<Rightarrow> Inl (Err ''remote wallet snapshot contains an invalid output''))"

definition snapshotFromRemoteWithKeys :: "crypto \<Rightarrow> string \<Rightarrow> RemoteSnapshot \<Rightarrow> privkey list \<Rightarrow> Snapshot res" where
  "snapshotFromRemoteWithKeys K network remote keys =
     failIf (keys = [] \<or> length keys > MaxWalletKeys \<or> rs_Network remote \<noteq> network \<or> ts_Network (rs_Tip remote) \<noteq> network \<or>
         ts_Height (rs_Tip remote) < 0 \<or> length (rs_Addresses remote) \<noteq> length keys \<or>
         length (rs_Outpoints remote) > MaxSnapshotOutpoints \<or> \<not> MoneyRange (rs_SpendableUnits remote))
       (Err ''remote wallet snapshot identity is inconsistent'')
     (let keyAddresses = map (addressForKey K) keys; sortedAddresses = sort keyAddresses in
      failIf (\<not> distinct keyAddresses) (Err ''wallet contains duplicate keys'')
      (failIf (rs_Addresses remote \<noteq> sortedAddresses) (Err ''remote wallet snapshot address set changed'')
      (bindE (foldE (remote_output K keys keyAddresses sortedAddresses) (0, None, []) (rs_Outpoints remote)) (\<lambda>(acc, _, outpoints).
       failIf (acc \<noteq> rs_SpendableUnits remote) (Err ''remote wallet snapshot spendable total is inconsistent'')
       (let snapshot = \<lparr>sn_SchemaVersion = wallet_SchemaVersion, sn_Network = network, sn_Tip = rs_Tip remote,
              sn_PrimaryAddress = keyAddresses ! 0, sn_Addresses = sortedAddresses, sn_Outpoints = outpoints,
              sn_SpendableUnits = acc, sn_WalletSnapshotHash = []\<rparr> in
        bindE (hashSnapshot K snapshot) (\<lambda>hash.
        Inr (snapshot\<lparr>sn_WalletSnapshotHash := hash\<rparr>)))))))"

definition anchoredOutpoints :: "Snapshot \<Rightarrow> OutPoint set" where
  "anchoredOutpoints snapshot = set (map sp_OutpointRef (sn_Outpoints snapshot))"

definition validateSelectedAnchored :: "OutPoint list \<Rightarrow> OutPoint set \<Rightarrow> unit res" where
  "validateSelectedAnchored selected allowed =
     failIf (list_ex (\<lambda>outpoint. outpoint \<notin> allowed) selected) (Err ''selected outpoint is not in anchored wallet snapshot'') (Inr ())"

section \<open>Wallet calls\<close>

definition BalanceE :: "crypto \<Rightarrow> string \<Rightarrow> Chain option \<Rightarrow> privkey list res \<Rightarrow> int res" where
  "BalanceE K network c keys =
     (case c of None \<Rightarrow> Inl (Err ''nil balance chain'')
      | Some chain \<Rightarrow>
          bindE keys (\<lambda>keys.
          let pkhs = map (pkhForKey K) keys in
          failIf (0 \<in> set pkhs) (Err ''wallet PKH is all zero'')
          (bindE (SpendableOutputsForPKHs K chain pkhs) (\<lambda>snapshot.
           failIf (\<not> ss_Complete snapshot \<or> ss_Network snapshot \<noteq> network \<or> ts_Network (ss_Tip snapshot) \<noteq> network)
             (Err ''balance chain network mismatch'')
           (foldE (\<lambda>balance output. addSpendable balance (so_AmountUnits output)) 0 (ss_Outputs snapshot))))))"

definition BuildPayment ::
  "crypto \<Rightarrow> string \<Rightarrow> Chain option \<Rightarrow> Chain \<Rightarrow> privkey list res \<Rightarrow> address \<Rightarrow> int \<Rightarrow> int \<Rightarrow> OutPoint set \<Rightarrow> PreparedPayment res"
where
  "BuildPayment K network c c' keys toAddr amount fee excluded =
     bindE (validatePaymentRequest K c toAddr amount fee excluded) (\<lambda>toPKH.
     bindE keys (\<lambda>keys.
     bindE (deref c) (\<lambda>chain.
     bindE (canonicalTipSnapshotLocked K chain) (\<lambda>tip.
     bindE (snapshotWithKeys K c' network tip keys) (\<lambda>snapshot.
     buildPaymentFromSnapshot K keys snapshot toPKH amount fee excluded)))))"

definition SnapshotAt :: "crypto \<Rightarrow> string \<Rightarrow> Chain option \<Rightarrow> privkey list res \<Rightarrow> ChainTipSnapshot \<Rightarrow> Snapshot res" where
  "SnapshotAt K network c keys expected =
     (case c of None \<Rightarrow> Inl (Err ''nil chain'') | Some chain \<Rightarrow> bindE keys (snapshotWithKeys K chain network expected))"

definition tip_unchanged :: "crypto \<Rightarrow> Chain \<Rightarrow> ChainTipSnapshot \<Rightarrow> unit res" where
  "tip_unchanged K c expected =
     failIf (canonicalTipSnapshotLocked K c \<noteq> Inr expected) (Err ''chain tip changed during wallet preparation'') (Inr ())"

definition PrepareAt ::
  "crypto \<Rightarrow> string \<Rightarrow> Chain option \<Rightarrow> Chain \<Rightarrow> privkey list res \<Rightarrow> ChainTipSnapshot \<Rightarrow> address \<Rightarrow> int \<Rightarrow> int \<Rightarrow> OutPoint set \<Rightarrow>
     (Snapshot \<times> PreparedPayment) res"
where
  "PrepareAt K network c c' keys expected toAddr amount fee excluded =
     bindE (validatePaymentRequest K c toAddr amount fee excluded) (\<lambda>toPKH.
     bindE keys (\<lambda>keys.
     bindE (rejectOwnedDestination K keys toPKH) (\<lambda>_.
     bindE (deref c) (\<lambda>chain.
     bindE (snapshotWithKeys K chain network expected keys) (\<lambda>snapshot.
     bindE (buildPaymentFromSnapshot K keys snapshot toPKH amount fee excluded) (\<lambda>prepared.
     bindE (validateSelectedAnchored (pp_SelectedOutpoints prepared) (anchoredOutpoints snapshot)) (\<lambda>_.
     bindE (tip_unchanged K c' expected) (\<lambda>_.
     Inr (snapshot, prepared)))))))))"

definition ValidateRemoteSnapshot :: "crypto \<Rightarrow> string \<Rightarrow> privkey list res \<Rightarrow> RemoteSnapshot \<Rightarrow> Snapshot res" where
  "ValidateRemoteSnapshot K network keys remote = bindE keys (snapshotFromRemoteWithKeys K network remote)"

definition PrepareFromRemoteSnapshot ::
  "crypto \<Rightarrow> string \<Rightarrow> privkey list res \<Rightarrow> RemoteSnapshot \<Rightarrow> address \<Rightarrow> int \<Rightarrow> int \<Rightarrow> OutPoint set \<Rightarrow> (Snapshot \<times> PreparedPayment) res"
where
  "PrepareFromRemoteSnapshot K network keys remote toAddr amount fee excluded =
     bindE (validatePaymentValues K toAddr amount fee excluded) (\<lambda>toPKH.
     bindE keys (\<lambda>keys.
     bindE (rejectOwnedDestination K keys toPKH) (\<lambda>_.
     bindE (snapshotFromRemoteWithKeys K network remote keys) (\<lambda>snapshot.
     bindE (buildPaymentFromSnapshot K keys snapshot toPKH amount fee excluded) (\<lambda>prepared.
     bindE (validateSelectedAnchored (pp_SelectedOutpoints prepared) (anchoredOutpoints snapshot)) (\<lambda>_.
     Inr (snapshot, prepared)))))))"

definition SubmitPayment :: "crypto \<Rightarrow> Chain option \<Rightarrow> Tx option \<Rightarrow> Chain option \<times> TxAcceptanceResult res" where
  "SubmitPayment K c tx =
     (case (c, tx) of
        (Some chain, Some t) \<Rightarrow> (case AcceptTxWithResult K chain (Some t) of (chain', r) \<Rightarrow> (Some chain', r))
      | _ \<Rightarrow> (c, Inl (Err ''nil chain or transaction'')))"

definition Send ::
  "crypto \<Rightarrow> string \<Rightarrow> Chain \<Rightarrow> privkey list res \<Rightarrow> address \<Rightarrow> int \<Rightarrow> int \<Rightarrow> Chain \<times> Tx res"
where
  "Send K network c keys toAddr amount fee =
     (case BuildPayment K network (Some c) c keys toAddr amount fee {} of
        Inl e \<Rightarrow> (c, Inl e)
      | Inr prepared \<Rightarrow>
          (case AcceptTxWithResult K c (Some (pp_Tx prepared)) of
             (c', Inl e) \<Rightarrow> (c', Inl e)
           | (c', Inr _) \<Rightarrow> (c', Inr (pp_Tx prepared))))"

section \<open>Maximum sends\<close>

definition validateMaximumValues :: "crypto \<Rightarrow> address \<Rightarrow> int \<Rightarrow> OutPoint set \<Rightarrow> PKH res" where
  "validateMaximumValues K toAddress fee excluded =
     failIf (fee < 0 \<or> \<not> MoneyRange fee) (Err ''maximum send fee out of range'')
     (failIf (card excluded > MaxRestrictedOutpoints) (Err ''too many restricted outpoints'')
     (case DecodeAddress K toAddress of Inl _ \<Rightarrow> Inl (Err ''bad destination address'')
      | Inr destination \<Rightarrow> failIf (EncodeAddress K destination \<noteq> toAddress) (Err ''bad destination address'') (Inr destination)))"

definition owned_by_key :: "crypto \<Rightarrow> privkey list \<Rightarrow> SnapshotOutpoint \<Rightarrow> bool" where
  "owned_by_key K keys output \<longleftrightarrow>
     0 \<le> sp_KeyIndex output \<and> sp_KeyIndex output < int (length keys) \<and> 0 < sp_AmountUnits output \<and> MoneyRange (sp_AmountUnits output) \<and>
     pkhForKey K (keys ! nat (sp_KeyIndex output)) = sp_OwnerPKH output \<and>
     addressForKey K (keys ! nat (sp_KeyIndex output)) = sp_Address output"

definition maximum_output ::
  "crypto \<Rightarrow> privkey list \<Rightarrow> OutPoint set \<Rightarrow> OutPoint set \<times> int \<times> int \<times> nat \<Rightarrow> SnapshotOutpoint \<Rightarrow> (OutPoint set \<times> int \<times> int \<times> nat) res"
where
  "maximum_output K keys excluded st output =
     (case st of (seen, snapshotTotal, eligibleTotal, eligibleCount) \<Rightarrow>
      failIf (sp_OutpointRef output \<noteq> OutPoint (sp_TxID output) (sp_Vout output)) (Err ''maximum-send snapshot outpoint is inconsistent'')
      (failIf (sp_OutpointRef output \<in> seen) (Err ''maximum-send snapshot contains a duplicate outpoint'')
      (failIf (\<not> owned_by_key K keys output) (Err ''maximum-send snapshot owner does not match signing key'')
      (bindE (addSpendable snapshotTotal (sp_AmountUnits output)) (\<lambda>snapshotTotal'.
       if sp_OutpointRef output \<in> excluded
       then Inr (insert (sp_OutpointRef output) seen, snapshotTotal', eligibleTotal, eligibleCount)
       else bindE (addSpendable eligibleTotal (sp_AmountUnits output)) (\<lambda>eligibleTotal'.
         Inr (insert (sp_OutpointRef output) seen, snapshotTotal', eligibleTotal', Suc eligibleCount)))))))"

definition buildMaximumFromSnapshot ::
  "crypto \<Rightarrow> privkey list \<Rightarrow> Snapshot \<Rightarrow> PKH \<Rightarrow> int \<Rightarrow> OutPoint set \<Rightarrow> PreparedPayment res"
where
  "buildMaximumFromSnapshot K keys snapshot destination fee excluded =
     failIf (fee < 0 \<or> \<not> MoneyRange fee \<or> card excluded > MaxRestrictedOutpoints \<or> keys = [] \<or> length keys > MaxWalletKeys \<or>
         length (sn_Outpoints snapshot) > MaxSnapshotOutpoints \<or> \<not> MoneyRange (sn_SpendableUnits snapshot))
       (Err ''maximum-send snapshot identity is inconsistent'')
     (bindE (foldE (maximum_output K keys excluded) ({}, 0, 0, 0) (sn_Outpoints snapshot)) (\<lambda>(_, snapshotTotal, eligibleTotal, eligibleCount).
      failIf (snapshotTotal \<noteq> sn_SpendableUnits snapshot) (Err ''maximum-send snapshot spendable total is inconsistent'')
      (failIf (eligibleTotal \<le> fee) (Err ''insufficient eligible funds for maximum send'')
      (let amount = wrap64 (eligibleTotal - fee) in
       bindE (buildPaymentFromSnapshot K keys snapshot destination amount fee excluded) (\<lambda>prepared.
       failIf (length (tx_Outs (pp_Tx prepared)) \<noteq> 1 \<or> out_Value (tx_Outs (pp_Tx prepared) ! 0) \<noteq> amount \<or>
           out_PubKeyHash (tx_Outs (pp_Tx prepared) ! 0) \<noteq> destination \<or>
           length (pp_SelectedOutpoints prepared) \<noteq> eligibleCount \<or> length (tx_Bytes (pp_Tx prepared)) > MaxSignedTxBytes)
         (Err ''constructed maximum-send transaction is inconsistent'')
       (Inr prepared))))))"

definition PrepareMaximumAt ::
  "crypto \<Rightarrow> string \<Rightarrow> Chain option \<Rightarrow> Chain \<Rightarrow> privkey list res \<Rightarrow> ChainTipSnapshot \<Rightarrow> address \<Rightarrow> int \<Rightarrow> OutPoint set \<Rightarrow>
     (Snapshot \<times> PreparedPayment) res"
where
  "PrepareMaximumAt K network c c' keys expected toAddress fee excluded =
     (case c of None \<Rightarrow> Inl (Err ''nil maximum-send chain'')
      | Some chain \<Rightarrow>
          bindE (validateMaximumValues K toAddress fee excluded) (\<lambda>destination.
          bindE keys (\<lambda>keys.
          bindE (rejectOwnedDestination K keys destination) (\<lambda>_.
          bindE (snapshotWithKeys K chain network expected keys) (\<lambda>snapshot.
          bindE (buildMaximumFromSnapshot K keys snapshot destination fee excluded) (\<lambda>prepared.
          bindE (validateSelectedAnchored (pp_SelectedOutpoints prepared) (anchoredOutpoints snapshot)) (\<lambda>_.
          bindE (tip_unchanged K c' expected) (\<lambda>_.
          Inr (snapshot, prepared)))))))))"

definition PrepareMaximumFromRemoteSnapshot ::
  "crypto \<Rightarrow> string \<Rightarrow> privkey list res \<Rightarrow> RemoteSnapshot \<Rightarrow> address \<Rightarrow> int \<Rightarrow> OutPoint set \<Rightarrow> (Snapshot \<times> PreparedPayment) res"
where
  "PrepareMaximumFromRemoteSnapshot K network keys remote toAddress fee excluded =
     bindE (validateMaximumValues K toAddress fee excluded) (\<lambda>destination.
     bindE keys (\<lambda>keys.
     bindE (rejectOwnedDestination K keys destination) (\<lambda>_.
     bindE (snapshotFromRemoteWithKeys K network remote keys) (\<lambda>snapshot.
     bindE (buildMaximumFromSnapshot K keys snapshot destination fee excluded) (\<lambda>prepared.
     bindE (validateSelectedAnchored (pp_SelectedOutpoints prepared) (anchoredOutpoints snapshot)) (\<lambda>_.
     Inr (snapshot, prepared)))))))"

end
