(* ===== verification/Gateway.thy ===== *)
theory Gateway
  imports Payment PeerAddress
begin

text \<open>
  The light wallet protocol of \<^verbatim>\<open>lightwallet/types.go\<close>, \<^verbatim>\<open>lightwallet/gateway.go\<close> and
  \<^verbatim>\<open>lightwallet/client.go\<close>: a gateway answers requests about a set of addresses from its chain and relays signed
  transactions; the client checks every answer. Requests and replies are values of records; \<^verbatim>\<open>encoding/json\<close>
  is a parameter. Both sides of a connection are one function from requests to replies.
\<close>

section \<open>Messages\<close>

definition gateway_SchemaVersion :: int where "gateway_SchemaVersion = 1"
definition SnapshotPath :: string where "SnapshotPath = ''/api/wallet/v1/snapshot''"
definition ViewPath :: string where "ViewPath = ''/api/wallet/v1/view''"
definition BroadcastPath :: string where "BroadcastPath = ''/api/wallet/v1/broadcast''"
definition MaxSnapshotAddresses :: nat where "MaxSnapshotAddresses = 100"
definition MaxSnapshotOutputs :: nat where "MaxSnapshotOutputs = 10000"
definition MaxRequestBytes :: nat where "MaxRequestBytes = 64 * 1024"
definition MaxResponseBytes :: nat where "MaxResponseBytes = 1024 * 1024"
definition MaxSignedTransactionBytes :: nat where "MaxSignedTransactionBytes = 10000"

record SnapshotRequest =
  sq_Addresses :: "address list"

record GatewayTip =
  gt_Hash :: string
  gt_Height :: int

record SnapshotOutput =
  go_TxID :: string
  go_Vout :: uint32
  go_AmountUnits :: int
  go_Address :: address

record SnapshotResponse =
  sr_SchemaVersion :: int
  sr_Network :: string
  sr_Tip :: GatewayTip
  sr_Addresses :: "address list"
  sr_Outputs :: "SnapshotOutput list"
  sr_SpendableUnits :: int

record ViewRequest =
  vq_Addresses :: "address list"
  vq_ActivityLimit :: int

record ViewImmatureOutput =
  vi_TxID :: string
  vi_Vout :: uint32
  vi_AmountUnits :: int
  vi_Address :: address
  vi_BlockHeight :: int
  vi_Confirmations :: int

record ViewActivityItem =
  va_TxID :: string
  va_Kind :: string
  va_Status :: string
  va_NetUnits :: int
  va_BlockHeight :: int
  va_Confirmations :: int
  va_BlocksUntilMature :: int

record ViewResponse =
  vr_SchemaVersion :: int
  vr_Network :: string
  vr_Tip :: GatewayTip
  vr_Addresses :: "address list"
  vr_Outputs :: "SnapshotOutput list"
  vr_SpendableUnits :: int
  vr_SpendableOutputCount :: int
  vr_ImmatureOutputs :: "ViewImmatureOutput list"
  vr_ImmatureUnits :: int
  vr_Activity :: "ViewActivityItem list"

record ErrorResponse =
  er_SchemaVersion :: int
  er_Network :: string
  er_ErrorCode :: string

record BroadcastRequest =
  bq_TransactionHex :: string
  bq_ExpectedTxID :: string

record BroadcastResponse =
  br_SchemaVersion :: int
  br_Network :: string
  br_TxID :: string
  br_Admission :: string
  br_Status :: string
  br_PeerWrites :: int

text \<open>The parameter for \<^verbatim>\<open>encoding/json\<close>. Decoding gives the first value of the input, the unread rest
  after it and the number of bytes taken from the reader so far.\<close>

datatype wire =
    SnapshotRequestW SnapshotRequest
  | ViewRequestW ViewRequest
  | BroadcastRequestW BroadcastRequest
  | SnapshotResponseW SnapshotResponse
  | ViewResponseW ViewResponse
  | BroadcastResponseW BroadcastResponse
  | ErrorResponseW ErrorResponse

type_synonym 'a decoder = "byte list \<Rightarrow> ('a \<times> byte list \<times> nat) res"

record json_lib =
  js_Marshal :: "wire \<Rightarrow> byte list res"
  js_Encode :: "wire \<Rightarrow> byte list res"
  js_SnapshotRequest :: "SnapshotRequest decoder"
  js_ViewRequest :: "ViewRequest decoder"
  js_BroadcastRequest :: "BroadcastRequest decoder"
  js_SnapshotResponse :: "SnapshotResponse decoder"
  js_ViewResponse :: "ViewResponse decoder"
  js_BroadcastResponse :: "BroadcastResponse decoder"
  js_ErrorResponse :: "ErrorResponse decoder"

record http_request =
  rq_Path :: string
  rq_Method :: string
  rq_RawQuery :: string
  rq_MediaType :: "string option"
  rq_Body :: "byte list"

record http_reply =
  rp_Status :: int
  rp_MediaType :: "string option"
  rp_Body :: "byte list"

section \<open>Canonical text\<close>

text \<open>Text with a byte outside ASCII is no hexadecimal text whatever its lower-case form is.\<close>

definition decodeCanonicalTransactionHex :: "string \<Rightarrow> byte list res" where
  "decodeCanonicalTransactionHex value =
     failIf (value = [] \<or> length value mod 2 \<noteq> 0 \<or> value \<noteq> map lower_ascii value) (Err ''noncanonical transaction hex'')
     (case hex_DecodeString value of Inl _ \<Rightarrow> Inl (Err ''invalid transaction hex'')
      | Inr decoded \<Rightarrow> failIf (decoded = [] \<or> length decoded > MaxSignedTransactionBytes) (Err ''invalid transaction hex'') (Inr decoded))"

definition decodeCanonicalHash :: "string \<Rightarrow> Hash32 res" where
  "decodeCanonicalHash value =
     failIf (length value \<noteq> 64 \<or> value \<noteq> map lower_ascii value) (Err ''noncanonical hash'')
     (case hex_DecodeString value of Inl _ \<Rightarrow> Inl (Err ''invalid hash'')
      | Inr decoded \<Rightarrow> failIf (length decoded \<noteq> 32) (Err ''invalid hash'') (Inr (hash_of decoded)))"

fun canonical_pkhs_loop :: "crypto \<Rightarrow> address option \<Rightarrow> address list \<Rightarrow> PKH list res" where
  "canonical_pkhs_loop K previous [] = Inr []"
| "canonical_pkhs_loop K previous (addr # rest) =
     failIf (case previous of None \<Rightarrow> False | Some a \<Rightarrow> a \<ge> addr) (Err ''addresses are not strictly sorted'')
     (case DecodeAddress K addr of Inl _ \<Rightarrow> Inl (Err ''invalid canonical address'')
      | Inr pkh \<Rightarrow> failIf (EncodeAddress K pkh \<noteq> addr) (Err ''invalid canonical address'')
          (bindE (canonical_pkhs_loop K (Some addr) rest) (\<lambda>pkhs. Inr (pkh # pkhs))))"

definition canonicalPKHs :: "crypto \<Rightarrow> address list \<Rightarrow> PKH list res" where
  "canonicalPKHs K addresses = failIf (addresses = []) (Err ''empty address list'') (canonical_pkhs_loop K None addresses)"

section \<open>The gateway\<close>

record Gateway =
  gw_chain :: Chain
  gw_network :: string

definition NewGateway :: "Chain option \<Rightarrow> Gateway res" where
  "NewGateway chain =
     (case chain of None \<Rightarrow> Inl (Err ''nil light wallet chain'')
      | Some c \<Rightarrow> bindE (CanonicalNetworkID (Some (ch_params c))) (\<lambda>network. Inr \<lparr>gw_chain = c, gw_network = network\<rparr>))"

text \<open>A handler either refuses with a status and a code, the arguments of \<^verbatim>\<open>writeError\<close>, or answers.\<close>

type_synonym 'a answer = "(int \<times> string) + 'a"

definition refuse :: "bool \<Rightarrow> int \<Rightarrow> string \<Rightarrow> 'a answer \<Rightarrow> 'a answer" where
  "refuse c status code k = (if c then Inl (status, code) else k)"

definition errRequestTooLarge :: error where "errRequestTooLarge = Err ''request too large''"

definition json_space :: "byte \<Rightarrow> bool" where
  "json_space b \<longleftrightarrow> b \<in> {0x20, 0x09, 0x0d, 0x0a}"

definition decodeStrictJSON :: "'a decoder \<Rightarrow> byte list \<Rightarrow> 'a res" where
  "decodeStrictJSON dec body =
     bindE (dec (take (MaxRequestBytes + 1) body)) (\<lambda>(value, rest, _).
     failIf (\<not> list_all json_space rest) (Err ''trailing JSON data'')
     (failIf (length body > MaxRequestBytes) errRequestTooLarge (Inr value)))"

definition decode_request :: "'a decoder \<Rightarrow> byte list \<Rightarrow> 'a answer" where
  "decode_request dec body =
     (case decodeStrictJSON dec body of
        Inl e \<Rightarrow> if e = errRequestTooLarge then Inl (413, ''request_too_large'') else Inl (400, ''bad_request'')
      | Inr request \<Rightarrow> Inr request)"

definition chain_unavailable :: "int \<times> string" where "chain_unavailable = (503, ''chain_unavailable'')"

definition owned_amount :: "address list \<Rightarrow> PKH list \<Rightarrow> uint32 \<Rightarrow> PKH \<Rightarrow> int \<Rightarrow> bool" where
  "owned_amount addresses pkhs ownerIndex ownerPKH amount \<longleftrightarrow>
     unat ownerIndex < length addresses \<and> ownerPKH = pkhs ! unat ownerIndex \<and> amount > 0 \<and> MoneyRange amount"

definition after :: "OutPoint option \<Rightarrow> OutPoint \<Rightarrow> bool" where
  "after previous outpoint \<longleftrightarrow> (case previous of None \<Rightarrow> True | Some q \<Rightarrow> q < outpoint)"

definition gateway_output ::
  "address list \<Rightarrow> PKH list \<Rightarrow> OutPoint option \<times> int \<times> SnapshotOutput list \<Rightarrow> SpendableOutputSnapshot \<Rightarrow>
     (OutPoint option \<times> int \<times> SnapshotOutput list) res"
where
  "gateway_output addresses pkhs st output =
     (case st of (previous, spendableTotal, outputs) \<Rightarrow>
      failIf (\<not> owned_amount addresses pkhs (so_OwnerIndex output) (so_OwnerPKH output) (so_AmountUnits output) \<or>
          \<not> after previous (so_OutPoint output) \<or> spendableTotal > MaxMoneyUnits - so_AmountUnits output)
        (Err ''chain_unavailable'')
      (Inr (Some (so_OutPoint output), wrap64 (spendableTotal + so_AmountUnits output),
        outputs @ [\<lparr>go_TxID = hex_EncodeToString (hash_bytes (op_TxID (so_OutPoint output))), go_Vout = op_Idx (so_OutPoint output),
          go_AmountUnits = so_AmountUnits output, go_Address = addresses ! unat (so_OwnerIndex output)\<rparr>])))"

definition gateway_immature ::
  "Params \<Rightarrow> int \<Rightarrow> address list \<Rightarrow> PKH list \<Rightarrow> OutPoint option \<times> int \<times> ViewImmatureOutput list \<Rightarrow> ImmatureOutputSnapshot \<Rightarrow>
     (OutPoint option \<times> int \<times> ViewImmatureOutput list) res"
where
  "gateway_immature p tipHeight addresses pkhs st output =
     (case st of (previous, immatureTotal, outputs) \<Rightarrow>
      failIf (\<not> owned_amount addresses pkhs (im_OwnerIndex output) (im_OwnerPKH output) (im_AmountUnits output) \<or>
          im_BlockHeight output < 0 \<or> im_BlockHeight output > tipHeight \<or>
          im_Confirmations output \<noteq> wrap64 (tipHeight - im_BlockHeight output + 1) \<or> im_Confirmations output \<ge> CoinbaseMaturity p \<or>
          \<not> after previous (im_OutPoint output) \<or> immatureTotal > MaxMoneyUnits - im_AmountUnits output)
        (Err ''chain_unavailable'')
      (Inr (Some (im_OutPoint output), wrap64 (immatureTotal + im_AmountUnits output),
        outputs @ [\<lparr>vi_TxID = hex_EncodeToString (hash_bytes (op_TxID (im_OutPoint output))), vi_Vout = op_Idx (im_OutPoint output),
          vi_AmountUnits = im_AmountUnits output, vi_Address = addresses ! unat (im_OwnerIndex output),
          vi_BlockHeight = im_BlockHeight output, vi_Confirmations = im_Confirmations output\<rparr>])))"

text \<open>The sign of an amount must fit its kind; the client repeats the test.\<close>

definition kind_amount :: "string \<Rightarrow> int \<Rightarrow> bool" where
  "kind_amount kind net \<longleftrightarrow>
     \<not> (net < - MaxMoneyUnits \<or> net > MaxMoneyUnits) \<and>
     (if kind = WalletActivityReceived \<or> kind = WalletActivityMiningReward then net > 0
      else if kind = WalletActivitySent then net < 0
      else if kind = WalletActivityCleanup then net \<le> 0
      else False)"

definition blocks_until_mature :: "string \<Rightarrow> int \<Rightarrow> int \<Rightarrow> int" where
  "blocks_until_mature kind confirmations maturity =
     (if kind = WalletActivityMiningReward \<and> confirmations < maturity then maturity - confirmations else 0)"

definition validGatewayActivity :: "WalletActivityItem \<Rightarrow> int \<Rightarrow> int \<Rightarrow> bool" where
  "validGatewayActivity item tipHeight maturity \<longleftrightarrow>
     kind_amount (wa_Kind item) (wa_NetUnits item) \<and>
     (if wa_Status item = WalletActivityMempool
      then wa_Kind item \<noteq> WalletActivityMiningReward \<and> wa_BlockHeight item = -1 \<and> wa_Confirmations item = 0 \<and>
        wa_BlockHash item = 0 \<and> wa_BlocksUntilMature item = 0
      else \<not> (wa_Status item \<noteq> WalletActivityConfirmed \<or> wa_BlockHeight item < 0 \<or> wa_BlockHeight item > tipHeight \<or>
          wa_Confirmations item \<noteq> wrap64 (tipHeight - wa_BlockHeight item + 1) \<or> wa_BlockHash item = 0) \<and>
        wa_BlocksUntilMature item = blocks_until_mature (wa_Kind item) (wa_Confirmations item) maturity)"

definition gateway_item :: "WalletActivityItem \<Rightarrow> ViewActivityItem" where
  "gateway_item item = \<lparr>va_TxID = hex_EncodeToString (hash_bytes (wa_TxID item)), va_Kind = wa_Kind item, va_Status = wa_Status item,
     va_NetUnits = wa_NetUnits item, va_BlockHeight = wa_BlockHeight item, va_Confirmations = wa_Confirmations item,
     va_BlocksUntilMature = wa_BlocksUntilMature item\<rparr>"

definition gateway_tip :: "ChainTipSnapshot \<Rightarrow> GatewayTip" where
  "gateway_tip tip = \<lparr>gt_Hash = hex_EncodeToString (hash_bytes (ts_Hash tip)), gt_Height = ts_Height tip\<rparr>"

definition handleView :: "crypto \<Rightarrow> Gateway \<Rightarrow> ViewRequest \<Rightarrow> ViewResponse answer" where
  "handleView K g request =
     refuse (length (vq_Addresses request) > MaxSnapshotAddresses) 413 ''too_many_addresses''
     (refuse (vq_ActivityLimit request < 0 \<or> vq_ActivityLimit request > MaxWalletActivityLimit) 400 ''invalid_activity_limit''
     (case canonicalPKHs K (vq_Addresses request) of Inl _ \<Rightarrow> Inl (400, ''invalid_addresses'')
      | Inr pkhs \<Rightarrow>
      case WalletViewForPKHs K (gw_chain g) pkhs (vq_ActivityLimit request) of Inl _ \<Rightarrow> Inl chain_unavailable
      | Inr view \<Rightarrow>
      if \<not> wv_Complete view \<or> wv_Network view \<noteq> gw_network g \<or> ts_Network (wv_Tip view) \<noteq> gw_network g \<or>
        ts_Height (wv_Tip view) < 0 \<or> length (wv_SpendableOutputs view) > MaxSnapshotOutputs \<or>
        length (wv_ImmatureOutputs view) > MaxSnapshotOutputs \<or> int (length (wv_Activity view)) > vq_ActivityLimit request
      then Inl chain_unavailable
      else
      case foldE (gateway_output (vq_Addresses request) pkhs) (None, 0, []) (wv_SpendableOutputs view) of Inl _ \<Rightarrow> Inl chain_unavailable
      | Inr (_, spendableTotal, outputs) \<Rightarrow>
      if spendableTotal \<noteq> wv_SpendableUnits view then Inl chain_unavailable
      else
      case foldE (gateway_immature (ch_params (gw_chain g)) (ts_Height (wv_Tip view)) (vq_Addresses request) pkhs) (None, 0, [])
        (wv_ImmatureOutputs view) of Inl _ \<Rightarrow> Inl chain_unavailable
      | Inr (_, immatureTotal, immature) \<Rightarrow>
      if immatureTotal \<noteq> wv_ImmatureUnits view then Inl chain_unavailable
      else if \<not> list_all (\<lambda>item. validGatewayActivity item (ts_Height (wv_Tip view)) (CoinbaseMaturity (ch_params (gw_chain g)))) (wv_Activity view)
      then Inl chain_unavailable
      else Inr \<lparr>vr_SchemaVersion = gateway_SchemaVersion, vr_Network = gw_network g, vr_Tip = gateway_tip (wv_Tip view),
        vr_Addresses = vq_Addresses request, vr_Outputs = outputs, vr_SpendableUnits = wv_SpendableUnits view,
        vr_SpendableOutputCount = int (length (wv_SpendableOutputs view)), vr_ImmatureOutputs = immature,
        vr_ImmatureUnits = wv_ImmatureUnits view, vr_Activity = map gateway_item (wv_Activity view)\<rparr>))"

definition handleSnapshot :: "crypto \<Rightarrow> Gateway \<Rightarrow> SnapshotRequest \<Rightarrow> SnapshotResponse answer" where
  "handleSnapshot K g request =
     refuse (length (sq_Addresses request) > MaxSnapshotAddresses) 413 ''too_many_addresses''
     (case canonicalPKHs K (sq_Addresses request) of Inl _ \<Rightarrow> Inl (400, ''invalid_addresses'')
      | Inr pkhs \<Rightarrow>
      case SpendableOutputsForPKHs K (gw_chain g) pkhs of Inl _ \<Rightarrow> Inl chain_unavailable
      | Inr snapshot \<Rightarrow>
      if \<not> ss_Complete snapshot \<or> ss_Network snapshot \<noteq> gw_network g \<or> ts_Network (ss_Tip snapshot) \<noteq> gw_network g \<or>
        ts_Height (ss_Tip snapshot) < 0 \<or> length (ss_Outputs snapshot) > MaxSnapshotOutputs
      then Inl chain_unavailable
      else
      case foldE (gateway_output (sq_Addresses request) pkhs) (None, 0, []) (ss_Outputs snapshot) of Inl _ \<Rightarrow> Inl chain_unavailable
      | Inr (_, spendableUnits, outputs) \<Rightarrow>
        Inr \<lparr>sr_SchemaVersion = gateway_SchemaVersion, sr_Network = gw_network g, sr_Tip = gateway_tip (ss_Tip snapshot),
          sr_Addresses = sq_Addresses request, sr_Outputs = outputs, sr_SpendableUnits = spendableUnits\<rparr>)"

fun admission_text :: "TxAcceptanceResult \<Rightarrow> string" where
  "admission_text TxAcceptanceAdded = ''added''"
| "admission_text TxAcceptanceAlreadyKnown = ''already_known''"

text \<open>Relaying returns the number of peers written to; a gateway without a broadcaster writes to none.\<close>

definition handleBroadcast :: "crypto \<Rightarrow> (Tx \<Rightarrow> int) option \<Rightarrow> Gateway \<Rightarrow> BroadcastRequest \<Rightarrow> Gateway \<times> BroadcastResponse answer" where
  "handleBroadcast K broadcaster g request =
     (if length (bq_TransactionHex request) > MaxSignedTransactionBytes * 2 then (g, Inl (413, ''transaction_too_large''))
      else case decodeCanonicalTransactionHex (bq_TransactionHex request) of Inl _ \<Rightarrow> (g, Inl (400, ''invalid_transaction''))
      | Inr wire \<Rightarrow>
      case decodeCanonicalHash (bq_ExpectedTxID request) of Inl _ \<Rightarrow> (g, Inl (400, ''invalid_txid''))
      | Inr expected \<Rightarrow>
      case DecodeTx wire of Inl _ \<Rightarrow> (g, Inl (400, ''invalid_transaction''))
      | Inr transaction \<Rightarrow>
      if IsCoinbase transaction then (g, Inl (422, ''transaction_rejected''))
      else if tx_Bytes transaction \<noteq> wire then (g, Inl (400, ''invalid_transaction''))
      else if tx_ID K transaction \<noteq> expected then (g, Inl (400, ''txid_mismatch''))
      else case AcceptTxWithResult K (gw_chain g) (Some transaction) of
        (c, Inl _) \<Rightarrow> (g\<lparr>gw_chain := c\<rparr>, Inl (422, ''transaction_rejected''))
      | (c, Inr admission) \<Rightarrow>
          let writes = (case broadcaster of None \<Rightarrow> 0 | Some send \<Rightarrow> send transaction) in
          if writes < 1 then (g\<lparr>gw_chain := c\<rparr>, Inl (503, ''transaction_not_relayed''))
          else (g\<lparr>gw_chain := c\<rparr>, Inr \<lparr>br_SchemaVersion = gateway_SchemaVersion, br_Network = gw_network g,
            br_TxID = bq_ExpectedTxID request, br_Admission = admission_text admission, br_Status = ''submitted'', br_PeerWrites = writes\<rparr>))"

definition writeJSON :: "json_lib \<Rightarrow> int \<Rightarrow> wire \<Rightarrow> http_reply" where
  "writeJSON J status value =
     (case js_Encode J value of
        Inl _ \<Rightarrow> \<lparr>rp_Status = 500, rp_MediaType = Some ''application/json'', rp_Body = []\<rparr>
      | Inr encoded \<Rightarrow>
          if length encoded > MaxResponseBytes then \<lparr>rp_Status = 500, rp_MediaType = Some ''application/json'', rp_Body = []\<rparr>
          else \<lparr>rp_Status = status, rp_MediaType = Some ''application/json'', rp_Body = encoded\<rparr>)"

definition writeError :: "json_lib \<Rightarrow> Gateway \<Rightarrow> int \<times> string \<Rightarrow> http_reply" where
  "writeError J g e = writeJSON J (fst e)
     (ErrorResponseW \<lparr>er_SchemaVersion = gateway_SchemaVersion, er_Network = gw_network g, er_ErrorCode = snd e\<rparr>)"

definition reply_of :: "json_lib \<Rightarrow> Gateway \<Rightarrow> ('a \<Rightarrow> wire) \<Rightarrow> 'a answer \<Rightarrow> http_reply" where
  "reply_of J g f a = (case a of Inl e \<Rightarrow> writeError J g e | Inr response \<Rightarrow> writeJSON J 200 (f response))"

definition ServeHTTP :: "crypto \<Rightarrow> json_lib \<Rightarrow> (Tx \<Rightarrow> int) option \<Rightarrow> Gateway \<Rightarrow> http_request \<Rightarrow> Gateway \<times> http_reply" where
  "ServeHTTP K J broadcaster g r =
     (if rq_Path r \<noteq> SnapshotPath \<and> rq_Path r \<noteq> ViewPath \<and> rq_Path r \<noteq> BroadcastPath then (g, writeError J g (404, ''not_found''))
      else if rq_Method r \<noteq> ''POST'' then (g, writeError J g (405, ''method_not_allowed''))
      else if rq_RawQuery r \<noteq> [] then (g, writeError J g (400, ''bad_request''))
      else if rq_MediaType r \<noteq> Some ''application/json'' then (g, writeError J g (415, ''unsupported_media_type''))
      else if rq_Path r = SnapshotPath then
        (case decode_request (js_SnapshotRequest J) (rq_Body r) of Inl e \<Rightarrow> (g, writeError J g e)
         | Inr request \<Rightarrow> (g, reply_of J g SnapshotResponseW (handleSnapshot K g request)))
      else if rq_Path r = ViewPath then
        (case decode_request (js_ViewRequest J) (rq_Body r) of Inl e \<Rightarrow> (g, writeError J g e)
         | Inr request \<Rightarrow> (g, reply_of J g ViewResponseW (handleView K g request)))
      else
        (case decode_request (js_BroadcastRequest J) (rq_Body r) of Inl e \<Rightarrow> (g, writeError J g e)
         | Inr request \<Rightarrow> (case handleBroadcast K broadcaster g request of (g', a) \<Rightarrow> (g', reply_of J g' BroadcastResponseW a))))"

end
