(* ===== verification/LightClient.thy ===== *)
theory LightClient
  imports Gateway
begin

text \<open>
  The client of \<^verbatim>\<open>lightwallet/client.go\<close>: requests to a gateway and the checks on its replies. The transport is a
  function from the path and the body of a request to the reply, with the gateway's state threaded through it. Parsing of the base
  URL (\<^verbatim>\<open>net/url\<close>) is an argument.
\<close>

section \<open>Construction\<close>

record url =
  url_Scheme :: string
  url_Host :: string
  url_Hostname :: string
  url_User :: "string option"
  url_Path :: string
  url_RawQuery :: string
  url_Fragment :: string

record Client =
  cl_baseURL :: string
  cl_network :: string

definition trim_slash :: "string \<Rightarrow> string" where
  "trim_slash s = (if s \<noteq> [] \<and> last s = CHR ''/'' then butlast s else s)"

definition NewClient :: "(string \<Rightarrow> url option) \<Rightarrow> (string \<Rightarrow> ip option) \<Rightarrow> string \<Rightarrow> string \<Rightarrow> Client res" where
  "NewClient parse parseIP baseURL network =
     failIf (network \<noteq> MainNetMachineID \<and> network \<noteq> RegTestMachineID) (Err ''invalid light wallet network'')
     (case parse baseURL of None \<Rightarrow> Inl (Err ''invalid light wallet gateway URL'')
      | Some parsed \<Rightarrow>
          failIf (url_Host parsed = [] \<or> url_User parsed \<noteq> None \<or> url_RawQuery parsed \<noteq> [] \<or> url_Fragment parsed \<noteq> [] \<or>
              url_Path parsed \<noteq> [] \<and> url_Path parsed \<noteq> ''/'' \<or> url_Scheme parsed \<noteq> ''https'' \<and> url_Scheme parsed \<noteq> ''http'')
            (Err ''invalid light wallet gateway URL'')
          (failIf (network = MainNetMachineID \<and> url_Scheme parsed \<noteq> ''https'') (Err ''mainnet light wallet gateway requires HTTPS'')
          (failIf (url_Scheme parsed = ''http'' \<and> url_Hostname parsed \<noteq> ''localhost'' \<and>
              (case parseIP (url_Hostname parsed) of None \<Rightarrow> True | Some ip \<Rightarrow> \<not> ip_IsLoopback (ip_Unmap ip)))
            (Err ''plain HTTP light wallet gateway must be loopback'')
          (Inr \<lparr>cl_baseURL = trim_slash baseURL, cl_network = network\<rparr>))))"

section \<open>Requests\<close>

definition receive :: "json_lib \<Rightarrow> Client \<Rightarrow> 'a decoder \<Rightarrow> http_reply \<Rightarrow> 'a res" where
  "receive J c dec response =
     failIf (rp_MediaType response \<noteq> Some ''application/json'') (Err ''wallet gateway returned an invalid content type'')
     (let limited = take (MaxResponseBytes + 1) (rp_Body response) in
      if rp_Status response < 200 \<or> rp_Status response \<ge> 300 then
        (case js_ErrorResponse J limited of
           Inl _ \<Rightarrow> Inl (Err (''wallet gateway returned HTTP '' @ Itoa (rp_Status response)))
         | Inr (gatewayError, _, n) \<Rightarrow>
             if n > MaxResponseBytes \<or> er_SchemaVersion gatewayError \<noteq> gateway_SchemaVersion \<or>
               er_Network gatewayError \<noteq> cl_network c \<or> er_ErrorCode gatewayError = []
             then Inl (Err (''wallet gateway returned HTTP '' @ Itoa (rp_Status response)))
             else Inl (Err (''wallet gateway rejected request: '' @ er_ErrorCode gatewayError)))
      else
        (case dec limited of Inl e \<Rightarrow> Inl (Wrapped ''decode wallet gateway response'' e)
         | Inr (value, rest, _) \<Rightarrow>
             failIf (\<not> list_all json_space rest \<or> length (rp_Body response) > MaxResponseBytes)
               (Err ''wallet gateway response is oversized or has trailing data'')
             (Inr value)))"

definition post ::
  "json_lib \<Rightarrow> ('g \<Rightarrow> http_request \<Rightarrow> 'g \<times> http_reply res) \<Rightarrow> Client \<Rightarrow> string \<Rightarrow> wire \<Rightarrow> 'a decoder \<Rightarrow> 'g \<Rightarrow> 'g \<times> 'a res"
where
  "post J transport c path requestValue dec g =
     (case js_Marshal J requestValue of Inl _ \<Rightarrow> (g, Inl (Err ''light wallet request is out of bounds''))
      | Inr body \<Rightarrow>
          if length body > MaxRequestBytes then (g, Inl (Err ''light wallet request is out of bounds''))
          else case transport g \<lparr>rq_Path = path, rq_Method = ''POST'', rq_RawQuery = [], rq_MediaType = Some ''application/json'', rq_Body = body\<rparr> of
            (g', Inl e) \<Rightarrow> (g', Inl (Wrapped ''wallet gateway unavailable'' e))
          | (g', Inr response) \<Rightarrow> (g', receive J c dec response))"

definition canonicalClientAddresses :: "crypto \<Rightarrow> address list \<Rightarrow> address list res" where
  "canonicalClientAddresses K addresses =
     failIf (addresses = [] \<or> length addresses > MaxSnapshotAddresses) (Err ''wallet address count is out of bounds'')
     (failIf (\<exists>addr\<in>set addresses. case DecodeAddress K addr of Inl _ \<Rightarrow> True | Inr pkh \<Rightarrow> EncodeAddress K pkh \<noteq> addr)
       (Err ''wallet contains an invalid address'')
     (failIf (adjacent_equal (sort addresses)) (Err ''wallet contains duplicate addresses'')
     (Inr (sort addresses))))"

section \<open>Validation of replies\<close>

definition client_output :: "address set \<Rightarrow> OutPoint option \<times> int \<Rightarrow> SnapshotOutput \<Rightarrow> (OutPoint option \<times> int) res" where
  "client_output owners st output =
     (case st of (previous, acc) \<Rightarrow>
      case decodeCanonicalHash (go_TxID output) of Inl _ \<Rightarrow> Inl (Err ''snapshot output is invalid'')
      | Inr txID \<Rightarrow>
          failIf (go_AmountUnits output \<le> 0 \<or> \<not> MoneyRange (go_AmountUnits output)) (Err ''snapshot output is invalid'')
          (failIf (go_Address output \<notin> owners) (Err ''snapshot output has a foreign owner'')
          (let outpoint = OutPoint txID (go_Vout output) in
           failIf (\<not> after previous outpoint) (Err ''snapshot outputs are not strictly sorted'')
           (failIf (acc > MaxMoneyUnits - go_AmountUnits output) (Err ''snapshot amount overflow'')
           (Inr (Some outpoint, wrap64 (acc + go_AmountUnits output)))))))"

definition validateSnapshot :: "Client \<Rightarrow> SnapshotResponse \<Rightarrow> address list \<Rightarrow> unit res" where
  "validateSnapshot c response addresses =
     failIf (sr_SchemaVersion response \<noteq> gateway_SchemaVersion \<or> sr_Network response \<noteq> cl_network c \<or> gt_Height (sr_Tip response) < 0 \<or>
         length (sr_Addresses response) \<noteq> length addresses \<or> length (sr_Outputs response) > MaxSnapshotOutputs)
       (Err ''snapshot identity is inconsistent'')
     (case decodeCanonicalHash (gt_Hash (sr_Tip response)) of Inl _ \<Rightarrow> Inl (Err ''snapshot tip is invalid'')
      | Inr _ \<Rightarrow>
          failIf (sr_Addresses response \<noteq> addresses) (Err ''snapshot address set changed'')
          (bindE (foldE (client_output (set addresses)) (None, 0) (sr_Outputs response)) (\<lambda>(_, acc).
           failIf (acc \<noteq> sr_SpendableUnits response) (Err ''snapshot spendable total is inconsistent'') (Inr ()))))"

definition viewConfirmations :: "int \<Rightarrow> int \<Rightarrow> int option" where
  "viewConfirmations tipHeight blockHeight =
     (if tipHeight < 0 \<or> blockHeight < 0 \<or> blockHeight > tipHeight then None
      else if tipHeight - blockHeight = 2 ^ 63 - 1 then None
      else Some (tipHeight - blockHeight + 1))"

definition view_client_output ::
  "address set \<Rightarrow> OutPoint set \<times> OutPoint option \<times> int \<Rightarrow> SnapshotOutput \<Rightarrow> (OutPoint set \<times> OutPoint option \<times> int) res"
where
  "view_client_output owners st output =
     (case st of (seen, previous, acc) \<Rightarrow>
      case decodeCanonicalHash (go_TxID output) of Inl _ \<Rightarrow> Inl (Err ''invalid spendable output'')
      | Inr txID \<Rightarrow>
          failIf (go_AmountUnits output \<le> 0 \<or> \<not> MoneyRange (go_AmountUnits output)) (Err ''invalid spendable output'')
          (failIf (go_Address output \<notin> owners) (Err ''foreign spendable owner'')
          (let outpoint = OutPoint txID (go_Vout output) in
           failIf (outpoint \<in> seen) (Err ''duplicate spendable outpoint'')
           (failIf (\<not> after previous outpoint) (Err ''spendable outputs are not strictly sorted'')
           (failIf (acc > MaxMoneyUnits - go_AmountUnits output) (Err ''spendable total overflow'')
           (Inr (insert outpoint seen, Some outpoint, wrap64 (acc + go_AmountUnits output))))))))"

definition validateViewOutputs :: "SnapshotOutput list \<Rightarrow> address set \<Rightarrow> OutPoint set \<Rightarrow> (OutPoint set \<times> int) res" where
  "validateViewOutputs outputs owners seen =
     bindE (foldE (view_client_output owners) (seen, None, 0) outputs) (\<lambda>(seen, _, acc). Inr (seen, acc))"

definition validViewActivityAmount :: "ViewActivityItem \<Rightarrow> bool" where
  "validViewActivityAmount item = kind_amount (va_Kind item) (va_NetUnits item)"

definition client_maturity :: "Client \<Rightarrow> int" where
  "client_maturity c = (if cl_network c = MainNetMachineID then 100 else 2)"

definition client_immature ::
  "int \<Rightarrow> int \<Rightarrow> address set \<Rightarrow> OutPoint set \<times> OutPoint option \<times> int \<Rightarrow> ViewImmatureOutput \<Rightarrow> (OutPoint set \<times> OutPoint option \<times> int) res"
where
  "client_immature tipHeight maturity owners st output =
     (case st of (seen, previous, acc) \<Rightarrow>
      case decodeCanonicalHash (vi_TxID output) of Inl _ \<Rightarrow> Inl (Err ''view immature output is invalid'')
      | Inr txID \<Rightarrow>
          failIf (vi_AmountUnits output \<le> 0 \<or> \<not> MoneyRange (vi_AmountUnits output) \<or>
              viewConfirmations tipHeight (vi_BlockHeight output) \<noteq> Some (vi_Confirmations output) \<or>
              vi_Confirmations output \<le> 0 \<or> vi_Confirmations output \<ge> maturity) (Err ''view immature output is invalid'')
          (failIf (vi_Address output \<notin> owners) (Err ''view immature output has a foreign owner'')
          (let outpoint = OutPoint txID (vi_Vout output) in
           failIf (outpoint \<in> seen) (Err ''view contains a duplicate outpoint'')
           (failIf (\<not> after previous outpoint) (Err ''view immature outputs are not strictly sorted'')
           (failIf (acc > MaxMoneyUnits - vi_AmountUnits output) (Err ''view immature total overflow'')
           (Inr (insert outpoint seen, Some outpoint, wrap64 (acc + vi_AmountUnits output))))))))"

text \<open>The state of the activity loop: the ids seen, the id of a directly preceding mempool item, and the
  height of the last confirmed item, once there is one.\<close>

record activity_scan =
  as_seen :: "Hash32 set"
  as_previousMempool :: "Hash32 option"
  as_confirmed :: "int option"

definition client_activity :: "int \<Rightarrow> int \<Rightarrow> activity_scan \<Rightarrow> ViewActivityItem \<Rightarrow> activity_scan res" where
  "client_activity tipHeight maturity st item =
     (case decodeCanonicalHash (va_TxID item) of Inl _ \<Rightarrow> Inl (Err ''view activity transaction ID is invalid'')
      | Inr txID \<Rightarrow>
          failIf (txID \<in> as_seen st) (Err ''view contains duplicate activity'')
          (failIf (\<not> validViewActivityAmount item) (Err ''view activity amount or kind is invalid'')
          (let st1 = st\<lparr>as_seen := insert txID (as_seen st)\<rparr> in
           if va_Status item = WalletActivityMempool then
             failIf (as_confirmed st \<noteq> None \<or> va_Kind item = WalletActivityMiningReward \<or> va_BlockHeight item \<noteq> -1 \<or>
                 va_Confirmations item \<noteq> 0 \<or> va_BlocksUntilMature item \<noteq> 0) (Err ''view mempool activity is inconsistent'')
             (failIf (case as_previousMempool st of None \<Rightarrow> False | Some q \<Rightarrow> q \<ge> txID)
               (Err ''view mempool activity is not strictly sorted'')
             (Inr (st1\<lparr>as_previousMempool := Some txID\<rparr>)))
           else if va_Status item = WalletActivityConfirmed then
             failIf ((case as_confirmed st of None \<Rightarrow> False | Some h \<Rightarrow> va_BlockHeight item > h) \<or>
                 viewConfirmations tipHeight (va_BlockHeight item) \<noteq> Some (va_Confirmations item) \<or> va_Confirmations item \<le> 0)
               (Err ''view confirmed activity is inconsistent'')
             (failIf (va_BlocksUntilMature item \<noteq> blocks_until_mature (va_Kind item) (va_Confirmations item) maturity)
               (Err ''view mining reward maturity is inconsistent'')
             (Inr (st1\<lparr>as_previousMempool := None, as_confirmed := Some (va_BlockHeight item)\<rparr>)))
           else Inl (Err ''view activity status is invalid''))))"

definition validateView :: "Client \<Rightarrow> ViewResponse \<Rightarrow> address list \<Rightarrow> int \<Rightarrow> unit res" where
  "validateView c response addresses activityLimit =
     failIf (vr_SchemaVersion response \<noteq> gateway_SchemaVersion \<or> vr_Network response \<noteq> cl_network c \<or> gt_Height (vr_Tip response) < 0 \<or>
         length (vr_Addresses response) \<noteq> length addresses \<or> length (vr_Outputs response) > MaxSnapshotOutputs \<or>
         length (vr_ImmatureOutputs response) > MaxSnapshotOutputs \<or> int (length (vr_Activity response)) > activityLimit \<or>
         vr_SpendableOutputCount response \<noteq> int (length (vr_Outputs response)))
       (Err ''view identity is inconsistent'')
     (case decodeCanonicalHash (gt_Hash (vr_Tip response)) of Inl _ \<Rightarrow> Inl (Err ''view tip is invalid'')
      | Inr _ \<Rightarrow>
          failIf (vr_Addresses response \<noteq> addresses) (Err ''view address set changed'')
          (case validateViewOutputs (vr_Outputs response) (set addresses) {} of
             Inl _ \<Rightarrow> Inl (Err ''view spendable outputs are inconsistent'')
           | Inr (seen, spendableTotal) \<Rightarrow>
               failIf (spendableTotal \<noteq> vr_SpendableUnits response) (Err ''view spendable outputs are inconsistent'')
               (bindE (foldE (client_immature (gt_Height (vr_Tip response)) (client_maturity c) (set addresses)) (seen, None, 0)
                  (vr_ImmatureOutputs response)) (\<lambda>(_, _, immatureTotal).
                failIf (immatureTotal \<noteq> vr_ImmatureUnits response) (Err ''view immature total is inconsistent'')
                (bindE (foldE (client_activity (gt_Height (vr_Tip response)) (client_maturity c))
                   \<lparr>as_seen = {}, as_previousMempool = None, as_confirmed = None\<rparr> (vr_Activity response)) (\<lambda>_.
                 Inr ()))))))"

section \<open>Operations\<close>

definition client_Snapshot ::
  "crypto \<Rightarrow> json_lib \<Rightarrow> ('g \<Rightarrow> http_request \<Rightarrow> 'g \<times> http_reply res) \<Rightarrow> Client \<Rightarrow> address list \<Rightarrow> 'g \<Rightarrow> 'g \<times> SnapshotResponse res"
where
  "client_Snapshot K J transport c addresses g =
     (case canonicalClientAddresses K addresses of Inl e \<Rightarrow> (g, Inl e)
      | Inr canonical \<Rightarrow>
          (case post J transport c SnapshotPath (SnapshotRequestW \<lparr>sq_Addresses = canonical\<rparr>) (js_SnapshotResponse J) g of
             (g', Inl e) \<Rightarrow> (g', Inl e)
           | (g', Inr response) \<Rightarrow>
               (g', case validateSnapshot c response canonical of
                      Inl e \<Rightarrow> Inl (Wrapped ''invalid gateway snapshot'' e) | Inr _ \<Rightarrow> Inr response)))"

definition client_View ::
  "crypto \<Rightarrow> json_lib \<Rightarrow> ('g \<Rightarrow> http_request \<Rightarrow> 'g \<times> http_reply res) \<Rightarrow> Client \<Rightarrow> address list \<Rightarrow> int \<Rightarrow> 'g \<Rightarrow> 'g \<times> ViewResponse res"
where
  "client_View K J transport c addresses activityLimit g =
     (if activityLimit < 0 \<or> activityLimit > MaxWalletActivityLimit then (g, Inl (Err ''activity limit must be between 0 and 50''))
      else case canonicalClientAddresses K addresses of Inl e \<Rightarrow> (g, Inl e)
      | Inr canonical \<Rightarrow>
          (case post J transport c ViewPath (ViewRequestW \<lparr>vq_Addresses = canonical, vq_ActivityLimit = activityLimit\<rparr>) (js_ViewResponse J) g of
             (g', Inl e) \<Rightarrow> (g', Inl e)
           | (g', Inr response) \<Rightarrow>
               (g', case validateView c response canonical activityLimit of
                      Inl e \<Rightarrow> Inl (Wrapped ''invalid gateway view'' e) | Inr _ \<Rightarrow> Inr response)))"

definition client_Broadcast ::
  "crypto \<Rightarrow> json_lib \<Rightarrow> ('g \<Rightarrow> http_request \<Rightarrow> 'g \<times> http_reply res) \<Rightarrow> Client \<Rightarrow> Tx option \<Rightarrow> 'g \<Rightarrow> 'g \<times> BroadcastResponse res"
where
  "client_Broadcast K J transport c ptx g =
     (case ptx of None \<Rightarrow> (g, Inl (Err ''invalid signed transaction''))
      | Some transaction \<Rightarrow>
          if IsCoinbase transaction then (g, Inl (Err ''invalid signed transaction''))
          else let wire = tx_Bytes transaction; txID = hex_EncodeToString (hash_bytes (tx_ID K transaction)) in
          if wire = [] \<or> length wire > MaxSignedTransactionBytes then (g, Inl (Err ''signed transaction is out of bounds''))
          else case post J transport c BroadcastPath
              (BroadcastRequestW \<lparr>bq_TransactionHex = hex_EncodeToString wire, bq_ExpectedTxID = txID\<rparr>) (js_BroadcastResponse J) g of
            (g', Inl e) \<Rightarrow> (g', Inl e)
          | (g', Inr response) \<Rightarrow>
              (g', failIf (br_SchemaVersion response \<noteq> gateway_SchemaVersion \<or> br_Network response \<noteq> cl_network c \<or> br_TxID response \<noteq> txID \<or>
                  br_Admission response \<noteq> admission_text TxAcceptanceAdded \<and> br_Admission response \<noteq> admission_text TxAcceptanceAlreadyKnown \<or>
                  br_Status response \<noteq> ''submitted'' \<or> br_PeerWrites response < 1)
                (Err ''invalid gateway broadcast response'') (Inr response)))"

end
