(* ===== verification/Mobile.thy ===== *)
theory Mobile
  imports LightClient
begin

text \<open>
  The mobile wallet engine of \<^verbatim>\<open>mobilewallet/engine.go\<close> and \<^verbatim>\<open>mobilewallet/amount.go\<close>: an unlocked wallet, a gateway and a
  table of signed payments that wait for the user's confirmation. An operation that releases the wallet lock while it
  talks to the gateway is split there, so that other calls can come in between. The encrypted wallet file
  (\<^verbatim>\<open>wallet.CreateV2\<close>, \<^verbatim>\<open>OpenV2\<close>), the random source and the clock are arguments.
\<close>

section \<open>Amounts\<close>

definition plain_decimal :: "char \<Rightarrow> bool" where
  "plain_decimal c \<longleftrightarrow> digit c \<noteq> None \<or> c = CHR ''.''"

text \<open>\<^verbatim>\<open>strings.Split\<close> at the character and \<^verbatim>\<open>strconv.ParseUint\<close> in base 10.\<close>

fun split_at :: "char \<Rightarrow> string \<Rightarrow> string list" where
  "split_at sep [] = [[]]"
| "split_at sep (c # s) =
     (if c = sep then [] # split_at sep s
      else case split_at sep s of [] \<Rightarrow> [[c]] | part # parts \<Rightarrow> (c # part) # parts)"

fun decimal_value :: "nat \<Rightarrow> string \<Rightarrow> nat option" where
  "decimal_value acc [] = Some acc"
| "decimal_value acc (c # s) = (case digit c of None \<Rightarrow> None | Some d \<Rightarrow> decimal_value (10 * acc + d) s)"

definition ParseUint :: "string \<Rightarrow> nat option" where
  "ParseUint s =
     (if s = [] then None
      else case decimal_value 0 s of None \<Rightarrow> None | Some v \<Rightarrow> if v < 2 ^ 64 then Some v else None)"

definition parseAmount :: "string \<Rightarrow> bool \<Rightarrow> int res" where
  "parseAmount txt allowZero =
     failIf (txt = [] \<or> length txt > 32) (Err ''invalid decimal length'')
     (failIf (\<not> list_all plain_decimal txt) (Err ''amount must be a plain decimal'')
     (let parts = split_at (CHR ''.'') txt in
      failIf (length parts > 2 \<or> parts ! 0 = [] \<or> length parts = 2 \<and> (parts ! 1 = [] \<or> length (parts ! 1) > 8))
        (Err ''amount must have up to eight decimal places'')
      (case ParseUint (parts ! 0) of None \<Rightarrow> Inl (Err ''amount exceeds the maximum supply'')
       | Some whole \<Rightarrow>
           failIf (whole > 21000000) (Err ''amount exceeds the maximum supply'')
           (case (if length parts = 2 then ParseUint (parts ! 1 @ replicate (8 - length (parts ! 1)) (CHR ''0'')) else Some 0) of
              None \<Rightarrow> Inl (Err ''invalid fractional amount'')
            | Some fraction \<Rightarrow>
                failIf (whole = 21000000 \<and> fraction \<noteq> 0) (Err ''amount exceeds the maximum supply'')
                (let units = (whole * nat UnitsPerCoin + fraction) mod 2 ^ 64 in
                 failIf (int units > MaxMoneyUnits \<or> \<not> allowZero \<and> units = 0) (Err ''amount is out of range'')
                 (Inr (int units)))))))"

section \<open>State\<close>

definition deviceKeyBytes :: nat where "deviceKeyBytes = 32"
definition defaultFeeUnits :: int where "defaultFeeUnits = 10000"
definition pendingLifetime :: int where "pendingLifetime = 5 * 60 * 1000000000"
definition maximumPending :: nat where "maximumPending = 16"
definition maximumPendingLen :: nat where "maximumPendingLen = 128"
definition mobileSchemaVersion :: int where "mobileSchemaVersion = 1"

record pendingPayment =
  pd_transaction :: Tx
  pd_expiresAt :: int
  pd_inFlight :: bool

text \<open>The unlocked wallet is the outcome of reading its keys.\<close>

record Engine =
  en_network :: string
  en_unlocked :: "privkey list res option"
  en_walletGeneration :: uint64
  en_pending :: "(string \<times> pendingPayment) list"

record createResult =
  cr_SchemaVersion :: int
  cr_Network :: string
  cr_Address :: address
  cr_RecoveryPhrase :: string

record statusResult =
  st_SchemaVersion :: int
  st_Network :: string
  st_WalletState :: string
  st_NeedsUnlock :: bool
  st_Address :: address
  st_BalanceUnits :: int
  st_ImmatureUnits :: int
  st_SpendableOutputCount :: int
  st_BalanceAvailable :: bool
  st_Height :: int
  st_TipHash :: string
  st_SyncState :: string
  st_SendAvailable :: bool

record activityResult =
  ar_SchemaVersion :: int
  ar_Network :: string
  ar_Height :: int
  ar_Items :: "ViewActivityItem list"

record sendPreview =
  se_SchemaVersion :: int
  se_PendingID :: string
  se_Destination :: address
  se_AmountUnits :: int
  se_FeeUnits :: int
  se_TotalUnits :: int
  se_TxID :: string
  se_SelectedInputs :: "string list"
  se_ChainHeight :: int
  se_ExpiresAtUnix :: int
  se_ConfirmationCode :: string

record sendResult =
  sl_SchemaVersion :: int
  sl_TxID :: string
  sl_Status :: string
  sl_PeerWrites :: int

definition newEngine :: "string \<Rightarrow> Engine res" where
  "newEngine network =
     failIf (network \<noteq> MainNetMachineID \<and> network \<noteq> RegTestMachineID) (Err ''The BTC09 wallet configuration is not valid.'')
     (Inr \<lparr>en_network = network, en_unlocked = None, en_walletGeneration = 0, en_pending = []\<rparr>)"

definition ValidAddress :: "crypto \<Rightarrow> address \<Rightarrow> bool" where
  "ValidAddress K value = (case DecodeAddress K value of Inl _ \<Rightarrow> False | Inr decoded \<Rightarrow> EncodeAddress K decoded = value)"

definition copyDeviceKey :: "byte list \<Rightarrow> byte list res" where
  "copyDeviceKey deviceKey = failIf (length deviceKey \<noteq> deviceKeyBytes) (Err ''The device security key is not valid.'') (Inr deviceKey)"

definition AddressesE :: "crypto \<Rightarrow> privkey list res \<Rightarrow> address list res" where
  "AddressesE K keys = bindE keys (\<lambda>ks. Inr (map (addressForKey K) ks))"

section \<open>Opening and closing\<close>

definition replaceUnlocked :: "privkey list res \<Rightarrow> Engine \<Rightarrow> Engine" where
  "replaceUnlocked nextWallet e = e\<lparr>en_unlocked := Some nextWallet, en_walletGeneration := en_walletGeneration e + 1, en_pending := []\<rparr>"

definition Lock :: "Engine \<Rightarrow> Engine" where
  "Lock e = e\<lparr>en_unlocked := None, en_walletGeneration := en_walletGeneration e + 1, en_pending := []\<rparr>"

definition CreateWallet :: "crypto \<Rightarrow> (byte list \<Rightarrow> (privkey list res \<times> string) res) \<Rightarrow> byte list \<Rightarrow> Engine \<Rightarrow> Engine \<times> createResult res" where
  "CreateWallet K createV2 deviceKey e =
     (case copyDeviceKey deviceKey of Inl err \<Rightarrow> (e, Inl err)
      | Inr key \<Rightarrow>
      case createV2 key of
        Inl _ \<Rightarrow> (e, Inl (Err ''A wallet already exists on this device, or the new wallet could not be saved safely.''))
      | Inr (unlocked, phrase) \<Rightarrow>
          (case AddressesE K unlocked of Inl _ \<Rightarrow> (e, Inl (Err ''The new wallet could not be opened safely.''))
           | Inr addresses \<Rightarrow>
               if length addresses \<noteq> 1 then (e, Inl (Err ''The new wallet could not be opened safely.''))
               else (replaceUnlocked unlocked e,
                 Inr \<lparr>cr_SchemaVersion = mobileSchemaVersion, cr_Network = en_network e, cr_Address = addresses ! 0, cr_RecoveryPhrase = phrase\<rparr>)))"

text \<open>The first halves of \<^verbatim>\<open>Unlock\<close> and \<^verbatim>\<open>RestoreWallet\<close>; both continue with \<^verbatim>\<open>Status\<close>.\<close>

definition Unlock :: "(byte list \<Rightarrow> privkey list res res) \<Rightarrow> byte list \<Rightarrow> Engine \<Rightarrow> Engine \<times> unit res" where
  "Unlock openV2 deviceKey e =
     (case copyDeviceKey deviceKey of Inl err \<Rightarrow> (e, Inl err)
      | Inr key \<Rightarrow>
      case openV2 key of Inl _ \<Rightarrow> (e, Inl (Err ''The device could not unlock this wallet.''))
      | Inr unlocked \<Rightarrow> (replaceUnlocked unlocked e, Inr ()))"

definition RestoreWallet :: "(byte list \<Rightarrow> string \<Rightarrow> privkey list res res) \<Rightarrow> byte list \<Rightarrow> string \<Rightarrow> Engine \<Rightarrow> Engine \<times> unit res" where
  "RestoreWallet restoreV2 deviceKey phrase e =
     (case copyDeviceKey deviceKey of Inl err \<Rightarrow> (e, Inl err)
      | Inr key \<Rightarrow>
      case restoreV2 key phrase of Inl _ \<Rightarrow> (e, Inl (Err ''Check all 24 recovery words. A wallet may already exist on this device.''))
      | Inr unlocked \<Rightarrow> (replaceUnlocked unlocked e, Inr ()))"

section \<open>Views\<close>

definition remote_outpoint :: "SnapshotOutput \<Rightarrow> RemoteSnapshotOutpoint res" where
  "remote_outpoint output =
     (case hex_DecodeString (go_TxID output) of Inl _ \<Rightarrow> Inl (Err ''invalid wallet service transaction'')
      | Inr transactionBytes \<Rightarrow>
          failIf (length transactionBytes \<noteq> 32) (Err ''invalid wallet service transaction'')
          (Inr \<lparr>ro_TxID = hash_of transactionBytes, ro_Vout = go_Vout output, ro_AmountUnits = go_AmountUnits output, ro_Address = go_Address output\<rparr>))"

definition remoteSnapshot :: "ViewResponse \<Rightarrow> RemoteSnapshot res" where
  "remoteSnapshot response =
     (case hex_DecodeString (gt_Hash (vr_Tip response)) of Inl _ \<Rightarrow> Inl (Err ''invalid wallet service tip'')
      | Inr tipBytes \<Rightarrow>
          failIf (length tipBytes \<noteq> 32) (Err ''invalid wallet service tip'')
          (bindE (mapE remote_outpoint (vr_Outputs response)) (\<lambda>outpoints.
           Inr \<lparr>rs_Network = vr_Network response,
                rs_Tip = \<lparr>ts_Network = vr_Network response, ts_Hash = hash_of tipBytes, ts_Height = gt_Height (vr_Tip response)\<rparr>,
                rs_Addresses = vr_Addresses response, rs_Outpoints = outpoints, rs_SpendableUnits = vr_SpendableUnits response\<rparr>)))"

definition walletServiceError :: error where
  "walletServiceError = Err ''The BTC09 wallet service is temporarily unavailable. Your funds are safe; try again.''"

datatype wallet_file = FileMissing | FilePresent | FileError

definition local_base :: "string \<Rightarrow> statusResult" where
  "local_base network = \<lparr>st_SchemaVersion = mobileSchemaVersion, st_Network = network, st_WalletState = ''missing'', st_NeedsUnlock = False,
     st_Address = [], st_BalanceUnits = 0, st_ImmatureUnits = 0, st_SpendableOutputCount = 0, st_BalanceAvailable = False, st_Height = 0,
     st_TipHash = [], st_SyncState = ''offline'', st_SendAvailable = False\<rparr>"

definition localStatusLocked :: "crypto \<Rightarrow> wallet_file \<Rightarrow> Engine \<Rightarrow> (statusResult \<times> address list \<times> uint64) res" where
  "localStatusLocked K file e =
     (case en_unlocked e of
        None \<Rightarrow>
          (case file of
             FileMissing \<Rightarrow> Inr (local_base (en_network e), [], en_walletGeneration e)
           | FileError \<Rightarrow> Inl (Err ''The wallet file could not be checked safely.'')
           | FilePresent \<Rightarrow>
               Inr ((local_base (en_network e))\<lparr>st_WalletState := ''locked'', st_NeedsUnlock := True, st_SyncState := ''locked''\<rparr>, [],
                 en_walletGeneration e))
      | Some unlocked \<Rightarrow>
          (case AddressesE K unlocked of Inl _ \<Rightarrow> Inl (Err ''The wallet could not read its receive address.'')
           | Inr addresses \<Rightarrow>
               failIf (addresses = []) (Err ''The wallet could not read its receive address.'')
               (Inr ((local_base (en_network e))\<lparr>st_WalletState := ''ready'', st_Address := addresses ! 0, st_SyncState := ''unavailable''\<rparr>,
                 addresses, en_walletGeneration e))))"

text \<open>The second critical section of \<^verbatim>\<open>Status\<close>, after the gateway's answer.\<close>

definition status_end :: "crypto \<Rightarrow> wallet_file \<Rightarrow> Engine \<Rightarrow> statusResult \<Rightarrow> uint64 \<Rightarrow> ViewResponse res \<Rightarrow> statusResult res" where
  "status_end K file e base generation view =
     (case en_unlocked e of
        None \<Rightarrow> bindE (localStatusLocked K file e) (\<lambda>(current, _, _). Inr current)
      | Some unlocked \<Rightarrow>
          if en_walletGeneration e \<noteq> generation then bindE (localStatusLocked K file e) (\<lambda>(current, _, _). Inr current)
          else case view of Inl _ \<Rightarrow> Inr base
          | Inr v \<Rightarrow>
          case remoteSnapshot v of Inl _ \<Rightarrow> Inr base
          | Inr snapshot \<Rightarrow>
          case ValidateRemoteSnapshot K (en_network e) unlocked snapshot of Inl _ \<Rightarrow> Inr base
          | Inr validated \<Rightarrow>
              Inr (base\<lparr>st_BalanceUnits := sn_SpendableUnits validated, st_ImmatureUnits := vr_ImmatureUnits v,
                st_SpendableOutputCount := int (length (sn_Outpoints validated)), st_BalanceAvailable := True,
                st_Height := gt_Height (vr_Tip v), st_TipHash := gt_Hash (vr_Tip v), st_SyncState := ''connected'', st_SendAvailable := True\<rparr>))"

definition engine_Status ::
  "crypto \<Rightarrow> (address list \<Rightarrow> int \<Rightarrow> 'g \<Rightarrow> 'g \<times> ViewResponse res) \<Rightarrow> wallet_file \<Rightarrow> Engine \<Rightarrow> 'g \<Rightarrow> 'g \<times> statusResult res"
where
  "engine_Status K View file e g =
     (case localStatusLocked K file e of Inl err \<Rightarrow> (g, Inl err)
      | Inr (base, addresses, generation) \<Rightarrow>
          if addresses = [] then (g, Inr base)
          else case View addresses 0 g of (g', view) \<Rightarrow> (g', status_end K file e base generation view))"

definition activity_end :: "crypto \<Rightarrow> Engine \<Rightarrow> uint64 \<Rightarrow> ViewResponse res \<Rightarrow> activityResult res" where
  "activity_end K e generation view =
     (case view of Inl _ \<Rightarrow> Inl walletServiceError
      | Inr v \<Rightarrow>
      case remoteSnapshot v of Inl _ \<Rightarrow> Inl walletServiceError
      | Inr snapshot \<Rightarrow>
      case en_unlocked e of None \<Rightarrow> Inl (Err ''Unlock your wallet to see its activity.'')
      | Some unlocked \<Rightarrow>
          failIf (en_walletGeneration e \<noteq> generation) (Err ''Unlock your wallet to see its activity.'')
          (case ValidateRemoteSnapshot K (en_network e) unlocked snapshot of Inl _ \<Rightarrow> Inl walletServiceError
           | Inr _ \<Rightarrow> Inr \<lparr>ar_SchemaVersion = mobileSchemaVersion, ar_Network = en_network e, ar_Height = gt_Height (vr_Tip v), ar_Items = vr_Activity v\<rparr>))"

definition Activity ::
  "crypto \<Rightarrow> (address list \<Rightarrow> int \<Rightarrow> 'g \<Rightarrow> 'g \<times> ViewResponse res) \<Rightarrow> int \<Rightarrow> Engine \<Rightarrow> 'g \<Rightarrow> 'g \<times> activityResult res"
where
  "Activity K View limit e g =
     (if limit < 1 \<or> limit > MaxWalletActivityLimit then (g, Inl (Err ''Choose between 1 and 50 recent transactions.''))
      else case en_unlocked e of None \<Rightarrow> (g, Inl (Err ''Unlock your wallet to see its activity.''))
      | Some unlocked \<Rightarrow>
          (case AddressesE K unlocked of Inl _ \<Rightarrow> (g, Inl (Err ''The wallet could not read its activity safely.''))
           | Inr addresses \<Rightarrow>
               if addresses = [] then (g, Inl (Err ''The wallet could not read its activity safely.''))
               else case View addresses limit g of (g', view) \<Rightarrow> (g', activity_end K e (en_walletGeneration e) view)))"

definition receive_address :: "crypto \<Rightarrow> Engine \<Rightarrow> address res" where
  "receive_address K e =
     (case en_unlocked e of None \<Rightarrow> Inl (Err ''Unlock your wallet to receive 09C.'')
      | Some unlocked \<Rightarrow>
          (case AddressesE K unlocked of Inl _ \<Rightarrow> Inl (Err ''The wallet could not read its receive address.'')
           | Inr addresses \<Rightarrow> failIf (addresses = []) (Err ''The wallet could not read its receive address.'') (Inr (addresses ! 0))))"

section \<open>Payments\<close>

definition prunePendingLocked :: "int \<Rightarrow> Engine \<Rightarrow> Engine" where
  "prunePendingLocked now e = e\<lparr>en_pending := filter (\<lambda>(_, pending). pd_expiresAt pending > now) (en_pending e)\<rparr>"

definition pending_inputs :: "(string \<times> pendingPayment) list \<Rightarrow> OutPoint set" where
  "pending_inputs pending = (\<Union>(_, payment)\<in>set pending. in_Prev ` set (tx_Ins (pd_transaction payment)))"

definition pendingRestrictions :: "int \<Rightarrow> Engine \<Rightarrow> Engine \<times> OutPoint set res" where
  "pendingRestrictions now e =
     (let e1 = prunePendingLocked now e in
      if length (en_pending e1) \<ge> maximumPending then (e1, Inl (Err ''Finish or cancel an existing payment review first.''))
      else (e1, Inr (pending_inputs (en_pending e1))))"

definition storePending :: "int \<Rightarrow> int \<Rightarrow> byte list option \<Rightarrow> Tx \<Rightarrow> Engine \<Rightarrow> Engine \<times> (string \<times> int) res" where
  "storePending created now random transaction e =
     (case random of None \<Rightarrow> (e, Inl (Err ''The payment preview could not be saved.''))
      | Some randomID \<Rightarrow>
          let pendingID = hex_EncodeToString randomID;
              expiresAt = created + pendingLifetime;
              e1 = prunePendingLocked now e
          in if length (en_pending e1) \<ge> maximumPending then (e1, Inl (Err ''Finish or cancel an existing payment review first.''))
             else if pendingID \<in> fst ` set (en_pending e1) then (e1, Inl (Err ''The payment preview could not be saved.''))
             else (e1\<lparr>en_pending := en_pending e1 @ [(pendingID, \<lparr>pd_transaction = transaction, pd_expiresAt = expiresAt, pd_inFlight = False\<rparr>)]\<rparr>,
               Inr (pendingID, expiresAt)))"

definition preview_begin :: "crypto \<Rightarrow> address \<Rightarrow> string \<Rightarrow> string \<Rightarrow> Engine \<Rightarrow> (int \<times> int \<times> address list \<times> uint64) res" where
  "preview_begin K destination amountText feeText e =
     (case parseAmount amountText False of
        Inl _ \<Rightarrow> Inl (Err ''Enter a valid 09C amount with up to eight decimal places.'')
      | Inr amount \<Rightarrow>
      case parseAmount feeText True of Inl _ \<Rightarrow> Inl (Err ''Enter a valid fee with up to eight decimal places.'')
      | Inr fee \<Rightarrow>
          failIf (amount > MaxMoneyUnits - fee) (Err ''Enter a valid fee with up to eight decimal places.'')
          (failIf (\<not> ValidAddress K destination) (Err ''Enter a valid BTC09 recipient address.'')
          (case en_unlocked e of None \<Rightarrow> Inl (Err ''Unlock your wallet before sending 09C.'')
           | Some unlocked \<Rightarrow>
               (case AddressesE K unlocked of Inl _ \<Rightarrow> Inl (Err ''The wallet could not prepare this payment safely.'')
                | Inr addresses \<Rightarrow>
                    failIf (addresses = []) (Err ''The wallet could not prepare this payment safely.'')
                    (Inr (amount, fee, addresses, en_walletGeneration e))))))"

text \<open>The second critical section up to the signed payment: pruning, restrictions, preparation.\<close>

definition preview_prepare ::
  "crypto \<Rightarrow> int \<Rightarrow> ViewResponse res \<Rightarrow> address \<Rightarrow> int \<times> int \<times> address list \<times> uint64 \<Rightarrow> Engine \<Rightarrow> Engine \<times> (Snapshot \<times> PreparedPayment) res"
where
  "preview_prepare K now view destination request e =
     (case request of (amount, fee, _, generation) \<Rightarrow>
      case view of Inl _ \<Rightarrow> (e, Inl walletServiceError)
      | Inr v \<Rightarrow>
      case remoteSnapshot v of Inl _ \<Rightarrow> (e, Inl walletServiceError)
      | Inr remote \<Rightarrow>
      case en_unlocked e of None \<Rightarrow> (e, Inl (Err ''Unlock your wallet before sending 09C.''))
      | Some unlocked \<Rightarrow>
          if en_walletGeneration e \<noteq> generation then (e, Inl (Err ''Unlock your wallet before sending 09C.''))
          else case pendingRestrictions now e of
            (e1, Inl err) \<Rightarrow> (e1, Inl err)
          | (e1, Inr restricted) \<Rightarrow>
              (e1, case PrepareFromRemoteSnapshot K (en_network e) unlocked remote destination amount fee restricted of
                     Inl _ \<Rightarrow> Inl (Err ''The payment could not be prepared. Check the address, amount, fee, and balance.'')
                   | Inr prepared \<Rightarrow> Inr prepared))"

definition upper_ascii :: "char \<Rightarrow> char" where
  "upper_ascii c = (let n = of_char c :: nat in if 97 \<le> n \<and> n \<le> 122 then char_of (n - 32) else c)"

definition preview_result ::
  "crypto \<Rightarrow> address \<Rightarrow> int \<times> int \<times> address list \<times> uint64 \<Rightarrow> Snapshot \<times> PreparedPayment \<Rightarrow> string \<times> int \<Rightarrow> sendPreview"
where
  "preview_result K destination request p stored =
     (case (request, p, stored) of ((amount, fee, _, _), (validated, prepared), (pendingID, expiresAt)) \<Rightarrow>
      let transactionID = hash_bytes (tx_ID K (pp_Tx prepared)) in
      \<lparr>se_SchemaVersion = mobileSchemaVersion, se_PendingID = pendingID, se_Destination = destination, se_AmountUnits = amount, se_FeeUnits = fee,
       se_TotalUnits = wrap64 (amount + fee), se_TxID = hex_EncodeToString transactionID,
       se_SelectedInputs = map (\<lambda>op. outpoint_text (op_TxID op) (op_Idx op)) (pp_SelectedOutpoints prepared),
       se_ChainHeight = ts_Height (sn_Tip validated), se_ExpiresAtUnix = expiresAt div 1000000000,
       se_ConfirmationCode = map upper_ascii (hex_EncodeToString (take 3 transactionID))\<rparr>)"

definition PreviewSend ::
  "crypto \<Rightarrow> (address list \<Rightarrow> int \<Rightarrow> 'g \<Rightarrow> 'g \<times> ViewResponse res) \<Rightarrow> int \<Rightarrow> byte list option \<Rightarrow> address \<Rightarrow> string \<Rightarrow> string \<Rightarrow> Engine \<Rightarrow> 'g \<Rightarrow>
     Engine \<times> 'g \<times> sendPreview res"
where
  "PreviewSend K View now random destination amountText feeText e g =
     (case preview_begin K destination amountText feeText e of Inl err \<Rightarrow> (e, g, Inl err)
      | Inr (amount, fee, addresses, generation) \<Rightarrow>
      case View addresses 0 g of (g', view) \<Rightarrow>
      case preview_prepare K now view destination (amount, fee, addresses, generation) e of
        (e1, Inl err) \<Rightarrow> (e1, g', Inl err)
      | (e1, Inr p) \<Rightarrow>
      case storePending now now random (pp_Tx (snd p)) e1 of
        (e2, Inl err) \<Rightarrow> (e2, g', Inl err)
      | (e2, Inr stored) \<Rightarrow> (e2, g', Inr (preview_result K destination (amount, fee, addresses, generation) p stored)))"

definition set_flight :: "string \<Rightarrow> bool \<Rightarrow> Engine \<Rightarrow> Engine" where
  "set_flight pendingID b e =
     e\<lparr>en_pending := map (\<lambda>(i, pending). if i = pendingID then (i, pending\<lparr>pd_inFlight := b\<rparr>) else (i, pending)) (en_pending e)\<rparr>"

definition delete_pending :: "string \<Rightarrow> Engine \<Rightarrow> Engine" where
  "delete_pending pendingID e = e\<lparr>en_pending := filter (\<lambda>(i, _). i \<noteq> pendingID) (en_pending e)\<rparr>"

definition valid_pending_id :: "string \<Rightarrow> bool" where
  "valid_pending_id pendingID \<longleftrightarrow> pendingID \<noteq> [] \<and> length pendingID \<le> maximumPendingLen"

text \<open>\<^verbatim>\<open>ConfirmSend\<close> before and after the broadcast.\<close>

definition confirm_begin :: "int \<Rightarrow> string \<Rightarrow> Engine \<Rightarrow> Engine \<times> Tx res" where
  "confirm_begin now pendingID e =
     (if \<not> valid_pending_id pendingID then (e, Inl (Err ''That payment preview is not valid.''))
      else case map_of (en_pending e) pendingID of
        None \<Rightarrow> (e, Inl (Err ''That payment preview is no longer available.''))
      | Some pending \<Rightarrow>
          if \<not> pd_expiresAt pending > now then (delete_pending pendingID e, Inl (Err ''That payment preview expired. Review it again.''))
          else if pd_inFlight pending then (e, Inl (Err ''That payment is already being sent.''))
          else (set_flight pendingID True e, Inr (pd_transaction pending)))"

definition submitted :: "string \<Rightarrow> string \<Rightarrow> BroadcastResponse res \<Rightarrow> bool" where
  "submitted network txID r =
     (case r of Inl _ \<Rightarrow> False
      | Inr response \<Rightarrow>
          br_SchemaVersion response = gateway_SchemaVersion \<and> br_Network response = network \<and> br_TxID response = txID \<and>
          br_Status response = ''submitted'' \<and> br_PeerWrites response > 0 \<and>
          (br_Admission response = admission_text TxAcceptanceAdded \<or> br_Admission response = admission_text TxAcceptanceAlreadyKnown))"

definition confirm_end :: "crypto \<Rightarrow> string \<Rightarrow> Tx \<Rightarrow> BroadcastResponse res \<Rightarrow> Engine \<Rightarrow> Engine \<times> sendResult res" where
  "confirm_end K pendingID transaction r e =
     (let txID = hex_EncodeToString (hash_bytes (tx_ID K transaction)) in
      if \<not> submitted (en_network e) txID r
      then (set_flight pendingID False e, Inl (Err ''The payment could not reach the BTC09 network. Check the connection and try again.''))
      else (delete_pending pendingID e,
        case r of Inl err \<Rightarrow> Inl err
        | Inr response \<Rightarrow> Inr \<lparr>sl_SchemaVersion = mobileSchemaVersion, sl_TxID = txID, sl_Status = br_Status response, sl_PeerWrites = br_PeerWrites response\<rparr>))"

definition ConfirmSend ::
  "crypto \<Rightarrow> (Tx option \<Rightarrow> 'g \<Rightarrow> 'g \<times> BroadcastResponse res) \<Rightarrow> int \<Rightarrow> string \<Rightarrow> Engine \<Rightarrow> 'g \<Rightarrow> Engine \<times> 'g \<times> sendResult res"
where
  "ConfirmSend K Broadcast now pendingID e g =
     (case confirm_begin now pendingID e of
        (e1, Inl err) \<Rightarrow> (e1, g, Inl err)
      | (e1, Inr transaction) \<Rightarrow>
          (case Broadcast (Some transaction) g of (g', r) \<Rightarrow>
           case confirm_end K pendingID transaction r e1 of (e2, result) \<Rightarrow> (e2, g', result)))"

definition CancelSend :: "string \<Rightarrow> Engine \<Rightarrow> Engine \<times> unit res" where
  "CancelSend pendingID e =
     (if \<not> valid_pending_id pendingID then (e, Inl (Err ''That payment preview is not valid.''))
      else case map_of (en_pending e) pendingID of
        Some pending \<Rightarrow> if pd_inFlight pending then (e, Inl (Err ''That payment is already being sent.'')) else (delete_pending pendingID e, Inr ())
      | None \<Rightarrow> (e, Inr ()))"

end
