(* ===== verification/ActivityTheorems.thy ===== *)
theory ActivityTheorems
  imports WalletTheorems "HOL-Library.Sublist"
begin

text \<open>
  The rest of the wallet view: immature outputs and activity. Whenever the view of a reachable chain succeeds,
  both are in order and without repetition, and every number in them follows from the chain.
\<close>

section \<open>What a scan leaves behind\<close>

definition spent_in :: "created_map \<Rightarrow> OutPoint \<Rightarrow> bool" where
  "spent_in created op \<longleftrightarrow> (\<exists>w. map_of created op = Some w \<and> cw_spent w)"

lemma spent_in_mark: "spent_in (mark_spent op created) x \<longleftrightarrow> spent_in created x \<or> x = op \<and> map_of created x \<noteq> None"
  by (auto simp: spent_in_def map_of_mark_spent)

lemma spent_in_append: "spent_in created x \<Longrightarrow> spent_in (created @ more') x"
  by (auto simp: spent_in_def map_add_def split: option.splits)

text \<open>Recorded values are money, positive where they are owned, and heights lie between zero and the height of the scan.\<close>

definition values_ok :: "int \<Rightarrow> created_map \<Rightarrow> bool" where
  "values_ok h created \<longleftrightarrow> (\<forall>(op, w)\<in>set created. MoneyRange (cw_value w) \<and> (cw_owned w \<longrightarrow> 0 < cw_value w) \<and> 0 \<le> cw_height w \<and> cw_height w \<le> h)"

lemma values_ok_mark: "values_ok h created \<Longrightarrow> values_ok h (mark_spent op created)"
  by (auto simp: values_ok_def mark_spent_def split: if_splits)

lemma values_ok_mono: "values_ok h created \<Longrightarrow> h \<le> h' \<Longrightarrow> values_ok h' created"
  by (fastforce simp: values_ok_def)

lemma view_input_step:
  assumes "view_input (created, s, b) i = Inr (created', s', b')"
  shows "map_of created (in_Prev i) \<noteq> None \<and> created' = mark_spent (in_Prev i) created \<and> (b \<longrightarrow> b') \<and> (b' \<or> s' = s) \<and> (s \<ge> 0 \<longrightarrow> s' \<ge> 0)"
proof -
  obtain w where w: "map_of created (in_Prev i) = Some w" using assms by (cases "map_of created (in_Prev i)") (auto simp: view_input_def)
  show ?thesis using assms
    by (cases "cw_owned w") (auto simp: view_input_def Let_def w bindE_Inr_iff failIf_Inr_iff addWalletMoney_def addMoney_Inr_iff MoneyRange_def)
qed

lemma view_inputs_marks:
  assumes "foldE view_input (created, s, b) ins = Inr (created', s', b')"
  shows "(\<forall>op. spent_in created op \<longrightarrow> spent_in created' op) \<and> (\<forall>i\<in>set ins. spent_in created' (in_Prev i)) \<and>
    (values_ok h created \<longrightarrow> values_ok h created') \<and> (b \<longrightarrow> b') \<and> (b' \<or> s' = s)"
  using assms
proof (induction ins arbitrary: created s b)
  case (Cons i ins)
  obtain c1 s1 b1 where step: "view_input (created, s, b) i = Inr (c1, s1, b1)"
    and rest: "foldE view_input (c1, s1, b1) ins = Inr (created', s', b')"
    using Cons.prems by (auto simp: bindE_Inr_iff)
  note S = view_input_step [OF step]
  have "\<forall>op. spent_in created op \<longrightarrow> spent_in c1 op" and "spent_in c1 (in_Prev i)" and "values_ok h created \<longrightarrow> values_ok h c1"
    using S values_ok_mark by (auto simp: spent_in_mark)
  then show ?case using Cons.IH [OF rest] S by auto
qed auto

lemma view_output_step:
  assumes "view_output owners txID h cb (created, s, b) (i, o') = Inr (created', s', b')"
  shows "\<exists>w. created' = created @ [(OutPoint txID (of_nat i), w)] \<and> MoneyRange (cw_value w) \<and> (cw_owned w \<longrightarrow> 0 < cw_value w) \<and> cw_height w = h"
proof -
  obtain w s1 b1 where w: "(created', s', b') = (created @ [(OutPoint txID (of_nat i), w)], s1, b1)"
    and e: "wallet_entry w = new_entry h cb o'" and own: "cw_owned w \<longleftrightarrow> owners (cw_pkh w) \<noteq> None"
    using view_output_Inr [OF assms] by blast
  have "MoneyRange (out_Value o')" using assms by (simp add: view_output_def failIf_Inr_iff)
  moreover have "owners (out_PubKeyHash o') \<noteq> None \<Longrightarrow> 0 < out_Value o'"
    using assms by (auto simp: view_output_def failIf_Inr_iff Let_def)
  moreover have "cw_value w = out_Value o'" "cw_height w = h" "cw_pkh w = out_PubKeyHash o'" using e by (simp_all add: wallet_entry_def new_entry_def)
  ultimately show ?thesis using w own by (intro exI [of _ w]) simp
qed

lemma view_outputs_keep:
  assumes "foldE (view_output owners txID h cb) (created, s, b) outs = Inr (created', s', b')" and "0 \<le> h"
  shows "(\<forall>op. spent_in created op \<longrightarrow> spent_in created' op) \<and> (values_ok h created \<longrightarrow> values_ok h created')"
  using assms(1)
proof (induction outs arbitrary: created s b)
  case (Cons e outs)
  obtain i o' where e: "e = (i, o')" by fastforce
  obtain c1 s1 b1 where step: "view_output owners txID h cb (created, s, b) (i, o') = Inr (c1, s1, b1)"
    and rest: "foldE (view_output owners txID h cb) (c1, s1, b1) outs = Inr (created', s', b')"
    using Cons.prems e by (auto simp: bindE_Inr_iff)
  obtain w where w: "c1 = created @ [(OutPoint txID (of_nat i), w)]" "MoneyRange (cw_value w)" "cw_owned w \<longrightarrow> 0 < cw_value w" "cw_height w = h"
    using view_output_step [OF step] by blast
  have "\<forall>op. spent_in created op \<longrightarrow> spent_in c1 op" using w(1) spent_in_append by blast
  moreover have "values_ok h created \<longrightarrow> values_ok h c1" using w assms(2) by (auto simp: values_ok_def)
  ultimately show ?case using Cons.IH [OF rest] by blast
qed auto

section \<open>Confirmed activity\<close>

definition known_kind :: "WalletActivityItem \<Rightarrow> bool" where
  "known_kind a \<longleftrightarrow> - MaxMoneyUnits \<le> wa_NetUnits a \<and> wa_NetUnits a \<le> MaxMoneyUnits \<and>
     (wa_Kind a \<in> {WalletActivityReceived, WalletActivityMiningReward} \<and> 0 < wa_NetUnits a \<or> wa_Kind a \<in> {WalletActivitySent, WalletActivityCleanup})"

definition confirmed_item :: "Params \<Rightarrow> int \<Rightarrow> Hash32 \<Rightarrow> int \<Rightarrow> Hash32 \<Rightarrow> WalletActivityItem \<Rightarrow> bool" where
  "confirmed_item p th blk h txID a \<longleftrightarrow> wa_TxID a = txID \<and> wa_Status a = WalletActivityConfirmed \<and> wa_BlockHash a = blk \<and>
     wa_BlockHeight a = h \<and> wa_Confirmations a = th - h + 1 \<and> known_kind a \<and>
     wa_BlocksUntilMature a = (if wa_Kind a = WalletActivityMiningReward \<and> th - h + 1 < CoinbaseMaturity p then CoinbaseMaturity p - (th - h + 1) else 0)"

lemma checkedWalletNet_Inr: "checkedWalletNet a b = Inr n \<longleftrightarrow> MoneyRange a \<and> MoneyRange b \<and> n = a - b"
proof (cases "MoneyRange a \<and> MoneyRange b")
  case True
  then have "is_int64 (a - b)" "is_int64 (b - a)" by (auto simp: MoneyRange_def MaxMoneyUnits_def UnitsPerCoin_def is_int64_def)
  then show ?thesis using True by (auto simp: checkedWalletNet_def wrap64_id)
qed (auto simp: checkedWalletNet_def)

lemma activity_kind_known:
  assumes "checkedWalletNet out inp = Inr net" and "activity_kind cb out hasIn ext \<noteq> []" and "cb \<longrightarrow> inp = 0" and "\<not> hasIn \<longrightarrow> inp = 0"
    and "wa_Kind a = activity_kind cb out hasIn ext" and "wa_NetUnits a = net"
  shows "known_kind a"
proof -
  have "MoneyRange out" "MoneyRange inp" "net = out - inp" using assms(1) by (auto simp: checkedWalletNet_Inr)
  then show ?thesis using assms(2-) by (auto simp: known_kind_def activity_kind_def MoneyRange_def split: if_splits)
qed

lemma view_tx_activity:
  assumes "view_tx K p owners (blk, h, th - h + 1) (created, act) (n, Some tx) = Inr (created', act')" and "0 \<le> h"
  shows "(act' = act \<or> (\<exists>a. act' = act @ [a] \<and> confirmed_item p th blk h (tx_ID K tx) a))"
    and "spent_in created op \<Longrightarrow> spent_in created' op" and "\<not> IsCoinbase tx \<Longrightarrow> i \<in> set (tx_Ins tx) \<Longrightarrow> spent_in created' (in_Prev i)"
    and "values_ok h created \<Longrightarrow> values_ok h created'"
proof -
  obtain c1 s1 b1 s2 b2 where ins: "(if \<not> IsCoinbase tx then foldE view_input (created, 0, False) (tx_Ins tx)
      else Inr (created, 0, False)) = Inr (c1, s1, b1)"
    and outs: "foldE (view_output owners (tx_ID K tx) h (IsCoinbase tx)) (c1, 0, False) (enumerate 0 (tx_Outs tx)) = Inr (created', s2, b2)"
    and act: "activity_kind (IsCoinbase tx) s2 b1 b2 = [] \<and> act' = act \<or>
      (activity_kind (IsCoinbase tx) s2 b1 b2 \<noteq> [] \<and> (\<exists>net. checkedWalletNet s2 s1 = Inr net \<and>
       act' = act @ [\<lparr>wa_TxID = tx_ID K tx, wa_Kind = activity_kind (IsCoinbase tx) s2 b1 b2, wa_Status = WalletActivityConfirmed,
               wa_NetUnits = net, wa_BlockHash = blk, wa_BlockHeight = h, wa_Confirmations = th - h + 1,
               wa_BlocksUntilMature =
                 (if activity_kind (IsCoinbase tx) s2 b1 b2 = WalletActivityMiningReward \<and> th - h + 1 < CoinbaseMaturity p
                  then CoinbaseMaturity p - (th - h + 1) else 0),
               wa_TransactionIndex = of_nat n\<rparr>]))"
    using assms(1) unfolding view_tx_def Let_def prod.case option.case bindE_Inr_iff failIf_Inr_iff split_paired_Ex
    by (elim conjE exE) (auto simp: bindE_Inr_iff split: if_splits)
  have I: "IsCoinbase tx \<and> c1 = created \<and> s1 = 0 \<and> \<not> b1 \<or> \<not> IsCoinbase tx \<and> foldE view_input (created, 0, False) (tx_Ins tx) = Inr (c1, s1, b1)"
    using ins by (auto split: if_splits)
  have zero: "IsCoinbase tx \<longrightarrow> s1 = 0" "\<not> b1 \<longrightarrow> s1 = 0" using I view_inputs_marks [of created 0 False "tx_Ins tx" c1 s1 b1] by auto
  show "(act' = act \<or> (\<exists>a. act' = act @ [a] \<and> confirmed_item p th blk h (tx_ID K tx) a))"
    using act zero activity_kind_known by (fastforce simp: confirmed_item_def)
  note O = view_outputs_keep [OF outs assms(2)]
  show "spent_in created op \<Longrightarrow> spent_in created' op" "\<not> IsCoinbase tx \<Longrightarrow> i \<in> set (tx_Ins tx) \<Longrightarrow> spent_in created' (in_Prev i)"
    "values_ok h created \<Longrightarrow> values_ok h created'"
    using I O view_inputs_marks [of created 0 False "tx_Ins tx" c1 s1 b1 h] by auto
qed

text \<open>The scanned transactions have left their first output and their spent inputs behind, and each activity item
  belongs to one of them.\<close>

definition accounted :: "crypto \<Rightarrow> created_map \<Rightarrow> Tx \<Rightarrow> bool" where
  "accounted K created tx \<longleftrightarrow> OutPoint (tx_ID K tx) 0 \<in> fst ` set created \<and>
     (\<not> IsCoinbase tx \<longrightarrow> (\<forall>i\<in>set (tx_Ins tx). spent_in created (in_Prev i)))"

definition scan_acts :: "crypto \<Rightarrow> Params \<Rightarrow> int \<Rightarrow> Hash32 set \<Rightarrow> Tx set \<Rightarrow> created_map \<Rightarrow> WalletActivityItem list \<Rightarrow> bool" where
  "scan_acts K p th ids txs created act \<longleftrightarrow>
     (\<forall>tx\<in>txs. accounted K created tx) \<and> distinct (map wa_TxID act) \<and>
     (\<forall>a\<in>set act. \<exists>tx\<in>txs. \<exists>blk\<in>ids. \<exists>h. 0 \<le> h \<and> h \<le> th \<and> confirmed_item p th blk h (tx_ID K tx) a)"

lemma scan_acts_mono: "scan_acts K p th ids txs created act \<Longrightarrow> ids \<subseteq> ids' \<Longrightarrow> scan_acts K p th ids' txs created act"
  unfolding scan_acts_def by (metis subsetD)

lemma scan_acts_tx:
  assumes "view_tx K p owners (blk, h, th - h + 1) (created, act) (n, Some tx) = Inr (created', act')"
    and "scan_acts K p th ids txs created act" and "scan_ok owners created" and "tx_Outs tx \<noteq> []" and "0 \<le> h" and "h \<le> th" and "blk \<in> ids"
  shows "scan_acts K p th ids (insert tx txs) created' act'"
proof -
  note L = view_tx_ledger [OF assms(1,3)] and A = view_tx_activity [OF assms(1,5)]
  have keys: "map fst created' = map fst created @ created_ops K tx" using L by blast
  moreover have "distinct (map fst created')" using L unfolding scan_ok_def by blast
  ultimately have "distinct (map fst created @ created_ops K tx)" by (simp only:)
  then have fresh: "set (map fst created) \<inter> set (created_ops K tx) = {}" by simp
  have first: "OutPoint (tx_ID K tx) 0 \<in> set (created_ops K tx)" using assms(4) by (force simp: created_ops_def)
  have sub: "fst ` set created' = fst ` set created \<union> set (created_ops K tx)" using arg_cong [OF keys, of set] by simp
  have acc: "\<forall>t\<in>txs. accounted K created t" using assms(2) by (simp add: scan_acts_def)
  have new: "tx_ID K tx \<notin> tx_ID K ` txs"
  proof
    assume "tx_ID K tx \<in> tx_ID K ` txs"
    then have "OutPoint (tx_ID K tx) 0 \<in> fst ` set created" using acc by (auto simp: accounted_def)
    then show False using fresh first by auto
  qed
  have "\<forall>t\<in>insert tx txs. accounted K created' t"
    using acc A(2,3) sub first by (auto simp: accounted_def)
  moreover have "distinct (map wa_TxID act') \<and>
      (\<forall>a\<in>set act'. \<exists>t\<in>insert tx txs. \<exists>blk\<in>ids. \<exists>h. 0 \<le> h \<and> h \<le> th \<and> confirmed_item p th blk h (tx_ID K t) a)"
  proof (cases "act' = act")
    case True
    then show ?thesis using assms(2) by (auto simp: scan_acts_def)
  next
    case False
    then obtain a where a: "act' = act @ [a]" "confirmed_item p th blk h (tx_ID K tx) a" using A(1) by blast
    have ids: "\<forall>b\<in>set act. wa_TxID b \<in> tx_ID K ` txs" using assms(2) by (fastforce simp: scan_acts_def confirmed_item_def)
    have "wa_TxID a = tx_ID K tx" using a(2) by (simp add: confirmed_item_def)
    then have "wa_TxID a \<notin> wa_TxID ` set act" using ids new by auto
    moreover have "\<exists>t\<in>insert tx txs. \<exists>blk\<in>ids. \<exists>h. 0 \<le> h \<and> h \<le> th \<and> confirmed_item p th blk h (tx_ID K t) a"
      using a(2) assms(5-7) by blast
    ultimately show ?thesis using a(1) assms(2) by (auto simp: scan_acts_def)
  qed
  ultimately show ?thesis by (simp add: scan_acts_def)
qed

lemma scan_acts_txs:
  assumes "foldE (view_tx K p owners (blk, h, th - h + 1)) (created, act) (enumerate n (map Some ts)) = Inr (created', act')"
    and "scan_acts K p th ids txs created act" and "scan_ok owners created" and "\<forall>t\<in>set ts. tx_Outs t \<noteq> []"
    and "0 \<le> h" and "h \<le> th" and "blk \<in> ids" and "values_ok h created"
  shows "scan_acts K p th ids (txs \<union> set ts) created' act' \<and> values_ok h created'"
  using assms(1-4,8)
proof (induction ts arbitrary: n created act txs)
  case Nil
  then show ?case by simp
next
  case (Cons t ts)
  obtain c1 a1 where c1: "view_tx K p owners (blk, h, th - h + 1) (created, act) (n, Some t) = Inr (c1, a1)"
    and rest: "foldE (view_tx K p owners (blk, h, th - h + 1)) (c1, a1) (enumerate (Suc n) (map Some ts)) = Inr (created', act')"
    using Cons.prems(1) by (auto simp: bindE_Inr_iff)
  have "scan_acts K p th ids (insert t txs) c1 a1" using scan_acts_tx [OF c1 Cons.prems(2,3)] Cons.prems(4) assms(5-7) by simp
  moreover have "scan_ok owners c1" using view_tx_ledger [OF c1 Cons.prems(3)] by blast
  moreover have "values_ok h c1" using view_tx_activity(4) [OF c1 assms(5)] Cons.prems(5) by blast
  ultimately show ?case using Cons.IH [OF rest, of "insert t txs"] Cons.prems(4) by simp
qed

definition block_txs :: "blockIndex list \<Rightarrow> Tx set" where
  "block_txs bs = {tx. \<exists>bi\<in>set bs. Some tx \<in> set (blk_Txs (bi_block bi))}"

lemma scan_acts_blocks:
  assumes "foldE (view_block K p owners th) ([], []) (enumerate 0 bs) = Inr (created, act)"
    and "ledger_of K p' (map bi_block bs) = Some u" and "int (length bs) \<le> th + 1"
  shows "scan_acts K p th (bi_id ` set bs) (block_txs bs) created act \<and> values_ok (int (length bs) - 1) created"
  using assms
proof (induction bs arbitrary: created act u rule: rev_induct)
  case Nil
  then show ?case by (simp add: scan_acts_def block_txs_def values_ok_def)
next
  case (snoc bi bs)
  obtain c1 a1 where c1: "foldE (view_block K p owners th) ([], []) (enumerate 0 bs) = Inr (c1, a1)"
    and last: "view_block K p owners th (c1, a1) (length bs, bi) = Inr (created, act)"
    using snoc.prems(1) by (auto simp: enumerate_append_eq foldE_append bindE_Inr_iff)
  obtain u1 where u1: "ledger_of K p' (map bi_block bs) = Some u1" "connectBlock K p' u1 (bi_block bi) (length bs) = Some u"
    using snoc.prems(2) by (auto simp: ledger_of_snoc split: option.splits)
  obtain txs where txs: "blk_Txs (bi_block bi) = map Some txs" "sane_txs K txs"
    using u1(2) by (auto simp: connectBlock_Some checkBlockSanity_iff)
  have ok: "scan_ok owners c1" using view_blocks_ledger [OF c1 u1(1)] by blast
  have IH: "scan_acts K p th (bi_id ` set bs) (block_txs bs) c1 a1" "values_ok (int (length bs) - 1) c1"
    using snoc.IH [OF c1 u1(1)] snoc.prems(3) by simp_all
  have v: "values_ok (int (length bs)) c1" by (rule values_ok_mono [OF IH(2)]) simp
  have run: "foldE (view_tx K p owners (bi_id bi, int (length bs), th - int (length bs) + 1)) (c1, a1) (enumerate 0 (map Some txs)) = Inr (created, act)"
    using last txs(1) by (simp add: view_block_def)
  have out: "\<forall>t\<in>set txs. tx_Outs t \<noteq> []" using txs(2) by (auto simp: sane_txs_def sane_tx_def)
  have ids: "scan_acts K p th (bi_id ` set (bs @ [bi])) (block_txs bs) c1 a1" by (rule scan_acts_mono [OF IH(1)]) auto
  have "scan_acts K p th (bi_id ` set (bs @ [bi])) (block_txs bs \<union> set txs) created act \<and> values_ok (int (length bs)) created"
    using scan_acts_txs [OF run ids ok out _ _ _ v] snoc.prems(3) by simp
  moreover have "block_txs (bs @ [bi]) = block_txs bs \<union> set txs" using txs(1) by (auto simp: block_txs_def)
  ultimately show ?case by simp
qed

section \<open>Mempool activity\<close>

definition pool_item :: "Hash32 \<Rightarrow> WalletActivityItem \<Rightarrow> bool" where
  "pool_item txID a \<longleftrightarrow> wa_TxID a = txID \<and> wa_Status a = WalletActivityMempool \<and> wa_BlockHash a = 0 \<and> wa_BlockHeight a = -1 \<and>
     wa_Confirmations a = 0 \<and> wa_BlocksUntilMature a = 0 \<and> wa_Kind a \<noteq> WalletActivityMiningReward \<and> known_kind a"

lemma pool_input_step:
  assumes "pool_input created (spent, s, b) i = Inr (spent', s', b')"
  shows "\<not> spent_in created (in_Prev i) \<and> (b \<longrightarrow> b') \<and> (b' \<or> s' = s)"
proof -
  obtain w where w: "map_of created (in_Prev i) = Some w" using assms by (cases "map_of created (in_Prev i)") (auto simp: pool_input_def)
  show ?thesis using assms
    by (cases "cw_owned w") (auto simp: pool_input_def Let_def w bindE_Inr_iff failIf_Inr_iff spent_in_def)
qed

lemma pool_inputs_unspent:
  assumes "foldE (pool_input created) (spent, s, b) ins = Inr (spent', s', b')"
  shows "(\<forall>i\<in>set ins. \<not> spent_in created (in_Prev i)) \<and> (b \<longrightarrow> b') \<and> (b' \<or> s' = s)"
  using assms
proof (induction ins arbitrary: spent s b)
  case (Cons i ins)
  obtain m1 s1 b1 where step: "pool_input created (spent, s, b) i = Inr (m1, s1, b1)"
    and rest: "foldE (pool_input created) (m1, s1, b1) ins = Inr (spent', s', b')"
    using Cons.prems by (auto simp: bindE_Inr_iff)
  show ?case using pool_input_step [OF step] Cons.IH [OF rest] by auto
qed auto

lemma view_pool_tx_item:
  assumes "view_pool_tx owners created (spent, act) (txID, tx) = Inr (spent', act')"
  shows "(\<forall>i\<in>set (tx_Ins tx). \<not> spent_in created (in_Prev i)) \<and> (act' = act \<or> (\<exists>a. act' = act @ [a] \<and> pool_item txID a))"
proof -
  obtain m1 s1 b1 s2 b2 where ins: "foldE (pool_input created) (spent, 0, False) (tx_Ins tx) = Inr (m1, s1, b1)"
    and act: "activity_kind False s2 b1 b2 = [] \<and> act' = act \<or>
      activity_kind False s2 b1 b2 \<noteq> [] \<and> (\<exists>net. checkedWalletNet s2 s1 = Inr net \<and>
       act' = act @ [\<lparr>wa_TxID = txID, wa_Kind = activity_kind False s2 b1 b2, wa_Status = WalletActivityMempool,
          wa_NetUnits = net, wa_BlockHash = 0, wa_BlockHeight = -1, wa_Confirmations = 0,
          wa_BlocksUntilMature = 0, wa_TransactionIndex = 0\<rparr>])"
    using assms unfolding view_pool_tx_def Let_def prod.case bindE_Inr_iff split_paired_Ex
    by (elim conjE exE) (auto simp: bindE_Inr_iff split: if_splits)
  note I = pool_inputs_unspent [OF ins]
  have "activity_kind False s2 b1 b2 \<noteq> WalletActivityMiningReward"
    by (simp add: activity_kind_def WalletActivityMiningReward_def WalletActivityCleanup_def WalletActivitySent_def WalletActivityReceived_def)
  then have "act' = act \<or> (\<exists>a. act' = act @ [a] \<and> pool_item txID a)"
    using act I activity_kind_known [of s2 s1 _ False b1 b2] by (fastforce simp: pool_item_def)
  then show ?thesis using I by blast
qed

lemma view_pool_items:
  assumes "foldE (view_pool_tx owners created) (spent, act) pool = Inr (spent', act')"
  shows "\<exists>new. act' = act @ new \<and> subseq (map wa_TxID new) (map fst pool) \<and> (\<forall>a\<in>set new. pool_item (wa_TxID a) a) \<and>
    (\<forall>(txID, tx)\<in>set pool. \<forall>i\<in>set (tx_Ins tx). \<not> spent_in created (in_Prev i))"
  using assms
proof (induction pool arbitrary: spent act)
  case Nil
  then show ?case by simp
next
  case (Cons e pool)
  obtain txID tx where e: "e = (txID, tx)" by fastforce
  obtain m1 a1 where step: "view_pool_tx owners created (spent, act) (txID, tx) = Inr (m1, a1)"
    and rest: "foldE (view_pool_tx owners created) (m1, a1) pool = Inr (spent', act')"
    using Cons.prems e by (auto simp: bindE_Inr_iff)
  obtain new where new: "act' = a1 @ new" "subseq (map wa_TxID new) (map fst pool)" "\<forall>a\<in>set new. pool_item (wa_TxID a) a"
    "\<forall>(txID, tx)\<in>set pool. \<forall>i\<in>set (tx_Ins tx). \<not> spent_in created (in_Prev i)"
    using Cons.IH [OF rest] by blast
  note S = view_pool_tx_item [OF step]
  show ?case
  proof (cases "a1 = act")
    case True
    then show ?thesis using new S e by (intro exI [of _ new]) auto
  next
    case False
    then obtain a where a: "a1 = act @ [a]" "pool_item txID a" using S by blast
    moreover have "wa_TxID a = txID" using a(2) by (simp add: pool_item_def)
    ultimately show ?thesis using new S e by (intro exI [of _ "a # new"]) auto
  qed
qed

section \<open>The view\<close>

definition immature_of :: "int \<Rightarrow> canonicalWalletOutput \<Rightarrow> ImmatureOutputSnapshot" where
  "immature_of th w = \<lparr>im_OutPoint = cw_outpoint w, im_AmountUnits = cw_value w, im_OwnerPKH = cw_pkh w, im_OwnerIndex = cw_ownerIndex w,
     im_BlockHeight = cw_height w, im_Confirmations = th - cw_height w + 1\<rparr>"

lemma collect_immature:
  assumes "foldE (collect_output p th ms) (sp, su, im, iu) created = Inr (sp', su', im', iu')"
  shows "im' = im @ map (immature_of th) (filter (is_immature p th) (map snd created)) \<and>
    iu' = iu + (\<Sum>w\<leftarrow>filter (is_immature p th) (map snd created). cw_value w) \<and>
    (MoneyRange su \<and> MoneyRange iu \<longrightarrow> MoneyRange su' \<and> MoneyRange iu')"
  using assms
proof (induction created arbitrary: sp su im iu)
  case Nil
  then show ?case by simp
next
  case (Cons e created)
  obtain op w where e: "e = (op, w)" by fastforce
  obtain sp1 su1 im1 iu1 where s1: "collect_output p th ms (sp, su, im, iu) (op, w) = Inr (sp1, su1, im1, iu1)"
    and rest: "foldE (collect_output p th ms) (sp1, su1, im1, iu1) created = Inr (sp', su', im', iu')"
    using Cons.prems e by (auto simp: bindE_Inr_iff)
  have "im1 = im @ (if is_immature p th w then [immature_of th w] else [])" "iu1 = iu + (if is_immature p th w then cw_value w else 0)"
    "MoneyRange su \<and> MoneyRange iu \<longrightarrow> MoneyRange su1 \<and> MoneyRange iu1"
    using s1
    by (auto simp: collect_output_def is_immature_def immature_of_def Let_def addWalletMoney_def
        bindE_Inr_iff addMoney_Inr_iff split: if_splits)
  then show ?case using Cons.IH [OF rest] e by (cases "is_immature p th w") auto
qed

text \<open>The transactions of the best chain and of the mempool.\<close>

definition known_txs :: "Chain \<Rightarrow> Tx set" where
  "known_txs c = {tx. \<exists>h blk. BlockAt c h = Inr (Some blk) \<and> Some tx \<in> set (blk_Txs blk)} \<union> snd ` set (ch_mempool c)"

lemma reach_scan:
  assumes "chain_reach K p stored c" and "canonical_params p" and "walletViewForOwnersLocked K c owners limit = Inr v"
  obtains bs created act ms pact sp im
  where "branch K p (ch_index c) (ch_tip c) bs" and "ch_mainIDs c = map bi_id bs"
    and "scan_ok owners created" and "scan_acts K p (bi_height (ch_tip c)) (set (ch_mainIDs c)) (block_txs bs) created act"
    and "values_ok (bi_height (ch_tip c)) created" and "block_txs bs \<subseteq> known_txs c"
    and "foldE (view_pool_tx owners created) ({}, []) (sort_key fst (ch_mempool c)) = Inr (ms, pact)"
    and "foldE (collect_output p (bi_height (ch_tip c)) ms) ([], 0, [], 0) created = Inr (sp, wv_SpendableUnits v, im, wv_ImmatureUnits v)"
    and "wv_SpendableOutputs v = sort_key so_OutPoint sp" and "wv_ImmatureOutputs v = sort_key im_OutPoint im"
    and "wv_Activity v = take (nat limit) (pact @ sort_key (\<lambda>a. (- wa_BlockHeight a, - int (unat (wa_TransactionIndex a)), wa_TxID a)) act)"
proof -
  have inv: "chain_inv K c" and par: "ch_params c = p" using assms(1) reach_chain_inv reach_params by blast+
  obtain bs network where bs: "branch K p (ch_index c) (ch_tip c) bs" "ch_mainIDs c = map bi_id bs"
    "validatedCanonicalSequenceLocked K c = Inr bs"
    "canonicalTipSnapshotLocked K c = Inr \<lparr>ts_Network = network, ts_Hash = bi_id (ch_tip c), ts_Height = bi_height (ch_tip c)\<rparr>"
    using reach_main [OF assms(1,2)] by metis
  have led: "ledger_of K p (map bi_block bs) = Some (ch_utxo c)"
  proof -
    obtain bs' where "branch K p (ch_index c) (ch_tip c) bs'" "ledger_of K p (map bi_block bs') = Some (ch_utxo c)"
      using chain_invD [OF inv] par by metis
    then show ?thesis using branch_unique [OF bs(1)] by metis
  qed
  let ?th = "bi_height (ch_tip c)"
  have len: "?th = int (length bs) - 1" using branch_shape [OF bs(1)] by blast
  obtain created act ms pact sp su im iu
    where scan: "foldE (view_block K p owners ?th) ([], []) (enumerate 0 bs) = Inr (created, act)"
    and pool: "foldE (view_pool_tx owners created) ({}, []) (sort_key fst (ch_mempool c)) = Inr (ms, pact)"
    and col: "foldE (collect_output p ?th ms) ([], 0, [], 0) created = Inr (sp, su, im, iu)"
    and v: "wv_SpendableOutputs v = sort_key so_OutPoint sp" "wv_SpendableUnits v = su" "wv_ImmatureOutputs v = sort_key im_OutPoint im"
      "wv_ImmatureUnits v = iu"
      "wv_Activity v = take (nat limit) (pact @ sort_key (\<lambda>a. (- wa_BlockHeight a, - int (unat (wa_TransactionIndex a)), wa_TxID a)) act)"
    using assms(3) bs(3,4) par
    by (auto simp: walletViewForOwnersLocked_def failIf_Inr_iff bindE_Inr_iff)
  have "scan_acts K p ?th (bi_id ` set bs) (block_txs bs) created act \<and> values_ok (int (length bs) - 1) created"
    using scan_acts_blocks [OF scan led] len by simp
  then have acts: "scan_acts K p ?th (set (ch_mainIDs c)) (block_txs bs) created act" "values_ok ?th created"
    using bs(2) len by simp_all
  have "\<exists>h. BlockAt c h = Inr (Some (bi_block bi))" if bi: "bi \<in> set bs" for bi
  proof -
    obtain i where i: "i < length bs" "bi = bs ! i" using bi by (auto simp: in_set_conv_nth)
    then show ?thesis
      using main_entry_branch [OF inv _ bs(2), of "int i"] bs(1,2) par by (intro exI [of _ "int i"]) (simp add: BlockAt_def)
  qed
  then have "block_txs bs \<subseteq> known_txs c" unfolding block_txs_def known_txs_def by blast
  then show ?thesis
    using that [OF bs(1,2) _ acts _ pool] view_blocks_ledger [OF scan led] col v by simp
qed

text \<open>Activity: mempool items first, in the order of their ids, then confirmed items from the newest block down, no
  transaction twice.\<close>

definition activity_ok :: "Params \<Rightarrow> int \<Rightarrow> Hash32 set \<Rightarrow> WalletActivityItem list \<Rightarrow> bool" where
  "activity_ok p th ids acts \<longleftrightarrow> distinct (map wa_TxID acts) \<and>
     (\<exists>pool conf. acts = pool @ conf \<and> sorted_wrt (<) (map wa_TxID pool) \<and> (\<forall>a\<in>set pool. pool_item (wa_TxID a) a) \<and>
        sorted_wrt (\<ge>) (map wa_BlockHeight conf) \<and>
        (\<forall>a\<in>set conf. \<exists>blk\<in>ids. \<exists>h. 0 \<le> h \<and> h \<le> th \<and> confirmed_item p th blk h (wa_TxID a) a))"

lemma distinct_map_sort_key: "distinct (map f (sort_key k xs)) \<longleftrightarrow> distinct (map f xs)"
  by (rule mset_eq_imp_distinct_iff) simp

lemma sorted_wrt_subseq: "subseq xs ys \<Longrightarrow> sorted_wrt P ys \<Longrightarrow> sorted_wrt P xs"
proof (induction rule: list_emb.induct)
  case (list_emb_Cons2 x y xs ys)
  then show ?case using list_emb_set [OF list_emb_Cons2(2)] by fastforce
qed auto

lemma activity_ok_take: "activity_ok p th ids acts \<Longrightarrow> activity_ok p th ids (take n acts)"
proof -
  assume "activity_ok p th ids acts"
  then obtain pool conf where d: "distinct (map wa_TxID (pool @ conf))" "acts = pool @ conf" "sorted_wrt (<) (map wa_TxID pool)"
    "\<forall>a\<in>set pool. pool_item (wa_TxID a) a" "sorted_wrt (\<ge>) (map wa_BlockHeight conf)"
    "\<forall>a\<in>set conf. \<exists>blk\<in>ids. \<exists>h. 0 \<le> h \<and> h \<le> th \<and> confirmed_item p th blk h (wa_TxID a) a"
    unfolding activity_ok_def by blast
  have "distinct (map wa_TxID (take n acts))" using d(1,2) by (metis distinct_take take_map)
  moreover have "sorted_wrt (<) (map wa_TxID (take n pool))" "sorted_wrt (\<ge>) (map wa_BlockHeight (take (n - length pool) conf))"
    using d(3,5) by (metis sorted_wrt_take take_map)+
  ultimately show ?thesis unfolding activity_ok_def d(2) take_append
    using d(4,6) by (intro conjI exI [of _ "take n pool"] exI [of _ "take (n - length pool) conf"]) (auto dest: in_set_takeD)
qed

lemma view_activity:
  assumes "chain_reach K p stored c" and "canonical_params p" and "walletViewForOwnersLocked K c owners limit = Inr v"
    and "inj_on (tx_ID K) (known_txs c)"
  shows "activity_ok p (bi_height (ch_tip c)) (set (ch_mainIDs c)) (wv_Activity v)"
proof -
  let ?th = "bi_height (ch_tip c)" and ?ids = "set (ch_mainIDs c)" and ?pool = "sort_key fst (ch_mempool c)"
  let ?key = "\<lambda>a. (- wa_BlockHeight a, - int (unat (wa_TransactionIndex a)), wa_TxID a)"
  have inv: "chain_inv K c" and par: "ch_params c = p" using assms(1) reach_chain_inv reach_params by blast+
  then have pool: "mempool_inv K p (ch_utxo c) (?th + 1) (ch_mempool c)" by (simp add: chain_inv_def)
  obtain bs created act ms pact where sa: "scan_acts K p ?th ?ids (block_txs bs) created act" and known: "block_txs bs \<subseteq> known_txs c"
    and run: "foldE (view_pool_tx owners created) ({}, []) ?pool = Inr (ms, pact)" and v: "wv_Activity v = take (nat limit) (pact @ sort_key ?key act)"
    by (rule reach_scan [OF assms(1-3)]) blast
  obtain new where new: "pact = new" "subseq (map wa_TxID new) (map fst ?pool)" "\<forall>a\<in>set new. pool_item (wa_TxID a) a"
    "\<forall>(txID, tx)\<in>set ?pool. \<forall>i\<in>set (tx_Ins tx). \<not> spent_in created (in_Prev i)"
    using view_pool_items [OF run] by auto
  have "distinct (map fst (ch_mempool c))" using pool by (simp add: mempool_inv_def)
  then have "distinct (map fst ?pool)" by (simp only: distinct_map_sort_key)
  then have "sorted_wrt (<) (map fst ?pool)" by (simp add: strict_sorted_iff)
  then have sorted: "sorted_wrt (<) (map wa_TxID pact)" using sorted_wrt_subseq [OF new(2)] new(1) by simp
  have keys: "wa_TxID a \<in> fst ` set (ch_mempool c)" if "a \<in> set pact" for a
    using list_emb_set [OF new(2), of "wa_TxID a"] that new(1) by auto
  have disj: "wa_TxID ` set pact \<inter> wa_TxID ` set act = {}"
  proof (rule ccontr)
    assume "wa_TxID ` set pact \<inter> wa_TxID ` set act \<noteq> {}"
    then obtain a b where ab: "a \<in> set pact" "b \<in> set act" "wa_TxID a = wa_TxID b" by auto
    obtain tx where tx: "(wa_TxID a, tx) \<in> set (ch_mempool c)" using keys [OF ab(1)] by auto
    then have m: "wa_TxID a = tx_ID K tx" "\<not> IsCoinbase tx" "\<exists>fee. checkTxLocked K p (ch_utxo c) tx (?th + 1) = Inr fee"
      using pool by (auto simp: mempool_inv_def)
    obtain t where t: "t \<in> block_txs bs" "wa_TxID b = tx_ID K t" using sa ab(2) by (fastforce simp: scan_acts_def confirmed_item_def)
    have "t \<in> known_txs c" using t(1) known by blast
    moreover have "tx \<in> known_txs c" unfolding known_txs_def using imageI [OF tx, of snd] by simp
    ultimately have both: "t \<in> known_txs c" "tx \<in> known_txs c" .
    have "tx_ID K t = tx_ID K tx" using t(2) ab(3) m(1) by (simp only:)
    then have "t = tx" by (rule inj_onD [OF assms(4) _ both])
    then have "\<forall>i\<in>set (tx_Ins tx). spent_in created (in_Prev i)" using sa t(1) m(2) by (auto simp: scan_acts_def accounted_def)
    moreover have "\<forall>i\<in>set (tx_Ins tx). \<not> spent_in created (in_Prev i)" using new(4) tx by auto
    moreover have "tx_Ins tx \<noteq> []" using m(3) by (auto simp: checkTxLocked_def failIf_Inr_iff)
    ultimately show False by (cases "tx_Ins tx") auto
  qed
  have "distinct (map wa_TxID (pact @ sort_key ?key act))"
  proof -
    have "distinct (map wa_TxID act)" using sa by (simp add: scan_acts_def)
    then have "distinct (map wa_TxID (sort_key ?key act))" by (simp only: distinct_map_sort_key)
    moreover have "distinct (map wa_TxID pact)" using sorted strict_sorted_iff by blast
    ultimately show ?thesis using disj by (simp only: map_append distinct_append set_map set_sort simp_thms)
  qed
  moreover have "sorted_wrt (\<ge>) (map wa_BlockHeight (sort_key ?key act))"
  proof -
    have "sorted_wrt (\<lambda>a b. ?key a \<le> ?key b) (sort_key ?key act)" using sorted_sort_key [of ?key act] by (simp only: sorted_map)
    then have "sorted_wrt (\<lambda>a b. wa_BlockHeight a \<ge> wa_BlockHeight b) (sort_key ?key act)"
      by (rule sorted_wrt_mono_rel [rotated]) (auto simp: less_eq_prod_def)
    then show ?thesis by (simp add: sorted_wrt_map)
  qed
  moreover have "\<exists>blk\<in>?ids. \<exists>h. 0 \<le> h \<and> h \<le> ?th \<and> confirmed_item p ?th blk h (wa_TxID a) a" if "a \<in> set (sort_key ?key act)" for a
  proof -
    have "a \<in> set act" using that by simp
    then obtain tx blk h where "blk \<in> ?ids" "0 \<le> h" "h \<le> ?th" "confirmed_item p ?th blk h (tx_ID K tx) a"
      using sa unfolding scan_acts_def by blast
    then show ?thesis by (auto simp: confirmed_item_def)
  qed
  ultimately have "activity_ok p ?th ?ids (pact @ sort_key ?key act)"
    unfolding activity_ok_def using sorted new(1,3) by (intro conjI exI [of _ pact] exI [of _ "sort_key ?key act"]) auto
  then show ?thesis unfolding v by (rule activity_ok_take)
qed

text \<open>Outputs: both lists are strictly sorted and disjoint, and each entry is a positive amount of a requested owner.\<close>

definition owned_money :: "owner_map \<Rightarrow> PKH \<Rightarrow> uint32 \<Rightarrow> int \<Rightarrow> bool" where
  "owned_money owners pkh index amount \<longleftrightarrow> owners pkh = Some index \<and> 0 < amount \<and> MoneyRange amount"

lemma view_outputs:
  assumes "chain_reach K p stored c" and "canonical_params p" and "walletViewForOwnersLocked K c owners limit = Inr v"
  shows "sorted_wrt (<) (map so_OutPoint (wv_SpendableOutputs v))" and "sorted_wrt (<) (map im_OutPoint (wv_ImmatureOutputs v))"
    and "so_OutPoint ` set (wv_SpendableOutputs v) \<inter> im_OutPoint ` set (wv_ImmatureOutputs v) = {}"
    and "s \<in> set (wv_SpendableOutputs v) \<Longrightarrow> owned_money owners (so_OwnerPKH s) (so_OwnerIndex s) (so_AmountUnits s)"
    and "m \<in> set (wv_ImmatureOutputs v) \<Longrightarrow> owned_money owners (im_OwnerPKH m) (im_OwnerIndex m) (im_AmountUnits m) \<and>
      0 \<le> im_BlockHeight m \<and> im_BlockHeight m \<le> bi_height (ch_tip c) \<and> im_Confirmations m = bi_height (ch_tip c) - im_BlockHeight m + 1 \<and>
      im_Confirmations m < CoinbaseMaturity p"
    and "wv_ImmatureUnits v = (\<Sum>m\<leftarrow>wv_ImmatureOutputs v. im_AmountUnits m)"
    and "MoneyRange (wv_SpendableUnits v)" and "MoneyRange (wv_ImmatureUnits v)"
proof -
  let ?th = "bi_height (ch_tip c)"
  obtain created ms sp im where ok: "scan_ok owners created" and val: "values_ok ?th created"
    and col: "foldE (collect_output p ?th ms) ([], 0, [], 0) created = Inr (sp, wv_SpendableUnits v, im, wv_ImmatureUnits v)"
    and v: "wv_SpendableOutputs v = sort_key so_OutPoint sp" "wv_ImmatureOutputs v = sort_key im_OutPoint im"
    by (rule reach_scan [OF assms]) blast
  let ?ws = "map snd created"
  have sp: "sp = map spendable_of (filter (is_spendable p ?th ms) ?ws)" using collect_outputs [OF col] by simp
  have im: "im = map (immature_of ?th) (filter (is_immature p ?th) ?ws)" and units: "wv_ImmatureUnits v = (\<Sum>w\<leftarrow>filter (is_immature p ?th) ?ws. cw_value w)"
    and "MoneyRange (wv_SpendableUnits v) \<and> MoneyRange (wv_ImmatureUnits v)"
    using collect_immature [OF col] by (simp_all add: MoneyRange_def MaxMoneyUnits_def UnitsPerCoin_def)
  then show "MoneyRange (wv_SpendableUnits v)" "MoneyRange (wv_ImmatureUnits v)" by blast+
  have "map cw_outpoint ?ws = map fst created" using ok by (auto simp: scan_ok_def)
  moreover have "distinct (map fst created)" using ok by (simp add: scan_ok_def)
  ultimately have dist: "distinct (map cw_outpoint ?ws)" by (simp only:)
  have "distinct (map so_OutPoint sp)" "distinct (map im_OutPoint im)"
    using distinct_map_filter [OF dist] by (simp_all add: sp im comp_def spendable_of_def immature_of_def)
  then have "distinct (map so_OutPoint (wv_SpendableOutputs v))" "distinct (map im_OutPoint (wv_ImmatureOutputs v))"
    by (simp_all only: v distinct_map_sort_key)
  then show "sorted_wrt (<) (map so_OutPoint (wv_SpendableOutputs v))" "sorted_wrt (<) (map im_OutPoint (wv_ImmatureOutputs v))"
    by (simp_all add: v strict_sorted_iff)
  have live: "w \<in> set ?ws \<Longrightarrow> cw_owned w \<Longrightarrow> owned_money owners (cw_pkh w) (cw_ownerIndex w) (cw_value w) \<and> 0 \<le> cw_height w \<and> cw_height w \<le> ?th" for w
    using ok val by (fastforce simp: scan_ok_def values_ok_def owned_money_def)
  show "so_OutPoint ` set (wv_SpendableOutputs v) \<inter> im_OutPoint ` set (wv_ImmatureOutputs v) = {}"
  proof (rule ccontr)
    assume "so_OutPoint ` set (wv_SpendableOutputs v) \<inter> im_OutPoint ` set (wv_ImmatureOutputs v) \<noteq> {}"
    moreover have "so_OutPoint ` set (wv_SpendableOutputs v) = cw_outpoint ` {w \<in> set ?ws. is_spendable p ?th ms w}"
      "im_OutPoint ` set (wv_ImmatureOutputs v) = cw_outpoint ` {w \<in> set ?ws. is_immature p ?th w}"
      by (simp_all add: v sp im image_image spendable_of_def immature_of_def)
    ultimately have "cw_outpoint ` {w \<in> set ?ws. is_spendable p ?th ms w} \<inter> cw_outpoint ` {w \<in> set ?ws. is_immature p ?th w} \<noteq> {}"
      by (simp only: not_False_eq_True)
    then obtain w w' where w: "w \<in> set ?ws" "w' \<in> set ?ws" "is_spendable p ?th ms w" "is_immature p ?th w'" "cw_outpoint w = cw_outpoint w'"
      by blast
    have "w = w'" using dist w(1,2,5) by (metis distinct_map inj_onD)
    then show False using w(3,4) by (simp add: is_spendable_def is_immature_def)
  qed
  show "owned_money owners (so_OwnerPKH s) (so_OwnerIndex s) (so_AmountUnits s)" if s: "s \<in> set (wv_SpendableOutputs v)"
  proof -
    obtain w where "w \<in> set ?ws" "is_spendable p ?th ms w" "s = spendable_of w" using s by (auto simp: v sp)
    then show ?thesis using live [of w] by (simp add: is_spendable_def spendable_of_def)
  qed
  show "owned_money owners (im_OwnerPKH m) (im_OwnerIndex m) (im_AmountUnits m) \<and>
      0 \<le> im_BlockHeight m \<and> im_BlockHeight m \<le> ?th \<and> im_Confirmations m = ?th - im_BlockHeight m + 1 \<and>
      im_Confirmations m < CoinbaseMaturity p" if m: "m \<in> set (wv_ImmatureOutputs v)"
  proof -
    obtain w where "w \<in> set ?ws" "is_immature p ?th w" "m = immature_of ?th w" using m by (auto simp: v im)
    then show ?thesis using live [of w] by (simp add: is_immature_def immature_of_def)
  qed
  have "wv_ImmatureUnits v = (\<Sum>m\<leftarrow>im. im_AmountUnits m)" by (simp add: units im immature_of_def comp_def)
  also have "\<dots> = (\<Sum>m\<leftarrow>wv_ImmatureOutputs v. im_AmountUnits m)" unfolding v by (metis mset_map mset_sort sum_mset_sum_list)
  finally show "wv_ImmatureUnits v = (\<Sum>m\<leftarrow>wv_ImmatureOutputs v. im_AmountUnits m)" .
qed

text \<open>An owner's index is a position of its key hash in the request.\<close>

lemma owners_loop_index:
  assumes "owners_loop d k pkhs m = Inr owners" and "\<forall>pkh i. m pkh = Some i \<longrightarrow> P pkh i"
    and "\<forall>j<length pkhs. P (pkhs ! j) (of_nat (k + j))" and "owners pkh = Some i"
  shows "P pkh i"
  using assms
proof (induction pkhs arbitrary: k m)
  case (Cons q pkhs)
  have tail: "\<forall>j<length pkhs. P (pkhs ! j) (of_nat (Suc k + j))" using Cons.prems(3) by (metis Suc_less_eq add_Suc_shift length_Cons nth_Cons_Suc)
  have head: "P q (of_nat k)" using Cons.prems(3) by (metis add_0_right length_greater_0_conv list.discI nth_Cons_0)
  show ?case
  proof (cases "m q = None")
    case True
    then have "owners_loop d (Suc k) pkhs (m(q \<mapsto> of_nat k)) = Inr owners" using Cons.prems(1) by simp
    then show ?thesis using Cons.IH [OF _ _ tail Cons.prems(4)] Cons.prems(2) head by simp
  next
    case False
    then have "owners_loop d (Suc k) pkhs m = Inr owners" using Cons.prems(1) by (auto split: if_splits)
    then show ?thesis using Cons.IH [OF _ Cons.prems(2) tail Cons.prems(4)] by simp
  qed
qed simp

lemma walletOwners_index:
  assumes "walletOwners pkhs d = Inr owners" and "owners pkh = Some i"
  shows "unat i < length pkhs \<and> pkhs ! unat i = pkh"
proof -
  have len: "length pkhs \<le> 2 ^ 32 - 1" and run: "owners_loop d 0 pkhs Map.empty = Inr owners"
    using assms(1) by (auto simp: walletOwners_def failIf_Inr_iff)
  have "unat (of_nat j :: uint32) = j" if "j < length pkhs" for j using that len by (simp add: unat_of_nat take_bit_nat_eq_self)
  then have "\<forall>j<length pkhs. unat (of_nat (0 + j) :: uint32) < length pkhs \<and> pkhs ! unat (of_nat (0 + j) :: uint32) = pkhs ! j" by simp
  then show ?thesis using owners_loop_index [OF run, of "\<lambda>pkh i. unat i < length pkhs \<and> pkhs ! unat i = pkh" pkh i] assms(2) by simp
qed

end
