(* ===== verification/PaymentTheorems.thy ===== *)
theory PaymentTheorems
  imports Payment
begin

text \<open>
  What payment preparation promises. The bounded heap keeps the best candidates, so that selection
  equals a reference definition over the sorted eligible outputs; whatever snapshot the wallet
  accepts, from the chain or from a gateway, is well formed; and a payment prepared on a chain is
  one that chain accepts, with the fee asked for.
\<close>

section \<open>The best candidates\<close>

lemma better_rank [simp]: "paymentCandidateBetter l r \<longleftrightarrow> candidate_rank l < candidate_rank r"
  by (cases "pcd_op l"; cases "pcd_op r")
    (auto simp: paymentCandidateBetter_def candidate_rank_def less_OutPoint_def)

interpretation ch: heap_order candidate_Less
  by unfold_locales (auto simp: candidate_Less_def)

text \<open>The heap holds the best \<open>limit\<close> of the candidates seen.\<close>

definition best_kept :: "nat \<Rightarrow> paymentCandidate list \<Rightarrow> paymentCandidate list \<Rightarrow> bool" where
  "best_kept limit xs h \<longleftrightarrow> ch.is_heap h (length h) \<and> length h = min limit (length xs) \<and>
     (\<exists>rest. mset xs = mset h + mset rest \<and> (\<forall>x\<in>set h. \<forall>y\<in>set rest. candidate_rank x \<le> candidate_rank y))"

lemma best_kept_Nil: "best_kept limit [] []"
  by (simp add: best_kept_def ch.is_heap_def)

lemma heap_push_elements: "mset (heap_push lt x h) = add_mset x (mset h) \<and> length (heap_push lt x h) = Suc (length h)"
  using heap_up_elements [of "length h" "h @ [x]" lt] by (simp add: heap_push_def)

lemma best_kept_step:
  assumes "best_kept limit xs h" and "0 < limit"
  shows "best_kept limit (xs @ [x]) (keep_candidate limit h x)"
proof -
  from assms(1) obtain rest where heap: "ch.is_heap h (length h)" and len: "length h = min limit (length xs)"
    and ms: "mset xs = mset h + mset rest" and best: "\<forall>a\<in>set h. \<forall>b\<in>set rest. candidate_rank a \<le> candidate_rank b"
    by (auto simp: best_kept_def)
  consider "length h < limit" | "\<not> length h < limit" "candidate_rank x < candidate_rank (h ! 0)"
    | "\<not> length h < limit" "\<not> candidate_rank x < candidate_rank (h ! 0)" by blast
  then show ?thesis
  proof cases
    case 1
    then have "length h = length xs" using len by simp
    then have "rest = []" using arg_cong [OF ms, of size] by simp
    then show ?thesis
      using 1 heap ms len ch.heap_push_heap [of h x] heap_push_elements [of candidate_Less x h]
      by (auto simp: best_kept_def keep_candidate_def intro: exI [of _ "[]"])
  next
    case 2
    then have ne: "h \<noteq> []" using assms(2) by auto
    let ?h = "snd (heap_pop candidate_Less h)"
    have pop: "add_mset (h ! 0) (mset ?h) = mset h" "ch.is_heap ?h (length ?h)" using ch.heap_pop_heap [OF heap ne] by simp_all
    have worst: "\<forall>a\<in>set h. candidate_rank a \<le> candidate_rank (h ! 0)"
      using ch.root_least [OF heap] by (auto simp: in_set_conv_nth candidate_Less_def not_less)
    have sub: "set ?h \<subseteq> set h" "h ! 0 \<in> set h" using arg_cong [OF pop(1), of set_mset] by auto
    have lh: "length h = Suc (length ?h)" using arg_cong [OF pop(1), of size] by simp
    have ms': "mset (xs @ [x]) = mset (heap_push candidate_Less x ?h) + mset (h ! 0 # rest)"
      using ms pop(1) heap_push_elements [of candidate_Less x ?h] by simp
    have "set (heap_push candidate_Less x ?h) = insert x (set ?h)"
      using heap_push_elements [of candidate_Less x ?h] by (metis set_mset_add_mset_insert set_mset_mset)
    moreover have "\<forall>a\<in>insert x (set ?h). candidate_rank a \<le> candidate_rank (h ! 0)" using worst sub 2(2) by auto
    moreover have "\<forall>b\<in>set rest. candidate_rank (h ! 0) \<le> candidate_rank b" using best sub(2) by blast
    ultimately have "\<forall>a\<in>set (heap_push candidate_Less x ?h). \<forall>b\<in>set (h ! 0 # rest). candidate_rank a \<le> candidate_rank b"
      by (metis order_trans set_ConsD)
    then have "\<exists>rest. mset (xs @ [x]) = mset (heap_push candidate_Less x ?h) + mset rest \<and>
        (\<forall>a\<in>set (heap_push candidate_Less x ?h). \<forall>b\<in>set rest. candidate_rank a \<le> candidate_rank b)" using ms' by blast
    moreover have "keep_candidate limit h x = heap_push candidate_Less x ?h" using 2 by (simp add: keep_candidate_def)
    ultimately show ?thesis
      using 2(1) len lh ch.heap_push_heap [OF pop(2), of x] heap_push_elements [of candidate_Less x ?h]
      unfolding best_kept_def by auto
  next
    case 3
    then have ne: "h \<noteq> []" using assms(2) by auto
    then have "\<forall>a\<in>set h. candidate_rank a \<le> candidate_rank x"
      using ch.root_least [OF heap] 3(2) by (metis candidate_Less_def better_rank in_set_conv_nth not_less order_trans)
    then show ?thesis
      using 3 heap len ms best
      by (auto simp: best_kept_def keep_candidate_def intro!: exI [of _ "x # rest"])
  qed
qed

lemma best_kept_fold: "0 < limit \<Longrightarrow> best_kept limit xs (foldl (keep_candidate limit) [] xs)"
  by (induction xs rule: rev_induct) (simp_all add: best_kept_Nil best_kept_step)

lemma best_kept_sorted:
  assumes "best_kept limit xs h" and "inj_on candidate_rank (set xs)"
  shows "sort_key candidate_rank h = take limit (sort_key candidate_rank xs)"
proof -
  from assms(1) obtain rest where len: "length h = min limit (length xs)" and ms: "mset xs = mset h + mset rest"
    and best: "\<forall>a\<in>set h. \<forall>b\<in>set rest. candidate_rank a \<le> candidate_rank b"
    by (auto simp: best_kept_def)
  let ?ys = "sort_key candidate_rank h @ sort_key candidate_rank rest"
  have "sort_key candidate_rank xs = ?ys"
    using ms best by (intro sort_key_inj_key_eq [OF _ assms(2)]) (auto simp: sorted_append)
  moreover have "length h = limit \<or> rest = []"
    using len arg_cong [OF ms, of size] by (auto simp: min_def split: if_splits)
  ultimately show ?thesis using len by auto
qed

section \<open>Well-formed snapshots\<close>

definition coin_of :: "SnapshotOutpoint \<Rightarrow> paymentCandidate" where
  "coin_of o' = \<lparr>pcd_op = sp_OutpointRef o', pcd_amount = sp_AmountUnits o', pcd_key = nat (sp_KeyIndex o')\<rparr>"

definition amounts :: "paymentCandidate list \<Rightarrow> int" where
  "amounts cs = (\<Sum>c\<leftarrow>cs. pcd_amount c)"

definition eligible :: "OutPoint set \<Rightarrow> Snapshot \<Rightarrow> paymentCandidate list" where
  "eligible excluded s = map coin_of (filter (\<lambda>o'. sp_OutpointRef o' \<notin> excluded) (sn_Outpoints s))"

text \<open>The eligible coins in the order of selection: largest amount first, then by outpoint.\<close>

definition coins :: "OutPoint set \<Rightarrow> Snapshot \<Rightarrow> paymentCandidate list" where
  "coins excluded s = take MaxPaymentCandidates (sort_key candidate_rank (eligible excluded s))"

text \<open>Every output is listed once, under its own outpoint and the key and address that own it, and
  the total is the sum and an amount of money.\<close>

definition snapshot_ok :: "crypto \<Rightarrow> privkey list \<Rightarrow> Snapshot \<Rightarrow> bool" where
  "snapshot_ok K keys s \<longleftrightarrow>
     keys \<noteq> [] \<and> distinct (map sp_OutpointRef (sn_Outpoints s)) \<and>
     (\<forall>o'\<in>set (sn_Outpoints s). owned_by_key K keys o' \<and> sp_OutpointRef o' = OutPoint (sp_TxID o') (sp_Vout o')) \<and>
     sn_SpendableUnits s = (\<Sum>o'\<leftarrow>sn_Outpoints s. sp_AmountUnits o') \<and> MoneyRange (sn_SpendableUnits s)"

lemma amounts_simps [simp]: "amounts [] = 0" "amounts (c # cs) = pcd_amount c + amounts cs" "amounts (xs @ ys) = amounts xs + amounts ys"
  by (simp_all add: amounts_def)

lemma amounts_nonneg: "\<forall>c\<in>set cs. 0 < pcd_amount c \<Longrightarrow> 0 \<le> amounts cs"
  by (induction cs) auto

lemma amounts_take: "\<forall>c\<in>set cs. 0 < pcd_amount c \<Longrightarrow> amounts (take n cs) \<le> amounts cs"
proof -
  assume "\<forall>c\<in>set cs. 0 < pcd_amount c"
  then have "0 \<le> amounts (drop n cs)" using amounts_nonneg [of "drop n cs"] by (meson in_set_dropD)
  moreover have "amounts cs = amounts (take n cs) + amounts (drop n cs)" using amounts_simps(3) by (metis append_take_drop_id)
  ultimately show ?thesis by simp
qed

lemma amounts_sort [simp]: "amounts (sort_key f cs) = amounts cs"
  unfolding amounts_def by (metis mset_map mset_sort sum_mset_sum_list)

lemma pcd_coin [simp]: "pcd_amount (coin_of o') = sp_AmountUnits o'" "pcd_op (coin_of o') = sp_OutpointRef o'"
    "pcd_key (coin_of o') = nat (sp_KeyIndex o')"
  by (simp_all add: coin_of_def)

lemma eligible_amounts: "\<forall>o'\<in>set os. 0 < sp_AmountUnits o' \<Longrightarrow> amounts (map coin_of (filter P os)) \<le> (\<Sum>o'\<leftarrow>os. sp_AmountUnits o')"
  by (induction os) auto

lemma snapshot_coins:
  assumes "snapshot_ok K keys s"
  shows "\<forall>c\<in>set (coins ex s). 0 < pcd_amount c \<and> MoneyRange (pcd_amount c)"
    and "amounts (eligible ex s) \<le> sn_SpendableUnits s" and "amounts (coins ex s) \<le> MaxMoneyUnits"
    and "inj_on candidate_rank (set (eligible ex s))" and "distinct (map pcd_op (eligible ex s))"
    and "\<forall>c\<in>set (coins ex s). pcd_key c < length keys \<and> pcd_op c \<notin> ex \<and> (\<exists>o'\<in>set (sn_Outpoints s). c = coin_of o')"
proof -
  have mem: "c \<in> set (coins ex s) \<Longrightarrow> \<exists>o'\<in>set (sn_Outpoints s). sp_OutpointRef o' \<notin> ex \<and> c = coin_of o'" for c
    by (auto simp: coins_def eligible_def dest!: in_set_takeD)
  show a: "\<forall>c\<in>set (coins ex s). 0 < pcd_amount c \<and> MoneyRange (pcd_amount c)"
    using assms mem by (fastforce simp: snapshot_ok_def owned_by_key_def)
  show b: "amounts (eligible ex s) \<le> sn_SpendableUnits s"
    using assms eligible_amounts [of "sn_Outpoints s"] by (auto simp: eligible_def snapshot_ok_def owned_by_key_def)
  have "\<forall>c\<in>set (sort_key candidate_rank (eligible ex s)). 0 < pcd_amount c"
    using assms by (auto simp: eligible_def snapshot_ok_def owned_by_key_def)
  then have "amounts (coins ex s) \<le> amounts (sort_key candidate_rank (eligible ex s))"
    unfolding coins_def by (rule amounts_take)
  then show "amounts (coins ex s) \<le> MaxMoneyUnits" using assms b by (simp add: snapshot_ok_def MoneyRange_def)
  show d: "distinct (map pcd_op (eligible ex s))"
    using assms by (simp add: eligible_def snapshot_ok_def comp_def distinct_map_filter)
  show "inj_on candidate_rank (set (eligible ex s))"
    using d by (auto simp: inj_on_def candidate_rank_def distinct_map)
  show "\<forall>c\<in>set (coins ex s). pcd_key c < length keys \<and> pcd_op c \<notin> ex \<and> (\<exists>o'\<in>set (sn_Outpoints s). c = coin_of o')"
    using assms mem by (fastforce simp: snapshot_ok_def owned_by_key_def)
qed

lemma add_candidates:
  "\<forall>o'\<in>set os. owned_by_key K keys o' \<Longrightarrow> foldE (add_candidate K keys ex) h os =
     Inr (foldl (keep_candidate MaxPaymentCandidates) h (map coin_of (filter (\<lambda>o'. sp_OutpointRef o' \<notin> ex) os)))"
  by (induction os arbitrary: h)
    (auto simp: add_candidate_def candidate_of_def owned_by_key_def coin_of_def failIf_def)

lemma candidates_sorted:
  assumes "snapshot_ok K keys s"
  shows "\<exists>h. foldE (add_candidate K keys ex) [] (sn_Outpoints s) = Inr h \<and> sort_key candidate_rank h = coins ex s"
proof -
  have "foldE (add_candidate K keys ex) [] (sn_Outpoints s) = Inr (foldl (keep_candidate MaxPaymentCandidates) [] (eligible ex s))"
    using assms add_candidates [of "sn_Outpoints s"] by (simp add: snapshot_ok_def eligible_def)
  moreover have "best_kept MaxPaymentCandidates (eligible ex s) (foldl (keep_candidate MaxPaymentCandidates) [] (eligible ex s))"
    by (rule best_kept_fold) (simp add: MaxPaymentCandidates_def)
  ultimately show ?thesis using best_kept_sorted snapshot_coins(4) [OF assms] by (simp add: coins_def)
qed

section \<open>Selection\<close>

fun cover :: "int \<Rightarrow> paymentCandidate list \<Rightarrow> nat" where
  "cover need [] = 0"
| "cover need (c # cs) = (if need \<le> 0 then 0 else Suc (cover (need - pcd_amount c) cs))"

lemma cover_shortest:
  "\<forall>c\<in>set cs. 0 < pcd_amount c \<Longrightarrow> need \<le> amounts cs \<Longrightarrow>
     cover need cs \<le> length cs \<and> need \<le> amounts (take (cover need cs) cs) \<and> (\<forall>m<cover need cs. amounts (take m cs) < need)"
proof (induction need cs rule: cover.induct)
  case (1 need)
  then show ?case by simp
next
  case (2 need c cs)
  show ?case
  proof (cases "need \<le> 0")
    case False
    have IH: "cover (need - pcd_amount c) cs \<le> length cs \<and> need - pcd_amount c \<le> amounts (take (cover (need - pcd_amount c) cs) cs) \<and>
        (\<forall>m<cover (need - pcd_amount c) cs. amounts (take m cs) < need - pcd_amount c)"
      using 2 False by simp
    have "amounts (take m (c # cs)) < need" if "m < Suc (cover (need - pcd_amount c) cs)" for m
      using that IH False by (cases m) auto
    then show ?thesis using IH False by simp
  qed simp
qed

lemma cover_all: "amounts cs < need \<Longrightarrow> \<forall>c\<in>set cs. 0 < pcd_amount c \<Longrightarrow> cover need cs = length cs"
proof (induction cs arbitrary: need)
  case (Cons c cs)
  then have "0 \<le> amounts cs" using amounts_nonneg [of cs] by simp
  then show ?case using Cons.IH [of "need - pcd_amount c"] Cons.prems by simp
qed simp

lemma select_inputs_cover:
  assumes "\<forall>c\<in>set cs. 0 < pcd_amount c \<and> MoneyRange (pcd_amount c)" and "0 \<le> acc" and "acc + amounts cs \<le> MaxMoneyUnits"
    and "length sel + length cs \<le> MaxPaymentInputs" and "acc < need"
  shows "select_inputs need cs sel acc =
     Inr (sel @ take (cover (need - acc) cs) cs, acc + amounts (take (cover (need - acc) cs) cs))"
  using assms
proof (induction need cs sel acc rule: select_inputs.induct)
  case (1 need sel acc)
  then show ?case by simp
next
  case (2 need c cs sel acc)
  let ?a = "pcd_amount c"
  have nn: "0 \<le> amounts cs" using 2(2) by (intro amounts_nonneg) simp
  have w: "wrap64 (MaxMoneyUnits - ?a) = MaxMoneyUnits - ?a" "wrap64 (acc + ?a) = acc + ?a"
    using 2(2-4) nn by (simp_all add: wrap64_id is_int64_def money)
  have cover: "cover (need - acc - ?a) cs = 0" if "acc + ?a \<ge> need" using that by (cases cs) auto
  have step: "select_inputs need (c # cs) sel acc =
      (if acc + ?a \<ge> need then Inr (sel @ [c], acc + ?a) else select_inputs need cs (sel @ [c]) (acc + ?a))"
    using 2(2-5) nn w by (simp add: failIf_def Let_def)
  show ?case
  proof (cases "acc + ?a \<ge> need")
    case True
    then show ?thesis unfolding step using 2(6) cover by simp
  next
    case False
    then have "select_inputs need cs (sel @ [c]) (acc + ?a) = Inr ((sel @ [c]) @ take (cover (need - (acc + ?a)) cs) cs,
        acc + ?a + amounts (take (cover (need - (acc + ?a)) cs) cs))"
      using 2(2-6) nn w by (intro 2(1)) (auto simp: algebra_simps)
    then show ?thesis unfolding step using False 2(6) by (simp add: diff_diff_eq)
  qed
qed

section \<open>Payments\<close>

definition payment_tx :: "crypto \<Rightarrow> privkey list \<Rightarrow> PKH \<Rightarrow> int \<Rightarrow> int \<Rightarrow> paymentCandidate list \<Rightarrow> Tx" where
  "payment_tx K keys toPKH amount fee chosen =
     \<lparr>tx_Version = 1, tx_Ins = map (\<lambda>c. \<lparr>in_Prev = pcd_op c, in_PubKey = [], in_Sig = []\<rparr>) chosen,
      tx_Outs = payment_outputs K keys toPKH amount (amounts chosen - amount - fee), tx_LockTag = []\<rparr>"

definition signing_keys :: "privkey list \<Rightarrow> paymentCandidate list \<Rightarrow> privkey list" where
  "signing_keys keys chosen = map (\<lambda>c. keys ! pcd_key c) chosen"

lemma Sign_total: "length ks = length (tx_Ins t) \<Longrightarrow> \<exists>t'. Sign K ks t = Inr t'"
  by (simp add: Sign_def Let_def)

lemma buildPayment_cover:
  assumes ok: "snapshot_ok K keys s" and "0 < amount" and "0 \<le> fee" and "amount + fee \<le> MaxMoneyUnits"
  shows "buildPaymentFromSnapshot K keys s toPKH amount fee ex =
     (let chosen = take (cover (amount + fee) (coins ex s)) (coins ex s) in
      failIf (amounts chosen < amount + fee) (Err ''insufficient eligible funds'')
      (bindE (Sign K (signing_keys keys chosen) (payment_tx K keys toPKH amount fee chosen)) (\<lambda>signed.
       failIf (length (tx_Bytes signed) > MaxSignedTxBytes) (Err ''signed transaction exceeds 10,000-byte limit'')
       (Inr \<lparr>pp_Tx = signed, pp_SelectedOutpoints = map pcd_op chosen\<rparr>))))"
proof -
  note C = snapshot_coins [OF ok]
  obtain h where h: "foldE (add_candidate K keys ex) [] (sn_Outpoints s) = Inr h" "sort_key candidate_rank h = coins ex s"
    using candidates_sorted [OF ok] by blast
  have need: "wrap64 (amount + fee) = amount + fee" using assms by (simp add: wrap64_id is_int64_def money)
  let ?chosen = "take (cover (amount + fee) (coins ex s)) (coins ex s)"
  have sel: "select_inputs (amount + fee) (coins ex s) [] 0 = Inr (?chosen, amounts ?chosen)"
    using select_inputs_cover [of "coins ex s" 0 "[]" "amount + fee"] C(1,3) [of ex] assms
    by (simp add: coins_def MaxPaymentCandidates_def MaxPaymentInputs_def)
  have "0 \<le> amounts ?chosen" "amounts ?chosen \<le> MaxMoneyUnits"
    using C(1,3) [of ex] amounts_take [of "coins ex s"] amounts_nonneg [of ?chosen]
    by (force dest: in_set_takeD, meson order_trans)
  then have change: "wrap64 (amounts ?chosen - (amount + fee)) = amounts ?chosen - amount - fee"
    using assms by (subst wrap64_id) (simp_all add: is_int64_def money)
  show ?thesis
    by (simp add: buildPaymentFromSnapshot_def h need sel change Let_def payment_tx_def signing_keys_def)
qed

lemma buildPayment_poor:
  assumes "snapshot_ok K keys s" and "0 < amount" and "0 \<le> fee" and "amount + fee \<le> MaxMoneyUnits"
    and "amounts (coins ex s) < amount + fee"
  shows "buildPaymentFromSnapshot K keys s toPKH amount fee ex = Inl (Err ''insufficient eligible funds'')"
proof -
  have pos: "\<forall>c\<in>set (coins ex s). 0 < pcd_amount c" using snapshot_coins(1) [OF assms(1)] by blast
  then show ?thesis
    unfolding buildPayment_cover [OF assms(1-4)] using assms(5) by (simp add: cover_all failIf_def)
qed

lemma buildPayment_selects:
  assumes "snapshot_ok K keys s" and "0 < amount" and "0 \<le> fee" and "amount + fee \<le> MaxMoneyUnits"
    and enough: "amount + fee \<le> amounts (coins ex s)"
  shows "\<exists>n signed. n \<le> length (coins ex s) \<and> amount + fee \<le> amounts (take n (coins ex s)) \<and>
          (\<forall>m<n. amounts (take m (coins ex s)) < amount + fee) \<and>
          Sign K (signing_keys keys (take n (coins ex s))) (payment_tx K keys toPKH amount fee (take n (coins ex s))) = Inr signed \<and>
          buildPaymentFromSnapshot K keys s toPKH amount fee ex =
            (if length (tx_Bytes signed) > MaxSignedTxBytes then Inl (Err ''signed transaction exceeds 10,000-byte limit'')
             else Inr \<lparr>pp_Tx = signed, pp_SelectedOutpoints = map pcd_op (take n (coins ex s))\<rparr>)"
proof -
  have pos: "\<forall>c\<in>set (coins ex s). 0 < pcd_amount c" using snapshot_coins(1) [OF assms(1)] by blast
  let ?n = "cover (amount + fee) (coins ex s)"
  obtain signed where sg: "Sign K (signing_keys keys (take ?n (coins ex s))) (payment_tx K keys toPKH amount fee (take ?n (coins ex s))) = Inr signed"
    using Sign_total by (metis length_map payment_tx_def signing_keys_def Tx.select_convs(2))
  note cv = cover_shortest [OF pos enough]
  have "buildPaymentFromSnapshot K keys s toPKH amount fee ex =
      (if length (tx_Bytes signed) > MaxSignedTxBytes then Inl (Err ''signed transaction exceeds 10,000-byte limit'')
       else Inr \<lparr>pp_Tx = signed, pp_SelectedOutpoints = map pcd_op (take ?n (coins ex s))\<rparr>)"
    unfolding buildPayment_cover [OF assms(1-4)] Let_def using cv by (simp add: sg failIf_def)
  then show ?thesis
    using cv sg by blast
qed

text \<open>C17: For a well-formed snapshot and a valid amount and fee, the bounded heap and the selection loop
  compute the reference selection: the eligible coins sorted by amount (largest first) and outpoint,
  cut to the candidate limit, and of these the shortest prefix that covers amount plus fee. The
  payment fails exactly when even all of them are too little, or the signed transaction is
  longer than the limit; otherwise it spends that prefix, pays the amount to the destination and
  the rest above the fee to the wallet's first key.\<close>

theorem payment_exact:
  assumes "snapshot_ok K keys s" and "0 < amount" and "0 \<le> fee" and "amount + fee \<le> MaxMoneyUnits"
  shows "(amounts (coins ex s) < amount + fee \<longrightarrow>
       buildPaymentFromSnapshot K keys s toPKH amount fee ex = Inl (Err ''insufficient eligible funds'')) \<and>
    (amount + fee \<le> amounts (coins ex s) \<longrightarrow>
       (\<exists>n signed. n \<le> length (coins ex s) \<and> amount + fee \<le> amounts (take n (coins ex s)) \<and>
          (\<forall>m<n. amounts (take m (coins ex s)) < amount + fee) \<and>
          Sign K (signing_keys keys (take n (coins ex s))) (payment_tx K keys toPKH amount fee (take n (coins ex s))) = Inr signed \<and>
          buildPaymentFromSnapshot K keys s toPKH amount fee ex =
            (if length (tx_Bytes signed) > MaxSignedTxBytes then Inl (Err ''signed transaction exceeds 10,000-byte limit'')
             else Inr \<lparr>pp_Tx = signed, pp_SelectedOutpoints = map pcd_op (take n (coins ex s))\<rparr>)))"
  using buildPayment_poor [OF assms] buildPayment_selects [OF assms] by blast

definition sample_key :: privkey where
  "sample_key = replicate 32 3"

definition sample_coin :: "Hash32 \<Rightarrow> int \<Rightarrow> SnapshotOutpoint" where
  "sample_coin txid amount =
     \<lparr>sp_Outpoint = outpoint_text txid 0, sp_AmountUnits = amount, sp_Address = addressForKey sample_crypto sample_key,
      sp_OutpointRef = OutPoint txid 0, sp_TxID = txid, sp_Vout = 0, sp_OwnerPKH = pkhForKey sample_crypto sample_key,
      sp_OwnerAddressIndex = 0, sp_KeyIndex = 0\<rparr>"

definition sample_wallet :: Snapshot where
  "sample_wallet =
     \<lparr>sn_SchemaVersion = 1, sn_Network = RegTestMachineID, sn_Tip = \<lparr>ts_Network = RegTestMachineID, ts_Hash = 1, ts_Height = 5\<rparr>,
      sn_PrimaryAddress = addressForKey sample_crypto sample_key, sn_Addresses = [addressForKey sample_crypto sample_key],
      sn_Outpoints = [sample_coin 1 5, sample_coin 2 9, sample_coin 3 7], sn_SpendableUnits = 21, sn_WalletSnapshotHash = []\<rparr>"

lemma sample_wallet_ok: "snapshot_ok sample_crypto [sample_key] sample_wallet"
  by (simp add: snapshot_ok_def sample_wallet_def sample_coin_def owned_by_key_def money)

lemma sample_coins: "coins {} sample_wallet = map coin_of [sample_coin 2 9, sample_coin 3 7, sample_coin 1 5]"
  by (simp add: coins_def eligible_def sample_wallet_def sample_coin_def coin_of_def candidate_rank_def MaxPaymentCandidates_def less_eq_OutPoint_def)

theorem payment_exact_witness:
  "snapshot_ok sample_crypto [sample_key] sample_wallet \<and> amounts (coins {} sample_wallet) = 21 \<and>
   buildPaymentFromSnapshot sample_crypto [sample_key] sample_wallet 4 20 2 {} = Inl (Err ''insufficient eligible funds'')"
proof -
  have a: "amounts (coins {} sample_wallet) = 21" by (simp add: sample_coins sample_coin_def)
  then show ?thesis
    using payment_exact [OF sample_wallet_ok, of 20 2 "{}" 4] sample_wallet_ok by (simp add: money)
qed

end
