(* ===== verification/SnapshotTheorems.thy ===== *)
theory SnapshotTheorems
  imports PaymentTheorems
begin

text \<open>
  Wallet snapshots: what the canonical preimage checks and that it determines the snapshot, that every
  accepted snapshot is well formed, and that a light wallet given the public data of a full wallet's
  snapshot rebuilds that snapshot, hash included.
\<close>

section \<open>The canonical preimage\<close>

definition address_bytes :: "address \<Rightarrow> byte list" where
  "address_bytes a = be_bytes 2 (length a) @ ascii_bytes a"

definition address_ok :: "address \<Rightarrow> bool" where
  "address_ok a \<longleftrightarrow> a \<noteq> [] \<and> length a \<le> 0xffff \<and> isASCII a"

definition output_bytes :: "SnapshotOutpoint \<Rightarrow> byte list" where
  "output_bytes o' = hash_bytes (sp_TxID o') @ be_bytes 4 (unat (sp_Vout o')) @ be_bytes 8 (u64_of (sp_AmountUnits o')) @
     be_bytes 4 (unat (sp_OwnerAddressIndex o'))"

definition output_ok :: "address list \<Rightarrow> SnapshotOutpoint \<Rightarrow> bool" where
  "output_ok addresses o' \<longleftrightarrow> sp_OutpointRef o' = OutPoint (sp_TxID o') (sp_Vout o') \<and>
     sp_Outpoint o' = outpoint_text (sp_TxID o') (sp_Vout o') \<and> MoneyRange (sp_AmountUnits o') \<and> 0 < sp_AmountUnits o' \<and>
     unat (sp_OwnerAddressIndex o') < length addresses \<and> sp_Address o' = addresses ! unat (sp_OwnerAddressIndex o')"

text \<open>Strictly above the previous element, if there is one.\<close>

definition above :: "'a::linorder option \<Rightarrow> 'a list \<Rightarrow> bool" where
  "above prev xs \<longleftrightarrow> sorted_wrt (<) (case prev of None \<Rightarrow> xs | Some x \<Rightarrow> x # xs)"

lemma above_Cons: "above prev (x # xs) \<longleftrightarrow> (case prev of None \<Rightarrow> True | Some y \<Rightarrow> y < x) \<and> above (Some x) xs"
  by (auto simp: above_def split: option.splits)

lemma above_Nil [simp]: "above prev []"
  by (simp add: above_def split: option.splits)

lemma preimage_addresses:
  "foldE (preimage_address primary) (buf, prev, n) as = Inr (buf', prev', n') \<longleftrightarrow>
     (\<forall>a\<in>set as. address_ok a) \<and> above prev as \<and> buf' = buf @ concat (map address_bytes as) \<and>
     n' = n + count_list as primary \<and> prev' = (if as = [] then prev else Some (last as))"
proof (induction as arbitrary: buf prev n)
  case Nil
  then show ?case by auto
next
  case (Cons a as)
  have step: "preimage_address primary (buf, prev, n) a =
      failIf (\<not> (address_ok a \<and> (case prev of None \<Rightarrow> True | Some y \<Rightarrow> y < a))) (Err ''wallet snapshot address is noncanonical'')
        (Inr (buf @ address_bytes a, Some a, if a = primary then Suc n else n))"
    by (auto simp: preimage_address_def address_ok_def address_bytes_def not_le not_less failIf_def split: option.splits)
  show ?case
    by (cases "address_ok a \<and> (case prev of None \<Rightarrow> True | Some y \<Rightarrow> y < a)")
      (auto simp: step Cons.IH above_Cons failIf_def)
qed

lemma preimage_outputs:
  "foldE (preimage_output addresses) (buf, prev) os = Inr (buf', prev') \<longleftrightarrow>
     (\<forall>o'\<in>set os. output_ok addresses o') \<and> above prev (map sp_OutpointRef os) \<and>
     buf' = buf @ concat (map output_bytes os) \<and> prev' = (if os = [] then prev else Some (sp_OutpointRef (last os)))"
proof (induction os arbitrary: buf prev)
  case Nil
  then show ?case by auto
next
  case (Cons o' os)
  have step: "output_ok addresses o' \<Longrightarrow> preimage_output addresses (buf, prev) o' =
      failIf (\<not> (case prev of None \<Rightarrow> True | Some y \<Rightarrow> y < sp_OutpointRef o')) (Err ''wallet snapshot outpoints are not strictly sorted'')
        (Inr (buf @ output_bytes o', Some (sp_OutpointRef o')))"
    by (cases prev) (auto simp: preimage_output_def output_ok_def output_bytes_def failIf_def less_OutPoint_def not_le not_less)
  have bad: "\<not> output_ok addresses o' \<Longrightarrow> \<exists>e. preimage_output addresses (buf, prev) o' = Inl e"
    by (auto simp: preimage_output_def output_ok_def failIf_def)
  show ?case
  proof (cases "output_ok addresses o'")
    case True
    then show ?thesis by (cases "case prev of None \<Rightarrow> True | Some y \<Rightarrow> y < sp_OutpointRef o'")
      (auto simp: step Cons.IH above_Cons failIf_def)
  next
    case False
    then show ?thesis using bad by auto
  qed
qed

text \<open>The snapshots that have a preimage, and the bytes it consists of.\<close>

definition canonical_snapshot :: "Snapshot \<Rightarrow> bool" where
  "canonical_snapshot s \<longleftrightarrow>
     0 \<le> ts_Height (sn_Tip s) \<and> ts_Network (sn_Tip s) = sn_Network s \<and>
     (sn_Network s = MainNetMachineID \<or> sn_Network s = RegTestMachineID) \<and> address_ok (sn_PrimaryAddress s) \<and>
     length (sn_Addresses s) \<le> 0xffffffff \<and> length (sn_Outpoints s) \<le> 0xffffffff \<and>
     (\<forall>a\<in>set (sn_Addresses s). address_ok a) \<and> sorted_wrt (<) (sn_Addresses s) \<and> sn_PrimaryAddress s \<in> set (sn_Addresses s) \<and>
     (\<forall>o'\<in>set (sn_Outpoints s). output_ok (sn_Addresses s) o') \<and> sorted_wrt (<) (map sp_OutpointRef (sn_Outpoints s))"

definition snapshot_bytes :: "Snapshot \<Rightarrow> byte list" where
  "snapshot_bytes s =
     string_bytes ''btc09-wallet-snapshot-v2'' @ [0] @ be_bytes 2 (length (sn_Network s)) @ string_bytes (sn_Network s) @
     hash_bytes (ts_Hash (sn_Tip s)) @ be_bytes 8 (u64_of (ts_Height (sn_Tip s))) @ address_bytes (sn_PrimaryAddress s) @
     be_bytes 4 (length (sn_Addresses s)) @ concat (map address_bytes (sn_Addresses s)) @
     be_bytes 4 (length (sn_Outpoints s)) @ concat (map output_bytes (sn_Outpoints s))"

lemma count_strict: "sorted_wrt (<) (as :: 'a::linorder list) \<Longrightarrow> count_list as a = (if a \<in> set as then 1 else 0)"
  by (induction as) auto

lemma snapshotHashPreimage_iff:
  "snapshotHashPreimage s = Inr b \<longleftrightarrow> canonical_snapshot s \<and> b = snapshot_bytes s"
proof -
  have net: "sn_Network s = MainNetMachineID \<or> sn_Network s = RegTestMachineID \<Longrightarrow> length (sn_Network s) \<le> 0xffff"
    by (auto simp: MainNetMachineID_def RegTestMachineID_def)
  show ?thesis
    using net
    by (auto simp: snapshotHashPreimage_def failIf_Inr_iff bindE_Inr_iff Let_def preimage_addresses preimage_outputs
        canonical_snapshot_def snapshot_bytes_def above_def address_ok_def address_bytes_def count_strict split: if_splits)
qed

lemma hashSnapshot_iff:
  "hashSnapshot K s = Inr h \<longleftrightarrow> canonical_snapshot s \<and> h = hex_EncodeToString (hash_bytes (sha256 K (snapshot_bytes s)))"
  by (auto simp: hashSnapshot_def bindE_Inr_iff snapshotHashPreimage_iff)

section \<open>The preimage determines the snapshot\<close>

lemma be_bytes_prefix: "be_bytes n a @ x = be_bytes n b @ y \<Longrightarrow> a < 256 ^ n \<Longrightarrow> b < 256 ^ n \<Longrightarrow> a = b \<and> x = y"
proof -
  assume eq: "be_bytes n a @ x = be_bytes n b @ y" and ab: "a < 256 ^ n" "b < 256 ^ n"
  then have "be_bytes n a = be_bytes n b" "x = y" by simp_all
  then have "be_nat (be_bytes n a) = be_nat (be_bytes n b)" by simp
  then show ?thesis using ab \<open>x = y\<close> by (simp add: be_nat_be_bytes)
qed

lemma hash_bytes_prefix: "hash_bytes a @ x = hash_bytes b @ y \<Longrightarrow> a = b \<and> x = y"
  using hash_bytes_inj by auto

lemma ascii_bytes_inj: "isASCII a \<Longrightarrow> isASCII b \<Longrightarrow> ascii_bytes a = ascii_bytes b \<Longrightarrow> a = b"
proof -
  assume "isASCII a" "isASCII b" "ascii_bytes a = ascii_bytes b"
  then have "map (\<lambda>c. unat (of_nat c :: byte)) a = map (\<lambda>c. unat (of_nat c :: byte)) b"
    unfolding ascii_bytes_def by (metis (no_types, lifting) map_map comp_apply map_eq_conv)
  moreover have "isASCII x \<Longrightarrow> map (\<lambda>c. unat (of_nat c :: byte)) x = x" for x
    unfolding isASCII_def by (induction x) (auto simp: unat_of_nat)
  ultimately show ?thesis using \<open>isASCII a\<close> \<open>isASCII b\<close> by simp
qed

lemma address_bytes_prefix:
  "address_ok a \<Longrightarrow> address_ok b \<Longrightarrow> address_bytes a @ x = address_bytes b @ y \<Longrightarrow> a = b \<and> x = y"
proof -
  assume ok: "address_ok a" "address_ok b" and "address_bytes a @ x = address_bytes b @ y"
  then have "length a = length b" and rest: "ascii_bytes a @ x = ascii_bytes b @ y"
    using be_bytes_prefix [of 2 "length a" "ascii_bytes a @ x" "length b" "ascii_bytes b @ y"]
    by (simp_all add: address_bytes_def address_ok_def)
  then have "ascii_bytes a = ascii_bytes b" "x = y" by (simp_all add: ascii_bytes_def)
  then show ?thesis using ascii_bytes_inj ok by (simp add: address_ok_def)
qed

definition public_output :: "SnapshotOutpoint \<Rightarrow> OutPoint \<times> string \<times> int \<times> address" where
  "public_output o' = (sp_OutpointRef o', sp_Outpoint o', sp_AmountUnits o', sp_Address o')"

lemma money_u64: "MoneyRange v \<Longrightarrow> u64_of v < 256 ^ 8" "MoneyRange v \<Longrightarrow> MoneyRange w \<Longrightarrow> u64_of v = u64_of w \<Longrightarrow> v = w"
  by (simp_all add: u64_of_def money) linarith+

lemma output_bytes_prefix:
  assumes "output_ok as o1" and "output_ok as o2" and "output_bytes o1 @ x = output_bytes o2 @ y"
  shows "public_output o1 = public_output o2 \<and> x = y"
proof -
  let ?t = "\<lambda>o' x. be_bytes 4 (unat (sp_Vout o')) @ be_bytes 8 (u64_of (sp_AmountUnits o')) @ be_bytes 4 (unat (sp_OwnerAddressIndex o')) @ x"
  have w32: "unat (w :: uint32) < 256 ^ 4" for w using unsigned_less [of w, where ?'a = nat] by simp
  have "sp_TxID o1 = sp_TxID o2 \<and> ?t o1 x = ?t o2 y"
    using assms(3) by (intro hash_bytes_prefix) (simp add: output_bytes_def)
  moreover from this have "unat (sp_Vout o1) = unat (sp_Vout o2)"
    and amt: "be_bytes 8 (u64_of (sp_AmountUnits o1)) @ be_bytes 4 (unat (sp_OwnerAddressIndex o1)) @ x =
      be_bytes 8 (u64_of (sp_AmountUnits o2)) @ be_bytes 4 (unat (sp_OwnerAddressIndex o2)) @ y"
    using be_bytes_prefix w32 by blast+
  moreover have "u64_of (sp_AmountUnits o1) = u64_of (sp_AmountUnits o2)"
    and idx: "be_bytes 4 (unat (sp_OwnerAddressIndex o1)) @ x = be_bytes 4 (unat (sp_OwnerAddressIndex o2)) @ y"
    using be_bytes_prefix [OF amt] money_u64(1) assms(1,2) by (auto simp: output_ok_def)
  moreover have "unat (sp_OwnerAddressIndex o1) = unat (sp_OwnerAddressIndex o2) \<and> x = y"
    using be_bytes_prefix [OF idx] w32 by blast
  ultimately show ?thesis
    using assms(1,2) money_u64(2) unfolding word_unat_eq_iff [symmetric] by (auto simp: output_ok_def public_output_def)
qed

lemma concat_prefix:
  assumes "\<And>a b r s. a \<in> set xs \<Longrightarrow> b \<in> set ys \<Longrightarrow> f a @ r = f b @ s \<Longrightarrow> g a = g b \<and> r = s"
    and "length xs = length ys" and "concat (map f xs) @ r = concat (map f ys) @ s"
  shows "map g xs = map g ys \<and> r = s"
  using assms(2,1,3)
proof (induction xs ys rule: list_induct2)
  case (Cons x xs y ys)
  have "g x = g y \<and> concat (map f xs) @ r = concat (map f ys) @ s"
    using Cons.prems(2) by (intro Cons.prems(1)) simp_all
  moreover from this have "map g xs = map g ys \<and> r = s"
    by (intro Cons.IH Cons.prems(1)) auto
  ultimately show ?case by simp
qed simp

definition public_part :: "Snapshot \<Rightarrow> string \<times> ChainTipSnapshot \<times> address \<times> address list \<times> (OutPoint \<times> string \<times> int \<times> address) list" where
  "public_part s = (sn_Network s, sn_Tip s, sn_PrimaryAddress s, sn_Addresses s, map public_output (sn_Outpoints s))"

lemma network_prefix:
  assumes "n1 = MainNetMachineID \<or> n1 = RegTestMachineID" and "n2 = MainNetMachineID \<or> n2 = RegTestMachineID"
    and "be_bytes 2 (length n1) @ string_bytes n1 @ x = be_bytes 2 (length n2) @ string_bytes n2 @ y"
  shows "n1 = n2 \<and> x = y"
proof -
  have "length n1 = length n2 \<and> string_bytes n1 @ x = string_bytes n2 @ y"
    using assms by (intro be_bytes_prefix) (auto simp: MainNetMachineID_def RegTestMachineID_def)
  then have "string_bytes n1 = string_bytes n2 \<and> x = y"
    by (metis append_eq_append_conv length_map string_bytes_def)
  then show ?thesis using assms(1,2) by (auto simp: MainNetMachineID_def RegTestMachineID_def string_bytes_def)
qed

lemma snapshot_bytes_inj:
  assumes "canonical_snapshot s" and "canonical_snapshot t" and "snapshot_bytes s = snapshot_bytes t"
    and "is_int64 (ts_Height (sn_Tip s))" and "is_int64 (ts_Height (sn_Tip t))"
  shows "public_part s = public_part t"
proof -
  define u where "u = (\<lambda>s :: Snapshot. be_bytes 4 (length (sn_Outpoints s)) @ concat (map output_bytes (sn_Outpoints s)))"
  define v where "v = (\<lambda>s :: Snapshot. be_bytes 4 (length (sn_Addresses s)) @ concat (map address_bytes (sn_Addresses s)) @ u s)"
  define w where "w = (\<lambda>s :: Snapshot. hash_bytes (ts_Hash (sn_Tip s)) @ be_bytes 8 (u64_of (ts_Height (sn_Tip s))) @ address_bytes (sn_PrimaryAddress s) @ v s)"
  have net: "sn_Network s = sn_Network t \<and> w s = w t"
    using assms(1-3) by (intro network_prefix) (simp_all add: canonical_snapshot_def snapshot_bytes_def u_def v_def w_def)
  then have hash: "ts_Hash (sn_Tip s) = ts_Hash (sn_Tip t)"
    and r1: "be_bytes 8 (u64_of (ts_Height (sn_Tip s))) @ address_bytes (sn_PrimaryAddress s) @ v s =
      be_bytes 8 (u64_of (ts_Height (sn_Tip t))) @ address_bytes (sn_PrimaryAddress t) @ v t"
    unfolding w_def by (blast dest: hash_bytes_prefix)+
  have "u64_of (ts_Height (sn_Tip s)) = u64_of (ts_Height (sn_Tip t))"
    and r2: "address_bytes (sn_PrimaryAddress s) @ v s = address_bytes (sn_PrimaryAddress t) @ v t"
    using be_bytes_prefix [OF r1] u64_of_bound by simp_all
  then have height: "ts_Height (sn_Tip s) = ts_Height (sn_Tip t)" using assms(4,5) sint64_u64_of by metis
  have primary: "sn_PrimaryAddress s = sn_PrimaryAddress t" and r3: "v s = v t"
    using address_bytes_prefix [OF _ _ r2] assms(1,2) by (simp_all add: canonical_snapshot_def)
  have adrs: "\<forall>a\<in>set (sn_Addresses s). address_ok a" "\<forall>a\<in>set (sn_Addresses t). address_ok a"
    and outs: "\<forall>o'\<in>set (sn_Outpoints s). output_ok (sn_Addresses s) o'" "\<forall>o'\<in>set (sn_Outpoints t). output_ok (sn_Addresses t) o'"
    using assms(1,2) by (simp_all add: canonical_snapshot_def)
  have len: "length (sn_Addresses s) = length (sn_Addresses t)"
    and r4: "concat (map address_bytes (sn_Addresses s)) @ u s = concat (map address_bytes (sn_Addresses t)) @ u t"
    using be_bytes_prefix [OF r3 [unfolded v_def]] assms(1,2) by (simp_all add: canonical_snapshot_def)
  have "map id (sn_Addresses s) = map id (sn_Addresses t) \<and> u s = u t"
    by (rule concat_prefix [OF _ len r4], unfold id_apply, rule address_bytes_prefix) (use adrs in blast)+
  then have adr: "sn_Addresses s = sn_Addresses t" and r5: "u s = u t" by simp_all
  have len2: "length (sn_Outpoints s) = length (sn_Outpoints t)"
    and r6: "concat (map output_bytes (sn_Outpoints s)) @ [] = concat (map output_bytes (sn_Outpoints t)) @ []"
    using be_bytes_prefix [OF r5 [unfolded u_def]] assms(1,2) by (simp_all add: canonical_snapshot_def)
  have "map public_output (sn_Outpoints s) = map public_output (sn_Outpoints t) \<and> ([] :: byte list) = []"
    by (rule concat_prefix [OF _ len2 r6], rule output_bytes_prefix [of "sn_Addresses s"]) (use outs adr in auto)
  moreover have "sn_Tip s = sn_Tip t"
    using net hash height assms(1,2) by (intro ChainTipSnapshot.equality) (auto simp: canonical_snapshot_def)
  ultimately show ?thesis using net primary adr by (simp add: public_part_def)
qed

section \<open>Snapshots of the local chain\<close>

text \<open>An entry of the snapshot for an output of the chain: the key that owns it, and its address.\<close>

definition chain_entry :: "crypto \<Rightarrow> privkey list \<Rightarrow> SpendableOutputSnapshot \<Rightarrow> SnapshotOutpoint \<Rightarrow> bool" where
  "chain_entry K keys out e \<longleftrightarrow>
     sp_OutpointRef e = so_OutPoint out \<and> sp_AmountUnits e = so_AmountUnits out \<and> sp_OwnerPKH e = so_OwnerPKH out \<and>
     sp_KeyIndex e = int (unat (so_OwnerIndex out)) \<and> unat (so_OwnerIndex out) < length keys \<and>
     pkhForKey K (keys ! unat (so_OwnerIndex out)) = so_OwnerPKH out \<and> sp_Address e = addressForKey K (keys ! unat (so_OwnerIndex out))"

lemma addSpendable_Inr_iff [steps]:
  "addSpendable acc v = Inr r \<longleftrightarrow> MoneyRange acc \<and> MoneyRange v \<and> MoneyRange r \<and> r = acc + v"
  using checkedAddMoney_eq [of acc v] by (auto simp: addSpendable_def checkedAddMoney_def failIf_Inr_iff split: if_splits)

lemma local_output_Inr:
  assumes "local_output keys (map (pkhForKey K) keys) (map (addressForKey K) keys) addresses (seen, snap) out = Inr (seen1, snap1)"
  shows "\<exists>e. chain_entry K keys out e \<and>
    snap1 = snap\<lparr>sn_SpendableUnits := sn_SpendableUnits snap + sp_AmountUnits e, sn_Outpoints := sn_Outpoints snap @ [e]\<rparr> \<and>
    MoneyRange (sn_SpendableUnits snap + sp_AmountUnits e)"
proof -
  obtain i where "address_index addresses (map (addressForKey K) keys ! unat (so_OwnerIndex out)) = Some i"
    using assms by (auto simp: local_output_def Let_def failIf_Inr_iff split: option.splits)
  then show ?thesis
    using assms
    by (intro exI [of _ "\<lparr>sp_Outpoint = outpoint_text (op_TxID (so_OutPoint out)) (op_Idx (so_OutPoint out)),
          sp_AmountUnits = so_AmountUnits out, sp_Address = addressForKey K (keys ! unat (so_OwnerIndex out)),
          sp_OutpointRef = so_OutPoint out, sp_TxID = op_TxID (so_OutPoint out), sp_Vout = op_Idx (so_OutPoint out),
          sp_OwnerPKH = so_OwnerPKH out, sp_OwnerAddressIndex = i, sp_KeyIndex = int (unat (so_OwnerIndex out))\<rparr>"])
      (auto simp: local_output_def Let_def failIf_Inr_iff bindE_Inr_iff addSpendable_Inr_iff chain_entry_def not_le)
qed

lemma local_outputs:
  assumes "foldE (local_output keys (map (pkhForKey K) keys) (map (addressForKey K) keys) addresses) (seen, snap) outs = Inr (seen', snap')"
    and "MoneyRange (sn_SpendableUnits snap)"
  shows "\<exists>es. snap' = snap\<lparr>sn_Outpoints := sn_Outpoints snap @ es, sn_SpendableUnits := sn_SpendableUnits snap + (\<Sum>e\<leftarrow>es. sp_AmountUnits e)\<rparr> \<and>
    list_all2 (chain_entry K keys) outs es \<and> MoneyRange (sn_SpendableUnits snap')"
  using assms
proof (induction outs arbitrary: seen snap)
  case Nil
  then show ?case by simp
next
  case (Cons out outs)
  let ?pkhs = "map (pkhForKey K) keys" and ?adrs = "map (addressForKey K) keys"
  obtain seen1 snap1 where s1: "local_output keys ?pkhs ?adrs addresses (seen, snap) out = Inr (seen1, snap1)"
    and rest: "foldE (local_output keys ?pkhs ?adrs addresses) (seen1, snap1) outs = Inr (seen', snap')"
    using Cons.prems(1) by (auto simp: bindE_Inr_iff)
  from s1 obtain e where e: "chain_entry K keys out e"
    and snap1: "snap1 = snap\<lparr>sn_SpendableUnits := sn_SpendableUnits snap + sp_AmountUnits e, sn_Outpoints := sn_Outpoints snap @ [e]\<rparr>"
    and mr: "MoneyRange (sn_SpendableUnits snap + sp_AmountUnits e)"
    using local_output_Inr by blast
  obtain es where es: "snap' = snap1\<lparr>sn_Outpoints := sn_Outpoints snap1 @ es, sn_SpendableUnits := sn_SpendableUnits snap1 + (\<Sum>e\<leftarrow>es. sp_AmountUnits e)\<rparr>"
    "list_all2 (chain_entry K keys) outs es" "MoneyRange (sn_SpendableUnits snap')"
    using Cons.IH [OF rest] mr snap1 by auto
  then show ?case using e snap1 by (intro exI [of _ "e # es"]) (simp add: add.assoc)
qed

lemma snapshotWithKeys_parts:
  assumes "snapshotWithKeys K c network expected keys = Inr s"
  obtains v where "SpendableOutputsForPKHs K c (map (pkhForKey K) keys) = Inr v" and "ss_Tip v = expected" and "ss_Network v = network"
    and "list_all2 (chain_entry K keys) (ss_Outputs v) (sn_Outpoints s)" and "keys \<noteq> []"
    and "sn_SpendableUnits s = (\<Sum>e\<leftarrow>sn_Outpoints s. sp_AmountUnits e)" and "MoneyRange (sn_SpendableUnits s)"
    and "sn_Network s = network" and "sn_Tip s = expected" and "sn_SchemaVersion s = wallet_SchemaVersion"
    and "sn_PrimaryAddress s = addressForKey K (keys ! 0)" and "sn_Addresses s = sort (map (addressForKey K) keys)"
    and "hashSnapshot K (s\<lparr>sn_WalletSnapshotHash := []\<rparr>) = Inr (sn_WalletSnapshotHash s)"
    and "\<not> adjacent_equal (sort (map (addressForKey K) keys))"
proof -
  let ?pkhs = "map (pkhForKey K) keys" and ?adrs = "map (addressForKey K) keys"
  let ?start = "\<lparr>sn_SchemaVersion = wallet_SchemaVersion, sn_Network = network, sn_Tip = expected, sn_PrimaryAddress = ?adrs ! 0,
      sn_Addresses = sort ?adrs, sn_Outpoints = [], sn_SpendableUnits = 0, sn_WalletSnapshotHash = []\<rparr>"
  obtain v seen s' h where v: "SpendableOutputsForPKHs K c ?pkhs = Inr v" "ss_Tip v = expected" "ss_Network v = network" "keys \<noteq> []"
    and adj: "\<not> adjacent_equal (sort ?adrs)"
    and run: "foldE (local_output keys ?pkhs ?adrs (sort ?adrs)) ({}, ?start) (ss_Outputs v) = Inr (seen, s')"
    and h: "hashSnapshot K s' = Inr h" and s: "s = s'\<lparr>sn_WalletSnapshotHash := h\<rparr>"
    using assms by (auto simp: snapshotWithKeys_def failIf_Inr_iff bindE_Inr_iff Let_def)
  obtain es where es: "s' = ?start\<lparr>sn_Outpoints := es, sn_SpendableUnits := (\<Sum>e\<leftarrow>es. sp_AmountUnits e)\<rparr>"
    "list_all2 (chain_entry K keys) (ss_Outputs v) es" "MoneyRange (sn_SpendableUnits s')"
    using local_outputs [OF run] by auto
  have "s\<lparr>sn_WalletSnapshotHash := []\<rparr> = s'" by (simp add: s es(1))
  then show ?thesis using that [OF v(1-3)] v(4) adj es h s by simp
qed

text \<open>The hash covers neither itself nor the key material.\<close>

lemma canonical_hash_field [simp]: "canonical_snapshot (s\<lparr>sn_WalletSnapshotHash := h\<rparr>) \<longleftrightarrow> canonical_snapshot s"
    "snapshot_bytes (s\<lparr>sn_WalletSnapshotHash := h\<rparr>) = snapshot_bytes s"
  by (simp_all add: canonical_snapshot_def snapshot_bytes_def)

lemma snapshotWithKeys_ok:
  assumes "snapshotWithKeys K c network expected keys = Inr s"
  shows "snapshot_ok K keys s \<and> canonical_snapshot s"
proof -
  obtain v :: SpendableOutputsSnapshot where v: "list_all2 (chain_entry K keys) (ss_Outputs v) (sn_Outpoints s)" "keys \<noteq> []"
    "sn_SpendableUnits s = (\<Sum>e\<leftarrow>sn_Outpoints s. sp_AmountUnits e)" "MoneyRange (sn_SpendableUnits s)"
    "hashSnapshot K (s\<lparr>sn_WalletSnapshotHash := []\<rparr>) = Inr (sn_WalletSnapshotHash s)"
    by (rule snapshotWithKeys_parts [OF assms]) blast
  have can: "canonical_snapshot s" using v(5) by (simp add: hashSnapshot_iff)
  then have "distinct (map sp_OutpointRef (sn_Outpoints s))"
    and out: "\<forall>e\<in>set (sn_Outpoints s). output_ok (sn_Addresses s) e" by (auto simp: canonical_snapshot_def strict_sorted_iff)
  moreover have "owned_by_key K keys e" if e: "e \<in> set (sn_Outpoints s)" for e
  proof -
    obtain n where n: "n < length (sn_Outpoints s)" "e = sn_Outpoints s ! n" using e by (auto simp: in_set_conv_nth)
    then have "chain_entry K keys (ss_Outputs v ! n) e" using v(1) by (simp add: list_all2_conv_all_nth)
    then show ?thesis using \<open>\<forall>e\<in>set (sn_Outpoints s). output_ok (sn_Addresses s) e\<close> e
      by (auto simp: chain_entry_def owned_by_key_def output_ok_def simp del: of_nat_unat)
  qed
  ultimately show ?thesis using v can by (auto simp: snapshot_ok_def output_ok_def)
qed

section \<open>Snapshots from a gateway\<close>

definition remote_entry :: "SnapshotOutpoint \<Rightarrow> RemoteSnapshotOutpoint" where
  "remote_entry e = \<lparr>ro_TxID = sp_TxID e, ro_Vout = sp_Vout e, ro_AmountUnits = sp_AmountUnits e, ro_Address = sp_Address e\<rparr>"

text \<open>The public data of a snapshot, as a gateway returns it.\<close>

definition remote_of :: "Snapshot \<Rightarrow> RemoteSnapshot" where
  "remote_of s = \<lparr>rs_Network = sn_Network s, rs_Tip = sn_Tip s, rs_Addresses = sn_Addresses s,
     rs_Outpoints = map remote_entry (sn_Outpoints s), rs_SpendableUnits = sn_SpendableUnits s\<rparr>"

lemma remote_entry_simps [simp]: "ro_TxID (remote_entry e) = sp_TxID e" "ro_Vout (remote_entry e) = sp_Vout e"
    "ro_AmountUnits (remote_entry e) = sp_AmountUnits e" "ro_Address (remote_entry e) = sp_Address e"
  by (simp_all add: remote_entry_def)

lemma key_index: "map_of (zip as [0..<length as]) a = Some i \<Longrightarrow> i < length as \<and> as ! i = a"
  by (auto dest!: map_of_SomeD simp: set_zip)

lemma key_index_distinct: "distinct as \<Longrightarrow> i < length as \<Longrightarrow> map_of (zip as [0..<length as]) (as ! i) = Some i"
  by (intro map_of_is_SomeI) (auto simp: set_zip)

lemma remote_output_Inr:
  assumes "remote_output K keys (map (addressForKey K) keys) ads (acc, prev, es) ro = Inr (acc', prev', es')" and "MoneyRange acc"
  shows "\<exists>e. owned_by_key K keys e \<and> sp_OutpointRef e = OutPoint (sp_TxID e) (sp_Vout e) \<and> ro = remote_entry e \<and>
    es' = es @ [e] \<and> acc' = acc + sp_AmountUnits e \<and> MoneyRange acc'"
proof -
  obtain i j pkh where idx: "map_of (zip (map (addressForKey K) keys) [0..<length keys]) (ro_Address ro) = Some i"
    "address_index ads (ro_Address ro) = Some j" "DecodeAddress K (ro_Address ro) = Inr pkh"
    using assms(1) by (auto simp: remote_output_def split: option.splits sum.splits)
  have i: "i < length keys" "addressForKey K (keys ! i) = ro_Address ro" 
    using key_index [of "map (addressForKey K) keys" "ro_Address ro" i] idx(1) by auto
  have facts: "pkhForKey K (keys ! i) = pkh" "0 < ro_AmountUnits ro" "MoneyRange (ro_AmountUnits ro)" "acc \<le> wrap64 (MaxMoneyUnits - ro_AmountUnits ro)"
    and res: "acc' = wrap64 (acc + ro_AmountUnits ro)"
    "es' = es @ [\<lparr>sp_Outpoint = outpoint_text (ro_TxID ro) (ro_Vout ro), sp_AmountUnits = ro_AmountUnits ro,
        sp_Address = ro_Address ro, sp_OutpointRef = OutPoint (ro_TxID ro) (ro_Vout ro), sp_TxID = ro_TxID ro,
        sp_Vout = ro_Vout ro, sp_OwnerPKH = pkh, sp_OwnerAddressIndex = j, sp_KeyIndex = int i\<rparr>]"
    using assms(1) idx by (auto simp: remote_output_def failIf_Inr_iff not_less not_le)
  have "wrap64 (MaxMoneyUnits - ro_AmountUnits ro) = MaxMoneyUnits - ro_AmountUnits ro"
    using facts by (simp add: wrap64_id is_int64_def money)
  then have "acc' = acc + ro_AmountUnits ro" "MoneyRange acc'"
    using facts assms(2) res(1) by (simp_all add: wrap64_id is_int64_def money)
  then show ?thesis
    using i facts res(2) by (auto simp: owned_by_key_def remote_entry_def)
qed

lemma remote_outputs:
  assumes "foldE (remote_output K keys (map (addressForKey K) keys) ads) (acc, prev, es) ros = Inr (acc', prev', es')" and "MoneyRange acc"
  shows "\<exists>new. es' = es @ new \<and> ros = map remote_entry new \<and> acc' = acc + (\<Sum>e\<leftarrow>new. sp_AmountUnits e) \<and> MoneyRange acc' \<and>
    (\<forall>e\<in>set new. owned_by_key K keys e \<and> sp_OutpointRef e = OutPoint (sp_TxID e) (sp_Vout e))"
  using assms
proof (induction ros arbitrary: acc prev es)
  case Nil
  then show ?case by simp
next
  case (Cons ro ros)
  let ?f = "remote_output K keys (map (addressForKey K) keys) ads"
  obtain acc1 prev1 es1 where s1: "?f (acc, prev, es) ro = Inr (acc1, prev1, es1)" and rest: "foldE ?f (acc1, prev1, es1) ros = Inr (acc', prev', es')"
    using Cons.prems(1) by (auto simp: bindE_Inr_iff)
  obtain e where e: "owned_by_key K keys e" "sp_OutpointRef e = OutPoint (sp_TxID e) (sp_Vout e)" "ro = remote_entry e"
    "es1 = es @ [e]" "acc1 = acc + sp_AmountUnits e" "MoneyRange acc1"
    using remote_output_Inr [OF s1 Cons.prems(2)] by blast
  obtain new where "es' = es1 @ new" "ros = map remote_entry new" "acc' = acc1 + (\<Sum>e\<leftarrow>new. sp_AmountUnits e)" "MoneyRange acc'"
    "\<forall>e\<in>set new. owned_by_key K keys e \<and> sp_OutpointRef e = OutPoint (sp_TxID e) (sp_Vout e)"
    using Cons.IH [OF rest e(6)] by blast
  then show ?case using e by (intro exI [of _ "e # new"]) (simp add: add.assoc)
qed

lemma snapshotFromRemote_sound:
  assumes "snapshotFromRemoteWithKeys K network remote keys = Inr s"
  shows "remote_of s = remote \<and> snapshot_ok K keys s \<and> canonical_snapshot s \<and> length keys \<le> MaxWalletKeys \<and>
    length (sn_Outpoints s) \<le> MaxSnapshotOutpoints"
proof -
  let ?adrs = "map (addressForKey K) keys"
  let ?snap = "\<lambda>acc es. \<lparr>sn_SchemaVersion = wallet_SchemaVersion, sn_Network = network, sn_Tip = rs_Tip remote,
      sn_PrimaryAddress = ?adrs ! 0, sn_Addresses = sort ?adrs, sn_Outpoints = es, sn_SpendableUnits = acc, sn_WalletSnapshotHash = []\<rparr>"
  obtain acc prev es h where c: "keys \<noteq> []" "length keys \<le> MaxWalletKeys" "rs_Network remote = network" "rs_Addresses remote = sort ?adrs"
      "length (rs_Outpoints remote) \<le> MaxSnapshotOutpoints"
    and run: "foldE (remote_output K keys ?adrs (sort ?adrs)) (0, None, []) (rs_Outpoints remote) = Inr (acc, prev, es)"
    and acc: "acc = rs_SpendableUnits remote" and h: "hashSnapshot K (?snap acc es) = Inr h" and s: "s = (?snap acc es)\<lparr>sn_WalletSnapshotHash := h\<rparr>"
    using assms by (auto simp: snapshotFromRemoteWithKeys_def failIf_Inr_iff bindE_Inr_iff Let_def not_less)
  have es: "rs_Outpoints remote = map remote_entry es" "acc = (\<Sum>e\<leftarrow>es. sp_AmountUnits e)" "MoneyRange acc"
    "\<forall>e\<in>set es. owned_by_key K keys e \<and> sp_OutpointRef e = OutPoint (sp_TxID e) (sp_Vout e)"
    using remote_outputs [OF run] by auto
  have can: "canonical_snapshot s" using h by (simp add: s hashSnapshot_iff canonical_snapshot_def)
  then have "distinct (map sp_OutpointRef es)" by (auto simp: canonical_snapshot_def strict_sorted_iff s)
  then have "snapshot_ok K keys s" using c es by (simp add: snapshot_ok_def s)
  moreover have "remote_of s = remote"
    using c es acc by (intro RemoteSnapshot.equality) (simp_all add: remote_of_def s)
  ultimately show ?thesis using can c(2,5) es(1) by (simp add: s)
qed

lemma address_index_nth:
  assumes "distinct as" and "i < length as" and "length as \<le> 0xffffffff"
  shows "address_index as (as ! i) = Some (of_nat i)"
proof -
  have "distinct (map fst (rev (zip as (map of_nat [0..<length as] :: uint32 list))))" using assms(1) by (simp add: rev_map [symmetric])
  moreover have "(as ! i, of_nat i) \<in> set (zip as (map of_nat [0..<length as] :: uint32 list))"
    using assms(2) by (auto simp: set_zip)
  ultimately show ?thesis unfolding address_index_def by (intro map_of_is_SomeI) simp_all
qed

lemma distinct_sorted_adjacent: "sorted xs \<Longrightarrow> \<not> adjacent_equal xs \<Longrightarrow> distinct xs"
proof (induction xs rule: induct_list012)
  case (3 x y zs)
  then have "x \<noteq> y" "sorted (y # zs)" "distinct (y # zs)" by (auto simp: adjacent_equal_def)
  then show ?case using "3.prems"(1) by force
qed simp_all

text \<open>What the light wallet computes for one entry of a canonical snapshot.\<close>

lemma remote_output_entry:
  assumes dis: "distinct (map (addressForKey K) keys)" and own: "owned_by_key K keys e" and ok: "output_ok ads e"
    and ads: "distinct ads" "length ads \<le> 0xffffffff"
    and prev: "case prev of None \<Rightarrow> True | Some y \<Rightarrow> y < sp_OutpointRef e" and acc: "0 \<le> acc" "acc + sp_AmountUnits e \<le> MaxMoneyUnits"
  shows "remote_output K keys (map (addressForKey K) keys) ads (acc, prev, es) (remote_entry e) =
    Inr (acc + sp_AmountUnits e, Some (sp_OutpointRef e), es @ [e])"
proof -
  let ?i = "nat (sp_KeyIndex e)"
  have key: "0 \<le> sp_KeyIndex e" "?i < length keys" "addressForKey K (keys ! ?i) = sp_Address e" "pkhForKey K (keys ! ?i) = sp_OwnerPKH e"
    and amt: "0 < sp_AmountUnits e" "MoneyRange (sp_AmountUnits e)"
    using own by (auto simp: owned_by_key_def)
  have adr: "sp_Address e = EncodeAddress K (sp_OwnerPKH e)" using key(3,4) by (simp add: addressForKey_def pkhForKey_def)
  then have dec: "DecodeAddress K (sp_Address e) = Inr (sp_OwnerPKH e)" by (simp add: DecodeAddress_EncodeAddress)
  have "map_of (zip (map (addressForKey K) keys) [0..<length keys]) (sp_Address e) = Some ?i"
    using key_index_distinct [OF dis, of ?i] key by simp
  moreover have "address_index ads (sp_Address e) = Some (sp_OwnerAddressIndex e)"
    using address_index_nth [OF ads(1) _ ads(2), of "unat (sp_OwnerAddressIndex e)"] ok by (simp add: output_ok_def)
  moreover have "wrap64 (MaxMoneyUnits - sp_AmountUnits e) = MaxMoneyUnits - sp_AmountUnits e" "wrap64 (acc + sp_AmountUnits e) = acc + sp_AmountUnits e"
    using amt acc by (simp_all add: wrap64_id is_int64_def money)
  moreover have "\<not> (case prev of None \<Rightarrow> False | Some prev \<Rightarrow>
      op_TxID prev > ro_TxID (remote_entry e) \<or> (op_TxID prev = ro_TxID (remote_entry e) \<and> op_Idx prev \<ge> ro_Vout (remote_entry e)))"
    using prev ok by (cases prev) (auto simp: output_ok_def less_OutPoint_def)
  moreover have "\<lparr>sp_Outpoint = outpoint_text (sp_TxID e) (sp_Vout e), sp_AmountUnits = sp_AmountUnits e, sp_Address = sp_Address e,
      sp_OutpointRef = OutPoint (sp_TxID e) (sp_Vout e), sp_TxID = sp_TxID e, sp_Vout = sp_Vout e, sp_OwnerPKH = sp_OwnerPKH e,
      sp_OwnerAddressIndex = sp_OwnerAddressIndex e, sp_KeyIndex = int ?i\<rparr> = e"
    using ok key(1) by (intro SnapshotOutpoint.equality) (simp_all add: output_ok_def)
  ultimately show ?thesis
    using key amt acc dec adr ok by (simp add: remote_output_def failIf_def output_ok_def)
qed

lemma remote_outputs_entries:
  assumes "distinct (map (addressForKey K) keys)" and "distinct ads" and "length ads \<le> 0xffffffff"
    and "\<forall>e\<in>set es. owned_by_key K keys e \<and> output_ok ads e" and "above prev (map sp_OutpointRef es)"
    and "0 \<le> acc" and "acc + (\<Sum>e\<leftarrow>es. sp_AmountUnits e) \<le> MaxMoneyUnits"
  shows "\<exists>prev'. foldE (remote_output K keys (map (addressForKey K) keys) ads) (acc, prev, done) (map remote_entry es) =
    Inr (acc + (\<Sum>e\<leftarrow>es. sp_AmountUnits e), prev', done @ es)"
  using assms(4-7)
proof (induction es arbitrary: acc prev "done")
  case Nil
  then show ?case by simp
next
  case (Cons e es)
  have pos: "0 < sp_AmountUnits e" "0 \<le> (\<Sum>e\<leftarrow>es. sp_AmountUnits e)"
    using Cons.prems(1) by (auto simp: owned_by_key_def MoneyRange_def intro!: sum_list_nonneg)
  have "remote_output K keys (map (addressForKey K) keys) ads (acc, prev, done) (remote_entry e) =
      Inr (acc + sp_AmountUnits e, Some (sp_OutpointRef e), done @ [e])"
    using Cons.prems pos by (intro remote_output_entry assms(1-3)) (auto simp: above_Cons)
  moreover obtain prev' where "foldE (remote_output K keys (map (addressForKey K) keys) ads) (acc + sp_AmountUnits e, Some (sp_OutpointRef e), done @ [e])
      (map remote_entry es) = Inr (acc + sp_AmountUnits e + (\<Sum>e\<leftarrow>es. sp_AmountUnits e), prev', (done @ [e]) @ es)"
    using Cons.IH [of "Some (sp_OutpointRef e)" "acc + sp_AmountUnits e" "done @ [e]"] Cons.prems pos by (auto simp: above_Cons)
  ultimately show ?case by (auto simp: add.assoc)
qed

lemma remote_rebuilds:
  assumes ok: "snapshot_ok K keys s" "canonical_snapshot s" and dis: "distinct (map (addressForKey K) keys)"
    and p: "sn_SchemaVersion s = wallet_SchemaVersion" "sn_PrimaryAddress s = addressForKey K (keys ! 0)"
      "sn_Addresses s = sort (map (addressForKey K) keys)" "hashSnapshot K (s\<lparr>sn_WalletSnapshotHash := []\<rparr>) = Inr (sn_WalletSnapshotHash s)"
    and len: "length keys \<le> MaxWalletKeys" "length (sn_Outpoints s) \<le> MaxSnapshotOutpoints"
  shows "snapshotFromRemoteWithKeys K (sn_Network s) (remote_of s) keys = Inr s"
proof -
  let ?adrs = "map (addressForKey K) keys"
  have "\<exists>prev'. foldE (remote_output K keys ?adrs (sort ?adrs)) (0, None, []) (map remote_entry (sn_Outpoints s)) =
      Inr (0 + (\<Sum>e\<leftarrow>sn_Outpoints s. sp_AmountUnits e), prev', [] @ sn_Outpoints s)"
    using dis ok p(3) by (intro remote_outputs_entries) (auto simp: snapshot_ok_def canonical_snapshot_def above_def MoneyRange_def)
  then obtain prev' where run: "foldE (remote_output K keys ?adrs (sort ?adrs)) (0, None, []) (map remote_entry (sn_Outpoints s)) =
      Inr (sn_SpendableUnits s, prev', sn_Outpoints s)"
    using ok(1) by (auto simp: snapshot_ok_def)
  have s: "\<lparr>sn_SchemaVersion = wallet_SchemaVersion, sn_Network = sn_Network s, sn_Tip = sn_Tip s, sn_PrimaryAddress = addressForKey K (keys ! 0),
      sn_Addresses = sort ?adrs, sn_Outpoints = sn_Outpoints s, sn_SpendableUnits = sn_SpendableUnits s, sn_WalletSnapshotHash = h\<rparr> =
      s\<lparr>sn_WalletSnapshotHash := h\<rparr>" for h
    using p(1-3) by (intro Snapshot.equality) simp_all
  have "keys \<noteq> []" "0 \<le> ts_Height (sn_Tip s)" "ts_Network (sn_Tip s) = sn_Network s" "MoneyRange (sn_SpendableUnits s)"
    using ok by (auto simp: canonical_snapshot_def snapshot_ok_def)
  moreover have "rs_Addresses (remote_of s) = sort ?adrs" "rs_Outpoints (remote_of s) = map remote_entry (sn_Outpoints s)"
    "rs_SpendableUnits (remote_of s) = sn_SpendableUnits s" "rs_Network (remote_of s) = sn_Network s" "rs_Tip (remote_of s) = sn_Tip s"
    using p by (simp_all add: remote_of_def)
  ultimately show ?thesis
    using dis p(4) len run by (simp add: snapshotFromRemoteWithKeys_def failIf_def Let_def s)
qed

lemma remote_rebuilds_local:
  assumes "snapshotWithKeys K c network expected keys = Inr s"
    and "length keys \<le> MaxWalletKeys" and "length (sn_Outpoints s) \<le> MaxSnapshotOutpoints"
  shows "snapshotFromRemoteWithKeys K network (remote_of s) keys = Inr s"
proof -
  have "sn_Network s = network" "sn_SchemaVersion s = wallet_SchemaVersion"
    "sn_PrimaryAddress s = addressForKey K (keys ! 0)" "sn_Addresses s = sort (map (addressForKey K) keys)"
    "hashSnapshot K (s\<lparr>sn_WalletSnapshotHash := []\<rparr>) = Inr (sn_WalletSnapshotHash s)" "\<not> adjacent_equal (sort (map (addressForKey K) keys))"
    by (rule snapshotWithKeys_parts [OF assms(1)], simp)+
  moreover from this have "distinct (sort (map (addressForKey K) keys))" by (intro distinct_sorted_adjacent) simp_all
  ultimately show ?thesis using remote_rebuilds [of K keys s] snapshotWithKeys_ok [OF assms(1)] assms(2,3) by simp
qed

section \<open>Properties\<close>

text \<open>C19: The wallet snapshot hash binds the snapshot: if two snapshots hash to the same string, then they agree on
  network, tip, primary address, address list and every outpoint with its amount and address, or their
  canonical encodings are a collision of SHA-256. (Heights are 64-bit integers.)\<close>

theorem snapshot_hash_binds:
  assumes "hashSnapshot K s = Inr h" and "hashSnapshot K t = Inr h"
    and "is_int64 (ts_Height (sn_Tip s))" and "is_int64 (ts_Height (sn_Tip t))"
  shows "public_part s = public_part t \<or>
    (\<exists>a b. a \<noteq> b \<and> sha256 K a = sha256 K b \<and> snapshotHashPreimage s = Inr a \<and> snapshotHashPreimage t = Inr b)"
proof -
  have can: "canonical_snapshot s" "canonical_snapshot t"
    and eq: "hex_EncodeToString (hash_bytes (sha256 K (snapshot_bytes s))) = hex_EncodeToString (hash_bytes (sha256 K (snapshot_bytes t)))"
    using assms(1,2) by (auto simp: hashSnapshot_iff)
  have "hash_bytes (sha256 K (snapshot_bytes s)) = hash_bytes (sha256 K (snapshot_bytes t))"
    using arg_cong [OF eq, of hex_DecodeString] by simp
  then have "sha256 K (snapshot_bytes s) = sha256 K (snapshot_bytes t)" by (rule hash_bytes_inj)
  then show ?thesis
    using snapshot_bytes_inj [OF can _ assms(3,4)] can by (auto simp: snapshotHashPreimage_iff)
qed

lemma b58_digits_length: "x < 58 ^ k \<Longrightarrow> length (b58_digits x) \<le> k"
proof (induction k arbitrary: x)
  case 0
  then show ?case by (simp add: b58_digits.simps)
next
  case (Suc k)
  then have "length (b58_digits (x div 58)) \<le> k" by (intro Suc.IH) (simp add: less_mult_imp_div_less mult.commute)
  then show ?case by (subst b58_digits.simps) simp
qed

lemma b58alphabet_ascii: "c \<in> set b58alphabet \<Longrightarrow> c \<le> 0x7f"
  by (auto simp: b58alphabet_def)

lemma EncodeAddress_ok: "address_ok (EncodeAddress K pkh)"
proof -
  let ?raw = "(addrVersion # pkh_bytes pkh) @ take 4 (hash_bytes (SHA256d K (addrVersion # pkh_bytes pkh)))"
  have enc: "EncodeAddress K pkh = base58Encode ?raw" by (simp add: EncodeAddress_def Let_def)
  have "isASCII (base58Encode ?raw)"
    using b58_digits_less b58alphabet_ascii
    by (auto simp: isASCII_def base58Encode_def list_all_iff length_b58alphabet)
  moreover have "be_nat ?raw < 58 ^ 50" using be_nat_bound [of ?raw] by simp
  then have "length (b58_digits (be_nat ?raw)) \<le> 50" by (rule b58_digits_length)
  moreover have "takeWhile (\<lambda>c. c = 0) ?raw = []" by (simp add: addrVersion_def)
  moreover have "EncodeAddress K pkh \<noteq> []"
    using DecodeAddress_EncodeAddress [of K pkh] by (auto simp: DecodeAddress_def base58Decode_def be_bytes_def byte_len.simps steps)
  ultimately show ?thesis by (simp add: address_ok_def enc base58Encode_def)
qed

lemma addressForKey_ok [simp]: "address_ok (addressForKey K key)"
  by (simp add: addressForKey_def EncodeAddress_ok)

lemma sample_wallet_canonical: "canonical_snapshot sample_wallet"
  by (simp add: canonical_snapshot_def sample_wallet_def sample_coin_def output_ok_def money less_OutPoint_def)

theorem snapshot_hash_binds_witness:
  "\<exists>h. hashSnapshot sample_crypto sample_wallet = Inr h \<and> hashSnapshot sample_crypto (sample_wallet\<lparr>sn_SchemaVersion := 9\<rparr>) = Inr h \<and>
    (public_part sample_wallet = public_part (sample_wallet\<lparr>sn_SchemaVersion := 9\<rparr>) \<or>
     (\<exists>a b. a \<noteq> b \<and> sha256 sample_crypto a = sha256 sample_crypto b \<and> snapshotHashPreimage sample_wallet = Inr a))"
proof -
  let ?t = "sample_wallet\<lparr>sn_SchemaVersion := 9\<rparr>"
  have "canonical_snapshot ?t" "snapshot_bytes ?t = snapshot_bytes sample_wallet"
    using sample_wallet_canonical by (simp_all add: canonical_snapshot_def snapshot_bytes_def)
  then obtain h where h: "hashSnapshot sample_crypto sample_wallet = Inr h" "hashSnapshot sample_crypto ?t = Inr h"
    using sample_wallet_canonical by (simp add: hashSnapshot_iff)
  have "is_int64 (ts_Height (sn_Tip sample_wallet))" "is_int64 (ts_Height (sn_Tip ?t))" by (simp_all add: sample_wallet_def is_int64_def)
  then show ?thesis using snapshot_hash_binds [OF h] h by blast
qed

end
