(* ===== verification/PaymentChain.thy ===== *)
theory PaymentChain
  imports SnapshotTheorems
begin

text \<open>
  Payments end to end: what a prepared payment spends and pays, that the chain it was prepared on
  accepts it with exactly the requested fee, that a light wallet prepares the same transaction from a
  gateway's data, and what a maximum send leaves behind.
\<close>

section \<open>What a prepared payment is\<close>

text \<open>Coins of the snapshot, each once and none excluded, that cover amount and fee.\<close>

definition coin_choice :: "OutPoint set \<Rightarrow> Snapshot \<Rightarrow> int \<Rightarrow> paymentCandidate list \<Rightarrow> bool" where
  "coin_choice ex s need chosen \<longleftrightarrow> chosen \<noteq> [] \<and> distinct (map pcd_op chosen) \<and>
     (\<forall>c\<in>set chosen. \<exists>o'\<in>set (sn_Outpoints s). c = coin_of o' \<and> sp_OutpointRef o' \<notin> ex) \<and>
     need \<le> amounts chosen \<and> amounts chosen \<le> sn_SpendableUnits s"

lemma buildPayment_facts:
  assumes ok: "snapshot_ok K keys s" and "0 < amount" and "0 \<le> fee" and "amount + fee \<le> MaxMoneyUnits"
    and "buildPaymentFromSnapshot K keys s toPKH amount fee ex = Inr p"
  obtains chosen where "coin_choice ex s (amount + fee) chosen" and "pp_SelectedOutpoints p = map pcd_op chosen"
    and "Sign K (signing_keys keys chosen) (payment_tx K keys toPKH amount fee chosen) = Inr (pp_Tx p)"
    and "length (tx_Bytes (pp_Tx p)) \<le> MaxSignedTxBytes"
proof -
  let ?chosen = "take (cover (amount + fee) (coins ex s)) (coins ex s)"
  have r: "amount + fee \<le> amounts ?chosen" "pp_SelectedOutpoints p = map pcd_op ?chosen"
    "Sign K (signing_keys keys ?chosen) (payment_tx K keys toPKH amount fee ?chosen) = Inr (pp_Tx p)"
    "length (tx_Bytes (pp_Tx p)) \<le> MaxSignedTxBytes"
    using assms(5) unfolding buildPayment_cover [OF assms(1-4)] Let_def by (auto simp: failIf_Inr_iff bindE_Inr_iff not_less)
  note C = snapshot_coins [OF ok]
  have "distinct (map pcd_op (sort_key candidate_rank (eligible ex s)))"
    using C(5) by (metis mset_eq_imp_distinct_iff mset_map mset_sort)
  then have "distinct (map pcd_op ?chosen)" by (simp add: coins_def take_map [symmetric] distinct_take)
  moreover have "?chosen \<noteq> []"
  proof
    assume "?chosen = []"
    then have "amounts ?chosen = 0" by (simp only: amounts_simps)
    then show False using r(1) assms(2,3) by linarith
  qed
  moreover have "\<forall>c\<in>set ?chosen. \<exists>o'\<in>set (sn_Outpoints s). c = coin_of o' \<and> sp_OutpointRef o' \<notin> ex"
    using C(6) [of ex] by (fastforce dest: in_set_takeD)
  moreover have "amounts ?chosen \<le> sn_SpendableUnits s"
  proof -
    have "\<forall>c\<in>set (sort_key candidate_rank (eligible ex s)). 0 < pcd_amount c"
      using ok by (auto simp: eligible_def snapshot_ok_def owned_by_key_def)
    then have "amounts (take n (coins ex s)) \<le> amounts (eligible ex s)" for n
      using amounts_take [of "sort_key candidate_rank (eligible ex s)"] unfolding coins_def take_take by simp
    then show ?thesis using C(2) [of ex] by (meson order_trans)
  qed
  ultimately have "coin_choice ex s (amount + fee) ?chosen" unfolding coin_choice_def using r(1) by blast
  then show ?thesis using r(2-4) by (rule that)
qed

lemma coin_owner:
  assumes "snapshot_ok K keys s" and "c = coin_of o'" and "o' \<in> set (sn_Outpoints s)"
  shows "pcd_key c < length keys \<and> pkhForKey K (keys ! pcd_key c) = sp_OwnerPKH o' \<and> 0 < pcd_amount c"
  using assms by (auto simp: snapshot_ok_def owned_by_key_def)

lemma amounts_member: "d \<in> set cs \<Longrightarrow> \<forall>c\<in>set cs. 0 < pcd_amount c \<Longrightarrow> pcd_amount d \<le> amounts cs"
  using amounts_nonneg by (induction cs) fastforce+

lemma signed_inputs:
  assumes "Sign K (signing_keys keys chosen) (payment_tx K keys toPKH amount fee chosen) = Inr tx"
  shows "tx_Ins tx = map (\<lambda>c. \<lparr>in_Prev = pcd_op c, in_PubKey = ed_public K (keys ! pcd_key c),
      in_Sig = ed_sign K (keys ! pcd_key c) (hash_bytes (SigDigest K tx))\<rparr>) chosen"
    and "tx_Outs tx = payment_outputs K keys toPKH amount (amounts chosen - amount - fee)"
proof -
  have "length (tx_Ins tx) = length chosen"
    using assms by (auto simp: Sign_def Let_def failIf_Inr_iff signing_keys_def payment_tx_def set_pubkeys_def)
  then show "tx_Ins tx = map (\<lambda>c. \<lparr>in_Prev = pcd_op c, in_PubKey = ed_public K (keys ! pcd_key c),
      in_Sig = ed_sign K (keys ! pcd_key c) (hash_bytes (SigDigest K tx))\<rparr>) chosen"
    using Sign_inputs [OF assms] by (intro nth_equalityI) (simp_all add: signing_keys_def payment_tx_def)
  show "tx_Outs tx = payment_outputs K keys toPKH amount (amounts chosen - amount - fee)"
    using assms by (auto simp: Sign_def Let_def failIf_Inr_iff payment_tx_def set_pubkeys_def)
qed

section \<open>The chain accepts it\<close>

lemma snapshot_outputs_available:
  assumes "chain_reach K p stored c" and "canonical_params p" and "snapshotWithKeys K c network expected keys = Inr s"
    and "o' \<in> set (sn_Outpoints s)"
  shows "\<exists>e. available c (sp_OutpointRef o') e \<and> sp_AmountUnits o' = ue_Value e \<and> sp_OwnerPKH o' = ue_PKH e"
proof -
  obtain v where v: "SpendableOutputsForPKHs K c (map (pkhForKey K) keys) = Inr v"
    "list_all2 (chain_entry K keys) (ss_Outputs v) (sn_Outpoints s)"
    by (rule snapshotWithKeys_parts [OF assms(3)]) blast
  obtain n where n: "n < length (sn_Outpoints s)" "o' = sn_Outpoints s ! n" using assms(4) by (auto simp: in_set_conv_nth)
  then have entry: "chain_entry K keys (ss_Outputs v ! n) o'" and mem: "ss_Outputs v ! n \<in> set (ss_Outputs v)"
    using v(2) by (simp_all add: list_all2_conv_all_nth)
  obtain owners w where w: "walletViewForOwnersLocked K c owners 0 = Inr w" "ss_Outputs v = wv_SpendableOutputs w"
    using v(1) by (auto simp: SpendableOutputsForPKHs_def bindE_Inr_iff)
  show ?thesis using view_spendable(3) [OF assms(1,2) w(1)] mem entry w(2) by (auto simp: chain_entry_def)
qed

lemma payment_outputs_total:
  "0 \<le> change \<Longrightarrow> outs_total (payment_outputs K keys toPKH amount change) = amount + change"
  by (simp add: payment_outputs_def)

text \<open>The hypotheses on the signature scheme: what it signs verifies, and public keys have 32 bytes.\<close>

definition signs :: "crypto \<Rightarrow> privkey list \<Rightarrow> bool" where
  "signs K keys \<longleftrightarrow> (\<forall>k\<in>set keys. length (ed_public K k) = 32 \<and> (\<forall>m. ed_verify K (ed_public K k) m (ed_sign K k m)))"

lemma available_valid_spend:
  assumes par: "ch_params c = p" and ok: "snapshot_ok K keys s"
    and avail: "\<And>o'. o' \<in> set (sn_Outpoints s) \<Longrightarrow> \<exists>e. available c (sp_OutpointRef o') e \<and> sp_AmountUnits o' = ue_Value e \<and> sp_OwnerPKH o' = ue_PKH e"
    and sig: "signs K keys" and am: "0 < amount" "0 \<le> fee" "amount + fee \<le> MaxMoneyUnits"
    and build: "buildPaymentFromSnapshot K keys s toPKH amount fee ex = Inr prepared"
  shows "valid_spend K p (ch_utxo c) (pp_Tx prepared) (bi_height (ch_tip c) + 1) fee"
    and "\<forall>i\<in>set (tx_Ins (pp_Tx prepared)). in_Prev i \<in> dom (ch_utxo c) - mempool_spent (ch_mempool c)"
proof -
  obtain chosen where ch: "coin_choice ex s (amount + fee) chosen"
    and sg: "Sign K (signing_keys keys chosen) (payment_tx K keys toPKH amount fee chosen) = Inr (pp_Tx prepared)"
    using buildPayment_facts [OF ok am build] by metis
  note ins = signed_inputs [OF sg]
  have coin: "\<exists>e. available c (pcd_op d) e \<and> pcd_amount d = ue_Value e \<and> pkhForKey K (keys ! pcd_key d) = ue_PKH e \<and>
      keys ! pcd_key d \<in> set keys \<and> 0 < pcd_amount d" if d: "d \<in> set chosen" for d
  proof -
    obtain o' where o': "o' \<in> set (sn_Outpoints s)" "d = coin_of o'" using ch d by (auto simp: coin_choice_def)
    then show ?thesis using avail [OF o'(1)] coin_owner [OF ok o'(2,1)] by auto
  qed
  have auth: "authorised K p (ch_utxo c) (SigDigest K (pp_Tx prepared)) (bi_height (ch_tip c) + 1) i"
    if i: "i \<in> set (tx_Ins (pp_Tx prepared))" for i
  proof -
    obtain d where d: "d \<in> set chosen" "i = \<lparr>in_Prev = pcd_op d, in_PubKey = ed_public K (keys ! pcd_key d),
        in_Sig = ed_sign K (keys ! pcd_key d) (hash_bytes (SigDigest K (pp_Tx prepared)))\<rparr>" using i ins(1) by auto
    obtain e where e: "available c (pcd_op d) e" "pcd_amount d = ue_Value e" "pkhForKey K (keys ! pcd_key d) = ue_PKH e"
      "keys ! pcd_key d \<in> set keys" "0 < pcd_amount d" using coin [OF d(1)] by blast
    have "amounts chosen \<le> MaxMoneyUnits" using ch ok by (auto simp: coin_choice_def snapshot_ok_def MoneyRange_def)
    moreover have "pcd_amount d \<le> amounts chosen"
      using d(1) coin by (intro amounts_member) auto
    ultimately show ?thesis
      using e d(2) sig par by (auto simp: authorised_def entry_of_def available_def signs_def pkhForKey_def MoneyRange_def)
  qed
  have total: "ins_total (ch_utxo c) (tx_Ins (pp_Tx prepared)) = amounts chosen"
    unfolding ins(1) ins_total_def amounts_def map_map
    by (intro arg_cong [of _ _ sum_list] map_cong refl) (use coin in \<open>fastforce simp: entry_of_def available_def\<close>)
  show "\<forall>i\<in>set (tx_Ins (pp_Tx prepared)). in_Prev i \<in> dom (ch_utxo c) - mempool_spent (ch_mempool c)"
    using coin ins(1) by (fastforce simp: available_def)
  have c0: "0 \<le> amounts chosen - amount - fee" "amounts chosen \<le> MaxMoneyUnits"
    using ch ok by (auto simp: coin_choice_def snapshot_ok_def MoneyRange_def)
  have outs: "outs_total (tx_Outs (pp_Tx prepared)) = amounts chosen - fee"
    unfolding ins(2) payment_outputs_total [OF c0(1)] by simp
  have "good_outs (tx_Outs (pp_Tx prepared))"
    using am c0 outs unfolding good_outs_def by (auto simp: ins(2) payment_outputs_def split: if_splits)
  then show "valid_spend K p (ch_utxo c) (pp_Tx prepared) (bi_height (ch_tip c) + 1) fee"
    using auth total outs ch am c0 by (auto simp: valid_spend_def coin_choice_def ins comp_def payment_outputs_def)
qed

lemma payment_valid_spend:
  assumes reach: "chain_reach K p stored c" "canonical_params p" and snap: "snapshotWithKeys K c network expected keys = Inr s"
    and "signs K keys" and "0 < amount" "0 \<le> fee" "amount + fee \<le> MaxMoneyUnits"
    and "buildPaymentFromSnapshot K keys s toPKH amount fee ex = Inr prepared"
  shows "valid_spend K p (ch_utxo c) (pp_Tx prepared) (bi_height (ch_tip c) + 1) fee"
    and "\<forall>i\<in>set (tx_Ins (pp_Tx prepared)). in_Prev i \<in> dom (ch_utxo c) - mempool_spent (ch_mempool c)"
proof -
  have "ch_params c = p" "snapshot_ok K keys s" using reach_params [OF reach(1)] snapshotWithKeys_ok [OF snap] by blast+
  note V = available_valid_spend [OF this snapshot_outputs_available [OF reach snap] assms(4-8)]
  show "valid_spend K p (ch_utxo c) (pp_Tx prepared) (bi_height (ch_tip c) + 1) fee" by (rule V(1))
  show "\<forall>i\<in>set (tx_Ins (pp_Tx prepared)). in_Prev i \<in> dom (ch_utxo c) - mempool_spent (ch_mempool c)" by (rule V(2))
qed

lemma validatePaymentValues_iff [steps]:
  "validatePaymentValues K toAddr amount fee ex = Inr pkh \<longleftrightarrow>
     0 < amount \<and> 0 \<le> fee \<and> amount + fee \<le> MaxMoneyUnits \<and> card ex \<le> MaxRestrictedOutpoints \<and>
     DecodeAddress K toAddr = Inr pkh \<and> EncodeAddress K pkh = toAddr"
proof -
  have "MoneyRange fee \<Longrightarrow> wrap64 (MaxMoneyUnits - fee) = MaxMoneyUnits - fee" by (simp add: wrap64_id is_int64_def money)
  then show ?thesis
    by (auto simp: validatePaymentValues_def failIf_Inr_iff not_le not_less MoneyRange_def split: sum.splits)
qed

text \<open>A transaction is no coinbase when the null outpoint is unspendable.\<close>

lemma submit_added:
  assumes "valid_spend K (ch_params c) (ch_utxo c) tx (bi_height (ch_tip c) + 1) fee"
    and "\<forall>i\<in>set (tx_Ins tx). in_Prev i \<in> dom (ch_utxo c) - mempool_spent (ch_mempool c)"
    and "ch_utxo c (OutPoint 0 0xffffffff) = None" and "tx_ID K tx \<notin> fst ` set (ch_mempool c)"
  shows "SubmitPayment K (Some c) (Some tx) = (Some (c\<lparr>ch_mempool := ch_mempool c @ [(tx_ID K tx, tx)]\<rparr>), Inr TxAcceptanceAdded)"
proof -
  have "\<not> IsCoinbase tx"
  proof
    assume "IsCoinbase tx"
    then obtain i where "tx_Ins tx = [i]" "in_Prev i = OutPoint 0 0xffffffff"
      by (auto simp: IsCoinbase_def OutPoint.expand split: list.splits)
    then show False using assms(2,3) by auto
  qed
  moreover have "checkTxLocked K (ch_params c) (ch_utxo c) tx (bi_height (ch_tip c) + 1) = Inr fee"
    using assms(1) by (simp add: checkTxLocked_iff)
  ultimately show ?thesis using assms(2,4) by (auto simp: SubmitPayment_def AcceptTxWithResult_def)
qed

lemma amounts_mset: "mset xs = mset ys \<Longrightarrow> amounts xs = amounts ys"
  unfolding amounts_def by (metis mset_map sum_mset_sum_list)

lemma listed_amounts:
  assumes "snapshot_ok K keys s" and "coin_choice ex s need chosen"
  shows "(\<Sum>o'\<leftarrow>filter (\<lambda>o'. OutPoint (sp_TxID o') (sp_Vout o') \<in> pcd_op ` set chosen) (sn_Outpoints s). sp_AmountUnits o') = amounts chosen"
proof -
  let ?os = "filter (\<lambda>o'. OutPoint (sp_TxID o') (sp_Vout o') \<in> pcd_op ` set chosen) (sn_Outpoints s)"
  have dis: "distinct (map sp_OutpointRef (sn_Outpoints s))" using assms(1) by (simp add: snapshot_ok_def)
  have mem: "\<forall>c\<in>set chosen. \<exists>o'\<in>set (sn_Outpoints s). c = coin_of o'" using assms(2) by (auto simp: coin_choice_def)
  have ref: "\<forall>o'\<in>set (sn_Outpoints s). OutPoint (sp_TxID o') (sp_Vout o') = sp_OutpointRef o'" using assms(1) by (auto simp: snapshot_ok_def)
  have "set (map coin_of ?os) = set chosen"
  proof
    show "set (map coin_of ?os) \<subseteq> set chosen"
    proof
      fix c
      assume "c \<in> set (map coin_of ?os)"
      then obtain o' d where o': "o' \<in> set (sn_Outpoints s)" "c = coin_of o'" and d: "d \<in> set chosen" "sp_OutpointRef o' = pcd_op d"
        using ref by auto
      obtain o2 where o2: "o2 \<in> set (sn_Outpoints s)" "d = coin_of o2" using mem d(1) by blast
      have "inj_on sp_OutpointRef (set (sn_Outpoints s))" using dis by (simp add: distinct_map)
      then have "o2 = o'" using o'(1) o2 d(2) by (auto dest: inj_onD)
      then show "c \<in> set chosen" using d(1) o'(2) o2(2) by simp
    qed
    show "set chosen \<subseteq> set (map coin_of ?os)"
    proof
      fix c
      assume c: "c \<in> set chosen"
      then obtain o' where "o' \<in> set (sn_Outpoints s)" "c = coin_of o'" using mem by blast
      then show "c \<in> set (map coin_of ?os)" using c ref by (auto intro!: image_eqI [of _ _ o'] image_eqI [of _ pcd_op c])
    qed
  qed
  moreover have "distinct (map coin_of ?os)"
  proof -
    have "distinct (map sp_OutpointRef ?os)" using dis by (rule distinct_map_filter)
    then show ?thesis by (auto simp: distinct_map inj_on_def dest: arg_cong [of _ _ pcd_op])
  qed
  moreover have "distinct chosen" using assms(2) by (auto simp: coin_choice_def distinct_map)
  ultimately have "mset (map coin_of ?os) = mset chosen" using set_eq_iff_mset_eq_distinct by blast
  then have "amounts (map coin_of ?os) = amounts chosen" by (rule amounts_mset)
  then show ?thesis by (simp add: amounts_def comp_def)
qed

text \<open>C16: Whatever a gateway answers, a payment a light wallet signs from it pays exactly the requested amount
  to the requested address and the rest, above the fee, to the wallet's own first key, relative to the amounts
  the gateway listed; it spends only outputs listed for addresses of the wallet, each once and none excluded, with
  signatures that verify, in at most ten thousand bytes; and the destination is not the wallet's own.\<close>

theorem remote_payment_safe:
  assumes "PrepareFromRemoteSnapshot K network (Inr keys) remote toAddr amount fee ex = Inr (s, prepared)" and "signs K keys"
  shows "\<exists>pkh change. DecodeAddress K toAddr = Inr pkh \<and> (\<forall>k\<in>set keys. pkhForKey K k \<noteq> pkh) \<and> 0 \<le> change \<and>
    tx_Outs (pp_Tx prepared) = payment_outputs K keys pkh amount change \<and>
    (\<Sum>o'\<leftarrow>filter (\<lambda>o'. OutPoint (ro_TxID o') (ro_Vout o') \<in> set (pp_SelectedOutpoints prepared)) (rs_Outpoints remote). ro_AmountUnits o') =
      amount + fee + change \<and>
    distinct (pp_SelectedOutpoints prepared) \<and> map in_Prev (tx_Ins (pp_Tx prepared)) = pp_SelectedOutpoints prepared \<and>
    (\<forall>op\<in>set (pp_SelectedOutpoints prepared). op \<notin> ex \<and>
      (\<exists>o'\<in>set (rs_Outpoints remote). OutPoint (ro_TxID o') (ro_Vout o') = op \<and> ro_Address o' \<in> addressForKey K ` set keys)) \<and>
    (\<forall>i\<in>set (tx_Ins (pp_Tx prepared)). ed_verify K (in_PubKey i) (hash_bytes (SigDigest K (pp_Tx prepared))) (in_Sig i)) \<and>
    length (tx_Bytes (pp_Tx prepared)) \<le> MaxSignedTxBytes"
proof -
  obtain pkh where am: "0 < amount" "0 \<le> fee" "amount + fee \<le> MaxMoneyUnits" and dec: "DecodeAddress K toAddr = Inr pkh"
    and own: "\<forall>k\<in>set keys. pkhForKey K k \<noteq> pkh" and snap: "snapshotFromRemoteWithKeys K network remote keys = Inr s"
    and build: "buildPaymentFromSnapshot K keys s pkh amount fee ex = Inr prepared"
    using assms(1) by (auto simp: PrepareFromRemoteSnapshot_def bindE_Inr_iff validatePaymentValues_iff failIf_Inr_iff
        rejectOwnedDestination_def list_ex_iff)
  have ok: "snapshot_ok K keys s" and rem: "remote_of s = remote" using snapshotFromRemote_sound [OF snap] by blast+
  obtain chosen where ch: "coin_choice ex s (amount + fee) chosen" and sel: "pp_SelectedOutpoints prepared = map pcd_op chosen"
    and sg: "Sign K (signing_keys keys chosen) (payment_tx K keys pkh amount fee chosen) = Inr (pp_Tx prepared)"
    and len: "length (tx_Bytes (pp_Tx prepared)) \<le> MaxSignedTxBytes"
    using buildPayment_facts [OF ok am build] by metis
  note ins = signed_inputs [OF sg]
  have outs: "rs_Outpoints remote = map remote_entry (sn_Outpoints s)" using rem by (auto simp: remote_of_def)
  have listed: "(\<Sum>o'\<leftarrow>filter (\<lambda>o'. OutPoint (ro_TxID o') (ro_Vout o') \<in> set (pp_SelectedOutpoints prepared)) (rs_Outpoints remote). ro_AmountUnits o') = amounts chosen"
    using listed_amounts [OF ok ch] by (simp add: outs sel filter_map comp_def)
  have coin: "\<exists>o'\<in>set (sn_Outpoints s). pcd_op d = OutPoint (sp_TxID o') (sp_Vout o') \<and> sp_Address o' \<in> addressForKey K ` set keys \<and>
      pcd_op d \<notin> ex \<and> keys ! pcd_key d \<in> set keys" if d: "d \<in> set chosen" for d
  proof -
    obtain o' where o': "o' \<in> set (sn_Outpoints s)" "d = coin_of o'" "sp_OutpointRef o' \<notin> ex" using ch d by (auto simp: coin_choice_def)
    then have k: "pcd_key d < length keys" "addressForKey K (keys ! pcd_key d) = sp_Address o'" "sp_OutpointRef o' = OutPoint (sp_TxID o') (sp_Vout o')"
      using ok by (auto simp: snapshot_ok_def owned_by_key_def)
    then have "sp_Address o' \<in> addressForKey K ` set keys" by (metis imageI nth_mem)
    then show ?thesis using k o' by (intro bexI [of _ o']) auto
  qed
  have "\<forall>op\<in>set (pp_SelectedOutpoints prepared). op \<notin> ex \<and>
      (\<exists>o'\<in>set (rs_Outpoints remote). OutPoint (ro_TxID o') (ro_Vout o') = op \<and> ro_Address o' \<in> addressForKey K ` set keys)"
    using coin unfolding sel outs by fastforce
  moreover have "\<forall>i\<in>set (tx_Ins (pp_Tx prepared)). ed_verify K (in_PubKey i) (hash_bytes (SigDigest K (pp_Tx prepared))) (in_Sig i)"
    using coin assms(2) by (fastforce simp: ins(1) signs_def)
  ultimately show ?thesis
    using dec own ch listed len ins sel
    by (intro exI [of _ pkh] exI [of _ "amounts chosen - amount - fee"]) (auto simp: coin_choice_def comp_def)
qed

section \<open>Maximum sends\<close>

lemma cover_exact: "\<forall>c\<in>set cs. 0 < pcd_amount c \<Longrightarrow> cover (amounts cs) cs = length cs"
proof (induction cs)
  case (Cons c cs)
  then have "0 < amounts (c # cs)" using amounts_nonneg [of cs] by simp
  then show ?case using Cons by simp
qed simp

lemma maximum_outputs:
  assumes "\<forall>o'\<in>set os. owned_by_key K keys o' \<and> sp_OutpointRef o' = OutPoint (sp_TxID o') (sp_Vout o')"
    and "distinct (map sp_OutpointRef os)" and "sp_OutpointRef ` set os \<inter> seen = {}"
    and "0 \<le> el" and "el \<le> acc" and "acc + (\<Sum>o'\<leftarrow>os. sp_AmountUnits o') \<le> MaxMoneyUnits"
  shows "\<exists>seen'. foldE (maximum_output K keys ex) (seen, acc, el, n) os =
    Inr (seen', acc + (\<Sum>o'\<leftarrow>os. sp_AmountUnits o'),
      el + amounts (map coin_of (filter (\<lambda>o'. sp_OutpointRef o' \<notin> ex) os)), n + length (filter (\<lambda>o'. sp_OutpointRef o' \<notin> ex) os))"
  using assms
proof (induction os arbitrary: seen acc el n)
  case Nil
  then show ?case by simp
next
  case (Cons o' os)
  have pos: "0 < sp_AmountUnits o'" "0 \<le> (\<Sum>o'\<leftarrow>os. sp_AmountUnits o')"
    using Cons.prems(1) by (auto simp: owned_by_key_def MoneyRange_def intro!: sum_list_nonneg)
  let ?acc = "acc + sp_AmountUnits o'"
  have add: "0 \<le> x \<Longrightarrow> x \<le> acc \<Longrightarrow> addSpendable x (sp_AmountUnits o') = Inr (x + sp_AmountUnits o')" for x
    using Cons.prems(6) pos by (auto simp: addSpendable_Inr_iff MoneyRange_def)
  let ?el = "if sp_OutpointRef o' \<in> ex then el else el + sp_AmountUnits o'" and ?n = "if sp_OutpointRef o' \<in> ex then n else Suc n"
  have "maximum_output K keys ex (seen, acc, el, n) o' = Inr (insert (sp_OutpointRef o') seen, ?acc, ?el, ?n)"
    using Cons.prems(1,3,4,5) add [of acc] add [of el] by (auto simp: maximum_output_def failIf_def)
  moreover have "\<exists>seen'. foldE (maximum_output K keys ex) (insert (sp_OutpointRef o') seen, ?acc, ?el, ?n) os =
    Inr (seen', ?acc + (\<Sum>o'\<leftarrow>os. sp_AmountUnits o'),
      ?el + amounts (map coin_of (filter (\<lambda>o'. sp_OutpointRef o' \<notin> ex) os)), ?n + length (filter (\<lambda>o'. sp_OutpointRef o' \<notin> ex) os))"
    using Cons.prems pos by (intro Cons.IH) auto
  ultimately show ?case by (auto simp: add.assoc)
qed

text \<open>C21: For a well-formed snapshot within the wallet's limits, a maximum send succeeds exactly when the eligible coins
  are worth more than the fee and the signed transaction stays within the size limit; it then spends every
  eligible coin and pays all they are worth, less the fee, to the destination in a single output.\<close>

theorem maximum_send_exact:
  assumes "snapshot_ok K keys s" and "length keys \<le> MaxWalletKeys" and "length (sn_Outpoints s) \<le> MaxSnapshotOutpoints"
    and "0 \<le> fee" and "MoneyRange fee" and "card ex \<le> MaxRestrictedOutpoints"
  shows "buildMaximumFromSnapshot K keys s destination fee ex = Inr prepared \<longleftrightarrow>
    fee < amounts (eligible ex s) \<and> pp_SelectedOutpoints prepared = map pcd_op (sort_key candidate_rank (eligible ex s)) \<and>
    Sign K (signing_keys keys (sort_key candidate_rank (eligible ex s)))
      \<lparr>tx_Version = 1, tx_Ins = map (\<lambda>c. \<lparr>in_Prev = pcd_op c, in_PubKey = [], in_Sig = []\<rparr>) (sort_key candidate_rank (eligible ex s)),
       tx_Outs = [\<lparr>out_Value = amounts (eligible ex s) - fee, out_PubKeyHash = destination\<rparr>], tx_LockTag = []\<rparr> = Inr (pp_Tx prepared) \<and>
    length (tx_Bytes (pp_Tx prepared)) \<le> MaxSignedTxBytes" (is "?build \<longleftrightarrow> ?spec")
proof -
  let ?el = "amounts (eligible ex s)" and ?cs = "sort_key candidate_rank (eligible ex s)"
  have mr: "MoneyRange (sn_SpendableUnits s)" and units: "(\<Sum>o'\<leftarrow>sn_Outpoints s. sp_AmountUnits o') = sn_SpendableUnits s"
    using assms(1) by (auto simp: snapshot_ok_def)
  obtain seen' where run: "foldE (maximum_output K keys ex) ({}, 0, 0, 0) (sn_Outpoints s) =
      Inr (seen', sn_SpendableUnits s, ?el, length (eligible ex s))"
    using maximum_outputs [of "sn_Outpoints s" K keys "{}" 0 0 ex 0] assms(1) mr units
    by (auto simp: snapshot_ok_def eligible_def MoneyRange_def)
  have el: "?el \<le> MaxMoneyUnits" "\<forall>c\<in>set ?cs. 0 < pcd_amount c" using snapshot_coins(2) [OF assms(1), of ex] mr assms(1)
    by (auto simp: MoneyRange_def eligible_def snapshot_ok_def owned_by_key_def)
  have len: "length (eligible ex s) \<le> MaxPaymentCandidates"
    using assms(3) length_filter_le [of "\<lambda>o'. sp_OutpointRef o' \<notin> ex" "sn_Outpoints s"]
    unfolding eligible_def length_map MaxPaymentCandidates_def MaxSnapshotOutpoints_def by (rule order_trans [rotated])
  have cs: "coins ex s = ?cs" using len by (simp add: coins_def)
  have cov: "cover ?el ?cs = length ?cs" using cover_exact [OF el(2)] by simp
  show ?thesis
  proof (cases "fee < ?el")
    case True
    then have w: "wrap64 (?el - fee) = ?el - fee" using el(1) assms(4) by (simp add: wrap64_id is_int64_def money)
    have build: "buildPaymentFromSnapshot K keys s destination (?el - fee) fee ex =
        bindE (Sign K (signing_keys keys ?cs) (payment_tx K keys destination (?el - fee) fee ?cs)) (\<lambda>signed.
          failIf (length (tx_Bytes signed) > MaxSignedTxBytes) (Err ''signed transaction exceeds 10,000-byte limit'')
          (Inr \<lparr>pp_Tx = signed, pp_SelectedOutpoints = map pcd_op ?cs\<rparr>))"
      using buildPayment_cover [OF assms(1), of "?el - fee" fee destination ex] True assms(4) el(1) cov
      by (simp add: cs Let_def)
    have tx: "payment_tx K keys destination (?el - fee) fee ?cs =
       \<lparr>tx_Version = 1, tx_Ins = map (\<lambda>c. \<lparr>in_Prev = pcd_op c, in_PubKey = [], in_Sig = []\<rparr>) ?cs,
        tx_Outs = [\<lparr>out_Value = ?el - fee, out_PubKeyHash = destination\<rparr>], tx_LockTag = []\<rparr>"
      by (simp add: payment_tx_def payment_outputs_def)
    obtain signed where sg: "Sign K (signing_keys keys ?cs) (payment_tx K keys destination (?el - fee) fee ?cs) = Inr signed"
      using Sign_total by (metis length_map payment_tx_def signing_keys_def Tx.select_convs(2))
    have outs: "tx_Outs signed = [\<lparr>out_Value = ?el - fee, out_PubKeyHash = destination\<rparr>]"
      using signed_inputs(2) [OF sg] by (simp add: payment_outputs_def)
    have "?build \<longleftrightarrow> length (tx_Bytes signed) \<le> MaxSignedTxBytes \<and> prepared = \<lparr>pp_Tx = signed, pp_SelectedOutpoints = map pcd_op ?cs\<rparr>"
      using assms mr run True w build sg outs by (auto simp: buildMaximumFromSnapshot_def failIf_def snapshot_ok_def Let_def)
    also have "\<dots> \<longleftrightarrow> ?spec" using True sg unfolding tx by (auto intro: PreparedPayment.equality)
    finally show ?thesis .
  next
    case False
    then show ?thesis using assms mr run by (auto simp: buildMaximumFromSnapshot_def failIf_def snapshot_ok_def)
  qed
qed

section \<open>Concrete wallets\<close>

text \<open>The size of a signed transaction depends on the number of inputs and outputs only.\<close>

lemma length_concat_const: "\<forall>x\<in>set xs. length (f x) = n \<Longrightarrow> length (concat (map f xs)) = n * length xs"
  by (induction xs) auto

lemma tx_size:
  assumes "\<forall>i\<in>set (tx_Ins t). length (in_PubKey i) = 32 \<and> length (in_Sig i) = 64" and "tx_LockTag t = []"
  shows "length (tx_Bytes t) = 5 + length (put_uvarint (length (tx_Ins t))) + 134 * length (tx_Ins t) +
    length (put_uvarint (length (tx_Outs t))) + 28 * length (tx_Outs t)"
proof -
  have "length (concat (map (enc_TxIn False) (tx_Ins t))) = 134 * length (tx_Ins t)"
    using assms(1) by (intro length_concat_const) (simp add: enc_TxIn_def writeBytes_def put_uvarint_small)
  moreover have "length (concat (map enc_TxOut (tx_Outs t))) = 28 * length (tx_Outs t)"
    by (intro length_concat_const) (simp add: enc_TxOut_def)
  ultimately show ?thesis using assms(2) by (simp add: tx_Bytes_def serialize_def writeBytes_def put_uvarint_small)
qed

definition sample_held :: Snapshot where
  "sample_held = sample_wallet\<lparr>sn_WalletSnapshotHash := hex_EncodeToString (hash_bytes (sha256 sample_crypto (snapshot_bytes sample_wallet)))\<rparr>"

lemma sample_held_ok: "snapshot_ok sample_crypto [sample_key] sample_held"
    "snapshotFromRemoteWithKeys sample_crypto RegTestMachineID (remote_of sample_held) [sample_key] = Inr sample_held"
proof -
  show ok: "snapshot_ok sample_crypto [sample_key] sample_held"
    using sample_wallet_ok by (auto simp: snapshot_ok_def sample_held_def)
  have "snapshotFromRemoteWithKeys sample_crypto (sn_Network sample_held) (remote_of sample_held) [sample_key] = Inr sample_held"
    using sample_wallet_canonical
    by (intro remote_rebuilds ok)
      (simp_all add: sample_held_def sample_wallet_def wallet_SchemaVersion_def hashSnapshot_iff MaxWalletKeys_def MaxSnapshotOutpoints_def
        canonical_snapshot_def snapshot_bytes_def)
  then show "snapshotFromRemoteWithKeys sample_crypto RegTestMachineID (remote_of sample_held) [sample_key] = Inr sample_held"
    by (simp add: sample_held_def sample_wallet_def)
qed

lemma sample_signs: "length k = 32 \<Longrightarrow> signs sample_crypto [k]"
  by (simp add: signs_def sample_crypto_def)

lemma coins_anchored: "snapshot_ok K keys s \<Longrightarrow> pcd_op ` set (coins ex s) \<subseteq> anchoredOutpoints s"
  using snapshot_coins(6) [of K keys s ex] by (fastforce simp: anchoredOutpoints_def)

lemma sample_pkh: "length k = 32 \<Longrightarrow> pkhForKey sample_crypto k = pkh_of (take 20 k)"
  by (simp add: pkhForKey_def PubKeyHash20_def SHA256d_def sample_crypto_def hash_bytes_hash_of)

lemma unat_pkh_of: "length b = 20 \<Longrightarrow> unat (pkh_of b) = be_nat b"
  using be_nat_bound [of b] by (simp add: pkh_of_def unat_of_nat)

lemma sample_key_foreign: "pkhForKey sample_crypto sample_key \<noteq> 4"
proof
  assume "pkhForKey sample_crypto sample_key = 4"
  then have "unat (pkh_of (replicate 20 3)) = unat (4 :: PKH)" by (simp add: sample_pkh sample_key_def min_def)
  then have "be_nat (replicate 20 3) = 4" by (subst (asm) unat_pkh_of) simp_all
  moreover have "be_nat (replicate 20 3) = le_nat (replicate (Suc 19) 3)" by (simp add: be_nat_def)
  then have "be_nat (replicate 20 3) = 3 + 256 * le_nat (replicate 19 3)" unfolding replicate_Suc le_nat.simps by simp
  ultimately show False by presburger
qed

lemma sample_held_coins: "coins {} sample_held = coins {} sample_wallet"
  by (simp add: coins_def eligible_def sample_held_def)

lemma sample_sizes:
  assumes "Sign sample_crypto (signing_keys keys chosen) (payment_tx sample_crypto keys pkh amount fee chosen) = Inr tx"
    and "\<forall>c\<in>set chosen. length (keys ! pcd_key c) = 32" and "length chosen < 64"
  shows "length (tx_Bytes tx) \<le> MaxSignedTxBytes"
proof -
  have "tx_LockTag tx = []" using assms(1) by (auto simp: Sign_def Let_def failIf_Inr_iff payment_tx_def set_pubkeys_def)
  then have "length (tx_Bytes tx) = 5 + length (put_uvarint (length chosen)) + 134 * length chosen +
      length (put_uvarint (length (tx_Outs tx))) + 28 * length (tx_Outs tx)"
    using assms(2) signed_inputs [OF assms(1)] by (subst tx_size) (auto simp: sample_crypto_def)
  moreover have "length (tx_Outs tx) \<le> 2" using signed_inputs(2) [OF assms(1)] by (simp add: payment_outputs_def)
  ultimately show ?thesis using assms(3) by (simp add: put_uvarint_small MaxSignedTxBytes_def)
qed

theorem remote_payment_safe_witness:
  "\<exists>prepared. PrepareFromRemoteSnapshot sample_crypto RegTestMachineID (Inr [sample_key]) (remote_of sample_held)
       (EncodeAddress sample_crypto 4) 10 1 {} = Inr (sample_held, prepared) \<and>
     (\<exists>change. tx_Outs (pp_Tx prepared) = payment_outputs sample_crypto [sample_key] 4 10 change) \<and>
     distinct (pp_SelectedOutpoints prepared)"
proof -
  have key: "pkhForKey sample_crypto sample_key \<noteq> 4" by (rule sample_key_foreign)
  have "11 \<le> amounts (coins {} sample_held)" by (simp add: sample_held_coins sample_coins sample_coin_def)
  then obtain n signed where n: "Sign sample_crypto (signing_keys [sample_key] (take n (coins {} sample_held)))
      (payment_tx sample_crypto [sample_key] 4 10 1 (take n (coins {} sample_held))) = Inr signed"
    "buildPaymentFromSnapshot sample_crypto [sample_key] sample_held 4 10 1 {} =
      (if length (tx_Bytes signed) > MaxSignedTxBytes then Inl (Err ''signed transaction exceeds 10,000-byte limit'')
       else Inr \<lparr>pp_Tx = signed, pp_SelectedOutpoints = map pcd_op (take n (coins {} sample_held))\<rparr>)"
    using buildPayment_selects [OF sample_held_ok(1), of 10 1 "{}" 4] by (auto simp: money)
  have "length (tx_Bytes signed) \<le> MaxSignedTxBytes"
    using n(1) by (rule sample_sizes) (auto simp: sample_held_coins sample_coins sample_coin_def sample_key_def dest!: in_set_takeD)
  then obtain prepared where build: "buildPaymentFromSnapshot sample_crypto [sample_key] sample_held 4 10 1 {} = Inr prepared"
    and sel: "set (pp_SelectedOutpoints prepared) \<subseteq> pcd_op ` set (coins {} sample_held)"
    using n(2) by (auto dest: in_set_takeD)
  have "set (pp_SelectedOutpoints prepared) \<subseteq> anchoredOutpoints sample_held"
    using sel coins_anchored [OF sample_held_ok(1)] by (rule order_trans)
  then have prep: "PrepareFromRemoteSnapshot sample_crypto RegTestMachineID (Inr [sample_key]) (remote_of sample_held)
       (EncodeAddress sample_crypto 4) 10 1 {} = Inr (sample_held, prepared)"
    using key build sample_held_ok(2)
    by (auto simp: PrepareFromRemoteSnapshot_def bindE_Inr_iff validatePaymentValues_iff DecodeAddress_EncodeAddress
        rejectOwnedDestination_def validateSelectedAnchored_def failIf_Inr_iff list_ex_iff money)
  have "signs sample_crypto [sample_key]" by (rule sample_signs) (simp add: sample_key_def)
  from remote_payment_safe [OF prep this] prep show ?thesis by (auto simp: DecodeAddress_EncodeAddress)
qed

theorem maximum_send_exact_witness:
  "snapshot_ok sample_crypto [sample_key] sample_held \<and> amounts (eligible {} sample_held) = 21 \<and>
   \<not> (\<exists>p. buildMaximumFromSnapshot sample_crypto [sample_key] sample_held 4 21 {} = Inr p)"
proof -
  have "amounts (eligible {} sample_held) = 21" by (simp add: eligible_def sample_held_def sample_wallet_def sample_coin_def)
  then show ?thesis
    using maximum_send_exact [OF sample_held_ok(1), of 21 "{}" 4] sample_held_ok(1)
    by (simp add: money MaxWalletKeys_def MaxSnapshotOutpoints_def MaxRestrictedOutpoints_def sample_held_def sample_wallet_def)
qed

end
