(* ===== verification/Cleanup.thy ===== *)
theory Cleanup
  imports PaymentChain "HOL-Library.AList"
begin

text \<open>
  \<^verbatim>\<open>wallet/consolidation.go\<close>: a cleanup transaction spends many small coins of one address back to that
  address. The group with the most coins is chosen, its coins are taken smallest first, and the number of
  inputs is found by binary search over the signed size. The groups map is an association list in the
  order of creation; the order of the later range over it does not matter because the result is sorted.
\<close>

section \<open>Operations\<close>

definition ErrNoCleanupNeeded :: error where "ErrNoCleanupNeeded = Err ''no cleanup needed''"
definition ErrCleanupTooSmall :: error where "ErrCleanupTooSmall = Err ''cleanup inputs do not cover fee''"

record PreparedCleanup =
  pc_Tx :: Tx
  pc_Address :: address
  pc_AmountUnits :: int
  pc_FeeUnits :: int
  pc_SelectedOutpoints :: "OutPoint list"
  pc_MoreAvailable :: bool

record cleanupCandidate =
  cc_outpoint :: OutPoint
  cc_amount :: int
  cc_keyIndex :: nat

record cleanupGroup =
  cg_address :: address
  cg_pkh :: PKH
  cg_keyIndex :: nat
  cg_candidates :: "cleanupCandidate list"
  cg_total :: int

definition validateCleanupValues :: "int \<Rightarrow> OutPoint set \<Rightarrow> unit res" where
  "validateCleanupValues fee excluded =
     failIf (fee < 0 \<or> \<not> MoneyRange fee) (Err ''cleanup fee out of range'')
     (failIf (card excluded > MaxRestrictedOutpoints) (Err ''too many restricted outpoints'') (Inr ()))"

type_synonym groups = "(nat \<times> cleanupGroup) list"

definition group_for :: "crypto \<Rightarrow> privkey list \<Rightarrow> groups \<Rightarrow> nat \<Rightarrow> cleanupGroup" where
  "group_for K keys groups i =
     (case map_of groups i of
        Some grp \<Rightarrow> grp
      | None \<Rightarrow> \<lparr>cg_address = addressForKey K (keys ! i), cg_pkh = pkhForKey K (keys ! i), cg_keyIndex = i,
          cg_candidates = [], cg_total = 0\<rparr>)"

definition cleanup_output ::
  "crypto \<Rightarrow> privkey list \<Rightarrow> OutPoint set \<Rightarrow> OutPoint set \<times> int \<times> groups \<Rightarrow> SnapshotOutpoint \<Rightarrow> (OutPoint set \<times> int \<times> groups) res"
where
  "cleanup_output K keys excluded st output =
     (case st of (seen, snapshotTotal, groups) \<Rightarrow>
      failIf (sp_OutpointRef output \<noteq> OutPoint (sp_TxID output) (sp_Vout output)) (Err ''cleanup snapshot outpoint is inconsistent'')
      (failIf (sp_OutpointRef output \<in> seen) (Err ''cleanup snapshot contains a duplicate outpoint'')
      (failIf (\<not> owned_by_key K keys output) (Err ''cleanup snapshot owner does not match signing key'')
      (bindE (addSpendable snapshotTotal (sp_AmountUnits output)) (\<lambda>snapshotTotal'.
       if sp_OutpointRef output \<in> excluded then Inr (insert (sp_OutpointRef output) seen, snapshotTotal', groups)
       else let i = nat (sp_KeyIndex output); grp = group_for K keys groups i in
         bindE (addSpendable (cg_total grp) (sp_AmountUnits output)) (\<lambda>groupTotal.
         Inr (insert (sp_OutpointRef output) seen, snapshotTotal',
           AList.update i (grp\<lparr>cg_total := groupTotal, cg_candidates := cg_candidates grp @
             [\<lparr>cc_outpoint = sp_OutpointRef output, cc_amount = sp_AmountUnits output, cc_keyIndex = i\<rparr>]\<rparr>) groups)))))))"

definition cleanup_prefix :: "int \<Rightarrow> int list \<times> nat \<Rightarrow> cleanupCandidate \<Rightarrow> (int list \<times> nat) res" where
  "cleanup_prefix fee st candidate =
     (case st of (prefixSums, minimum) \<Rightarrow>
      bindE (addSpendable (last prefixSums) (cc_amount candidate)) (\<lambda>next'.
      Inr (prefixSums @ [next'],
        if minimum = 0 \<and> length prefixSums \<ge> 2 \<and> next' > fee then length prefixSums else minimum)))"

definition signCleanupPrefix :: "crypto \<Rightarrow> privkey list \<Rightarrow> cleanupGroup \<Rightarrow> int list \<Rightarrow> nat \<Rightarrow> int \<Rightarrow> Tx res" where
  "signCleanupPrefix K keys grp prefixSums n fee =
     failIf (n < 2 \<or> n > length (cg_candidates grp) \<or> n \<ge> length prefixSums \<or>
         cg_keyIndex grp \<ge> length keys \<or> prefixSums ! n \<le> fee)
       (Err ''cleanup prefix is invalid'')
     (failIf (list_ex (\<lambda>candidate. cc_keyIndex candidate \<noteq> cg_keyIndex grp) (take n (cg_candidates grp)))
       (Err ''cleanup prefix mixes signing keys'')
     (let amount = wrap64 (prefixSums ! n - fee) in
      failIf (amount \<le> 0 \<or> \<not> MoneyRange amount) (Err ''cleanup output amount out of range'')
      (case Sign K (replicate n (keys ! cg_keyIndex grp))
              \<lparr>tx_Version = 1,
               tx_Ins = map (\<lambda>candidate. \<lparr>in_Prev = cc_outpoint candidate, in_PubKey = [], in_Sig = []\<rparr>) (take n (cg_candidates grp)),
               tx_Outs = [\<lparr>out_Value = amount, out_PubKeyHash = cg_pkh grp\<rparr>], tx_LockTag = []\<rparr> of
         Inl e \<Rightarrow> Inl (Wrapped ''sign cleanup transaction'' e)
       | Inr tx \<Rightarrow> Inr tx)))"

text \<open>The binary search for the largest batch: \<open>for low <= high\<close>. With \<open>middle = 0\<close> the next \<open>high\<close> is
  negative and the loop ends.\<close>

function cleanup_search :: "(nat \<Rightarrow> Tx res) \<Rightarrow> nat \<Rightarrow> nat \<Rightarrow> nat \<times> Tx \<Rightarrow> (nat \<times> Tx) res" where
  "cleanup_search sign low high best =
     (if low \<le> high then
        let middle = low + (high - low) div 2 in
        (case sign middle of
           Inl e \<Rightarrow> Inl e
         | Inr candidateTx \<Rightarrow>
             if length (tx_Bytes candidateTx) \<le> MaxSignedTxBytes then cleanup_search sign (middle + 1) high (middle, candidateTx)
             else if middle = 0 then Inr best else cleanup_search sign low (middle - 1) best)
      else Inr best)"
  by pat_completeness auto

termination
  by (relation "measure (\<lambda>(sign, low, high, best). Suc high - low)") auto

declare cleanup_search.simps [simp del]

definition group_rank :: "cleanupGroup \<Rightarrow> int \<times> address" where
  "group_rank grp = (- int (length (cg_candidates grp)), cg_address grp)"

definition cleanup_rank :: "cleanupCandidate \<Rightarrow> int \<times> OutPoint" where
  "cleanup_rank candidate = (cc_amount candidate, cc_outpoint candidate)"

definition eligible_groups :: "int \<Rightarrow> groups \<Rightarrow> cleanupGroup list" where
  "eligible_groups fee groups = filter (\<lambda>grp. length (cg_candidates grp) \<ge> 2 \<and> cg_total grp > fee) (map snd groups)"

definition cleanup_batch :: "crypto \<Rightarrow> privkey list \<Rightarrow> cleanupGroup \<Rightarrow> int \<Rightarrow> (nat \<times> Tx \<times> int list) res" where
  "cleanup_batch K keys grp fee =
     bindE (foldE (cleanup_prefix fee) ([0], 0) (cg_candidates grp)) (\<lambda>(prefixSums, minimum).
     failIf (minimum = 0) ErrCleanupTooSmall
     (bindE (signCleanupPrefix K keys grp prefixSums minimum fee) (\<lambda>minimumTx.
      failIf (length (tx_Bytes minimumTx) > MaxSignedTxBytes) (Err ''smallest cleanup batch exceeds 10,000-byte limit'')
      (bindE (cleanup_search (\<lambda>n. signCleanupPrefix K keys grp prefixSums n fee) (minimum + 1)
                (min (length (cg_candidates grp)) MaxPaymentInputs) (minimum, minimumTx)) (\<lambda>(bestCount, bestTx).
       Inr (bestCount, bestTx, prefixSums))))))"

text \<open>The transaction of the chosen group; \<open>others\<close> are the other eligible ones.\<close>

definition cleanup_of :: "crypto \<Rightarrow> privkey list \<Rightarrow> int \<Rightarrow> cleanupGroup \<Rightarrow> cleanupGroup list \<Rightarrow> PreparedCleanup res" where
  "cleanup_of K keys fee first others =
     (let grp = first\<lparr>cg_candidates := sort_key cleanup_rank (cg_candidates first)\<rparr> in
      bindE (cleanup_batch K keys grp fee) (\<lambda>(bestCount, bestTx, prefixSums).
      let selected = map cc_outpoint (take bestCount (cg_candidates grp)); amount = wrap64 (prefixSums ! bestCount - fee) in
      failIf (amount \<le> 0 \<or> \<not> MoneyRange amount \<or> length (tx_Outs bestTx) \<noteq> 1 \<or> out_Value (tx_Outs bestTx ! 0) \<noteq> amount \<or>
          out_PubKeyHash (tx_Outs bestTx ! 0) \<noteq> cg_pkh grp \<or> length (tx_Bytes bestTx) > MaxSignedTxBytes)
        (Err ''constructed cleanup transaction is inconsistent'')
      (Inr \<lparr>pc_Tx = bestTx, pc_Address = cg_address grp, pc_AmountUnits = amount, pc_FeeUnits = fee, pc_SelectedOutpoints = selected,
         pc_MoreAvailable = (bestCount < length (cg_candidates grp) \<or> others \<noteq> [])\<rparr>)))"

definition buildCleanupFromSnapshot ::
  "crypto \<Rightarrow> privkey list \<Rightarrow> Snapshot \<Rightarrow> int \<Rightarrow> OutPoint set \<Rightarrow> PreparedCleanup res"
where
  "buildCleanupFromSnapshot K keys snapshot fee excluded =
     bindE (validateCleanupValues fee excluded) (\<lambda>_.
     failIf (keys = [] \<or> length keys > MaxWalletKeys \<or> length (sn_Outpoints snapshot) > MaxSnapshotOutpoints \<or>
         \<not> MoneyRange (sn_SpendableUnits snapshot))
       (Err ''cleanup snapshot identity is inconsistent'')
     (bindE (foldE (cleanup_output K keys excluded) ({}, 0, []) (sn_Outpoints snapshot)) (\<lambda>(_, snapshotTotal, groups).
      failIf (snapshotTotal \<noteq> sn_SpendableUnits snapshot) (Err ''cleanup snapshot spendable total is inconsistent'')
      (case sort_key group_rank (eligible_groups fee groups) of
         [] \<Rightarrow> Inl (if list_ex (\<lambda>grp. length (cg_candidates grp) \<ge> 2) (map snd groups) then ErrCleanupTooSmall else ErrNoCleanupNeeded)
       | first # others \<Rightarrow> cleanup_of K keys fee first others))))"

definition PrepareCleanupAt ::
  "crypto \<Rightarrow> string \<Rightarrow> Chain option \<Rightarrow> Chain \<Rightarrow> privkey list res \<Rightarrow> ChainTipSnapshot \<Rightarrow> int \<Rightarrow> OutPoint set \<Rightarrow>
     (Snapshot \<times> PreparedCleanup) res"
where
  "PrepareCleanupAt K network c c' keys expected fee excluded =
     (case c of None \<Rightarrow> Inl (Err ''nil cleanup chain'')
      | Some chain \<Rightarrow>
          bindE (validateCleanupValues fee excluded) (\<lambda>_.
          bindE keys (\<lambda>keys.
          bindE (snapshotWithKeys K chain network expected keys) (\<lambda>snapshot.
          bindE (buildCleanupFromSnapshot K keys snapshot fee excluded) (\<lambda>prepared.
          bindE (validateSelectedAnchored (pc_SelectedOutpoints prepared) (anchoredOutpoints snapshot)) (\<lambda>_.
          bindE (tip_unchanged K c' expected) (\<lambda>_.
          Inr (snapshot, prepared))))))))"

definition PrepareCleanupFromRemoteSnapshot ::
  "crypto \<Rightarrow> string \<Rightarrow> privkey list res \<Rightarrow> RemoteSnapshot \<Rightarrow> int \<Rightarrow> OutPoint set \<Rightarrow> (Snapshot \<times> PreparedCleanup) res"
where
  "PrepareCleanupFromRemoteSnapshot K network keys remote fee excluded =
     bindE (validateCleanupValues fee excluded) (\<lambda>_.
     bindE keys (\<lambda>keys.
     bindE (snapshotFromRemoteWithKeys K network remote keys) (\<lambda>snapshot.
     bindE (buildCleanupFromSnapshot K keys snapshot fee excluded) (\<lambda>prepared.
     bindE (validateSelectedAnchored (pc_SelectedOutpoints prepared) (anchoredOutpoints snapshot)) (\<lambda>_.
     Inr (snapshot, prepared))))))"

end
