(* ===== verification/CleanupTheorems.thy ===== *)
theory CleanupTheorems
  imports Cleanup
begin

text \<open>
  What a cleanup does: which group it picks, that the prefix sums and the binary search give the largest
  batch that fits, and in which cases there is none.
\<close>

section \<open>The search\<close>

lemma cleanup_search_largest:
  fixes tx :: "nat \<Rightarrow> Tx"
  assumes "\<And>n. low \<le> n \<Longrightarrow> n \<le> high \<Longrightarrow> sign n = Inr (tx n)"
    and "\<And>m n. base \<le> m \<Longrightarrow> m \<le> n \<Longrightarrow> n \<le> limit \<Longrightarrow> fits n \<Longrightarrow> fits m" and "\<And>n. fits n \<longleftrightarrow> length (tx_Bytes (tx n)) \<le> MaxSignedTxBytes"
    and "b < low" and "fits b" and "\<And>n. b < n \<Longrightarrow> n < low \<Longrightarrow> False" and "high \<le> limit" and "\<And>n. high < n \<Longrightarrow> n \<le> limit \<Longrightarrow> \<not> fits n" and "b \<le> limit" and "base \<le> b"
  shows "\<exists>k. cleanup_search sign low high (b, tx b) = Inr (k, tx k) \<and> b \<le> k \<and> k \<le> limit \<and> fits k \<and> (\<forall>n. k < n \<and> n \<le> limit \<longrightarrow> \<not> fits n)"
  using assms(1,4-10)
proof (induction "Suc high - low" arbitrary: low high b rule: less_induct)
  case less
  let ?m = "low + (high - low) div 2"
  show ?case
  proof (cases "low \<le> high")
    case False
    then have "cleanup_search sign low high (b, tx b) = Inr (b, tx b)" by (simp add: cleanup_search.simps)
    moreover have "\<forall>n. b < n \<and> n \<le> limit \<longrightarrow> \<not> fits n"
      using less.prems(4,6) False by (metis leI not_less_iff_gr_or_eq order_less_le_trans)
    ultimately show ?thesis using less.prems(3,7) by blast
  next
    case True
    have m: "low \<le> ?m" "?m \<le> high" "0 < ?m" using True less.prems(2) by linarith+
    then have sg: "sign ?m = Inr (tx ?m)" by (intro less.prems(1))
    show ?thesis
    proof (cases "fits ?m")
      case fit: True
      have run: "cleanup_search sign low high (b, tx b) = cleanup_search sign (?m + 1) high (?m, tx ?m)"
        using True fit sg assms(3) by (subst cleanup_search.simps) (simp add: Let_def)
      have "\<exists>k. cleanup_search sign (?m + 1) high (?m, tx ?m) = Inr (k, tx k) \<and> ?m \<le> k \<and> k \<le> limit \<and> fits k \<and> (\<forall>n. k < n \<and> n \<le> limit \<longrightarrow> \<not> fits n)"
        using less.prems(1,2,5,6,8) m fit by (intro less.hyps) auto
      then show ?thesis unfolding run using m less.prems(2) by (meson less_imp_le_nat order_trans)
    next
      case nofit: False
      have run: "cleanup_search sign low high (b, tx b) = cleanup_search sign low (?m - 1) (b, tx b)"
        using True nofit sg assms(3) m(3) less.prems(2) by (subst cleanup_search.simps) (auto simp: Let_def)
      have "\<not> fits n" if "?m - 1 < n" "n \<le> limit" for n
        using nofit assms(2) [of ?m n] that m(1) less.prems(2,8) by linarith
      then show ?thesis unfolding run using less.prems m by (intro less.hyps) auto
    qed
  qed
qed

section \<open>Prefix sums\<close>

definition csum :: "cleanupCandidate list \<Rightarrow> int" where
  "csum cs = (\<Sum>c\<leftarrow>cs. cc_amount c)"

lemma csum_simps [simp]: "csum [] = 0" "csum (c # cs) = cc_amount c + csum cs" "csum (xs @ ys) = csum xs + csum ys"
  by (simp_all add: csum_def)

lemma csum_nonneg: "\<forall>c\<in>set cs. 0 < cc_amount c \<Longrightarrow> 0 \<le> csum cs"
  by (induction cs) auto

lemma csum_take_mono: "\<forall>c\<in>set cs. 0 < cc_amount c \<Longrightarrow> m \<le> n \<Longrightarrow> csum (take m cs) \<le> csum (take n cs)"
proof -
  assume pos: "\<forall>c\<in>set cs. 0 < cc_amount c" and "m \<le> n"
  then have "take n cs = take m cs @ take (n - m) (drop m cs)" by (metis le_add_diff_inverse take_add)
  moreover have "0 \<le> csum (take (n - m) (drop m cs))" using pos by (intro csum_nonneg) (meson in_set_dropD in_set_takeD)
  ultimately show ?thesis by simp
qed

definition prefix_sums :: "cleanupCandidate list \<Rightarrow> int list" where
  "prefix_sums cs = map (\<lambda>i. csum (take i cs)) [0..<Suc (length cs)]"

text \<open>The smallest batch: at least two coins worth more than the fee.\<close>

definition batch_ok :: "int \<Rightarrow> cleanupCandidate list \<Rightarrow> nat \<Rightarrow> bool" where
  "batch_ok fee cs n \<longleftrightarrow> 2 \<le> n \<and> n \<le> length cs \<and> fee < csum (take n cs)"

lemma prefix_sums_snoc: "prefix_sums (cs @ [c]) = prefix_sums cs @ [csum cs + cc_amount c]"
  unfolding prefix_sums_def by (auto intro!: nth_equalityI simp: nth_append simp del: upt_Suc)

lemma length_prefix_sums [simp]: "length (prefix_sums cs) = Suc (length cs)"
  by (simp add: prefix_sums_def)

lemma nth_prefix_sums: "n \<le> length cs \<Longrightarrow> prefix_sums cs ! n = csum (take n cs)"
  unfolding prefix_sums_def by (simp del: upt_Suc)

lemma prefix_loop:
  assumes "\<forall>c\<in>set cs. 0 < cc_amount c" and "csum cs \<le> MaxMoneyUnits"
  shows "\<exists>m. foldE (cleanup_prefix fee) ([0], 0) cs = Inr (prefix_sums cs, m) \<and>
    (if \<exists>n. batch_ok fee cs n then batch_ok fee cs m \<and> (\<forall>n. batch_ok fee cs n \<longrightarrow> m \<le> n) else m = 0)"
  using assms
proof (induction cs rule: rev_induct)
  case Nil
  then show ?case by (simp add: prefix_sums_def batch_ok_def)
next
  case (snoc c cs)
  then have pos: "\<forall>c\<in>set cs. 0 < cc_amount c" "0 < cc_amount c" "0 \<le> csum cs" using csum_nonneg [of cs] by auto
  obtain m where m: "foldE (cleanup_prefix fee) ([0], 0) cs = Inr (prefix_sums cs, m)"
    "if \<exists>n. batch_ok fee cs n then batch_ok fee cs m \<and> (\<forall>n. batch_ok fee cs n \<longrightarrow> m \<le> n) else m = 0"
    using snoc.IH snoc.prems pos by fastforce
  have last: "last (prefix_sums cs) = csum cs" using nth_prefix_sums [of "length cs" cs] by (simp add: last_conv_nth flip: length_0_conv)
  have add: "addSpendable (csum cs) (cc_amount c) = Inr (csum cs + cc_amount c)"
    using snoc.prems(2) pos by (auto simp: addSpendable_Inr_iff MoneyRange_def)
  let ?m = "if m = 0 \<and> 2 \<le> Suc (length cs) \<and> fee < csum cs + cc_amount c then Suc (length cs) else m"
  have run: "foldE (cleanup_prefix fee) ([0], 0) (cs @ [c]) = Inr (prefix_sums (cs @ [c]), ?m)"
    using m(1) last add by (simp add: foldE_append cleanup_prefix_def prefix_sums_snoc)
  have old: "batch_ok fee (cs @ [c]) n \<longleftrightarrow> batch_ok fee cs n \<or> (n = Suc (length cs) \<and> 2 \<le> n \<and> fee < csum cs + cc_amount c)" for n
    by (cases "n \<le> length cs") (auto simp: batch_ok_def le_Suc_eq)
  have zero: "\<not> batch_ok fee cs 0" by (simp add: batch_ok_def)
  have bound: "batch_ok fee cs n \<Longrightarrow> n \<le> Suc (length cs)" for n by (simp add: batch_ok_def)
  show ?case
    unfolding run using m(2) zero bound old by (intro exI [of _ ?m]) (auto split: if_splits)
qed

section \<open>Signing a batch\<close>

text \<open>Signatures and public keys have their fixed sizes.\<close>

definition key_sizes :: "crypto \<Rightarrow> privkey list \<Rightarrow> bool" where
  "key_sizes K keys \<longleftrightarrow> (\<forall>k\<in>set keys. length (ed_public K k) = 32 \<and> (\<forall>m. length m = 32 \<longrightarrow> length (ed_sign K k m) = 64))"

text \<open>A well-formed group: one key, positive amounts, a total that is an amount of money.\<close>

definition group_ok :: "privkey list \<Rightarrow> cleanupGroup \<Rightarrow> bool" where
  "group_ok keys g \<longleftrightarrow> cg_keyIndex g < length keys \<and> (\<forall>c\<in>set (cg_candidates g). 0 < cc_amount c \<and> cc_keyIndex c = cg_keyIndex g) \<and>
     csum (cg_candidates g) \<le> MaxMoneyUnits"

definition batch_tx :: "crypto \<Rightarrow> privkey list \<Rightarrow> cleanupGroup \<Rightarrow> int \<Rightarrow> nat \<Rightarrow> Tx" where
  "batch_tx K keys g fee n =
     (case signCleanupPrefix K keys g (prefix_sums (cg_candidates g)) n fee of
        Inr tx \<Rightarrow> tx | Inl _ \<Rightarrow> \<lparr>tx_Version = 0, tx_Ins = [], tx_Outs = [], tx_LockTag = []\<rparr>)"

lemma group_sums:
  assumes "group_ok keys g" and "n \<le> length (cg_candidates g)"
  shows "0 \<le> csum (take n (cg_candidates g))" and "csum (take n (cg_candidates g)) \<le> MaxMoneyUnits"
proof -
  have pos: "\<forall>c\<in>set (cg_candidates g). 0 < cc_amount c" using assms(1) by (simp add: group_ok_def)
  then show "0 \<le> csum (take n (cg_candidates g))" by (intro csum_nonneg) (meson in_set_takeD)
  have "csum (take n (cg_candidates g)) \<le> csum (take (length (cg_candidates g)) (cg_candidates g))"
    using csum_take_mono [OF pos assms(2)] .
  then show "csum (take n (cg_candidates g)) \<le> MaxMoneyUnits" using assms(1) by (simp add: group_ok_def)
qed

lemma sign_batch:
  assumes ok: "group_ok keys g" and n: "batch_ok fee (cg_candidates g) n" and fee: "0 \<le> fee" and sz: "key_sizes K keys"
  shows "signCleanupPrefix K keys g (prefix_sums (cg_candidates g)) n fee = Inr (batch_tx K keys g fee n)"
    and "tx_Outs (batch_tx K keys g fee n) = [\<lparr>out_Value = csum (take n (cg_candidates g)) - fee, out_PubKeyHash = cg_pkh g\<rparr>]"
    and "map in_Prev (tx_Ins (batch_tx K keys g fee n)) = map cc_outpoint (take n (cg_candidates g))"
    and "length (tx_Bytes (batch_tx K keys g fee n)) = 34 + length (put_uvarint n) + 134 * n"
proof -
  let ?cs = "take n (cg_candidates g)" and ?key = "keys ! cg_keyIndex g"
  have len: "2 \<le> n" "n \<le> length (cg_candidates g)" "length ?cs = n" and more: "fee < csum ?cs" using n by (auto simp: batch_ok_def)
  note sums = group_sums [OF ok len(2)]
  have w: "wrap64 (csum ?cs - fee) = csum ?cs - fee" using sums fee more by (simp add: wrap64_id is_int64_def money)
  let ?t = "\<lparr>tx_Version = 1, tx_Ins = map (\<lambda>c. \<lparr>in_Prev = cc_outpoint c, in_PubKey = [], in_Sig = []\<rparr>) ?cs,
      tx_Outs = [\<lparr>out_Value = csum ?cs - fee, out_PubKeyHash = cg_pkh g\<rparr>], tx_LockTag = []\<rparr>"
  obtain tx where sg: "Sign K (replicate n ?key) ?t = Inr tx" using Sign_total [of "replicate n ?key" ?t K] len(3) by auto
  have keyok: "?key \<in> set keys" "\<not> list_ex (\<lambda>c. cc_keyIndex c \<noteq> cg_keyIndex g) ?cs"
    using ok by (auto simp: group_ok_def list_ex_iff dest: in_set_takeD)
  have run: "signCleanupPrefix K keys g (prefix_sums (cg_candidates g)) n fee = Inr tx"
    using len more w sg keyok ok fee sums
    by (simp add: signCleanupPrefix_def nth_prefix_sums failIf_def group_ok_def MoneyRange_def not_le)
  then have tx: "batch_tx K keys g fee n = tx" by (simp add: batch_tx_def)
  show "signCleanupPrefix K keys g (prefix_sums (cg_candidates g)) n fee = Inr (batch_tx K keys g fee n)" using run tx by simp
  show outs: "tx_Outs (batch_tx K keys g fee n) = [\<lparr>out_Value = csum ?cs - fee, out_PubKeyHash = cg_pkh g\<rparr>]"
    and "map in_Prev (tx_Ins (batch_tx K keys g fee n)) = map cc_outpoint ?cs"
    unfolding tx using sg Sign_inputs [OF sg] len(3)
    by (auto simp: Sign_def Let_def failIf_Inr_iff set_pubkeys_def intro!: nth_equalityI)
  have ins: "length (tx_Ins tx) = n" "tx_LockTag tx = []"
    using sg len(3) by (auto simp: Sign_def Let_def failIf_Inr_iff set_pubkeys_def)
  have "\<forall>i\<in>set (tx_Ins tx). length (in_PubKey i) = 32 \<and> length (in_Sig i) = 64"
  proof
    fix i
    assume "i \<in> set (tx_Ins tx)"
    then obtain j where "j < n" "i = tx_Ins tx ! j" using ins(1) by (auto simp: in_set_conv_nth)
    then show "length (in_PubKey i) = 32 \<and> length (in_Sig i) = 64"
      using Sign_inputs [OF sg, of j] sz keyok(1) by (simp add: key_sizes_def)
  qed
  then show "length (tx_Bytes (batch_tx K keys g fee n)) = 34 + length (put_uvarint n) + 134 * n"
    using tx_size [of tx] ins outs unfolding tx by (simp add: put_uvarint_small)
qed

lemma uvarint_pos: "1 \<le> length (put_uvarint n)"
  by (subst put_uvarint.simps) simp

text \<open>Seventy-four inputs fit into the size limit, seventy-five do not.\<close>

lemma batch_fits: "34 + length (put_uvarint n) + 134 * n \<le> MaxSignedTxBytes \<longleftrightarrow> n \<le> 74"
proof (cases "n \<le> 74")
  case True
  then show ?thesis by (simp add: put_uvarint_small MaxSignedTxBytes_def)
next
  case False
  then show ?thesis using uvarint_pos [of n] by (simp add: MaxSignedTxBytes_def)
qed

lemma batch_ok_mono: "\<forall>c\<in>set cs. 0 < cc_amount c \<Longrightarrow> batch_ok fee cs m \<Longrightarrow> m \<le> n \<Longrightarrow> n \<le> length cs \<Longrightarrow> batch_ok fee cs n"
  using csum_take_mono [of cs m n] by (auto simp: batch_ok_def)

lemma cleanup_batch_exact:
  assumes ok: "group_ok keys g" and fee: "0 \<le> fee" and sz: "key_sizes K keys"
    and two: "2 \<le> length (cg_candidates g)" and total: "fee < csum (cg_candidates g)"
  shows "cleanup_batch K keys g fee =
    (let n = min (length (cg_candidates g)) 74 in
     if fee < csum (take n (cg_candidates g)) then Inr (n, batch_tx K keys g fee n, prefix_sums (cg_candidates g))
     else Inl (Err ''smallest cleanup batch exceeds 10,000-byte limit''))"
proof -
  let ?cs = "cg_candidates g" and ?n = "min (length (cg_candidates g)) 74"
  have pos: "\<forall>c\<in>set ?cs. 0 < cc_amount c" "csum ?cs \<le> MaxMoneyUnits" using ok by (auto simp: group_ok_def)
  have all: "batch_ok fee ?cs (length ?cs)" using two total by (simp add: batch_ok_def)
  then obtain m where m: "foldE (cleanup_prefix fee) ([0], 0) ?cs = Inr (prefix_sums ?cs, m)" "batch_ok fee ?cs m"
    and least: "\<And>n. batch_ok fee ?cs n \<Longrightarrow> m \<le> n"
    using prefix_loop [OF pos, of fee] by (metis (no_types, lifting))
  note tx = sign_batch [OF ok _ fee sz]
  have small: "fee < csum (take ?n ?cs) \<longleftrightarrow> m \<le> 74"
  proof
    assume "fee < csum (take ?n ?cs)"
    then have "batch_ok fee ?cs ?n" using two by (simp add: batch_ok_def)
    then show "m \<le> 74" using least by fastforce
  next
    assume "m \<le> 74"
    moreover have "m \<le> length ?cs" "fee < csum (take m ?cs)" using m(2) by (auto simp: batch_ok_def)
    ultimately show "fee < csum (take ?n ?cs)" using csum_take_mono [OF pos(1), of m ?n] by simp
  qed
  show ?thesis
  proof (cases "m \<le> 74")
    case False
    then have "length (tx_Bytes (batch_tx K keys g fee m)) > MaxSignedTxBytes" using tx(4) [OF m(2)] batch_fits [of m] by simp
    then show ?thesis using m tx(1) [OF m(2)] small False by (auto simp: cleanup_batch_def failIf_def batch_ok_def)
  next
    case True
    have "\<exists>k. cleanup_search (\<lambda>n. signCleanupPrefix K keys g (prefix_sums ?cs) n fee) (m + 1) (min (length ?cs) MaxPaymentInputs) (m, batch_tx K keys g fee m) =
        Inr (k, batch_tx K keys g fee k) \<and> m \<le> k \<and> k \<le> min (length ?cs) MaxPaymentInputs \<and> length (tx_Bytes (batch_tx K keys g fee k)) \<le> MaxSignedTxBytes \<and>
        (\<forall>n. k < n \<and> n \<le> min (length ?cs) MaxPaymentInputs \<longrightarrow> \<not> length (tx_Bytes (batch_tx K keys g fee n)) \<le> MaxSignedTxBytes)"
    proof (rule cleanup_search_largest [where limit = "min (length ?cs) MaxPaymentInputs" and
          fits = "\<lambda>n. length (tx_Bytes (batch_tx K keys g fee n)) \<le> MaxSignedTxBytes" and base = m])
      show "signCleanupPrefix K keys g (prefix_sums ?cs) n fee = Inr (batch_tx K keys g fee n)"
        if "m + 1 \<le> n" "n \<le> min (length ?cs) MaxPaymentInputs" for n
        using that by (intro tx(1) batch_ok_mono [OF pos(1) m(2)]) auto
      show "length (tx_Bytes (batch_tx K keys g fee i)) \<le> MaxSignedTxBytes"
        if "m \<le> i" "i \<le> j" "j \<le> min (length ?cs) MaxPaymentInputs" "length (tx_Bytes (batch_tx K keys g fee j)) \<le> MaxSignedTxBytes" for i j
        using that tx(4) [OF batch_ok_mono [OF pos(1) m(2)], of i] tx(4) [OF batch_ok_mono [OF pos(1) m(2)], of j] batch_fits [of i] batch_fits [of j]
        by simp
      show "length (tx_Bytes (batch_tx K keys g fee m)) \<le> MaxSignedTxBytes" using tx(4) [OF m(2)] batch_fits [of m] True by simp
      show "m \<le> min (length ?cs) MaxPaymentInputs" using m(2) True by (simp add: batch_ok_def MaxPaymentInputs_def)
    qed auto
    then obtain k where k: "cleanup_search (\<lambda>n. signCleanupPrefix K keys g (prefix_sums ?cs) n fee) (m + 1) (min (length ?cs) MaxPaymentInputs) (m, batch_tx K keys g fee m) =
        Inr (k, batch_tx K keys g fee k)" "m \<le> k" "k \<le> min (length ?cs) MaxPaymentInputs"
      and fit: "length (tx_Bytes (batch_tx K keys g fee k)) \<le> MaxSignedTxBytes"
      and max: "\<And>n. k < n \<Longrightarrow> n \<le> min (length ?cs) MaxPaymentInputs \<Longrightarrow> \<not> length (tx_Bytes (batch_tx K keys g fee n)) \<le> MaxSignedTxBytes"
      by blast
    have bk: "batch_ok fee ?cs n" if "m \<le> n" "n \<le> length ?cs" for n using batch_ok_mono [OF pos(1) m(2)] that .
    have "k \<le> 74" using fit tx(4) [OF bk [OF k(2)]] k(3) batch_fits [of k] by simp
    moreover have "\<not> k < ?n"
    proof
      assume lt: "k < ?n"
      then have "?n \<le> min (length ?cs) MaxPaymentInputs" by (simp add: MaxPaymentInputs_def)
      then have "\<not> length (tx_Bytes (batch_tx K keys g fee ?n)) \<le> MaxSignedTxBytes" using max lt by blast
      moreover have "batch_ok fee ?cs ?n" using bk lt k(2) by simp
      ultimately show False using tx(4) batch_fits [of ?n] by simp
    qed
    ultimately have "k = ?n" using k(3) by (auto simp: min_def split: if_splits)
    moreover have "length (tx_Bytes (batch_tx K keys g fee m)) \<le> MaxSignedTxBytes" "0 < m"
      using tx(4) [OF m(2)] batch_fits [of m] True m(2) by (auto simp: batch_ok_def)
    ultimately show ?thesis using m(1) tx(1) [OF m(2)] k(1) small True by (simp add: cleanup_batch_def failIf_def Let_def)
  qed
qed

section \<open>Groups\<close>

definition group_coins :: "OutPoint set \<Rightarrow> SnapshotOutpoint list \<Rightarrow> nat \<Rightarrow> cleanupCandidate list" where
  "group_coins ex os i = map (\<lambda>o'. \<lparr>cc_outpoint = sp_OutpointRef o', cc_amount = sp_AmountUnits o', cc_keyIndex = i\<rparr>)
     (filter (\<lambda>o'. sp_OutpointRef o' \<notin> ex \<and> nat (sp_KeyIndex o') = i) os)"

definition group_at :: "crypto \<Rightarrow> privkey list \<Rightarrow> OutPoint set \<Rightarrow> SnapshotOutpoint list \<Rightarrow> nat \<Rightarrow> cleanupGroup" where
  "group_at K keys ex os i = \<lparr>cg_address = addressForKey K (keys ! i), cg_pkh = pkhForKey K (keys ! i), cg_keyIndex = i,
     cg_candidates = group_coins ex os i, cg_total = csum (group_coins ex os i)\<rparr>"

text \<open>The map holds, for every key with an eligible coin, the group of its coins.\<close>

definition groups_of :: "crypto \<Rightarrow> privkey list \<Rightarrow> OutPoint set \<Rightarrow> SnapshotOutpoint list \<Rightarrow> groups \<Rightarrow> bool" where
  "groups_of K keys ex os gs \<longleftrightarrow> distinct (map fst gs) \<and>
     (\<forall>i. map_of gs i = (if group_coins ex os i = [] then None else Some (group_at K keys ex os i)))"

lemma group_coins_snoc:
  "group_coins ex (os @ [o']) i = group_coins ex os i @
     (if sp_OutpointRef o' \<notin> ex \<and> nat (sp_KeyIndex o') = i then [\<lparr>cc_outpoint = sp_OutpointRef o', cc_amount = sp_AmountUnits o', cc_keyIndex = i\<rparr>] else [])"
  by (simp add: group_coins_def)

lemma group_coins_total: "\<forall>o'\<in>set os. 0 < sp_AmountUnits o' \<Longrightarrow> 0 \<le> csum (group_coins ex os i) \<and> csum (group_coins ex os i) \<le> (\<Sum>o'\<leftarrow>os. sp_AmountUnits o')"
  by (induction os) (auto simp: group_coins_def)

lemma cleanup_outputs:
  assumes "\<forall>o'\<in>set os. owned_by_key K keys o' \<and> sp_OutpointRef o' = OutPoint (sp_TxID o') (sp_Vout o')"
    and "distinct (map sp_OutpointRef os)" and "(\<Sum>o'\<leftarrow>os. sp_AmountUnits o') \<le> MaxMoneyUnits"
  shows "\<exists>gs. foldE (cleanup_output K keys ex) ({}, 0, []) os = Inr (sp_OutpointRef ` set os, (\<Sum>o'\<leftarrow>os. sp_AmountUnits o'), gs) \<and>
    groups_of K keys ex os gs"
  using assms
proof (induction os rule: rev_induct)
  case Nil
  then show ?case by (simp add: groups_of_def group_coins_def)
next
  case (snoc o' os)
  have pos: "\<forall>o'\<in>set os. 0 < sp_AmountUnits o'" "0 < sp_AmountUnits o'" using snoc.prems(1) by (auto simp: owned_by_key_def)
  then have nn: "0 \<le> (\<Sum>o'\<leftarrow>os. sp_AmountUnits o')" by (intro sum_list_nonneg) force
  let ?acc = "\<Sum>o'\<leftarrow>os. sp_AmountUnits o'" and ?i = "nat (sp_KeyIndex o')"
  obtain gs where gs: "foldE (cleanup_output K keys ex) ({}, 0, []) os = Inr (sp_OutpointRef ` set os, ?acc, gs)" "groups_of K keys ex os gs"
    using snoc pos nn by fastforce
  have add: "addSpendable ?acc (sp_AmountUnits o') = Inr (?acc + sp_AmountUnits o')"
    using snoc.prems(3) pos nn by (auto simp: addSpendable_Inr_iff MoneyRange_def)
  have grp: "group_for K keys gs ?i = group_at K keys ex os ?i"
    using gs(2) by (auto simp: groups_of_def group_for_def group_at_def)
  have addg: "addSpendable (cg_total (group_at K keys ex os ?i)) (sp_AmountUnits o') = Inr (csum (group_coins ex os ?i) + sp_AmountUnits o')"
    using snoc.prems(3) pos group_coins_total [OF pos(1), of ex ?i] by (auto simp: addSpendable_Inr_iff MoneyRange_def group_at_def)
  let ?gs = "if sp_OutpointRef o' \<in> ex then gs else AList.update ?i (group_at K keys ex (os @ [o']) ?i) gs"
  have "cleanup_output K keys ex (sp_OutpointRef ` set os, ?acc, gs) o' = Inr (insert (sp_OutpointRef o') (sp_OutpointRef ` set os), ?acc + sp_AmountUnits o', ?gs)"
    using snoc.prems(1,2) add addg grp by (auto simp: cleanup_output_def failIf_def group_at_def group_coins_snoc Let_def)
  moreover have "groups_of K keys ex (os @ [o']) ?gs"
    using gs(2) by (auto simp: groups_of_def distinct_update update_conv' group_coins_snoc group_at_def)
  ultimately show ?case using gs(1) by (auto simp: foldE_append insert_commute)
qed

lemma groups_entry:
  assumes "groups_of K keys ex os gs"
  shows "(i, g) \<in> set gs \<longleftrightarrow> group_coins ex os i \<noteq> [] \<and> g = group_at K keys ex os i"
  using assms map_of_eq_Some_iff [of gs i g] by (auto simp: groups_of_def split: if_splits)

lemma groups_member:
  assumes "groups_of K keys ex os gs"
  shows "set (map snd gs) = group_at K keys ex os ` {i. group_coins ex os i \<noteq> []}"
  using groups_entry [OF assms] by (force simp: image_iff)

section \<open>Properties\<close>

definition may_clean :: "int \<Rightarrow> OutPoint set \<Rightarrow> Snapshot \<Rightarrow> nat \<Rightarrow> bool" where
  "may_clean fee ex s i \<longleftrightarrow> 2 \<le> length (group_coins ex (sn_Outpoints s) i) \<and> fee < csum (group_coins ex (sn_Outpoints s) i)"

lemma csum_sort [simp]: "csum (sort_key f cs) = csum cs"
  unfolding csum_def by (metis mset_map mset_sort sum_mset_sum_list)

lemma eligible_groups_set:
  assumes "groups_of K keys ex (sn_Outpoints s) gs"
  shows "set (eligible_groups fee gs) = group_at K keys ex (sn_Outpoints s) ` Collect (may_clean fee ex s)"
    and "distinct (eligible_groups fee gs)"
proof -
  have "x \<in> set (map snd gs) \<longleftrightarrow> (\<exists>i. group_coins ex (sn_Outpoints s) i \<noteq> [] \<and> x = group_at K keys ex (sn_Outpoints s) i)" for x
    using groups_member [OF assms] by auto
  then show "set (eligible_groups fee gs) = group_at K keys ex (sn_Outpoints s) ` Collect (may_clean fee ex s)"
    by (auto simp: eligible_groups_def may_clean_def group_at_def image_iff)
  have "distinct (map cg_keyIndex (map snd gs))"
  proof -
    have "map cg_keyIndex (map snd gs) = map fst gs"
      using groups_entry [OF assms] by (auto simp: map_eq_conv group_at_def)
    then show ?thesis using assms unfolding groups_of_def by metis
  qed
  then have "distinct (map snd gs)" unfolding distinct_map by blast
  then show "distinct (eligible_groups fee gs)" unfolding eligible_groups_def by (rule distinct_filter)
qed

lemma group_at_ok:
  assumes "snapshot_ok K keys s" and "group_coins ex (sn_Outpoints s) i \<noteq> []"
  shows "group_ok keys ((group_at K keys ex (sn_Outpoints s) i)\<lparr>cg_candidates := sort_key f (group_coins ex (sn_Outpoints s) i)\<rparr>)"
proof -
  have pos: "\<forall>o'\<in>set (sn_Outpoints s). owned_by_key K keys o' \<and> 0 < sp_AmountUnits o'" using assms(1) by (auto simp: snapshot_ok_def owned_by_key_def)
  have "i < length keys" using assms(2) pos by (auto simp: group_coins_def owned_by_key_def filter_empty_conv)
  moreover have "csum (group_coins ex (sn_Outpoints s) i) \<le> MaxMoneyUnits"
    using group_coins_total [of "sn_Outpoints s" ex i] pos assms(1) by (auto simp: snapshot_ok_def MoneyRange_def)
  ultimately show ?thesis using pos by (auto simp: group_ok_def group_at_def) (auto simp: group_coins_def)
qed

lemma groups_multiple:
  assumes "groups_of K keys ex (sn_Outpoints s) gs"
  shows "list_ex (\<lambda>g. 2 \<le> length (cg_candidates g)) (map snd gs) \<longleftrightarrow> (\<exists>i. 2 \<le> length (group_coins ex (sn_Outpoints s) i))"
proof -
  have "list_ex (\<lambda>g. 2 \<le> length (cg_candidates g)) (map snd gs) \<longleftrightarrow> (\<exists>g\<in>set (map snd gs). 2 \<le> length (cg_candidates g))"
    by (simp add: list_ex_iff)
  also have "\<dots> \<longleftrightarrow> (\<exists>i. 2 \<le> length (group_coins ex (sn_Outpoints s) i))"
    unfolding groups_member [OF assms] by (auto simp: group_at_def) force
  finally show ?thesis .
qed

lemma cleanup_of_exact:
  fixes first :: cleanupGroup
  defines "grp \<equiv> first\<lparr>cg_candidates := sort_key cleanup_rank (cg_candidates first)\<rparr>"
  assumes ok: "group_ok keys grp" and fee: "0 \<le> fee" and sz: "key_sizes K keys"
    and two: "2 \<le> length (cg_candidates first)" and total: "fee < csum (cg_candidates first)"
  shows "cleanup_of K keys fee first others =
    (let cs = sort_key cleanup_rank (cg_candidates first); n = min (length cs) 74 in
     if csum (take n cs) \<le> fee then Inl (Err ''smallest cleanup batch exceeds 10,000-byte limit'')
     else Inr \<lparr>pc_Tx = batch_tx K keys grp fee n, pc_Address = cg_address first, pc_AmountUnits = csum (take n cs) - fee, pc_FeeUnits = fee,
            pc_SelectedOutpoints = map cc_outpoint (take n cs), pc_MoreAvailable = (n < length cs \<or> others \<noteq> [])\<rparr>)"
proof -
  let ?cs = "cg_candidates grp" and ?n = "min (length (cg_candidates grp)) 74"
  have cs: "?cs = sort_key cleanup_rank (cg_candidates first)" by (simp add: grp_def)
  have batch: "cleanup_batch K keys grp fee = (if fee < csum (take ?n ?cs) then Inr (?n, batch_tx K keys grp fee ?n, prefix_sums ?cs)
      else Inl (Err ''smallest cleanup batch exceeds 10,000-byte limit''))"
    using cleanup_batch_exact [OF ok fee sz] two total by (simp add: cs Let_def)
  show ?thesis
  proof (cases "fee < csum (take ?n ?cs)")
    case False
    then have "cleanup_of K keys fee first others = Inl (Err ''smallest cleanup batch exceeds 10,000-byte limit'')"
      unfolding cleanup_of_def Let_def grp_def [symmetric] using batch by simp
    then show ?thesis using False by (simp add: cs Let_def)
  next
    case True
    then have bk: "batch_ok fee ?cs ?n" using two by (simp add: batch_ok_def cs)
    note tx = sign_batch [OF ok bk fee sz]
    have sums: "csum (take ?n ?cs) \<le> MaxMoneyUnits" using group_sums(2) [OF ok, of ?n] by simp
    then have w: "wrap64 (csum (take ?n ?cs) - fee) = csum (take ?n ?cs) - fee" "MoneyRange (csum (take ?n ?cs) - fee)"
      using True fee by (simp_all add: wrap64_id is_int64_def money)
    have size: "length (tx_Bytes (batch_tx K keys grp fee ?n)) \<le> MaxSignedTxBytes" using tx(4) batch_fits [of ?n] by simp
    have nth: "prefix_sums ?cs ! ?n = csum (take ?n ?cs)" by (rule nth_prefix_sums) simp
    have "cleanup_of K keys fee first others = Inr \<lparr>pc_Tx = batch_tx K keys grp fee ?n, pc_Address = cg_address grp,
        pc_AmountUnits = csum (take ?n ?cs) - fee, pc_FeeUnits = fee, pc_SelectedOutpoints = map cc_outpoint (take ?n ?cs),
        pc_MoreAvailable = (?n < length ?cs \<or> others \<noteq> [])\<rparr>"
      unfolding cleanup_of_def Let_def grp_def [symmetric] using batch True tx(2) w size nth by (simp add: failIf_def)
    moreover have "cg_address grp = cg_address first" by (simp add: grp_def)
    ultimately show ?thesis using True by (simp add: cs Let_def)
  qed
qed

text \<open>The run of the output loop, and the group the sort puts first.\<close>

lemma cleanup_groups:
  assumes ok: "snapshot_ok K keys s" and "length keys \<le> MaxWalletKeys" and "length (sn_Outpoints s) \<le> MaxSnapshotOutpoints"
    and fee: "0 \<le> fee" "MoneyRange fee" and "card ex \<le> MaxRestrictedOutpoints"
  obtains gs where "groups_of K keys ex (sn_Outpoints s) gs"
    and "buildCleanupFromSnapshot K keys s fee ex =
      (case sort_key group_rank (eligible_groups fee gs) of
         [] \<Rightarrow> Inl (if \<exists>i. 2 \<le> length (group_coins ex (sn_Outpoints s) i) then ErrCleanupTooSmall else ErrNoCleanupNeeded)
       | first # others \<Rightarrow> cleanup_of K keys fee first others)"
    and "sort_key group_rank (eligible_groups fee gs) = [] \<longleftrightarrow> (\<forall>i. \<not> may_clean fee ex s i)"
proof -
  let ?G = "group_coins ex (sn_Outpoints s)" and ?A = "group_at K keys ex (sn_Outpoints s)"
  have mr: "MoneyRange (sn_SpendableUnits s)" "sn_SpendableUnits s = (\<Sum>o'\<leftarrow>sn_Outpoints s. sp_AmountUnits o')" "keys \<noteq> []"
    using ok by (auto simp: snapshot_ok_def)
  obtain gs where run: "foldE (cleanup_output K keys ex) ({}, 0, []) (sn_Outpoints s) =
      Inr (sp_OutpointRef ` set (sn_Outpoints s), sn_SpendableUnits s, gs)" and gs: "groups_of K keys ex (sn_Outpoints s) gs"
    using cleanup_outputs [of "sn_Outpoints s" K keys ex] ok mr by (auto simp: snapshot_ok_def MoneyRange_def)
  note E = eligible_groups_set [OF gs, of fee]
  have build: "buildCleanupFromSnapshot K keys s fee ex =
      (case sort_key group_rank (eligible_groups fee gs) of
         [] \<Rightarrow> Inl (if \<exists>i. 2 \<le> length (?G i) then ErrCleanupTooSmall else ErrNoCleanupNeeded)
       | first # others \<Rightarrow> cleanup_of K keys fee first others)"
    using assms mr run groups_multiple [OF gs] by (simp add: buildCleanupFromSnapshot_def validateCleanupValues_def failIf_def cong: list.case_cong)
  have none: "sort_key group_rank (eligible_groups fee gs) = [] \<longleftrightarrow> (\<forall>i. \<not> may_clean fee ex s i)"
    using arg_cong [OF E(1), of "\<lambda>x. x = {}"] by (metis Collect_empty_eq image_is_empty set_empty set_sort)
  show ?thesis by (rule that [OF gs build none])
qed

lemma cleanup_choice:
  assumes gs: "groups_of K keys ex (sn_Outpoints s) gs" and "\<exists>i. may_clean fee ex s i"
    and "sort_key group_rank (eligible_groups fee gs) = [] \<longleftrightarrow> (\<forall>i. \<not> may_clean fee ex s i)"
  shows "\<exists>i others. sort_key group_rank (eligible_groups fee gs) = group_at K keys ex (sn_Outpoints s) i # others \<and> may_clean fee ex s i \<and>
      (\<forall>j. may_clean fee ex s j \<longrightarrow> group_rank (group_at K keys ex (sn_Outpoints s) i) \<le> group_rank (group_at K keys ex (sn_Outpoints s) j)) \<and>
      (others \<noteq> [] \<longleftrightarrow> (\<exists>j. j \<noteq> i \<and> may_clean fee ex s j))"
proof -
  let ?A = "group_at K keys ex (sn_Outpoints s)"
  note E = eligible_groups_set [OF gs, of fee]
  obtain first others where sorted: "sort_key group_rank (eligible_groups fee gs) = first # others"
    using assms(2,3) by (cases "sort_key group_rank (eligible_groups fee gs)") auto
  have all: "set (first # others) = ?A ` Collect (may_clean fee ex s)" using E(1) sorted by (metis set_sort)
  then obtain i where i: "may_clean fee ex s i" "first = ?A i" by (metis imageE list.set_intros(1) mem_Collect_eq)
  have "sorted (map group_rank (first # others))" using sorted by (metis sorted_sort_key)
  then have least: "\<forall>g\<in>set (first # others). group_rank first \<le> group_rank g" by auto
  have "group_rank (?A i) \<le> group_rank (?A j)" if "may_clean fee ex s j" for j
  proof -
    have "?A j \<in> set (first # others)" unfolding all using that by blast
    then show ?thesis using least i(2) by blast
  qed
  moreover have "others \<noteq> [] \<longleftrightarrow> (\<exists>j. j \<noteq> i \<and> may_clean fee ex s j)"
  proof -
    have "distinct (first # others)" using E(2) sorted by (metis distinct_sort)
    then have oth: "set others = ?A ` Collect (may_clean fee ex s) - {?A i}" using all i(2) by auto
    have inj: "?A j = ?A i \<longleftrightarrow> j = i" for j by (auto simp: group_at_def)
    have "others \<noteq> [] \<longleftrightarrow> set others \<noteq> {}" by simp
    also have "\<dots> \<longleftrightarrow> (\<exists>j. j \<noteq> i \<and> may_clean fee ex s j)" unfolding oth using inj by auto
    finally show ?thesis .
  qed
  ultimately show ?thesis using i sorted by blast
qed

text \<open>C20: A cleanup of a well-formed snapshot picks, among the wallet's addresses with at least two eligible coins worth
  more than the fee, the one with the most coins (the smallest address on a tie), takes its smallest coins, as many as
  fit into the size limit (seventy-four), and pays them, less the fee, back to that address; it reports that no cleanup is
  needed exactly when no address has two eligible coins, that they are too small when none of those exceeds the fee, and
  gives up when even seventy-four coins do not.\<close>

theorem cleanup_exact:
  assumes ok: "snapshot_ok K keys s" and "length keys \<le> MaxWalletKeys" and "length (sn_Outpoints s) \<le> MaxSnapshotOutpoints"
    and fee: "0 \<le> fee" "MoneyRange fee" and "card ex \<le> MaxRestrictedOutpoints" and sz: "key_sizes K keys"
  shows "((\<forall>i. length (group_coins ex (sn_Outpoints s) i) < 2) \<longrightarrow> buildCleanupFromSnapshot K keys s fee ex = Inl ErrNoCleanupNeeded) \<and>
    ((\<exists>i. 2 \<le> length (group_coins ex (sn_Outpoints s) i)) \<and> (\<forall>i. \<not> may_clean fee ex s i) \<longrightarrow>
       buildCleanupFromSnapshot K keys s fee ex = Inl ErrCleanupTooSmall) \<and>
    ((\<exists>i. may_clean fee ex s i) \<longrightarrow>
       (\<exists>i. may_clean fee ex s i \<and>
          (\<forall>j. may_clean fee ex s j \<longrightarrow> group_rank (group_at K keys ex (sn_Outpoints s) i) \<le> group_rank (group_at K keys ex (sn_Outpoints s) j)) \<and>
          (let cs = sort_key cleanup_rank (group_coins ex (sn_Outpoints s) i); n = min (length cs) 74 in
           if csum (take n cs) \<le> fee then buildCleanupFromSnapshot K keys s fee ex = Inl (Err ''smallest cleanup batch exceeds 10,000-byte limit'')
           else \<exists>tx. buildCleanupFromSnapshot K keys s fee ex =
                  Inr \<lparr>pc_Tx = tx, pc_Address = addressForKey K (keys ! i), pc_AmountUnits = csum (take n cs) - fee, pc_FeeUnits = fee,
                    pc_SelectedOutpoints = map cc_outpoint (take n cs),
                    pc_MoreAvailable = (n < length cs \<or> (\<exists>j. j \<noteq> i \<and> may_clean fee ex s j))\<rparr> \<and>
                tx_Outs tx = [\<lparr>out_Value = csum (take n cs) - fee, out_PubKeyHash = pkhForKey K (keys ! i)\<rparr>] \<and>
                map in_Prev (tx_Ins tx) = map cc_outpoint (take n cs))))"
proof -
  let ?G = "group_coins ex (sn_Outpoints s)" and ?A = "group_at K keys ex (sn_Outpoints s)"
  obtain gs where gs: "groups_of K keys ex (sn_Outpoints s) gs"
    and build: "buildCleanupFromSnapshot K keys s fee ex =
      (case sort_key group_rank (eligible_groups fee gs) of
         [] \<Rightarrow> Inl (if \<exists>i. 2 \<le> length (?G i) then ErrCleanupTooSmall else ErrNoCleanupNeeded)
       | first # others \<Rightarrow> cleanup_of K keys fee first others)"
    and none: "sort_key group_rank (eligible_groups fee gs) = [] \<longleftrightarrow> (\<forall>i. \<not> may_clean fee ex s i)"
    by (rule cleanup_groups [OF assms(1-6)])
  show ?thesis
  proof (intro conjI impI)
    assume few: "\<forall>i. length (?G i) < 2"
    then have "sort_key group_rank (eligible_groups fee gs) = []" unfolding none may_clean_def using not_le by blast
    then show "buildCleanupFromSnapshot K keys s fee ex = Inl ErrNoCleanupNeeded" using build few not_le by fastforce
  next
    assume "(\<exists>i. 2 \<le> length (?G i)) \<and> (\<forall>i. \<not> may_clean fee ex s i)"
    then show "buildCleanupFromSnapshot K keys s fee ex = Inl ErrCleanupTooSmall" using build none by simp
  next
    assume "\<exists>i. may_clean fee ex s i"
    from cleanup_choice [OF gs this none] obtain i others where srt: "sort_key group_rank (eligible_groups fee gs) = ?A i # others"
      and m: "may_clean fee ex s i" "\<forall>j. may_clean fee ex s j \<longrightarrow> group_rank (?A i) \<le> group_rank (?A j)"
        "others \<noteq> [] \<longleftrightarrow> (\<exists>j. j \<noteq> i \<and> may_clean fee ex s j)"
      by blast
    have "buildCleanupFromSnapshot K keys s fee ex = cleanup_of K keys fee (?A i) others" by (simp add: build srt)
    note i = m(1,2) this m(3)
    let ?grp = "(?A i)\<lparr>cg_candidates := sort_key cleanup_rank (cg_candidates (?A i))\<rparr>"
    have cand: "cg_candidates (?A i) = ?G i" "cg_address (?A i) = addressForKey K (keys ! i)" "cg_pkh ?grp = pkhForKey K (keys ! i)"
      by (simp_all add: group_at_def)
    have two: "2 \<le> length (?G i)" "fee < csum (?G i)" using i(1) by (auto simp: may_clean_def)
    then have "?G i \<noteq> []" by auto
    then have gok: "group_ok keys ?grp" using group_at_ok [OF ok, of ex i] cand(1) by simp
    note C = cleanup_of_exact [OF gok fee(1) sz, of others, unfolded cand, OF two]
    let ?cs = "sort_key cleanup_rank (?G i)" let ?n = "min (length ?cs) 74"
    have "\<not> csum (take ?n ?cs) \<le> fee \<Longrightarrow> batch_ok fee (cg_candidates ?grp) ?n" using two by (auto simp: batch_ok_def cand(1))
    note tx = sign_batch [OF gok this fee(1) sz]
    show "\<exists>i. may_clean fee ex s i \<and>
          (\<forall>j. may_clean fee ex s j \<longrightarrow> group_rank (?A i) \<le> group_rank (?A j)) \<and>
          (let cs = sort_key cleanup_rank (?G i); n = min (length cs) 74 in
           if csum (take n cs) \<le> fee then buildCleanupFromSnapshot K keys s fee ex = Inl (Err ''smallest cleanup batch exceeds 10,000-byte limit'')
           else \<exists>tx. buildCleanupFromSnapshot K keys s fee ex =
                  Inr \<lparr>pc_Tx = tx, pc_Address = addressForKey K (keys ! i), pc_AmountUnits = csum (take n cs) - fee, pc_FeeUnits = fee,
                    pc_SelectedOutpoints = map cc_outpoint (take n cs),
                    pc_MoreAvailable = (n < length cs \<or> (\<exists>j. j \<noteq> i \<and> may_clean fee ex s j))\<rparr> \<and>
                tx_Outs tx = [\<lparr>out_Value = csum (take n cs) - fee, out_PubKeyHash = pkhForKey K (keys ! i)\<rparr>] \<and>
                map in_Prev (tx_Ins tx) = map cc_outpoint (take n cs))"
      using i C tx(2,3) cand(1,3) by (intro exI [of _ i]) (auto simp: Let_def)
  qed
qed

theorem cleanup_exact_witness:
  "snapshot_ok sample_crypto [sample_key] sample_held \<and> may_clean 1 {} sample_held 0 \<and>
   (\<exists>p. buildCleanupFromSnapshot sample_crypto [sample_key] sample_held 1 {} = Inr p \<and> pc_AmountUnits p = 20 \<and>
      pc_SelectedOutpoints p = [OutPoint 1 0, OutPoint 3 0, OutPoint 2 0])"
proof -
  have G: "group_coins {} (sn_Outpoints sample_held) i =
      (if i = 0 then [\<lparr>cc_outpoint = OutPoint 1 0, cc_amount = 5, cc_keyIndex = 0\<rparr>, \<lparr>cc_outpoint = OutPoint 2 0, cc_amount = 9, cc_keyIndex = 0\<rparr>,
         \<lparr>cc_outpoint = OutPoint 3 0, cc_amount = 7, cc_keyIndex = 0\<rparr>] else [])" for i
    by (simp add: group_coins_def sample_held_def sample_wallet_def sample_coin_def)
  have may: "may_clean 1 {} sample_held i \<longleftrightarrow> i = 0" for i by (auto simp: may_clean_def G)
  have sz: "key_sizes sample_crypto [sample_key]" by (simp add: key_sizes_def sample_crypto_def sample_key_def)
  have "length [sample_key] \<le> MaxWalletKeys" "length (sn_Outpoints sample_held) \<le> MaxSnapshotOutpoints" "card ({} :: OutPoint set) \<le> MaxRestrictedOutpoints"
    by (simp_all add: MaxWalletKeys_def MaxSnapshotOutpoints_def sample_held_def sample_wallet_def)
  note R = cleanup_exact [OF sample_held_ok(1) this(1,2) _ _ this(3) sz, of 1, THEN conjunct2, THEN conjunct2]
  have "\<exists>p. buildCleanupFromSnapshot sample_crypto [sample_key] sample_held 1 {} = Inr p \<and> pc_AmountUnits p = 20 \<and>
      pc_SelectedOutpoints p = [OutPoint 1 0, OutPoint 3 0, OutPoint 2 0]"
    using R by (simp add: may money) (auto simp: Let_def G cleanup_rank_def)
  then show ?thesis using sample_held_ok(1) may by simp
qed

end
