(* ===== verification/GatewayTheorems.thy ===== *)
theory GatewayTheorems
  imports LightClient ActivityTheorems SampleWallet
begin

text \<open>
  The light wallet protocol: what the client's checks of a view mean, and that a gateway whose chain is in order
  gives answers that pass them.
\<close>

section \<open>Canonical text\<close>

lemma from_hex_lower: "from_hex c = Some n \<Longrightarrow> lower_ascii c = c \<Longrightarrow> n < 16 \<and> c = hex_char n"
proof -
  assume c: "from_hex c = Some n" "lower_ascii c = c"
  have "\<forall>n\<in>{..<16}. of_char (hex_char n) = (if n < 10 then 48 + n else 87 + n)"
    by (simp add: hex_char_def hex_digits_def lessThan_nat_numeral lessThan_Suc)
  then have hc: "n < 16 \<Longrightarrow> of_char (hex_char n) = (if n < 10 then 48 + n else 87 + n)" for n by simp
  have "(of_char c :: nat) \<le> 70 \<Longrightarrow> take_bit 8 (of_char c + 32 :: nat) = of_char c + 32" by (simp add: take_bit_nat_eq_self)
  then have "n < 16 \<and> of_char c = (if n < 10 then 48 + n else 87 + n)"
    using c by (auto simp: from_hex_def lower_ascii_def Let_def char_of_eq_iff split: if_splits)
  then show ?thesis using hc of_char_eq_iff [of c "hex_char n", where 'a = nat] by simp
qed

lemma hex_Decode_lower: "hex_DecodeString s = Inr b \<Longrightarrow> map lower_ascii s = s \<Longrightarrow> s = hex_EncodeToString b"
proof (induction s arbitrary: b rule: hex_DecodeString.induct)
  case (3 c d s)
  obtain x y bs where xy: "from_hex c = Some x" "from_hex d = Some y" "hex_DecodeString s = Inr bs" "b = of_nat (16 * x + y) # bs"
    using "3.prems"(1) by (auto simp: bindE_Inr_iff split: option.splits)
  have c: "x < 16" "c = hex_char x" and d: "y < 16" "d = hex_char y" using from_hex_lower xy(1,2) "3.prems"(2) by auto
  have "unat (of_nat (16 * x + y) :: byte) = 16 * x + y" using c(1) d(1) unat_byte_of_nat [of "16 * x + y"] by simp
  moreover have "s = hex_EncodeToString bs" using "3.IH" xy "3.prems"(2) by auto
  ultimately show ?case using xy(4) c d by (simp add: hex_EncodeToString_def)
qed (auto simp: hex_EncodeToString_def)

lemma lower_hex_char: "n < 16 \<Longrightarrow> lower_ascii (hex_char n) = hex_char n"
proof -
  have "\<forall>n\<in>{..<16}. lower_ascii (hex_char n) = hex_char n"
    by (simp add: lower_ascii_def hex_char_def hex_digits_def lessThan_nat_numeral lessThan_Suc)
  then show "n < 16 \<Longrightarrow> lower_ascii (hex_char n) = hex_char n" by simp
qed

lemma lower_hex [simp]: "map lower_ascii (hex_EncodeToString b) = hex_EncodeToString b"
proof -
  have "unat (x :: byte) div 16 < 16" for x using unat_byte_lt [of x] by simp
  then show ?thesis by (induction b) (simp_all add: hex_EncodeToString_def lower_hex_char)
qed

lemma decodeCanonicalHash_iff: "decodeCanonicalHash s = Inr h \<longleftrightarrow> s = hex_EncodeToString (hash_bytes h)"
proof
  assume "decodeCanonicalHash s = Inr h"
  then obtain b where "hex_DecodeString s = Inr b" "map lower_ascii s = s" "length b = 32" "h = hash_of b"
    by (auto simp: decodeCanonicalHash_def failIf_Inr_iff split: sum.splits)
  then show "s = hex_EncodeToString (hash_bytes h)" using hex_Decode_lower hash_bytes_hash_of by simp
qed (simp add: decodeCanonicalHash_def)

lemma decodeCanonicalHash_Encode [simp]: "decodeCanonicalHash (hex_EncodeToString (hash_bytes h)) = Inr h"
  by (simp add: decodeCanonicalHash_iff)

lemma decodeCanonicalTransactionHex_Encode:
  "b \<noteq> [] \<Longrightarrow> length b \<le> MaxSignedTransactionBytes \<Longrightarrow> decodeCanonicalTransactionHex (hex_EncodeToString b) = Inr b"
proof -
  assume b: "b \<noteq> []" "length b \<le> MaxSignedTransactionBytes"
  have "hex_EncodeToString b \<noteq> []" using b(1) length_hex_Encode [of b] by (metis length_0_conv mult_is_0 zero_neq_numeral)
  then show ?thesis using b by (simp add: decodeCanonicalTransactionHex_def)
qed

text \<open>The hash a text stands for, and whether it is spelled canonically.\<close>

definition text_hash :: "string \<Rightarrow> Hash32" where
  "text_hash s = (case decodeCanonicalHash s of Inr h \<Rightarrow> h | Inl _ \<Rightarrow> 0)"

definition canonical_id :: "string \<Rightarrow> bool" where
  "canonical_id s \<longleftrightarrow> s = hex_EncodeToString (hash_bytes (text_hash s))"

lemma decodeCanonicalHash_cases: "decodeCanonicalHash s = (if canonical_id s then Inr (text_hash s) else decodeCanonicalHash s)"
  "\<not> canonical_id s \<Longrightarrow> \<exists>e. decodeCanonicalHash s = Inl e"
  by (auto simp: canonical_id_def text_hash_def decodeCanonicalHash_iff split: sum.splits)

lemma text_hash_Encode [simp]: "text_hash (hex_EncodeToString (hash_bytes h)) = h" "canonical_id (hex_EncodeToString (hash_bytes h))"
  by (simp_all add: text_hash_def canonical_id_def)

lemma case_hash: "(case decodeCanonicalHash s of Inl _ \<Rightarrow> Inl e | Inr h \<Rightarrow> f h) = Inr y \<longleftrightarrow> canonical_id s \<and> f (text_hash s) = Inr y"
  using decodeCanonicalHash_cases [of s] by (cases "canonical_id s") auto

section \<open>Loops over outputs\<close>

text \<open>The loops of the gateway and of the client over lists of outputs agree on this contract: each entry passes
  a test of its own, comes after the previous one, is not among the outpoints the state blocks, and keeps the total in
  the money range.\<close>

lemma disjoint_insert_iff: "B \<subseteq> C \<and> C \<subseteq> insert z B \<Longrightarrow> z \<notin> A \<Longrightarrow> A \<inter> C = {} \<longleftrightarrow> A \<inter> B = {}"
  by blast

locale output_loop =
  fixes step :: "'s \<Rightarrow> 'x \<Rightarrow> 's res"
    and nxt :: "'s \<Rightarrow> 'x \<Rightarrow> 's"
    and ok :: "'x \<Rightarrow> bool"
    and op :: "'x \<Rightarrow> OutPoint"
    and amount :: "'x \<Rightarrow> int"
    and previous :: "'s \<Rightarrow> OutPoint option"
    and acc :: "'s \<Rightarrow> int"
    and blocked :: "'s \<Rightarrow> OutPoint set"
  assumes step_iff: "step s x = Inr s' \<longleftrightarrow> ok x \<and> op x \<notin> blocked s \<and> after (previous s) (op x) \<and> acc s \<le> MaxMoneyUnits - amount x \<and> s' = nxt s x"
    and nxt_previous: "previous (nxt s x) = Some (op x)"
    and nxt_acc: "acc (nxt s x) = wrap64 (acc s + amount x)"
    and nxt_blocked: "blocked s \<subseteq> blocked (nxt s x) \<and> blocked (nxt s x) \<subseteq> insert (op x) (blocked s)"
    and ok_amount: "ok x \<Longrightarrow> 0 < amount x \<and> MoneyRange (amount x)"
begin

lemma loop_acc:
  assumes "ok x" and "0 \<le> acc s" and "acc s \<le> MaxMoneyUnits - amount x"
  shows "acc (nxt s x) = acc s + amount x"
proof -
  have "is_int64 (acc s + amount x)" using ok_amount [OF assms(1)] assms(2,3) by (auto simp: MoneyRange_def MaxMoneyUnits_def UnitsPerCoin_def is_int64_def)
  then show ?thesis by (simp add: nxt_acc wrap64_id)
qed

lemma loop_iff:
  assumes "0 \<le> acc s"
  shows "foldE step s xs = Inr s' \<longleftrightarrow> (\<forall>x\<in>set xs. ok x) \<and> above (previous s) (map op xs) \<and> op ` set xs \<inter> blocked s = {} \<and>
    (xs \<noteq> [] \<longrightarrow> acc s + (\<Sum>x\<leftarrow>xs. amount x) \<le> MaxMoneyUnits) \<and> s' = foldl nxt s xs"
  using assms
proof (induction xs arbitrary: s)
  case Nil
  then show ?case by auto
next
  case (Cons x xs)
  show ?case
  proof (cases "ok x \<and> op x \<notin> blocked s \<and> after (previous s) (op x) \<and> acc s \<le> MaxMoneyUnits - amount x")
    case True
    then have a: "acc (nxt s x) = acc s + amount x" "0 \<le> acc (nxt s x)" using loop_acc Cons.prems ok_amount [of x] by auto
    have pos: "\<forall>y\<in>set xs. ok y \<Longrightarrow> 0 \<le> (\<Sum>y\<leftarrow>xs. amount y)" using ok_amount by (intro sum_list_nonneg) force
    have "foldE step s (x # xs) = Inr s' \<longleftrightarrow> foldE step (nxt s x) xs = Inr s'" using True step_iff by (auto simp: bindE_Inr_iff)
    also have "\<dots> \<longleftrightarrow> (\<forall>y\<in>set xs. ok y) \<and> above (Some (op x)) (map op xs) \<and> op ` set xs \<inter> blocked (nxt s x) = {} \<and>
        (xs \<noteq> [] \<longrightarrow> acc s + amount x + (\<Sum>y\<leftarrow>xs. amount y) \<le> MaxMoneyUnits) \<and> s' = foldl nxt (nxt s x) xs"
      using Cons.IH [OF a(2)] by (simp add: nxt_previous a(1))
    also have "\<dots> \<longleftrightarrow> (\<forall>y\<in>set (x # xs). ok y) \<and> above (previous s) (map op (x # xs)) \<and> op ` set (x # xs) \<inter> blocked s = {} \<and>
        (x # xs \<noteq> [] \<longrightarrow> acc s + (\<Sum>y\<leftarrow>x # xs. amount y) \<le> MaxMoneyUnits) \<and> s' = foldl nxt s (x # xs)"
    proof -
      have ab: "above (previous s) (map op (x # xs)) \<longleftrightarrow> above (Some (op x)) (map op xs)" using True by (simp add: above_Cons after_def)
      have "op ` set xs \<inter> blocked (nxt s x) = {} \<longleftrightarrow> op ` set xs \<inter> blocked s = {}" if a: "above (Some (op x)) (map op xs)"
      proof -
        have "op x \<notin> op ` set xs" using a by (auto simp: above_def)
        then show ?thesis using disjoint_insert_iff nxt_blocked [of s x] by metis
      qed
      then show ?thesis unfolding ab using True pos by (auto simp: algebra_simps)
    qed
    finally show ?thesis .
  next
    case False
    have "amount x \<le> (\<Sum>y\<leftarrow>x # xs. amount y)" if "\<forall>y\<in>set (x # xs). ok y"
      using sum_list_nonneg [of "map amount xs"] that ok_amount by force
    then show ?thesis using False step_iff [of s x] by (auto simp: bindE_Inr_iff above_Cons after_def)
  qed
qed

lemma loop_acc_total:
  assumes "0 \<le> acc s" and "foldE step s xs = Inr s'"
  shows "acc s' = acc s + (\<Sum>x\<leftarrow>xs. amount x)"
  using assms
proof (induction xs arbitrary: s)
  case (Cons x xs)
  then have "ok x" "acc s \<le> MaxMoneyUnits - amount x" "foldE step (nxt s x) xs = Inr s'" by (auto simp: bindE_Inr_iff step_iff)
  moreover from this have "acc (nxt s x) = acc s + amount x" "0 \<le> acc (nxt s x)" using loop_acc Cons.prems(1) ok_amount [of x] by auto
  ultimately show ?case using Cons.IH [of "nxt s x"] by simp
qed simp

end

definition go_op :: "SnapshotOutput \<Rightarrow> OutPoint" where
  "go_op o' = OutPoint (text_hash (go_TxID o')) (go_Vout o')"

definition vi_op :: "ViewImmatureOutput \<Rightarrow> OutPoint" where
  "vi_op o' = OutPoint (text_hash (vi_TxID o')) (vi_Vout o')"

definition listed_output :: "address set \<Rightarrow> SnapshotOutput \<Rightarrow> bool" where
  "listed_output owners o' \<longleftrightarrow> canonical_id (go_TxID o') \<and> 0 < go_AmountUnits o' \<and> MoneyRange (go_AmountUnits o') \<and> go_Address o' \<in> owners"

definition listed_immature :: "int \<Rightarrow> int \<Rightarrow> address set \<Rightarrow> ViewImmatureOutput \<Rightarrow> bool" where
  "listed_immature th maturity owners o' \<longleftrightarrow> canonical_id (vi_TxID o') \<and> 0 < vi_AmountUnits o' \<and> MoneyRange (vi_AmountUnits o') \<and>
     vi_Address o' \<in> owners \<and> viewConfirmations th (vi_BlockHeight o') = Some (vi_Confirmations o') \<and> 0 < vi_Confirmations o' \<and> vi_Confirmations o' < maturity"

interpretation client_loop: output_loop "client_output owners" "\<lambda>s x. (Some (go_op x), wrap64 (snd s + go_AmountUnits x))"
  "listed_output owners" go_op go_AmountUnits fst snd "\<lambda>_. {}"
proof unfold_locales
  fix s x s'
  show "client_output owners s x = Inr s' \<longleftrightarrow> listed_output owners x \<and> go_op x \<notin> {} \<and> after (fst s) (go_op x) \<and>
      snd s \<le> MaxMoneyUnits - go_AmountUnits x \<and> s' = (Some (go_op x), wrap64 (snd s + go_AmountUnits x))"
    by (cases s) (auto simp: client_output_def case_hash Let_def failIf_Inr_iff listed_output_def go_op_def not_le not_less)
qed (auto simp: listed_output_def)

interpretation view_loop: output_loop "view_client_output owners" "\<lambda>s x. (insert (go_op x) (fst s), Some (go_op x), wrap64 (snd (snd s) + go_AmountUnits x))"
  "listed_output owners" go_op go_AmountUnits "fst \<circ> snd" "snd \<circ> snd" fst
proof unfold_locales
  fix s x s'
  show "view_client_output owners s x = Inr s' \<longleftrightarrow> listed_output owners x \<and> go_op x \<notin> fst s \<and> after ((fst \<circ> snd) s) (go_op x) \<and>
      (snd \<circ> snd) s \<le> MaxMoneyUnits - go_AmountUnits x \<and> s' = (insert (go_op x) (fst s), Some (go_op x), wrap64 (snd (snd s) + go_AmountUnits x))"
    by (cases s) (auto simp: view_client_output_def case_hash Let_def failIf_Inr_iff listed_output_def go_op_def not_le not_less)
qed (auto simp: listed_output_def)

interpretation immature_loop: output_loop "client_immature th maturity owners"
  "\<lambda>s x. (insert (vi_op x) (fst s), Some (vi_op x), wrap64 (snd (snd s) + vi_AmountUnits x))"
  "listed_immature th maturity owners" vi_op vi_AmountUnits "fst \<circ> snd" "snd \<circ> snd" fst
proof unfold_locales
  fix s x s'
  show "client_immature th maturity owners s x = Inr s' \<longleftrightarrow> listed_immature th maturity owners x \<and> vi_op x \<notin> fst s \<and> after ((fst \<circ> snd) s) (vi_op x) \<and>
      (snd \<circ> snd) s \<le> MaxMoneyUnits - vi_AmountUnits x \<and> s' = (insert (vi_op x) (fst s), Some (vi_op x), wrap64 (snd (snd s) + vi_AmountUnits x))"
    by (cases s) (auto simp: client_immature_def case_hash Let_def failIf_Inr_iff listed_immature_def vi_op_def not_le not_less)
qed (auto simp: listed_immature_def)

definition gateway_entry :: "address list \<Rightarrow> SpendableOutputSnapshot \<Rightarrow> SnapshotOutput" where
  "gateway_entry addresses o' = \<lparr>go_TxID = hex_EncodeToString (hash_bytes (op_TxID (so_OutPoint o'))), go_Vout = op_Idx (so_OutPoint o'),
     go_AmountUnits = so_AmountUnits o', go_Address = addresses ! unat (so_OwnerIndex o')\<rparr>"

definition gateway_immature_entry :: "address list \<Rightarrow> ImmatureOutputSnapshot \<Rightarrow> ViewImmatureOutput" where
  "gateway_immature_entry addresses o' = \<lparr>vi_TxID = hex_EncodeToString (hash_bytes (op_TxID (im_OutPoint o'))), vi_Vout = op_Idx (im_OutPoint o'),
     vi_AmountUnits = im_AmountUnits o', vi_Address = addresses ! unat (im_OwnerIndex o'),
     vi_BlockHeight = im_BlockHeight o', vi_Confirmations = im_Confirmations o'\<rparr>"

definition owned_spendable :: "address list \<Rightarrow> PKH list \<Rightarrow> SpendableOutputSnapshot \<Rightarrow> bool" where
  "owned_spendable addresses pkhs o' = owned_amount addresses pkhs (so_OwnerIndex o') (so_OwnerPKH o') (so_AmountUnits o')"

definition owned_immature :: "Params \<Rightarrow> int \<Rightarrow> address list \<Rightarrow> PKH list \<Rightarrow> ImmatureOutputSnapshot \<Rightarrow> bool" where
  "owned_immature p th addresses pkhs o' \<longleftrightarrow> owned_amount addresses pkhs (im_OwnerIndex o') (im_OwnerPKH o') (im_AmountUnits o') \<and>
     0 \<le> im_BlockHeight o' \<and> im_BlockHeight o' \<le> th \<and> im_Confirmations o' = wrap64 (th - im_BlockHeight o' + 1) \<and> im_Confirmations o' < CoinbaseMaturity p"

interpretation gateway_loop: output_loop "gateway_output addresses pkhs"
  "\<lambda>s x. (Some (so_OutPoint x), wrap64 (fst (snd s) + so_AmountUnits x), snd (snd s) @ [gateway_entry addresses x])"
  "owned_spendable addresses pkhs" so_OutPoint so_AmountUnits fst "fst \<circ> snd" "\<lambda>_. {}"
proof unfold_locales
  fix s x s'
  show "gateway_output addresses pkhs s x = Inr s' \<longleftrightarrow> owned_spendable addresses pkhs x \<and> so_OutPoint x \<notin> {} \<and> after (fst s) (so_OutPoint x) \<and>
      (fst \<circ> snd) s \<le> MaxMoneyUnits - so_AmountUnits x \<and>
      s' = (Some (so_OutPoint x), wrap64 (fst (snd s) + so_AmountUnits x), snd (snd s) @ [gateway_entry addresses x])"
    by (cases s) (auto simp: gateway_output_def failIf_Inr_iff owned_spendable_def gateway_entry_def not_le not_less)
qed (auto simp: owned_spendable_def owned_amount_def)

interpretation gateway_immature_loop: output_loop "gateway_immature p th addresses pkhs"
  "\<lambda>s x. (Some (im_OutPoint x), wrap64 (fst (snd s) + im_AmountUnits x), snd (snd s) @ [gateway_immature_entry addresses x])"
  "owned_immature p th addresses pkhs" im_OutPoint im_AmountUnits fst "fst \<circ> snd" "\<lambda>_. {}"
proof unfold_locales
  fix s x s'
  show "gateway_immature p th addresses pkhs s x = Inr s' \<longleftrightarrow> owned_immature p th addresses pkhs x \<and> im_OutPoint x \<notin> {} \<and> after (fst s) (im_OutPoint x) \<and>
      (fst \<circ> snd) s \<le> MaxMoneyUnits - im_AmountUnits x \<and>
      s' = (Some (im_OutPoint x), wrap64 (fst (snd s) + im_AmountUnits x), snd (snd s) @ [gateway_immature_entry addresses x])"
    by (cases s) (auto simp: gateway_immature_def failIf_Inr_iff owned_immature_def gateway_immature_entry_def not_le not_less)
qed (auto simp: owned_immature_def owned_amount_def)

text \<open>What the states of the loops hold at the end.\<close>

lemma foldl_list: "snd (snd (foldl (\<lambda>s x. (f x, g s x, snd (snd s) @ [h x])) s xs)) = snd (snd s) @ map h xs"
  by (induction xs arbitrary: s) simp_all

lemma foldl_seen: "fst (foldl (\<lambda>s x. (insert (f x) (fst s), g s x)) s xs) = fst s \<union> f ` set xs"
  by (induction xs arbitrary: s) auto

section \<open>Activity\<close>

definition va_id :: "ViewActivityItem \<Rightarrow> Hash32" where
  "va_id item = text_hash (va_TxID item)"

definition listed_item :: "ViewActivityItem \<Rightarrow> bool" where
  "listed_item item \<longleftrightarrow> canonical_id (va_TxID item) \<and> kind_amount (va_Kind item) (va_NetUnits item)"

definition listed_pool :: "ViewActivityItem \<Rightarrow> bool" where
  "listed_pool item \<longleftrightarrow> va_Status item = WalletActivityMempool \<and> va_Kind item \<noteq> WalletActivityMiningReward \<and> va_BlockHeight item = -1 \<and>
     va_Confirmations item = 0 \<and> va_BlocksUntilMature item = 0"

definition listed_confirmed :: "int \<Rightarrow> int \<Rightarrow> ViewActivityItem \<Rightarrow> bool" where
  "listed_confirmed th maturity item \<longleftrightarrow> va_Status item = WalletActivityConfirmed \<and>
     viewConfirmations th (va_BlockHeight item) = Some (va_Confirmations item) \<and> 0 < va_Confirmations item \<and>
     va_BlocksUntilMature item = blocks_until_mature (va_Kind item) (va_Confirmations item) maturity"

text \<open>A list of activity: mempool items in the order of their ids, then confirmed items by descending height, each
  transaction once; \<open>seen\<close>, \<open>pm\<close> and \<open>hc\<close> are what precedes the list.\<close>

definition listed_activity :: "int \<Rightarrow> int \<Rightarrow> Hash32 set \<Rightarrow> Hash32 option \<Rightarrow> int option \<Rightarrow> ViewActivityItem list \<Rightarrow> bool" where
  "listed_activity th maturity seen pm hc items \<longleftrightarrow>
     (\<forall>i\<in>set items. listed_item i) \<and> distinct (map va_id items) \<and> va_id ` set items \<inter> seen = {} \<and>
     (\<exists>pool conf. items = pool @ conf \<and> (hc \<noteq> None \<longrightarrow> pool = []) \<and> (\<forall>i\<in>set pool. listed_pool i) \<and> above pm (map va_id pool) \<and>
        (\<forall>i\<in>set conf. listed_confirmed th maturity i) \<and>
        sorted_wrt (\<ge>) ((case hc of None \<Rightarrow> [] | Some h \<Rightarrow> [h]) @ map va_BlockHeight conf))"

lemma status_neq: "WalletActivityMempool \<noteq> WalletActivityConfirmed" "WalletActivityConfirmed \<noteq> WalletActivityMempool"
  by (simp_all add: WalletActivityMempool_def WalletActivityConfirmed_def)

lemma listed_activity_Nil [simp]: "listed_activity th m seen pm hc []"
  by (auto simp: listed_activity_def split: option.splits)

lemma listed_pool_Cons:
  assumes "va_Status i = WalletActivityMempool"
  shows "listed_activity th m seen pm hc (i # is) \<longleftrightarrow> listed_item i \<and> va_id i \<notin> seen \<and> hc = None \<and> listed_pool i \<and>
    (case pm of None \<Rightarrow> True | Some q \<Rightarrow> q < va_id i) \<and> listed_activity th m (insert (va_id i) seen) (Some (va_id i)) None is"
proof
  assume "listed_activity th m seen pm hc (i # is)"
  then obtain pool conf where L: "\<forall>j\<in>set (i # is). listed_item j" "distinct (map va_id (i # is))" "va_id ` set (i # is) \<inter> seen = {}"
    "i # is = pool @ conf" "hc \<noteq> None \<longrightarrow> pool = []" "\<forall>j\<in>set pool. listed_pool j" "above pm (map va_id pool)"
    "\<forall>j\<in>set conf. listed_confirmed th m j" "sorted_wrt (\<ge>) ((case hc of None \<Rightarrow> [] | Some h \<Rightarrow> [h]) @ map va_BlockHeight conf)"
    unfolding listed_activity_def by blast
  have "pool \<noteq> []" using L(4,8) assms status_neq by (auto simp: listed_confirmed_def)
  then obtain pool' where p: "pool = i # pool'" "is = pool' @ conf" using L(4) by (cases pool) auto
  have "listed_activity th m (insert (va_id i) seen) (Some (va_id i)) None is"
    unfolding listed_activity_def using L p
    by (intro conjI exI [of _ pool'] exI [of _ conf]) (auto simp: above_Cons split: option.splits)
  then show "listed_item i \<and> va_id i \<notin> seen \<and> hc = None \<and> listed_pool i \<and> (case pm of None \<Rightarrow> True | Some q \<Rightarrow> q < va_id i) \<and>
      listed_activity th m (insert (va_id i) seen) (Some (va_id i)) None is"
    using L p by (auto simp: above_Cons)
next
  assume R: "listed_item i \<and> va_id i \<notin> seen \<and> hc = None \<and> listed_pool i \<and> (case pm of None \<Rightarrow> True | Some q \<Rightarrow> q < va_id i) \<and>
      listed_activity th m (insert (va_id i) seen) (Some (va_id i)) None is"
  then obtain pool conf where L: "is = pool @ conf" "\<forall>j\<in>set pool. listed_pool j" "above (Some (va_id i)) (map va_id pool)"
    "\<forall>j\<in>set conf. listed_confirmed th m j" "sorted_wrt (\<ge>) (map va_BlockHeight conf)"
    unfolding listed_activity_def by auto
  have "\<forall>j\<in>set (i # is). listed_item j" "distinct (map va_id (i # is))" "va_id ` set (i # is) \<inter> seen = {}"
    using R unfolding listed_activity_def by auto
  then show "listed_activity th m seen pm hc (i # is)"
    unfolding listed_activity_def using L R by (intro conjI exI [of _ "i # pool"] exI [of _ conf]) (auto simp: above_Cons)
qed

lemma listed_confirmed_Cons:
  assumes "va_Status i = WalletActivityConfirmed"
  shows "listed_activity th m seen pm hc (i # is) \<longleftrightarrow> listed_item i \<and> va_id i \<notin> seen \<and> listed_confirmed th m i \<and>
    (case hc of None \<Rightarrow> True | Some h \<Rightarrow> va_BlockHeight i \<le> h) \<and>
    listed_activity th m (insert (va_id i) seen) None (Some (va_BlockHeight i)) is"
proof
  assume "listed_activity th m seen pm hc (i # is)"
  then obtain pool conf where L: "\<forall>j\<in>set (i # is). listed_item j" "distinct (map va_id (i # is))" "va_id ` set (i # is) \<inter> seen = {}"
    "i # is = pool @ conf" "\<forall>j\<in>set pool. listed_pool j"
    "\<forall>j\<in>set conf. listed_confirmed th m j" "sorted_wrt (\<ge>) ((case hc of None \<Rightarrow> [] | Some h \<Rightarrow> [h]) @ map va_BlockHeight conf)"
    unfolding listed_activity_def by blast
  have "pool = []" using L(4,5) assms status_neq by (cases pool) (auto simp: listed_pool_def)
  then have c: "conf = i # is" using L(4) by simp
  have conf: "\<forall>j\<in>set (i # is). listed_confirmed th m j" using L(6) unfolding c .
  have heights: "sorted_wrt (\<ge>) ((case hc of None \<Rightarrow> [] | Some h \<Rightarrow> [h]) @ va_BlockHeight i # map va_BlockHeight is)" using L(7) unfolding c by simp
  then have "sorted_wrt (\<ge>) (va_BlockHeight i # map va_BlockHeight is)" by (simp add: sorted_wrt_append)
  then have "listed_activity th m (insert (va_id i) seen) None (Some (va_BlockHeight i)) is"
    unfolding listed_activity_def using L(1-3) conf
    by (intro conjI exI [of _ "[]"] exI [of _ "is"]) auto
  moreover have "case hc of None \<Rightarrow> True | Some h \<Rightarrow> va_BlockHeight i \<le> h" using heights by (cases hc) auto
  ultimately show "listed_item i \<and> va_id i \<notin> seen \<and> listed_confirmed th m i \<and> (case hc of None \<Rightarrow> True | Some h \<Rightarrow> va_BlockHeight i \<le> h) \<and>
      listed_activity th m (insert (va_id i) seen) None (Some (va_BlockHeight i)) is"
    using L(1,3) conf by simp
next
  assume R: "listed_item i \<and> va_id i \<notin> seen \<and> listed_confirmed th m i \<and> (case hc of None \<Rightarrow> True | Some h \<Rightarrow> va_BlockHeight i \<le> h) \<and>
      listed_activity th m (insert (va_id i) seen) None (Some (va_BlockHeight i)) is"
  then have L: "\<forall>j\<in>set is. listed_confirmed th m j" "sorted_wrt (\<ge>) (va_BlockHeight i # map va_BlockHeight is)"
    unfolding listed_activity_def by auto
  have "sorted_wrt (\<ge>) ((case hc of None \<Rightarrow> [] | Some h \<Rightarrow> [h]) @ map va_BlockHeight (i # is))" using L(2) R by (force split: option.splits)
  moreover have "\<forall>j\<in>set (i # is). listed_item j" "distinct (map va_id (i # is))" "va_id ` set (i # is) \<inter> seen = {}"
    using R unfolding listed_activity_def by auto
  ultimately show "listed_activity th m seen pm hc (i # is)"
    unfolding listed_activity_def using L R by (intro conjI exI [of _ "[]"] exI [of _ "i # is"]) auto
qed

lemma client_activity_pool:
  assumes "va_Status i = WalletActivityMempool"
  shows "client_activity th m st i = Inr st' \<longleftrightarrow> listed_item i \<and> va_id i \<notin> as_seen st \<and> as_confirmed st = None \<and> listed_pool i \<and>
    (case as_previousMempool st of None \<Rightarrow> True | Some q \<Rightarrow> q < va_id i) \<and>
    st' = st\<lparr>as_seen := insert (va_id i) (as_seen st), as_previousMempool := Some (va_id i)\<rparr>"
  using assms
  by (auto simp: client_activity_def case_hash Let_def failIf_Inr_iff listed_item_def listed_pool_def va_id_def validViewActivityAmount_def
      not_le split: option.splits)

lemma client_activity_confirmed:
  assumes "va_Status i = WalletActivityConfirmed"
  shows "client_activity th m st i = Inr st' \<longleftrightarrow> listed_item i \<and> va_id i \<notin> as_seen st \<and> listed_confirmed th m i \<and>
    (case as_confirmed st of None \<Rightarrow> True | Some h \<Rightarrow> va_BlockHeight i \<le> h) \<and>
    st' = st\<lparr>as_seen := insert (va_id i) (as_seen st), as_previousMempool := None, as_confirmed := Some (va_BlockHeight i)\<rparr>"
  using assms status_neq
  by (auto simp: client_activity_def case_hash Let_def failIf_Inr_iff listed_item_def listed_confirmed_def va_id_def validViewActivityAmount_def
      not_le not_less split: option.splits)

lemma client_activity_iff:
  "(\<exists>st'. foldE (client_activity th m) st items = Inr st') \<longleftrightarrow>
   listed_activity th m (as_seen st) (as_previousMempool st) (as_confirmed st) items"
proof (induction items arbitrary: st)
  case Nil
  then show ?case by simp
next
  case (Cons i items)
  consider "va_Status i = WalletActivityMempool" | "va_Status i = WalletActivityConfirmed" |
    "va_Status i \<noteq> WalletActivityMempool" "va_Status i \<noteq> WalletActivityConfirmed" by blast
  then show ?case
  proof cases
    case 1
    then show ?thesis using Cons.IH [of "st\<lparr>as_seen := insert (va_id i) (as_seen st), as_previousMempool := Some (va_id i)\<rparr>"]
      by (auto simp: bindE_Inr_iff client_activity_pool listed_pool_Cons)
  next
    case 2
    then show ?thesis
      using Cons.IH [of "st\<lparr>as_seen := insert (va_id i) (as_seen st), as_previousMempool := None, as_confirmed := Some (va_BlockHeight i)\<rparr>"]
      by (auto simp: bindE_Inr_iff client_activity_confirmed listed_confirmed_Cons)
  next
    case 3
    then have "client_activity th m st i \<noteq> Inr st'" for st' by (simp add: client_activity_def case_hash Let_def failIf_Inr_iff)
    moreover have "\<not> listed_activity th m (as_seen st) (as_previousMempool st) (as_confirmed st) (i # items)"
    proof
      assume "listed_activity th m (as_seen st) (as_previousMempool st) (as_confirmed st) (i # items)"
      then obtain pool conf where "i # items = pool @ conf" "\<forall>i\<in>set pool. listed_pool i" "\<forall>i\<in>set conf. listed_confirmed th m i"
        unfolding listed_activity_def by blast
      then show False using 3 by (cases pool) (auto simp: listed_pool_def listed_confirmed_def)
    qed
    ultimately show ?thesis by (simp add: bindE_Inr_iff)
  qed
qed

section \<open>What the client's checks mean\<close>

lemma above_None [simp]: "above None xs \<longleftrightarrow> sorted_wrt (<) xs"
  by (simp add: above_def)

lemma MaxMoney_pos: "0 \<le> MaxMoneyUnits"
  by (simp add: MaxMoneyUnits_def UnitsPerCoin_def)

lemma validateViewOutputs_iff:
  "validateViewOutputs outs owners {} = Inr (seen, units) \<longleftrightarrow> (\<forall>o'\<in>set outs. listed_output owners o') \<and> sorted_wrt (<) (map go_op outs) \<and>
     (\<Sum>o'\<leftarrow>outs. go_AmountUnits o') \<le> MaxMoneyUnits \<and> seen = go_op ` set outs \<and> units = (\<Sum>o'\<leftarrow>outs. go_AmountUnits o')"
proof -
  let ?run = "foldE (view_client_output owners) ({}, None, 0) outs"
  let ?fin = "foldl (\<lambda>s x. (insert (go_op x) (fst s), Some (go_op x), wrap64 (snd (snd s) + go_AmountUnits x))) ({}, None, 0) outs"
  let ?C = "(\<forall>o'\<in>set outs. listed_output owners o') \<and> sorted_wrt (<) (map go_op outs) \<and> (\<Sum>o'\<leftarrow>outs. go_AmountUnits o') \<le> MaxMoneyUnits"
  have run: "?run = Inr s' \<longleftrightarrow> ?C \<and> s' = ?fin" for s'
    using view_loop.loop_iff [of "({}, None, 0)" owners outs s'] MaxMoney_pos by auto
  show ?thesis
  proof (cases ?C)
    case True
    then have r: "?run = Inr ?fin" using run by blast
    then have "snd (snd ?fin) = (\<Sum>o'\<leftarrow>outs. go_AmountUnits o')" using view_loop.loop_acc_total [OF _ r] by simp
    moreover have "fst ?fin = go_op ` set outs"
      using foldl_seen [of go_op "\<lambda>s x. (Some (go_op x), wrap64 (snd (snd s) + go_AmountUnits x))" "({}, None, 0)" outs] by simp
    moreover obtain e1 e2 e3 where e: "?fin = (e1, e2, e3)" by (cases ?fin)
    ultimately have "?run = Inr (go_op ` set outs, e2, \<Sum>o'\<leftarrow>outs. go_AmountUnits o')" using r by simp
    then show ?thesis using True by (auto simp: validateViewOutputs_def)
  next
    case False
    then have "validateViewOutputs outs owners {} \<noteq> Inr (seen, units)" using run by (auto simp: validateViewOutputs_def bindE_Inr_iff)
    then show ?thesis using False by blast
  qed
qed

lemma client_immature_iff:
  "(\<exists>a b. foldE (client_immature th m owners) (seen, None, 0) outs = Inr (a, b, units)) \<longleftrightarrow>
   (\<forall>o'\<in>set outs. listed_immature th m owners o') \<and> sorted_wrt (<) (map vi_op outs) \<and> vi_op ` set outs \<inter> seen = {} \<and>
     (\<Sum>o'\<leftarrow>outs. vi_AmountUnits o') \<le> MaxMoneyUnits \<and> units = (\<Sum>o'\<leftarrow>outs. vi_AmountUnits o')"
proof -
  let ?run = "foldE (client_immature th m owners) (seen, None, 0) outs"
  let ?fin = "foldl (\<lambda>s x. (insert (vi_op x) (fst s), Some (vi_op x), wrap64 (snd (snd s) + vi_AmountUnits x))) (seen, None, 0) outs"
  let ?C = "(\<forall>o'\<in>set outs. listed_immature th m owners o') \<and> sorted_wrt (<) (map vi_op outs) \<and> vi_op ` set outs \<inter> seen = {} \<and>
     (\<Sum>o'\<leftarrow>outs. vi_AmountUnits o') \<le> MaxMoneyUnits"
  have run: "?run = Inr s' \<longleftrightarrow> ?C \<and> s' = ?fin" for s'
    using immature_loop.loop_iff [of "(seen, None, 0)" th m owners outs s'] MaxMoney_pos by auto
  show ?thesis
  proof (cases ?C)
    case True
    then have r: "?run = Inr ?fin" using run by blast
    then have "snd (snd ?fin) = (\<Sum>o'\<leftarrow>outs. vi_AmountUnits o')" using immature_loop.loop_acc_total [OF _ r] by simp
    moreover obtain e1 e2 e3 where e: "?fin = (e1, e2, e3)" by (cases ?fin)
    ultimately have "?run = Inr (e1, e2, \<Sum>o'\<leftarrow>outs. vi_AmountUnits o')" using r by simp
    then show ?thesis using True by auto
  next
    case False
    then have "\<nexists>a b. ?run = Inr (a, b, units)" using run by blast
    then show ?thesis using False by blast
  qed
qed

definition view_ok :: "Client \<Rightarrow> ViewResponse \<Rightarrow> address list \<Rightarrow> int \<Rightarrow> bool" where
  "view_ok c r addresses limit \<longleftrightarrow>
     vr_SchemaVersion r = gateway_SchemaVersion \<and> vr_Network r = cl_network c \<and> 0 \<le> gt_Height (vr_Tip r) \<and> canonical_id (gt_Hash (vr_Tip r)) \<and>
     vr_Addresses r = addresses \<and> length (vr_Outputs r) \<le> MaxSnapshotOutputs \<and> length (vr_ImmatureOutputs r) \<le> MaxSnapshotOutputs \<and>
     int (length (vr_Activity r)) \<le> limit \<and> vr_SpendableOutputCount r = int (length (vr_Outputs r)) \<and>
     (\<forall>o'\<in>set (vr_Outputs r). listed_output (set addresses) o') \<and> sorted_wrt (<) (map go_op (vr_Outputs r)) \<and>
     vr_SpendableUnits r = (\<Sum>o'\<leftarrow>vr_Outputs r. go_AmountUnits o') \<and> vr_SpendableUnits r \<le> MaxMoneyUnits \<and>
     (\<forall>o'\<in>set (vr_ImmatureOutputs r). listed_immature (gt_Height (vr_Tip r)) (client_maturity c) (set addresses) o') \<and>
     sorted_wrt (<) (map vi_op (vr_ImmatureOutputs r)) \<and> vi_op ` set (vr_ImmatureOutputs r) \<inter> go_op ` set (vr_Outputs r) = {} \<and>
     vr_ImmatureUnits r = (\<Sum>o'\<leftarrow>vr_ImmatureOutputs r. vi_AmountUnits o') \<and> vr_ImmatureUnits r \<le> MaxMoneyUnits \<and>
     listed_activity (gt_Height (vr_Tip r)) (client_maturity c) {} None None (vr_Activity r)"

lemma case_pair_Inr: "(case m of Inl _ \<Rightarrow> Inl e | Inr (a, b) \<Rightarrow> f a b) = Inr y \<longleftrightarrow> (\<exists>a b. m = Inr (a, b) \<and> f a b = Inr y)"
  by (auto split: sum.splits)

lemma validateView_iff: "validateView c r addresses limit = Inr () \<longleftrightarrow> view_ok c r addresses limit"
proof -
  let ?th = "gt_Height (vr_Tip r)" and ?m = "client_maturity c" and ?st = "\<lparr>as_seen = {}, as_previousMempool = None, as_confirmed = None\<rparr>"
  have act: "(\<exists>st'. foldE (client_activity ?th ?m) ?st (vr_Activity r) = Inr st') \<longleftrightarrow> listed_activity ?th ?m {} None None (vr_Activity r)"
    using client_activity_iff [of ?th ?m ?st] by simp
  have imm: "(\<exists>a b. foldE (client_immature ?th ?m (set addresses)) (seen, None, 0) (vr_ImmatureOutputs r) = Inr (a, b, vr_ImmatureUnits r)) \<longleftrightarrow>
      (\<forall>o'\<in>set (vr_ImmatureOutputs r). listed_immature ?th ?m (set addresses) o') \<and>
     sorted_wrt (<) (map vi_op (vr_ImmatureOutputs r)) \<and> vi_op ` set (vr_ImmatureOutputs r) \<inter> seen = {} \<and>
     (\<Sum>o'\<leftarrow>vr_ImmatureOutputs r. vi_AmountUnits o') \<le> MaxMoneyUnits \<and> vr_ImmatureUnits r = (\<Sum>o'\<leftarrow>vr_ImmatureOutputs r. vi_AmountUnits o')" for seen
    by (rule client_immature_iff)
  have "validateView c r addresses limit = Inr () \<longleftrightarrow>
     vr_SchemaVersion r = gateway_SchemaVersion \<and> vr_Network r = cl_network c \<and> 0 \<le> ?th \<and> length (vr_Addresses r) = length addresses \<and>
     length (vr_Outputs r) \<le> MaxSnapshotOutputs \<and> length (vr_ImmatureOutputs r) \<le> MaxSnapshotOutputs \<and>
     int (length (vr_Activity r)) \<le> limit \<and> vr_SpendableOutputCount r = int (length (vr_Outputs r)) \<and> canonical_id (gt_Hash (vr_Tip r)) \<and>
     vr_Addresses r = addresses \<and> (\<exists>seen. validateViewOutputs (vr_Outputs r) (set addresses) {} = Inr (seen, vr_SpendableUnits r) \<and>
       (\<exists>a b. foldE (client_immature ?th ?m (set addresses)) (seen, None, 0) (vr_ImmatureOutputs r) = Inr (a, b, vr_ImmatureUnits r)) \<and>
       (\<exists>st'. foldE (client_activity ?th ?m) ?st (vr_Activity r) = Inr st'))"
    unfolding validateView_def failIf_Inr_iff case_hash case_pair_Inr bindE_Inr_iff split_paired_Ex prod.case de_Morgan_disj not_not not_less
    by auto
  then show ?thesis unfolding act imm validateViewOutputs_iff view_ok_def by auto
qed

section \<open>The answers of a gateway\<close>

lemma canonical_pkhs_loop_Inr:
  "canonical_pkhs_loop K previous addresses = Inr pkhs \<longleftrightarrow> above previous addresses \<and> addresses = map (EncodeAddress K) pkhs"
proof (induction addresses arbitrary: previous pkhs)
  case Nil
  then show ?case by auto
next
  case (Cons a rest)
  show ?case
  proof (cases "DecodeAddress K a")
    case (Inl e)
    then have "a \<noteq> EncodeAddress K pkh" for pkh using DecodeAddress_EncodeAddress [of K pkh] by auto
    then show ?thesis using Inl by (auto simp: failIf_Inr_iff)
  next
    case (Inr pkh)
    have "a = EncodeAddress K q \<Longrightarrow> q = pkh" for q using Inr DecodeAddress_EncodeAddress [of K q] by auto
    then show ?thesis
      using Inr Cons.IH [of "Some a"] by (auto simp: failIf_Inr_iff bindE_Inr_iff above_Cons not_le split: option.splits)
  qed
qed

lemma canonicalPKHs_iff:
  "canonicalPKHs K addresses = Inr pkhs \<longleftrightarrow> addresses \<noteq> [] \<and> sorted_wrt (<) addresses \<and> addresses = map (EncodeAddress K) pkhs"
  by (auto simp: canonicalPKHs_def failIf_Inr_iff canonical_pkhs_loop_Inr)

text \<open>The reply to a view request, written as a function of the chain's wallet view.\<close>

definition view_reply :: "Gateway \<Rightarrow> address list \<Rightarrow> WalletViewSnapshot \<Rightarrow> ViewResponse" where
  "view_reply g addresses v =
     \<lparr>vr_SchemaVersion = gateway_SchemaVersion, vr_Network = gw_network g, vr_Tip = gateway_tip (wv_Tip v), vr_Addresses = addresses,
      vr_Outputs = map (gateway_entry addresses) (wv_SpendableOutputs v), vr_SpendableUnits = wv_SpendableUnits v,
      vr_SpendableOutputCount = int (length (wv_SpendableOutputs v)),
      vr_ImmatureOutputs = map (gateway_immature_entry addresses) (wv_ImmatureOutputs v), vr_ImmatureUnits = wv_ImmatureUnits v,
      vr_Activity = map gateway_item (wv_Activity v)\<rparr>"

text \<open>A chain whose wallet views a gateway can serve: known transactions have different ids and heights are far from
  overflow.\<close>

definition orderly :: "crypto \<Rightarrow> Chain \<Rightarrow> bool" where
  "orderly K c \<longleftrightarrow> inj_on (tx_ID K) (known_txs c) \<and> bi_height (ch_tip c) < 2 ^ 63 - 1"

text \<open>Activity a gateway can serve: no listed transaction mixes inputs of the wallet with foreign ones so that the wallet
  gains by it, and no block it lists has the zero hash as its id.\<close>

definition unmixed :: "WalletActivityItem list \<Rightarrow> bool" where
  "unmixed acts \<longleftrightarrow> (\<forall>a\<in>set acts. (wa_Status a = WalletActivityConfirmed \<longrightarrow> wa_BlockHash a \<noteq> 0) \<and> (wa_Kind a = WalletActivitySent \<longrightarrow> wa_NetUnits a < 0) \<and> (wa_Kind a = WalletActivityCleanup \<longrightarrow> wa_NetUnits a \<le> 0))"

lemma known_kind_amount:
  assumes "known_kind a" and "wa_Kind a = WalletActivitySent \<longrightarrow> wa_NetUnits a < 0" and "wa_Kind a = WalletActivityCleanup \<longrightarrow> wa_NetUnits a \<le> 0"
  shows "kind_amount (wa_Kind a) (wa_NetUnits a)"
  using assms
  by (auto simp: known_kind_def kind_amount_def WalletActivityReceived_def WalletActivityMiningReward_def WalletActivitySent_def WalletActivityCleanup_def)

text \<open>A gateway on a reachable, orderly chain and the wallet view of a canonical request.\<close>

definition serving :: "crypto \<Rightarrow> bool \<Rightarrow> Gateway \<Rightarrow> address list \<Rightarrow> PKH list \<Rightarrow> int \<Rightarrow> WalletViewSnapshot \<Rightarrow> bool" where
  "serving K stored g addresses pkhs limit v \<longleftrightarrow>
     chain_reach K (ch_params (gw_chain g)) stored (gw_chain g) \<and> canonical_params (ch_params (gw_chain g)) \<and>
     CanonicalNetworkID (Some (ch_params (gw_chain g))) = Inr (gw_network g) \<and> orderly K (gw_chain g) \<and>
     canonicalPKHs K addresses = Inr pkhs \<and> WalletViewForPKHs K (gw_chain g) pkhs limit = Inr v \<and> unmixed (wv_Activity v)"

lemma servingD:
  assumes "serving K stored g addresses pkhs limit v"
  obtains owners where "chain_reach K (ch_params (gw_chain g)) stored (gw_chain g)" and "canonical_params (ch_params (gw_chain g))"
    and "walletOwners pkhs True = Inr owners" and "walletViewForOwnersLocked K (gw_chain g) owners limit = Inr v"
    and "0 \<le> limit" and "limit \<le> MaxWalletActivityLimit"
  using assms by (auto simp: serving_def WalletViewForPKHs_def failIf_Inr_iff bindE_Inr_iff)

lemma serving_tip:
  assumes "serving K stored g addresses pkhs limit v"
  shows "wv_Complete v" and "wv_Network v = gw_network g" and "ts_Network (wv_Tip v) = gw_network g" and "ts_Height (wv_Tip v) = bi_height (ch_tip (gw_chain g))"
    and "0 \<le> bi_height (ch_tip (gw_chain g))" and "ts_Hash (wv_Tip v) = bi_id (ch_tip (gw_chain g))"
proof -
  obtain owners where o: "chain_reach K (ch_params (gw_chain g)) stored (gw_chain g)" "canonical_params (ch_params (gw_chain g))"
    "walletViewForOwnersLocked K (gw_chain g) owners limit = Inr v"
    using servingD [OF assms] by metis
  obtain bs network where bs: "branch K (ch_params (gw_chain g)) (ch_index (gw_chain g)) (ch_tip (gw_chain g)) bs"
    and tip: "canonicalTipSnapshotLocked K (gw_chain g) = Inr \<lparr>ts_Network = network, ts_Hash = bi_id (ch_tip (gw_chain g)), ts_Height = bi_height (ch_tip (gw_chain g))\<rparr>"
    and net: "CanonicalNetworkID (Some (ch_params (gw_chain g))) = Inr network"
    using reach_main [OF o(1,2)] by metis
  have "network = gw_network g" using net assms by (simp add: serving_def)
  moreover have t: "wv_Tip v = \<lparr>ts_Network = network, ts_Hash = bi_id (ch_tip (gw_chain g)), ts_Height = bi_height (ch_tip (gw_chain g))\<rparr>"
    using view_spendable(5) [OF o] tip by simp
  ultimately show "wv_Complete v" "wv_Network v = gw_network g" "ts_Network (wv_Tip v) = gw_network g"
    "ts_Height (wv_Tip v) = bi_height (ch_tip (gw_chain g))" "ts_Hash (wv_Tip v) = bi_id (ch_tip (gw_chain g))"
    using view_spendable(6,7) [OF o] by simp_all
  have "bs \<noteq> []" "bi_height (ch_tip (gw_chain g)) = int (length bs) - 1" using branch_shape [OF bs] by blast+
  then show "0 \<le> bi_height (ch_tip (gw_chain g))" by (cases bs) auto
qed

lemma serving_owned:
  assumes "serving K stored g addresses pkhs limit v"
  shows "o' \<in> set (wv_SpendableOutputs v) \<Longrightarrow> owned_spendable addresses pkhs o'"
    and "m \<in> set (wv_ImmatureOutputs v) \<Longrightarrow> owned_immature (ch_params (gw_chain g)) (bi_height (ch_tip (gw_chain g))) addresses pkhs m"
proof -
  obtain owners where o: "chain_reach K (ch_params (gw_chain g)) stored (gw_chain g)" "canonical_params (ch_params (gw_chain g))"
    "walletViewForOwnersLocked K (gw_chain g) owners limit = Inr v" and own: "walletOwners pkhs True = Inr owners"
    using servingD [OF assms] by metis
  have len: "length addresses = length pkhs" using assms by (auto simp: serving_def canonicalPKHs_iff)
  have amount: "owned_money owners pkh i n \<Longrightarrow> owned_amount addresses pkhs i pkh n" for pkh i n
    using walletOwners_index [OF own, of pkh i] by (simp add: owned_money_def owned_amount_def len)
  show "o' \<in> set (wv_SpendableOutputs v) \<Longrightarrow> owned_spendable addresses pkhs o'"
    using view_outputs(4) [OF o] amount by (simp add: owned_spendable_def)
  have high: "bi_height (ch_tip (gw_chain g)) < 2 ^ 63 - 1" using assms by (simp add: serving_def orderly_def)
  show "owned_immature (ch_params (gw_chain g)) (bi_height (ch_tip (gw_chain g))) addresses pkhs m" if m: "m \<in> set (wv_ImmatureOutputs v)"
  proof -
    note M = view_outputs(5) [OF o m]
    have "is_int64 (bi_height (ch_tip (gw_chain g)) - im_BlockHeight m + 1)" using M high by (auto simp: is_int64_def)
    then show ?thesis using M amount by (simp add: owned_immature_def wrap64_id)
  qed
qed

lemma serving_loops:
  assumes "serving K stored g addresses pkhs limit v"
  shows "\<exists>q. foldE (gateway_output addresses pkhs) (None, 0, []) (wv_SpendableOutputs v) =
      Inr (q, wv_SpendableUnits v, map (gateway_entry addresses) (wv_SpendableOutputs v))"
    and "\<exists>q. foldE (gateway_immature (ch_params (gw_chain g)) (bi_height (ch_tip (gw_chain g))) addresses pkhs) (None, 0, []) (wv_ImmatureOutputs v) =
      Inr (q, wv_ImmatureUnits v, map (gateway_immature_entry addresses) (wv_ImmatureOutputs v))"
proof -
  obtain owners where o: "chain_reach K (ch_params (gw_chain g)) stored (gw_chain g)" "canonical_params (ch_params (gw_chain g))"
    "walletViewForOwnersLocked K (gw_chain g) owners limit = Inr v"
    using servingD [OF assms] by metis
  let ?fin = "foldl (\<lambda>s x. (Some (so_OutPoint x), wrap64 (fst (snd s) + so_AmountUnits x), snd (snd s) @ [gateway_entry addresses x])) (None, 0, []) (wv_SpendableOutputs v)"
  have run: "foldE (gateway_output addresses pkhs) (None, 0, []) (wv_SpendableOutputs v) = Inr ?fin"
    using gateway_loop.loop_iff [of "(None, 0, [])" addresses pkhs "wv_SpendableOutputs v" ?fin] serving_owned(1) [OF assms]
      view_outputs(1,7) [OF o] view_spendable(4) [OF o] by (simp add: MoneyRange_def)
  obtain a b d where e: "?fin = (a, b, d)" by (cases ?fin)
  have "b = wv_SpendableUnits v" using gateway_loop.loop_acc_total [OF _ run] view_spendable(4) [OF o] e by simp
  moreover have "d = map (gateway_entry addresses) (wv_SpendableOutputs v)"
    using foldl_list [of "\<lambda>x. Some (so_OutPoint x)" "\<lambda>s x. wrap64 (fst (snd s) + so_AmountUnits x)" "gateway_entry addresses" "(None, 0, [])" "wv_SpendableOutputs v"] e by simp
  ultimately show "\<exists>q. foldE (gateway_output addresses pkhs) (None, 0, []) (wv_SpendableOutputs v) =
      Inr (q, wv_SpendableUnits v, map (gateway_entry addresses) (wv_SpendableOutputs v))" using run e by auto
next
  obtain owners where o: "chain_reach K (ch_params (gw_chain g)) stored (gw_chain g)" "canonical_params (ch_params (gw_chain g))"
    "walletViewForOwnersLocked K (gw_chain g) owners limit = Inr v"
    using servingD [OF assms] by metis
  let ?p = "ch_params (gw_chain g)" and ?th = "bi_height (ch_tip (gw_chain g))"
  let ?fin = "foldl (\<lambda>s x. (Some (im_OutPoint x), wrap64 (fst (snd s) + im_AmountUnits x), snd (snd s) @ [gateway_immature_entry addresses x])) (None, 0, []) (wv_ImmatureOutputs v)"
  have run: "foldE (gateway_immature ?p ?th addresses pkhs) (None, 0, []) (wv_ImmatureOutputs v) = Inr ?fin"
    using gateway_immature_loop.loop_iff [of "(None, 0, [])" ?p ?th addresses pkhs "wv_ImmatureOutputs v" ?fin] serving_owned(2) [OF assms]
      view_outputs(2,6,8) [OF o] by (simp add: MoneyRange_def)
  obtain a b d where e: "?fin = (a, b, d)" by (cases ?fin)
  have "b = wv_ImmatureUnits v" using gateway_immature_loop.loop_acc_total [OF _ run] view_outputs(6) [OF o] e by simp
  moreover have "d = map (gateway_immature_entry addresses) (wv_ImmatureOutputs v)"
    using foldl_list [of "\<lambda>x. Some (im_OutPoint x)" "\<lambda>s x. wrap64 (fst (snd s) + im_AmountUnits x)" "gateway_immature_entry addresses" "(None, 0, [])" "wv_ImmatureOutputs v"] e by simp
  ultimately show "\<exists>q. foldE (gateway_immature ?p ?th addresses pkhs) (None, 0, []) (wv_ImmatureOutputs v) =
      Inr (q, wv_ImmatureUnits v, map (gateway_immature_entry addresses) (wv_ImmatureOutputs v))" using run e by auto
qed

lemma serving_activity:
  assumes S: "serving K stored g addresses pkhs limit v"
  shows "activity_ok (ch_params (gw_chain g)) (bi_height (ch_tip (gw_chain g))) (set (ch_mainIDs (gw_chain g))) (wv_Activity v)"
    and "a \<in> set (wv_Activity v) \<Longrightarrow> kind_amount (wa_Kind a) (wa_NetUnits a)"
    and "a \<in> set (wv_Activity v) \<Longrightarrow> validGatewayActivity a (bi_height (ch_tip (gw_chain g))) (CoinbaseMaturity (ch_params (gw_chain g)))"
proof -
  let ?p = "ch_params (gw_chain g)" and ?th = "bi_height (ch_tip (gw_chain g))" and ?ids = "set (ch_mainIDs (gw_chain g))"
  have ord: "inj_on (tx_ID K) (known_txs (gw_chain g))" "?th < 2 ^ 63 - 1" using assms by (auto simp: serving_def orderly_def)
  obtain owners where o: "chain_reach K ?p stored (gw_chain g)" "canonical_params ?p" "walletViewForOwnersLocked K (gw_chain g) owners limit = Inr v"
    using servingD [OF assms] by metis
  show ok: "activity_ok ?p ?th ?ids (wv_Activity v)" by (rule view_activity [OF o ord(1)])
  have kinds: "known_kind a \<and> (pool_item (wa_TxID a) a \<or> (\<exists>blk\<in>?ids. \<exists>h. 0 \<le> h \<and> h \<le> ?th \<and> confirmed_item ?p ?th blk h (wa_TxID a) a))"
    if "a \<in> set (wv_Activity v)" for a
    using ok that unfolding activity_ok_def by (auto simp: pool_item_def confirmed_item_def)
  show kind: "kind_amount (wa_Kind a) (wa_NetUnits a)" if a: "a \<in> set (wv_Activity v)" for a
    using kinds [OF a] known_kind_amount assms a by (auto simp: serving_def unmixed_def)
  show "validGatewayActivity a ?th (CoinbaseMaturity ?p)" if a: "a \<in> set (wv_Activity v)"
  proof (cases "pool_item (wa_TxID a) a")
    case True
    then show ?thesis using kind [OF a] by (simp add: validGatewayActivity_def pool_item_def)
  next
    case False
    then obtain blk h where c: "blk \<in> ?ids" "0 \<le> h" "h \<le> ?th" "confirmed_item ?p ?th blk h (wa_TxID a) a" using kinds [OF a] by blast
    have "is_int64 (?th - h + 1)" using c(2,3) ord(2) by (auto simp: is_int64_def)
    moreover have "blk \<noteq> 0" using c(4) S a by (auto simp: serving_def unmixed_def confirmed_item_def)
    ultimately show ?thesis using c kind [OF a] status_neq
      by (simp add: validGatewayActivity_def confirmed_item_def blocks_until_mature_def wrap64_id)
  qed
qed

lemma handleView_reply:
  assumes S: "serving K stored g addresses pkhs limit v" and "length addresses \<le> MaxSnapshotAddresses"
    and "length (wv_SpendableOutputs v) \<le> MaxSnapshotOutputs" and "length (wv_ImmatureOutputs v) \<le> MaxSnapshotOutputs"
  shows "handleView K g \<lparr>vq_Addresses = addresses, vq_ActivityLimit = limit\<rparr> = Inr (view_reply g addresses v)"
proof -
  obtain owners where o: "walletViewForOwnersLocked K (gw_chain g) owners limit = Inr v" and lim: "0 \<le> limit" "limit \<le> MaxWalletActivityLimit"
    using servingD [OF S] by metis
  obtain q r where loops: "foldE (gateway_output addresses pkhs) (None, 0, []) (wv_SpendableOutputs v) =
      Inr (q, wv_SpendableUnits v, map (gateway_entry addresses) (wv_SpendableOutputs v))"
    "foldE (gateway_immature (ch_params (gw_chain g)) (bi_height (ch_tip (gw_chain g))) addresses pkhs) (None, 0, []) (wv_ImmatureOutputs v) =
      Inr (r, wv_ImmatureUnits v, map (gateway_immature_entry addresses) (wv_ImmatureOutputs v))"
    using serving_loops [OF S] by blast
  have act: "list_all (\<lambda>a. validGatewayActivity a (bi_height (ch_tip (gw_chain g))) (CoinbaseMaturity (ch_params (gw_chain g)))) (wv_Activity v)"
    using serving_activity(3) [OF S] by (simp add: list_all_iff)
  have "length (wv_Activity v) \<le> nat limit" using o by (auto simp: walletViewForOwnersLocked_def bindE_Inr_iff)
  then have n: "int (length (wv_Activity v)) \<le> limit" using lim(1) by linarith
  have "canonicalPKHs K addresses = Inr pkhs" "WalletViewForPKHs K (gw_chain g) pkhs limit = Inr v" using S by (simp_all add: serving_def)
  then show ?thesis
    using assms(2-4) lim serving_tip [OF S] loops act n by (simp add: handleView_def refuse_def view_reply_def not_less)
qed

lemma gateway_entry_op [simp]: "go_op (gateway_entry addresses o') = so_OutPoint o'" "vi_op (gateway_immature_entry addresses m) = im_OutPoint m"
  by (simp_all add: go_op_def vi_op_def gateway_entry_def gateway_immature_entry_def)

lemma canonical_maturity:
  assumes "canonical_params p" and "CanonicalNetworkID (Some p) = Inr (cl_network c)"
  shows "client_maturity c = CoinbaseMaturity p"
  using assms canonical_params_distinct
  by (auto simp: canonical_params_def CanonicalNetworkID_def client_maturity_def canonicalMainNetParams_def canonicalRegTestParams_def
      MainNetMachineID_def RegTestMachineID_def)

lemma viewConfirmations_eq: "0 \<le> h \<Longrightarrow> h \<le> th \<Longrightarrow> th < 2 ^ 63 - 1 \<Longrightarrow> viewConfirmations th h = Some (th - h + 1)"
  by (auto simp: viewConfirmations_def)

lemma view_reply_activity:
  assumes S: "serving K stored g addresses pkhs limit v"
  shows "listed_activity (bi_height (ch_tip (gw_chain g))) (CoinbaseMaturity (ch_params (gw_chain g))) {} None None (map gateway_item (wv_Activity v))"
proof -
  let ?p = "ch_params (gw_chain g)" and ?th = "bi_height (ch_tip (gw_chain g))" and ?ids = "set (ch_mainIDs (gw_chain g))"
  have high: "?th < 2 ^ 63 - 1" using S by (simp add: serving_def orderly_def)
  obtain pool conf where A: "distinct (map wa_TxID (wv_Activity v))" "wv_Activity v = pool @ conf" "sorted_wrt (<) (map wa_TxID pool)"
    "\<forall>a\<in>set pool. pool_item (wa_TxID a) a" "sorted_wrt (\<ge>) (map wa_BlockHeight conf)"
    "\<forall>a\<in>set conf. \<exists>blk\<in>?ids. \<exists>h. 0 \<le> h \<and> h \<le> ?th \<and> confirmed_item ?p ?th blk h (wa_TxID a) a"
    using serving_activity(1) [OF S] unfolding activity_ok_def by blast
  have id: "va_id (gateway_item a) = wa_TxID a" for a by (simp add: va_id_def gateway_item_def)
  have "\<forall>i\<in>set (map gateway_item (wv_Activity v)). listed_item i"
    using serving_activity(2) [OF S] by (auto simp: listed_item_def gateway_item_def)
  moreover have "distinct (map va_id (map gateway_item (wv_Activity v)))" using A(1) by (simp add: comp_def id)
  moreover have "\<forall>i\<in>set (map gateway_item pool). listed_pool i" using A(4) by (auto simp: listed_pool_def gateway_item_def pool_item_def)
  moreover have "\<forall>i\<in>set (map gateway_item conf). listed_confirmed ?th (CoinbaseMaturity ?p) i"
  proof
    fix i
    assume "i \<in> set (map gateway_item conf)"
    then obtain a blk h where "i = gateway_item a" "0 \<le> h" "h \<le> ?th" "confirmed_item ?p ?th blk h (wa_TxID a) a" using A(6) by auto
    then show "listed_confirmed ?th (CoinbaseMaturity ?p) i" using high
      by (simp add: listed_confirmed_def gateway_item_def confirmed_item_def blocks_until_mature_def viewConfirmations_eq)
  qed
  moreover have "sorted_wrt (\<ge>) (map va_BlockHeight (map gateway_item conf))" using A(5) by (simp add: comp_def gateway_item_def)
  moreover have "sorted_wrt (<) (map va_id (map gateway_item pool))" using A(3) by (simp add: comp_def id)
  ultimately show ?thesis unfolding listed_activity_def A(2)
    by (intro conjI exI [of _ "map gateway_item pool"] exI [of _ "map gateway_item conf"]) auto
qed

lemma view_reply_ok:
  assumes S: "serving K stored g addresses pkhs limit v" and client: "cl_network client = gw_network g"
    and len: "length (wv_SpendableOutputs v) \<le> MaxSnapshotOutputs" "length (wv_ImmatureOutputs v) \<le> MaxSnapshotOutputs"
  shows "view_ok client (view_reply g addresses v) addresses limit"
proof -
  let ?p = "ch_params (gw_chain g)" and ?th = "bi_height (ch_tip (gw_chain g))"
  obtain owners where o: "chain_reach K ?p stored (gw_chain g)" "canonical_params ?p" "walletViewForOwnersLocked K (gw_chain g) owners limit = Inr v"
    and lim: "0 \<le> limit"
    using servingD [OF S] by metis
  have high: "?th < 2 ^ 63 - 1" using S by (simp add: serving_def orderly_def)
  have m: "client_maturity client = CoinbaseMaturity ?p" using canonical_maturity o(2) S client by (simp add: serving_def)
  have tip: "gt_Height (gateway_tip (wv_Tip v)) = ?th" "canonical_id (gt_Hash (gateway_tip (wv_Tip v)))" "0 \<le> ?th"
    using serving_tip [OF S] by (simp_all add: gateway_tip_def)
  have outs: "\<forall>o'\<in>set (wv_SpendableOutputs v). listed_output (set addresses) (gateway_entry addresses o')"
    using serving_owned(1) [OF S] by (auto simp: listed_output_def gateway_entry_def owned_spendable_def owned_amount_def)
  have imm: "\<forall>o'\<in>set (wv_ImmatureOutputs v). listed_immature ?th (CoinbaseMaturity ?p) (set addresses) (gateway_immature_entry addresses o')"
  proof
    fix o'
    assume o': "o' \<in> set (wv_ImmatureOutputs v)"
    have "owned_immature ?p ?th addresses pkhs o'" by (rule serving_owned(2) [OF S o'])
    then show "listed_immature ?th (CoinbaseMaturity ?p) (set addresses) (gateway_immature_entry addresses o')"
      using view_outputs(5) [OF o o'] high viewConfirmations_eq [of "im_BlockHeight o'" ?th]
      by (auto simp: listed_immature_def gateway_immature_entry_def owned_immature_def owned_amount_def)
  qed
  have "length (wv_Activity v) \<le> nat limit" using o(3) by (auto simp: walletViewForOwnersLocked_def bindE_Inr_iff)
  then have n: "int (length (wv_Activity v)) \<le> limit" using lim by linarith
  have comp: "go_op \<circ> gateway_entry addresses = so_OutPoint" "vi_op \<circ> gateway_immature_entry addresses = im_OutPoint"
    "go_AmountUnits \<circ> gateway_entry addresses = so_AmountUnits" "vi_AmountUnits \<circ> gateway_immature_entry addresses = im_AmountUnits"
    by (auto simp: fun_eq_iff gateway_entry_def [of _ "_ :: SpendableOutputSnapshot"] gateway_immature_entry_def go_op_def vi_op_def)
  have "im_OutPoint ` set (wv_ImmatureOutputs v) \<inter> so_OutPoint ` set (wv_SpendableOutputs v) = {}" using view_outputs(3) [OF o] by blast
  then show ?thesis
    unfolding view_ok_def view_reply_def
    using tip outs imm n len client m view_outputs(1,2,6,7,8) [OF o] view_spendable(4) [OF o] view_reply_activity [OF S]
    by (simp add: comp image_image MoneyRange_def)
qed

section \<open>Over the wire\<close>

text \<open>The hypothesis on \<^verbatim>\<open>encoding/json\<close>: a value is encoded within the limit and decoded from its encoding, and only white
  space follows it.\<close>

definition over_json :: "('a \<Rightarrow> wire) \<Rightarrow> (wire \<Rightarrow> byte list res) \<Rightarrow> 'a decoder \<Rightarrow> nat \<Rightarrow> 'a \<Rightarrow> bool" where
  "over_json con enc dec limit x \<longleftrightarrow>
     (\<exists>b rest n. enc (con x) = Inr b \<and> length b \<le> limit \<and> dec b = Inr (x, rest, n) \<and> list_all json_space rest)"

text \<open>A connection to a gateway that loses nothing.\<close>

definition connected :: "crypto \<Rightarrow> json_lib \<Rightarrow> (Tx \<Rightarrow> int) option \<Rightarrow> Gateway \<Rightarrow> http_request \<Rightarrow> Gateway \<times> http_reply res" where
  "connected K J broadcaster g r = (case ServeHTTP K J broadcaster g r of (g', reply) \<Rightarrow> (g', Inr reply))"

lemma decode_request_over:
  assumes "over_json con (js_Marshal J) dec MaxRequestBytes x"
  obtains b where "js_Marshal J (con x) = Inr b" and "length b \<le> MaxRequestBytes" and "decode_request dec b = Inr x"
  using assms by (auto simp: over_json_def decode_request_def decodeStrictJSON_def)

lemma receive_over:
  assumes "over_json con (js_Encode J) dec MaxResponseBytes x"
  shows "receive J c dec (writeJSON J 200 (con x)) = Inr x"
  using assms by (auto simp: over_json_def receive_def writeJSON_def)

lemma receive_reply:
  assumes "over_json con (js_Encode J) dec MaxResponseBytes x"
  shows "receive J c dec (reply_of J g con (Inr x)) = Inr x"
  using receive_over [OF assms] by (simp add: reply_of_def)

lemma paths_distinct: "ViewPath \<noteq> SnapshotPath" "BroadcastPath \<noteq> SnapshotPath" "BroadcastPath \<noteq> ViewPath"
  by (simp_all add: ViewPath_def SnapshotPath_def BroadcastPath_def)

lemma post_view:
  assumes "over_json ViewRequestW (js_Marshal J) (js_ViewRequest J) MaxRequestBytes request"
    and "handleView K g request = Inr r" and "over_json ViewResponseW (js_Encode J) (js_ViewResponse J) MaxResponseBytes r"
  shows "post J (connected K J broadcaster) c ViewPath (ViewRequestW request) (js_ViewResponse J) g = (g, Inr r)"
proof -
  obtain b where b: "js_Marshal J (ViewRequestW request) = Inr b" "length b \<le> MaxRequestBytes" "decode_request (js_ViewRequest J) b = Inr request"
    using assms(1) by (rule decode_request_over)
  then show ?thesis
    using receive_reply [OF assms(3), of c g] assms(2) paths_distinct by (simp add: post_def connected_def ServeHTTP_def)
qed

lemma canonicalClientAddresses_Inr:
  assumes "canonicalClientAddresses K wallet = Inr addresses"
  shows "addresses = sort wallet" and "length addresses \<le> MaxSnapshotAddresses" and "\<exists>pkhs. canonicalPKHs K addresses = Inr pkhs"
proof -
  have a: "addresses = sort wallet" "wallet \<noteq> []" "length wallet \<le> MaxSnapshotAddresses" "\<not> adjacent_equal (sort wallet)"
    and dec: "\<forall>a\<in>set wallet. \<not> (case DecodeAddress K a of Inl _ \<Rightarrow> True | Inr pkh \<Rightarrow> EncodeAddress K pkh \<noteq> a)"
    using assms by (auto simp: canonicalClientAddresses_def failIf_Inr_iff)
  have enc: "\<exists>pkh. a = EncodeAddress K pkh" if "a \<in> set wallet" for a
    using bspec [OF dec that] by (cases "DecodeAddress K a") auto
  show "addresses = sort wallet" "length addresses \<le> MaxSnapshotAddresses" using a by simp_all
  obtain f where f: "\<forall>a\<in>set wallet. a = EncodeAddress K (f a)" using enc by metis
  have "sorted_wrt (<) addresses" using a distinct_sorted_adjacent [of "sort wallet"] by (simp add: strict_sorted_iff)
  moreover have "map (\<lambda>a. EncodeAddress K (f a)) addresses = addresses" using f a(1) by (intro map_idI) simp
  then have "addresses = map (EncodeAddress K) (map f addresses)" by (simp add: comp_def)
  moreover have "addresses \<noteq> []" using a(1,2) by (metis length_0_conv length_sort)
  ultimately show "\<exists>pkhs. canonicalPKHs K addresses = Inr pkhs" unfolding canonicalPKHs_iff by blast
qed

section \<open>Properties\<close>

text \<open>C9: The light wallet client accepts a gateway's view exactly when it is well formed: it is for the client's network
  and the requested addresses, every spendable and every immature output is a positive amount of a requested address, both
  lists are strictly sorted and disjoint, the totals are their sums and are money, immature outputs have the confirmations
  of their heights, and the activity lists every transaction once, mempool items before confirmed ones.\<close>

theorem view_validation_exact: "validateView c r addresses limit = Inr () \<longleftrightarrow> view_ok c r addresses limit"
  by (rule validateView_iff)

lemma honest_view:
  assumes "chain_reach K p stored c" and "canonical_params p" and "NewGateway (Some c) = Inr g" and "orderly K c"
    and "cl_network client = gw_network g" and "canonicalClientAddresses K wallet = Inr addresses" and "canonicalPKHs K addresses = Inr pkhs"
    and "WalletViewForPKHs K c pkhs limit = Inr v" and "unmixed (wv_Activity v)"
    and "length (wv_SpendableOutputs v) \<le> MaxSnapshotOutputs" and "length (wv_ImmatureOutputs v) \<le> MaxSnapshotOutputs"
    and "over_json ViewRequestW (js_Marshal J) (js_ViewRequest J) MaxRequestBytes \<lparr>vq_Addresses = addresses, vq_ActivityLimit = limit\<rparr>"
    and "over_json ViewResponseW (js_Encode J) (js_ViewResponse J) MaxResponseBytes (view_reply g addresses v)"
  shows "client_View K J (connected K J broadcaster) client wallet limit g = (g, Inr (view_reply g addresses v))"
proof -
  have g: "gw_chain g = c" "CanonicalNetworkID (Some (ch_params c)) = Inr (gw_network g)" using assms(3) by (auto simp: NewGateway_def bindE_Inr_iff)
  have p: "ch_params c = p" using assms(1) by (rule reach_params)
  have S: "serving K stored g addresses pkhs limit v" using assms(1,2,4,7-9) g p by (simp add: serving_def)
  have h: "handleView K g \<lparr>vq_Addresses = addresses, vq_ActivityLimit = limit\<rparr> = Inr (view_reply g addresses v)"
    using handleView_reply [OF S] canonicalClientAddresses_Inr(2) [OF assms(6)] assms(10,11) by blast
  have "validateView client (view_reply g addresses v) addresses limit = Inr ()"
    using view_reply_ok [OF S assms(5,10,11)] validateView_iff by blast
  moreover have "0 \<le> limit" "limit \<le> MaxWalletActivityLimit" using assms(8) by (auto simp: WalletViewForPKHs_def failIf_Inr_iff)
  ultimately show ?thesis using post_view [OF assms(12) h assms(13)] assms(6) by (simp add: client_View_def)
qed

text \<open>C8: An honest gateway is believed. On a reachable chain of a canonical network, with transaction ids free of collisions,
  a view request for a wallet's addresses is answered with exactly the chain's wallet view of these addresses, and the answer
  passes every check of the client, provided it fits the size limits and no listed transaction mixes the wallet's inputs with
  foreign ones so that the wallet gains by it.\<close>

theorem honest_view_accepted:
  assumes "chain_reach K p stored c" and "canonical_params p" and "NewGateway (Some c) = Inr g" and "orderly K c"
    and "cl_network client = gw_network g" and "canonicalClientAddresses K wallet = Inr addresses" and "canonicalPKHs K addresses = Inr pkhs"
    and "WalletViewForPKHs K c pkhs limit = Inr v" and "unmixed (wv_Activity v)"
    and "length (wv_SpendableOutputs v) \<le> MaxSnapshotOutputs" and "length (wv_ImmatureOutputs v) \<le> MaxSnapshotOutputs"
    and "over_json ViewRequestW (js_Marshal J) (js_ViewRequest J) MaxRequestBytes \<lparr>vq_Addresses = addresses, vq_ActivityLimit = limit\<rparr>"
    and "over_json ViewResponseW (js_Encode J) (js_ViewResponse J) MaxResponseBytes (view_reply g addresses v)"
  shows "client_View K J (connected K J broadcaster) client wallet limit g = (g, Inr (view_reply g addresses v))"
  using assms by (rule honest_view)

text \<open>A codec for one exchange of each kind, and the gateway of a wallet whose single key owns the mature genesis reward.\<close>

definition sample_json :: "ViewRequest \<Rightarrow> ViewResponse \<Rightarrow> BroadcastRequest \<Rightarrow> BroadcastResponse \<Rightarrow> json_lib" where
  "sample_json vq vr bq br = \<lparr>js_Marshal = (\<lambda>_. Inr [0x7b, 0x7d]), js_Encode = (\<lambda>_. Inr [0x7b, 0x7d, 0x0a]),
     js_SnapshotRequest = (\<lambda>_. Inl EOF), js_ViewRequest = (\<lambda>_. Inr (vq, [], 2)), js_BroadcastRequest = (\<lambda>_. Inr (bq, [], 2)),
     js_SnapshotResponse = (\<lambda>_. Inl EOF), js_ViewResponse = (\<lambda>_. Inr (vr, [0x0a], 3)), js_BroadcastResponse = (\<lambda>_. Inr (br, [0x0a], 3)),
     js_ErrorResponse = (\<lambda>_. Inl EOF)\<rparr>"

lemma sample_json_over:
  "over_json ViewRequestW (js_Marshal (sample_json vq vr bq br)) (js_ViewRequest (sample_json vq vr bq br)) MaxRequestBytes vq"
  "over_json ViewResponseW (js_Encode (sample_json vq vr bq br)) (js_ViewResponse (sample_json vq vr bq br)) MaxResponseBytes vr"
  "over_json BroadcastRequestW (js_Marshal (sample_json vq vr bq br)) (js_BroadcastRequest (sample_json vq vr bq br)) MaxRequestBytes bq"
  "over_json BroadcastResponseW (js_Encode (sample_json vq vr bq br)) (js_BroadcastResponse (sample_json vq vr bq br)) MaxResponseBytes br"
  by (simp_all add: over_json_def sample_json_def MaxRequestBytes_def MaxResponseBytes_def json_space_def)

lemma grown_known:
  assumes "chain_reach sample_crypto canonicalRegTestParams True c" and "ch_mempool c = []" and "ch_tip c = child_index"
    and "ch_mainIDs c = [bi_id (genesis_index sample_crypto canonicalRegTestParams), 1]"
  shows "orderly sample_crypto c"
proof -
  have can: "canonical_params canonicalRegTestParams" by (simp add: canonical_params_def)
  have inv: "chain_inv sample_crypto c" and par: "ch_params c = canonicalRegTestParams" using assms(1) reach_chain_inv reach_params by blast+
  let ?bs = "[genesis_index sample_crypto canonicalRegTestParams, child_index]"
  have seq: "validatedCanonicalSequenceLocked sample_crypto c = Inr ?bs" using grown_branch(1) [OF assms(1,3,4)] .
  obtain bs where bs: "branch sample_crypto canonicalRegTestParams (ch_index c) (ch_tip c) bs" "ch_mainIDs c = map bi_id bs"
    "validatedCanonicalSequenceLocked sample_crypto c = Inr bs"
    using reach_main [OF assms(1) can] by metis
  have eq: "bs = ?bs" using bs(3) seq by simp
  have blocks: "blk = GenesisBlock sample_crypto canonicalRegTestParams \<or> blk = sample_child" if b: "BlockAt c h = Inr (Some blk)" for h blk
  proof -
    have h: "0 \<le> h" "h < 2" using b assms(4) by (auto simp: BlockAt_def split: if_splits)
    then have "main_entry c h = Inr (bs ! nat h)" using main_entry_branch [OF inv _ bs(2), of h] bs(1) par eq by simp
    then have "blk = bi_block (bs ! nat h)" using b by (auto simp: BlockAt_def split: if_splits)
    moreover have "nat h = 0 \<or> nat h = 1" using h by linarith
    ultimately show ?thesis using eq by (auto simp: child_index_def)
  qed
  have "known_txs c \<subseteq> {genesis_coinbase, sample_coinbase}"
    using blocks assms(2) by (fastforce simp: known_txs_def genesis_txs sample_child_def)
  moreover have "inj_on (tx_ID sample_crypto) {genesis_coinbase, sample_coinbase}" by (auto simp: inj_on_def sample_ids)
  ultimately have "inj_on (tx_ID sample_crypto) (known_txs c)" by (meson inj_on_subset)
  then show ?thesis using assms(3) by (simp add: orderly_def child_index_def)
qed

lemma grown_gateway:
  assumes "chain_reach sample_crypto canonicalRegTestParams True c"
  shows "NewGateway (Some c) = Inr \<lparr>gw_chain = c, gw_network = RegTestMachineID\<rparr>"
  using reach_params [OF assms] canonical_params_distinct by (simp add: NewGateway_def CanonicalNetworkID_def)

lemma zero_addresses:
  "canonicalClientAddresses sample_crypto [EncodeAddress sample_crypto 0] = Inr [EncodeAddress sample_crypto 0]"
  "canonicalPKHs sample_crypto [EncodeAddress sample_crypto 0] = Inr [0]"
  by (simp_all add: canonicalClientAddresses_def DecodeAddress_EncodeAddress adjacent_equal_def MaxSnapshotAddresses_def canonicalPKHs_iff)

theorem honest_view_accepted_witness:
  "\<exists>c g v. chain_reach sample_crypto canonicalRegTestParams True c \<and> gw_chain g = c \<and>
     (let r = view_reply g [EncodeAddress sample_crypto 0] v;
          J = sample_json \<lparr>vq_Addresses = [EncodeAddress sample_crypto 0], vq_ActivityLimit = 0\<rparr> r undefined undefined in
      client_View sample_crypto J (connected sample_crypto J None) \<lparr>cl_baseURL = ''http://localhost:1'', cl_network = RegTestMachineID\<rparr>
        [EncodeAddress sample_crypto 0] 0 g = (g, Inr r) \<and> vr_SpendableUnits r = 5000000000)"
proof -
  obtain c where c: "chain_reach sample_crypto canonicalRegTestParams True c" "ch_mempool c = []" "ch_tip c = child_index"
    "ch_mainIDs c = [bi_id (genesis_index sample_crypto canonicalRegTestParams), 1]" by (rule sample_grown)
  have can: "canonical_params canonicalRegTestParams" by (simp add: canonical_params_def)
  obtain v where v: "WalletViewForPKHs sample_crypto c [0] 0 = Inr v" "wv_Activity v = []" "wv_ImmatureOutputs v = []"
    "length (wv_SpendableOutputs v) = 1" "wv_SpendableUnits v = 5000000000"
    using grown_view [OF c] by (simp add: WalletViewForPKHs_def walletOwners_def MaxWalletActivityLimit_def)
  let ?g = "\<lparr>gw_chain = c, gw_network = RegTestMachineID\<rparr>"
  let ?r = "view_reply ?g [EncodeAddress sample_crypto 0] v"
  let ?J = "sample_json \<lparr>vq_Addresses = [EncodeAddress sample_crypto 0], vq_ActivityLimit = 0\<rparr> ?r undefined undefined"
  have "client_View sample_crypto ?J (connected sample_crypto ?J None) \<lparr>cl_baseURL = ''http://localhost:1'', cl_network = RegTestMachineID\<rparr>
        [EncodeAddress sample_crypto 0] 0 ?g = (?g, Inr ?r)"
    by (rule honest_view_accepted [OF c(1) can grown_gateway [OF c(1)] grown_known [OF c] _ zero_addresses v(1)])
      (simp_all add: v unmixed_def MaxSnapshotOutputs_def sample_json_over)
  moreover have "vr_SpendableUnits ?r = 5000000000" by (simp add: view_reply_def v)
  ultimately show ?thesis using c(1) by (intro exI [of _ c] exI [of _ ?g] exI [of _ v]) (simp add: Let_def)
qed

end
