(* ===== verification/MobileTheorems.thy ===== *)
theory MobileTheorems
  imports Mobile GatewayTheorems
begin

text \<open>
  What the mobile wallet engine promises: exact amounts; previews that never share an input and are sent at most once, under
  every interleaving of its critical sections; and a payment that goes through an honest gateway into the mempool.
\<close>

section \<open>Amounts\<close>

definition digits :: "string \<Rightarrow> bool" where
  "digits s \<longleftrightarrow> list_all (\<lambda>c. digit c \<noteq> None) s"

fun dec :: "string \<Rightarrow> nat" where
  "dec [] = 0"
| "dec (c # s) = the (digit c) * 10 ^ length s + dec s"

lemma decimal_value_iff: "decimal_value acc s = Some v \<longleftrightarrow> digits s \<and> v = acc * 10 ^ length s + dec s"
proof (induction s arbitrary: acc)
  case (Cons c s)
  then show ?case by (cases "digit c") (auto simp: digits_def algebra_simps)
qed (auto simp: digits_def)

lemma digits_append: "digits (s @ t) \<longleftrightarrow> digits s \<and> digits t"
  by (simp add: digits_def)

lemma dec_append: "dec (s @ t) = dec s * 10 ^ length t + dec t"
  by (induction s) (simp_all add: power_add algebra_simps)

lemma digit_zero [simp]: "digit (CHR ''0'') = Some 0"
  by (simp add: digit_def)

lemma digit_dot [simp]: "digit (CHR ''.'') = None"
  by (simp add: digit_def)

lemma zeros: "digits (replicate k (CHR ''0''))" "dec (replicate k (CHR ''0'')) = 0"
  by (induction k) (simp_all add: digits_def)

lemma ParseUint_iff: "ParseUint s = Some v \<longleftrightarrow> s \<noteq> [] \<and> digits s \<and> v = dec s \<and> v < 2 ^ 64"
  using decimal_value_iff [of 0 s] by (auto simp: ParseUint_def split: option.splits)

lemma split_at_none: "sep \<notin> set s \<Longrightarrow> split_at sep s = [s]"
  by (induction s) auto

lemma split_at_first: "sep \<notin> set w \<Longrightarrow> split_at sep (w @ sep # r) = w # split_at sep r"
  by (induction w) auto

lemma split_at_nonempty: "split_at sep s \<noteq> []"
  by (induction s) (auto split: list.splits)

text \<open>The text of an amount: a whole part, and a point with one to eight decimals if there is a fraction.\<close>

definition amount_text :: "string \<Rightarrow> string \<Rightarrow> string \<Rightarrow> bool" where
  "amount_text w f txt \<longleftrightarrow> w \<noteq> [] \<and> digits w \<and> digits f \<and> length f \<le> 8 \<and> (if f = [] then txt = w else txt = w @ ''.'' @ f)"

lemma digits_no_dot: "digits s \<Longrightarrow> CHR ''.'' \<notin> set s"
  by (auto simp: digits_def list_all_iff)

lemma split_amount:
  assumes "list_all plain_decimal txt"
  shows "length (split_at (CHR ''.'') txt) \<le> 2 \<and> split_at (CHR ''.'') txt ! 0 \<noteq> [] \<and>
      (length (split_at (CHR ''.'') txt) = 2 \<longrightarrow> split_at (CHR ''.'') txt ! 1 \<noteq> [] \<and> length (split_at (CHR ''.'') txt ! 1) \<le> 8) \<longleftrightarrow>
    (\<exists>w f. amount_text w f txt \<and> split_at (CHR ''.'') txt = (if f = [] then [w] else [w, f]))" (is "?L \<longleftrightarrow> ?R")
proof
  assume L: ?L
  show ?R
  proof (cases "CHR ''.'' \<in> set txt")
    case False
    then have "digits txt" using assms by (auto simp: digits_def list_all_iff plain_decimal_def)
    then show ?thesis using L split_at_none [OF False] by (intro exI [of _ "txt"] exI [of _ "[]"]) (simp add: amount_text_def digits_def)
  next
    case True
    then obtain w r where t: "txt = w @ CHR ''.'' # r" "CHR ''.'' \<notin> set w" by (meson split_list_first)
    have s: "split_at (CHR ''.'') txt = w # split_at (CHR ''.'') r" using t split_at_first by simp
    have dot: "CHR ''.'' \<notin> set r"
    proof
      assume "CHR ''.'' \<in> set r"
      then obtain w' r' where "r = w' @ CHR ''.'' # r'" "CHR ''.'' \<notin> set w'" by (meson split_list_first)
      then have "split_at (CHR ''.'') txt = w # w' # split_at (CHR ''.'') r'" using s split_at_first by simp
      then show False using L split_at_nonempty [of "CHR ''.''" r'] by (cases "split_at (CHR ''.'') r'") auto
    qed
    then have s2: "split_at (CHR ''.'') txt = [w, r]" using s split_at_none by simp
    have "digits w" "digits r" using assms t dot by (auto simp: digits_def list_all_iff plain_decimal_def)
    then show ?thesis using L s2 t by (intro exI [of _ w] exI [of _ r]) (simp add: amount_text_def)
  qed
next
  assume ?R
  then show ?L by (auto simp: amount_text_def split: if_splits)
qed

lemma amount_text_plain: "amount_text w f txt \<Longrightarrow> list_all plain_decimal txt \<and> split_at (CHR ''.'') txt = (if f = [] then [w] else [w, f])"
  using digits_no_dot [of w] digits_no_dot [of f] split_at_none [of "CHR ''.''" w] split_at_first [of "CHR ''.''" w f] split_at_none [of "CHR ''.''" f]
  by (auto simp: amount_text_def digits_def list_all_iff plain_decimal_def split: if_splits)

definition amount_units :: "string \<Rightarrow> string \<Rightarrow> int" where
  "amount_units w f = int (dec w) * 10 ^ 8 + int (dec f) * 10 ^ (8 - length f)"

lemma dec_bound: "digits s \<Longrightarrow> dec s < 10 ^ length s"
proof (induction s)
  case (Cons c s)
  obtain d where d: "digit c = Some d" "d \<le> 9" using Cons.prems by (auto simp: digits_def digit_def Let_def split: if_splits)
  have "dec s < 10 ^ length s" using Cons by (simp add: digits_def)
  moreover have "d * 10 ^ length s \<le> 9 * 10 ^ length s" using d(2) by (rule mult_right_mono) simp
  ultimately have "d * 10 ^ length s + dec s < 10 * 10 ^ length s" by linarith
  then show ?case using d(1) by simp
qed simp

lemma fraction_value:
  assumes "digits f" and "f \<noteq> []" and "length f \<le> 8"
  shows "ParseUint (f @ replicate (8 - length f) (CHR ''0'')) = Some (dec f * 10 ^ (8 - length f))" and "dec f * 10 ^ (8 - length f) < 10 ^ 8"
proof -
  have "dec f * 10 ^ (8 - length f) < 10 ^ length f * 10 ^ (8 - length f)" using dec_bound [OF assms(1)] by simp
  also have "\<dots> = (10 :: nat) ^ 8" using assms(3) by (simp flip: power_add)
  finally show b: "dec f * 10 ^ (8 - length f) < 10 ^ 8" .
  then show "ParseUint (f @ replicate (8 - length f) (CHR ''0'')) = Some (dec f * 10 ^ (8 - length f))"
    using assms zeros by (simp add: ParseUint_iff digits_append dec_append)
qed

text \<open>C10: Amounts typed by the user are read exactly: a text is accepted if and only if it has at most 32 characters, a whole
  part and at most eight decimals, and its value is at most the maximal supply (and not zero, for payments); the result is that
  value in the smallest units, with nothing rounded or overflown.\<close>

theorem amount_parsed_exactly:
  "parseAmount txt allowZero = Inr u \<longleftrightarrow>
     length txt \<le> 32 \<and> (\<exists>w f. amount_text w f txt \<and> u = amount_units w f) \<and> u \<le> MaxMoneyUnits \<and> (allowZero \<or> 0 < u)"
proof (cases "txt \<noteq> [] \<and> length txt \<le> 32 \<and> (\<exists>w f. amount_text w f txt)")
  case False
  have "parseAmount txt allowZero \<noteq> Inr u"
  proof
    assume A: "parseAmount txt allowZero = Inr u"
    then have t: "txt \<noteq> []" "length txt \<le> 32" "list_all plain_decimal txt" by (auto simp: parseAmount_def failIf_Inr_iff)
    have "\<exists>w f. amount_text w f txt \<and> split_at (CHR ''.'') txt = (if f = [] then [w] else [w, f])"
      unfolding split_amount [OF t(3), symmetric] using A by (auto simp: parseAmount_def failIf_Inr_iff Let_def not_less)
    then show False using False t by blast
  qed
  moreover have "txt \<noteq> []" if "amount_text w f txt" for w f using that by (auto simp: amount_text_def split: if_splits)
  ultimately show ?thesis using False by blast
next
  case True
  then obtain w f where wf: "amount_text w f txt" by blast
  then have plain: "list_all plain_decimal txt" and s: "split_at (CHR ''.'') txt = (if f = [] then [w] else [w, f])" using amount_text_plain by blast+
  have uniq: "amount_text w' f' txt \<Longrightarrow> w' = w \<and> f' = f" for w' f' using amount_text_plain [of w' f' "txt"] s by (auto split: if_splits)
  have d: "w \<noteq> []" "digits w" "digits f" "length f \<le> 8" using wf by (auto simp: amount_text_def)
  define fr where "fr = (if f = [] then 0 else dec f * 10 ^ (8 - length f))"
  have units: "amount_units w f = int (dec w * 100000000 + fr)" by (simp add: amount_units_def fr_def)
  have fr: "fr < 100000000" using fraction_value(2) [OF d(3) _ d(4)] by (simp add: fr_def)
  have frac: "(if length (split_at (CHR ''.'') txt) = 2 then ParseUint (split_at (CHR ''.'') txt ! 1 @ replicate (8 - length (split_at (CHR ''.'') txt ! 1)) (CHR ''0''))
      else Some 0) = Some fr"
    using s fraction_value(1) [OF d(3) _ d(4)] by (simp add: fr_def)
  have max: "MaxMoneyUnits = 2100000000000000" "nat UnitsPerCoin = 100000000" by (simp_all add: MaxMoneyUnits_def UnitsPerCoin_def)
  have ok: "txt \<noteq> []" "length txt \<le> 32" using True by blast+
  have "parseAmount txt allowZero = Inr u \<longleftrightarrow> u = amount_units w f \<and> u \<le> MaxMoneyUnits \<and> (allowZero \<or> 0 < u)"
  proof (cases "dec w \<le> 21000000")
    case True
    define n where "n = dec w * 100000000 + fr"
    have n: "n mod 2 ^ 64 = n" using True fr by (simp add: n_def)
    have "ParseUint w = Some (dec w)" using d True by (simp add: ParseUint_iff)
    then have "parseAmount txt allowZero = failIf (dec w = 21000000 \<and> fr \<noteq> 0) (Err ''amount exceeds the maximum supply'')
        (failIf (int n > MaxMoneyUnits \<or> \<not> allowZero \<and> n = 0) (Err ''amount is out of range'') (Inr (int n)))"
      using ok plain s d frac max(2) True n unfolding parseAmount_def Let_def n_def by (cases "f = []") (simp_all only: failIf_def, auto)
    then show ?thesis using True fr by (auto simp: failIf_Inr_iff units max n_def)
  next
    case False
    then have "parseAmount txt allowZero \<noteq> Inr u" using s ParseUint_iff [of w] by (auto simp: parseAmount_def failIf_Inr_iff Let_def split: option.splits)
    then show ?thesis using False by (simp add: units max)
  qed
  then show ?thesis using True wf uniq by blast
qed

section \<open>Interleaved calls\<close>

text \<open>A run of the engine: its state; the signed payment of a \<^verbatim>\<open>PreviewSend\<close> that holds the wallet lock between its two
  sections on the pending table; the \<^verbatim>\<open>ConfirmSend\<close> calls that wait for the gateway; and, for the statements only, the
  identifiers drawn so far and those of the payments the gateway has taken.\<close>

record mobile =
  mb_engine :: Engine
  mb_prepared :: "Tx option"
  mb_calls :: "(string \<times> Tx) list"
  mb_used :: "string set"
  mb_sent :: "string list"

text \<open>The lock is free while no payment is between its sections. Identifiers are 32 random bytes; a run in which one is drawn
  again is left out.\<close>

inductive mobile_step :: "crypto \<Rightarrow> mobile \<Rightarrow> mobile \<Rightarrow> bool" for K where
  mobile_open: "mb_prepared s = None \<Longrightarrow> mobile_step K s (s\<lparr>mb_engine := replaceUnlocked keys (mb_engine s)\<rparr>)"
| mobile_lock: "mb_prepared s = None \<Longrightarrow> mobile_step K s (s\<lparr>mb_engine := Lock (mb_engine s)\<rparr>)"
| mobile_prepare: "mb_prepared s = None \<Longrightarrow> preview_prepare K now view dest request (mb_engine s) = (e, r) \<Longrightarrow>
    mobile_step K s (s\<lparr>mb_engine := e, mb_prepared := (case r of Inl _ \<Rightarrow> None | Inr p \<Rightarrow> Some (pp_Tx (snd p)))\<rparr>)"
| mobile_store: "mb_prepared s = Some tx \<Longrightarrow> storePending created now random tx (mb_engine s) = (e, r) \<Longrightarrow>
    \<forall>b. random = Some b \<longrightarrow> hex_EncodeToString b \<notin> mb_used s \<Longrightarrow>
    mobile_step K s (s\<lparr>mb_engine := e, mb_prepared := None, mb_used := mb_used s \<union> hex_EncodeToString ` set_option random\<rparr>)"
| mobile_confirm: "confirm_begin now i (mb_engine s) = (e, r) \<Longrightarrow>
    mobile_step K s (s\<lparr>mb_engine := e, mb_calls := (case r of Inl _ \<Rightarrow> mb_calls s | Inr tx \<Rightarrow> (i, tx) # mb_calls s)\<rparr>)"
| mobile_settle: "(i, tx) \<in> set (mb_calls s) \<Longrightarrow> confirm_end K i tx reply (mb_engine s) = (e, r) \<Longrightarrow>
    mobile_step K s (s\<lparr>mb_engine := e, mb_calls := remove1 (i, tx) (mb_calls s),
      mb_sent := (case r of Inl _ \<Rightarrow> mb_sent s | Inr _ \<Rightarrow> i # mb_sent s)\<rparr>)"
| mobile_cancel: "CancelSend i (mb_engine s) = (e, r) \<Longrightarrow> mobile_step K s (s\<lparr>mb_engine := e\<rparr>)"

definition mobile_init :: "mobile \<Rightarrow> bool" where
  "mobile_init s \<longleftrightarrow> (\<exists>network e. newEngine network = Inr e \<and>
     s = \<lparr>mb_engine = e, mb_prepared = None, mb_calls = [], mb_used = {}, mb_sent = []\<rparr>)"

abbreviation inputs :: "Tx \<Rightarrow> OutPoint set" where
  "inputs tx \<equiv> in_Prev ` set (tx_Ins tx)"

definition pending_ok :: "(string \<times> pendingPayment) list \<Rightarrow> bool" where
  "pending_ok pending \<longleftrightarrow> length pending \<le> maximumPending \<and> distinct (map fst pending) \<and>
     (\<forall>i p j q. (i, p) \<in> set pending \<longrightarrow> (j, q) \<in> set pending \<longrightarrow> i \<noteq> j \<longrightarrow> inputs (pd_transaction p) \<inter> inputs (pd_transaction q) = {})"

definition mobile_ok :: "(string \<times> pendingPayment) list \<Rightarrow> Tx option \<Rightarrow> (string \<times> Tx) list \<Rightarrow> string set \<Rightarrow> string list \<Rightarrow> bool" where
  "mobile_ok pending prepared calls used sent \<longleftrightarrow>
     pending_ok pending \<and> (\<forall>tx. prepared = Some tx \<longrightarrow> inputs tx \<inter> pending_inputs pending = {}) \<and>
     fst ` set pending \<subseteq> used \<and> fst ` set calls \<subseteq> used \<and> set sent \<subseteq> used \<and> distinct (map fst calls) \<and> distinct sent \<and>
     fst ` set calls \<inter> set sent = {} \<and> fst ` set pending \<inter> set sent = {} \<and>
     (\<forall>i tx p. (i, tx) \<in> set calls \<longrightarrow> (i, p) \<in> set pending \<longrightarrow> pd_inFlight p \<and> pd_transaction p = tx)"

definition mobile_inv :: "mobile \<Rightarrow> bool" where
  "mobile_inv s = mobile_ok (en_pending (mb_engine s)) (mb_prepared s) (mb_calls s) (mb_used s) (mb_sent s)"

text \<open>A table that only lost entries or changed flags.\<close>

definition shrunk :: "(string \<times> pendingPayment) list \<Rightarrow> (string \<times> pendingPayment) list \<Rightarrow> bool" where
  "shrunk old new \<longleftrightarrow> length new \<le> length old \<and> (distinct (map fst old) \<longrightarrow> distinct (map fst new)) \<and>
     (\<forall>i p. (i, p) \<in> set new \<longrightarrow> (\<exists>q. (i, q) \<in> set old \<and> pd_transaction q = pd_transaction p))"

definition flight :: "string \<Rightarrow> bool \<Rightarrow> (string \<times> pendingPayment) list \<Rightarrow> (string \<times> pendingPayment) list" where
  "flight k b pending = map (\<lambda>(i, p). if i = k then (i, p\<lparr>pd_inFlight := b\<rparr>) else (i, p)) pending"

lemma flight_member: "(i, p) \<in> set (flight k b pending) \<longleftrightarrow> (if i = k then (\<exists>q. (i, q) \<in> set pending \<and> p = q\<lparr>pd_inFlight := b\<rparr>) else (i, p) \<in> set pending)"
  by (induction pending) (auto simp: flight_def split: if_splits)

lemma flight_keys: "map fst (flight k b pending) = map fst pending"
  by (auto simp: flight_def)

lemma shrunk_filter: "shrunk old (filter P old)"
  by (auto simp: shrunk_def distinct_map_filter)

lemma shrunk_flight: "shrunk old (flight k b old)"
  unfolding shrunk_def flight_keys flight_member by (auto simp: flight_def)

lemma shrunk_ok:
  assumes "shrunk old new"
  shows "pending_ok old \<Longrightarrow> pending_ok new" and "pending_inputs new \<subseteq> pending_inputs old" and "fst ` set new \<subseteq> fst ` set old"
proof -
  have src: "(i, p) \<in> set new \<Longrightarrow> \<exists>q. (i, q) \<in> set old \<and> pd_transaction q = pd_transaction p" for i p using assms by (auto simp: shrunk_def)
  show "fst ` set new \<subseteq> fst ` set old" using src by force
  show "pending_inputs new \<subseteq> pending_inputs old"
  proof
    fix op
    assume "op \<in> pending_inputs new"
    then obtain i p where "(i, p) \<in> set new" "op \<in> inputs (pd_transaction p)" by (auto simp: pending_inputs_def)
    moreover from this obtain q where "(i, q) \<in> set old" "pd_transaction q = pd_transaction p" using src by blast
    ultimately show "op \<in> pending_inputs old" unfolding pending_inputs_def by (intro UN_I [of "(i, q)"]) auto
  qed
  show "pending_ok new" if ok: "pending_ok old"
  proof -
    have "inputs (pd_transaction p) \<inter> inputs (pd_transaction q) = {}" if p: "(i, p) \<in> set new" and q: "(j, q) \<in> set new" and n: "i \<noteq> j" for i p j q
    proof -
      obtain p' where p': "(i, p') \<in> set old" "pd_transaction p' = pd_transaction p" using src [OF p] by blast
      obtain q' where q': "(j, q') \<in> set old" "pd_transaction q' = pd_transaction q" using src [OF q] by blast
      have "inputs (pd_transaction p') \<inter> inputs (pd_transaction q') = {}" using ok p'(1) q'(1) n unfolding pending_ok_def by metis
      then show ?thesis using p'(2) q'(2) by simp
    qed
    moreover have "length new \<le> maximumPending" "distinct (map fst new)" using ok assms by (auto simp: pending_ok_def shrunk_def)
    ultimately show ?thesis unfolding pending_ok_def by blast
  qed
qed

lemma prepared_avoids:
  assumes "PrepareFromRemoteSnapshot K network keys remote toAddr amount fee ex = Inr (s, prepared)"
  shows "inputs (pp_Tx prepared) \<inter> ex = {}"
proof -
  obtain ks pkh where am: "0 < amount" "0 \<le> fee" "amount + fee \<le> MaxMoneyUnits"
    and snap: "snapshotFromRemoteWithKeys K network remote ks = Inr s" and build: "buildPaymentFromSnapshot K ks s pkh amount fee ex = Inr prepared"
    using assms by (auto simp: PrepareFromRemoteSnapshot_def bindE_Inr_iff validatePaymentValues_iff)
  have ok: "snapshot_ok K ks s" using snapshotFromRemote_sound [OF snap] by blast
  obtain chosen where ch: "coin_choice ex s (amount + fee) chosen"
    and sg: "Sign K (signing_keys ks chosen) (payment_tx K ks pkh amount fee chosen) = Inr (pp_Tx prepared)"
    using buildPayment_facts [OF ok am build] by metis
  have "pcd_op d \<notin> ex" if "d \<in> set chosen" for d using ch that by (auto simp: coin_choice_def)
  then show ?thesis unfolding signed_inputs(1) [OF sg] by auto
qed

lemma mobile_ok_flags:
  "mobile_ok pending prepared calls used sent \<Longrightarrow> (i, tx) \<in> set calls \<Longrightarrow> (i, p) \<in> set pending \<Longrightarrow> pd_inFlight p \<and> pd_transaction p = tx"
  unfolding mobile_ok_def by metis

text \<open>Steps that shrink the table and touch no flag of a call keep the invariant.\<close>

lemma mobile_ok_shrunk:
  assumes "mobile_ok old prepared calls used sent" and "shrunk old new"
    and "\<And>i p. (i, p) \<in> set new \<Longrightarrow> i \<in> fst ` set calls \<Longrightarrow> (i, p) \<in> set old"
  shows "mobile_ok new prepared calls used sent"
proof -
  note S = shrunk_ok [OF assms(2)]
  have flags: "pd_inFlight p \<and> pd_transaction p = tx" if a: "(i, tx) \<in> set calls" and p: "(i, p) \<in> set new" for i tx p
  proof -
    have "(i, p) \<in> set old" using assms(3) [OF p] imageI [OF a, of fst] by simp
    then show ?thesis using assms(1) a unfolding mobile_ok_def by metis
  qed
  have I: "pending_ok old" "\<forall>tx. prepared = Some tx \<longrightarrow> inputs tx \<inter> pending_inputs old = {}" "fst ` set old \<subseteq> used" "fst ` set old \<inter> set sent = {}"
    using assms(1) unfolding mobile_ok_def by simp_all
  have "pending_ok new" "\<forall>tx. prepared = Some tx \<longrightarrow> inputs tx \<inter> pending_inputs new = {}" "fst ` set new \<subseteq> used" "fst ` set new \<inter> set sent = {}"
    using S I by blast+
  then show ?thesis using assms(1) flags unfolding mobile_ok_def by simp
qed

lemma mobile_ok_filter: "mobile_ok pending prepared calls used sent \<Longrightarrow> mobile_ok (filter P pending) prepared calls used sent"
  by (erule mobile_ok_shrunk) (auto simp: shrunk_filter)

lemma mobile_ok_prepared:
  "mobile_ok pending prepared calls used sent \<Longrightarrow> \<forall>tx. r = Some tx \<longrightarrow> inputs tx \<inter> pending_inputs pending = {} \<Longrightarrow> mobile_ok pending r calls used sent"
  by (simp add: mobile_ok_def)

text \<open>A new entry under an unused identifier.\<close>

lemma mobile_ok_store:
  assumes "mobile_ok pending (Some tx) calls used sent" and "length pending < maximumPending" and "i \<notin> used"
  shows "mobile_ok (pending @ [(i, \<lparr>pd_transaction = tx, pd_expiresAt = x, pd_inFlight = False\<rparr>)]) None calls (insert i used) sent"
proof -
  have I: "pending_ok pending" "inputs tx \<inter> pending_inputs pending = {}" "fst ` set pending \<subseteq> used" "fst ` set calls \<subseteq> used" "set sent \<subseteq> used"
    using assms(1) by (simp_all add: mobile_ok_def)
  have new: "i \<notin> fst ` set pending" "i \<notin> fst ` set calls" "i \<notin> set sent" using I assms(3) by blast+
  have other: "inputs tx \<inter> inputs (pd_transaction q) = {}" if q: "(j, q) \<in> set pending" for j q
  proof -
    have "inputs (pd_transaction q) \<subseteq> pending_inputs pending" using q by (force simp: pending_inputs_def)
    then show ?thesis using I(2) by blast
  qed
  let ?new = "pending @ [(i, \<lparr>pd_transaction = tx, pd_expiresAt = x, pd_inFlight = False\<rparr>)]"
  have ok: "pending_ok ?new"
    unfolding pending_ok_def
  proof (intro conjI allI impI)
    show "length ?new \<le> maximumPending" "distinct (map fst ?new)" using assms(2) I(1) new(1) by (auto simp: pending_ok_def)
    fix j p k q
    assume a: "(j, p) \<in> set ?new" "(k, q) \<in> set ?new" "j \<noteq> k"
    then consider "(j, p) \<in> set pending" "(k, q) \<in> set pending" | "(j, p) \<in> set pending" "pd_transaction q = tx" |
      "(k, q) \<in> set pending" "pd_transaction p = tx" by auto
    then show "inputs (pd_transaction p) \<inter> inputs (pd_transaction q) = {}"
      using I(1) other a(3) by cases (simp_all add: pending_ok_def Int_commute)
  qed
  have flags: "pd_inFlight p \<and> pd_transaction p = t" if c: "(j, t) \<in> set calls" and p: "(j, p) \<in> set ?new" for j t p
  proof -
    have "j \<in> fst ` set calls" using imageI [OF c, of fst] by simp
    then have "(j, p) \<in> set pending" using p new(2) by auto
    then show ?thesis using assms(1) c unfolding mobile_ok_def by metis
  qed
  have keys: "fst ` set ?new \<subseteq> insert i used" "fst ` set calls \<subseteq> insert i used" "set sent \<subseteq> insert i used" using I(3-5) by auto
  have rest: "distinct (map fst calls)" "distinct sent" "fst ` set calls \<inter> set sent = {}" "fst ` set pending \<inter> set sent = {}"
    using assms(1) by (simp_all add: mobile_ok_def)
  have "fst ` set ?new \<inter> set sent = {}" using rest(4) new(3) by simp
  then show ?thesis unfolding mobile_ok_def using ok keys rest(1-3) flags by (metis option.distinct(1))
qed

text \<open>A confirmed entry is flagged and gets a call; a finished call frees the flag or removes the entry.\<close>

lemma mobile_ok_confirm:
  assumes "mobile_ok pending prepared calls used sent" and "(i, p) \<in> set pending" and "\<not> pd_inFlight p"
  shows "mobile_ok (flight i True pending) prepared ((i, pd_transaction p) # calls) used sent"
proof -
  have dist: "distinct (map fst pending)" using assms(1) by (simp add: mobile_ok_def pending_ok_def)
  have "i \<in> fst ` set pending" using imageI [OF assms(2), of fst] by simp
  moreover have free: "i \<notin> fst ` set calls"
  proof
    assume "i \<in> fst ` set calls"
    then obtain tx where "(i, tx) \<in> set calls" by auto
    then show False using assms unfolding mobile_ok_def by metis
  qed
  moreover have "fst ` set pending \<subseteq> used" "fst ` set pending \<inter> set sent = {}" using assms(1) by (simp_all add: mobile_ok_def)
  ultimately have m: "i \<in> used" "i \<notin> set sent" by blast+
  have old: "mobile_ok (flight i True pending) prepared calls used sent"
  proof (rule mobile_ok_shrunk [OF assms(1) shrunk_flight])
    fix j q
    assume "(j, q) \<in> set (flight i True pending)" "j \<in> fst ` set calls"
    then show "(j, q) \<in> set pending" using free by (auto simp: flight_member split: if_splits)
  qed
  have "pd_inFlight q \<and> pd_transaction q = tx" if c: "(j, tx) \<in> set ((i, pd_transaction p) # calls)" and q: "(j, q) \<in> set (flight i True pending)" for j tx q
  proof (cases "j = i")
    case True
    then have tx: "tx = pd_transaction p" using c free by force
    obtain q' where "(i, q') \<in> set pending" "q = q'\<lparr>pd_inFlight := True\<rparr>" using q True by (auto simp: flight_member)
    moreover from this have "q' = p" using eq_key_imp_eq_value [OF dist] assms(2) by blast
    ultimately show ?thesis using tx by simp
  next
    case False
    then have "(j, tx) \<in> set calls" using c by simp
    then show ?thesis using old q unfolding mobile_ok_def by metis
  qed
  then have flags: "\<forall>j tx q. (j, tx) \<in> set ((i, pd_transaction p) # calls) \<longrightarrow> (j, q) \<in> set (flight i True pending) \<longrightarrow> pd_inFlight q \<and> pd_transaction q = tx"
    by blast
  have "fst ` set calls \<subseteq> used" "distinct (map fst calls)" "fst ` set calls \<inter> set sent = {}" using old by (simp_all add: mobile_ok_def)
  then have "fst ` set ((i, pd_transaction p) # calls) \<subseteq> used" "distinct (map fst ((i, pd_transaction p) # calls))"
    "fst ` set ((i, pd_transaction p) # calls) \<inter> set sent = {}"
    using free m by simp_all
  then show ?thesis using old flags unfolding mobile_ok_def by (elim conjE) (intro conjI; assumption)
qed

lemma mobile_ok_calls:
  assumes "mobile_ok pending prepared calls used sent" and "(i, tx) \<in> set calls"
  shows "mobile_ok pending prepared (remove1 (i, tx) calls) used sent" and "i \<notin> fst ` set (remove1 (i, tx) calls)"
proof -
  have d: "distinct (map fst calls)" using assms(1) by (simp add: mobile_ok_def)
  then have dc: "distinct calls" "inj_on fst (set calls)" by (simp_all add: distinct_map)
  have rem: "set (remove1 (i, tx) calls) = set calls - {(i, tx)}" using dc(1) by (rule set_remove1_eq)
  show "i \<notin> fst ` set (remove1 (i, tx) calls)"
  proof
    assume "i \<in> fst ` set (remove1 (i, tx) calls)"
    then obtain x where "x \<in> set calls - {(i, tx)}" "fst x = i" unfolding rem by blast
    then show False using inj_onD [OF dc(2), of x "(i, tx)"] assms(2) by auto
  qed
  have sub: "set (remove1 (i, tx) calls) \<subseteq> set calls" by (rule set_remove1_subset)
  have "distinct (map fst (remove1 (i, tx) calls))"
    using dc inj_on_subset [OF dc(2) sub] by (simp add: distinct_map distinct_remove1)
  moreover have I: "fst ` set calls \<subseteq> used" "fst ` set calls \<inter> set sent = {}" using assms(1) by (simp_all add: mobile_ok_def)
  have im: "fst ` set (remove1 (i, tx) calls) \<subseteq> fst ` set calls" by (rule image_mono [OF sub])
  have "fst ` set (remove1 (i, tx) calls) \<subseteq> used" by (rule subset_trans [OF im I(1)])
  moreover have "fst ` set (remove1 (i, tx) calls) \<inter> set sent = {}" using Int_mono [OF im subset_refl [of "set sent"]] unfolding I(2) by (rule subset_empty [THEN iffD1])
  moreover have "pd_inFlight p \<and> pd_transaction p = t" if c: "(j, t) \<in> set (remove1 (i, tx) calls)" and p: "(j, p) \<in> set pending" for j t p
    by (rule mobile_ok_flags [OF assms(1) subsetD [OF sub c] p])
  ultimately show "mobile_ok pending prepared (remove1 (i, tx) calls) used sent"
    using assms(1) unfolding mobile_ok_def by simp
qed

lemma mobile_ok_failed:
  assumes "mobile_ok pending prepared calls used sent" and "(i, tx) \<in> set calls"
  shows "mobile_ok (flight i False pending) prepared (remove1 (i, tx) calls) used sent"
proof (rule mobile_ok_shrunk [OF mobile_ok_calls(1) [OF assms] shrunk_flight])
  fix j q
  assume "(j, q) \<in> set (flight i False pending)" "j \<in> fst ` set (remove1 (i, tx) calls)"
  then show "(j, q) \<in> set pending" using mobile_ok_calls(2) [OF assms] by (auto simp: flight_member split: if_splits)
qed

lemma mobile_ok_sent:
  assumes "mobile_ok pending prepared calls used sent" and "(i, tx) \<in> set calls"
  shows "mobile_ok (filter (\<lambda>(j, _). j \<noteq> i) pending) prepared (remove1 (i, tx) calls) used (i # sent)"
proof -
  have "i \<in> fst ` set calls" using imageI [OF assms(2), of fst] by simp
  moreover have "fst ` set calls \<subseteq> used" "fst ` set calls \<inter> set sent = {}" using assms(1) by (simp_all add: mobile_ok_def)
  ultimately have i: "i \<in> used" "i \<notin> set sent" by blast+
  note C = mobile_ok_calls [OF assms]
  have "mobile_ok (filter (\<lambda>(j, _). j \<noteq> i) pending) prepared (remove1 (i, tx) calls) used sent" by (rule mobile_ok_filter [OF C(1)])
  moreover have "i \<notin> fst ` set (filter (\<lambda>(j, _). j \<noteq> i) pending)" by auto
  ultimately show ?thesis using i C(2) unfolding mobile_ok_def by simp
qed

lemma set_flight_pending: "en_pending (set_flight i b e) = flight i b (en_pending e)"
  by (simp add: set_flight_def flight_def)

lemma mobile_inv_init: "mobile_init s \<Longrightarrow> mobile_inv s"
  by (auto simp: mobile_init_def mobile_inv_def mobile_ok_def pending_ok_def newEngine_def failIf_Inr_iff pending_inputs_def)

lemma preview_prepare_inv:
  assumes "preview_prepare K now view dest request e = (e', r)"
  shows "\<exists>P. en_pending e' = filter P (en_pending e)" and "r = Inr p \<Longrightarrow> inputs (pp_Tx (snd p)) \<inter> pending_inputs (en_pending e') = {}"
proof -
  obtain amount fee as gen where q: "request = (amount, fee, as, gen)" by (cases request)
  have "e' = e \<and> (\<forall>p. r \<noteq> Inr p) \<or> (\<exists>unlocked remote. e' = prunePendingLocked now e \<and>
      (\<forall>p. r = Inr p \<longrightarrow> PrepareFromRemoteSnapshot K (en_network e) unlocked remote dest amount fee (pending_inputs (en_pending e')) = Inr p))"
    using assms unfolding q preview_prepare_def
    by (auto simp: pendingRestrictions_def Let_def split: sum.splits option.splits if_splits)
  then consider "e' = e" "\<forall>p. r \<noteq> Inr p" | unlocked remote where "e' = prunePendingLocked now e"
      "\<forall>p. r = Inr p \<longrightarrow> PrepareFromRemoteSnapshot K (en_network e) unlocked remote dest amount fee (pending_inputs (en_pending e')) = Inr p" by blast
  then have "(\<exists>P. en_pending e' = filter P (en_pending e)) \<and> (r = Inr p \<longrightarrow> inputs (pp_Tx (snd p)) \<inter> pending_inputs (en_pending e') = {})"
  proof cases
    case 1
    then have "r \<noteq> Inr p" by blast
    then show ?thesis using 1(1) by (auto intro: exI [of _ "\<lambda>_. True"])
  next
    case 2
    have "inputs (pp_Tx (snd p)) \<inter> pending_inputs (en_pending e') = {}" if r: "r = Inr p"
      using prepared_avoids [of K "en_network e" unlocked remote dest amount fee _ "fst p" "snd p"] 2(2) r by simp
    then show ?thesis using 2(1) by (auto simp: prunePendingLocked_def)
  qed
  then show "\<exists>P. en_pending e' = filter P (en_pending e)" "r = Inr p \<Longrightarrow> inputs (pp_Tx (snd p)) \<inter> pending_inputs (en_pending e') = {}" by blast+
qed

lemma storePending_cases:
  assumes "storePending created now random tx e = (e', r)"
  obtains P where "en_pending e' = filter P (en_pending e)"
  | P b x where "random = Some b" and "length (filter P (en_pending e)) < maximumPending"
      and "en_pending e' = filter P (en_pending e) @ [(hex_EncodeToString b, \<lparr>pd_transaction = tx, pd_expiresAt = x, pd_inFlight = False\<rparr>)]"
proof (cases random)
  case None
  then have "e' = e" using assms by (simp add: storePending_def)
  then show thesis using that(1) [of "\<lambda>_. True"] by simp
next
  case (Some b)
  let ?e = "prunePendingLocked now e"
  have prune: "en_pending ?e = filter (\<lambda>(_, p). pd_expiresAt p > now) (en_pending e)" by (simp add: prunePendingLocked_def)
  consider "e' = ?e" | "length (en_pending ?e) < maximumPending"
      "e' = ?e\<lparr>en_pending := en_pending ?e @ [(hex_EncodeToString b, \<lparr>pd_transaction = tx, pd_expiresAt = created + pendingLifetime, pd_inFlight = False\<rparr>)]\<rparr>"
    using assms Some by (auto simp: storePending_def Let_def split: if_splits)
  then show thesis
  proof cases
    case 1
    then show thesis using that(1) prune by simp
  next
    case 2
    then show thesis using that(2) [OF Some] prune by simp
  qed
qed

lemma mobile_ok_used: "mobile_ok pending prepared calls used sent \<Longrightarrow> used \<subseteq> more_used \<Longrightarrow> mobile_ok pending prepared calls more_used sent"
  unfolding mobile_ok_def by (elim conjE, intro conjI) (assumption | erule (1) subset_trans)+

lemma store_ok:
  assumes "mobile_ok (en_pending e) (Some tx) calls used sent" and "storePending created now random tx e = (e', r)"
    and "\<forall>b. random = Some b \<longrightarrow> hex_EncodeToString b \<notin> used"
  shows "mobile_ok (en_pending e') None calls (used \<union> hex_EncodeToString ` set_option random) sent"
  using assms(2)
proof (cases rule: storePending_cases)
  case (1 P)
  have "mobile_ok (en_pending e') (Some tx) calls used sent" unfolding 1 by (rule mobile_ok_filter [OF assms(1)])
  then have "mobile_ok (en_pending e') None calls used sent" by (rule mobile_ok_prepared) simp
  then show ?thesis by (rule mobile_ok_used) blast
next
  case (2 P b x)
  have "mobile_ok (filter P (en_pending e)) (Some tx) calls used sent" by (rule mobile_ok_filter [OF assms(1)])
  moreover have "hex_EncodeToString b \<notin> used" using assms(3) 2(1) by blast
  ultimately have "mobile_ok (en_pending e') None calls (insert (hex_EncodeToString b) used) sent" unfolding 2(3) by (rule mobile_ok_store [OF _ 2(2)])
  then show ?thesis unfolding 2(1) by simp
qed

lemma confirm_begin_ok:
  assumes "mobile_ok (en_pending e) prepared calls used sent" and "confirm_begin now i e = (e', r)"
  shows "mobile_ok (en_pending e') prepared (case r of Inl _ \<Rightarrow> calls | Inr tx \<Rightarrow> (i, tx) # calls) used sent"
proof -
  consider "e' = e" "\<exists>err. r = Inl err" | "e' = delete_pending i e" "\<exists>err. r = Inl err"
    | p where "map_of (en_pending e) i = Some p" "\<not> pd_inFlight p" "e' = set_flight i True e" "r = Inr (pd_transaction p)"
  proof (cases "map_of (en_pending e) i")
    case None
    then have "e' = e" "\<exists>err. r = Inl err" using assms(2) by (auto simp: confirm_begin_def split: if_splits)
    then show thesis by (rule that(1))
  next
    case (Some p)
    then have "e' = e \<and> (\<exists>err. r = Inl err) \<or> e' = delete_pending i e \<and> (\<exists>err. r = Inl err) \<or>
        \<not> pd_inFlight p \<and> e' = set_flight i True e \<and> r = Inr (pd_transaction p)"
      using assms(2) by (auto simp: confirm_begin_def split: if_splits)
    then show thesis using that(1,2) that(3) [OF Some] by blast
  qed
  then show ?thesis
  proof cases
    case 1
    then show ?thesis using assms(1) by auto
  next
    case 2
    then show ?thesis using mobile_ok_filter [OF assms(1)] by (auto simp: delete_pending_def)
  next
    case 3
    then show ?thesis using mobile_ok_confirm [OF assms(1) map_of_SomeD] by (simp add: set_flight_pending)
  qed
qed

lemma confirm_end_ok:
  assumes "mobile_ok (en_pending e) prepared calls used sent" and "(i, tx) \<in> set calls" and "confirm_end K i tx reply e = (e', r)"
  shows "mobile_ok (en_pending e') prepared (remove1 (i, tx) calls) used (case r of Inl _ \<Rightarrow> sent | Inr _ \<Rightarrow> i # sent)"
proof -
  consider "e' = set_flight i False e" "\<exists>err. r = Inl err" | "e' = delete_pending i e" "\<exists>v. r = Inr v"
    using assms(3) by (auto simp: confirm_end_def Let_def submitted_def split: if_splits sum.splits)
  then show ?thesis
  proof cases
    case 1
    then show ?thesis using mobile_ok_failed [OF assms(1,2)] by (auto simp: set_flight_pending)
  next
    case 2
    then show ?thesis using mobile_ok_sent [OF assms(1,2)] by (auto simp: delete_pending_def)
  qed
qed

lemma cancel_pending:
  assumes "CancelSend i e = (e', r)"
  obtains P where "en_pending e' = filter P (en_pending e)"
proof -
  have "e' = e \<or> e' = delete_pending i e" using assms by (auto simp: CancelSend_def split: if_splits option.splits)
  then show thesis using that [of "\<lambda>_. True"] that [of "\<lambda>(j, _). j \<noteq> i"] by (auto simp: delete_pending_def)
qed

lemma mobile_ok_empty: "mobile_ok pending prepared calls used sent \<Longrightarrow> mobile_ok [] prepared calls used sent"
  using mobile_ok_filter [of pending prepared calls used sent "\<lambda>_. False"] by simp

lemma mobile_inv_step:
  assumes "mobile_step K s t" and "mobile_inv s"
  shows "mobile_inv t"
  using assms
proof (induction rule: mobile_step.induct)
  case (mobile_open s keys)
  then show ?case using mobile_ok_empty by (auto simp: mobile_inv_def replaceUnlocked_def)
next
  case (mobile_lock s)
  then show ?case using mobile_ok_empty by (auto simp: mobile_inv_def Lock_def)
next
  case (mobile_prepare s now view dest request e r)
  obtain P where P: "en_pending e = filter P (en_pending (mb_engine s))" using preview_prepare_inv(1) [OF mobile_prepare(2)] by blast
  have "mobile_ok (en_pending e) (mb_prepared s) (mb_calls s) (mb_used s) (mb_sent s)"
    unfolding P by (rule mobile_ok_filter) (use mobile_prepare(3) in \<open>simp add: mobile_inv_def\<close>)
  then have "mobile_ok (en_pending e) (case r of Inl _ \<Rightarrow> None | Inr p \<Rightarrow> Some (pp_Tx (snd p))) (mb_calls s) (mb_used s) (mb_sent s)"
    by (rule mobile_ok_prepared) (use preview_prepare_inv(2) [OF mobile_prepare(2)] in \<open>auto split: sum.splits\<close>)
  then show ?case by (simp add: mobile_inv_def)
next
  case (mobile_store s tx created now random e r)
  then show ?case using store_ok [OF _ mobile_store(2,3)] by (simp add: mobile_inv_def)
next
  case (mobile_confirm now i s e r)
  then show ?case using confirm_begin_ok [OF _ mobile_confirm(1)] by (simp add: mobile_inv_def)
next
  case (mobile_settle i tx s reply e r)
  then show ?case using confirm_end_ok [OF _ mobile_settle(1,2)] by (simp add: mobile_inv_def)
next
  case (mobile_cancel i s e r)
  obtain P where "en_pending e = filter P (en_pending (mb_engine s))" using cancel_pending [OF mobile_cancel(1)] .
  then show ?case using mobile_cancel(2) mobile_ok_filter by (simp add: mobile_inv_def)
qed

interpretation mobile_machine: state_machine mobile_init "mobile_step K" mobile_inv for K
  by unfold_locales (auto intro: mobile_inv_init mobile_inv_step)

end
