(* ===== verification/MobilePayment.thy ===== *)
theory MobilePayment
  imports MobileTheorems
begin

text \<open>
  A payment from the phone to the network: the engine of \<^verbatim>\<open>mobilewallet\<close>, the client and the gateway of
  \<^verbatim>\<open>lightwallet\<close> and the chain of \<^verbatim>\<open>core\<close>, joined by a transport that delivers what each side writes.
\<close>

section \<open>What the phone sees is on the chain\<close>

definition entry_outpoint :: "SpendableOutputSnapshot \<Rightarrow> address list \<Rightarrow> RemoteSnapshotOutpoint" where
  "entry_outpoint o' addresses = \<lparr>ro_TxID = op_TxID (so_OutPoint o'), ro_Vout = op_Idx (so_OutPoint o'), ro_AmountUnits = so_AmountUnits o',
     ro_Address = addresses ! unat (so_OwnerIndex o')\<rparr>"

lemma remote_outpoints: "mapE remote_outpoint (map (gateway_entry addresses) os) = Inr (map (\<lambda>o'. entry_outpoint o' addresses) os)"
  by (induction os) (simp_all add: remote_outpoint_def gateway_entry_def entry_outpoint_def failIf_def)

lemma remoteSnapshot_reply:
  "remoteSnapshot (view_reply g addresses v) =
     Inr \<lparr>rs_Network = gw_network g, rs_Tip = \<lparr>ts_Network = gw_network g, ts_Hash = ts_Hash (wv_Tip v), ts_Height = ts_Height (wv_Tip v)\<rparr>,
       rs_Addresses = addresses, rs_Outpoints = map (\<lambda>o'. entry_outpoint o' addresses) (wv_SpendableOutputs v), rs_SpendableUnits = wv_SpendableUnits v\<rparr>"
  by (simp add: remoteSnapshot_def view_reply_def gateway_tip_def remote_outpoints failIf_def)

lemma remote_available:
  assumes "serving K stored g addresses pkhs limit v" and "remoteSnapshot (view_reply g addresses v) = Inr remote"
    and "snapshotFromRemoteWithKeys K network remote keys = Inr s" and "o' \<in> set (sn_Outpoints s)"
  shows "\<exists>e. available (gw_chain g) (sp_OutpointRef o') e \<and> sp_AmountUnits o' = ue_Value e \<and> sp_OwnerPKH o' = ue_PKH e"
proof -
  have ok: "remote_of s = remote" "snapshot_ok K keys s" using snapshotFromRemote_sound [OF assms(3)] by blast+
  have "rs_Outpoints remote = map (\<lambda>o'. entry_outpoint o' addresses) (wv_SpendableOutputs v)" using assms(2) by (auto simp: remoteSnapshot_reply)
  then have "map remote_entry (sn_Outpoints s) = map (\<lambda>o'. entry_outpoint o' addresses) (wv_SpendableOutputs v)"
    using ok(1) by (auto simp: remote_of_def)
  then have "remote_entry o' \<in> set (map (\<lambda>o'. entry_outpoint o' addresses) (wv_SpendableOutputs v))" using assms(4) by (metis image_eqI list.set_map)
  then obtain so where so: "so \<in> set (wv_SpendableOutputs v)" "remote_entry o' = entry_outpoint so addresses" by auto
  have addr: "addresses = map (EncodeAddress K) pkhs" using assms(1) by (simp add: serving_def canonicalPKHs_iff)
  have idx: "unat (so_OwnerIndex so) < length pkhs" "so_OwnerPKH so = pkhs ! unat (so_OwnerIndex so)"
    using serving_owned(1) [OF assms(1) so(1)] addr by (auto simp: owned_spendable_def owned_amount_def)
  have own: "owned_by_key K keys o'" "sp_OutpointRef o' = OutPoint (sp_TxID o') (sp_Vout o')" using ok(2) assms(4) by (auto simp: snapshot_ok_def)
  have "EncodeAddress K (sp_OwnerPKH o') = EncodeAddress K (so_OwnerPKH so)"
    using own(1) so(2) idx by (auto simp: owned_by_key_def remote_entry_def entry_outpoint_def addr addressForKey_def pkhForKey_def)
  then have pkh: "sp_OwnerPKH o' = so_OwnerPKH so" by (metis DecodeAddress_EncodeAddress sum.inject(2))
  obtain owners where w: "chain_reach K (ch_params (gw_chain g)) stored (gw_chain g)" "canonical_params (ch_params (gw_chain g))"
    "walletViewForOwnersLocked K (gw_chain g) owners limit = Inr v" using servingD [OF assms(1)] by metis
  have "\<exists>e. available (gw_chain g) (so_OutPoint so) e \<and> so_AmountUnits so = ue_Value e \<and> so_OwnerPKH so = ue_PKH e"
    using view_spendable(3) [OF w] so(1) by blast
  moreover have "sp_OutpointRef o' = so_OutPoint so" "sp_AmountUnits o' = so_AmountUnits so"
    using own(2) so(2) by (simp_all add: remote_entry_def entry_outpoint_def)
  ultimately show ?thesis using pkh by simp
qed

section \<open>What the phone signs survives the wire\<close>

lemma coin_count:
  assumes "coin_choice ex s need chosen" shows "length chosen \<le> length (sn_Outpoints s)"
proof -
  have "pcd_op ` set chosen \<subseteq> sp_OutpointRef ` set (sn_Outpoints s)" using assms by (fastforce simp: coin_choice_def)
  then have "card (set (map pcd_op chosen)) \<le> card (set (sn_Outpoints s))"
    by (metis (no_types) List.finite_set card_image_le card_mono finite_imageI list.set_map order_trans)
  moreover have "card (set (map pcd_op chosen)) = length chosen" using assms distinct_card [of "map pcd_op chosen"] by (simp add: coin_choice_def)
  ultimately show ?thesis using card_length [of "sn_Outpoints s"] by linarith
qed

lemma signed_wf:
  assumes sg: "Sign K (signing_keys keys chosen) (payment_tx K keys pkh amount fee chosen) = Inr tx" and "length chosen \<le> 10000"
    and "\<forall>c\<in>set chosen. length (ed_public K (keys ! pcd_key c)) = 32 \<and> (\<forall>h. length (ed_sign K (keys ! pcd_key c) (hash_bytes h)) = 64)"
    and "good_outs (tx_Outs tx)"
  shows "wf_Tx tx"
proof -
  have "tx_LockTag tx = []" using sg by (auto simp: Sign_def Let_def failIf_Inr_iff payment_tx_def set_pubkeys_def)
  moreover have "length (tx_Outs tx) \<le> 2" unfolding signed_inputs(2) [OF sg] by (simp add: payment_outputs_def)
  moreover have "out_Value o' \<le> outs_total outs" if "\<forall>o'\<in>set outs. 0 < out_Value o'" "o' \<in> set outs" for o' outs
    using that outs_total_nonneg by (induction outs) fastforce+
  then have "list_all wf_TxOut (tx_Outs tx)"
    using assms(4) by (force simp: list_all_iff wf_TxOut_def good_outs_def is_int64_def MaxMoneyUnits_def UnitsPerCoin_def)
  moreover have "list_all wf_TxIn (tx_Ins tx)" using assms(3) unfolding signed_inputs(1) [OF sg] by (auto simp: list_all_iff wf_TxIn_def)
  moreover have "length (tx_Ins tx) \<le> 10000" using assms(2) unfolding signed_inputs(1) [OF sg] by simp
  ultimately show ?thesis by (simp add: wf_Tx_def)
qed

section \<open>The broadcast\<close>

lemma post_broadcast:
  assumes "over_json BroadcastRequestW (js_Marshal J) (js_BroadcastRequest J) MaxRequestBytes request"
    and "handleBroadcast K b g request = (g', Inr r)" and "over_json BroadcastResponseW (js_Encode J) (js_BroadcastResponse J) MaxResponseBytes r"
  shows "post J (connected K J b) c BroadcastPath (BroadcastRequestW request) (js_BroadcastResponse J) g = (g', Inr r)"
proof -
  obtain body where body: "js_Marshal J (BroadcastRequestW request) = Inr body" "length body \<le> MaxRequestBytes"
    "decode_request (js_BroadcastRequest J) body = Inr request" using assms(1) by (rule decode_request_over)
  then show ?thesis
    using receive_reply [OF assms(3), of c g'] assms(2) paths_distinct by (simp add: post_def connected_def ServeHTTP_def)
qed

definition broadcast_request :: "crypto \<Rightarrow> Tx \<Rightarrow> BroadcastRequest" where
  "broadcast_request K tx = \<lparr>bq_TransactionHex = hex_EncodeToString (tx_Bytes tx), bq_ExpectedTxID = hex_EncodeToString (hash_bytes (tx_ID K tx))\<rparr>"

definition broadcast_reply :: "crypto \<Rightarrow> string \<Rightarrow> Tx \<Rightarrow> int \<Rightarrow> BroadcastResponse" where
  "broadcast_reply K network tx writes = \<lparr>br_SchemaVersion = gateway_SchemaVersion, br_Network = network,
     br_TxID = hex_EncodeToString (hash_bytes (tx_ID K tx)), br_Admission = admission_text TxAcceptanceAdded, br_Status = ''submitted'', br_PeerWrites = writes\<rparr>"

lemma tx_Bytes_nonempty: "tx_Bytes tx \<noteq> []"
proof
  assume "tx_Bytes tx = []"
  then have "length (serialize tx False) = 0" by (simp add: tx_Bytes_def)
  then show False by (simp add: serialize_def)
qed

lemma handleBroadcast_added:
  assumes "wf_Tx tx" and "length (tx_Bytes tx) \<le> MaxSignedTransactionBytes" and "\<not> IsCoinbase tx"
    and "AcceptTxWithResult K (gw_chain g) (Some tx) = (c', Inr TxAcceptanceAdded)" and "0 < send tx"
  shows "handleBroadcast K (Some send) g (broadcast_request K tx) = (g\<lparr>gw_chain := c'\<rparr>, Inr (broadcast_reply K (gw_network g) tx (send tx)))"
proof -
  have "length (hex_EncodeToString (tx_Bytes tx)) \<le> MaxSignedTransactionBytes * 2" using assms(2) length_hex_Encode [of "tx_Bytes tx"] by simp
  then show ?thesis
    using decodeCanonicalTransactionHex_Encode [OF tx_Bytes_nonempty assms(2)] DecodeTx_tx_Bytes [OF assms(1)] assms(3-5)
    by (simp add: handleBroadcast_def broadcast_request_def broadcast_reply_def Let_def)
qed

lemma client_Broadcast_added:
  assumes "handleBroadcast K b g (broadcast_request K tx) = (g', Inr (broadcast_reply K (cl_network client) tx writes))" and "0 < writes"
    and "\<not> IsCoinbase tx" and "length (tx_Bytes tx) \<le> MaxSignedTransactionBytes"
    and "over_json BroadcastRequestW (js_Marshal J) (js_BroadcastRequest J) MaxRequestBytes (broadcast_request K tx)"
    and "over_json BroadcastResponseW (js_Encode J) (js_BroadcastResponse J) MaxResponseBytes (broadcast_reply K (cl_network client) tx writes)"
  shows "client_Broadcast K J (connected K J b) client (Some tx) g = (g', Inr (broadcast_reply K (cl_network client) tx writes))"
  using post_broadcast [OF assms(5,1,6), of client] assms(2-4) tx_Bytes_nonempty [of tx]
  by (simp add: client_Broadcast_def broadcast_request_def Let_def failIf_def broadcast_reply_def)

section \<open>The payment\<close>

lemma PreviewSend_Inr:
  assumes "PreviewSend K View now (Some random) dest amountText feeText e g = (e1, g1, Inr preview)"
  obtains amount fee addresses generation view e0 p where
    "preview_begin K dest amountText feeText e = Inr (amount, fee, addresses, generation)" and "View addresses 0 g = (g1, view)"
    and "preview_prepare K now view dest (amount, fee, addresses, generation) e = (e0, Inr p)"
    and "storePending now now (Some random) (pp_Tx (snd p)) e0 = (e1, Inr (hex_EncodeToString random, now + pendingLifetime))"
    and "preview = preview_result K dest (amount, fee, addresses, generation) p (hex_EncodeToString random, now + pendingLifetime)"
proof -
  obtain amount fee addresses generation where b: "preview_begin K dest amountText feeText e = Inr (amount, fee, addresses, generation)"
    using assms by (auto simp: PreviewSend_def split: sum.splits)
  obtain g' view where v: "View addresses 0 g = (g', view)" by (cases "View addresses 0 g")
  obtain e0 r where p: "preview_prepare K now view dest (amount, fee, addresses, generation) e = (e0, r)"
    by (cases "preview_prepare K now view dest (amount, fee, addresses, generation) e")
  show thesis
  proof (cases r)
    case (Inl err)
    then show thesis using assms b v p by (simp add: PreviewSend_def)
  next
    case (Inr q)
    obtain e2 st where st: "storePending now now (Some random) (pp_Tx (snd q)) e0 = (e2, st)" by (cases "storePending now now (Some random) (pp_Tx (snd q)) e0")
    have all: "e2 = e1" "g' = g1" "\<exists>x. st = Inr x \<and> preview = preview_result K dest (amount, fee, addresses, generation) q x"
      using assms b v p Inr st by (auto simp: PreviewSend_def split: sum.splits)
    then obtain x where x: "st = Inr x" "preview = preview_result K dest (amount, fee, addresses, generation) q x" by blast
    have "x = (hex_EncodeToString random, now + pendingLifetime)" using st x(1) by (auto simp: storePending_def Let_def split: if_splits)
    then show thesis using that [OF b, of view e0 q] v p Inr st x all by simp
  qed
qed

lemma storePending_entry:
  assumes "storePending created now (Some random) tx e = (e', Inr stored)"
  shows "map_of (en_pending e') (hex_EncodeToString random) = Some \<lparr>pd_transaction = tx, pd_expiresAt = created + pendingLifetime, pd_inFlight = False\<rparr>"
    and "en_network e' = en_network e"
proof -
  let ?e = "prunePendingLocked now e"
  have r: "hex_EncodeToString random \<notin> fst ` set (en_pending ?e)"
    "e' = ?e\<lparr>en_pending := en_pending ?e @ [(hex_EncodeToString random, \<lparr>pd_transaction = tx, pd_expiresAt = created + pendingLifetime, pd_inFlight = False\<rparr>)]\<rparr>"
    using assms by (auto simp: storePending_def Let_def split: if_splits)
  then have "map_of (en_pending ?e) (hex_EncodeToString random) = None" by (simp add: map_of_eq_None_iff)
  then show "map_of (en_pending e') (hex_EncodeToString random) = Some \<lparr>pd_transaction = tx, pd_expiresAt = created + pendingLifetime, pd_inFlight = False\<rparr>"
    using r(2) by (simp add: map_add_def)
  show "en_network e' = en_network e" using r(2) by (simp add: prunePendingLocked_def)
qed

lemma preview_prepare_Inr:
  assumes "preview_prepare K now (Inr v) dest (amount, fee, addresses, generation) e = (e0, Inr (s, prepared))" and "en_unlocked e = Some keys"
  obtains remote ex where "remoteSnapshot v = Inr remote" and "en_network e0 = en_network e"
    and "PrepareFromRemoteSnapshot K (en_network e) keys remote dest amount fee ex = Inr (s, prepared)"
proof -
  have "\<exists>remote. remoteSnapshot v = Inr remote \<and> e0 = prunePendingLocked now e \<and>
      PrepareFromRemoteSnapshot K (en_network e) keys remote dest amount fee (pending_inputs (en_pending e0)) = Inr (s, prepared)"
    using assms by (auto simp: preview_prepare_def pendingRestrictions_def Let_def split: sum.splits if_splits)
  then show thesis using that by (auto simp: prunePendingLocked_def)
qed

lemma confirm_sent:
  assumes "map_of (en_pending e) i = Some pd" and "valid_pending_id i" and "now < pd_expiresAt pd" and "\<not> pd_inFlight pd"
    and "Broadcast (Some (pd_transaction pd)) g = (g', Inr (broadcast_reply K (en_network e) (pd_transaction pd) writes))" and "0 < writes"
  shows "\<exists>e'. i \<notin> fst ` set (en_pending e') \<and> ConfirmSend K Broadcast now i e g = (e', g',
    Inr \<lparr>sl_SchemaVersion = mobileSchemaVersion, sl_TxID = hex_EncodeToString (hash_bytes (tx_ID K (pd_transaction pd))), sl_Status = ''submitted'', sl_PeerWrites = writes\<rparr>)"
proof -
  have "confirm_begin now i e = (set_flight i True e, Inr (pd_transaction pd))" using assms(1-4) by (simp add: confirm_begin_def)
  moreover have "en_network (set_flight i True e) = en_network e" by (simp add: set_flight_def)
  ultimately have "ConfirmSend K Broadcast now i e g = (delete_pending i (set_flight i True e), g',
    Inr \<lparr>sl_SchemaVersion = mobileSchemaVersion, sl_TxID = hex_EncodeToString (hash_bytes (tx_ID K (pd_transaction pd))), sl_Status = ''submitted'', sl_PeerWrites = writes\<rparr>)"
    using assms(5,6) by (simp add: ConfirmSend_def confirm_end_def submitted_def broadcast_reply_def)
  then show ?thesis by (auto simp: delete_pending_def)
qed

lemma served_payment:
  assumes S: "serving K stored g addresses pkhs limit v" and remote: "remoteSnapshot (view_reply g addresses v) = Inr remote"
    and prep: "PrepareFromRemoteSnapshot K network (Inr keys) remote dest amount fee ex = Inr (s, prepared)"
    and sig: "signs K keys" "\<forall>k\<in>set keys. \<forall>h. length (ed_sign K k (hash_bytes h)) = 64"
    and pool: "ch_utxo (gw_chain g) (OutPoint 0 0xffffffff) = None" "tx_ID K (pp_Tx prepared) \<notin> fst ` set (ch_mempool (gw_chain g))"
  shows "wf_Tx (pp_Tx prepared)" and "length (tx_Bytes (pp_Tx prepared)) \<le> MaxSignedTransactionBytes" and "\<not> IsCoinbase (pp_Tx prepared)"
    and "AcceptTxWithResult K (gw_chain g) (Some (pp_Tx prepared)) =
      ((gw_chain g)\<lparr>ch_mempool := ch_mempool (gw_chain g) @ [(tx_ID K (pp_Tx prepared), pp_Tx prepared)]\<rparr>, Inr TxAcceptanceAdded)"
    and "checkTxLocked K (ch_params (gw_chain g)) (ch_utxo (gw_chain g)) (pp_Tx prepared) (bi_height (ch_tip (gw_chain g)) + 1) = Inr fee"
    and "\<exists>pkh rest. DecodeAddress K dest = Inr pkh \<and> tx_Outs (pp_Tx prepared) = \<lparr>out_Value = amount, out_PubKeyHash = pkh\<rparr> # rest \<and>
      (\<forall>o'\<in>set rest. out_PubKeyHash o' = pkhForKey K (keys ! 0))"
proof -
  obtain pkh where am: "0 < amount" "0 \<le> fee" "amount + fee \<le> MaxMoneyUnits" and dec: "DecodeAddress K dest = Inr pkh"
    and snap: "snapshotFromRemoteWithKeys K network remote keys = Inr s" and build: "buildPaymentFromSnapshot K keys s pkh amount fee ex = Inr prepared"
    using prep by (auto simp: PrepareFromRemoteSnapshot_def bindE_Inr_iff validatePaymentValues_iff failIf_Inr_iff)
  have ok: "snapshot_ok K keys s" and few: "length (sn_Outpoints s) \<le> MaxSnapshotOutpoints" using snapshotFromRemote_sound [OF snap] by blast+
  note V = available_valid_spend [OF refl ok remote_available [OF S remote snap] sig(1) am build]
  obtain chosen where ch: "coin_choice ex s (amount + fee) chosen"
    and sg: "Sign K (signing_keys keys chosen) (payment_tx K keys pkh amount fee chosen) = Inr (pp_Tx prepared)"
    and len: "length (tx_Bytes (pp_Tx prepared)) \<le> MaxSignedTxBytes" using buildPayment_facts [OF ok am build] by metis
  have "keys ! pcd_key d \<in> set keys" if d: "d \<in> set chosen" for d
  proof -
    obtain o' where "o' \<in> set (sn_Outpoints s)" "d = coin_of o'" using ch d by (auto simp: coin_choice_def)
    then show ?thesis using coin_owner [OF ok] by auto
  qed
  moreover have "length chosen \<le> 10000" using coin_count [OF ch] few by (simp add: MaxSnapshotOutpoints_def)
  moreover have good: "good_outs (tx_Outs (pp_Tx prepared))" using V(1) by (simp add: valid_spend_def)
  ultimately show "wf_Tx (pp_Tx prepared)" using sig by (intro signed_wf [OF sg]) (auto simp: signs_def)
  show "length (tx_Bytes (pp_Tx prepared)) \<le> MaxSignedTransactionBytes" using len by (simp add: MaxSignedTxBytes_def MaxSignedTransactionBytes_def)
  show "\<not> IsCoinbase (pp_Tx prepared)"
  proof
    assume "IsCoinbase (pp_Tx prepared)"
    then obtain i where "tx_Ins (pp_Tx prepared) = [i]" "in_Prev i = OutPoint 0 0xffffffff"
      by (auto simp: IsCoinbase_def OutPoint.expand split: list.splits)
    then show False using V(2) pool(1) by auto
  qed
  show "AcceptTxWithResult K (gw_chain g) (Some (pp_Tx prepared)) =
      ((gw_chain g)\<lparr>ch_mempool := ch_mempool (gw_chain g) @ [(tx_ID K (pp_Tx prepared), pp_Tx prepared)]\<rparr>, Inr TxAcceptanceAdded)"
    using submit_added [OF V pool] by (auto simp: SubmitPayment_def split: prod.splits)
  show "checkTxLocked K (ch_params (gw_chain g)) (ch_utxo (gw_chain g)) (pp_Tx prepared) (bi_height (ch_tip (gw_chain g)) + 1) = Inr fee"
    using V(1) by (simp add: checkTxLocked_iff)
  show "\<exists>pkh rest. DecodeAddress K dest = Inr pkh \<and> tx_Outs (pp_Tx prepared) = \<lparr>out_Value = amount, out_PubKeyHash = pkh\<rparr> # rest \<and>
      (\<forall>o'\<in>set rest. out_PubKeyHash o' = pkhForKey K (keys ! 0))"
    using dec unfolding signed_inputs(2) [OF sg] by (auto simp: payment_outputs_def)
qed

lemma valid_hex_id: "length random = 32 \<Longrightarrow> valid_pending_id (hex_EncodeToString random)"
proof -
  assume "length random = 32"
  moreover from this have "hex_EncodeToString random \<noteq> []" using length_hex_Encode [of random] by (metis length_0_conv mult_is_0 zero_neq_numeral)
  ultimately show ?thesis by (simp add: valid_pending_id_def maximumPendingLen_def)
qed


section \<open>A payment of ten units\<close>

definition zero_view :: WalletViewSnapshot where
  "zero_view = \<lparr>wv_Network = RegTestMachineID, wv_Complete = True, wv_Tip = \<lparr>ts_Network = RegTestMachineID, ts_Hash = 1, ts_Height = 1\<rparr>,
     wv_SpendableOutputs = [\<lparr>so_OutPoint = OutPoint 89 0, so_AmountUnits = 5000000000, so_OwnerPKH = 0, so_OwnerIndex = 0\<rparr>],
     wv_SpendableUnits = 5000000000, wv_ImmatureOutputs = [], wv_ImmatureUnits = 0, wv_Activity = []\<rparr>"

definition zero_engine :: Engine where
  "zero_engine = \<lparr>en_network = RegTestMachineID, en_unlocked = Some (Inr [zero_key]), en_walletGeneration = 1, en_pending = []\<rparr>"

lemma zero_reply:
  assumes "gw_network g = RegTestMachineID"
  shows "remoteSnapshot (view_reply g [EncodeAddress sample_crypto 0] zero_view) = Inr (remote_of (zero_wallet\<lparr>sn_WalletSnapshotHash := h\<rparr>))"
  using assms by (simp add: remoteSnapshot_reply zero_view_def remote_of_def zero_wallet_def remote_entry_def entry_outpoint_def)

lemma zero_remote_prepare:
  obtains h prepared where "PrepareFromRemoteSnapshot sample_crypto RegTestMachineID (Inr [zero_key]) (remote_of (zero_wallet\<lparr>sn_WalletSnapshotHash := h\<rparr>))
      (EncodeAddress sample_crypto 4) 10 1 {} = Inr (zero_wallet\<lparr>sn_WalletSnapshotHash := h\<rparr>, prepared)"
proof -
  obtain c where c: "chain_reach sample_crypto canonicalRegTestParams True c" "ch_mempool c = []" "ch_tip c = child_index"
    "ch_mainIDs c = [bi_id (genesis_index sample_crypto canonicalRegTestParams), 1]" by (rule sample_grown)
  obtain h where h: "snapshotWithKeys sample_crypto c RegTestMachineID \<lparr>ts_Network = RegTestMachineID, ts_Hash = 1, ts_Height = 1\<rparr> [zero_key] =
      Inr (zero_wallet\<lparr>sn_WalletSnapshotHash := h\<rparr>)" by (rule grown_snapshot [OF c])
  let ?s = "zero_wallet\<lparr>sn_WalletSnapshotHash := h\<rparr>"
  have len: "length [zero_key] \<le> MaxWalletKeys" "length (sn_Outpoints ?s) \<le> MaxSnapshotOutpoints"
    by (simp_all add: zero_wallet_def MaxWalletKeys_def MaxSnapshotOutpoints_def)
  obtain prepared where p: "buildPaymentFromSnapshot sample_crypto [zero_key] ?s 4 10 1 {} = Inr prepared"
    "set (pp_SelectedOutpoints prepared) \<subseteq> {OutPoint 89 0}" by (rule zero_payment)
  then have "validateSelectedAnchored (pp_SelectedOutpoints prepared) (anchoredOutpoints ?s) = Inr ()"
    by (auto simp: validateSelectedAnchored_def anchoredOutpoints_def zero_wallet_def failIf_def list_ex_iff)
  then have "PrepareFromRemoteSnapshot sample_crypto RegTestMachineID (Inr [zero_key]) (remote_of ?s) (EncodeAddress sample_crypto 4) 10 1 {} = Inr (?s, prepared)"
    using remote_rebuilds_local [OF h len] p(1)
    by (simp add: PrepareFromRemoteSnapshot_def bindE_Inr_iff failIf_Inr_iff validatePaymentValues_iff
        DecodeAddress_EncodeAddress rejectOwnedDestination_def zero_pkh money)
  then show thesis by (rule that)
qed

lemma zero_amounts: "parseAmount ''0.0000001'' False = Inr 10" "parseAmount ''0.00000001'' True = Inr 1"
  by (simp_all add: parseAmount_def plain_decimal_def digit_def failIf_def ParseUint_def MaxMoneyUnits_def UnitsPerCoin_def Let_def)

lemma zero_begin: "preview_begin sample_crypto (EncodeAddress sample_crypto 4) ''0.0000001'' ''0.00000001'' zero_engine = Inr (10, 1, [EncodeAddress sample_crypto 0], 1)"
  by (simp add: preview_begin_def zero_amounts zero_engine_def ValidAddress_def DecodeAddress_EncodeAddress AddressesE_def zero_address failIf_def money)

lemma zero_prepared:
  assumes "gw_network g = RegTestMachineID"
  obtains p where "preview_prepare sample_crypto 0 (Inr (view_reply g [EncodeAddress sample_crypto 0] zero_view)) (EncodeAddress sample_crypto 4)
      (10, 1, [EncodeAddress sample_crypto 0], 1) zero_engine = (zero_engine, Inr p)"
proof -
  obtain h prepared where p: "PrepareFromRemoteSnapshot sample_crypto RegTestMachineID (Inr [zero_key]) (remote_of (zero_wallet\<lparr>sn_WalletSnapshotHash := h\<rparr>))
      (EncodeAddress sample_crypto 4) 10 1 {} = Inr (zero_wallet\<lparr>sn_WalletSnapshotHash := h\<rparr>, prepared)" by (rule zero_remote_prepare)
  have "prunePendingLocked 0 zero_engine = zero_engine" by (simp add: prunePendingLocked_def zero_engine_def)
  then have "preview_prepare sample_crypto 0 (Inr (view_reply g [EncodeAddress sample_crypto 0] zero_view)) (EncodeAddress sample_crypto 4)
      (10, 1, [EncodeAddress sample_crypto 0], 1) zero_engine = (zero_engine, Inr (zero_wallet\<lparr>sn_WalletSnapshotHash := h\<rparr>, prepared))"
    using zero_reply [OF assms, of h] p by (simp add: preview_prepare_def pendingRestrictions_def zero_engine_def pending_inputs_def maximumPending_def)
  then show thesis by (rule that)
qed

lemma zero_stored:
  obtains e1 where "storePending 0 0 (Some random) tx zero_engine = (e1, Inr (hex_EncodeToString random, pendingLifetime))"
  unfolding storePending_def by (simp add: Let_def zero_engine_def maximumPending_def prunePendingLocked_def)

lemma zero_preview:
  assumes "gw_network g = RegTestMachineID"
  obtains e1 preview tx where "\<forall>View. View [EncodeAddress sample_crypto 0] 0 g = (g, Inr (view_reply g [EncodeAddress sample_crypto 0] zero_view)) \<longrightarrow>
      PreviewSend sample_crypto View 0 (Some random) (EncodeAddress sample_crypto 4) ''0.0000001'' ''0.00000001'' zero_engine g = (e1, g, Inr preview)"
    and "map_of (en_pending e1) (se_PendingID preview) = Some \<lparr>pd_transaction = tx, pd_expiresAt = pendingLifetime, pd_inFlight = False\<rparr>"
proof -
  let ?v = "view_reply g [EncodeAddress sample_crypto 0] zero_view" and ?to = "EncodeAddress sample_crypto 4" and ?q = "(10, 1, [EncodeAddress sample_crypto 0], 1)"
  obtain p where prep: "preview_prepare sample_crypto 0 (Inr ?v) ?to ?q zero_engine = (zero_engine, Inr p)" by (rule zero_prepared [OF assms])
  obtain e1 where st: "storePending 0 0 (Some random) (pp_Tx (snd p)) zero_engine = (e1, Inr (hex_EncodeToString random, pendingLifetime))" by (rule zero_stored)
  let ?preview = "preview_result sample_crypto ?to ?q p (hex_EncodeToString random, pendingLifetime)"
  have "map_of (en_pending e1) (se_PendingID ?preview) = Some \<lparr>pd_transaction = pp_Tx (snd p), pd_expiresAt = pendingLifetime, pd_inFlight = False\<rparr>"
    using storePending_entry(1) [OF st] by (simp add: preview_result_def Let_def split: prod.splits)
  moreover have "PreviewSend sample_crypto View 0 (Some random) ?to ''0.0000001'' ''0.00000001'' zero_engine g = (e1, g, Inr ?preview)"
    if "View [EncodeAddress sample_crypto 0] 0 g = (g, Inr ?v)" for View
    using that zero_begin prep st by (simp add: PreviewSend_def)
  ultimately show thesis using that by blast
qed


section \<open>Interleaved calls\<close>

text \<open>The operations of one caller as steps: a reviewed payment, and a confirmation the gateway takes.\<close>

lemma preview_steps:
  assumes "reach mobile_init (mobile_step K) s" and "mb_prepared s = None" and "preview_prepare K now view dest request (mb_engine s) = (e, Inr p)"
    and "storePending created later (Some random) (pp_Tx (snd p)) e = (e', r)" and "hex_EncodeToString random \<notin> mb_used s"
  shows "reach mobile_init (mobile_step K) (s\<lparr>mb_engine := e', mb_prepared := None, mb_used := insert (hex_EncodeToString random) (mb_used s)\<rparr>)"
proof -
  let ?t = "s\<lparr>mb_engine := e, mb_prepared := Some (pp_Tx (snd p))\<rparr>"
  have "reach mobile_init (mobile_step K) ?t" using reach_step [OF assms(1) mobile_prepare [OF assms(2,3)]] by simp
  from reach_step [OF this mobile_store [of ?t "pp_Tx (snd p)" created later "Some random" e' r]] show ?thesis using assms(2,4,5) by simp
qed

lemma confirm_steps:
  assumes "reach mobile_init (mobile_step K) s" and "ConfirmSend K Broadcast now i (mb_engine s) g = (e, g', Inr r)"
  shows "reach mobile_init (mobile_step K) (s\<lparr>mb_engine := e, mb_sent := i # mb_sent s\<rparr>)"
proof -
  obtain e1 tx where b: "confirm_begin now i (mb_engine s) = (e1, Inr tx)" and f: "confirm_end K i tx (snd (Broadcast (Some tx) g)) e1 = (e, Inr r)"
    using assms(2) by (auto simp: ConfirmSend_def split: prod.splits sum.splits)
  let ?t = "s\<lparr>mb_engine := e1, mb_calls := (i, tx) # mb_calls s\<rparr>"
  have "reach mobile_init (mobile_step K) ?t" using reach_step [OF assms(1) mobile_confirm [OF b]] by simp
  have f': "confirm_end K i tx (snd (Broadcast (Some tx) g)) (mb_engine ?t) = (e, Inr r)" using f by simp
  from reach_step [OF \<open>reach mobile_init (mobile_step K) ?t\<close> mobile_settle [of i tx ?t, OF _ f']] show ?thesis by simp
qed



end
