(* ===== verification/Spec2Isabelle.thy ===== *)
theory Spec2Isabelle
  imports Keys WalletTheorems Store PoolIssue PeerSync MobilePayment
begin

text \<open>
  A verification of the Go node of the Bitcoin09 currency (\<^verbatim>\<open>src/core\<close>, \<^verbatim>\<open>src/wallet\<close>,
  \<^verbatim>\<open>src/pool\<close>, \<^verbatim>\<open>src/p2p\<close>), of its light wallet service (\<^verbatim>\<open>src/lightwallet\<close>) and of the engine of the mobile wallet
  (\<^verbatim>\<open>src/mobilewallet\<close>).

  \<^bold>\<open>The program.\<close> A \<^emph>\<open>chain\<close> keeps an index of known blocks, the best chain, the set of unspent
  outputs and a mempool; blocks and transactions come in from peers, from the local miner and from the block
  file, and fork choice follows the accumulated work. The \<^emph>\<open>miner\<close> builds templates from the mempool. The
  \<^emph>\<open>pool\<close> hands templates to remote miners, either for one address (solo) or with a coinbase that pays the
  window of the last shares (PPLNS). The \<^emph>\<open>wallet\<close> prepares and signs transactions from a snapshot of the
  chain, or from the data a gateway gives to a light wallet. The \<^emph>\<open>node\<close> of \<^verbatim>\<open>p2p\<close> connects chains: it limits
  its connections, gossips addresses and synchronises blocks. The \<^emph>\<open>gateway\<close> of \<^verbatim>\<open>lightwallet\<close> answers wallets that
  have no chain over HTTP, and its \<^emph>\<open>client\<close> trusts no answer it has not checked; the \<^emph>\<open>engine\<close> of \<^verbatim>\<open>mobilewallet\<close> uses that
  client to show balances and to review, send and cancel payments.

  \<^bold>\<open>How the code is modelled.\<close> Structures are records and every function is a HOL function that keeps the
  order of the checks of its source; an error return is \<open>Inl\<close> of a value of type \<open>error\<close> whose text is the
  text of the code. 64-bit integers are \<open>int\<close> with the wrap-around written out (\<open>wrap64\<close>, \<open>wrapu64\<close>) wherever
  the source can overflow; \<^verbatim>\<open>math/big\<close> values are unbounded. A method that changes its receiver returns the
  changed record. Code under one lock is one step; concurrency is the interleaving of such steps in an
  inductive relation (\<open>chain_step\<close>, \<open>window_step\<close>, \<open>coord_step\<close>, \<open>pool_step\<close>, \<open>node_step\<close>, \<open>mobile_step\<close>), and the
  invariants are interpretations of the locale \<open>state_machine\<close> of theory \<open>Prelude\<close>. The iteration order of
  a Go map is an argument, or an association list, where it can be observed.

  \<^bold>\<open>Parameters.\<close> SHA-256, Argon2id and Ed25519 are the fields of the record \<open>crypto\<close>, an argument of
  every definition that uses them; what a theorem needs of them (a signature made with a key verifies; hashes
  have their length; where binding is claimed, that two given texts do not collide) is a hypothesis of that theorem. The
  parsers and printers of IP addresses and \<^verbatim>\<open>strings.ToLower\<close> are the record \<open>text_lib\<close>;
  \<^verbatim>\<open>encoding/json\<close> is a pair of functions with the round trip as a hypothesis; the gateway and its client get the codec
  of each message as the record \<open>json_lib\<close>, the parsed URL and the transport as arguments; the file system operations of
  the block store are the record \<open>StoreOps\<close>; the encrypted wallet file of the phone, its clock and its random source are arguments of the
  operations of the engine. Every witness instantiates them with concrete functions.

  \<^bold>\<open>Theories.\<close>
  \<^item> \<open>Prelude\<close>, \<open>Codec\<close>, \<open>Hex\<close>, \<open>Heap\<close>: machine integers, results, reachability; the codecs of the wire
    format as interpretations of the locale \<open>byte_codec\<close>; hexadecimal text; \<^verbatim>\<open>container/heap\<close> over the
    locale \<open>heap_order\<close>.
  \<^item> \<open>Params\<close> (\<^verbatim>\<open>core/params.go\<close>), \<open>Tx\<close> (\<^verbatim>\<open>core/tx.go\<close>), \<open>Keys\<close> (\<^verbatim>\<open>core/keys.go\<close>), \<open>Pow\<close> and \<open>Difficulty\<close>
    (\<^verbatim>\<open>core/pow.go\<close>), \<open>Merkle\<close> and \<open>Block\<close> (\<^verbatim>\<open>core/block.go\<close>, \<^verbatim>\<open>core/genesis.go\<close>): data, encodings and
    their round trips, checked money, subsidy and emission, the compact targets, the ASERT rule against its
    exact formula, Merkle branches.
  \<^item> \<open>Ledger\<close> and \<open>Supply\<close> (\<^verbatim>\<open>core/chain.go\<close>): validation of transactions and blocks against the unspent outputs,
    undo records; declarative rules that the code refines, no double spending, no inflation.
  \<^item> \<open>Chain\<close>, \<open>Branch\<close>, \<open>Consensus\<close>, \<open>ChainTheorems\<close> (\<^verbatim>\<open>core/chain.go\<close>): block acceptance with
    reorganisation, the mempool; the invariant of the chain state over every interleaving; the best chain replays
    from genesis to the current ledger, has the most work, caps the supply; a refused block changes nothing;
    header checks are exactly the declarative rule; every valid block is accepted. The locale \<open>ledger\<close>
    of \<open>Branch\<close> states what replay needs of a ledger.
  \<^item> \<open>ChainView\<close>, \<open>WalletView\<close>, \<open>WalletTheorems\<close> (\<^verbatim>\<open>core/chain.go\<close>, \<^verbatim>\<open>core/wallet_view.go\<close>): the read-only
    snapshots; the wallet's scan of the blocks agrees with the ledger.
  \<^item> \<open>Store\<close> (\<^verbatim>\<open>core/store.go\<close>): the block file; decoding a saved chain restores it, saving is atomic and never
    replaces more work by less, loading is all or nothing.
  \<^item> \<open>Miner\<close> (\<^verbatim>\<open>core/miner.go\<close>): templates; every template, once mined, is accepted.
  \<^item> \<open>Pplns\<close>, \<open>PplnsTheorems\<close>, \<open>PplnsWindow\<close> (\<^verbatim>\<open>pool/pplns.go\<close>), \<open>PoolWork\<close>, \<open>PoolWorkTheorems\<close>
    (\<^verbatim>\<open>pool/work.go\<close>, \<^verbatim>\<open>pool/pplns_work.go\<close>), \<open>JobTable\<close>, \<open>Coordinator\<close>, \<open>CoordinatorTheorems\<close>
    (\<^verbatim>\<open>pool/coordinator.go\<close>), \<open>PplnsCoordinator\<close>, \<open>PplnsCoordinatorTheorems\<close>, \<open>PoolIssue\<close>
    (\<^verbatim>\<open>pool/pplns_coordinator.go\<close>): exact-sum payout, the share window and its file, what a miner's checks
    guarantee, bounded job tables, one credit per nonce, and that the pool's work passes the miner's checks.
  \<^item> \<open>Payment\<close>, \<open>PaymentTheorems\<close>, \<open>SnapshotTheorems\<close>, \<open>PaymentChain\<close>, \<open>Cleanup\<close>, \<open>CleanupTheorems\<close>,
    \<open>SampleWallet\<close> (\<^verbatim>\<open>wallet/wallet.go\<close>, \<^verbatim>\<open>wallet/maximum.go\<close>, \<^verbatim>\<open>wallet/consolidation.go\<close>): coin selection
    equals a reference definition; snapshots are well formed and bound by their hash; a prepared payment is
    accepted by the chain with the fee asked for; a light wallet prepares what a full wallet prepares; what a
    dishonest gateway cannot do; maximum sends and cleanups.
  \<^item> \<open>PeerAddress\<close>, \<open>Peer\<close>, \<open>PeerTheorems\<close>, \<open>PeerSync\<close> (\<^verbatim>\<open>p2p/p2p.go\<close>): addresses, connection slots, dialling,
    the handshake, every message handler and the framing; the limits hold under every interleaving, a node
    dials configured seeds and public addresses only, and a node that synchronises with another reaches
    its best chain.
  \<^item> \<open>Gateway\<close>, \<open>LightClient\<close>, \<open>ActivityTheorems\<close>, \<open>GatewayTheorems\<close> (\<^verbatim>\<open>lightwallet/gateway.go\<close>, \<^verbatim>\<open>lightwallet/client.go\<close>,
    \<^verbatim>\<open>lightwallet/types.go\<close>): the three requests from the bytes of the body to the bytes of the reply; what the client accepts is exactly a
    declarative rule, and it accepts what a gateway of a reachable chain answers. The five loops over outputs, two of the gateway
    and three of the client, are interpretations of the locale \<open>output_loop\<close>.
  \<^item> \<open>Mobile\<close>, \<open>MobileTheorems\<close>, \<open>MobilePayment\<close> (\<^verbatim>\<open>mobilewallet/engine.go\<close>, \<^verbatim>\<open>mobilewallet/amount.go\<close>,
    \<^verbatim>\<open>mobilewallet/models.go\<close>): amounts are read exactly; under every interleaving of calls waiting payments share no output and are taken
    at most once; a payment reviewed and confirmed on the phone enters the mempool of the gateway's chain, through the engine,
    the client, the gateway and the chain.

  \<^bold>\<open>Loops and fuel.\<close> Most loops are structural or have a measure. \<open>make_room\<close> (eviction of jobs) and
  \<open>branchTo_loop\<close> (the walk to genesis) are \<open>partial_function (option)\<close>, so that not returning is a value;
  \<open>issue_returns\<close> and the invariant of the index show that they return. The exchange of messages of
  \<open>PeerSync\<close> has fuel, and \<open>sync_converges\<close> gives an amount that is enough.

  \<^bold>\<open>Concrete runs.\<close> \<open>sample_crypto\<close>, a regression-test chain of one block (\<open>ChainTheorems\<close>), a wallet with one key
  (\<open>SampleWallet\<close>), a codec for one exchange (\<open>GatewayTheorems\<close>) and a told node (\<open>PeerTheorems\<close>) carry the witnesses, which evaluate the model.

  \<^bold>\<open>Not modelled.\<close> Sockets, the HTTP server and client library, timers, logging and process wiring
  (\<^verbatim>\<open>cmd\<close>, \<^verbatim>\<open>desktop\<close>, \<^verbatim>\<open>explorer\<close>, \<^verbatim>\<open>pool/http.go\<close>, \<^verbatim>\<open>pool/client.go\<close>): they call the modelled
  operations and keep no state of the currency. Of the mobile engine, the storage directory, the recovery phrase, the QR code and the
  JSON text of results. The message board \<^verbatim>\<open>nineinbox\<close> stands beside the currency. The recovery file (\<^verbatim>\<open>wallet/recovery_v2.go\<close>) is
  authenticated encryption by libraries. Key files are read and written by the
  operating system: the payment model takes the keys, or the error of reading them, as an argument. Goroutines
  of the miner, file locks and durable replacement are operating system services. Memory use and time are not
  part of the model.
\<close>

end
